(* ===== verification/Prelude.thy ===== *)
theory Prelude
  imports Main
begin

section \<open>Shared types, string operations and list lemmas\<close>

text \<open>
  What every component of the model shares: bytes and strings, fixed-width integer
  conversions, the operations of Rust's \<open>str\<close> and \<open>Vec\<close> the code uses, and
  the lemmas about them.  A Rust \<open>String\<close> is its UTF-8 byte sequence, a list of
  \<open>char\<close> (an Isabelle \<open>char\<close> is one byte).  The operations below only look at
  ASCII bytes, and a byte of a multi-byte UTF-8 sequence is never ASCII, so they agree
  with Rust's operations on Unicode scalar values.
\<close>

type_synonym byte = char

named_theorems str_simps \<open>equations of the string operations\<close>
named_theorems bytes_inj \<open>injectivity of byte encodings\<close>

subsection \<open>Fixed-width integers\<close>

definition i32_max :: int where "i32_max = 2147483647"
definition i32_min :: int where "i32_min = - 2147483648"
definition i64_max :: int where "i64_max = 9223372036854775807"
definition i64_min :: int where "i64_min = - 9223372036854775808"

text \<open>Rust's \<open>as i32\<close> and \<open>as usize\<close> keep the low bits.\<close>

definition as_i32 :: "int \<Rightarrow> int" where
  "as_i32 x = (x + 2 ^ 31) mod 2 ^ 32 - 2 ^ 31"

definition as_usize :: "int \<Rightarrow> nat" where
  "as_usize x = nat (x mod 2 ^ 64)"

text \<open>\<open>i32::saturating_add\<close>.\<close>

definition sat_add_i32 :: "int \<Rightarrow> int \<Rightarrow> int" where
  "sat_add_i32 a b = max i32_min (min i32_max (a + b))"

lemma as_i32_id: "i32_min \<le> x \<Longrightarrow> x \<le> i32_max \<Longrightarrow> as_i32 x = x"
  by (simp add: as_i32_def i32_min_def i32_max_def)

lemma as_usize_id: "0 \<le> x \<Longrightarrow> x < 2 ^ 64 \<Longrightarrow> as_usize x = nat x"
  by (simp add: as_usize_def)

subsection \<open>Little-endian byte encodings\<close>

text \<open>
  \<open>to_le_bytes\<close> of an integer of \<open>n\<close> bytes: the two's complement bytes, least
  significant first.
\<close>

primrec le_bytes :: "nat \<Rightarrow> int \<Rightarrow> byte list" where
  "le_bytes 0 x = []"
| "le_bytes (Suc n) x = char_of (x mod 256) # le_bytes n (x div 256)"

lemma length_le_bytes [simp]: "length (le_bytes n x) = n"
  by (induction n arbitrary: x) auto

lemma char_of_mod_256_inj: "char_of (x mod 256) = char_of (y mod 256) \<Longrightarrow> x mod 256 = y mod (256::int)"
  by (metis of_char_of mod_mod_trivial)

lemma le_bytes_mod: "le_bytes n x = le_bytes n y \<Longrightarrow> x mod 256 ^ n = y mod 256 ^ n"
proof (induction n arbitrary: x y)
  case 0
  then show ?case by simp
next
  case (Suc n)
  from Suc.prems have c: "char_of (x mod 256) = (char_of (y mod 256) :: char)"
    and rest: "le_bytes n (x div 256) = le_bytes n (y div 256)"
    by simp_all
  from c have low: "x mod 256 = y mod 256"
    by (rule char_of_mod_256_inj)
  from rest have high: "x div 256 mod 256 ^ n = y div 256 mod 256 ^ n"
    by (rule Suc.IH)
  have eq: "z mod (256 * 256 ^ n) = 256 * (z div 256 mod 256 ^ n) + z mod 256" for z :: int
    by (rule zmod_zmult2_eq) simp
  show ?case
    unfolding power_Suc eq low high ..
qed

lemma le_bytes_inj_unsigned:
  "le_bytes n x = le_bytes n y \<Longrightarrow> 0 \<le> x \<Longrightarrow> x < 256 ^ n \<Longrightarrow> 0 \<le> y \<Longrightarrow> y < 256 ^ n \<Longrightarrow> x = y"
  by (drule le_bytes_mod) simp

text \<open>Signed values of \<open>n + 1\<close> bytes differ by less than \<open>256 ^ (n + 1)\<close>.\<close>

lemma le_bytes_inj_dist:
  assumes "le_bytes n x = le_bytes n y" and "\<bar>x - y\<bar> < 256 ^ n"
  shows "x = y"
proof -
  from assms(1) have "(256 ^ n) dvd (x - y)"
    by (metis le_bytes_mod mod_eq_dvd_iff)
  with assms(2) have "x - y = 0"
    by (metis abs_abs dvd_imp_le_int linorder_not_less abs_numeral power_abs)
  then show ?thesis by simp
qed

definition is_i64 :: "int \<Rightarrow> bool" where "is_i64 x \<longleftrightarrow> i64_min \<le> x \<and> x \<le> i64_max"
definition is_i32 :: "int \<Rightarrow> bool" where "is_i32 x \<longleftrightarrow> i32_min \<le> x \<and> x \<le> i32_max"

lemma le_bytes_i64_inj [bytes_inj]:
  "le_bytes 8 x = le_bytes 8 y \<Longrightarrow> is_i64 x \<Longrightarrow> is_i64 y \<Longrightarrow> x = y"
  by (rule le_bytes_inj_dist) (auto simp: is_i64_def i64_min_def i64_max_def)

lemma le_bytes_i32_inj [bytes_inj]:
  "le_bytes 4 x = le_bytes 4 y \<Longrightarrow> is_i32 x \<Longrightarrow> is_i32 y \<Longrightarrow> x = y"
  by (rule le_bytes_inj_dist) (auto simp: is_i32_def i32_min_def i32_max_def)

text \<open>Two equal streams whose first parts have the same length split in the same place.\<close>

lemma append_eq_len:
  "xs @ zs = ys @ ws \<Longrightarrow> length xs = length ys \<Longrightarrow> xs = ys \<and> zs = ws"
  by simp

subsection \<open>Length-prefixed encodings\<close>

text \<open>
  What the code feeds to a hasher for a string and for a list of integers: the length as
  a \<open>u32\<close> (\<open>as u32\<close> keeps the low 32 bits), then the content.
\<close>

definition enc_len :: "nat \<Rightarrow> byte list" where
  "enc_len n = le_bytes 4 (int n)"

definition enc_str :: "string \<Rightarrow> byte list" where
  "enc_str s = enc_len (length s) @ s"

definition enc_ints :: "nat \<Rightarrow> int list \<Rightarrow> byte list" where
  "enc_ints n xs = enc_len (length xs) @ concat (map (le_bytes n) xs)"

definition fits_u32 :: "nat \<Rightarrow> bool" where
  "fits_u32 n \<longleftrightarrow> n < 2 ^ 32"

lemma length_enc_len [simp]: "length (enc_len n) = 4"
  by (simp add: enc_len_def)

lemma enc_len_inj [bytes_inj]:
  "enc_len m = enc_len n \<Longrightarrow> fits_u32 m \<Longrightarrow> fits_u32 n \<Longrightarrow> m = n"
  unfolding enc_len_def fits_u32_def by (drule le_bytes_inj_unsigned) auto

lemma enc_len_split:
  assumes "enc_len m @ xs = enc_len n @ ys" and "fits_u32 m" "fits_u32 n"
  shows "m = n \<and> xs = ys"
  using assms append_eq_len [OF assms(1)] enc_len_inj by auto

lemma enc_str_split:
  assumes "enc_str s @ r = enc_str t @ u" and "fits_u32 (length s)" "fits_u32 (length t)"
  shows "s = t \<and> r = u"
  using enc_len_split [of "length s" "s @ r" "length t" "t @ u"] assms by (simp add: enc_str_def)

lemma concat_le_bytes_split:
  assumes inj: "\<And>x y. ok x \<Longrightarrow> ok y \<Longrightarrow> le_bytes n x = le_bytes n y \<Longrightarrow> x = y"
  shows "length xs = length ys \<Longrightarrow> concat (map (le_bytes n) xs) @ r = concat (map (le_bytes n) ys) @ u \<Longrightarrow>
    list_all ok xs \<Longrightarrow> list_all ok ys \<Longrightarrow> xs = ys \<and> r = u"
proof (induction xs ys rule: list_induct2)
  case (Cons x xs y ys)
  then have "le_bytes n x = le_bytes n y \<and> concat (map (le_bytes n) xs) @ r = concat (map (le_bytes n) ys) @ u"
    by (intro append_eq_len) simp_all
  with Cons inj [of x y] show ?case by simp
qed simp

lemma enc_ints_split:
  assumes "enc_ints n xs @ r = enc_ints n ys @ u" and "fits_u32 (length xs)" "fits_u32 (length ys)"
    and inj: "\<And>x y. ok x \<Longrightarrow> ok y \<Longrightarrow> le_bytes n x = le_bytes n y \<Longrightarrow> x = y"
    and "list_all ok xs" "list_all ok ys"
  shows "xs = ys \<and> r = u"
proof -
  from assms(1-3) have "length xs = length ys"
    and "concat (map (le_bytes n) xs) @ r = concat (map (le_bytes n) ys) @ u"
    using enc_len_split [of "length xs" "concat (map (le_bytes n) xs) @ r" "length ys"]
    by (auto simp: enc_ints_def)
  from concat_le_bytes_split [OF inj this assms(5,6)] show ?thesis .
qed

lemmas enc_i64s_split = enc_ints_split [of 8 _ _ _ _ is_i64, OF _ _ _ le_bytes_i64_inj]
lemmas enc_i32s_split = enc_ints_split [of 4 _ _ _ _ is_i32, OF _ _ _ le_bytes_i32_inj]

subsection \<open>Operations of \<open>str\<close>\<close>

text \<open>\<open>str::split\<close> with a predicate: always at least one piece.\<close>

fun split_on :: "('a \<Rightarrow> bool) \<Rightarrow> 'a list \<Rightarrow> 'a list list" where
  "split_on p [] = [[]]"
| "split_on p (c # cs) =
     (if p c then [] # split_on p cs
      else (case split_on p cs of [] \<Rightarrow> [[c]] | w # ws \<Rightarrow> (c # w) # ws))"

text \<open>\<open>[String]::join\<close>.\<close>

fun join_with :: "'a list \<Rightarrow> 'a list list \<Rightarrow> 'a list" where
  "join_with sep [] = []"
| "join_with sep [w] = w"
| "join_with sep (w # v # ws) = w @ sep @ join_with sep (v # ws)"

text \<open>\<open>str::replace\<close> of one character by another.\<close>

definition replace_char :: "char \<Rightarrow> char \<Rightarrow> string \<Rightarrow> string" where
  "replace_char a b s = map (\<lambda>c. if c = a then b else c) s"

text \<open>ASCII white space, as \<open>str::trim\<close> removes it.\<close>

definition is_ws :: "char \<Rightarrow> bool" where
  "is_ws c \<longleftrightarrow> (of_char c :: nat) \<in> {9, 10, 11, 12, 13, 32}"

definition trim :: "string \<Rightarrow> string" where
  "trim s = rev (dropWhile is_ws (rev (dropWhile is_ws s)))"

fun strip_prefix :: "'a list \<Rightarrow> 'a list \<Rightarrow> 'a list option" where
  "strip_prefix [] s = Some s"
| "strip_prefix (p # ps) [] = None"
| "strip_prefix (p # ps) (c # cs) = (if p = c then strip_prefix ps cs else None)"

definition is_digit :: "char \<Rightarrow> bool" where
  "is_digit c \<longleftrightarrow> 48 \<le> (of_char c :: nat) \<and> (of_char c :: nat) \<le> 57"

definition is_upper :: "char \<Rightarrow> bool" where
  "is_upper c \<longleftrightarrow> 65 \<le> (of_char c :: nat) \<and> (of_char c :: nat) \<le> 90"

definition is_lower :: "char \<Rightarrow> bool" where
  "is_lower c \<longleftrightarrow> 97 \<le> (of_char c :: nat) \<and> (of_char c :: nat) \<le> 122"

definition is_ascii_alnum :: "char \<Rightarrow> bool" where
  "is_ascii_alnum c \<longleftrightarrow> is_digit c \<or> is_upper c \<or> is_lower c"

definition to_lower :: "char \<Rightarrow> char" where
  "to_lower c = (if is_upper c then char_of ((of_char c :: nat) + 32) else c)"

definition eq_ignore_case :: "string \<Rightarrow> string \<Rightarrow> bool" where
  "eq_ignore_case s t \<longleftrightarrow> map to_lower s = map to_lower t"

text \<open>
  \<open>str::chars().count()\<close>: the bytes that are not UTF-8 continuation bytes
  (\<open>0x80\<close> to \<open>0xBF\<close>).
\<close>

definition chars_count :: "string \<Rightarrow> nat" where
  "chars_count s = length (filter (\<lambda>c. \<not> (128 \<le> (of_char c :: nat) \<and> (of_char c :: nat) < 192)) s)"

lemma split_on_not_Nil [simp]: "split_on p s \<noteq> []"
  by (induction s) (auto split: list.splits)

lemma split_on_no_sep [str_simps]: "\<forall>c\<in>set s. \<not> p c \<Longrightarrow> split_on p s = [s]"
  by (induction s) auto

lemma split_on_pieces: "w \<in> set (split_on p s) \<Longrightarrow> c \<in> set w \<Longrightarrow> \<not> p c"
proof (induction s arbitrary: w)
  case Nil
  then show ?case by simp
next
  case (Cons a s)
  then show ?case by (fastforce split: list.splits if_splits)
qed

lemma split_on_subset: "w \<in> set (split_on p s) \<Longrightarrow> set w \<subseteq> set s"
proof (induction s arbitrary: w)
  case Nil
  then show ?case by simp
next
  case (Cons a s)
  then show ?case by (cases "split_on p s") (auto split: if_splits, blast+)
qed

lemma split_on_append_sep [str_simps]:
  "\<forall>c\<in>set w. \<not> p c \<Longrightarrow> p d \<Longrightarrow> split_on p (w @ d # s) = w # split_on p s"
  by (induction w) auto

lemma split_on_join [str_simps]:
  "ws \<noteq> [] \<Longrightarrow> \<forall>w\<in>set ws. \<forall>c\<in>set w. \<not> p c \<Longrightarrow> p d \<Longrightarrow> split_on p (join_with [d] ws) = ws"
proof (induction "[d]" ws rule: join_with.induct)
  case (2 w)
  then show ?case by (simp add: split_on_no_sep)
next
  case (3 w v ws)
  then show ?case by (simp add: split_on_append_sep)
qed simp

lemma join_split: "join_with [d] (split_on (\<lambda>c. c = d) s) = s"
proof (induction s)
  case Nil
  then show ?case by simp
next
  case (Cons a s)
  obtain w ws where ws: "split_on (\<lambda>c. c = d) s = w # ws"
    by (cases "split_on (\<lambda>c. c = d) s") auto
  with Cons show ?case by (cases ws) auto
qed

lemma set_join_with: "set (join_with sep ws) \<subseteq> set sep \<union> \<Union> (set ` set ws)"
  by (induction sep ws rule: join_with.induct) auto

lemma strip_prefix_iff [str_simps]: "strip_prefix p s = Some r \<longleftrightarrow> s = p @ r"
  by (induction p s rule: strip_prefix.induct) auto

lemma strip_prefix_append [simp]: "strip_prefix p (p @ r) = Some r"
  by (simp add: strip_prefix_iff)

lemma dropWhile_hd_id: "s = [] \<or> \<not> p (hd s) \<Longrightarrow> dropWhile p s = s"
  by (cases s) auto

lemma trim_id: "s = [] \<or> \<not> is_ws (hd s) \<and> \<not> is_ws (last s) \<Longrightarrow> trim s = s"
proof (cases "s = []")
  case False
  moreover assume "s = [] \<or> \<not> is_ws (hd s) \<and> \<not> is_ws (last s)"
  ultimately show ?thesis
    by (simp add: trim_def dropWhile_hd_id hd_rev)
qed (simp add: trim_def)

text \<open>
  \<open>str::parse\<close> of an integer type with range \<open>lo .. hi\<close>: an optional \<open>+\<close>, or \<open>-\<close> for a
  signed type, then at least one digit.
\<close>

fun digits_value :: "int \<Rightarrow> string \<Rightarrow> int option" where
  "digits_value acc [] = Some acc"
| "digits_value acc (c # cs) =
     (if is_digit c then digits_value (acc * 10 + ((of_char c :: int) - 48)) cs else None)"

definition parse_int :: "int \<Rightarrow> int \<Rightarrow> string \<Rightarrow> int option" where
  "parse_int lo hi s =
     (let (neg, ds) = (case s of
            [] \<Rightarrow> (False, [])
          | c # cs \<Rightarrow> if c = CHR ''+'' then (False, cs) else if c = CHR ''-'' \<and> lo < 0 then (True, cs) else (False, s))
      in if ds = [] then None
         else (case digits_value 0 ds of
                 None \<Rightarrow> None
               | Some n \<Rightarrow> (let v = (if neg then - n else n) in if lo \<le> v \<and> v \<le> hi then Some v else None)))"

definition parse_i32 :: "string \<Rightarrow> int option" where "parse_i32 s = parse_int i32_min i32_max s"
definition parse_i64 :: "string \<Rightarrow> int option" where "parse_i64 s = parse_int i64_min i64_max s"
definition parse_usize :: "string \<Rightarrow> nat option" where
  "parse_usize s = map_option nat (parse_int 0 18446744073709551615 s)"

lemma parse_int_range: "parse_int lo hi s = Some v \<Longrightarrow> lo \<le> v \<and> v \<le> hi"
  by (auto simp: parse_int_def Let_def split: prod.splits option.splits if_splits list.splits)

subsection \<open>Sorted, deduplicated id lists\<close>

text \<open>
  \<open>ids.sort_unstable(); ids.dedup()\<close>: \<open>Vec::dedup\<close> removes consecutive repeats.
  On integers an unstable sort has the same result as a stable one.
\<close>

definition sort_dedup :: "'a::linorder list \<Rightarrow> 'a list" where
  "sort_dedup xs = remdups_adj (sort xs)"

lemma set_sort_dedup [simp]: "set (sort_dedup xs) = set xs"
  by (simp add: sort_dedup_def)

lemma sorted_distinct_remdups_adj: "sorted xs \<Longrightarrow> sorted (remdups_adj xs) \<and> distinct (remdups_adj xs)"
proof (induction xs rule: remdups_adj.induct)
  case (3 x y xs)
  then show ?case
    by (cases "x = y") (auto simp: order.antisym)
qed auto

lemma sorted_sort_dedup [simp]: "sorted (sort_dedup xs)"
  by (simp add: sort_dedup_def sorted_distinct_remdups_adj)

lemma distinct_sort_dedup [simp]: "distinct (sort_dedup xs)"
  by (simp add: sort_dedup_def sorted_distinct_remdups_adj)

lemma sort_dedup_cong: "set xs = set ys \<Longrightarrow> sort_dedup xs = sort_dedup ys"
  by (rule sorted_distinct_set_unique) auto

lemma sort_dedup_idem [simp]: "sort_dedup (sort_dedup xs) = sort_dedup xs"
  by (rule sort_dedup_cong) simp

lemma sort_dedup_eq_Nil [simp]: "sort_dedup xs = [] \<longleftrightarrow> xs = []"
  by (metis set_empty set_sort_dedup)

subsection \<open>Options\<close>

text \<open>\<open>filter_map\<close> over options already computed.\<close>

fun somes :: "'a option list \<Rightarrow> 'a list" where
  "somes [] = []"
| "somes (None # xs) = somes xs"
| "somes (Some x # xs) = x # somes xs"

lemma set_somes: "set (somes xs) = {x. Some x \<in> set xs}"
  by (induction xs rule: somes.induct) auto

lemma somes_eq_Nil: "somes xs = [] \<longleftrightarrow> (\<forall>x\<in>set xs. x = None)"
  by (induction xs rule: somes.induct) auto

subsection \<open>Results\<close>

text \<open>The early return of \<open>?\<close> on a plain result, and \<open>map_err\<close>.\<close>

fun rbind :: "'e + 'a \<Rightarrow> ('a \<Rightarrow> 'e + 'b) \<Rightarrow> 'e + 'b" where
  "rbind (Inl e) f = Inl e"
| "rbind (Inr a) f = f a"

fun map_err :: "('e \<Rightarrow> 'f) \<Rightarrow> 'e + 'a \<Rightarrow> 'f + 'a" where
  "map_err h (Inl e) = Inl (h e)"
| "map_err h (Inr a) = Inr a"

lemma rbind_Inr: "rbind r f = Inr b \<longleftrightarrow> (\<exists>a. r = Inr a \<and> f a = Inr b)"
  by (cases r) auto

lemma map_err_Inr [simp]: "map_err h r = Inr a \<longleftrightarrow> r = Inr a"
  by (cases r) auto

text \<open>Collecting a list of results stops at the first error (\<open>collect::<Result<_>>\<close>).\<close>

fun collect_results :: "('e + 'a) list \<Rightarrow> 'e + 'a list" where
  "collect_results [] = Inr []"
| "collect_results (Inl e # rs) = Inl e"
| "collect_results (Inr x # rs) =
     (case collect_results rs of Inl e \<Rightarrow> Inl e | Inr xs \<Rightarrow> Inr (x # xs))"

lemma collect_results_Inr_iff:
  "collect_results rs = Inr xs \<longleftrightarrow> rs = map Inr xs"
proof (induction rs arbitrary: xs rule: collect_results.induct)
  case (3 x rs)
  show ?case
  proof (cases "collect_results rs")
    case (Inl e)
    with 3 have "rs \<noteq> map Inr ys" for ys by auto
    with Inl show ?thesis by (cases xs) auto
  next
    case (Inr ys)
    with 3 show ?thesis by (cases xs) auto
  qed
qed auto

subsection \<open>Stateful steps that may fail\<close>

text \<open>
  A function of the state that returns an error or a value with the new state; \<open>sbind\<close> is
  the early return of \<open>?\<close>.
\<close>

type_synonym ('s, 'e, 'a) step = "'s \<Rightarrow> ('e + 'a) \<times> 's"

definition sreturn :: "'a \<Rightarrow> ('s, 'e, 'a) step" where
  "sreturn a = (\<lambda>s. (Inr a, s))"

definition sbind :: "('s, 'e, 'a) step \<Rightarrow> ('a \<Rightarrow> ('s, 'e, 'b) step) \<Rightarrow> ('s, 'e, 'b) step" where
  "sbind m f = (\<lambda>s. case m s of (Inl e, s') \<Rightarrow> (Inl e, s') | (Inr a, s') \<Rightarrow> f a s')"

text \<open>A \<open>for\<close> loop with \<open>?\<close> in its body, collecting the values.\<close>

fun smap :: "('x \<Rightarrow> ('s, 'e, 'a) step) \<Rightarrow> 'x list \<Rightarrow> ('s, 'e, 'a list) step" where
  "smap f [] = sreturn []"
| "smap f (x # xs) = sbind (f x) (\<lambda>a. sbind (smap f xs) (\<lambda>as. sreturn (a # as)))"

lemma sbind_Inr: "sbind m f s = (Inr b, s') \<longleftrightarrow> (\<exists>a t. m s = (Inr a, t) \<and> f a t = (Inr b, s'))"
  by (auto simp: sbind_def split: prod.splits sum.splits)

lemma sreturn_Inr: "sreturn a s = (Inr b, s') \<longleftrightarrow> b = a \<and> s' = s"
  by (auto simp: sreturn_def)

lemma smap_length: "smap f xs s = (Inr ys, s') \<Longrightarrow> length ys = length xs"
  by (induction xs arbitrary: ys s s') (auto simp: sbind_Inr sreturn_Inr)

end
