(* ===== verification/Line_Index.thy ===== *)
theory Line_Index
  imports Prelude
begin

section \<open>Byte offsets, lines and columns\<close>

text \<open>
  \<open>askld/src/line_index.rs\<close> (the table of line starts and both directions of the
  conversion), \<open>offset_from_line_col\<close> of \<open>index/src/symbols.rs\<close> and
  \<open>askld/src/offset_range.rs\<close>.  Offsets, lines and columns are \<open>usize\<close>
  (\<open>nat\<close>); the \<open>i32\<close> and \<open>i64\<close> results keep their width.
\<close>

definition newline :: byte where "newline = char_of (10::nat)"

record line_index =
  line_starts :: "nat list"

text \<open>The loop of \<open>LineIndex::new\<close> from byte \<open>idx\<close> on.\<close>

fun scan_line_starts :: "nat \<Rightarrow> byte list \<Rightarrow> nat list" where
  "scan_line_starts idx [] = []"
| "scan_line_starts idx (b # bs) =
     (if b = newline then (idx + 1) # scan_line_starts (Suc idx) bs
      else scan_line_starts (Suc idx) bs)"

definition line_index_new :: "byte list \<Rightarrow> line_index" where
  "line_index_new content = \<lparr>line_starts = 0 # scan_line_starts 0 content\<rparr>"

text \<open>
  \<open>slice::partition_point\<close>: the number of leading elements that satisfy the predicate,
  on a slice where those elements come first.
\<close>

definition partition_point :: "('a \<Rightarrow> bool) \<Rightarrow> 'a list \<Rightarrow> nat" where
  "partition_point p xs = length (takeWhile p xs)"

definition line_of :: "line_index \<Rightarrow> nat \<Rightarrow> nat" where
  "line_of li offset = partition_point (\<lambda>start. start \<le> offset) (line_starts li)"

definition line_col_of :: "line_index \<Rightarrow> nat \<Rightarrow> nat \<times> nat" where
  "line_col_of li offset =
     (let line = line_of li offset;
          line_start = line_starts li ! (line - 1)
      in (line, offset - line_start + 1))"

definition line_count :: "line_index \<Rightarrow> nat" where
  "line_count li = length (line_starts li)"

text \<open>The loop of \<open>line_to_offset\<close>; \<open>None\<close> is the loop running off the end.\<close>

fun line_to_offset_loop :: "nat \<Rightarrow> nat \<Rightarrow> nat \<Rightarrow> byte list \<Rightarrow> int option" where
  "line_to_offset_loop line current idx [] = None"
| "line_to_offset_loop line current idx (b # bs) =
     (if b = newline then
        (if current + 1 = line then Some (int (idx + 1))
         else line_to_offset_loop line (current + 1) (Suc idx) bs)
      else line_to_offset_loop line current (Suc idx) bs)"

definition line_to_offset :: "byte list \<Rightarrow> nat \<Rightarrow> int option" where
  "line_to_offset content line =
     (if line = 0 then None
      else if line = 1 then Some 0
      else line_to_offset_loop line 1 0 content)"

function next_line_loop :: "byte list \<Rightarrow> nat \<Rightarrow> int" where
  "next_line_loop content idx =
     (if idx < length content then
        (if content ! idx = newline then int idx else next_line_loop content (Suc idx))
      else int (length content))"
  by pat_completeness auto
termination
  by (relation "measure (\<lambda>(content, idx). length content - idx)") auto

declare next_line_loop.simps [simp del]

definition next_line_offset :: "byte list \<Rightarrow> int \<Rightarrow> int" where
  "next_line_offset content start = next_line_loop content (as_usize start)"

text \<open>
  The loop of \<open>offset_from_line_col\<close>: \<open>Inl\<close> is its early return, \<open>Inr\<close> the values
  of \<open>current_line\<close> and \<open>line_start\<close> when it runs off the end.
\<close>

fun offset_loop :: "nat \<Rightarrow> nat \<Rightarrow> nat \<Rightarrow> nat \<Rightarrow> nat \<Rightarrow> byte list \<Rightarrow> int option + nat \<times> nat" where
  "offset_loop line col idx current line_start [] = Inr (current, line_start)"
| "offset_loop line col idx current line_start (b # bs) =
     (if b = newline then
        (if current = line then
           (let line_len = idx - line_start; col_idx = col - 1
            in Inl (if col_idx \<le> line_len then Some (as_i32 (int (line_start + col_idx))) else None))
         else offset_loop line col (Suc idx) (current + 1) (idx + 1) bs)
      else offset_loop line col (Suc idx) current line_start bs)"

definition offset_from_line_col :: "byte list \<Rightarrow> nat \<Rightarrow> nat \<Rightarrow> int option" where
  "offset_from_line_col content line col =
     (if line = 0 \<or> col = 0 then None
      else (case offset_loop line col 0 1 0 content of
              Inl r \<Rightarrow> r
            | Inr (current_line, line_start) \<Rightarrow>
                if current_line = line then
                  (let line_len = length content - line_start; col_idx = col - 1
                   in if col_idx \<le> line_len then Some (as_i32 (int (line_start + col_idx)))
                      else None)
                else None))"

subsection \<open>Range bounds\<close>

datatype bound = Included int | Excluded int | Unbounded

fun range_start :: "bound \<Rightarrow> int option" where
  "range_start (Included v) = Some v"
| "range_start (Excluded v) = Some (sat_add_i32 v 1)"
| "range_start Unbounded = None"

fun range_end :: "bound \<Rightarrow> int option" where
  "range_end (Excluded v) = Some v"
| "range_end (Included v) = Some (sat_add_i32 v 1)"
| "range_end Unbounded = None"

definition range_bounds_to_offsets :: "bound \<times> bound \<Rightarrow> (int \<times> int) option" where
  "range_bounds_to_offsets r =
     (case range_start (fst r) of
        None \<Rightarrow> None
      | Some s \<Rightarrow> (case range_end (snd r) of None \<Rightarrow> None | Some e \<Rightarrow> Some (s, e)))"

subsection \<open>Line starts are the positions after newlines\<close>

lemma scan_line_starts_gt: "s \<in> set (scan_line_starts idx bs) \<Longrightarrow> idx < s \<and> s \<le> idx + length bs"
  by (induction idx bs rule: scan_line_starts.induct) (auto split: if_splits)

lemma sorted_scan_line_starts: "sorted (scan_line_starts idx bs)"
  by (induction idx bs rule: scan_line_starts.induct) (auto dest: scan_line_starts_gt)

lemma distinct_scan_line_starts: "distinct (scan_line_starts idx bs)"
  by (induction idx bs rule: scan_line_starts.induct) (auto dest: scan_line_starts_gt)

lemma sorted_line_starts: "sorted (line_starts (line_index_new content))"
  by (simp add: line_index_new_def sorted_scan_line_starts)

lemma takeWhile_scan:
  "length (takeWhile (\<lambda>s. s \<le> off) (scan_line_starts idx bs)) =
     length (filter (\<lambda>b. b = newline) (take (off - idx) bs))"
proof (induction idx bs rule: scan_line_starts.induct)
  case (2 idx b bs)
  show ?case
  proof (cases "idx < off")
    case True
    then have "off - idx = Suc (off - Suc idx)" by simp
    with 2 True show ?thesis by auto
  next
    case False
    then have "\<forall>s\<in>set (scan_line_starts (Suc idx) bs). \<not> s \<le> off"
      by (auto dest: scan_line_starts_gt)
    then have "takeWhile (\<lambda>s. s \<le> off) (scan_line_starts (Suc idx) bs) = []"
      by (cases "scan_line_starts (Suc idx) bs") auto
    with False show ?thesis by auto
  qed
qed simp

lemma length_scan: "length (scan_line_starts idx bs) = length (filter (\<lambda>b. b = newline) bs)"
  by (induction idx bs rule: scan_line_starts.induct) auto

lemma line_of_newlines:
  "line_of (line_index_new content) off = Suc (length (filter (\<lambda>b. b = newline) (take off content)))"
  by (simp add: line_of_def partition_point_def line_index_new_def takeWhile_scan)

lemma line_of_bounds:
  "1 \<le> line_of (line_index_new content) off"
  "line_of (line_index_new content) off \<le> line_count (line_index_new content)"
proof -
  show "1 \<le> line_of (line_index_new content) off"
    by (simp add: line_of_newlines)
  have "length (takeWhile P xs) \<le> length xs" for P and xs :: "nat list"
    by (rule length_takeWhile_le)
  then show "line_of (line_index_new content) off \<le> line_count (line_index_new content)"
    by (simp add: line_of_def partition_point_def line_count_def)
qed

text \<open>The start of the line that holds an offset, and the start of the next line.\<close>

lemma line_start_le:
  assumes "line = line_of (line_index_new content) off"
  shows "line_starts (line_index_new content) ! (line - 1) \<le> off"
proof -
  let ?xs = "line_starts (line_index_new content)"
  have "line - 1 < length (takeWhile (\<lambda>s. s \<le> off) ?xs)"
    using line_of_bounds(1) [of content off] assms
    by (simp add: line_of_def partition_point_def)
  then show ?thesis
    by (metis nth_mem set_takeWhileD takeWhile_nth)
qed

lemma line_start_next:
  assumes "line = line_of (line_index_new content) off" and "line < line_count (line_index_new content)"
  shows "off < line_starts (line_index_new content) ! line"
  using assms nth_length_takeWhile [of "\<lambda>s. s \<le> off" "line_starts (line_index_new content)"]
  by (simp add: line_of_def partition_point_def line_count_def)

lemma line_to_offset_loop_eq:
  "current < line \<Longrightarrow> line_to_offset_loop line current idx bs =
     (let xs = scan_line_starts idx bs in
      if line - current \<le> length xs then Some (int (xs ! (line - current - 1))) else None)"
proof (induction line current idx bs rule: line_to_offset_loop.induct)
  case (2 line current idx b bs)
  show ?case
  proof (cases "b = newline \<and> current + 1 \<noteq> line")
    case True
    with 2 have less: "Suc current < line" by simp
    then obtain k where k: "line - current = Suc (Suc k)" "line - Suc current = Suc k"
      by (metis Suc_diff_Suc Suc_lessD less_imp_Suc_add diff_Suc_Suc)
    from True 2 less show ?thesis by (simp add: Let_def k)
  next
    case False
    with 2 show ?thesis by (auto simp: Let_def)
  qed
qed simp

lemma line_to_offset_eq:
  "line_to_offset content line =
     (if 1 \<le> line \<and> line \<le> line_count (line_index_new content)
      then Some (int (line_starts (line_index_new content) ! (line - 1))) else None)"
proof (cases "line \<le> 1")
  case True
  then show ?thesis
    by (auto simp: line_to_offset_def line_count_def line_index_new_def)
next
  case False
  then obtain k where "line = Suc (Suc k)"
    by (metis One_nat_def Suc_le_D nat_le_linear not_less_eq_eq)
  then show ?thesis
    by (simp add: line_to_offset_def line_to_offset_loop_eq line_count_def line_index_new_def Let_def)
qed


subsection \<open>Line and column back to the offset\<close>

text \<open>
  \<open>offset_from_line_col\<close> walks the same newlines: the line it looks for starts at
  \<open>st\<close> and, unless it is the last one, ends just before the next line start.
\<close>

lemma offset_loop_eq:
  "current \<le> line \<Longrightarrow> offset_loop line col idx current ls bs =
     (let xs = ls # scan_line_starts idx bs; k = line - current; st = xs ! k in
      if k + 1 < length xs
      then Inl (if col - 1 \<le> xs ! (k + 1) - 1 - st then Some (as_i32 (int (st + (col - 1)))) else None)
      else if k + 1 = length xs then Inr (line, st)
      else Inr (current + (length xs - 1), last xs))"
proof (induction line col idx current ls bs rule: offset_loop.induct)
  case (1 line col idx current ls)
  then show ?case by (auto simp: Let_def)
next
  case (2 line col idx current ls b bs)
  show ?case
  proof (cases "b = newline \<and> current \<noteq> line")
    case True
    with 2 have less: "Suc current \<le> line" by simp
    then obtain k where k: "line - current = Suc k" "line - Suc current = k"
      by (metis Suc_diff_le diff_Suc_Suc)
    from True 2 less show ?thesis by (simp add: Let_def k)
  next
    case False
    with 2 show ?thesis by (auto simp: Let_def)
  qed
qed

lemma offset_from_line_col_eq:
  assumes "1 \<le> line" and "line \<le> line_count (line_index_new content)" and "1 \<le> col"
    and st: "st = line_starts (line_index_new content) ! (line - 1)"
    and len: "st + (col - 1) \<le>
      (if line < line_count (line_index_new content)
       then line_starts (line_index_new content) ! line - 1 else length content)"
  shows "offset_from_line_col content line col = Some (as_i32 (int (st + (col - 1))))"
proof -
  let ?xs = "0 # scan_line_starts 0 content"
  have count: "line_count (line_index_new content) = length ?xs"
    by (simp add: line_count_def line_index_new_def)
  have starts: "line_starts (line_index_new content) = ?xs"
    by (simp add: line_index_new_def)
  show ?thesis
  proof (cases "line < length ?xs")
    case True
    with assms count starts show ?thesis
      by (simp add: offset_from_line_col_def offset_loop_eq Let_def)
  next
    case False
    with assms count have "line = length ?xs" by simp
    with assms(1,3) st len count starts show ?thesis
      by (simp add: offset_from_line_col_def offset_loop_eq Let_def)
  qed
qed

lemma line_start_pos: "k < length (scan_line_starts idx bs) \<Longrightarrow> idx < scan_line_starts idx bs ! k"
  by (meson nth_mem scan_line_starts_gt)

lemma next_line_loop_spec:
  "idx \<le> length content \<Longrightarrow> \<exists>e. next_line_loop content idx = int e \<and> idx \<le> e \<and> e \<le> length content
     \<and> (e < length content \<longrightarrow> content ! e = newline)
     \<and> (\<forall>i. idx \<le> i \<and> i < e \<longrightarrow> content ! i \<noteq> newline)"
proof (induction content idx rule: next_line_loop.induct)
  case (1 content idx)
  show ?case
  proof (cases "idx < length content \<and> content ! idx \<noteq> newline")
    case True
    then have "Suc idx \<le> length content" by simp
    with True "1.IH" obtain e where e: "next_line_loop content (Suc idx) = int e" "Suc idx \<le> e"
      "e \<le> length content" "e < length content \<longrightarrow> content ! e = newline"
      "\<forall>i. Suc idx \<le> i \<and> i < e \<longrightarrow> content ! i \<noteq> newline"
      by auto
    have "next_line_loop content idx = int e"
      using True e(1) by (subst next_line_loop.simps) simp
    moreover have "\<forall>i. idx \<le> i \<and> i < e \<longrightarrow> content ! i \<noteq> newline"
      using True e(5) by (metis Suc_leI le_neq_implies_less)
    ultimately show ?thesis using e by (metis Suc_leD)
  next
    case False
    with "1.prems" have "next_line_loop content idx = int idx"
      by (subst next_line_loop.simps) auto
    with False "1.prems" show ?thesis by (intro exI [of _ idx]) auto
  qed
qed

subsection \<open>Properties\<close>

text \<open>
  The line of a byte offset, found by the search over the line-start table, is one
  more than the number of newlines before the offset; offsets past the end give the
  last line.
\<close>

theorem line_of_counts_newlines:
  "line_of (line_index_new content) offset =
     1 + length (filter (\<lambda>b. b = newline) (take offset content))"
  by (simp add: line_of_newlines)

text \<open>
  C34. Converting an offset to a 1-based line and column and back with the indexer's
  \<open>offset_from_line_col\<close> gives the offset again, for every offset of a file whose
  length fits in an \<open>i32\<close>: the two modules agree on where lines begin and on columns.
\<close>

theorem line_col_roundtrip:
  assumes "offset \<le> length content" and "int (length content) \<le> i32_max"
  shows "offset_from_line_col content (fst (line_col_of (line_index_new content) offset))
           (snd (line_col_of (line_index_new content) offset)) = Some (int offset)"
proof -
  let ?li = "line_index_new content"
  define line st where "line = line_of ?li offset" and "st = line_starts ?li ! (line - 1)"
  have le: "st \<le> offset" unfolding st_def by (rule line_start_le [OF line_def])
  have bounds: "1 \<le> line" "line \<le> line_count ?li"
    unfolding line_def by (rule line_of_bounds)+
  have "st + (offset - st + 1 - 1) \<le>
      (if line < line_count ?li then line_starts ?li ! line - 1 else length content)"
    using le assms(1) line_start_next [OF line_def] by auto
  then have "offset_from_line_col content line (offset - st + 1) = Some (as_i32 (int offset))"
    using offset_from_line_col_eq [OF bounds, of "offset - st + 1" st] le st_def by simp
  moreover have "as_i32 (int offset) = int offset"
    using assms by (intro as_i32_id) (auto simp: i32_min_def)
  ultimately show ?thesis
    by (simp add: line_col_of_def Let_def line_def st_def)
qed

theorem line_col_roundtrip_witness:
  "offset_from_line_col ''ab'' (fst (line_col_of (line_index_new ''ab'') 1))
     (snd (line_col_of (line_index_new ''ab'') 1)) = Some 1"
  using line_col_roundtrip [of 1 "''ab''"] by (simp add: i32_max_def)

text \<open>
  \<open>line_to_offset\<close>, which scans the content, and the line-start table agree:
  it answers exactly for the lines of the file, with the offset that the table maps
  back to that line at column 1.
\<close>

theorem line_to_offset_exact:
  "(case line_to_offset content line of
      Some off \<Rightarrow> 0 \<le> off \<and> line_col_of (line_index_new content) (nat off) = (line, 1)
    | None \<Rightarrow> line = 0 \<or> line_count (line_index_new content) < line)"
proof (cases "1 \<le> line \<and> line \<le> line_count (line_index_new content)")
  case True
  let ?xs = "line_starts (line_index_new content)"
  have sd: "sorted ?xs" "distinct ?xs" "length ?xs = line_count (line_index_new content)"
    using sorted_line_starts distinct_scan_line_starts
    by (auto simp: line_index_new_def line_count_def dest: scan_line_starts_gt)
  have "takeWhile (\<lambda>s. s \<le> ?xs ! (line - 1)) ?xs = take line ?xs"
  proof (rule takeWhile_eq_take_P_nth)
    fix i assume "i < line" "i < length ?xs"
    then show "?xs ! i \<le> ?xs ! (line - 1)"
      using True sd by (intro sorted_nth_mono) auto
  next
    assume "line < length ?xs"
    then have "?xs ! (line - 1) \<le> ?xs ! line" "?xs ! (line - 1) \<noteq> ?xs ! line"
      using True sd by (auto intro!: sorted_nth_mono simp: nth_eq_iff_index_eq)
    then show "\<not> ?xs ! line \<le> ?xs ! (line - 1)" by simp
  qed
  then have "line_of (line_index_new content) (?xs ! (line - 1)) = line"
    using True sd by (simp add: line_of_def partition_point_def)
  then show ?thesis using True
    by (simp add: line_to_offset_eq line_col_of_def)
next
  case False
  then show ?thesis by (auto simp: line_to_offset_eq)
qed

text \<open>
  The end of line that \<open>loc\<close> uses is the first newline at or after the start (or the
  end of the content): the range holds no newline and cannot be extended.
\<close>

theorem next_line_offset_is_line_end:
  assumes "0 \<le> start" and "start \<le> int (length content)" and "length content < 2 ^ 64"
  shows "start \<le> next_line_offset content start
     \<and> next_line_offset content start \<le> int (length content)
     \<and> (next_line_offset content start < int (length content)
          \<longrightarrow> content ! nat (next_line_offset content start) = newline)
     \<and> (\<forall>i. start \<le> int i \<and> int i < next_line_offset content start \<longrightarrow> content ! i \<noteq> newline)"
proof -
  have "start mod 2 ^ 64 = start"
    using assms by (intro mod_pos_pos_trivial) auto
  then have u: "as_usize start = nat start" by (simp add: as_usize_def)
  have "nat start \<le> length content" using assms by simp
  from next_line_loop_spec [OF this] obtain e where e: "next_line_loop content (nat start) = int e"
    "nat start \<le> e" "e \<le> length content" "e < length content \<longrightarrow> content ! e = newline"
    "\<forall>i. nat start \<le> i \<and> i < e \<longrightarrow> content ! i \<noteq> newline"
    by blast
  show ?thesis
    unfolding next_line_offset_def u e(1) using e(2-5) assms(1) by (simp add: nat_le_iff)
qed

theorem next_line_offset_is_line_end_witness:
  "next_line_offset [CHR ''a'', newline, CHR ''b''] 0 = 1
   \<and> [CHR ''a'', newline, CHR ''b''] ! nat (next_line_offset [CHR ''a'', newline, CHR ''b''] 0) = newline"
proof -
  have "next_line_offset [CHR ''a'', newline, CHR ''b''] 0 = 1"
    by code_simp
  then show ?thesis
    using next_line_offset_is_line_end [of 0 "[CHR ''a'', newline, CHR ''b'']"] by simp
qed

end
