(* ===== verification/Symbol_Names.thy ===== *)
theory Symbol_Names
  imports Prelude "HOL-Library.Sublist"
begin

section \<open>Symbol names: normalisation, paths, queries\<close>

text \<open>
  The name pipeline of \<open>index/src/symbols.rs\<close> (cleaning, tokens, \<open>ltree\<close> path and
  leaf, \<open>lquery\<close> patterns, in-memory matchers) and the pattern compilers of
  \<open>index/src/db_diesel/mixins.rs\<close> (\<open>extract_leaf_token\<close>, LIKE escaping, the two
  glob mixins).  \<open>char::is_uppercase\<close> is modelled on ASCII letters.
\<close>

subsection \<open>Symbol and instance kinds\<close>

definition SYMBOL_TYPE_FUNCTION :: int where "SYMBOL_TYPE_FUNCTION = 1"
definition SYMBOL_TYPE_FILE :: int where "SYMBOL_TYPE_FILE = 2"
definition SYMBOL_TYPE_MODULE :: int where "SYMBOL_TYPE_MODULE = 3"
definition SYMBOL_TYPE_DIRECTORY :: int where "SYMBOL_TYPE_DIRECTORY = 4"
definition SYMBOL_TYPE_TYPE :: int where "SYMBOL_TYPE_TYPE = 5"
definition SYMBOL_TYPE_DATA :: int where "SYMBOL_TYPE_DATA = 6"
definition SYMBOL_TYPE_MACRO :: int where "SYMBOL_TYPE_MACRO = 7"
definition SYMBOL_TYPE_FIELD :: int where "SYMBOL_TYPE_FIELD = 8"
definition SYMBOL_TYPE_CONTENT :: int where "SYMBOL_TYPE_CONTENT = 9"

definition INSTANCE_TYPE_DEFINITION :: int where "INSTANCE_TYPE_DEFINITION = 1"
definition INSTANCE_TYPE_DOCUMENTATION :: int where "INSTANCE_TYPE_DOCUMENTATION = 10"

lemmas symbol_type_defs =
  SYMBOL_TYPE_FUNCTION_def SYMBOL_TYPE_FILE_def SYMBOL_TYPE_MODULE_def
  SYMBOL_TYPE_DIRECTORY_def SYMBOL_TYPE_TYPE_def SYMBOL_TYPE_DATA_def
  SYMBOL_TYPE_MACRO_def SYMBOL_TYPE_FIELD_def SYMBOL_TYPE_CONTENT_def

subsection \<open>Cleaning and splitting\<close>

definition chars_to_remove :: "char list" where
  "chars_to_remove = ''*[]{},@- ()''"

definition is_name_sep :: "char \<Rightarrow> bool" where
  "is_name_sep c \<longleftrightarrow> c = CHR ''.'' \<or> c = CHR ''/'' \<or> c = CHR '':''"

definition clean_and_split_string :: "string \<Rightarrow> string list" where
  "clean_and_split_string input =
     filter (\<lambda>s. s \<noteq> [])
       (split_on is_name_sep (filter (\<lambda>c. c \<notin> set chars_to_remove) input))"

definition is_leaf_char :: "char \<Rightarrow> bool" where
  "is_leaf_char c \<longleftrightarrow> is_ascii_alnum c \<or> c = CHR ''_''"

definition normalize_symbol_tokens :: "string \<Rightarrow> string list" where
  "normalize_symbol_tokens input =
     filter (\<lambda>t. t \<noteq> []) (map (filter is_leaf_char) (clean_and_split_string input))"

definition symbol_name_to_path :: "string \<Rightarrow> string" where
  "symbol_name_to_path input =
     (let tokens = normalize_symbol_tokens input
      in if tokens = [] then ''unknown'' else join_with ''.'' tokens)"

definition dot_is_separator :: "int \<Rightarrow> bool" where
  "dot_is_separator symbol_type \<longleftrightarrow>
     symbol_type \<noteq> SYMBOL_TYPE_FILE \<and> symbol_type \<noteq> SYMBOL_TYPE_DIRECTORY"

definition symbol_path_and_leaf :: "string \<Rightarrow> int \<Rightarrow> string \<times> string" where
  "symbol_path_and_leaf name symbol_type =
     (let path = (if dot_is_separator symbol_type then symbol_name_to_path name
                  else symbol_name_to_path (replace_char CHR ''.'' CHR ''_'' name));
          leaf = last (split_on (\<lambda>c. c = CHR ''.'') path)
      in (path, leaf))"

definition smart_case_sensitive :: "string \<Rightarrow> bool" where
  "smart_case_sensitive pattern \<longleftrightarrow> list_ex is_upper pattern"

definition normalize_leaf_fragment :: "string \<Rightarrow> bool \<Rightarrow> string" where
  "normalize_leaf_fragment input dot_is_sep =
     filter is_leaf_char (if dot_is_sep then input else replace_char CHR ''.'' CHR ''_'' input)"

subsection \<open>lquery patterns\<close>

text \<open>The loop of \<open>build_lquery\<close> over the tokens from index \<open>i\<close> of \<open>n\<close>.\<close>

fun lquery_parts :: "bool \<Rightarrow> nat \<Rightarrow> nat \<Rightarrow> string list \<Rightarrow> string list" where
  "lquery_parts anchor_leaf n i [] = []"
| "lquery_parts anchor_leaf n i (token # tokens) =
     token # (if \<not> anchor_leaf \<or> i < n - 1 then [''*''] else [])
       @ lquery_parts anchor_leaf n (Suc i) tokens"

definition build_lquery :: "string \<Rightarrow> bool \<Rightarrow> bool \<Rightarrow> string option" where
  "build_lquery input anchor_leaf dot_is_sep =
     (let input = (if dot_is_sep then input else replace_char CHR ''.'' CHR ''_'' input);
          tokens = normalize_symbol_tokens input
      in if tokens = [] then None
         else Some (join_with ''.'' (''*'' # lquery_parts anchor_leaf (length tokens) 0 tokens)))"

definition symbol_query_to_lquery :: "string \<Rightarrow> string option" where
  "symbol_query_to_lquery input = build_lquery input False True"

definition symbol_query_to_leaf_lquery :: "string \<Rightarrow> string option" where
  "symbol_query_to_leaf_lquery input = build_lquery input True True"

definition extract_leaf_token :: "string \<Rightarrow> bool \<Rightarrow> string" where
  "extract_leaf_token name dot_is_sep =
     (let tokens = normalize_symbol_tokens
            (if dot_is_sep then name else replace_char CHR ''.'' CHR ''_'' name)
      in if tokens = [] then ''unknown'' else last tokens)"

subsection \<open>In-memory matchers\<close>

text \<open>The two-index loop of \<open>is_ordered_subset\<close>; it returns the final \<open>subset_idx\<close>.\<close>

function ordered_subset_loop :: "'a list \<Rightarrow> 'a list \<Rightarrow> nat \<Rightarrow> nat \<Rightarrow> nat" where
  "ordered_subset_loop super subs sub_idx sup_idx =
     (if sub_idx < length subs \<and> sup_idx < length super then
        (if subs ! sub_idx = super ! sup_idx
         then ordered_subset_loop super subs (Suc sub_idx) (Suc sup_idx)
         else ordered_subset_loop super subs sub_idx (Suc sup_idx))
      else sub_idx)"
  by pat_completeness auto
termination
  by (relation "measure (\<lambda>(super, subs, i, j). length super - j)") auto

declare ordered_subset_loop.simps [simp del]

definition is_ordered_subset :: "'a list \<Rightarrow> 'a list \<Rightarrow> bool" where
  "is_ordered_subset super subs =
     (if subs = [] then True
      else if length subs > length super then False
      else ordered_subset_loop super subs 0 0 = length subs)"

record mem_symbol =
  ms_name :: string
  ms_name_split :: "string list"

definition mem_symbol_new :: "string \<Rightarrow> mem_symbol" where
  "mem_symbol_new name = \<lparr>ms_name = name, ms_name_split = clean_and_split_string name\<rparr>"

definition exact_name_match :: "string \<Rightarrow> mem_symbol \<Rightarrow> mem_symbol option" where
  "exact_name_match name s = (if ms_name s = name then Some s else None)"

definition partial_name_match :: "string \<Rightarrow> mem_symbol \<Rightarrow> mem_symbol option" where
  "partial_name_match name s =
     (if is_ordered_subset (ms_name_split s) (clean_and_split_string name) then Some s else None)"

text \<open>The loop of \<open>package_match\<close> from index \<open>i\<close>; \<open>False\<close> is its early \<open>None\<close>.\<close>

fun package_loop :: "string list \<Rightarrow> nat \<Rightarrow> string list \<Rightarrow> bool" where
  "package_loop name_split i [] = True"
| "package_loop name_split i (p # pattern) =
     (if length name_split \<le> i + 1 then False
      else if name_split ! i \<noteq> p then False
      else package_loop name_split (Suc i) pattern)"

definition package_match :: "string \<Rightarrow> mem_symbol \<Rightarrow> mem_symbol option" where
  "package_match name s =
     (let search_pattern = clean_and_split_string name
      in if ms_name_split s = [] then None
         else if package_loop (ms_name_split s) 0 search_pattern then Some s else None)"

subsection \<open>LIKE patterns\<close>

definition push_like_escaped :: "string \<Rightarrow> char \<Rightarrow> string" where
  "push_like_escaped out c =
     (if c = CHR 0x5C \<or> c = CHR ''%'' \<or> c = CHR ''_'' then out @ [CHR 0x5C, c] else out @ [c])"

definition escape_like :: "string \<Rightarrow> string" where
  "escape_like s = foldl push_like_escaped [] s"

datatype glob_piece = Lit string | Star

record glob_name_mixin =
  gn_sql_pattern :: string
  gn_case_sensitive :: bool

text \<open>One round of the loop of \<open>GlobNameMixin::new\<close> on (pattern, case, last-was-wildcard).\<close>

fun glob_piece_step :: "bool \<Rightarrow> string \<times> bool \<times> bool \<Rightarrow> glob_piece \<Rightarrow> string \<times> bool \<times> bool" where
  "glob_piece_step dot_is_sep (out, cs, last_wild) Star =
     (if \<not> last_wild then (out @ ''%'', cs, True) else (out, cs, last_wild))"
| "glob_piece_step dot_is_sep (out, cs, last_wild) (Lit text) =
     (let normalized = normalize_leaf_fragment text dot_is_sep
      in (foldl push_like_escaped out normalized,
          cs \<or> smart_case_sensitive normalized,
          if normalized \<noteq> [] then False else last_wild))"

definition glob_name_mixin_new :: "glob_piece list \<Rightarrow> bool \<Rightarrow> bool \<Rightarrow> glob_name_mixin" where
  "glob_name_mixin_new pieces dot_is_sep anchored =
     (let start = (if \<not> anchored then (''%'', False, True) else ('''', False, False));
          (out, cs, last_wild) = foldl (glob_piece_step dot_is_sep) start pieces
      in \<lparr>gn_sql_pattern = (if \<not> anchored \<and> \<not> last_wild then out @ ''%'' else out),
          gn_case_sensitive = cs\<rparr>)"

record full_name_glob_mixin =
  fg_sql_pattern :: string
  fg_case_sensitive :: bool

fun full_glob_step :: "string \<times> bool \<Rightarrow> char \<Rightarrow> string \<times> bool" where
  "full_glob_step (out, last_wild) c =
     (if c = CHR ''*'' then (if \<not> last_wild then (out @ ''%'', True) else (out, last_wild))
      else (push_like_escaped out c, False))"

definition full_name_glob_mixin_new :: "string \<Rightarrow> full_name_glob_mixin" where
  "full_name_glob_mixin_new pattern =
     \<lparr>fg_sql_pattern = fst (foldl full_glob_step ('''', False) pattern),
      fg_case_sensitive = smart_case_sensitive pattern\<rparr>"


subsection \<open>Tokens\<close>

lemma leaf_char_not_special:
  "is_leaf_char c \<Longrightarrow> \<not> is_name_sep c \<and> c \<notin> set chars_to_remove \<and> c \<noteq> CHR ''.'' \<and> c \<noteq> CHR ''*''"
  by (auto simp: is_leaf_char_def is_ascii_alnum_def is_digit_def is_upper_def is_lower_def
      is_name_sep_def chars_to_remove_def)

lemma leaf_char_not_dot: "\<forall>c\<in>set t. is_leaf_char c \<Longrightarrow> CHR ''.'' \<notin> set t"
  using leaf_char_not_special by blast

lemma leaf_char_not_sep: "is_leaf_char c \<Longrightarrow> \<not> is_name_sep c"
  using leaf_char_not_special by blast

lemma normalize_tokens_wf:
  "t \<in> set (normalize_symbol_tokens s) \<Longrightarrow> t \<noteq> [] \<and> (\<forall>c\<in>set t. is_leaf_char c)"
  by (auto simp: normalize_symbol_tokens_def)

lemma unknown_leaf_chars: "\<forall>c\<in>set ''unknown''. is_leaf_char c"
  by (simp add: is_leaf_char_def is_ascii_alnum_def is_digit_def is_upper_def is_lower_def)

text \<open>The labels of the stored path.\<close>

definition path_labels :: "string list \<Rightarrow> string list" where
  "path_labels tokens = (if tokens = [] then [''unknown''] else tokens)"

lemma path_labels_wf:
  assumes "\<forall>t\<in>set ts. t \<noteq> [] \<and> (\<forall>c\<in>set t. is_leaf_char c)" and "t \<in> set (path_labels ts)"
  shows "t \<noteq> [] \<and> (\<forall>c\<in>set t. is_leaf_char c)"
  using assms unknown_leaf_chars by (auto simp: path_labels_def split: if_splits)

lemma symbol_name_to_path_join:
  "symbol_name_to_path s = join_with ''.'' (path_labels (normalize_symbol_tokens s))"
  by (simp add: symbol_name_to_path_def path_labels_def Let_def)

lemma split_dot_path_labels:
  assumes "\<forall>t\<in>set ts. t \<noteq> [] \<and> (\<forall>c\<in>set t. is_leaf_char c)"
  shows "split_on (\<lambda>c. c = CHR ''.'') (join_with ''.'' (path_labels ts)) = path_labels ts"
proof (rule split_on_join)
  show "\<forall>w\<in>set (path_labels ts). \<forall>c\<in>set w. c \<noteq> CHR ''.''"
    using path_labels_wf [OF assms] leaf_char_not_dot by blast
qed (simp_all add: path_labels_def)

lemma split_dot_path:
  "split_on (\<lambda>c. c = CHR ''.'') (symbol_name_to_path s) = path_labels (normalize_symbol_tokens s)"
  by (simp add: symbol_name_to_path_join split_dot_path_labels normalize_tokens_wf)

text \<open>Normalising a path that is already a path changes nothing.\<close>

lemma normalize_join_labels:
  assumes wf: "\<forall>t\<in>set ts. t \<noteq> [] \<and> (\<forall>c\<in>set t. is_leaf_char c)" and "ts \<noteq> []"
  shows "normalize_symbol_tokens (join_with ''.'' ts) = ts"
proof -
  have "filter (\<lambda>c. c \<notin> set chars_to_remove) (join_with ''.'' ts) = join_with ''.'' ts"
  proof (rule filter_True, rule ballI)
    fix c assume "c \<in> set (join_with ''.'' ts)"
    then have "c = CHR ''.'' \<or> (\<exists>t\<in>set ts. c \<in> set t)"
      using set_join_with [of "''.''" ts] by auto
    moreover have "CHR ''.'' \<notin> set chars_to_remove"
      by (simp add: chars_to_remove_def)
    ultimately show "c \<notin> set chars_to_remove"
      using wf leaf_char_not_special by blast
  qed
  moreover have "split_on is_name_sep (join_with ''.'' ts) = ts"
  proof (rule split_on_join)
    show "\<forall>w\<in>set ts. \<forall>c\<in>set w. \<not> is_name_sep c"
      using wf leaf_char_not_sep by blast
  qed (use assms in \<open>simp_all add: is_name_sep_def\<close>)
  ultimately have "clean_and_split_string (join_with ''.'' ts) = ts"
    using wf by (simp add: clean_and_split_string_def filter_id_conv)
  moreover have "map (filter is_leaf_char) ts = ts"
    using wf by (intro map_idI) (simp add: filter_id_conv)
  ultimately show ?thesis
    using wf by (simp add: normalize_symbol_tokens_def filter_id_conv)
qed

lemma symbol_name_to_path_idem: "symbol_name_to_path (symbol_name_to_path s) = symbol_name_to_path s"
proof -
  let ?ts = "path_labels (normalize_symbol_tokens s)"
  have "\<forall>t\<in>set ?ts. t \<noteq> [] \<and> (\<forall>c\<in>set t. is_leaf_char c)"
    using path_labels_wf normalize_tokens_wf by blast
  moreover have "?ts \<noteq> []" by (simp add: path_labels_def)
  ultimately have "normalize_symbol_tokens (join_with ''.'' ?ts) = ?ts"
    by (rule normalize_join_labels)
  with \<open>?ts \<noteq> []\<close> show ?thesis
    by (simp add: symbol_name_to_path_join path_labels_def)
qed

subsection \<open>In-memory matching\<close>

lemma ordered_subset_loop_subseq:
  "sub_idx \<le> length subs \<Longrightarrow>
   (ordered_subset_loop super subs sub_idx sup_idx = length subs) = subseq (drop sub_idx subs) (drop sup_idx super)"
proof (induction super subs sub_idx sup_idx rule: ordered_subset_loop.induct)
  case (1 super subs i j)
  show ?case
  proof (cases "i < length subs \<and> j < length super")
    case True
    then have d: "drop i subs = subs ! i # drop (Suc i) subs" "drop j super = super ! j # drop (Suc j) super"
      by (simp_all add: Cons_nth_drop_Suc)
    show ?thesis
      using True 1 by (subst ordered_subset_loop.simps) (simp add: d(2) d(1))
  next
    case False
    then have "ordered_subset_loop super subs i j = i"
      by (subst ordered_subset_loop.simps) auto
    moreover have "i = length subs \<or> drop j super = [] \<and> drop i subs \<noteq> []"
      using False "1.prems" by auto
    ultimately show ?thesis by (auto dest: list_emb_Nil2 simp: neq_Nil_conv)
  qed
qed

lemma is_ordered_subset_subseq: "is_ordered_subset super subs \<longleftrightarrow> subseq subs super"
  using ordered_subset_loop_subseq [of 0 subs super 0] list_emb_length [of "(=)" subs super]
  by (auto simp: is_ordered_subset_def)

lemma package_loop_prefix:
  "package_loop ns i pat \<longleftrightarrow> prefix pat (drop i ns) \<and> (pat = [] \<or> length pat + i < length ns)"
proof (induction ns i pat rule: package_loop.induct)
  case (2 ns i p pat)
  show ?case
  proof (cases "i + 1 < length ns")
    case True
    then have "drop i ns = ns ! i # drop (Suc i) ns" by (simp add: Cons_nth_drop_Suc)
    with True 2 show ?thesis by auto
  next
    case False
    then show ?thesis by auto
  qed
qed simp


subsection \<open>lquery matching\<close>

text \<open>
  PostgreSQL's documented meaning of an \<open>lquery\<close> over labels: \<open>*\<close> matches zero or
  more labels, any other item matches exactly itself.  The operator itself
  (\<open>path ~ query\<close> on text) is a parameter of the locale.
\<close>

fun items_match :: "string list \<Rightarrow> string list \<Rightarrow> bool" where
  "items_match [] labels \<longleftrightarrow> labels = []"
| "items_match (it # items) labels \<longleftrightarrow>
     (if it = ''*'' then \<exists>k\<le>length labels. items_match items (drop k labels)
      else labels \<noteq> [] \<and> hd labels = it \<and> items_match items (tl labels))"

locale ltree_match =
  fixes lq :: "string \<Rightarrow> string \<Rightarrow> bool"
  assumes lq_items:
    "\<lbrakk> labels \<noteq> []; items \<noteq> [];
       \<forall>l\<in>set labels. l \<noteq> [] \<and> (\<forall>c\<in>set l. is_leaf_char c);
       \<forall>i\<in>set items. i = ''*'' \<or> i \<noteq> [] \<and> (\<forall>c\<in>set i. is_leaf_char c) \<rbrakk>
     \<Longrightarrow> lq (join_with ''.'' labels) (join_with ''.'' items) = items_match items labels"

text \<open>The pattern of alternating stars and tokens, with a star at the end or not.\<close>

definition lquery_items :: "bool \<Rightarrow> string list \<Rightarrow> string list" where
  "lquery_items anchor_leaf tokens = ''*'' # lquery_parts anchor_leaf (length tokens) 0 tokens"

lemma lquery_parts_free:
  "lquery_parts False n i ts = concat (map (\<lambda>t. [t, ''*'']) ts)"
  by (induction ts arbitrary: i) auto

lemma lquery_parts_anchored:
  "n = i + length ts \<Longrightarrow> ts \<noteq> [] \<Longrightarrow>
   lquery_parts True n i ts = concat (map (\<lambda>t. [t, ''*'']) (butlast ts)) @ [last ts]"
proof (induction ts arbitrary: i)
  case (Cons t ts)
  then show ?case by (cases ts) auto
qed simp

lemma star_not_token: "\<forall>c\<in>set t. is_leaf_char c \<Longrightarrow> t \<noteq> ''*''"
  by (auto simp: is_leaf_char_def is_ascii_alnum_def is_digit_def is_upper_def is_lower_def)

lemma subseq_drop: "subseq xs (drop k ys) \<Longrightarrow> subseq xs ys"
  using list_emb_append2 [of "(=)" xs "drop k ys" "take k ys"] by simp

lemma subseq_Cons_split:
  "subseq (x # xs) ys \<longleftrightarrow> (\<exists>k<length ys. ys ! k = x \<and> subseq xs (drop (Suc k) ys))"
proof (induction ys)
  case (Cons y ys)
  have "(\<exists>k<length (y # ys). (y # ys) ! k = x \<and> subseq xs (drop (Suc k) (y # ys))) \<longleftrightarrow>
      y = x \<and> subseq xs ys \<or> (\<exists>k<length ys. ys ! k = x \<and> subseq xs (drop (Suc k) ys))"
    by (auto simp: less_Suc_eq_0_disj)
  also have "\<dots> \<longleftrightarrow> y = x \<and> subseq xs ys \<or> subseq (x # xs) ys"
    using Cons.IH by simp
  also have "\<dots> \<longleftrightarrow> subseq (x # xs) (y # ys)"
    using subseq_Cons' [of x xs ys] by (cases "x = y") auto
  finally show ?case by simp
qed simp

lemma star_token_match:
  assumes "t \<noteq> ''*''"
  shows "items_match (''*'' # t # items) labels \<longleftrightarrow>
     (\<exists>k<length labels. labels ! k = t \<and> items_match items (drop (Suc k) labels))"
proof -
  have "k < length labels \<and> labels ! k = t \<and> items_match items (drop (Suc k) labels) \<longleftrightarrow>
      k \<le> length labels \<and> items_match (t # items) (drop k labels)" for k
    using assms by (cases "k < length labels") (auto simp: hd_drop_conv_nth drop_Suc tl_drop)
  then show ?thesis by auto
qed

lemma items_match_free:
  "\<forall>t\<in>set ts. t \<noteq> ''*'' \<Longrightarrow>
   items_match (''*'' # concat (map (\<lambda>t. [t, ''*'']) ts)) labels \<longleftrightarrow> subseq ts labels"
proof (induction ts arbitrary: labels)
  case Nil
  have "\<exists>k\<le>length labels. drop k labels = []" by (rule exI [of _ "length labels"]) simp
  then show ?case by simp
next
  case (Cons t ts)
  have "items_match (''*'' # concat (map (\<lambda>t. [t, ''*'']) (t # ts))) labels \<longleftrightarrow>
      (\<exists>k<length labels. labels ! k = t \<and>
         items_match (''*'' # concat (map (\<lambda>t. [t, ''*'']) ts)) (drop (Suc k) labels))"
    using Cons.prems by (simp del: items_match.simps add: star_token_match)
  with Cons show ?case
    by (simp del: items_match.simps add: subseq_Cons_split)
qed

lemma items_match_anchored:
  "\<forall>t\<in>set (ts @ [l]). t \<noteq> ''*'' \<Longrightarrow>
   items_match (''*'' # concat (map (\<lambda>t. [t, ''*'']) ts) @ [l]) labels \<longleftrightarrow>
     subseq (ts @ [l]) labels \<and> labels \<noteq> [] \<and> last labels = l"
proof (induction ts arbitrary: labels)
  case Nil
  then have "items_match [''*'', l] labels \<longleftrightarrow> (\<exists>k<length labels. labels ! k = l \<and> drop (Suc k) labels = [])"
    by (simp del: items_match.simps(2) add: star_token_match)
  also have "\<dots> \<longleftrightarrow> labels \<noteq> [] \<and> last labels = l"
    by (auto simp: last_conv_nth intro!: exI [of _ "length labels - 1"])
       (metis Suc_leI diff_Suc_1 le_antisym last_conv_nth list.size(3) not_less_zero)
  also have "\<dots> \<longleftrightarrow> subseq [l] labels \<and> labels \<noteq> [] \<and> last labels = l"
    by (auto simp: subseq_singleton_left)
  finally show ?case by simp
next
  case (Cons t ts)
  have "items_match (''*'' # concat (map (\<lambda>t. [t, ''*'']) (t # ts)) @ [l]) labels \<longleftrightarrow>
      (\<exists>k<length labels. labels ! k = t \<and>
         items_match (''*'' # concat (map (\<lambda>t. [t, ''*'']) ts) @ [l]) (drop (Suc k) labels))"
    using Cons.prems by (simp del: items_match.simps add: star_token_match)
  also have "\<dots> \<longleftrightarrow> (\<exists>k<length labels. labels ! k = t \<and> subseq (ts @ [l]) (drop (Suc k) labels)
       \<and> drop (Suc k) labels \<noteq> [] \<and> last labels = l)"
    using Cons by (auto simp del: items_match.simps simp: last_drop)
  also have "\<dots> \<longleftrightarrow> subseq (t # ts @ [l]) labels \<and> labels \<noteq> [] \<and> last labels = l"
    by (auto simp: subseq_Cons_split [of t])
  finally show ?case by simp
qed

lemma lquery_items_match:
  assumes "tokens \<noteq> []" and "\<forall>t\<in>set tokens. t \<noteq> ''*''" and "labels \<noteq> []"
  shows "items_match (lquery_items anchor_leaf tokens) labels \<longleftrightarrow>
     subseq tokens labels \<and> (anchor_leaf \<longrightarrow> last tokens = last labels)"
proof (cases anchor_leaf)
  case True
  have ts: "tokens = butlast tokens @ [last tokens]" using assms(1) by simp
  have "items_match (lquery_items anchor_leaf tokens) labels \<longleftrightarrow>
     items_match (''*'' # concat (map (\<lambda>t. [t, ''*'']) (butlast tokens)) @ [last tokens]) labels"
    using True assms(1) by (simp del: items_match.simps add: lquery_items_def lquery_parts_anchored)
  also have "\<dots> \<longleftrightarrow> subseq (butlast tokens @ [last tokens]) labels \<and> labels \<noteq> [] \<and> last labels = last tokens"
    by (rule items_match_anchored) (use assms(2) ts in metis)
  finally show ?thesis using True assms ts by auto
next
  case False
  then show ?thesis
    using items_match_free [OF assms(2)] by (simp add: lquery_items_def lquery_parts_free)
qed

lemma lquery_items_wf:
  assumes "\<forall>t\<in>set tokens. t \<noteq> [] \<and> (\<forall>c\<in>set t. is_leaf_char c)" and "i \<in> set (lquery_items anchor tokens)"
  shows "i = ''*'' \<or> i \<noteq> [] \<and> (\<forall>c\<in>set i. is_leaf_char c)"
proof -
  have "i \<in> set (lquery_parts anchor n j ts) \<Longrightarrow> i = ''*'' \<or> i \<in> set ts" for n j ts
    by (induction ts arbitrary: j) (auto split: if_splits)
  with assms show ?thesis by (auto simp: lquery_items_def)
qed

context ltree_match
begin

text \<open>A query matches a stored path iff its tokens are an ordered subset of the labels.\<close>

lemma build_lquery_matches:
  assumes q: "build_lquery input anchor_leaf dot_is_sep = Some q"
    and labels: "labels \<noteq> []" "\<forall>l\<in>set labels. l \<noteq> [] \<and> (\<forall>c\<in>set l. is_leaf_char c)"
    and tokens: "tokens = normalize_symbol_tokens
            (if dot_is_sep then input else replace_char CHR ''.'' CHR ''_'' input)"
  shows "lq (join_with ''.'' labels) q \<longleftrightarrow>
     is_ordered_subset labels tokens \<and> (anchor_leaf \<longrightarrow> last tokens = last labels)"
proof -
  from q tokens have ne: "tokens \<noteq> []" and q': "q = join_with ''.'' (lquery_items anchor_leaf tokens)"
    by (auto simp: build_lquery_def lquery_items_def Let_def split: if_splits)
  have wf: "\<forall>t\<in>set tokens. t \<noteq> [] \<and> (\<forall>c\<in>set t. is_leaf_char c)"
    unfolding tokens using normalize_tokens_wf by blast
  then have "lq (join_with ''.'' labels) q = items_match (lquery_items anchor_leaf tokens) labels"
    unfolding q' using labels lquery_items_wf [OF wf]
    by (intro lq_items) (auto simp: lquery_items_def)
  also have "\<dots> \<longleftrightarrow> subseq tokens labels \<and> (anchor_leaf \<longrightarrow> last tokens = last labels)"
    using wf star_not_token by (intro lquery_items_match ne labels) blast
  finally show ?thesis by (simp add: is_ordered_subset_subseq)
qed

end

text \<open>A reading of the operator that has the documented behaviour.\<close>

definition lq_reference :: "string \<Rightarrow> string \<Rightarrow> bool" where
  "lq_reference path query =
     items_match (split_on (\<lambda>c. c = CHR ''.'') query) (split_on (\<lambda>c. c = CHR ''.'') path)"

interpretation lq_ref: ltree_match lq_reference
proof
  fix labels items :: "string list"
  assume ne: "labels \<noteq> []" "items \<noteq> []"
    and l: "\<forall>l\<in>set labels. l \<noteq> [] \<and> (\<forall>c\<in>set l. is_leaf_char c)"
    and i: "\<forall>i\<in>set items. i = ''*'' \<or> i \<noteq> [] \<and> (\<forall>c\<in>set i. is_leaf_char c)"
  have "\<forall>w\<in>set labels. \<forall>c\<in>set w. c \<noteq> CHR ''.''" "\<forall>w\<in>set items. \<forall>c\<in>set w. c \<noteq> CHR ''.''"
    using l i leaf_char_not_dot by auto
  then show "lq_reference (join_with ''.'' labels) (join_with ''.'' items) = items_match items labels"
    unfolding lq_reference_def using ne by (simp add: split_on_join)
qed

subsection \<open>LIKE matching\<close>

text \<open>
  PostgreSQL's documented \<open>LIKE\<close>: \<open>%\<close> matches any sequence, a backslash makes the next
  character literal, any character that is not special matches itself.  (The code never
  emits an unescaped underscore.)  The operator is a parameter of the locale.
\<close>

definition is_like_special :: "char \<Rightarrow> bool" where
  "is_like_special c \<longleftrightarrow> c = CHR 0x5C \<or> c = CHR ''%'' \<or> c = CHR ''_''"

definition like_escaped :: "char \<Rightarrow> string" where
  "like_escaped c = (if is_like_special c then [CHR 0x5C, c] else [c])"

locale sql_like =
  fixes like :: "string \<Rightarrow> string \<Rightarrow> bool"
  assumes like_Nil: "like [] s \<longleftrightarrow> s = []"
    and like_percent: "like (CHR ''%'' # p) s \<longleftrightarrow> (\<exists>k\<le>length s. like p (drop k s))"
    and like_escape: "like (CHR 0x5C # c # p) s \<longleftrightarrow> s \<noteq> [] \<and> hd s = c \<and> like p (tl s)"
    and like_plain: "\<not> is_like_special c \<Longrightarrow> like (c # p) s \<longleftrightarrow> s \<noteq> [] \<and> hd s = c \<and> like p (tl s)"

text \<open>What a glob of stars and literal pieces means on a leaf.\<close>

fun glob_match :: "bool \<Rightarrow> glob_piece list \<Rightarrow> string \<Rightarrow> bool" where
  "glob_match dot [] s \<longleftrightarrow> s = []"
| "glob_match dot (Star # ps) s \<longleftrightarrow> (\<exists>k\<le>length s. glob_match dot ps (drop k s))"
| "glob_match dot (Lit t # ps) s \<longleftrightarrow>
     (case strip_prefix (normalize_leaf_fragment t dot) s of
        None \<Rightarrow> False | Some rest \<Rightarrow> glob_match dot ps rest)"

text \<open>The same for a full-name pattern, character by character.\<close>

fun star_match :: "string \<Rightarrow> string \<Rightarrow> bool" where
  "star_match [] s \<longleftrightarrow> s = []"
| "star_match (c # cs) s \<longleftrightarrow>
     (if c = CHR ''*'' then \<exists>k\<le>length s. star_match cs (drop k s)
      else s \<noteq> [] \<and> hd s = c \<and> star_match cs (tl s))"

text \<open>The text the loop of \<open>GlobNameMixin::new\<close> still appends, closing star included.\<close>

fun glob_tail :: "bool \<Rightarrow> bool \<Rightarrow> bool \<Rightarrow> glob_piece list \<Rightarrow> string" where
  "glob_tail dot anchored w [] = (if \<not> anchored \<and> \<not> w then ''%'' else [])"
| "glob_tail dot anchored w (Star # ps) = (if w then [] else ''%'') @ glob_tail dot anchored True ps"
| "glob_tail dot anchored w (Lit t # ps) =
     concat (map like_escaped (normalize_leaf_fragment t dot))
       @ glob_tail dot anchored (if normalize_leaf_fragment t dot \<noteq> [] then False else w) ps"

lemma foldl_push_like: "foldl push_like_escaped out cs = out @ concat (map like_escaped cs)"
  by (induction cs arbitrary: out)
    (auto simp: push_like_escaped_def like_escaped_def is_like_special_def)

lemma escape_like_concat: "escape_like s = concat (map like_escaped s)"
  by (simp add: escape_like_def foldl_push_like)

lemma glob_fold_tail:
  "(case foldl (glob_piece_step dot) (out, cs, w) ps of
      (out', cs', w') \<Rightarrow> if \<not> anchored \<and> \<not> w' then out' @ ''%'' else out')
   = out @ glob_tail dot anchored w ps"
proof (induction ps arbitrary: out cs w)
  case (Cons p ps)
  show ?case
  proof (cases p)
    case (Lit t)
    then show ?thesis using Cons.IH by (simp add: Let_def foldl_push_like)
  next
    case Star
    then show ?thesis using Cons.IH by simp
  qed
qed simp

lemma gn_sql_pattern_tail:
  "gn_sql_pattern (glob_name_mixin_new ps dot anchored) =
     (if anchored then glob_tail dot True False ps else CHR ''%'' # glob_tail dot False True ps)"
  using glob_fold_tail [of True dot "[]" False False ps]
    glob_fold_tail [of False dot "''%''" False True ps]
  by (cases anchored) (auto simp: glob_name_mixin_new_def Let_def split: prod.splits if_splits)

fun full_tail :: "bool \<Rightarrow> string \<Rightarrow> string" where
  "full_tail w [] = []"
| "full_tail w (c # cs) =
     (if c = CHR ''*'' then (if w then [] else ''%'') @ full_tail True cs
      else like_escaped c @ full_tail False cs)"

lemma full_fold_tail: "fst (foldl full_glob_step (out, w) cs) = out @ full_tail w cs"
  by (induction cs arbitrary: out w)
    (simp_all add: push_like_escaped_def like_escaped_def is_like_special_def)

lemma fg_sql_pattern_tail: "fg_sql_pattern (full_name_glob_mixin_new pat) = full_tail False pat"
  by (simp add: full_name_glob_mixin_new_def full_fold_tail)

lemma drop_twice_ex:
  "(\<exists>k\<le>length s. \<exists>j\<le>length s - k. P (drop (k + j) s)) \<longleftrightarrow> (\<exists>k\<le>length s. P (drop k s))"
proof
  assume "\<exists>k\<le>length s. \<exists>j\<le>length s - k. P (drop (k + j) s)"
  then obtain k j where "k \<le> length s" "j \<le> length s - k" "P (drop (k + j) s)" by auto
  then show "\<exists>k\<le>length s. P (drop k s)" by (intro exI [of _ "k + j"]) simp
next
  assume "\<exists>k\<le>length s. P (drop k s)"
  then show "\<exists>k\<le>length s. \<exists>j\<le>length s - k. P (drop (k + j) s)"
    by (metis add_0_right zero_le)
qed

context sql_like
begin

lemma like_escaped_char:
  "like (like_escaped c @ p) s \<longleftrightarrow> s \<noteq> [] \<and> hd s = c \<and> like p (tl s)"
  by (simp add: like_escaped_def like_escape like_plain)

lemma like_escaped_text:
  "like (concat (map like_escaped t) @ p) s \<longleftrightarrow>
     (case strip_prefix t s of None \<Rightarrow> False | Some rest \<Rightarrow> like p rest)"
proof (induction t arbitrary: s)
  case (Cons c t)
  then show ?case by (cases s) (auto simp: like_escaped_char)
qed simp

lemma like_glob_tail:
  "like (glob_tail dot anchored False ps) s \<longleftrightarrow>
     glob_match dot (ps @ (if anchored then [] else [Star])) s"
  "like (CHR ''%'' # glob_tail dot anchored True ps) s \<longleftrightarrow>
     glob_match dot (Star # ps @ (if anchored then [] else [Star])) s"
proof (induction ps arbitrary: s)
  case Nil
  { case 1 show ?case by (simp add: like_Nil like_percent) }
  { case 2
    have "\<exists>k\<le>length s. drop k s = []" by (rule exI [of _ "length s"]) simp
    moreover have "\<exists>k\<le>length s. \<exists>j\<le>length s - k. length s \<le> j + k"
      by (rule exI [of _ "length s"]) simp
    ultimately show ?case by (simp add: like_Nil like_percent) }
next
  case (Cons p ps)
  show "like (glob_tail dot anchored False (p # ps)) s \<longleftrightarrow>
     glob_match dot ((p # ps) @ (if anchored then [] else [Star])) s" for s
  proof (cases p)
    case (Lit t)
    then show ?thesis using Cons.IH(1) by (auto simp: like_escaped_text split: option.splits)
  next
    case Star
    then show ?thesis using Cons.IH(2) [of s] by simp
  qed
  show "like (CHR ''%'' # glob_tail dot anchored True (p # ps)) s \<longleftrightarrow>
     glob_match dot (Star # (p # ps) @ (if anchored then [] else [Star])) s" for s
  proof (cases p)
    case (Lit t)
    show ?thesis
    proof (cases "normalize_leaf_fragment t dot = []")
      case True
      with Lit show ?thesis using Cons.IH(2) [of s] by simp
    next
      case False
      with Lit show ?thesis using Cons.IH(1)
        by (cases anchored) (simp_all add: like_percent like_escaped_text cong: option.case_cong)
    qed
  next
    case Star
    then show ?thesis
      using Cons.IH(2) [of s] drop_twice_ex [of s "glob_match dot (ps @ (if anchored then [] else [Star]))"]
      by (simp add: add.commute)
  qed
qed

lemma like_glob:
  "like (gn_sql_pattern (glob_name_mixin_new ps dot anchored)) leaf \<longleftrightarrow>
     glob_match dot (if anchored then ps else Star # ps @ [Star]) leaf"
  using like_glob_tail(1) [of dot True ps leaf] like_glob_tail(2) [of dot False ps leaf]
  by (simp add: gn_sql_pattern_tail del: glob_match.simps)

lemma like_full_tail:
  "like (full_tail False cs) s \<longleftrightarrow> star_match cs s"
  "like (CHR ''%'' # full_tail True cs) s \<longleftrightarrow> star_match (CHR ''*'' # cs) s"
proof (induction cs arbitrary: s)
  case Nil
  { case 1 show ?case by (simp add: like_Nil) }
  { case 2 show ?case by (simp add: like_Nil like_percent) }
next
  case (Cons c cs)
  show "like (full_tail False (c # cs)) s \<longleftrightarrow> star_match (c # cs) s" for s
    using Cons.IH(1) Cons.IH(2) [of s] by (simp add: like_escaped_char)
  show "like (CHR ''%'' # full_tail True (c # cs)) s \<longleftrightarrow> star_match (CHR ''*'' # c # cs) s" for s
    using Cons.IH(1) Cons.IH(2) [of s] drop_twice_ex [of s "star_match cs"]
    by (simp add: like_percent like_escaped_char add.commute)
qed

end

text \<open>A LIKE operator with the documented behaviour.\<close>

fun like_reference :: "string \<Rightarrow> string \<Rightarrow> bool" where
  "like_reference [] s \<longleftrightarrow> s = []"
| "like_reference (c # p) s \<longleftrightarrow>
     (if c = CHR ''%'' then \<exists>k\<le>length s. like_reference p (drop k s)
      else if c = CHR 0x5C then
        (case p of [] \<Rightarrow> False | d # p' \<Rightarrow> s \<noteq> [] \<and> hd s = d \<and> like_reference p' (tl s))
      else s \<noteq> [] \<and> (c = CHR ''_'' \<or> hd s = c) \<and> like_reference p (tl s))"

interpretation like_ref: sql_like like_reference
  by unfold_locales (auto simp: is_like_special_def)

subsection \<open>Properties\<close>

text \<open>
  The stored \<open>ltree\<close> path of a symbol is its normalised tokens joined by dots (or
  \<open>unknown\<close>), every label is non-empty and made of ASCII letters, digits and
  underscores, the leaf column is the last label and is what \<open>extract_leaf_token\<close>
  compares on the query side, and a path is its own path.
\<close>

theorem path_and_leaf_agree:
  fixes name :: string and ty :: int
  defines "shown \<equiv> (if dot_is_separator ty then name else replace_char CHR ''.'' CHR ''_'' name)"
  shows "split_on (\<lambda>c. c = CHR ''.'') (fst (symbol_path_and_leaf name ty))
           = path_labels (normalize_symbol_tokens shown)
    \<and> list_all (\<lambda>l. l \<noteq> [] \<and> list_all is_leaf_char l)
        (split_on (\<lambda>c. c = CHR ''.'') (fst (symbol_path_and_leaf name ty)))
    \<and> snd (symbol_path_and_leaf name ty) = last (path_labels (normalize_symbol_tokens shown))
    \<and> extract_leaf_token name (dot_is_separator ty) = snd (symbol_path_and_leaf name ty)
    \<and> symbol_name_to_path (fst (symbol_path_and_leaf name ty)) = fst (symbol_path_and_leaf name ty)"
proof -
  have path: "fst (symbol_path_and_leaf name ty) = symbol_name_to_path shown"
    by (simp add: symbol_path_and_leaf_def shown_def Let_def)
  have leaf: "snd (symbol_path_and_leaf name ty) = last (path_labels (normalize_symbol_tokens shown))"
    by (simp add: symbol_path_and_leaf_def shown_def Let_def split_dot_path)
  have "\<forall>l\<in>set (path_labels (normalize_symbol_tokens shown)). l \<noteq> [] \<and> (\<forall>c\<in>set l. is_leaf_char c)"
    using path_labels_wf normalize_tokens_wf by blast
  moreover have "extract_leaf_token name (dot_is_separator ty) = last (path_labels (normalize_symbol_tokens shown))"
    by (simp add: extract_leaf_token_def path_labels_def shown_def Let_def)
  ultimately show ?thesis
    using path leaf split_dot_path [of shown] symbol_name_to_path_idem [of shown]
    by (simp add: list_all_iff)
qed

text \<open>
  C30. For every reading of the \<open>ltree\<close> operator with its documented meaning, the pattern
  that \<open>build_lquery\<close> makes from a query matches the stored path of a symbol exactly
  when the query's tokens occur in order among the symbol's labels and, when the leaf is
  anchored, the last token is the symbol's leaf.
\<close>

theorem lquery_matches_stored_path:
  assumes "ltree_match lq" and "build_lquery input anchor_leaf (dot_is_separator ty) = Some q"
  shows "lq (fst (symbol_path_and_leaf name ty)) q \<longleftrightarrow>
     is_ordered_subset (split_on (\<lambda>c. c = CHR ''.'') (fst (symbol_path_and_leaf name ty)))
       (split_on (\<lambda>c. c = CHR ''.'') (fst (symbol_path_and_leaf input ty)))
     \<and> (anchor_leaf \<longrightarrow> snd (symbol_path_and_leaf input ty) = snd (symbol_path_and_leaf name ty))"
proof -
  define shown where "shown = (\<lambda>s. if dot_is_separator ty then s else replace_char CHR ''.'' CHR ''_'' s)"
  have path: "fst (symbol_path_and_leaf s ty) = symbol_name_to_path (shown s)"
    and leaf: "snd (symbol_path_and_leaf s ty) = last (path_labels (normalize_symbol_tokens (shown s)))" for s
    by (simp_all add: symbol_path_and_leaf_def shown_def Let_def split_dot_path)
  have wf: "\<forall>l\<in>set (path_labels (normalize_symbol_tokens (shown name))). l \<noteq> [] \<and> (\<forall>c\<in>set l. is_leaf_char c)"
    using path_labels_wf normalize_tokens_wf by blast
  have ne: "path_labels (normalize_symbol_tokens (shown name)) \<noteq> []"
    by (simp add: path_labels_def)
  have "normalize_symbol_tokens (shown input) \<noteq> []"
    using assms(2) by (auto simp: build_lquery_def shown_def Let_def split: if_splits)
  then have q: "path_labels (normalize_symbol_tokens (shown input)) = normalize_symbol_tokens (shown input)"
    by (simp add: path_labels_def)
  have "normalize_symbol_tokens (shown input) = normalize_symbol_tokens
      (if dot_is_separator ty then input else replace_char CHR ''.'' CHR ''_'' input)"
    by (simp add: shown_def)
  from ltree_match.build_lquery_matches [OF assms ne wf this] show ?thesis
    by (simp add: path leaf split_dot_path q symbol_name_to_path_join [of "shown name"] split_dot_path_labels
        normalize_tokens_wf)
qed

theorem lquery_matches_stored_path_witness:
  "lq_reference (fst (symbol_path_and_leaf ''fs.open'' 1)) ''*.open''"
  using lquery_matches_stored_path [OF lq_ref.ltree_match_axioms, of "''open''" True 1 "''*.open''" "''fs.open''"]
  by code_simp

text \<open>
  For every LIKE operator with the documented meaning, the pattern compiled by
  \<open>GlobNameMixin::new\<close> (with runs of wildcards collapsed and special characters
  escaped) matches a leaf exactly when the glob does: as a whole when anchored, anywhere
  inside the leaf when not.
\<close>

theorem glob_pattern_exact:
  assumes "sql_like like"
  shows "like (gn_sql_pattern (glob_name_mixin_new pieces dot anchored)) leaf \<longleftrightarrow>
     glob_match dot (if anchored then pieces else Star # pieces @ [Star]) leaf"
  by (rule sql_like.like_glob [OF assms])

theorem glob_pattern_exact_witness:
  "like_reference (gn_sql_pattern (glob_name_mixin_new [Lit ''a_'', Star, Star] True True)) ''a_b''"
  using glob_pattern_exact [OF like_ref.sql_like_axioms, of "[Lit ''a_'', Star, Star]" True True "''a_b''"]
  by code_simp

text \<open>
  The same for \<open>FullNameGlobMixin::new\<close> on a full display name, and escaping a
  literal makes it match only itself.
\<close>

theorem full_glob_pattern_exact:
  assumes "sql_like like"
  shows "(like (fg_sql_pattern (full_name_glob_mixin_new pattern)) full_name \<longleftrightarrow> star_match pattern full_name)
    \<and> (like (escape_like literal) full_name \<longleftrightarrow> full_name = literal)"
proof -
  have "like (escape_like literal @ []) full_name \<longleftrightarrow> strip_prefix literal full_name = Some []"
    unfolding escape_like_concat sql_like.like_escaped_text [OF assms]
    by (auto simp: sql_like.like_Nil [OF assms] split: option.splits)
  then show ?thesis
    by (auto simp: fg_sql_pattern_tail sql_like.like_full_tail(1) [OF assms] strip_prefix_iff)
qed

theorem full_glob_pattern_exact_witness:
  "like_reference (fg_sql_pattern (full_name_glob_mixin_new ''a*%'')) ''abc%''"
  using full_glob_pattern_exact [OF like_ref.sql_like_axioms, of "''a*%''" "''abc%''" "''x''"]
  by code_simp

text \<open>
  The in-memory matchers of \<open>symbols.rs\<close>: a partial match is an ordered subset of the
  tokens (a subsequence, found by one linear pass), a package match is a proper prefix.
\<close>

theorem name_matchers_exact:
  "(partial_name_match q (mem_symbol_new name) \<noteq> None \<longleftrightarrow>
      subseq (clean_and_split_string q) (clean_and_split_string name))
   \<and> (package_match q (mem_symbol_new name) \<noteq> None \<longleftrightarrow>
      strict_prefix (clean_and_split_string q) (clean_and_split_string name))"
proof -
  have "ns \<noteq> [] \<and> package_loop ns 0 pat \<longleftrightarrow> strict_prefix pat ns" for ns pat
    using package_loop_prefix [of ns 0 pat] prefix_length_less [of pat ns]
    by (auto simp: strict_prefix_def)
  then show ?thesis
    by (auto simp: partial_name_match_def package_match_def mem_symbol_new_def
        is_ordered_subset_subseq Let_def)
qed

end
