(* ===== verification/Selection.thy ===== *)
theory Selection
  imports Line_Index
begin

section \<open>Rows, selections and the visible layer set\<close>

text \<open>
  The row types of \<open>index/src/models_diesel.rs\<close> and \<open>index/src/db_diesel/selection.rs\<close>:
  \<open>EphContext\<close> (the root layers and one ephemeral chain per root), \<open>Selection\<close> and the
  layer leak check.  Ids are integers; a panic is \<open>None\<close>.
\<close>

subsection \<open>Rows\<close>

record symbol_row =
  sy_id :: int
  sy_name :: string
  sy_path :: string
  sy_project_id :: int
  sy_type :: int
  sy_scope :: "int option"
  sy_leaf_name :: string
  sy_layer :: int

record instance_row =
  in_id :: int
  in_symbol :: int
  in_object_id :: int
  in_range :: "bound \<times> bound"
  in_type :: int
  in_layer :: int

record object_row =
  ob_id :: int
  ob_project_id :: int
  ob_module_path :: string
  ob_filesystem_path :: string
  ob_filetype :: string
  ob_content_hash :: string
  ob_layer :: int

record project_row =
  pr_id :: int
  pr_name :: string
  pr_root_path :: string
  pr_upload_status :: string
  pr_root_layer_id :: int

record ref_row =
  rf_id :: int
  rf_to_symbol :: int
  rf_from_object :: int
  rf_from_range :: "bound \<times> bound"
  rf_layer :: int

subsection \<open>The visible layer set\<close>

record root_layer =
  rt_id :: int
  rt_project_id :: int
  rt_hash :: "byte list"

record eph_context =
  ec_roots :: "root_layer list"
  ec_chains :: "int list list"

text \<open>\<open>Vec::dedup_by\<close> on the key \<open>id\<close> keeps the first of a run.\<close>

fun dedup_roots :: "root_layer list \<Rightarrow> root_layer list" where
  "dedup_roots [] = []"
| "dedup_roots [r] = [r]"
| "dedup_roots (r # q # rs) =
     (if rt_id q = rt_id r then dedup_roots (r # rs) else r # dedup_roots (q # rs))"

definition rooted :: "root_layer list \<Rightarrow> eph_context" where
  "rooted roots =
     (let rs = dedup_roots (sort_key rt_id roots)
      in \<lparr>ec_roots = rs, ec_chains = replicate (length rs) []\<rparr>)"

text \<open>The position of a key; the roots are sorted and distinct, so a binary search finds it.\<close>

fun index_of :: "int \<Rightarrow> int list \<Rightarrow> nat option" where
  "index_of k [] = None"
| "index_of k (x # xs) = (if x = k then Some 0 else map_option Suc (index_of k xs))"

definition root_index :: "eph_context \<Rightarrow> int \<Rightarrow> nat option" where
  "root_index ec root_id = index_of root_id (map rt_id (ec_roots ec))"

definition push_layer :: "eph_context \<Rightarrow> int \<times> int \<Rightarrow> eph_context option" where
  "push_layer ec rl =
     (case root_index ec (fst rl) of
        None \<Rightarrow> None
      | Some i \<Rightarrow> Some (ec\<lparr>ec_chains := (ec_chains ec)[i := ec_chains ec ! i @ [snd rl]]\<rparr>))"

fun push_layers :: "eph_context \<Rightarrow> (int \<times> int) list \<Rightarrow> eph_context option" where
  "push_layers ec [] = Some ec"
| "push_layers ec (rl # rls) =
     (case push_layer ec rl of None \<Rightarrow> None | Some ec' \<Rightarrow> push_layers ec' rls)"

definition push_round :: "eph_context \<Rightarrow> (int \<times> int) list \<Rightarrow> eph_context option" where
  "push_round ec layers =
     (if \<forall>r\<in>set (ec_roots ec). \<exists>rl\<in>set layers. fst rl = rt_id r
      then push_layers ec layers else None)"

definition chain_last :: "eph_context \<Rightarrow> int \<Rightarrow> int option" where
  "chain_last ec root_id =
     (case root_index ec root_id of
        None \<Rightarrow> None
      | Some i \<Rightarrow> (let c = ec_chains ec ! i in if c = [] then None else Some (last c)))"

definition has_chain :: "eph_context \<Rightarrow> bool" where
  "has_chain ec = (case ec_chains ec of [] \<Rightarrow> False | c # _ \<Rightarrow> c \<noteq> [])"

definition root_ids :: "eph_context \<Rightarrow> int list" where
  "root_ids ec = map rt_id (ec_roots ec)"

definition visible_ids :: "eph_context \<Rightarrow> int list" where
  "visible_ids ec = foldl (@) (root_ids ec) (ec_chains ec)"

subsection \<open>Selections\<close>

record query_statement_range =
  qs_start :: nat
  qs_end :: nat
  qs_text :: string

record selection_node =
  nd_symbol :: symbol_row
  nd_instance :: instance_row
  nd_object :: object_row
  nd_project :: project_row
  nd_statements :: "query_statement_range list"

record parent_reference =
  pf_to_symbol :: symbol_row
  pf_to_instance :: instance_row
  pf_from_instance :: instance_row
  pf_ref :: ref_row

record child_reference =
  cf_parent_symbol :: symbol_row
  cf_symbol :: symbol_row
  cf_instance :: instance_row
  cf_from_instance :: instance_row
  cf_ref :: ref_row
  cf_from_object :: object_row

record has_child_reference =
  hc_parent_symbol :: symbol_row
  hc_parent_instance :: instance_row
  hc_child_symbol :: symbol_row
  hc_child_instance :: instance_row
  hc_parent_object :: object_row

record has_parent_reference =
  hp_child_symbol :: symbol_row
  hp_child_instance :: instance_row
  hp_parent_symbol :: symbol_row
  hp_parent_instance :: instance_row

record selection =
  sl_nodes :: "selection_node list"
  sl_parents :: "parent_reference list"
  sl_children :: "child_reference list"
  sl_has_parents :: "has_parent_reference list"
  sl_has_children :: "has_child_reference list"

text \<open>Node identity leaves the statement ranges out.\<close>

definition node_eq :: "selection_node \<Rightarrow> selection_node \<Rightarrow> bool" where
  "node_eq a b \<longleftrightarrow> nd_symbol a = nd_symbol b \<and> nd_instance a = nd_instance b
     \<and> nd_object a = nd_object b \<and> nd_project a = nd_project b"

definition selection_new :: selection where
  "selection_new = \<lparr>sl_nodes = [], sl_parents = [], sl_children = [],
     sl_has_parents = [], sl_has_children = []\<rparr>"

definition selection_extend :: "selection \<Rightarrow> selection \<Rightarrow> selection" where
  "selection_extend s t =
     \<lparr>sl_nodes = sl_nodes s @ sl_nodes t, sl_parents = sl_parents s @ sl_parents t,
      sl_children = sl_children s @ sl_children t,
      sl_has_parents = sl_has_parents s @ sl_has_parents t,
      sl_has_children = sl_has_children s @ sl_has_children t\<rparr>"

definition selection_is_empty :: "selection \<Rightarrow> bool" where
  "selection_is_empty s \<longleftrightarrow> sl_nodes s = []"

definition get_instance_ids :: "selection \<Rightarrow> int list" where
  "get_instance_ids s = map (\<lambda>n. in_id (nd_instance n)) (sl_nodes s)"

subsection \<open>Leak check\<close>

definition CANARY_LAYER_ID :: int where "CANARY_LAYER_ID = - 999999"

definition is_eph_leak :: "int \<Rightarrow> int list \<Rightarrow> bool" where
  "is_eph_leak layer ids \<longleftrightarrow> layer \<notin> set ids"

definition has_eph_leak :: "selection \<Rightarrow> eph_context \<Rightarrow> bool" where
  "has_eph_leak s ec =
     (let ids = visible_ids ec in
      if list_ex (\<lambda>n. is_eph_leak (sy_layer (nd_symbol n)) ids
           \<or> is_eph_leak (in_layer (nd_instance n)) ids
           \<or> is_eph_leak (ob_layer (nd_object n)) ids) (sl_nodes s) then True
      else if list_ex (\<lambda>p. is_eph_leak (sy_layer (pf_to_symbol p)) ids
           \<or> is_eph_leak (in_layer (pf_to_instance p)) ids
           \<or> is_eph_leak (in_layer (pf_from_instance p)) ids
           \<or> is_eph_leak (rf_layer (pf_ref p)) ids) (sl_parents s) then True
      else if list_ex (\<lambda>c. is_eph_leak (sy_layer (cf_parent_symbol c)) ids
           \<or> is_eph_leak (sy_layer (cf_symbol c)) ids
           \<or> is_eph_leak (in_layer (cf_instance c)) ids
           \<or> is_eph_leak (in_layer (cf_from_instance c)) ids
           \<or> is_eph_leak (rf_layer (cf_ref c)) ids
           \<or> is_eph_leak (ob_layer (cf_from_object c)) ids) (sl_children s) then True
      else if list_ex (\<lambda>h. is_eph_leak (sy_layer (hp_child_symbol h)) ids
           \<or> is_eph_leak (in_layer (hp_child_instance h)) ids
           \<or> is_eph_leak (sy_layer (hp_parent_symbol h)) ids
           \<or> is_eph_leak (in_layer (hp_parent_instance h)) ids) (sl_has_parents s) then True
      else list_ex (\<lambda>h. is_eph_leak (sy_layer (hc_parent_symbol h)) ids
           \<or> is_eph_leak (in_layer (hc_parent_instance h)) ids
           \<or> is_eph_leak (sy_layer (hc_child_symbol h)) ids
           \<or> is_eph_leak (in_layer (hc_child_instance h)) ids
           \<or> is_eph_leak (ob_layer (hc_parent_object h)) ids) (sl_has_children s))"

datatype isolation_error = IsolationViolation

definition checked_new :: "selection \<Rightarrow> eph_context \<Rightarrow> isolation_error + selection" where
  "checked_new s ec = (if has_eph_leak s ec then Inl IsolationViolation else Inr s)"

subsection \<open>Invariant of the context\<close>

text \<open>
  Roots sorted by distinct ids, one chain per root, and lockstep: either no root has a
  chain yet or every root has one.
\<close>

definition roots_wf :: "eph_context \<Rightarrow> bool" where
  "roots_wf ec \<longleftrightarrow> sorted_wrt (<) (root_ids ec) \<and> length (ec_chains ec) = length (root_ids ec)"

definition eph_wf :: "eph_context \<Rightarrow> bool" where
  "eph_wf ec \<longleftrightarrow> roots_wf ec
     \<and> ((\<forall>c\<in>set (ec_chains ec). c = []) \<or> (\<forall>c\<in>set (ec_chains ec). c \<noteq> []))"

lemma dedup_roots_hd: "rs \<noteq> [] \<Longrightarrow> hd (dedup_roots rs) = hd rs \<and> dedup_roots rs \<noteq> []"
  by (induction rs rule: dedup_roots.induct) auto

lemma dedup_roots_set: "rt_id ` set (dedup_roots rs) = rt_id ` set rs"
  by (induction rs rule: dedup_roots.induct) auto

lemma dedup_roots_subset: "set (dedup_roots rs) \<subseteq> set rs"
  by (induction rs rule: dedup_roots.induct) auto

lemma dedup_roots_sorted:
  "sorted (map rt_id rs) \<Longrightarrow> sorted_wrt (<) (map rt_id (dedup_roots rs))"
proof (induction rs rule: dedup_roots.induct)
  case (3 r q rs)
  show ?case
  proof (cases "rt_id q = rt_id r")
    case True
    with 3 show ?thesis by simp
  next
    case False
    have "x \<in> set (dedup_roots (q # rs)) \<Longrightarrow> rt_id r < rt_id x" for x
      using dedup_roots_subset [of "q # rs"] 3(3) False by fastforce
    with 3 False show ?thesis by simp
  qed
qed simp_all

lemma foldl_append: "foldl (@) xs yss = xs @ concat yss"
  by (induction yss arbitrary: xs) auto

lemma visible_ids_concat: "visible_ids ec = root_ids ec @ concat (ec_chains ec)"
  by (simp add: visible_ids_def foldl_append)

lemma rooted_wf: "eph_wf (rooted roots)"
  by (simp add: eph_wf_def roots_wf_def rooted_def Let_def root_ids_def dedup_roots_sorted)

lemma root_ids_rooted: "root_ids (rooted roots) = sort_dedup (map rt_id roots)"
proof (rule sorted_distinct_set_unique)
  have s: "sorted_wrt (<) (root_ids (rooted roots))"
    using rooted_wf by (simp add: eph_wf_def roots_wf_def)
  then show "sorted (root_ids (rooted roots))" "distinct (root_ids (rooted roots))"
    by (simp_all add: strict_sorted_iff)
qed (simp_all add: root_ids_def rooted_def Let_def dedup_roots_set)

lemma index_of_Some: "index_of k xs = Some i \<Longrightarrow> i < length xs \<and> xs ! i = k"
  by (induction xs arbitrary: i) (auto split: if_splits)

lemma index_of_None: "index_of k xs = None \<longleftrightarrow> k \<notin> set xs"
  by (induction xs) auto

lemma index_of_distinct: "distinct xs \<Longrightarrow> i < length xs \<Longrightarrow> index_of (xs ! i) xs = Some i"
proof (induction xs arbitrary: i)
  case (Cons x xs)
  then show ?case by (cases i) auto
qed simp

text \<open>What a sequence of pushes leaves in the chain of the root at position \<open>i\<close>.\<close>

definition pushed_to :: "int \<Rightarrow> (int \<times> int) list \<Rightarrow> int list" where
  "pushed_to root_id layers = map snd (filter (\<lambda>rl. fst rl = root_id) layers)"

lemma push_layer_some:
  assumes "push_layer ec rl = Some ec'" and "roots_wf ec"
  shows "ec_roots ec' = ec_roots ec \<and> length (ec_chains ec') = length (ec_chains ec)
    \<and> (\<forall>i<length (ec_chains ec). ec_chains ec' ! i = ec_chains ec ! i @ pushed_to (root_ids ec ! i) [rl])"
proof -
  from assms(1) obtain i where i: "root_index ec (fst rl) = Some i"
    and ec': "ec' = ec\<lparr>ec_chains := (ec_chains ec)[i := ec_chains ec ! i @ [snd rl]]\<rparr>"
    by (auto simp: push_layer_def split: option.splits)
  have ri: "i < length (root_ids ec)" "root_ids ec ! i = fst rl"
    using index_of_Some [OF i [unfolded root_index_def]] by (simp_all add: root_ids_def)
  have "distinct (root_ids ec)" using assms(2) by (simp add: roots_wf_def strict_sorted_iff)
  then have pos: "j < length (root_ids ec) \<Longrightarrow> fst rl = root_ids ec ! j \<longleftrightarrow> j = i" for j
    using ri by (metis nth_eq_iff_index_eq)
  have len: "length (root_ids ec) = length (ec_chains ec)"
    using assms(2) by (simp add: roots_wf_def)
  have "ec_chains ec' ! j = ec_chains ec ! j @ pushed_to (root_ids ec ! j) [rl]"
    if "j < length (ec_chains ec)" for j
    using pos [of j] that ec' len by (simp add: pushed_to_def nth_list_update)
  then show ?thesis using ec' by simp
qed

lemma push_layers_some:
  "push_layers ec layers = Some ec' \<Longrightarrow> roots_wf ec \<Longrightarrow>
   ec_roots ec' = ec_roots ec \<and> length (ec_chains ec') = length (ec_chains ec)
    \<and> (\<forall>i<length (ec_chains ec). ec_chains ec' ! i = ec_chains ec ! i @ pushed_to (root_ids ec ! i) layers)"
proof (induction layers arbitrary: ec)
  case Nil
  then show ?case by (simp add: pushed_to_def)
next
  case (Cons rl layers)
  from Cons.prems(1) obtain ec1 where ec1: "push_layer ec rl = Some ec1" "push_layers ec1 layers = Some ec'"
    by (auto split: option.splits)
  note s = push_layer_some [OF ec1(1) Cons.prems(2)]
  then have ids: "root_ids ec1 = root_ids ec" by (simp add: root_ids_def)
  with s Cons.prems(2) have "roots_wf ec1" by (simp add: roots_wf_def)
  from Cons.IH [OF ec1(2) this] s ids show ?case
    by (auto simp: pushed_to_def)
qed

lemma push_layers_known:
  "push_layers ec layers \<noteq> None \<longleftrightarrow> fst ` set layers \<subseteq> set (root_ids ec)"
proof (induction layers arbitrary: ec)
  case (Cons rl layers)
  show ?case
  proof (cases "push_layer ec rl")
    case None
    then have "fst rl \<notin> set (root_ids ec)"
      by (auto simp: push_layer_def root_index_def root_ids_def index_of_None split: option.splits)
    with None show ?thesis by simp
  next
    case (Some ec1)
    then obtain i where "root_index ec (fst rl) = Some i" "ec_roots ec1 = ec_roots ec"
      by (auto simp: push_layer_def split: option.splits)
    moreover from this have "fst rl \<in> set (root_ids ec)" "root_ids ec1 = root_ids ec"
      using index_of_Some [of "fst rl" "root_ids ec" i] nth_mem [of i "root_ids ec"]
      by (simp_all add: root_index_def root_ids_def)
    ultimately show ?thesis using Some Cons.IH [of ec1] by simp
  qed
qed simp

lemma concat_pushed:
  assumes "length xss = length ids" "length yss = length ids"
    and "\<forall>i<length ids. yss ! i = xss ! i @ pushed_to (ids ! i) layers" and "fst ` set layers \<subseteq> set ids"
  shows "set (concat yss) = set (concat xss) \<union> snd ` set layers"
proof
  show "set (concat yss) \<subseteq> set (concat xss) \<union> snd ` set layers"
  proof
    fix x assume "x \<in> set (concat yss)"
    then obtain i where "i < length ids" "x \<in> set (yss ! i)"
      using assms(2) by (auto simp: in_set_conv_nth [of _ yss])
    moreover from this have "x \<in> set (xss ! i) \<or> x \<in> snd ` set layers"
      using assms(3) by (auto simp: pushed_to_def)
    ultimately show "x \<in> set (concat xss) \<union> snd ` set layers"
      using assms(1) by (auto intro: nth_mem)
  qed
  show "set (concat xss) \<union> snd ` set layers \<subseteq> set (concat yss)"
  proof
    fix x assume x: "x \<in> set (concat xss) \<union> snd ` set layers"
    have "\<exists>i<length ids. x \<in> set (yss ! i)"
    proof (cases "x \<in> set (concat xss)")
      case True
      then obtain i where "i < length ids" "x \<in> set (xss ! i)"
        using assms(1) by (auto simp: in_set_conv_nth [of _ xss])
      then show ?thesis using assms(3) by auto
    next
      case False
      with x obtain r where r: "(r, x) \<in> set layers" by auto
      with assms(4) have "r \<in> set ids" by force
      then obtain i where "i < length ids" "ids ! i = r" by (auto simp: in_set_conv_nth)
      with r assms(3) show ?thesis by (force simp: pushed_to_def)
    qed
    then show "x \<in> set (concat yss)" using assms(2) by (auto intro: nth_mem)
  qed
qed

lemma push_round_Some_iff:
  "(\<exists>ec'. push_round ec layers = Some ec') \<longleftrightarrow> fst ` set layers = set (root_ids ec)"
  using push_layers_known [of ec layers]
  by (auto simp: push_round_def root_ids_def) force+

lemma push_round_chains:
  assumes "push_round ec layers = Some ec'" and "roots_wf ec"
  shows "ec_roots ec' = ec_roots ec" and "root_ids ec' = root_ids ec"
    and "length (ec_chains ec') = length (root_ids ec)"
    and "i < length (root_ids ec) \<Longrightarrow> ec_chains ec' ! i = ec_chains ec ! i @ pushed_to (root_ids ec ! i) layers"
proof -
  have p: "push_layers ec layers = Some ec'"
    using assms(1) by (simp add: push_round_def split: if_splits)
  note s = push_layers_some [OF p assms(2)]
  show "ec_roots ec' = ec_roots ec" "root_ids ec' = root_ids ec"
    using s by (simp_all add: root_ids_def)
  show "length (ec_chains ec') = length (root_ids ec)"
    using s assms(2) by (simp add: roots_wf_def)
  show "i < length (root_ids ec) \<Longrightarrow> ec_chains ec' ! i = ec_chains ec ! i @ pushed_to (root_ids ec ! i) layers"
    using s assms(2) by (simp add: roots_wf_def)
qed

lemma push_round_all_nonempty:
  assumes "push_round ec layers = Some ec'" and "roots_wf ec"
  shows "\<forall>c\<in>set (ec_chains ec'). c \<noteq> []"
proof
  fix c assume "c \<in> set (ec_chains ec')"
  then obtain i where i: "i < length (root_ids ec)" "c = ec_chains ec' ! i"
    using push_round_chains(3) [OF assms] by (auto simp: in_set_conv_nth)
  have "root_ids ec ! i \<in> fst ` set layers"
    using assms(1) push_round_Some_iff [of ec layers] i(1) by auto
  then have "pushed_to (root_ids ec ! i) layers \<noteq> []"
    by (force simp: pushed_to_def filter_empty_conv)
  with push_round_chains(4) [OF assms i(1)] i(2) show "c \<noteq> []" by simp
qed

lemma push_round_wf:
  assumes "push_round ec layers = Some ec'" and "roots_wf ec"
  shows "eph_wf ec'"
  using push_round_all_nonempty [OF assms] push_round_chains [OF assms] assms(2)
  by (simp add: eph_wf_def roots_wf_def)

lemma push_round_visible:
  assumes "push_round ec layers = Some ec'" and "roots_wf ec"
  shows "set (visible_ids ec') = set (visible_ids ec) \<union> snd ` set layers"
proof -
  have "set (concat (ec_chains ec')) = set (concat (ec_chains ec)) \<union> snd ` set layers"
  proof (rule concat_pushed [of _ "root_ids ec"])
    show "length (ec_chains ec) = length (root_ids ec)" using assms(2) by (simp add: roots_wf_def)
    show "fst ` set layers \<subseteq> set (root_ids ec)"
      using assms(1) push_round_Some_iff [of ec layers] by auto
  qed (use push_round_chains [OF assms] in auto)
  then show ?thesis
    by (simp add: visible_ids_concat push_round_chains(2) [OF assms] Un_assoc)
qed

text \<open>The layers of the rows of a selection that the check looks at.\<close>

definition selection_layers :: "selection \<Rightarrow> int set" where
  "selection_layers s =
     (\<Union>n\<in>set (sl_nodes s). {sy_layer (nd_symbol n), in_layer (nd_instance n), ob_layer (nd_object n)})
   \<union> (\<Union>p\<in>set (sl_parents s). {sy_layer (pf_to_symbol p), in_layer (pf_to_instance p),
        in_layer (pf_from_instance p), rf_layer (pf_ref p)})
   \<union> (\<Union>c\<in>set (sl_children s). {sy_layer (cf_parent_symbol c), sy_layer (cf_symbol c),
        in_layer (cf_instance c), in_layer (cf_from_instance c), rf_layer (cf_ref c), ob_layer (cf_from_object c)})
   \<union> (\<Union>h\<in>set (sl_has_parents s). {sy_layer (hp_child_symbol h), in_layer (hp_child_instance h),
        sy_layer (hp_parent_symbol h), in_layer (hp_parent_instance h)})
   \<union> (\<Union>h\<in>set (sl_has_children s). {sy_layer (hc_parent_symbol h), in_layer (hc_parent_instance h),
        sy_layer (hc_child_symbol h), in_layer (hc_child_instance h), ob_layer (hc_parent_object h)})"

lemma has_eph_leak_iff: "has_eph_leak s ec \<longleftrightarrow> \<not> selection_layers s \<subseteq> set (visible_ids ec)"
  by (simp add: has_eph_leak_def selection_layers_def is_eph_leak_def list_ex_iff Let_def
      UN_subset_iff Bex_def Ball_def if_bool_eq_disj) blast

lemma selection_layers_extend:
  "selection_layers (selection_extend s t) = selection_layers s \<union> selection_layers t"
  by (simp add: selection_layers_def selection_extend_def) blast

lemma push_round_chain_last:
  assumes p: "push_round ec layers = Some ec'" and wf: "roots_wf ec" and r: "r \<in> set (root_ids ec)"
  shows "chain_last ec' r = Some (last (pushed_to r layers))"
proof -
  obtain i where i: "i < length (root_ids ec)" "root_ids ec ! i = r"
    using r by (auto simp: in_set_conv_nth)
  have "distinct (root_ids ec')"
    using wf push_round_chains(2) [OF p wf] by (simp add: roots_wf_def strict_sorted_iff)
  then have "root_index ec' r = Some i"
    using index_of_distinct [of "root_ids ec'" i] i push_round_chains(2) [OF p wf]
    by (simp add: root_index_def flip: root_ids_def)
  moreover have "pushed_to r layers \<noteq> []"
  proof -
    have "r \<in> fst ` set layers" using p push_round_Some_iff [of ec layers] r by auto
    then show ?thesis by (force simp: pushed_to_def filter_empty_conv)
  qed
  ultimately show ?thesis
    using push_round_chains(4) [OF p wf i(1)] i(2) by (simp add: chain_last_def Let_def)
qed

subsection \<open>Properties\<close>

text \<open>
  C29. The only constructor sorts and dedups the roots; a round is accepted (no panic)
  exactly when its layers name every root of the context and no other; and then the
  context keeps its roots, its chains stay in lockstep, \<open>has_chain\<close> answers for all roots,
  the visible set grows by exactly the new layers and each root's next supplement
  parents on the last layer the round gave it.
\<close>

theorem push_round_lockstep:
  assumes "eph_wf ec"
  shows "root_ids (rooted roots) = sort_dedup (map rt_id roots) \<and> eph_wf (rooted roots)
    \<and> ((\<exists>ec'. push_round ec layers = Some ec') \<longleftrightarrow> fst ` set layers = set (root_ids ec))
    \<and> (\<forall>ec'. push_round ec layers = Some ec' \<longrightarrow>
         eph_wf ec' \<and> ec_roots ec' = ec_roots ec
         \<and> (has_chain ec' \<longleftrightarrow> ec_roots ec \<noteq> [])
         \<and> set (visible_ids ec') = set (visible_ids ec) \<union> snd ` set layers
         \<and> (\<forall>r\<in>set (root_ids ec). chain_last ec' r = Some (last (pushed_to r layers))))"
proof -
  have wf: "roots_wf ec" using assms by (simp add: eph_wf_def)
  { fix ec' assume p: "push_round ec layers = Some ec'"
    have "has_chain ec' \<longleftrightarrow> ec_roots ec \<noteq> []"
      using push_round_all_nonempty [OF p wf] push_round_chains(3) [OF p wf]
      by (auto simp: has_chain_def root_ids_def split: list.splits)
    moreover have "chain_last ec' r = Some (last (pushed_to r layers))" if "r \<in> set (root_ids ec)" for r
      by (rule push_round_chain_last [OF p wf that])
    ultimately have "eph_wf ec' \<and> ec_roots ec' = ec_roots ec
         \<and> (has_chain ec' \<longleftrightarrow> ec_roots ec \<noteq> [])
         \<and> set (visible_ids ec') = set (visible_ids ec) \<union> snd ` set layers
         \<and> (\<forall>r\<in>set (root_ids ec). chain_last ec' r = Some (last (pushed_to r layers)))"
      using push_round_wf [OF p wf] push_round_chains(1) [OF p wf] push_round_visible [OF p wf] by blast }
  then show ?thesis
    using push_round_Some_iff [of ec layers] by (intro conjI allI impI root_ids_rooted rooted_wf) simp_all
qed

theorem push_round_lockstep_witness:
  "chain_last (the (push_round (rooted [\<lparr>rt_id = 7, rt_project_id = 1, rt_hash = []\<rparr>]) [(7, -1), (7, -2)])) 7
     = Some (-2)"
proof -
  let ?ec = "rooted [\<lparr>rt_id = 7, rt_project_id = 1, rt_hash = []\<rparr>]"
  let ?ls = "[(7, -1), (7, -2)] :: (int \<times> int) list"
  have "push_round ?ec ?ls \<noteq> None" by code_simp
  then have p: "push_round ?ec ?ls = Some (the (push_round ?ec ?ls))" by simp
  have r: "7 \<in> set (root_ids ?ec)" by code_simp
  have l: "last (pushed_to 7 ?ls) = -2" by code_simp
  note all = push_round_lockstep [OF rooted_wf [of "[\<lparr>rt_id = 7, rt_project_id = 1, rt_hash = []\<rparr>]"], of "[]" ?ls,
      THEN conjunct2, THEN conjunct2, THEN conjunct2, rule_format, OF p]
  from all [THEN conjunct2, THEN conjunct2, THEN conjunct2, THEN conjunct2, THEN bspec, OF r]
  show ?thesis unfolding l .
qed

text \<open>
  The isolation check passes exactly the selections whose checked rows all lie in the
  visible layers, so what \<open>Checked\<close> holds after extending two checked selections is
  still isolated, and a selection checked before a round stays isolated after it.
\<close>

theorem checked_selection_isolated:
  assumes "checked_new s ec = Inr s'" and "checked_new t ec = Inr t'"
    and "eph_wf ec" and "push_round ec layers = Some ec'"
  shows "s' = s \<and> selection_layers s' \<subseteq> set (visible_ids ec)
    \<and> checked_new (selection_extend s' t') ec' = Inr (selection_extend s' t')"
proof -
  have "s' = s" "t' = t" "selection_layers s' \<subseteq> set (visible_ids ec)" "selection_layers t' \<subseteq> set (visible_ids ec)"
    using assms(1,2) by (auto simp: checked_new_def has_eph_leak_iff split: if_splits)
  moreover have "set (visible_ids ec) \<subseteq> set (visible_ids ec')"
    using push_round_visible [OF assms(4)] assms(3) by (auto simp: eph_wf_def)
  ultimately show ?thesis
    by (auto simp: checked_new_def has_eph_leak_iff selection_layers_extend)
qed

definition sample_symbol :: "int \<Rightarrow> symbol_row" where
  "sample_symbol l = \<lparr>sy_id = 1, sy_name = ''f'', sy_path = ''f'', sy_project_id = 1, sy_type = 1,
     sy_scope = None, sy_leaf_name = ''f'', sy_layer = l\<rparr>"

definition sample_instance :: "int \<Rightarrow> instance_row" where
  "sample_instance l = \<lparr>in_id = 1, in_symbol = 1, in_object_id = 1,
     in_range = (Included 0, Excluded 1), in_type = 1, in_layer = l\<rparr>"

definition sample_selection :: "int \<Rightarrow> selection" where
  "sample_selection l = selection_new\<lparr>sl_has_parents :=
     [\<lparr>hp_child_symbol = sample_symbol l, hp_child_instance = sample_instance l,
       hp_parent_symbol = sample_symbol l, hp_parent_instance = sample_instance l\<rparr>]\<rparr>"

theorem checked_selection_isolated_witness:
  "checked_new (selection_extend (sample_selection 7) (sample_selection 7))
     (the (push_round (rooted [\<lparr>rt_id = 7, rt_project_id = 1, rt_hash = []\<rparr>]) [(7, -1)]))
   = Inr (selection_extend (sample_selection 7) (sample_selection 7))"
proof -
  let ?ec = "rooted [\<lparr>rt_id = 7, rt_project_id = 1, rt_hash = []\<rparr>]"
  have c: "checked_new (sample_selection 7) ?ec = Inr (sample_selection 7)" by code_simp
  have "push_round ?ec [(7, -1)] \<noteq> None" by code_simp
  then have p: "push_round ?ec [(7, -1)] = Some (the (push_round ?ec [(7, -1)]))" by simp
  from checked_selection_isolated [OF c c rooted_wf p] show ?thesis by blast
qed

end
