(* ===== verification/Filters.thy ===== *)
theory Filters
  imports Selection Symbol_Names
begin

section \<open>Filters and layer visibility\<close>

text \<open>
  \<open>index/src/db_diesel/mixins.rs\<close>: the visibility token of a query branch and its guard,
  the filter leaves with the SQL predicate each gives in each query context, the filter
  tree with its smart constructors and composition, and the byte stream \<open>hash_into\<close> feeds
  to the hasher.  SQL predicates are values of \<open>sql_expr\<close>; what a predicate holds of a row
  is a parameter.
\<close>

subsection \<open>The visibility token\<close>

datatype visibility_spec =
    RootOnly "int list"
  | EphTouching "int list"
  | Combined "int list"

fun visible_of :: "visibility_spec \<Rightarrow> int list" where
  "visible_of (RootOnly roots) = roots"
| "visible_of (EphTouching visible) = visible"
| "visible_of (Combined visible) = visible"

record eph_visibility =
  vis_branch :: visibility_spec
  vis_applied :: "string list"
  vis_guard_taken :: bool

definition vis_new :: "visibility_spec \<Rightarrow> eph_visibility" where
  "vis_new b = \<lparr>vis_branch = b, vis_applied = [], vis_guard_taken = False\<rparr>"

definition vis_root_only :: "eph_context \<Rightarrow> eph_visibility" where
  "vis_root_only ec = vis_new (RootOnly (root_ids ec))"

definition vis_eph_touching :: "eph_context \<Rightarrow> eph_visibility" where
  "vis_eph_touching ec = vis_new (EphTouching (visible_ids ec))"

definition vis_combined :: "eph_context \<Rightarrow> eph_visibility" where
  "vis_combined ec = vis_new (Combined (visible_ids ec))"

text \<open>SQL text interleaved with array parameters, and the builder's three operations.\<close>

datatype sql_part = Sql string | BindI64Array "int list"

definition frag_sql :: "string \<Rightarrow> sql_part list \<Rightarrow> sql_part list" where
  "frag_sql s parts =
     (if parts = [] then [Sql s]
      else (case last parts of Sql buf \<Rightarrow> butlast parts @ [Sql (buf @ s)] | _ \<Rightarrow> parts @ [Sql s]))"

definition frag_bind :: "int list \<Rightarrow> sql_part list \<Rightarrow> sql_part list" where
  "frag_bind ids parts = parts @ [BindI64Array ids]"

definition frag_visibility :: "string \<Rightarrow> eph_visibility \<Rightarrow> sql_part list \<Rightarrow> sql_part list" where
  "frag_visibility column vis parts =
     frag_sql (column @ '' = ANY('') parts @ [BindI64Array (visible_of (vis_branch vis)), Sql '')'']"

text \<open>\<open>pred\<close> records the column as a guard member; \<open>subquery_pred\<close> does not.\<close>

definition vis_pred :: "string \<Rightarrow> eph_visibility \<Rightarrow> sql_part list \<times> eph_visibility" where
  "vis_pred column vis =
     (frag_visibility column vis [], vis\<lparr>vis_applied := vis_applied vis @ [column]\<rparr>)"

definition vis_subquery_pred :: "string \<Rightarrow> eph_visibility \<Rightarrow> sql_part list" where
  "vis_subquery_pred column vis = frag_visibility column vis []"

definition vis_guard :: "eph_visibility \<Rightarrow> sql_part list \<times> eph_visibility" where
  "vis_guard vis =
     (case vis_branch vis of
        EphTouching _ \<Rightarrow>
          if vis_applied vis = [] then frag_sql ''TRUE'' []
          else frag_sql (''NOT ('' @ join_with '' AND '' (map (\<lambda>c. c @ '' > 0'') (vis_applied vis)) @ '')'') []
      | _ \<Rightarrow> frag_sql ''TRUE'' [],
      vis\<lparr>vis_guard_taken := True\<rparr>)"

definition vis_snapshot :: "eph_visibility \<Rightarrow> visibility_spec \<times> eph_visibility" where
  "vis_snapshot vis = (vis_branch vis, vis\<lparr>vis_guard_taken := True\<rparr>)"

text \<open>
  The value of the two kinds of fragment a query is made of, given the layer each column
  of the candidate row has: membership in the bound set, and the guard, whose clauses the
  token lists.
\<close>

definition pred_value :: "(string \<Rightarrow> int) \<Rightarrow> string \<Rightarrow> eph_visibility \<Rightarrow> bool" where
  "pred_value env column vis \<longleftrightarrow> env column \<in> set (visible_of (vis_branch vis))"

definition guard_value :: "(string \<Rightarrow> int) \<Rightarrow> eph_visibility \<Rightarrow> bool" where
  "guard_value env vis \<longleftrightarrow>
     (case vis_branch vis of
        EphTouching _ \<Rightarrow> if vis_applied vis = [] then True else \<not> (\<forall>c\<in>set (vis_applied vis). 0 < env c)
      | _ \<Rightarrow> True)"

text \<open>
  How every builder of \<open>index_impl.rs\<close> uses the token: one \<open>pred\<close> per selected layer column,
  the filter expression, then the guard.
\<close>

fun apply_preds :: "string list \<Rightarrow> eph_visibility \<Rightarrow> eph_visibility" where
  "apply_preds [] vis = vis"
| "apply_preds (c # cs) vis = apply_preds cs (snd (vis_pred c vis))"

definition branch_selects :: "(string \<Rightarrow> int) \<Rightarrow> string list \<Rightarrow> eph_visibility \<Rightarrow> bool" where
  "branch_selects env columns vis \<longleftrightarrow>
     (\<forall>c\<in>set columns. pred_value env c vis) \<and> guard_value env (apply_preds columns vis)"

subsection \<open>Predicates\<close>

text \<open>The SQL predicates of the leaves; the subquery ones carry the visibility they render.\<close>

datatype sql_atom =
    LeafNameEq string
  | PathMatches string
  | LeafNameLike string bool
  | NameLike string bool
  | NameEq string
  | InstanceIdIn "int list"
  | ProjectNameEq string
  | ObjectInProject string
  | NoMidInHasChildren visibility_spec
  | NoContainerInChildren visibility_spec
  | NoMidInHasParents visibility_spec
  | NoOuterParent "int list" visibility_spec
  | SymbolTypeEq int
  | SymbolTypeIn "int list"
  | DescendantOf string

datatype sql_expr =
    EAtom sql_atom
  | EFalse
  | EAnd sql_expr sql_expr
  | EOr sql_expr sql_expr
  | ENot sql_expr

primrec eval_expr :: "(sql_atom \<Rightarrow> bool) \<Rightarrow> sql_expr \<Rightarrow> bool" where
  "eval_expr holds (EAtom a) = holds a"
| "eval_expr holds EFalse = False"
| "eval_expr holds (EAnd a b) = (eval_expr holds a \<and> eval_expr holds b)"
| "eval_expr holds (EOr a b) = (eval_expr holds a \<or> eval_expr holds b)"
| "eval_expr holds (ENot a) = (\<not> eval_expr holds a)"

fun fold_and :: "sql_expr list \<Rightarrow> sql_expr option" where
  "fold_and [] = None"
| "fold_and (e # es) = Some (foldl EAnd e es)"

fun fold_or :: "sql_expr list \<Rightarrow> sql_expr option" where
  "fold_or [] = None"
| "fold_or (e # es) = Some (foldl EOr e es)"

subsection \<open>Filter leaves\<close>

datatype filter_leaf =
    CompoundName "string option" "string option"
  | LeafName string
  | GlobName glob_name_mixin
  | FullNameGlob full_name_glob_mixin
  | ExactName string
  | SymbolInstanceIds "int list"
  | ProjectFilter string
  | DirectOnly
  | InnermostOnly
  | OuterParent "int list"
  | SymbolTypeIs int
  | DefaultSymbolType "int list"
  | PackageDescendant string

definition compound_name_with_options :: "string \<Rightarrow> bool \<Rightarrow> bool \<Rightarrow> filter_leaf" where
  "compound_name_with_options compound_name leaf_anchored dot_is_sep =
     CompoundName (build_lquery compound_name leaf_anchored dot_is_sep)
       (if leaf_anchored then Some (extract_leaf_token compound_name dot_is_sep) else None)"

definition compound_name_new :: "string \<Rightarrow> filter_leaf" where
  "compound_name_new n = compound_name_with_options n False True"

definition compound_name_new_leaf_anchored :: "string \<Rightarrow> filter_leaf" where
  "compound_name_new_leaf_anchored n = compound_name_with_options n True True"

definition leaf_name_new :: "string \<Rightarrow> bool \<Rightarrow> filter_leaf" where
  "leaf_name_new name dot_is_sep = LeafName (extract_leaf_token name dot_is_sep)"

definition package_descendant_new :: "string \<Rightarrow> filter_leaf option" where
  "package_descendant_new package =
     (let path = symbol_name_to_path package
      in if path = ''unknown'' then None else Some (PackageDescendant path))"

text \<open>
  A leaf as the trait object the composite filter holds: one field per method of
  \<open>FilterLeaf\<close>.  \<open>default_leaf\<close> has the trait's default methods; each mixin overrides
  the ones its \<open>impl\<close> block writes.
\<close>

record filter_leaf_impl =
  fl_current :: "eph_visibility \<Rightarrow> sql_expr option"
  fl_parents :: "eph_visibility \<Rightarrow> sql_expr option"
  fl_children :: "eph_visibility \<Rightarrow> sql_expr option"
  fl_has_parents :: "eph_visibility \<Rightarrow> sql_expr option"
  fl_has_children :: "eph_visibility \<Rightarrow> sql_expr option"
  fl_constrains_has_children :: bool
  fl_chain_dependent :: bool
  fl_objects :: "sql_expr option"
  fl_hash :: "byte list"

definition enc_opt_str :: "string option \<Rightarrow> byte list" where
  "enc_opt_str so = (case so of Some s \<Rightarrow> char_of (1::nat) # enc_str s | None \<Rightarrow> [char_of (0::nat)])"

definition enc_bool :: "bool \<Rightarrow> byte list" where
  "enc_bool b = [char_of (if b then 1 else 0 :: nat)]"

definition default_leaf :: "byte list \<Rightarrow> filter_leaf_impl" where
  "default_leaf hash =
     \<lparr>fl_current = (\<lambda>vis. None), fl_parents = (\<lambda>vis. None), fl_children = (\<lambda>vis. None),
      fl_has_parents = (\<lambda>vis. None), fl_has_children = (\<lambda>vis. None),
      fl_constrains_has_children = False, fl_chain_dependent = False,
      fl_objects = None, fl_hash = hash\<rparr>"

definition CompoundNameMixin :: "string option \<Rightarrow> string option \<Rightarrow> filter_leaf_impl" where
  "CompoundNameMixin lquery leaf_token =
     default_leaf (''CompoundName'' @ enc_opt_str lquery @ enc_opt_str leaf_token)
       \<lparr>fl_current := (\<lambda>vis.
          fold_and ((case leaf_token of Some leaf \<Rightarrow> [EAtom (LeafNameEq leaf)] | None \<Rightarrow> [])
            @ (case lquery of Some q \<Rightarrow> [EAtom (PathMatches q)] | None \<Rightarrow> [])))\<rparr>"

definition LeafNameMixin :: "string \<Rightarrow> filter_leaf_impl" where
  "LeafNameMixin name =
     default_leaf (''LeafName'' @ enc_str name)
       \<lparr>fl_current := (\<lambda>vis. Some (EAtom (LeafNameEq name)))\<rparr>"

definition GlobNameMixin :: "glob_name_mixin \<Rightarrow> filter_leaf_impl" where
  "GlobNameMixin g =
     default_leaf (''GlobName'' @ enc_str (gn_sql_pattern g) @ enc_bool (gn_case_sensitive g))
       \<lparr>fl_current := (\<lambda>vis. Some (EAtom (LeafNameLike (gn_sql_pattern g) (gn_case_sensitive g))))\<rparr>"

definition FullNameGlobMixin :: "full_name_glob_mixin \<Rightarrow> filter_leaf_impl" where
  "FullNameGlobMixin g =
     default_leaf (''FullNameGlob'' @ enc_str (fg_sql_pattern g) @ enc_bool (fg_case_sensitive g))
       \<lparr>fl_current := (\<lambda>vis. Some (EAtom (NameLike (fg_sql_pattern g) (fg_case_sensitive g))))\<rparr>"

definition ExactNameMixin :: "string \<Rightarrow> filter_leaf_impl" where
  "ExactNameMixin name =
     default_leaf (''ExactName'' @ enc_str name)
       \<lparr>fl_current := (\<lambda>vis. Some (EAtom (NameEq name)))\<rparr>"

definition SymbolInstanceIdMixin :: "int list \<Rightarrow> filter_leaf_impl" where
  "SymbolInstanceIdMixin ids =
     default_leaf (''SymbolInstanceId'' @ enc_ints 8 ids)
       \<lparr>fl_current := (\<lambda>vis. Some (EAtom (InstanceIdIn ids)))\<rparr>"

definition ProjectFilterMixin :: "string \<Rightarrow> filter_leaf_impl" where
  "ProjectFilterMixin project_name =
     default_leaf (''Project'' @ enc_str project_name)
       \<lparr>fl_current := (\<lambda>vis. Some (EAtom (ProjectNameEq project_name))),
        fl_objects := Some (EAtom (ObjectInProject project_name))\<rparr>"

definition DirectOnlyMixin :: filter_leaf_impl where
  "DirectOnlyMixin =
     default_leaf ''DirectOnly''
       \<lparr>fl_has_children := (\<lambda>vis. Some (EAtom (NoMidInHasChildren (vis_branch vis)))),
        fl_children := (\<lambda>vis. Some (EAtom (NoContainerInChildren (vis_branch vis)))),
        fl_chain_dependent := True,
        fl_constrains_has_children := True\<rparr>"

definition InnermostOnlyMixin :: filter_leaf_impl where
  "InnermostOnlyMixin =
     default_leaf ''InnermostOnly''
       \<lparr>fl_has_parents := (\<lambda>vis. Some (EAtom (NoMidInHasParents (vis_branch vis)))),
        fl_chain_dependent := True\<rparr>"

definition OuterParentFilterMixin :: "int list \<Rightarrow> filter_leaf_impl" where
  "OuterParentFilterMixin parent_ids =
     default_leaf (''OuterParent'' @ enc_ints 8 parent_ids)
       \<lparr>fl_children := (\<lambda>vis. if parent_ids = [] then None
          else Some (EAtom (NoOuterParent parent_ids (vis_branch vis)))),
        fl_chain_dependent := (parent_ids \<noteq> [])\<rparr>"

definition SymbolTypeMixin :: "int \<Rightarrow> filter_leaf_impl" where
  "SymbolTypeMixin symbol_type_id =
     default_leaf (''SymbolType'' @ le_bytes 4 symbol_type_id)
       \<lparr>fl_current := (\<lambda>vis. Some (EAtom (SymbolTypeEq symbol_type_id)))\<rparr>"

definition DefaultSymbolTypeMixin :: "int list \<Rightarrow> filter_leaf_impl" where
  "DefaultSymbolTypeMixin symbol_type_ids =
     default_leaf (''DefaultSymbolType'' @ enc_ints 4 symbol_type_ids)
       \<lparr>fl_current := (\<lambda>vis. Some (EAtom (SymbolTypeIn symbol_type_ids)))\<rparr>"

definition PackageDescendantLeaf :: "string \<Rightarrow> filter_leaf_impl" where
  "PackageDescendantLeaf path =
     default_leaf (''PackageDescendant'' @ enc_str path)
       \<lparr>fl_current := (\<lambda>vis. Some (EAtom (DescendantOf path)))\<rparr>"

text \<open>Dynamic dispatch.\<close>

fun leaf_impl :: "filter_leaf \<Rightarrow> filter_leaf_impl" where
  "leaf_impl (CompoundName lquery leaf_token) = CompoundNameMixin lquery leaf_token"
| "leaf_impl (LeafName n) = LeafNameMixin n"
| "leaf_impl (GlobName g) = GlobNameMixin g"
| "leaf_impl (FullNameGlob g) = FullNameGlobMixin g"
| "leaf_impl (ExactName n) = ExactNameMixin n"
| "leaf_impl (SymbolInstanceIds ids) = SymbolInstanceIdMixin ids"
| "leaf_impl (ProjectFilter p) = ProjectFilterMixin p"
| "leaf_impl DirectOnly = DirectOnlyMixin"
| "leaf_impl InnermostOnly = InnermostOnlyMixin"
| "leaf_impl (OuterParent ids) = OuterParentFilterMixin ids"
| "leaf_impl (SymbolTypeIs t) = SymbolTypeMixin t"
| "leaf_impl (DefaultSymbolType ts) = DefaultSymbolTypeMixin ts"
| "leaf_impl (PackageDescendant p) = PackageDescendantLeaf p"

definition current_expr :: "filter_leaf \<Rightarrow> eph_visibility \<Rightarrow> sql_expr option" where
  "current_expr l = fl_current (leaf_impl l)"

definition parents_expr :: "filter_leaf \<Rightarrow> eph_visibility \<Rightarrow> sql_expr option" where
  "parents_expr l = fl_parents (leaf_impl l)"

definition children_expr :: "filter_leaf \<Rightarrow> eph_visibility \<Rightarrow> sql_expr option" where
  "children_expr l = fl_children (leaf_impl l)"

definition has_parents_expr :: "filter_leaf \<Rightarrow> eph_visibility \<Rightarrow> sql_expr option" where
  "has_parents_expr l = fl_has_parents (leaf_impl l)"

definition has_children_expr :: "filter_leaf \<Rightarrow> eph_visibility \<Rightarrow> sql_expr option" where
  "has_children_expr l = fl_has_children (leaf_impl l)"

definition objects_expr :: "filter_leaf \<Rightarrow> sql_expr option" where
  "objects_expr l = fl_objects (leaf_impl l)"

definition leaf_constrains_has_children :: "filter_leaf \<Rightarrow> bool" where
  "leaf_constrains_has_children l = fl_constrains_has_children (leaf_impl l)"

definition leaf_chain_dependent :: "filter_leaf \<Rightarrow> bool" where
  "leaf_chain_dependent l = fl_chain_dependent (leaf_impl l)"

definition leaf_hash_into :: "filter_leaf \<Rightarrow> byte list" where
  "leaf_hash_into l = fl_hash (leaf_impl l)"

lemmas leaf_impl_defs =
  default_leaf_def CompoundNameMixin_def LeafNameMixin_def GlobNameMixin_def
  FullNameGlobMixin_def ExactNameMixin_def SymbolInstanceIdMixin_def ProjectFilterMixin_def
  DirectOnlyMixin_def InnermostOnlyMixin_def OuterParentFilterMixin_def SymbolTypeMixin_def
  DefaultSymbolTypeMixin_def PackageDescendantLeaf_def

lemma current_expr_simps [simp]:
  "current_expr (CompoundName q k) vis = fold_and ((case k of Some leaf \<Rightarrow> [EAtom (LeafNameEq leaf)] | None \<Rightarrow> []) @ (case q of Some s \<Rightarrow> [EAtom (PathMatches s)] | None \<Rightarrow> []))"
  "current_expr (LeafName n) vis = Some (EAtom (LeafNameEq n))"
  "current_expr (GlobName g) vis = Some (EAtom (LeafNameLike (gn_sql_pattern g) (gn_case_sensitive g)))"
  "current_expr (FullNameGlob fg) vis = Some (EAtom (NameLike (fg_sql_pattern fg) (fg_case_sensitive fg)))"
  "current_expr (ExactName n) vis = Some (EAtom (NameEq n))"
  "current_expr (SymbolInstanceIds ids) vis = Some (EAtom (InstanceIdIn ids))"
  "current_expr (ProjectFilter p) vis = Some (EAtom (ProjectNameEq p))"
  "current_expr DirectOnly vis = None"
  "current_expr InnermostOnly vis = None"
  "current_expr (OuterParent ids) vis = None"
  "current_expr (SymbolTypeIs st) vis = Some (EAtom (SymbolTypeEq st))"
  "current_expr (DefaultSymbolType ts) vis = Some (EAtom (SymbolTypeIn ts))"
  "current_expr (PackageDescendant p) vis = Some (EAtom (DescendantOf p))"
  by (simp_all add: current_expr_def leaf_impl_defs)

lemma parents_expr_none [simp]: "parents_expr l vis = None"
  by (cases l) (simp_all add: parents_expr_def leaf_impl_defs)

lemma children_expr_simps [simp]:
  "children_expr (CompoundName q k) vis = None"
  "children_expr (LeafName n) vis = None"
  "children_expr (GlobName g) vis = None"
  "children_expr (FullNameGlob fg) vis = None"
  "children_expr (ExactName n) vis = None"
  "children_expr (SymbolInstanceIds ids) vis = None"
  "children_expr (ProjectFilter p) vis = None"
  "children_expr DirectOnly vis = Some (EAtom (NoContainerInChildren (vis_branch vis)))"
  "children_expr InnermostOnly vis = None"
  "children_expr (OuterParent ids) vis = (if ids = [] then None else Some (EAtom (NoOuterParent ids (vis_branch vis))))"
  "children_expr (SymbolTypeIs st) vis = None"
  "children_expr (DefaultSymbolType ts) vis = None"
  "children_expr (PackageDescendant p) vis = None"
  by (simp_all add: children_expr_def leaf_impl_defs)

lemma has_parents_expr_simps [simp]:
  "has_parents_expr (CompoundName q k) vis = None"
  "has_parents_expr (LeafName n) vis = None"
  "has_parents_expr (GlobName g) vis = None"
  "has_parents_expr (FullNameGlob fg) vis = None"
  "has_parents_expr (ExactName n) vis = None"
  "has_parents_expr (SymbolInstanceIds ids) vis = None"
  "has_parents_expr (ProjectFilter p) vis = None"
  "has_parents_expr DirectOnly vis = None"
  "has_parents_expr InnermostOnly vis = Some (EAtom (NoMidInHasParents (vis_branch vis)))"
  "has_parents_expr (OuterParent ids) vis = None"
  "has_parents_expr (SymbolTypeIs st) vis = None"
  "has_parents_expr (DefaultSymbolType ts) vis = None"
  "has_parents_expr (PackageDescendant p) vis = None"
  by (simp_all add: has_parents_expr_def leaf_impl_defs)

lemma has_children_expr_simps [simp]:
  "has_children_expr (CompoundName q k) vis = None"
  "has_children_expr (LeafName n) vis = None"
  "has_children_expr (GlobName g) vis = None"
  "has_children_expr (FullNameGlob fg) vis = None"
  "has_children_expr (ExactName n) vis = None"
  "has_children_expr (SymbolInstanceIds ids) vis = None"
  "has_children_expr (ProjectFilter p) vis = None"
  "has_children_expr DirectOnly vis = Some (EAtom (NoMidInHasChildren (vis_branch vis)))"
  "has_children_expr InnermostOnly vis = None"
  "has_children_expr (OuterParent ids) vis = None"
  "has_children_expr (SymbolTypeIs st) vis = None"
  "has_children_expr (DefaultSymbolType ts) vis = None"
  "has_children_expr (PackageDescendant p) vis = None"
  by (simp_all add: has_children_expr_def leaf_impl_defs)

lemma objects_expr_simps [simp]:
  "objects_expr (CompoundName q k) = None"
  "objects_expr (LeafName n) = None"
  "objects_expr (GlobName g) = None"
  "objects_expr (FullNameGlob fg) = None"
  "objects_expr (ExactName n) = None"
  "objects_expr (SymbolInstanceIds ids) = None"
  "objects_expr (ProjectFilter p) = Some (EAtom (ObjectInProject p))"
  "objects_expr DirectOnly = None"
  "objects_expr InnermostOnly = None"
  "objects_expr (OuterParent ids) = None"
  "objects_expr (SymbolTypeIs st) = None"
  "objects_expr (DefaultSymbolType ts) = None"
  "objects_expr (PackageDescendant p) = None"
  by (simp_all add: objects_expr_def leaf_impl_defs)

lemma leaf_constrains_has_children_simps [simp]:
  "leaf_constrains_has_children (CompoundName q k) = False"
  "leaf_constrains_has_children (LeafName n) = False"
  "leaf_constrains_has_children (GlobName g) = False"
  "leaf_constrains_has_children (FullNameGlob fg) = False"
  "leaf_constrains_has_children (ExactName n) = False"
  "leaf_constrains_has_children (SymbolInstanceIds ids) = False"
  "leaf_constrains_has_children (ProjectFilter p) = False"
  "leaf_constrains_has_children DirectOnly = True"
  "leaf_constrains_has_children InnermostOnly = False"
  "leaf_constrains_has_children (OuterParent ids) = False"
  "leaf_constrains_has_children (SymbolTypeIs st) = False"
  "leaf_constrains_has_children (DefaultSymbolType ts) = False"
  "leaf_constrains_has_children (PackageDescendant p) = False"
  by (simp_all add: leaf_constrains_has_children_def leaf_impl_defs)

lemma leaf_chain_dependent_simps [simp]:
  "leaf_chain_dependent (CompoundName q k) = False"
  "leaf_chain_dependent (LeafName n) = False"
  "leaf_chain_dependent (GlobName g) = False"
  "leaf_chain_dependent (FullNameGlob fg) = False"
  "leaf_chain_dependent (ExactName n) = False"
  "leaf_chain_dependent (SymbolInstanceIds ids) = False"
  "leaf_chain_dependent (ProjectFilter p) = False"
  "leaf_chain_dependent DirectOnly = True"
  "leaf_chain_dependent InnermostOnly = True"
  "leaf_chain_dependent (OuterParent ids) = (ids \<noteq> [])"
  "leaf_chain_dependent (SymbolTypeIs st) = False"
  "leaf_chain_dependent (DefaultSymbolType ts) = False"
  "leaf_chain_dependent (PackageDescendant p) = False"
  by (simp_all add: leaf_chain_dependent_def leaf_impl_defs)

lemma leaf_hash_into_simps [simp]:
  "leaf_hash_into (CompoundName q k) = ''CompoundName'' @ enc_opt_str q @ enc_opt_str k"
  "leaf_hash_into (LeafName n) = ''LeafName'' @ enc_str n"
  "leaf_hash_into (GlobName g) = ''GlobName'' @ enc_str (gn_sql_pattern g) @ enc_bool (gn_case_sensitive g)"
  "leaf_hash_into (FullNameGlob fg) = ''FullNameGlob'' @ enc_str (fg_sql_pattern fg) @ enc_bool (fg_case_sensitive fg)"
  "leaf_hash_into (ExactName n) = ''ExactName'' @ enc_str n"
  "leaf_hash_into (SymbolInstanceIds ids) = ''SymbolInstanceId'' @ enc_ints 8 ids"
  "leaf_hash_into (ProjectFilter p) = ''Project'' @ enc_str p"
  "leaf_hash_into DirectOnly = ''DirectOnly''"
  "leaf_hash_into InnermostOnly = ''InnermostOnly''"
  "leaf_hash_into (OuterParent ids) = ''OuterParent'' @ enc_ints 8 ids"
  "leaf_hash_into (SymbolTypeIs st) = ''SymbolType'' @ le_bytes 4 st"
  "leaf_hash_into (DefaultSymbolType ts) = ''DefaultSymbolType'' @ enc_ints 4 ts"
  "leaf_hash_into (PackageDescendant p) = ''PackageDescendant'' @ enc_str p"
  by (simp_all add: leaf_hash_into_def leaf_impl_defs)


subsection \<open>The filter tree\<close>

datatype composite_filter =
    CAnd "composite_filter list"
  | COr "composite_filter list"
  | CNot composite_filter
  | CLeaf filter_leaf

definition cf_and :: "composite_filter list \<Rightarrow> composite_filter" where
  "cf_and children = (case children of [] \<Rightarrow> CAnd [] | [c] \<Rightarrow> c | _ \<Rightarrow> CAnd children)"

definition cf_or :: "composite_filter list \<Rightarrow> composite_filter" where
  "cf_or children = (case children of [] \<Rightarrow> COr [] | [c] \<Rightarrow> c | _ \<Rightarrow> COr children)"

fun cf_not :: "composite_filter \<Rightarrow> composite_filter" where
  "cf_not (CNot inner) = inner"
| "cf_not f = CNot f"

text \<open>The loop of the OR case: the first unconstrained child returns \<open>None\<close>.\<close>

fun all_some :: "'a option list \<Rightarrow> 'a list option" where
  "all_some [] = Some []"
| "all_some (None # xs) = None"
| "all_some (Some x # xs) = map_option ((#) x) (all_some xs)"

text \<open>The body the compose macro generates for one context, for a leaf method.\<close>

fun compose :: "(filter_leaf \<Rightarrow> sql_expr option) \<Rightarrow> composite_filter \<Rightarrow> sql_expr option" where
  "compose leaf_method (CLeaf l) = leaf_method l"
| "compose leaf_method (CAnd children) =
     fold_and (somes (map (compose leaf_method) children))"
| "compose leaf_method (COr children) =
     (if children = [] then Some EFalse
      else case all_some (map (compose leaf_method) children) of
             None \<Rightarrow> None | Some exprs \<Rightarrow> fold_or exprs)"
| "compose leaf_method (CNot inner) = map_option ENot (compose leaf_method inner)"

definition compose_current where "compose_current f vis = compose (\<lambda>l. current_expr l vis) f"
definition compose_parents where "compose_parents f vis = compose (\<lambda>l. parents_expr l vis) f"
definition compose_children where "compose_children f vis = compose (\<lambda>l. children_expr l vis) f"
definition compose_has_parents where "compose_has_parents f vis = compose (\<lambda>l. has_parents_expr l vis) f"
definition compose_has_children where "compose_has_children f vis = compose (\<lambda>l. has_children_expr l vis) f"
definition compose_objects where "compose_objects f = compose objects_expr f"

fun constrains_has_children :: "composite_filter \<Rightarrow> bool" where
  "constrains_has_children (CLeaf l) = leaf_constrains_has_children l"
| "constrains_has_children (CAnd cs) = list_ex (\<lambda>b. b) (map constrains_has_children cs)"
| "constrains_has_children (COr cs) = (cs \<noteq> [] \<and> list_all (\<lambda>b. b) (map constrains_has_children cs))"
| "constrains_has_children (CNot c) = constrains_has_children c"

fun is_chain_dependent :: "composite_filter \<Rightarrow> bool" where
  "is_chain_dependent (CLeaf l) = leaf_chain_dependent l"
| "is_chain_dependent (CAnd cs) = list_ex (\<lambda>b. b) (map is_chain_dependent cs)"
| "is_chain_dependent (COr cs) = list_ex (\<lambda>b. b) (map is_chain_dependent cs)"
| "is_chain_dependent (CNot c) = is_chain_dependent c"

fun cf_hash_into :: "composite_filter \<Rightarrow> byte list" where
  "cf_hash_into (CLeaf l) = char_of (0::nat) # leaf_hash_into l"
| "cf_hash_into (CAnd cs) = char_of (1::nat) # enc_len (length cs) @ concat (map cf_hash_into cs)"
| "cf_hash_into (COr cs) = char_of (2::nat) # enc_len (length cs) @ concat (map cf_hash_into cs)"
| "cf_hash_into (CNot c) = char_of (3::nat) # cf_hash_into c"

subsection \<open>Composition\<close>

text \<open>Composition only looks at the leaves of the tree.\<close>

primrec leaves :: "composite_filter \<Rightarrow> filter_leaf set" where
  "leaves (CLeaf l) = {l}"
| "leaves (CAnd cs) = \<Union> (set (map leaves cs))"
| "leaves (COr cs) = \<Union> (set (map leaves cs))"
| "leaves (CNot c) = leaves c"

lemma compose_cong:
  "\<forall>l\<in>leaves f. m l = m' l \<Longrightarrow> compose m f = compose m' f"
proof (induction f)
  case (CAnd cs)
  then have eq: "map (compose m) cs = map (compose m') cs" by simp
  show ?case unfolding compose.simps eq ..
next
  case (COr cs)
  then have eq: "map (compose m) cs = map (compose m') cs" by simp
  show ?case unfolding compose.simps eq ..
qed auto

lemma is_chain_dependent_leaves: "is_chain_dependent f \<longleftrightarrow> (\<exists>l\<in>leaves f. leaf_chain_dependent l)"
  by (induction f) (auto simp: list_ex_iff)

lemma leaf_exprs_vis_free:
  assumes "\<not> leaf_chain_dependent l"
  shows "current_expr l vis = current_expr l vis'" and "parents_expr l vis = parents_expr l vis'"
    and "children_expr l vis = children_expr l vis'"
    and "has_parents_expr l vis = has_parents_expr l vis'"
    and "has_children_expr l vis = has_children_expr l vis'"
  using assms by (cases l; simp)+

lemma compose_vis_free:
  assumes "\<not> is_chain_dependent f"
  shows "compose_current f vis = compose_current f vis'" and "compose_parents f vis = compose_parents f vis'"
    and "compose_children f vis = compose_children f vis'"
    and "compose_has_parents f vis = compose_has_parents f vis'"
    and "compose_has_children f vis = compose_has_children f vis'"
  using assms leaf_exprs_vis_free
  unfolding compose_current_def compose_parents_def compose_children_def compose_has_parents_def
    compose_has_children_def is_chain_dependent_leaves
  by (auto intro!: compose_cong)

text \<open>Every query context, for statements about all of them.\<close>

datatype query_context = Current | Parents | Children | HasParents | HasChildren

fun compose_in :: "query_context \<Rightarrow> composite_filter \<Rightarrow> eph_visibility \<Rightarrow> sql_expr option" where
  "compose_in Current f vis = compose_current f vis"
| "compose_in Parents f vis = compose_parents f vis"
| "compose_in Children f vis = compose_children f vis"
| "compose_in HasParents f vis = compose_has_parents f vis"
| "compose_in HasChildren f vis = compose_has_children f vis"

lemma compose_in_vis_free: "\<not> is_chain_dependent f \<Longrightarrow> compose_in qc f vis = compose_in qc f vis'"
  using compose_vis_free by (cases qc) simp_all

text \<open>No constraint means every row.\<close>

definition expr_value :: "(sql_atom \<Rightarrow> bool) \<Rightarrow> sql_expr option \<Rightarrow> bool" where
  "expr_value holds e = (case e of None \<Rightarrow> True | Some e \<Rightarrow> eval_expr holds e)"

lemma eval_foldl_EAnd: "eval_expr holds (foldl EAnd e es) \<longleftrightarrow> eval_expr holds e \<and> (\<forall>x\<in>set es. eval_expr holds x)"
  by (induction es arbitrary: e) auto

lemma eval_foldl_EOr: "eval_expr holds (foldl EOr e es) \<longleftrightarrow> eval_expr holds e \<or> (\<exists>x\<in>set es. eval_expr holds x)"
  by (induction es arbitrary: e) auto

lemma expr_value_fold_and: "expr_value holds (fold_and es) \<longleftrightarrow> (\<forall>e\<in>set es. eval_expr holds e)"
  by (cases es) (auto simp: expr_value_def eval_foldl_EAnd)

lemma expr_value_fold_or: "es \<noteq> [] \<Longrightarrow> expr_value holds (fold_or es) \<longleftrightarrow> (\<exists>e\<in>set es. eval_expr holds e)"
  by (cases es) (auto simp: expr_value_def eval_foldl_EOr)

lemma fold_and_eq_None: "fold_and es = None \<longleftrightarrow> es = []" by (cases es) auto
lemma fold_or_eq_None: "fold_or es = None \<longleftrightarrow> es = []" by (cases es) auto

lemma all_some_eq_Some: "all_some xs = Some ys \<longleftrightarrow> xs = map Some ys"
proof (induction xs arbitrary: ys rule: all_some.induct)
  case (3 x xs)
  then show ?case by (cases ys) auto
qed auto

lemma all_some_eq_None: "all_some xs = None \<longleftrightarrow> None \<in> set xs"
  by (induction xs rule: all_some.induct) auto

lemma expr_value_compose_and:
  "expr_value holds (compose m (CAnd cs)) \<longleftrightarrow> (\<forall>c\<in>set cs. expr_value holds (compose m c))"
  unfolding compose.simps expr_value_fold_and set_somes
  by (auto simp: expr_value_def split: option.splits) (metis image_eqI option.exhaust)+

lemma expr_value_compose_or:
  "expr_value holds (compose m (COr cs)) \<longleftrightarrow> (\<exists>c\<in>set cs. expr_value holds (compose m c))"
proof (cases "all_some (map (compose m) cs)")
  case None
  then obtain c where "c \<in> set cs" "compose m c = None" by (auto simp: all_some_eq_None)
  with None show ?thesis by (force simp: expr_value_def)
next
  case (Some es)
  then have map: "map (compose m) cs = map Some es" by (simp add: all_some_eq_Some)
  have "(\<exists>c\<in>set cs. expr_value holds (compose m c)) \<longleftrightarrow> (\<exists>o'\<in>set (map (compose m) cs). expr_value holds o')"
    by simp
  also have "\<dots> \<longleftrightarrow> (\<exists>e\<in>set es. eval_expr holds e)"
    unfolding map by (auto simp: expr_value_def)
  finally have rhs: "(\<exists>c\<in>set cs. expr_value holds (compose m c)) \<longleftrightarrow> (\<exists>e\<in>set es. eval_expr holds e)" .
  show ?thesis
  proof (cases "cs = []")
    case True
    then show ?thesis by (simp add: expr_value_def)
  next
    case False
    with map have "es \<noteq> []" by auto
    have "compose m (COr cs) = fold_or es" using False Some by simp
    then show ?thesis using rhs expr_value_fold_or [OF \<open>es \<noteq> []\<close>] by simp
  qed
qed

text \<open>
  The meaning of a filter whose leaves all constrain the context: the Boolean
  combination of the leaves.
\<close>

primrec filter_holds :: "(filter_leaf \<Rightarrow> bool) \<Rightarrow> composite_filter \<Rightarrow> bool" where
  "filter_holds h (CLeaf l) = h l"
| "filter_holds h (CAnd cs) = (\<forall>b\<in>set (map (filter_holds h) cs). b)"
| "filter_holds h (COr cs) = (\<exists>b\<in>set (map (filter_holds h) cs). b)"
| "filter_holds h (CNot c) = (\<not> filter_holds h c)"

text \<open>No AND without children: the code reads it as no constraint, also below a NOT.\<close>

fun no_empty_and :: "composite_filter \<Rightarrow> bool" where
  "no_empty_and (CLeaf l) = True"
| "no_empty_and (CAnd cs) = (cs \<noteq> [] \<and> list_all (\<lambda>b. b) (map no_empty_and cs))"
| "no_empty_and (COr cs) = list_all (\<lambda>b. b) (map no_empty_and cs)"
| "no_empty_and (CNot c) = no_empty_and c"

fun no_empty_or :: "composite_filter \<Rightarrow> bool" where
  "no_empty_or (CLeaf l) = True"
| "no_empty_or (CAnd cs) = list_all (\<lambda>b. b) (map no_empty_or cs)"
| "no_empty_or (COr cs) = (cs \<noteq> [] \<and> list_all (\<lambda>b. b) (map no_empty_or cs))"
| "no_empty_or (CNot c) = no_empty_or c"

lemma compose_None:
  "compose m (CAnd cs) = None \<longleftrightarrow> (\<forall>c\<in>set cs. compose m c = None)"
  "compose m (COr cs) = None \<longleftrightarrow> (\<exists>c\<in>set cs. compose m c = None)"
  "compose m (CNot c) = None \<longleftrightarrow> compose m c = None"
proof -
  show "compose m (CAnd cs) = None \<longleftrightarrow> (\<forall>c\<in>set cs. compose m c = None)"
    by (simp add: fold_and_eq_None somes_eq_Nil)
  show "compose m (COr cs) = None \<longleftrightarrow> (\<exists>c\<in>set cs. compose m c = None)"
  proof (cases "all_some (map (compose m) cs)")
    case None
    then have "\<exists>c\<in>set cs. compose m c = None" by (force simp: all_some_eq_None)
    moreover from this have "compose m (COr cs) = None" using None by auto
    ultimately show ?thesis by blast
  next
    case (Some es)
    then have map: "map (compose m) cs = map Some es" by (simp add: all_some_eq_Some)
    then have "es = [] \<longleftrightarrow> cs = []" by auto
    moreover have "None \<notin> set (map (compose m) cs)" unfolding map by auto
    then have "\<forall>c\<in>set cs. compose m c \<noteq> None" by (metis image_eqI list.set_map)
    ultimately show ?thesis using Some by (auto simp: fold_or_eq_None)
  qed
qed simp

lemma compose_constrained:
  "\<forall>l\<in>leaves f. m l \<noteq> None \<Longrightarrow> no_empty_and f \<Longrightarrow> compose m f \<noteq> None"
proof (induction f)
  case (CAnd cs)
  then show ?case unfolding compose_None by (cases cs) auto
next
  case (COr cs)
  then show ?case unfolding compose_None by (auto simp: list_all_iff)
qed auto

lemma compose_holds:
  "\<forall>l\<in>leaves f. m l \<noteq> None \<Longrightarrow> no_empty_and f \<Longrightarrow>
   expr_value holds (compose m f) \<longleftrightarrow> filter_holds (\<lambda>l. expr_value holds (m l)) f"
proof (induction f)
  case (CAnd cs)
  then show ?case unfolding expr_value_compose_and by (auto simp: list_all_iff)
next
  case (COr cs)
  then show ?case unfolding expr_value_compose_or by (auto simp: list_all_iff)
next
  case (CNot f)
  then have "compose m f \<noteq> None" by (intro compose_constrained) auto
  with CNot show ?case by (auto simp: expr_value_def)
qed simp

lemma cf_smart_value:
  "expr_value holds (compose m (cf_and fs)) = expr_value holds (compose m (CAnd fs))"
  "expr_value holds (compose m (cf_or fs)) = expr_value holds (compose m (COr fs))"
  "expr_value holds (compose m (cf_not f)) = expr_value holds (compose m (CNot f))"
  unfolding expr_value_compose_and expr_value_compose_or
    apply (simp add: cf_and_def expr_value_compose_and del: compose.simps split: list.splits)
   apply (simp add: cf_or_def expr_value_compose_or del: compose.simps split: list.splits)
  by (cases f) (auto simp: expr_value_def split: option.splits)

lemma has_children_shape:
  "no_empty_or f \<Longrightarrow> constrains_has_children f \<longleftrightarrow> compose_has_children f vis \<noteq> None"
  unfolding compose_has_children_def
proof (induction f)
  case (CAnd cs)
  then show ?case unfolding compose_None by (auto simp: list_all_iff list_ex_iff)
next
  case (COr cs)
  then show ?case unfolding compose_None by (auto simp: list_all_iff)
next
  case (CLeaf l)
  then show ?case by (cases l) simp_all
qed simp

subsection \<open>The hashed stream is prefix-free\<close>

fun leaf_wf :: "filter_leaf \<Rightarrow> bool" where
  "leaf_wf (CompoundName q l) =
     (pred_option (\<lambda>s. fits_u32 (length s)) q \<and> pred_option (\<lambda>s. fits_u32 (length s)) l)"
| "leaf_wf (LeafName n) = fits_u32 (length n)"
| "leaf_wf (GlobName g) = fits_u32 (length (gn_sql_pattern g))"
| "leaf_wf (FullNameGlob g) = fits_u32 (length (fg_sql_pattern g))"
| "leaf_wf (ExactName n) = fits_u32 (length n)"
| "leaf_wf (SymbolInstanceIds ids) = (fits_u32 (length ids) \<and> list_all is_i64 ids)"
| "leaf_wf (ProjectFilter p) = fits_u32 (length p)"
| "leaf_wf DirectOnly = True"
| "leaf_wf InnermostOnly = True"
| "leaf_wf (OuterParent ids) = (fits_u32 (length ids) \<and> list_all is_i64 ids)"
| "leaf_wf (SymbolTypeIs t) = is_i32 t"
| "leaf_wf (DefaultSymbolType ts) = (fits_u32 (length ts) \<and> list_all is_i32 ts)"
| "leaf_wf (PackageDescendant p) = fits_u32 (length p)"

fun cf_wf :: "composite_filter \<Rightarrow> bool" where
  "cf_wf (CLeaf l) = leaf_wf l"
| "cf_wf (CAnd cs) = (fits_u32 (length cs) \<and> list_all (\<lambda>b. b) (map cf_wf cs))"
| "cf_wf (COr cs) = (fits_u32 (length cs) \<and> list_all (\<lambda>b. b) (map cf_wf cs))"
| "cf_wf (CNot c) = cf_wf c"

lemma enc_bool_split: "enc_bool a @ r = enc_bool b @ u \<Longrightarrow> a = b \<and> r = u"
  by (auto simp: enc_bool_def split: if_splits)

lemma enc_opt_str_split:
  assumes "enc_opt_str a @ r = enc_opt_str b @ u"
    and "pred_option (\<lambda>s. fits_u32 (length s)) a" "pred_option (\<lambda>s. fits_u32 (length s)) b"
  shows "a = b \<and> r = u"
proof (cases a)
  case None
  with assms show ?thesis by (cases b) (auto simp: enc_opt_str_def)
next
  case (Some s)
  with assms obtain t where "b = Some t" by (cases b) (auto simp: enc_opt_str_def)
  with assms Some enc_str_split [of s r t u] show ?thesis by (simp add: enc_opt_str_def)
qed

lemma le_bytes_i32_split:
  assumes "le_bytes 4 x @ r = le_bytes 4 y @ u" "is_i32 x" "is_i32 y"
  shows "x = y \<and> r = u"
  using append_eq_len [OF assms(1)] le_bytes_i32_inj assms by simp

text \<open>The tag each leaf starts with.\<close>

fun leaf_tag :: "filter_leaf \<Rightarrow> string" where
  "leaf_tag (CompoundName q l) = ''CompoundName''"
| "leaf_tag (LeafName n) = ''LeafName''"
| "leaf_tag (GlobName g) = ''GlobName''"
| "leaf_tag (FullNameGlob g) = ''FullNameGlob''"
| "leaf_tag (ExactName n) = ''ExactName''"
| "leaf_tag (SymbolInstanceIds ids) = ''SymbolInstanceId''"
| "leaf_tag (ProjectFilter p) = ''Project''"
| "leaf_tag DirectOnly = ''DirectOnly''"
| "leaf_tag InnermostOnly = ''InnermostOnly''"
| "leaf_tag (OuterParent ids) = ''OuterParent''"
| "leaf_tag (SymbolTypeIs t) = ''SymbolType''"
| "leaf_tag (DefaultSymbolType ts) = ''DefaultSymbolType''"
| "leaf_tag (PackageDescendant p) = ''PackageDescendant''"

lemma leaf_hash_tag: "\<exists>body. leaf_hash_into l = leaf_tag l @ body"
  by (cases l) auto

lemma leaf_tag_prefix_free: "leaf_tag l @ r = leaf_tag k @ u \<Longrightarrow> leaf_tag l = leaf_tag k"
  by (cases l; cases k; simp)

lemma leaf_hash_split:
  assumes eq: "leaf_hash_into l @ r = leaf_hash_into k @ u" and "leaf_wf l" "leaf_wf k"
  shows "l = k \<and> r = u"
proof -
  obtain b c where "leaf_hash_into l = leaf_tag l @ b" "leaf_hash_into k = leaf_tag k @ c"
    using leaf_hash_tag by blast
  with eq have tag: "leaf_tag l = leaf_tag k"
    using leaf_tag_prefix_free [of l "b @ r" k "c @ u"] by simp
  show ?thesis
  proof (cases l)
    case (CompoundName q t)
    with tag obtain q' t' where k: "k = CompoundName q' t'" by (cases k) auto
    then show ?thesis
      using assms CompoundName enc_opt_str_split [of q "enc_opt_str t @ r" q' "enc_opt_str t' @ u"]
        enc_opt_str_split [of t r t' u] by simp
  next
    case (GlobName g)
    with tag obtain g' where k: "k = GlobName g'" by (cases k) auto
    then show ?thesis
      using assms GlobName enc_str_split [of "gn_sql_pattern g" "enc_bool (gn_case_sensitive g) @ r"
          "gn_sql_pattern g'" "enc_bool (gn_case_sensitive g') @ u"]
        enc_bool_split [of "gn_case_sensitive g" r "gn_case_sensitive g'" u] by simp
  next
    case (FullNameGlob g)
    with tag obtain g' where k: "k = FullNameGlob g'" by (cases k) auto
    then show ?thesis
      using assms FullNameGlob enc_str_split [of "fg_sql_pattern g" "enc_bool (fg_case_sensitive g) @ r"
          "fg_sql_pattern g'" "enc_bool (fg_case_sensitive g') @ u"]
        enc_bool_split [of "fg_case_sensitive g" r "fg_case_sensitive g'" u] by simp
  next
    case (SymbolInstanceIds ids)
    with tag obtain ids' where k: "k = SymbolInstanceIds ids'" by (cases k) auto
    then show ?thesis using assms SymbolInstanceIds enc_i64s_split [of ids r ids' u] by simp
  next
    case (OuterParent ids)
    with tag obtain ids' where k: "k = OuterParent ids'" by (cases k) auto
    then show ?thesis using assms OuterParent enc_i64s_split [of ids r ids' u] by simp
  next
    case (DefaultSymbolType ts)
    with tag obtain ts' where k: "k = DefaultSymbolType ts'" by (cases k) auto
    then show ?thesis using assms DefaultSymbolType enc_i32s_split [of ts r ts' u] by simp
  next
    case (SymbolTypeIs t)
    with tag obtain t' where k: "k = SymbolTypeIs t'" by (cases k) auto
    then show ?thesis using assms SymbolTypeIs le_bytes_i32_split [of t r t' u] by simp
  next
    case (LeafName n)
    with tag obtain n' where "k = LeafName n'" by (cases k) auto
    then show ?thesis using assms LeafName enc_str_split [of n r n' u] by simp
  next
    case (ExactName n)
    with tag obtain n' where "k = ExactName n'" by (cases k) auto
    then show ?thesis using assms ExactName enc_str_split [of n r n' u] by simp
  next
    case (ProjectFilter n)
    with tag obtain n' where "k = ProjectFilter n'" by (cases k) auto
    then show ?thesis using assms ProjectFilter enc_str_split [of n r n' u] by simp
  next
    case (PackageDescendant n)
    with tag obtain n' where "k = PackageDescendant n'" by (cases k) auto
    then show ?thesis using assms PackageDescendant enc_str_split [of n r n' u] by simp
  next
    case DirectOnly
    with tag have "k = DirectOnly" by (cases k) auto
    with assms DirectOnly show ?thesis by simp
  next
    case InnermostOnly
    with tag have "k = InnermostOnly" by (cases k) auto
    with assms InnermostOnly show ?thesis by simp
  qed
qed

lemma cf_hash_list_split:
  assumes IH: "\<And>c g r u. c \<in> set cs \<Longrightarrow> cf_hash_into c @ r = cf_hash_into g @ u \<Longrightarrow> cf_wf c \<Longrightarrow> cf_wf g \<Longrightarrow> c = g \<and> r = u"
    and "length cs = length ds" and "concat (map cf_hash_into cs) @ r = concat (map cf_hash_into ds) @ u"
    and "list_all cf_wf cs" "list_all cf_wf ds"
  shows "cs = ds \<and> r = u"
  using assms(2,1,3-)
proof (induction cs ds rule: list_induct2)
  case (Cons c cs d ds)
  have "c = d \<and> concat (map cf_hash_into cs) @ r = concat (map cf_hash_into ds) @ u"
    using Cons.prems by (intro Cons.prems(1)) simp_all
  with Cons show ?case by auto
qed simp

lemma cf_hash_split:
  "cf_hash_into f @ r = cf_hash_into g @ u \<Longrightarrow> cf_wf f \<Longrightarrow> cf_wf g \<Longrightarrow> f = g \<and> r = u"
proof (induction f arbitrary: g r u)
  case (CAnd cs)
  then obtain ds where g: "g = CAnd ds" by (cases g) auto
  then have "length cs = length ds \<and> concat (map cf_hash_into cs) @ r = concat (map cf_hash_into ds) @ u"
    using CAnd.prems by (intro enc_len_split) simp_all
  with CAnd g cf_hash_list_split [of cs ds r u] show ?case by (simp add: list_all_iff)
next
  case (COr cs)
  then obtain ds where g: "g = COr ds" by (cases g) auto
  then have "length cs = length ds \<and> concat (map cf_hash_into cs) @ r = concat (map cf_hash_into ds) @ u"
    using COr.prems by (intro enc_len_split) simp_all
  with COr g cf_hash_list_split [of cs ds r u] show ?case by (simp add: list_all_iff)
next
  case (CNot f)
  then obtain h where "g = CNot h" by (cases g) auto
  with CNot show ?case by simp
next
  case (CLeaf l)
  then obtain k where "g = CLeaf k" by (cases g) auto
  with CLeaf leaf_hash_split [of l r k u] show ?case by simp
qed

subsection \<open>Branches of a partitioned query\<close>

lemma apply_preds_simps:
  "vis_branch (apply_preds cs vis) = vis_branch vis"
  "vis_applied (apply_preds cs vis) = vis_applied vis @ cs"
  by (induction cs arbitrary: vis) (simp_all add: vis_pred_def)

lemma branch_selects_simps:
  "branch_selects env cs (vis_combined ec) \<longleftrightarrow> (\<forall>c\<in>set cs. env c \<in> set (visible_ids ec))"
  "branch_selects env cs (vis_root_only ec) \<longleftrightarrow> (\<forall>c\<in>set cs. env c \<in> set (root_ids ec))"
  "branch_selects env cs (vis_eph_touching ec) \<longleftrightarrow>
     (\<forall>c\<in>set cs. env c \<in> set (visible_ids ec)) \<and> (cs = [] \<or> (\<exists>c\<in>set cs. \<not> 0 < env c))"
  by (simp_all add: branch_selects_def vis_combined_def vis_root_only_def vis_eph_touching_def vis_new_def
      pred_value_def guard_value_def apply_preds_simps)

text \<open>Root ids are positive and ephemeral ids negative: the sign of the two id sequences.\<close>

definition signed_layers :: "eph_context \<Rightarrow> bool" where
  "signed_layers ec \<longleftrightarrow> (\<forall>r\<in>set (root_ids ec). 0 < r) \<and> (\<forall>c\<in>set (concat (ec_chains ec)). c < 0)"

lemma signed_visible_root:
  assumes "signed_layers ec" shows "l \<in> set (root_ids ec) \<longleftrightarrow> l \<in> set (visible_ids ec) \<and> 0 < l"
  using assms unfolding signed_layers_def visible_ids_concat by (auto simp del: set_concat)

text \<open>The rows a branch returns: visibility, the composed filter, the guard.\<close>

definition branch_query ::
  "(string \<Rightarrow> int) \<Rightarrow> (sql_atom \<Rightarrow> bool) \<Rightarrow> string list \<Rightarrow> query_context \<Rightarrow> composite_filter \<Rightarrow> eph_visibility \<Rightarrow> bool" where
  "branch_query env holds columns qc f vis \<longleftrightarrow>
     branch_selects env columns vis \<and> expr_value holds (compose_in qc f vis)"

subsection \<open>Properties\<close>

text \<open>
  C13. Partitioned loading is exact: for a filter that is not chain-dependent, in every
  query context, a row is returned by the combined query iff it is returned by the
  root-only branch or by the guarded ephemeral branch, and never by both.
\<close>

theorem partition_exact:
  assumes "signed_layers ec" and "\<not> is_chain_dependent f" and "columns \<noteq> []"
  shows "(branch_query env holds columns qc f (vis_combined ec) \<longleftrightarrow>
      branch_query env holds columns qc f (vis_root_only ec)
        \<or> branch_query env holds columns qc f (vis_eph_touching ec))
    \<and> \<not> (branch_query env holds columns qc f (vis_root_only ec)
        \<and> branch_query env holds columns qc f (vis_eph_touching ec))"
proof -
  have same: "compose_in qc f (vis_root_only ec) = compose_in qc f (vis_combined ec)"
    "compose_in qc f (vis_eph_touching ec) = compose_in qc f (vis_combined ec)"
    by (rule compose_in_vis_free [OF assms(2)])+
  have "(\<forall>c\<in>set columns. env c \<in> set (root_ids ec)) \<longleftrightarrow>
      (\<forall>c\<in>set columns. env c \<in> set (visible_ids ec)) \<and> \<not> (\<exists>c\<in>set columns. \<not> 0 < env c)"
    using signed_visible_root [OF assms(1)] by blast
  then show ?thesis
    unfolding branch_query_def branch_selects_simps same using assms(3) by blast
qed

theorem partition_exact_witness:
  "branch_query (\<lambda>c. -1) (\<lambda>a. True) [''symbols.layer''] Current (CLeaf (LeafName ''f''))
     (vis_eph_touching (the (push_round (rooted [\<lparr>rt_id = 7, rt_project_id = 1, rt_hash = []\<rparr>]) [(7, -1)])))"
  using partition_exact [of "the (push_round (rooted [\<lparr>rt_id = 7, rt_project_id = 1, rt_hash = []\<rparr>]) [(7, -1)])"
      "CLeaf (LeafName ''f'')" "[''symbols.layer'']" "\<lambda>c. -1" "\<lambda>a. True" Current]
  by code_simp

text \<open>
  C33. When every leaf constrains the context, the composed predicate is the Boolean
  combination the tree denotes, and the smart constructors (flattening, double
  negation) never change what is selected.
\<close>

theorem compose_denotes:
  assumes "\<forall>l\<in>leaves f. m l \<noteq> None" and "no_empty_and f"
  shows "compose m f \<noteq> None
    \<and> expr_value holds (compose m f) = filter_holds (\<lambda>l. expr_value holds (m l)) f
    \<and> expr_value holds (compose m (cf_not f)) = (\<not> filter_holds (\<lambda>l. expr_value holds (m l)) f)
    \<and> expr_value holds (compose m (cf_and fs)) = (\<forall>g\<in>set fs. expr_value holds (compose m g))
    \<and> expr_value holds (compose m (cf_or fs)) = (\<exists>g\<in>set fs. expr_value holds (compose m g))"
proof -
  have "expr_value holds (compose m (CNot f)) = filter_holds (\<lambda>l. expr_value holds (m l)) (CNot f)"
    by (rule compose_holds) (use assms in simp_all)
  then show ?thesis
    using compose_constrained [OF assms] compose_holds [OF assms]
    by (simp only: cf_smart_value expr_value_compose_and expr_value_compose_or filter_holds.simps) simp
qed

theorem compose_denotes_witness:
  "compose (\<lambda>l. current_expr l (vis_new (Combined [1]))) (CNot (COr [CLeaf (LeafName ''a''), CLeaf (ExactName ''b'')])) \<noteq> None"
  using compose_denotes [of "CNot (COr [CLeaf (LeafName ''a''), CLeaf (ExactName ''b'')])"
      "\<lambda>l. current_expr l (vis_new (Combined [1]))" "\<lambda>a. True" "[]"]
  by simp

text \<open>
  C35. The shape probe of the containment fast path agrees with composition for every
  filter that holds no childless OR; for a childless OR it does not.
\<close>

theorem shape_probe_agrees:
  "(no_empty_or f \<longrightarrow> constrains_has_children f = (compose_has_children f vis \<noteq> None))
   \<and> \<not> constrains_has_children (COr []) \<and> compose_has_children (COr []) vis = Some EFalse"
  using has_children_shape by (simp add: compose_has_children_def)

theorem shape_probe_agrees_witness:
  "constrains_has_children (COr [CLeaf DirectOnly])"
  using shape_probe_agrees [of "COr [CLeaf DirectOnly]" "vis_new (Combined [1])"]
  by (simp add: compose_has_children_def)

text \<open>
  The byte stream that keys a search layer by its filter determines the filter: it is
  self-delimiting, so no two filter trees with lengths below \<open>2^32\<close> and ids in range feed
  the hasher the same bytes, whatever follows.
\<close>

theorem filter_hash_prefix_free:
  assumes "cf_wf f" and "cf_wf g" and "cf_hash_into f @ rest = cf_hash_into g @ rest'"
  shows "f = g \<and> rest = rest'"
  using cf_hash_split assms by blast

theorem filter_hash_prefix_free_witness:
  "cf_hash_into (CAnd [CLeaf (ExactName ''a'')]) \<noteq> cf_hash_into (COr [CLeaf (ExactName ''a'')])"
  using filter_hash_prefix_free [of "CAnd [CLeaf (ExactName ''a'')]" "COr [CLeaf (ExactName ''a'')]" "[]" "[]"]
  by (auto simp: fits_u32_def)

end
