(* ===== verification/Name_Pattern.thy ===== *)
theory Name_Pattern
  imports Filters
begin

section \<open>Selector name patterns\<close>

text \<open>
  \<open>askld/src/name_pattern.rs\<close> with its grammar \<open>name_pattern.pest\<close>, and the typed argument
  values of \<open>askld/src/parser.rs\<close> it reads.
\<close>

datatype string_kind = Plain | Glob

datatype val = VStr string_kind string

definition value_plain :: "string \<Rightarrow> val" where
  "value_plain t = VStr Plain t"

datatype pattern_error =
    ExpectedPlainString string
  | GlobWithoutContent string

fun as_plain :: "val \<Rightarrow> pattern_error + string" where
  "as_plain (VStr Plain text) = Inr text"
| "as_plain (VStr Glob text) = Inl (ExpectedPlainString text)"

datatype name_token = Literal string | Wildcard | Separator char

record glob_pattern =
  gp_raw :: string
  gp_pieces :: "glob_piece list"
  gp_has_hard_separator :: bool
  gp_has_dot :: bool

datatype name_pattern = PatExact string | PatGlob glob_pattern

definition is_pattern_special :: "char \<Rightarrow> bool" where
  "is_pattern_special c \<longleftrightarrow> c = CHR ''*'' \<or> c = CHR ''.'' \<or> c = CHR ''/'' \<or> c = CHR '':''"

text \<open>
  The grammar: a star, a separator or a maximal run of other characters, over and over
  to the end of the input.
\<close>

function parse_name_pattern :: "string \<Rightarrow> name_token list" where
  "parse_name_pattern [] = []"
| "parse_name_pattern (c # cs) =
     (if c = CHR ''*'' then Wildcard # parse_name_pattern cs
      else if is_pattern_special c then Separator c # parse_name_pattern cs
      else Literal (c # takeWhile (\<lambda>d. \<not> is_pattern_special d) cs)
             # parse_name_pattern (dropWhile (\<lambda>d. \<not> is_pattern_special d) cs))"
  by pat_completeness auto
termination
  by (relation "measure length") (auto simp: le_imp_less_Suc length_dropWhile_le)

definition token_is_hard :: "name_token \<Rightarrow> bool" where
  "token_is_hard t \<longleftrightarrow> t = Separator CHR ''/'' \<or> t = Separator CHR '':''"

definition token_has_text :: "name_token \<Rightarrow> bool" where
  "token_has_text t = (case t of Literal s \<Rightarrow> s \<noteq> [] | _ \<Rightarrow> False)"

definition token_has_leaf_char :: "name_token \<Rightarrow> bool" where
  "token_has_leaf_char t = (case t of Literal s \<Rightarrow> list_ex is_leaf_char s | _ \<Rightarrow> False)"

fun token_piece :: "name_token \<Rightarrow> glob_piece option" where
  "token_piece Wildcard = Some Star"
| "token_piece (Literal s) = Some (Lit s)"
| "token_piece (Separator c) = (if c = CHR ''.'' then Some (Lit ''.'') else None)"

definition glob_parse :: "string \<Rightarrow> pattern_error + glob_pattern" where
  "glob_parse raw =
     (let tokens = parse_name_pattern raw;
          has_hard_separator = list_ex token_is_hard tokens;
          has_dot = list_ex (\<lambda>t. t = Separator CHR ''.'') tokens;
          has_content = (if has_hard_separator then list_ex token_has_text tokens
                         else list_ex token_has_leaf_char tokens)
      in if \<not> has_content then Inl (GlobWithoutContent raw)
         else Inr \<lparr>gp_raw = raw, gp_pieces = somes (map token_piece tokens),
                   gp_has_hard_separator = has_hard_separator, gp_has_dot = has_dot\<rparr>)"

fun pattern_from_value :: "val \<Rightarrow> pattern_error + name_pattern" where
  "pattern_from_value (VStr Plain text) = Inr (PatExact text)"
| "pattern_from_value (VStr Glob text) =
     (case glob_parse text of Inl e \<Rightarrow> Inl e | Inr g \<Rightarrow> Inr (PatGlob g))"

fun pattern_display :: "name_pattern \<Rightarrow> string" where
  "pattern_display (PatExact name) = [CHR 0x22] @ name @ [CHR 0x22]"
| "pattern_display (PatGlob g) = ''g'' @ [CHR 0x22] @ gp_raw g @ [CHR 0x22]"

definition glob_full_name_filter :: "glob_pattern \<Rightarrow> composite_filter" where
  "glob_full_name_filter g = CLeaf (FullNameGlob (full_name_glob_mixin_new (gp_raw g)))"

definition glob_filter :: "glob_pattern \<Rightarrow> bool \<Rightarrow> bool \<Rightarrow> composite_filter" where
  "glob_filter g dot_is_sep leaf_anchored =
     (if gp_has_hard_separator g \<or> gp_has_dot g \<and> dot_is_sep then glob_full_name_filter g
      else CLeaf (GlobName (glob_name_mixin_new (gp_pieces g) dot_is_sep leaf_anchored)))"

subsection \<open>Tokens\<close>

fun token_text :: "name_token \<Rightarrow> string" where
  "token_text Wildcard = ''*''"
| "token_text (Separator c) = [c]"
| "token_text (Literal s) = s"

lemma parse_name_pattern_text: "concat (map token_text (parse_name_pattern s)) = s"
  by (induction s rule: parse_name_pattern.induct) auto

text \<open>No two literals in a row, literals non-empty and free of special characters.\<close>

fun tokens_wf :: "name_token list \<Rightarrow> bool" where
  "tokens_wf [] = True"
| "tokens_wf (Literal s # ts) =
     (s \<noteq> [] \<and> list_all (\<lambda>c. \<not> is_pattern_special c) s
      \<and> (case ts of Literal _ # _ \<Rightarrow> False | _ \<Rightarrow> True) \<and> tokens_wf ts)"
| "tokens_wf (Separator c # ts) = ((c = CHR ''.'' \<or> c = CHR ''/'' \<or> c = CHR '':'') \<and> tokens_wf ts)"
| "tokens_wf (Wildcard # ts) = tokens_wf ts"

lemma parse_after_run:
  "(case parse_name_pattern (dropWhile (\<lambda>d. \<not> is_pattern_special d) cs) of Literal _ # _ \<Rightarrow> False | _ \<Rightarrow> True)"
proof (cases "dropWhile (\<lambda>d. \<not> is_pattern_special d) cs")
  case (Cons d ds)
  then have "is_pattern_special d"
    using hd_dropWhile [of "\<lambda>d. \<not> is_pattern_special d" cs] by simp
  with Cons show ?thesis by (simp del: dropWhile_eq_Nil_conv)
next
  case Nil
  show ?thesis unfolding Nil by simp
qed

lemma parse_name_pattern_wf: "tokens_wf (parse_name_pattern s)"
proof (induction s rule: parse_name_pattern.induct)
  case (2 c cs)
  show ?case
  proof (cases "is_pattern_special c")
    case True
    with 2 show ?thesis by (auto simp: is_pattern_special_def)
  next
    case False
    then have "c \<noteq> CHR ''*''" by (auto simp: is_pattern_special_def)
    with False 2 parse_after_run [of cs] show ?thesis
      by (auto simp: list_all_iff dest: set_takeWhileD)
  qed
qed simp

lemma takeWhile_run:
  "\<forall>d\<in>set cs. p d \<Longrightarrow> rest = [] \<or> \<not> p (hd rest) \<Longrightarrow>
   takeWhile p (cs @ rest) = cs \<and> dropWhile p (cs @ rest) = rest"
  by (induction cs; cases rest) auto

lemma parse_name_pattern_unique:
  "tokens_wf ts \<Longrightarrow> parse_name_pattern (concat (map token_text ts)) = ts"
proof (induction ts rule: tokens_wf.induct)
  case (2 s ts)
  let ?rest = "concat (map token_text ts)"
  have stop: "?rest = [] \<or> is_pattern_special (hd ?rest)"
    using 2 by (cases ts) (auto split: name_token.splits simp: is_pattern_special_def)
  obtain c cs where s: "s = c # cs" using 2 by (cases s) auto
  have plain: "\<forall>d\<in>set cs. \<not> is_pattern_special d" "\<not> is_pattern_special c"
    using 2 s by (auto simp: list_all_iff)
  have "takeWhile (\<lambda>d. \<not> is_pattern_special d) (cs @ ?rest) = cs"
    "dropWhile (\<lambda>d. \<not> is_pattern_special d) (cs @ ?rest) = ?rest"
    using plain(1) stop takeWhile_run [of cs "\<lambda>d. \<not> is_pattern_special d" ?rest] by auto
  with 2 plain s show ?case by (auto simp: is_pattern_special_def)
qed (auto simp: is_pattern_special_def)

subsection \<open>A glob always has literal content\<close>

lemma glob_match_Nil_lit:
  "Lit t \<in> set ps \<Longrightarrow> normalize_leaf_fragment t dot \<noteq> [] \<Longrightarrow> \<not> glob_match dot ps []"
proof (induction ps)
  case (Cons p ps)
  show ?case
  proof (cases p)
    case (Lit u)
    with Cons show ?thesis by (cases "normalize_leaf_fragment u dot") auto
  next
    case Star
    with Cons show ?thesis by auto
  qed
qed simp

lemma star_match_Nil: "star_match cs [] \<longleftrightarrow> (\<forall>c\<in>set cs. c = CHR ''*'')"
  by (induction cs) auto

lemma leaf_char_normalized:
  assumes "c \<in> set t" "is_leaf_char c" shows "normalize_leaf_fragment t dot \<noteq> []"
proof -
  have "c \<noteq> CHR ''.''" using assms(2) leaf_char_not_special by blast
  then have "c \<in> set (normalize_leaf_fragment t dot)"
    using assms by (auto simp: normalize_leaf_fragment_def replace_char_def intro: rev_image_eqI)
  then show ?thesis by auto
qed

lemma token_has_leaf_charD: "token_has_leaf_char t \<Longrightarrow> \<exists>s. t = Literal s \<and> (\<exists>c\<in>set s. is_leaf_char c)"
  by (cases t) (auto simp: token_has_leaf_char_def list_ex_iff)

lemma literal_not_star:
  assumes "Literal s \<in> set (parse_name_pattern raw)" and "s \<noteq> []"
  shows "\<exists>c\<in>set raw. c \<noteq> CHR ''*''"
proof -
  have wf: "tokens_wf ts \<Longrightarrow> Literal s \<in> set ts \<Longrightarrow> \<forall>c\<in>set s. \<not> is_pattern_special c" for ts
    by (induction ts rule: tokens_wf.induct) (auto simp: list_all_iff)
  have "set s \<subseteq> set (concat (map token_text (parse_name_pattern raw)))"
    using assms(1) by force
  then have "set s \<subseteq> set raw" by (simp add: parse_name_pattern_text)
  with wf [OF parse_name_pattern_wf assms(1)] assms(2) show ?thesis
    by (cases s) (auto simp: is_pattern_special_def)
qed

lemma glob_parse_content:
  assumes "glob_parse raw = Inr g"
  shows "gp_raw g = raw" and "\<exists>c\<in>set raw. c \<noteq> CHR ''*''"
    and "\<not> gp_has_hard_separator g \<Longrightarrow> \<exists>t. Lit t \<in> set (gp_pieces g) \<and> (\<exists>c\<in>set t. is_leaf_char c)"
proof -
  show "gp_raw g = raw" using assms by (auto simp: glob_parse_def Let_def split: if_splits)
  obtain t where t: "t \<in> set (parse_name_pattern raw)" "token_has_text t \<or> token_has_leaf_char t"
    using assms by (auto simp: glob_parse_def Let_def list_ex_iff split: if_splits)
  have "\<exists>s. Literal s \<in> set (parse_name_pattern raw) \<and> s \<noteq> []"
    by (cases t; use t in \<open>auto simp: token_has_text_def token_has_leaf_char_def\<close>)
  then show "\<exists>c\<in>set raw. c \<noteq> CHR ''*''" using literal_not_star by blast
  assume "\<not> gp_has_hard_separator g"
  then obtain t where t: "t \<in> set (parse_name_pattern raw)" "token_has_leaf_char t"
    and g: "gp_pieces g = somes (map token_piece (parse_name_pattern raw))"
    using assms by (auto simp: glob_parse_def Let_def list_ex_iff split: if_splits)
  then obtain s where "Literal s \<in> set (parse_name_pattern raw)" "\<exists>c\<in>set s. is_leaf_char c"
    using token_has_leaf_charD by blast
  with g show "\<exists>t. Lit t \<in> set (gp_pieces g) \<and> (\<exists>c\<in>set t. is_leaf_char c)"
    by (force simp: set_somes)
qed

subsection \<open>Properties\<close>

text \<open>
  Reparsing a glob string loses nothing and is canonical: the token texts
  concatenate to the input, the tokens are well formed, and a well-formed token list is
  the parse of its own text.
\<close>

theorem name_tokens_roundtrip:
  "concat (map token_text (parse_name_pattern raw)) = raw
   \<and> tokens_wf (parse_name_pattern raw)
   \<and> (tokens_wf ts \<longrightarrow> parse_name_pattern (concat (map token_text ts)) = ts)"
  using parse_name_pattern_text parse_name_pattern_wf parse_name_pattern_unique by blast

theorem name_tokens_roundtrip_witness:
  "parse_name_pattern ''a*/'' = [Literal ''a'', Wildcard, Separator CHR ''/'']"
  using name_tokens_roundtrip [of "[]" "[Literal ''a'', Wildcard, Separator CHR ''/'']"]
  by (simp add: is_pattern_special_def)

text \<open>
  No accepted glob degrades to a match-everything scan: whatever the symbol type and
  the anchoring, the LIKE pattern it compiles to does not match the empty name, under
  every LIKE operator with the documented meaning.
\<close>

theorem glob_never_matches_everything:
  assumes "sql_like like" and "glob_parse raw = Inr g"
  shows "(\<exists>m. glob_filter g dot anchored = CLeaf (GlobName m) \<and> \<not> like (gn_sql_pattern m) [])
    \<or> (\<exists>m. glob_filter g dot anchored = CLeaf (FullNameGlob m) \<and> \<not> like (fg_sql_pattern m) [])"
proof (cases "gp_has_hard_separator g \<or> gp_has_dot g \<and> dot")
  case True
  have "\<not> like (fg_sql_pattern (full_name_glob_mixin_new (gp_raw g))) []"
    using glob_parse_content [OF assms(2)]
    by (auto simp: fg_sql_pattern_tail sql_like.like_full_tail(1) [OF assms(1)] star_match_Nil)
  with True show ?thesis by (simp add: glob_filter_def glob_full_name_filter_def)
next
  case False
  with glob_parse_content(3) [OF assms(2)] obtain t c where t: "Lit t \<in> set (gp_pieces g)"
    "c \<in> set t" "is_leaf_char c" by blast
  have "\<not> glob_match dot (if anchored then gp_pieces g else Star # gp_pieces g @ [Star]) []"
    by (rule glob_match_Nil_lit [of t]) (use t leaf_char_normalized in auto)
  then have "\<not> like (gn_sql_pattern (glob_name_mixin_new (gp_pieces g) dot anchored)) []"
    by (simp only: sql_like.like_glob [OF assms(1)] not_False_eq_True)
  with False show ?thesis by (auto simp: glob_filter_def)
qed

theorem glob_never_matches_everything_witness:
  "\<exists>g. glob_parse ''*x*'' = Inr g \<and> glob_filter g True False \<noteq> CAnd []"
proof -
  obtain g where g: "glob_parse ''*x*'' = Inr g"
    by (simp add: glob_parse_def is_pattern_special_def token_has_leaf_char_def token_is_hard_def
        is_leaf_char_def is_ascii_alnum_def is_lower_def)
  from glob_never_matches_everything [OF like_ref.sql_like_axioms g, of True False] g show ?thesis by auto
qed

end
