(* ===== verification/Sql_Cache.thy ===== *)
theory Sql_Cache
  imports Filters
begin

section \<open>The SQL result cache\<close>

text \<open>
  \<open>index/src/db_diesel/sql_cache.rs\<close> and the loads of \<open>index_impl.rs\<close> that go through it
  (\<open>cached_load\<close>, \<open>cached_load_partitioned\<close>).  The \<open>lru\<close> crate's map is a parameter: its
  operations are the fields of \<open>lru_ops\<close> and the locale \<open>lru_map\<close> states what its
  documentation promises.  A Rust row type (\<open>TypeId\<close>) is a number; the value of an entry is
  tagged with the type it was stored at.  Counters and sizes are natural numbers.
\<close>

subsection \<open>The LRU map the cache is built on\<close>

record ('m, 'k, 'e) lru_ops =
  lru_empty :: 'm
  lru_get :: "'k \<Rightarrow> 'm \<Rightarrow> 'e option \<times> 'm"
  lru_put :: "'k \<Rightarrow> 'e \<Rightarrow> 'm \<Rightarrow> 'e option \<times> 'm"
  lru_pop :: "'m \<Rightarrow> ('k \<times> 'e) option \<times> 'm"

text \<open>Contents as an association list, most recently used first.\<close>

definition forget :: "'k \<Rightarrow> ('k \<times> 'e) list \<Rightarrow> ('k \<times> 'e) list" where
  "forget k al = filter (\<lambda>p. fst p \<noteq> k) al"

definition promote :: "'k \<Rightarrow> ('k \<times> 'e) list \<Rightarrow> ('k \<times> 'e) list" where
  "promote k al = (case map_of al k of None \<Rightarrow> al | Some e \<Rightarrow> (k, e) # forget k al)"

locale lru_map =
  fixes ops :: "('m, 'k, 'e) lru_ops" and contents :: "'m \<Rightarrow> ('k \<times> 'e) list" and valid :: "'m \<Rightarrow> bool"
  assumes contents_distinct: "valid m \<Longrightarrow> distinct (map fst (contents m))"
    and contents_empty: "valid (lru_empty ops)" "contents (lru_empty ops) = []"
    and contents_get: "valid m \<Longrightarrow> fst (lru_get ops k m) = map_of (contents m) k"
      "valid m \<Longrightarrow> valid (snd (lru_get ops k m))"
      "valid m \<Longrightarrow> contents (snd (lru_get ops k m)) = promote k (contents m)"
    and contents_put: "valid m \<Longrightarrow> fst (lru_put ops k e m) = map_of (contents m) k"
      "valid m \<Longrightarrow> valid (snd (lru_put ops k e m))"
      "valid m \<Longrightarrow> contents (snd (lru_put ops k e m)) = (k, e) # forget k (contents m)"
    and contents_pop: "valid m \<Longrightarrow> fst (lru_pop ops m) = (if contents m = [] then None else Some (last (contents m)))"
      "valid m \<Longrightarrow> valid (snd (lru_pop ops m))"
      "valid m \<Longrightarrow> contents (snd (lru_pop ops m)) = butlast (contents m)"

subsection \<open>Cache state and operations\<close>

record cache_key =
  ck_sql_hash :: "byte list"
  ck_type_id :: nat

text \<open>The key of a rendered query; \<open>None\<close> when it cannot be rendered.\<close>

definition key_for_query :: "(byte list \<Rightarrow> byte list) \<Rightarrow> nat \<Rightarrow> byte list option \<Rightarrow> cache_key option" where
  "key_for_query sha type_id rendered =
     map_option (\<lambda>text. \<lparr>ck_sql_hash = sha text, ck_type_id = type_id\<rparr>) rendered"

record 'v entry =
  en_type_id :: nat
  en_value :: 'v
  en_bytes :: nat

record 'm sql_cache =
  sc_map :: 'm
  sc_used_bytes :: nat
  sc_epoch :: nat
  sc_max_bytes :: nat
  sc_hits :: nat
  sc_misses :: nat
  sc_evictions :: nat
  sc_oversize_skips :: nat

type_synonym ('m, 'v) cache_ops = "('m, cache_key, 'v entry) lru_ops"

definition cache_new :: "('m, 'v) cache_ops \<Rightarrow> nat \<Rightarrow> 'm sql_cache" where
  "cache_new ops max_bytes = \<lparr>sc_map = lru_empty ops, sc_used_bytes = 0, sc_epoch = 0,
     sc_max_bytes = max_bytes, sc_hits = 0, sc_misses = 0, sc_evictions = 0, sc_oversize_skips = 0\<rparr>"

definition cache_is_enabled :: "'m sql_cache \<Rightarrow> bool" where
  "cache_is_enabled c \<longleftrightarrow> sc_max_bytes c > 0"

text \<open>\<open>lock\<close> on a poisoned mutex resets the cache.\<close>

definition lock_poisoned :: "('m, 'v) cache_ops \<Rightarrow> 'm sql_cache \<Rightarrow> 'm sql_cache" where
  "lock_poisoned ops c = c\<lparr>sc_epoch := sc_epoch c + 1, sc_map := lru_empty ops, sc_used_bytes := 0\<rparr>"

definition cache_get :: "('m, 'v) cache_ops \<Rightarrow> nat \<Rightarrow> cache_key \<Rightarrow> 'm sql_cache \<Rightarrow> 'v option \<times> 'm sql_cache" where
  "cache_get ops type_id key c =
     (if \<not> cache_is_enabled c then (None, c)
      else (case lru_get ops key (sc_map c) of
              (Some e, m) \<Rightarrow>
                if en_type_id e = type_id
                then (Some (en_value e), c\<lparr>sc_map := m, sc_hits := sc_hits c + 1\<rparr>)
                else (None, c\<lparr>sc_map := m, sc_misses := sc_misses c + 1\<rparr>)
            | (None, m) \<Rightarrow> (None, c\<lparr>sc_map := m, sc_misses := sc_misses c + 1\<rparr>)))"

text \<open>The eviction loop; not returning is \<open>None\<close>.\<close>

partial_function (option) evict_loop :: "('m, 'v) cache_ops \<Rightarrow> 'm sql_cache \<Rightarrow> 'm sql_cache option" where
  "evict_loop ops c =
     (if sc_used_bytes c > sc_max_bytes c then
        (case lru_pop ops (sc_map c) of
           (None, m) \<Rightarrow> Some (c\<lparr>sc_map := m\<rparr>)
         | (Some (k, evicted), m) \<Rightarrow>
             evict_loop ops (c\<lparr>sc_map := m, sc_used_bytes := sc_used_bytes c - en_bytes evicted,
               sc_evictions := sc_evictions c + 1\<rparr>))
      else Some c)"

definition put_if_epoch ::
  "('m, 'v) cache_ops \<Rightarrow> nat \<Rightarrow> cache_key \<Rightarrow> 'v \<Rightarrow> nat \<Rightarrow> nat \<Rightarrow> 'm sql_cache \<Rightarrow> 'm sql_cache option" where
  "put_if_epoch ops type_id key value bytes epoch c =
     (if \<not> cache_is_enabled c then Some c
      else if sc_epoch c \<noteq> epoch then Some c
      else if bytes > sc_max_bytes c then Some (c\<lparr>sc_oversize_skips := sc_oversize_skips c + 1\<rparr>)
      else (let (old, m) = lru_put ops key \<lparr>en_type_id = type_id, en_value = value, en_bytes = bytes\<rparr> (sc_map c);
                used = (case old of Some e \<Rightarrow> sc_used_bytes c - en_bytes e | None \<Rightarrow> sc_used_bytes c)
            in evict_loop ops (c\<lparr>sc_map := m, sc_used_bytes := used + bytes\<rparr>)))"

definition cache_clear :: "('m, 'v) cache_ops \<Rightarrow> 'm sql_cache \<Rightarrow> 'm sql_cache" where
  "cache_clear ops c = c\<lparr>sc_epoch := sc_epoch c + 1, sc_map := lru_empty ops, sc_used_bytes := 0\<rparr>"

text \<open>\<open>vec_weight\<close>: inline buffer, heap bytes of the rows, flat overhead.\<close>

definition vec_weight :: "nat \<Rightarrow> nat \<Rightarrow> nat \<Rightarrow> nat list \<Rightarrow> nat" where
  "vec_weight size_of_vec size_of_row capacity row_heap_bytes =
     size_of_vec + (capacity * size_of_row + sum_list row_heap_bytes) + 256"

text \<open>
  The two halves of \<open>cached_load\<close>: the lookup with the epoch snapshot, and the insertion
  after the rows were read from the database.
\<close>

definition load_start :: "('m, 'v) cache_ops \<Rightarrow> nat \<Rightarrow> cache_key option \<Rightarrow> 'm sql_cache \<Rightarrow> ('v + nat) \<times> 'm sql_cache" where
  "load_start ops type_id key c =
     (case key of
        None \<Rightarrow> (Inr (sc_epoch c), c)
      | Some k \<Rightarrow> (case cache_get ops type_id k c of
            (Some v, c') \<Rightarrow> (Inl v, c') | (None, c') \<Rightarrow> (Inr (sc_epoch c'), c')))"

definition load_finish ::
  "('m, 'v) cache_ops \<Rightarrow> nat \<Rightarrow> cache_key option \<Rightarrow> 'v \<Rightarrow> nat \<Rightarrow> nat \<Rightarrow> 'm sql_cache \<Rightarrow> 'm sql_cache option" where
  "load_finish ops type_id key rows bytes epoch c =
     (case key of None \<Rightarrow> Some c | Some k \<Rightarrow> put_if_epoch ops type_id k rows bytes epoch c)"

subsection \<open>Partitioned loads\<close>

text \<open>The merge: persistent rows, then ephemeral ones, keeping the first row of each key.\<close>

fun merge_rows :: "('r \<Rightarrow> 'i) \<Rightarrow> 'i set \<Rightarrow> 'r list \<Rightarrow> 'r list" where
  "merge_rows row_key seen [] = []"
| "merge_rows row_key seen (r # rs) =
     (if row_key r \<in> seen then merge_rows row_key seen rs
      else r # merge_rows row_key (insert (row_key r) seen) rs)"

definition cached_load_partitioned ::
  "(eph_visibility \<Rightarrow> 'e + 'r list) \<Rightarrow> ('r \<Rightarrow> 'i) \<Rightarrow> eph_context \<Rightarrow> bool \<Rightarrow> 'e + 'r list" where
  "cached_load_partitioned load row_key ec chain_dependent =
     (if chain_dependent then load (vis_combined ec)
      else if \<not> has_chain ec then load (vis_root_only ec)
      else rbind (load (vis_root_only ec)) (\<lambda>persistent.
           rbind (load (vis_eph_touching ec)) (\<lambda>ephemeral.
           Inr (merge_rows row_key {} (persistent @ ephemeral)))))"

lemma merge_rows_props:
  "set (merge_rows row_key seen rs) \<subseteq> set rs"
  "distinct (map row_key (merge_rows row_key seen rs))"
  "row_key ` set (merge_rows row_key seen rs) = row_key ` set rs - seen"
  by (induction rs arbitrary: seen) auto

subsection \<open>A concrete LRU map\<close>

definition list_lru :: "(('k \<times> 'e) list, 'k, 'e) lru_ops" where
  "list_lru = \<lparr>lru_empty = [], lru_get = (\<lambda>k m. (map_of m k, promote k m)),
     lru_put = (\<lambda>k e m. (map_of m k, (k, e) # forget k m)),
     lru_pop = (\<lambda>m. (if m = [] then None else Some (last m), butlast m))\<rparr>"

lemma map_of_forget: "map_of (forget k al) j = (if j = k then None else map_of al j)"
  by (induction al) (auto simp: forget_def)

lemma forget_idem: "k \<notin> fst ` set al \<Longrightarrow> forget k al = al"
  by (auto simp: forget_def filter_id_conv)

lemma distinct_forget: "distinct (map fst al) \<Longrightarrow> distinct (map fst (forget k al))"
  by (simp add: forget_def distinct_map_filter)

lemma in_set_forget: "p \<in> set (forget k al) \<longleftrightarrow> p \<in> set al \<and> fst p \<noteq> k"
  by (simp add: forget_def)

lemma promote_map_of: "map_of (promote k al) = map_of al"
  by (rule ext) (auto simp: promote_def map_of_forget split: option.splits)

lemma distinct_promote: "distinct (map fst al) \<Longrightarrow> distinct (map fst (promote k al))"
  by (auto simp: promote_def distinct_forget in_set_forget split: option.splits)

lemma set_promote: "distinct (map fst al) \<Longrightarrow> set (promote k al) = set al"
  by (auto simp: promote_def in_set_forget map_of_eq_Some_iff dest: eq_key_imp_eq_value split: option.splits)

lemma distinct_butlast_keys: "distinct (map fst al) \<Longrightarrow> distinct (map fst (butlast al))"
  by (simp add: map_butlast distinct_butlast)

interpretation list_lru: lru_map list_lru "\<lambda>m. m" "\<lambda>m. distinct (map fst m)"
  by unfold_locales
    (auto simp: list_lru_def distinct_promote distinct_forget distinct_butlast_keys in_set_forget)

subsection \<open>Accounting\<close>

definition bytes_of :: "(cache_key \<times> 'v entry) list \<Rightarrow> nat" where
  "bytes_of al = sum_list (map (\<lambda>p. en_bytes (snd p)) al)"

lemma bytes_of_forget:
  assumes "distinct (map fst al)"
  shows "bytes_of al = bytes_of (forget k al) + (case map_of al k of None \<Rightarrow> 0 | Some e \<Rightarrow> en_bytes e)"
  using assms
proof (induction al)
  case (Cons p al)
  show ?case
  proof (cases "fst p = k")
    case True
    with Cons.prems have "k \<notin> fst ` set al" by auto
    then have "forget k al = al" by (rule forget_idem)
    with True show ?thesis by (simp add: bytes_of_def forget_def)
  next
    case False
    with Cons show ?thesis by (auto simp: bytes_of_def forget_def)
  qed
qed (simp add: bytes_of_def forget_def)

lemma bytes_of_promote: "distinct (map fst al) \<Longrightarrow> bytes_of (promote k al) = bytes_of al"
  using bytes_of_forget [of al k] by (auto simp: promote_def bytes_of_def split: option.splits)

lemma bytes_of_butlast: "al \<noteq> [] \<Longrightarrow> bytes_of (butlast al) + en_bytes (snd (last al)) = bytes_of al"
proof -
  assume "al \<noteq> []"
  then have "bytes_of (butlast al @ [last al]) = bytes_of al" by simp
  then show ?thesis by (simp add: bytes_of_def)
qed

text \<open>
  The invariant of the cache for given LRU contents: the byte count is exact and within
  the budget, and each entry's type is the one in its key (so no downcast can fail).
\<close>

definition cache_inv :: "('m \<Rightarrow> (cache_key \<times> 'v entry) list) \<Rightarrow> ('m \<Rightarrow> bool) \<Rightarrow> 'm sql_cache \<Rightarrow> bool" where
  "cache_inv contents valid c \<longleftrightarrow> valid (sc_map c) \<and> sc_used_bytes c = bytes_of (contents (sc_map c))
     \<and> sc_used_bytes c \<le> sc_max_bytes c
     \<and> (\<forall>(k, e)\<in>set (contents (sc_map c)). en_type_id e = ck_type_id k)"

locale cache_store = lru_map ops contents valid
  for ops :: "('m, cache_key, 'v entry) lru_ops" and contents and valid
begin

lemma evict_loop_spec:
  "valid (sc_map c) \<Longrightarrow> sc_used_bytes c = bytes_of (contents (sc_map c)) \<Longrightarrow>
   \<exists>c'. evict_loop ops c = Some c' \<and> valid (sc_map c') \<and> sc_used_bytes c' = bytes_of (contents (sc_map c'))
     \<and> sc_used_bytes c' \<le> sc_max_bytes c \<and> sc_max_bytes c' = sc_max_bytes c \<and> sc_epoch c' = sc_epoch c
     \<and> (\<exists>n. contents (sc_map c') = take n (contents (sc_map c)))"
proof (induction "length (contents (sc_map c))" arbitrary: c)
  case 0
  then have "contents (sc_map c) = []" by simp
  then have "sc_used_bytes c = 0" using 0 by (simp add: bytes_of_def)
  then have "evict_loop ops c = Some c" by (subst evict_loop.simps) simp
  with 0 \<open>sc_used_bytes c = 0\<close> show ?case by (auto intro: exI [of _ 0])
next
  case (Suc n)
  show ?case
  proof (cases "sc_used_bytes c > sc_max_bytes c")
    case False
    then have "evict_loop ops c = Some c" by (subst evict_loop.simps) simp
    with False Suc show ?thesis by (auto intro: exI [of _ "Suc n"])
  next
    case True
    let ?al = "contents (sc_map c)"
    have ne: "?al \<noteq> []" using Suc.hyps(2) by auto
    obtain k e where last: "last ?al = (k, e)" by (cases "last ?al")
    obtain m where pop: "lru_pop ops (sc_map c) = (Some (k, e), m)"
      using contents_pop(1) [OF Suc.prems(1)] ne last by (cases "lru_pop ops (sc_map c)") simp
    have m: "contents m = butlast ?al" "valid m"
      using contents_pop(2,3) [OF Suc.prems(1)] pop by simp_all
    let ?c = "c\<lparr>sc_map := m, sc_used_bytes := sc_used_bytes c - en_bytes e, sc_evictions := sc_evictions c + 1\<rparr>"
    have "evict_loop ops c = evict_loop ops ?c"
      using True pop by (subst evict_loop.simps) simp
    moreover have "sc_used_bytes ?c = bytes_of (contents (sc_map ?c))"
      using bytes_of_butlast [OF ne] last m Suc.prems(2) by simp
    moreover have "n = length (contents (sc_map ?c))" using m Suc.hyps(2) by simp
    ultimately show ?thesis
      using Suc.hyps(1) [of ?c] m by (auto simp: butlast_conv_take take_take)
  qed
qed

lemma cache_get_spec:
  assumes "cache_inv contents valid c" and "cache_get ops type_id key c = (r, c')"
  shows "cache_inv contents valid c'"
    and "sc_epoch c' = sc_epoch c" "sc_max_bytes c' = sc_max_bytes c"
    and "set (contents (sc_map c')) = set (contents (sc_map c))"
    and "ck_type_id key = type_id \<Longrightarrow>
        r = (if cache_is_enabled c then map_option en_value (map_of (contents (sc_map c)) key) else None)"
proof -
  let ?al = "contents (sc_map c)"
  have v: "valid (sc_map c)" using assms(1) by (simp add: cache_inv_def)
  note get = contents_get [OF v, of key]
  have ty: "map_of ?al key = Some e \<Longrightarrow> en_type_id e = ck_type_id key" for e
    using assms(1) by (auto simp: cache_inv_def dest: map_of_SomeD)
  have c': "c' = c \<or> (\<exists>h m. c' = c\<lparr>sc_map := snd (lru_get ops key (sc_map c)), sc_hits := h, sc_misses := m\<rparr>)"
  proof (cases "cache_is_enabled c")
    case True
    obtain o' m where lr: "lru_get ops key (sc_map c) = (o', m)" by (cases "lru_get ops key (sc_map c)")
    have up: "c\<lparr>sc_map := m, sc_hits := h\<rparr> = c\<lparr>sc_map := m, sc_hits := h, sc_misses := sc_misses c\<rparr>"
      "c\<lparr>sc_map := m, sc_misses := h\<rparr> = c\<lparr>sc_map := m, sc_hits := sc_hits c, sc_misses := h\<rparr>" for h
      by simp_all
    show ?thesis
    proof (cases o')
      case None
      with assms(2) True lr have "c' = c\<lparr>sc_map := m, sc_misses := sc_misses c + 1\<rparr>" by (simp add: cache_get_def)
      then show ?thesis using lr up(2) by (metis snd_conv)
    next
      case (Some e)
      with assms(2) True lr have "c' = c\<lparr>sc_map := m, sc_misses := sc_misses c + 1\<rparr> \<or> c' = c\<lparr>sc_map := m, sc_hits := sc_hits c + 1\<rparr>"
        by (auto simp: cache_get_def split: if_splits)
      then show ?thesis using lr up by (metis snd_conv)
    qed
  qed (use assms(2) in \<open>simp add: cache_get_def\<close>)
  then show "sc_epoch c' = sc_epoch c" "sc_max_bytes c' = sc_max_bytes c" by auto
  show "set (contents (sc_map c')) = set ?al"
    using c' get(3) set_promote [OF contents_distinct [OF v]] by auto
  show "cache_inv contents valid c'"
    using c' assms(1) get set_promote [OF contents_distinct [OF v]] bytes_of_promote [OF contents_distinct [OF v]]
    by (auto simp: cache_inv_def)
  show "r = (if cache_is_enabled c then map_option en_value (map_of ?al key) else None)" if "ck_type_id key = type_id"
  proof (cases "cache_is_enabled c")
    case True
    obtain m where "lru_get ops key (sc_map c) = (map_of ?al key, m)"
      using get(1) by (cases "lru_get ops key (sc_map c)") simp
    with True assms(2) ty that show ?thesis
      by (cases "map_of ?al key") (auto simp: cache_get_def)
  qed (use assms(2) in \<open>simp add: cache_get_def\<close>)
qed

lemma put_if_epoch_spec:
  assumes inv: "cache_inv contents valid c" and key: "ck_type_id key = type_id"
  shows "\<exists>c'. put_if_epoch ops type_id key value bytes epoch c = Some c' \<and> cache_inv contents valid c'
    \<and> sc_epoch c' = sc_epoch c \<and> sc_max_bytes c' = sc_max_bytes c
    \<and> set (contents (sc_map c')) \<subseteq>
        insert (key, \<lparr>en_type_id = type_id, en_value = value, en_bytes = bytes\<rparr>) (set (contents (sc_map c)))
    \<and> (sc_epoch c \<noteq> epoch \<longrightarrow> c' = c)"
proof (cases "\<not> cache_is_enabled c \<or> sc_epoch c \<noteq> epoch \<or> bytes > sc_max_bytes c")
  case True
  with inv show ?thesis by (auto simp: put_if_epoch_def cache_inv_def)
next
  case False
  let ?al = "contents (sc_map c)" and ?e = "\<lparr>en_type_id = type_id, en_value = value, en_bytes = bytes\<rparr>"
  have v: "valid (sc_map c)" using inv by (simp add: cache_inv_def)
  obtain old m where put: "lru_put ops key ?e (sc_map c) = (old, m)"
    by (cases "lru_put ops key ?e (sc_map c)")
  have m: "contents m = (key, ?e) # forget key ?al" "valid m" and old: "old = map_of ?al key"
    using contents_put [OF v, of key ?e] put by simp_all
  define used where "used = (case old of Some e \<Rightarrow> sc_used_bytes c - en_bytes e | None \<Rightarrow> sc_used_bytes c)"
  let ?c = "c\<lparr>sc_map := m, sc_used_bytes := used + bytes\<rparr>"
  have "used = bytes_of (forget key ?al)"
    using inv bytes_of_forget [OF contents_distinct [OF v], of key] old
    by (auto simp: cache_inv_def used_def split: option.splits)
  then have "valid (sc_map ?c)" "sc_used_bytes ?c = bytes_of (contents (sc_map ?c))"
    using m by (simp_all add: bytes_of_def)
  from evict_loop_spec [OF this] obtain c' n where c': "evict_loop ops ?c = Some c'" "valid (sc_map c')"
    "sc_used_bytes c' = bytes_of (contents (sc_map c'))" "sc_used_bytes c' \<le> sc_max_bytes c"
    "sc_max_bytes c' = sc_max_bytes c" "sc_epoch c' = sc_epoch c"
    "contents (sc_map c') = take n (contents m)"
    by auto
  have sub: "set (contents (sc_map c')) \<subseteq> insert (key, ?e) (set ?al)"
    using c'(7) m set_take_subset [of n "contents m"] by (auto simp: in_set_forget)
  have "\<forall>(k, e)\<in>set (contents (sc_map c')). en_type_id e = ck_type_id k"
    using sub inv key by (fastforce simp: cache_inv_def)
  then have "cache_inv contents valid c'" using c' by (simp add: cache_inv_def)
  moreover have "put_if_epoch ops type_id key value bytes epoch c = Some c'"
    using False put c'(1) by (simp add: put_if_epoch_def used_def)
  ultimately show ?thesis using c' sub False by blast
qed

lemma cache_clear_spec:
  "cache_inv contents valid (cache_clear ops c)" "contents (sc_map (cache_clear ops c)) = []"
  "sc_epoch (cache_clear ops c) = sc_epoch c + 1"
  by (simp_all add: cache_inv_def cache_clear_def contents_empty bytes_of_def)

lemma cache_new_spec:
  "cache_inv contents valid (cache_new ops max_bytes)" "contents (sc_map (cache_new ops max_bytes)) = []"
  by (simp_all add: cache_inv_def cache_new_def contents_empty bytes_of_def)

end

interpretation list_cache: cache_store list_lru "\<lambda>m. m" "\<lambda>m. distinct (map fst m)"
  by unfold_locales

subsection \<open>Concurrent loads and index mutations\<close>

text \<open>
  The interleavings of the server: loads in flight (each with its epoch snapshot and, once
  read, its rows), mutations that commit and then clear the cache (\<open>ClearOnDrop\<close>), clears of
  rolled-back mutations, a poisoned lock.  \<open>cw_db\<close> is what the database answers to a key;
  \<open>cw_pending\<close> counts the commits whose clear has not run yet.
\<close>

record ('m, 'v) cache_world =
  cw_cache :: "'m sql_cache"
  cw_db :: "cache_key \<Rightarrow> 'v"
  cw_pending :: nat
  cw_loads :: "(cache_key \<times> nat \<times> 'v option) list"

inductive cw_reach :: "('m, 'v) cache_ops \<Rightarrow> nat \<Rightarrow> ('m, 'v) cache_world \<Rightarrow> bool"
  for ops :: "('m, 'v) cache_ops" and max_bytes :: nat
where
  cw_init: "cw_reach ops max_bytes
     \<lparr>cw_cache = cache_new ops max_bytes, cw_db = db, cw_pending = 0, cw_loads = []\<rparr>"
| cw_hit: "cw_reach ops max_bytes w \<Longrightarrow>
     load_start ops (ck_type_id k) (Some k) (cw_cache w) = (Inl v, c') \<Longrightarrow>
     cw_reach ops max_bytes (w\<lparr>cw_cache := c'\<rparr>)"
| cw_miss: "cw_reach ops max_bytes w \<Longrightarrow>
     load_start ops (ck_type_id k) (Some k) (cw_cache w) = (Inr epoch, c') \<Longrightarrow>
     cw_reach ops max_bytes (w\<lparr>cw_cache := c', cw_loads := (k, epoch, None) # cw_loads w\<rparr>)"
| cw_read: "cw_reach ops max_bytes w \<Longrightarrow> cw_loads w = xs @ (k, epoch, None) # ys \<Longrightarrow>
     cw_reach ops max_bytes (w\<lparr>cw_loads := xs @ (k, epoch, Some (cw_db w k)) # ys\<rparr>)"
| cw_finish: "cw_reach ops max_bytes w \<Longrightarrow> cw_loads w = xs @ (k, epoch, Some v) # ys \<Longrightarrow>
     load_finish ops (ck_type_id k) (Some k) v bytes epoch (cw_cache w) = Some c' \<Longrightarrow>
     cw_reach ops max_bytes (w\<lparr>cw_cache := c', cw_loads := xs @ ys\<rparr>)"
| cw_cancel: "cw_reach ops max_bytes w \<Longrightarrow> cw_loads w = xs @ l # ys \<Longrightarrow>
     cw_reach ops max_bytes (w\<lparr>cw_loads := xs @ ys\<rparr>)"
| cw_commit: "cw_reach ops max_bytes w \<Longrightarrow>
     cw_reach ops max_bytes (w\<lparr>cw_db := db, cw_pending := cw_pending w + 1\<rparr>)"
| cw_clear: "cw_reach ops max_bytes w \<Longrightarrow> cw_pending w > 0 \<Longrightarrow>
     cw_reach ops max_bytes (w\<lparr>cw_cache := cache_clear ops (cw_cache w), cw_pending := cw_pending w - 1\<rparr>)"
| cw_rollback: "cw_reach ops max_bytes w \<Longrightarrow>
     cw_reach ops max_bytes (w\<lparr>cw_cache := cache_clear ops (cw_cache w)\<rparr>)"
| cw_poison: "cw_reach ops max_bytes w \<Longrightarrow>
     cw_reach ops max_bytes (w\<lparr>cw_cache := lock_poisoned ops (cw_cache w)\<rparr>)"

text \<open>
  With no commit waiting for its clear, every entry is what the database answers now, and
  so are the rows of every load whose insertion would still be accepted.
\<close>

definition cw_inv :: "('m \<Rightarrow> (cache_key \<times> 'v entry) list) \<Rightarrow> ('m \<Rightarrow> bool) \<Rightarrow> nat \<Rightarrow> ('m, 'v) cache_world \<Rightarrow> bool" where
  "cw_inv contents valid max_bytes w \<longleftrightarrow> cache_inv contents valid (cw_cache w)
     \<and> sc_max_bytes (cw_cache w) = max_bytes
     \<and> (\<forall>(k, epoch, r)\<in>set (cw_loads w). epoch \<le> sc_epoch (cw_cache w))
     \<and> (cw_pending w = 0 \<longrightarrow>
          (\<forall>(k, e)\<in>set (contents (sc_map (cw_cache w))). en_value e = cw_db w k)
          \<and> (\<forall>(k, epoch, r)\<in>set (cw_loads w).
               \<forall>v. r = Some v \<longrightarrow> epoch = sc_epoch (cw_cache w) \<longrightarrow> v = cw_db w k))"

context cache_store
begin

lemma load_start_spec:
  assumes inv: "cache_inv contents valid c" and ls: "load_start ops (ck_type_id k) (Some k) c = (r, c')"
  shows "cache_inv contents valid c'" "sc_epoch c' = sc_epoch c" "sc_max_bytes c' = sc_max_bytes c"
    and "set (contents (sc_map c')) = set (contents (sc_map c))"
    and "r = Inr epoch \<Longrightarrow> epoch = sc_epoch c"
    and "r = Inl v \<Longrightarrow> \<exists>e. (k, e) \<in> set (contents (sc_map c)) \<and> v = en_value e"
proof -
  obtain g where g: "cache_get ops (ck_type_id k) k c = (g, c')"
    using ls by (auto simp: load_start_def split: prod.splits option.splits)
  note s = cache_get_spec [OF inv g]
  show "cache_inv contents valid c'" "sc_epoch c' = sc_epoch c" "sc_max_bytes c' = sc_max_bytes c"
    "set (contents (sc_map c')) = set (contents (sc_map c))"
    by (rule s)+
  show "r = Inr epoch \<Longrightarrow> epoch = sc_epoch c"
    using ls g s(2) by (auto simp: load_start_def split: option.splits)
  show "r = Inl v \<Longrightarrow> \<exists>e. (k, e) \<in> set (contents (sc_map c)) \<and> v = en_value e"
    using ls g s(5) by (auto simp: load_start_def dest: map_of_SomeD split: option.splits if_splits)
qed

lemma clear_world_inv:
  assumes "cw_inv contents valid max_bytes w" and "cache_clear ops (cw_cache w) = c'"
  shows "cw_inv contents valid max_bytes (w\<lparr>cw_cache := c', cw_pending := p\<rparr>)"
proof -
  have "\<forall>(k, epoch, r)\<in>set (cw_loads w). epoch < sc_epoch c'"
    using assms cache_clear_spec(3) [of "cw_cache w"] by (fastforce simp: cw_inv_def)
  then show ?thesis
    using assms cache_clear_spec [of "cw_cache w"] by (fastforce simp: cw_inv_def cache_clear_def)
qed

lemma cw_reach_inv: "cw_reach ops max_bytes w \<Longrightarrow> cw_inv contents valid max_bytes w"
proof (induction rule: cw_reach.induct)
  case (cw_init db)
  show ?case using cache_new_spec [of max_bytes] by (simp add: cw_inv_def cache_new_def)
next
  case (cw_hit w k v c')
  then have "cache_inv contents valid (cw_cache w)" by (simp add: cw_inv_def)
  from load_start_spec [OF this cw_hit.hyps(2)] cw_hit.IH show ?case by (simp add: cw_inv_def)
next
  case (cw_miss w k epoch c')
  then have "cache_inv contents valid (cw_cache w)" by (simp add: cw_inv_def)
  from load_start_spec [OF this cw_miss.hyps(2)] cw_miss.IH show ?case by (simp add: cw_inv_def)
next
  case (cw_read w xs k epoch ys)
  then show ?case by (auto simp: cw_inv_def)
next
  case (cw_finish w xs k epoch v ys bytes c')
  have inv: "cache_inv contents valid (cw_cache w)" using cw_finish.IH by (simp add: cw_inv_def)
  have put: "put_if_epoch ops (ck_type_id k) k v bytes epoch (cw_cache w) = Some c'"
    using cw_finish.hyps(3) by (simp add: load_finish_def)
  from put_if_epoch_spec [OF inv refl, of k v bytes epoch] put
  have c': "cache_inv contents valid c'" "sc_epoch c' = sc_epoch (cw_cache w)"
    "sc_max_bytes c' = sc_max_bytes (cw_cache w)"
    "set (contents (sc_map c')) \<subseteq>
        insert (k, \<lparr>en_type_id = ck_type_id k, en_value = v, en_bytes = bytes\<rparr>) (set (contents (sc_map (cw_cache w))))"
    "sc_epoch (cw_cache w) \<noteq> epoch \<longrightarrow> c' = cw_cache w"
    by auto
  have "en_value e = cw_db w j" if "cw_pending w = 0" "(j, e) \<in> set (contents (sc_map c'))" for j e
  proof (cases "sc_epoch (cw_cache w) = epoch")
    case True
    then have "v = cw_db w k" using cw_finish.IH cw_finish.hyps(2) that(1) by (fastforce simp: cw_inv_def)
    with that c'(4) cw_finish.IH show ?thesis by (fastforce simp: cw_inv_def)
  next
    case False
    with c'(5) that cw_finish.IH show ?thesis by (fastforce simp: cw_inv_def)
  qed
  with c' cw_finish.IH cw_finish.hyps(2) show ?case by (auto simp: cw_inv_def)
next
  case (cw_cancel w xs l ys)
  then show ?case by (auto simp: cw_inv_def)
next
  case (cw_commit w db)
  then show ?case by (simp add: cw_inv_def)
next
  case (cw_clear w)
  then show ?case using clear_world_inv by blast
next
  case (cw_rollback w)
  from clear_world_inv [OF cw_rollback.IH refl, of "cw_pending w"] show ?case by simp
next
  case (cw_poison w)
  have "lock_poisoned ops (cw_cache w) = cache_clear ops (cw_cache w)"
    by (simp add: lock_poisoned_def cache_clear_def)
  with clear_world_inv [OF cw_poison.IH refl, of "cw_pending w"] show ?case by simp
qed

lemma hit_current:
  assumes "cw_reach ops max_bytes w" and "cw_pending w = 0"
    and "fst (load_start ops (ck_type_id k) (Some k) (cw_cache w)) = Inl v"
  shows "v = cw_db w k"
proof -
  have inv: "cw_inv contents valid max_bytes w" by (rule cw_reach_inv [OF assms(1)])
  then have c: "cache_inv contents valid (cw_cache w)" by (simp add: cw_inv_def)
  obtain c' where "load_start ops (ck_type_id k) (Some k) (cw_cache w) = (Inl v, c')"
    using assms(3) by (cases "load_start ops (ck_type_id k) (Some k) (cw_cache w)") simp
  from load_start_spec(6) [OF c this refl] obtain e
    where "(k, e) \<in> set (contents (sc_map (cw_cache w)))" "v = en_value e" by blast
  with inv assms(2) show ?thesis by (fastforce simp: cw_inv_def)
qed

end

subsection \<open>Properties\<close>

text \<open>
  C24. For every LRU map with the documented behaviour, in every interleaving of loads,
  commits, clears, rollbacks and lock poisonings: the accounted bytes are the bytes of
  the entries and never exceed the budget, and a hit served while no committed mutation
  is waiting for its clear is exactly what the database answers at that moment.
\<close>

theorem cache_hit_is_current:
  assumes "lru_map ops contents valid" and "cw_reach ops max_bytes w"
  shows "sc_used_bytes (cw_cache w) = bytes_of (contents (sc_map (cw_cache w)))
    \<and> sc_used_bytes (cw_cache w) \<le> max_bytes
    \<and> (cw_pending w = 0 \<longrightarrow>
        (\<forall>k v. fst (load_start ops (ck_type_id k) (Some k) (cw_cache w)) = Inl v \<longrightarrow> v = cw_db w k))"
proof -
  have store: "cache_store ops contents valid" using assms(1) by (simp add: cache_store_def)
  have "cw_inv contents valid max_bytes w" by (rule cache_store.cw_reach_inv [OF store assms(2)])
  then show ?thesis
    using cache_store.hit_current [OF store assms(2)] by (auto simp: cw_inv_def cache_inv_def)
qed

definition demo_key :: cache_key where
  "demo_key = \<lparr>ck_sql_hash = ''q'', ck_type_id = 1\<rparr>"

definition demo_cache :: "(cache_key \<times> int entry) list sql_cache" where
  "demo_cache = (cache_new list_lru 100)\<lparr>sc_misses := 1, sc_used_bytes := 10,
     sc_map := [(demo_key, \<lparr>en_type_id = 1, en_value = 5, en_bytes = 10\<rparr>)]\<rparr>"

theorem cache_hit_is_current_witness:
  "sc_used_bytes demo_cache \<le> 100 \<and> fst (load_start list_lru 1 (Some demo_key) demo_cache) = Inl 5"
proof -
  let ?w = "\<lparr>cw_cache = cache_new list_lru 100, cw_db = (\<lambda>k. 5 :: int), cw_pending = 0, cw_loads = []\<rparr>"
  let ?c1 = "(cache_new list_lru 100)\<lparr>sc_misses := 1\<rparr> :: (cache_key \<times> int entry) list sql_cache"
  have ty: "ck_type_id demo_key = 1" by (simp add: demo_key_def)
  have "load_start list_lru (ck_type_id demo_key) (Some demo_key) (cw_cache ?w) = (Inr 0, ?c1)"
    by (simp add: load_start_def cache_get_def cache_new_def cache_is_enabled_def list_lru_def promote_def)
  from cw_miss [OF cw_init this]
  have "cw_reach list_lru 100 (?w\<lparr>cw_cache := ?c1, cw_loads := [(demo_key, 0, None)]\<rparr>)" by simp
  from cw_read [OF this, of "[]" demo_key 0 "[]"]
  have r: "cw_reach list_lru 100 (?w\<lparr>cw_cache := ?c1, cw_loads := [(demo_key, 0, Some 5)]\<rparr>)" by simp
  have "load_finish list_lru (ck_type_id demo_key) (Some demo_key) 5 10 0 ?c1 = Some demo_cache"
    by (simp add: load_finish_def put_if_epoch_def cache_new_def cache_is_enabled_def list_lru_def forget_def
        ty demo_cache_def evict_loop.simps)
  with cw_finish [OF r, of "[]" demo_key 0 5 "[]" 10 demo_cache]
  have w: "cw_reach list_lru 100 (?w\<lparr>cw_cache := demo_cache, cw_loads := []\<rparr>)" by simp
  have "fst (load_start list_lru 1 (Some demo_key) demo_cache) = Inl 5"
    by (simp add: load_start_def cache_get_def demo_cache_def cache_new_def cache_is_enabled_def list_lru_def promote_def)
  with cache_hit_is_current [OF list_lru.lru_map_axioms w] show ?thesis by simp
qed

end
