(* ===== verification/Layers.thy ===== *)
theory Layers
  imports Filters "HOL-Library.Option_ord"
begin

section \<open>Ephemeral layers: keys, materialisation, garbage collection\<close>

text \<open>
  The layer half of \<open>index/src/db_diesel/index_impl.rs\<close>: the cache keys (SHA-256 is a
  parameter; the modelled data is the byte stream it is fed), the populate-and-commit
  protocol of one layer, the per-root materialisation of a verb, and garbage collection.
  A transaction is a function of the database state; a rollback returns the state before
  it, except for the id sequence, which PostgreSQL never rolls back.  Rows a populate
  writes are an abstract component of the state.
\<close>

subsection \<open>Cache keys\<close>

definition supplement_bytes :: "int \<Rightarrow> byte list \<Rightarrow> byte list \<Rightarrow> byte list" where
  "supplement_bytes parent_id base_hash extra =
     ''eph-supplement-v1'' @ le_bytes 8 parent_id @ base_hash @ le_bytes 8 (int (length extra)) @ extra"

definition per_layer_bytes :: "int \<Rightarrow> byte list \<Rightarrow> byte list" where
  "per_layer_bytes layer_id base_hash = ''eph-perlayer-v1'' @ le_bytes 8 layer_id @ base_hash"

definition root_salted_bytes :: "root_layer \<Rightarrow> byte list \<Rightarrow> byte list" where
  "root_salted_bytes root base_hash =
     ''base-rooted-v2'' @ le_bytes 8 (int (length (rt_hash root))) @ rt_hash root @ base_hash"

type_synonym sha = "byte list \<Rightarrow> byte list"

definition supplement_hash :: "sha \<Rightarrow> int \<Rightarrow> byte list \<Rightarrow> byte list \<Rightarrow> byte list" where
  "supplement_hash sha parent_id base_hash extra = sha (supplement_bytes parent_id base_hash extra)"

definition per_layer_hash :: "sha \<Rightarrow> int \<Rightarrow> byte list \<Rightarrow> byte list" where
  "per_layer_hash sha layer_id base_hash = sha (per_layer_bytes layer_id base_hash)"

definition root_salted_hash :: "sha \<Rightarrow> root_layer \<Rightarrow> byte list \<Rightarrow> byte list" where
  "root_salted_hash sha root base_hash = sha (root_salted_bytes root base_hash)"

subsection \<open>Layer rows\<close>

datatype eph_layer_kind = Canary | Ephemeral | Root

definition PROTECTED :: "eph_layer_kind list" where
  "PROTECTED = [Canary, Root]"

fun kind_as_str :: "eph_layer_kind \<Rightarrow> string" where
  "kind_as_str Canary = ''canary''"
| "kind_as_str Ephemeral = ''ephemeral''"
| "kind_as_str Root = ''root''"

definition protected_sql_list :: string where
  "protected_sql_list = join_with '', '' (map (\<lambda>k. [CHR 0x27] @ kind_as_str k @ [CHR 0x27]) PROTECTED)"

record layer_row =
  lr_id :: int
  lr_parent_id :: "int option"
  lr_base_id :: "int option"
  lr_hash :: "byte list"
  lr_kind :: eph_layer_kind
  lr_populated :: bool
  lr_truncated :: bool
  lr_last_used :: nat

text \<open>
  \<open>ld_next\<close> is the descending id sequence of ephemeral layers, \<open>ld_objects\<close> the content
  objects, \<open>ld_data\<close> the rows populates insert.
\<close>

record 'd layer_db =
  ld_rows :: "layer_row list"
  ld_next :: int
  ld_objects :: "object_row list"
  ld_data :: 'd

record layer_outcome =
  lo_layer_id :: int
  lo_created :: bool
  lo_truncated :: bool

record base_layer_ref =
  bl_layer_id :: int
  bl_hash :: "byte list"

datatype layer_role = Base | Supplement | PerLayer

record materialised_layer =
  ml_root_id :: int
  ml_role :: layer_role
  ml_outcome :: layer_outcome

datatype layer_error =
    CachePurged
  | UnpopulatedHit int
  | PopulateFailed string

subsection \<open>One layer\<close>

definition find_layer :: "byte list \<Rightarrow> layer_row list \<Rightarrow> layer_row option" where
  "find_layer hash rows = List.find (\<lambda>r. lr_hash r = hash) rows"

definition fk_ok :: "layer_row list \<Rightarrow> int option \<Rightarrow> bool" where
  "fk_ok rows ref = (case ref of None \<Rightarrow> True | Some i \<Rightarrow> list_ex (\<lambda>r. lr_id r = i) rows)"

record eph_transaction =
  tx_layer_id :: int
  tx_created :: bool
  tx_truncated_on_open :: bool

text \<open>
  The upsert on \<open>hash\<close>: a hit only touches \<open>last_used\<close>; an insert checks the two foreign
  keys.  The sequence advances in both cases, also when the transaction rolls back.
\<close>

definition create_eph_layer ::
  "nat \<Rightarrow> int option \<Rightarrow> int option \<Rightarrow> byte list \<Rightarrow> eph_layer_kind
    \<Rightarrow> ('d layer_db, layer_error, eph_transaction) step" where
  "create_eph_layer now parent_id base_id hash kind db =
     (let lid = ld_next db;
          db = db\<lparr>ld_next := lid - 1\<rparr>
      in case find_layer hash (ld_rows db) of
           Some r \<Rightarrow>
             if \<not> lr_populated r then (Inl (UnpopulatedHit (lr_id r)), db)
             else (Inr \<lparr>tx_layer_id = lr_id r, tx_created = False, tx_truncated_on_open = lr_truncated r\<rparr>,
                   db\<lparr>ld_rows := map (\<lambda>q. if lr_hash q = hash then q\<lparr>lr_last_used := now\<rparr> else q) (ld_rows db)\<rparr>)
         | None \<Rightarrow>
             if \<not> fk_ok (ld_rows db) parent_id \<or> \<not> fk_ok (ld_rows db) base_id then (Inl CachePurged, db)
             else (Inr \<lparr>tx_layer_id = lid, tx_created = True, tx_truncated_on_open = False\<rparr>,
                   db\<lparr>ld_rows := ld_rows db @
                     [\<lparr>lr_id = lid, lr_parent_id = parent_id, lr_base_id = base_id, lr_hash = hash,
                       lr_kind = kind, lr_populated = False, lr_truncated = False, lr_last_used = now\<rparr>]\<rparr>))"

definition set_layer :: "int \<Rightarrow> (layer_row \<Rightarrow> layer_row) \<Rightarrow> 'd layer_db \<Rightarrow> 'd layer_db" where
  "set_layer lid f db = db\<lparr>ld_rows := map (\<lambda>r. if lr_id r = lid then f r else r) (ld_rows db)\<rparr>"

definition mark_truncated :: "int \<Rightarrow> bool \<Rightarrow> 'd layer_db \<Rightarrow> 'd layer_db" where
  "mark_truncated lid b = set_layer lid (\<lambda>r. r\<lparr>lr_truncated := b\<rparr>)"

definition mark_populated :: "int \<Rightarrow> 'd layer_db \<Rightarrow> 'd layer_db" where
  "mark_populated lid = set_layer lid (\<lambda>r. r\<lparr>lr_populated := True\<rparr>)"

type_synonym 'd populate = "int \<Rightarrow> 'd \<Rightarrow> string + (bool \<times> 'd)"

definition with_eph_layer ::
  "nat \<Rightarrow> int option \<Rightarrow> int option \<Rightarrow> byte list \<Rightarrow> eph_layer_kind \<Rightarrow> 'd populate
    \<Rightarrow> ('d layer_db, layer_error, layer_outcome) step" where
  "with_eph_layer now parent_id base_id hash kind body db =
     (case create_eph_layer now parent_id base_id hash kind db of
        (Inl e, db1) \<Rightarrow> (Inl e, db1)
      | (Inr txn, db1) \<Rightarrow>
          if \<not> tx_created txn
          then (Inr \<lparr>lo_layer_id = tx_layer_id txn, lo_created = False,
                     lo_truncated = tx_truncated_on_open txn\<rparr>, db1)
          else (case body (tx_layer_id txn) (ld_data db1) of
                  Inl e \<Rightarrow> (Inl (PopulateFailed e), db\<lparr>ld_next := ld_next db1\<rparr>)
                | Inr (truncated, d) \<Rightarrow>
                    (Inr \<lparr>lo_layer_id = tx_layer_id txn, lo_created = True, lo_truncated = truncated\<rparr>,
                     mark_populated (tx_layer_id txn)
                       (mark_truncated (tx_layer_id txn) truncated (db1\<lparr>ld_data := d\<rparr>)))))"

subsection \<open>One verb on every root\<close>

text \<open>The visible ephemeral layers that carry objects of a project, ascending.\<close>

definition eph_content_layers_grouped :: "object_row list \<Rightarrow> int list \<Rightarrow> int \<Rightarrow> int list option" where
  "eph_content_layers_grouped objects visible project_id =
     (let ls = sort_dedup (map ob_layer (filter (\<lambda>ob. ob_layer ob \<in> set visible \<and> ob_layer ob < 0
                 \<and> ob_project_id ob = project_id) objects))
      in if ls = [] then None else Some ls)"

definition materialise_root ::
  "sha \<Rightarrow> nat \<Rightarrow> eph_context \<Rightarrow> byte list \<Rightarrow> byte list
    \<Rightarrow> (root_layer \<Rightarrow> 'd populate) \<Rightarrow> (root_layer \<Rightarrow> base_layer_ref \<Rightarrow> 'd populate)
    \<Rightarrow> (root_layer \<Rightarrow> int \<Rightarrow> base_layer_ref \<Rightarrow> 'd populate) option
    \<Rightarrow> (int \<Rightarrow> int list option) \<Rightarrow> root_layer
    \<Rightarrow> ('d layer_db, layer_error, materialised_layer list) step" where
  "materialise_root sha now ec base_hash extra base_populate supplement_populate per_layer_populate
      content_by_project root =
     (let salted = root_salted_hash sha root base_hash in
      sbind (with_eph_layer now (Some (rt_id root)) None salted Ephemeral (base_populate root)) (\<lambda>base.
      let base_ref = \<lparr>bl_layer_id = lo_layer_id base, bl_hash = salted\<rparr> in
      sbind (case chain_last ec (rt_id root) of
               None \<Rightarrow> sreturn None
             | Some parent \<Rightarrow>
                 sbind (with_eph_layer now (Some parent) (Some (lo_layer_id base))
                          (supplement_hash sha parent salted extra) Ephemeral
                          (supplement_populate root base_ref))
                   (\<lambda>s. sreturn (Some s))) (\<lambda>supplement.
      sbind (case per_layer_populate of
               None \<Rightarrow> sreturn []
             | Some per_layer \<Rightarrow>
                 (case content_by_project (rt_project_id root) of
                    None \<Rightarrow> sreturn []
                  | Some layer_ids \<Rightarrow>
                      smap (\<lambda>lj. with_eph_layer now (Some lj) (Some (lo_layer_id base))
                                   (per_layer_hash sha lj salted) Ephemeral (per_layer root lj base_ref))
                        layer_ids)) (\<lambda>atoms.
      sreturn
        ([\<lparr>ml_root_id = rt_id root, ml_role = Base, ml_outcome = base\<rparr>]
         @ map (\<lambda>a. \<lparr>ml_root_id = rt_id root, ml_role = PerLayer, ml_outcome = a\<rparr>) atoms
         @ (case supplement of None \<Rightarrow> []
            | Some s \<Rightarrow> [\<lparr>ml_root_id = rt_id root, ml_role = Supplement, ml_outcome = s\<rparr>]))))))"

text \<open>
  The roots run concurrently; \<open>order\<close> is the order in which they complete, and every root
  runs to completion whatever happens to the others.
\<close>

fun run_roots :: "('x \<Rightarrow> ('s, 'e, 'a) step) \<Rightarrow> 'x list \<Rightarrow> 's \<Rightarrow> ('e + 'a) list \<times> 's" where
  "run_roots f [] s = ([], s)"
| "run_roots f (x # xs) s =
     (let (r, s1) = f x s; (rs, s2) = run_roots f xs s1 in (r # rs, s2))"

definition with_partitioned_layers ::
  "sha \<Rightarrow> nat \<Rightarrow> eph_context \<Rightarrow> byte list \<Rightarrow> byte list
    \<Rightarrow> (root_layer \<Rightarrow> 'd populate) \<Rightarrow> (root_layer \<Rightarrow> base_layer_ref \<Rightarrow> 'd populate)
    \<Rightarrow> (root_layer \<Rightarrow> int \<Rightarrow> base_layer_ref \<Rightarrow> 'd populate) option
    \<Rightarrow> root_layer list \<Rightarrow> ('d layer_db, layer_error, materialised_layer list) step" where
  "with_partitioned_layers sha now ec base_hash extra base_populate supplement_populate per_layer_populate
      order db =
     (let content = (if per_layer_populate \<noteq> None \<and> has_chain ec
                     then eph_content_layers_grouped (ld_objects db) (visible_ids ec) else (\<lambda>p. None));
          (results, db') = run_roots (materialise_root sha now ec base_hash extra base_populate
             supplement_populate per_layer_populate content) order db
      in (case collect_results results of
            Inl e \<Rightarrow> Inl e
          | Inr groups \<Rightarrow> Inr (concat (sort_key (\<lambda>g. case g of [] \<Rightarrow> None | l # _ \<Rightarrow> Some (ml_root_id l)) groups)),
          db'))"

subsection \<open>Garbage collection\<close>

record gc_db =
  gd_layers :: "layer_row list"
  gd_symbols :: "symbol_row list"
  gd_instances :: "instance_row list"
  gd_refs :: "ref_row list"

text \<open>The dependency edges of the recursive query: (dependent, needed).\<close>

definition doomed_edges :: "gc_db \<Rightarrow> (int \<times> int) list" where
  "doomed_edges db =
     [(in_layer si, sy_layer s). si \<leftarrow> gd_instances db, s \<leftarrow> gd_symbols db,
        in_symbol si = sy_id s, in_layer si < 0, sy_layer s < 0, in_layer si \<noteq> sy_layer s]
   @ [(rf_layer sr, sy_layer s). sr \<leftarrow> gd_refs db, s \<leftarrow> gd_symbols db,
        rf_to_symbol sr = sy_id s, rf_layer sr < 0, sy_layer s < 0, rf_layer sr \<noteq> sy_layer s]
   @ [(lr_id r, p). r \<leftarrow> gd_layers db, p \<leftarrow> (case lr_parent_id r of None \<Rightarrow> [] | Some p \<Rightarrow> [p])]
   @ [(lr_id r, b). r \<leftarrow> gd_layers db, b \<leftarrow> (case lr_base_id r of None \<Rightarrow> [] | Some b \<Rightarrow> [b])]"

text \<open>\<open>WITH RECURSIVE \<dots> UNION\<close>: rounds of new rows joined with the edges until none is new.\<close>

definition is_protected :: "layer_row \<Rightarrow> bool" where
  "is_protected r \<longleftrightarrow> lr_kind r \<in> set PROTECTED"

definition doomed_seed :: "(layer_row \<Rightarrow> bool) \<Rightarrow> gc_db \<Rightarrow> int list" where
  "doomed_seed seed_where db = map lr_id (filter (\<lambda>r. seed_where r \<and> \<not> is_protected r) (gd_layers db))"

definition doomed_round :: "(int \<times> int) list \<Rightarrow> int list \<Rightarrow> int list" where
  "doomed_round edges ds = remdups (ds @ map fst (filter (\<lambda>e. snd e \<in> set ds) edges))"

fun doomed_rounds :: "nat \<Rightarrow> (int \<times> int) list \<Rightarrow> int list \<Rightarrow> int list" where
  "doomed_rounds 0 edges ds = ds"
| "doomed_rounds (Suc n) edges ds = doomed_rounds n edges (doomed_round edges ds)"

text \<open>Each round that changes anything adds a dependent, so one round per edge is enough.\<close>

definition doomed :: "(layer_row \<Rightarrow> bool) \<Rightarrow> gc_db \<Rightarrow> int list" where
  "doomed seed_where db =
     (let edges = doomed_edges db in doomed_rounds (length edges) edges (doomed_seed seed_where db))"

definition doomed_closure_delete :: "(layer_row \<Rightarrow> bool) \<Rightarrow> gc_db \<Rightarrow> layer_row list" where
  "doomed_closure_delete seed_where db =
     (let ids = doomed seed_where db
      in filter (\<lambda>r. lr_id r \<in> set ids \<and> \<not> is_protected r) (gd_layers db))"

text \<open>\<open>purge_eph_cache\<close> deletes every unprotected layer.\<close>

definition purge_eph_cache :: "gc_db \<Rightarrow> layer_row list" where
  "purge_eph_cache db = filter (\<lambda>r. \<not> is_protected r) (gd_layers db)"

definition purge_old_eph_layers :: "nat \<Rightarrow> nat \<Rightarrow> gc_db \<Rightarrow> layer_row list" where
  "purge_old_eph_layers now older_than db =
     doomed_closure_delete (\<lambda>r. lr_last_used r + older_than < now) db"

definition delete_eph_layer :: "int \<Rightarrow> gc_db \<Rightarrow> layer_row list" where
  "delete_eph_layer layer_id db = doomed_closure_delete (\<lambda>r. lr_id r = layer_id) db"

text \<open>
  The foreign-key cascades of a delete: rows of a deleted layer go, then rows whose symbol
  went.
\<close>

definition cascade :: "layer_row list \<Rightarrow> gc_db \<Rightarrow> gc_db" where
  "cascade deleted db =
     (let gone = lr_id ` set deleted;
          symbols = filter (\<lambda>s. sy_layer s \<notin> gone) (gd_symbols db);
          keep = (\<lambda>tgt. list_ex (\<lambda>s. sy_id s = tgt) symbols)
      in db\<lparr>gd_layers := filter (\<lambda>r. lr_id r \<notin> gone) (gd_layers db), gd_symbols := symbols,
            gd_instances := filter (\<lambda>i. in_layer i \<notin> gone \<and> keep (in_symbol i)) (gd_instances db),
            gd_refs := filter (\<lambda>r. rf_layer r \<notin> gone \<and> keep (rf_to_symbol r)) (gd_refs db)\<rparr>)"

subsection \<open>Keys are injective and disjoint\<close>

lemma le8_split:
  assumes "le_bytes 8 x @ r = le_bytes 8 y @ u" "is_i64 x" "is_i64 y"
  shows "x = y \<and> r = u"
  using append_eq_len [OF assms(1)] le_bytes_i64_inj assms by simp

lemma le8_len_split:
  assumes "le_bytes 8 (int m) @ r = le_bytes 8 (int n) @ u" "m < 2 ^ 64" "n < 2 ^ 64"
  shows "m = n \<and> r = u"
proof -
  have "le_bytes 8 (int m) = le_bytes 8 (int n) \<and> r = u" using append_eq_len [OF assms(1)] by simp
  moreover from this have "int m = int n"
    using assms(2,3) by (intro le_bytes_inj_unsigned [of 8]) auto
  ultimately show ?thesis by simp
qed

subsection \<open>The layer table\<close>

text \<open>
  What holds of the committed table between transactions: unique ids and hashes, every
  row populated, and the sequence below every id in use.
\<close>

definition layer_db_wf :: "'d layer_db \<Rightarrow> bool" where
  "layer_db_wf db \<longleftrightarrow> distinct (map lr_id (ld_rows db)) \<and> distinct (map lr_hash (ld_rows db))
     \<and> (\<forall>r\<in>set (ld_rows db). lr_populated r \<and> ld_next db < lr_id r) \<and> ld_next db < 0"

lemma find_layer_Some: "find_layer h rows = Some r \<Longrightarrow> r \<in> set rows \<and> lr_hash r = h"
  by (auto simp: find_layer_def find_Some_iff)

lemma find_layer_None: "find_layer h rows = None \<longleftrightarrow> h \<notin> lr_hash ` set rows"
  by (auto simp: find_layer_def find_None_iff)

lemma find_layer_unique:
  assumes "distinct (map lr_hash rows)" "r \<in> set rows"
  shows "find_layer (lr_hash r) rows = Some r"
proof (cases "find_layer (lr_hash r) rows")
  case None
  with assms(2) show ?thesis by (auto simp: find_layer_None)
next
  case (Some q)
  from find_layer_Some [OF this] assms Some show ?thesis
    by (metis distinct_map inj_onD)
qed

definition touch_rows :: "nat \<Rightarrow> byte list \<Rightarrow> layer_row list \<Rightarrow> layer_row list" where
  "touch_rows now h rows = map (\<lambda>q. if lr_hash q = h then q\<lparr>lr_last_used := now\<rparr> else q) rows"

lemma touch_rows_maps [simp]:
  "map lr_id (touch_rows now h rows) = map lr_id rows"
  "map lr_hash (touch_rows now h rows) = map lr_hash rows"
  "map lr_truncated (touch_rows now h rows) = map lr_truncated rows"
  by (simp_all add: touch_rows_def)

lemma find_touch:
  "find_layer h (touch_rows now h' rows) = map_option (\<lambda>q. if lr_hash q = h' then q\<lparr>lr_last_used := now\<rparr> else q) (find_layer h rows)"
  by (induction rows) (auto simp: find_layer_def touch_rows_def)

lemma set_layer_fresh:
  "\<forall>r\<in>set (ld_rows db). lr_id r \<noteq> i \<Longrightarrow> lr_id q = i \<Longrightarrow>
   set_layer i f (db\<lparr>ld_rows := ld_rows db @ [q]\<rparr>) = db\<lparr>ld_rows := ld_rows db @ [f q]\<rparr>"
  by (simp add: set_layer_def map_idI)

text \<open>The three ways a materialisation ends.\<close>

lemma with_eph_layer_cases:
  assumes wf: "layer_db_wf db" and run: "with_eph_layer now p b h k body db = (r, db')"
  obtains (hit) q where "find_layer h (ld_rows db) = Some q"
      "r = Inr \<lparr>lo_layer_id = lr_id q, lo_created = False, lo_truncated = lr_truncated q\<rparr>"
      "db' = db\<lparr>ld_next := ld_next db - 1, ld_rows := touch_rows now h (ld_rows db)\<rparr>"
    | (failed) e where "find_layer h (ld_rows db) = None" "r = Inl e" "db' = db\<lparr>ld_next := ld_next db - 1\<rparr>"
    | (made) t d where "find_layer h (ld_rows db) = None" "body (ld_next db) (ld_data db) = Inr (t, d)"
      "fk_ok (ld_rows db) p" "fk_ok (ld_rows db) b"
      "r = Inr \<lparr>lo_layer_id = ld_next db, lo_created = True, lo_truncated = t\<rparr>"
      "db' = db\<lparr>ld_next := ld_next db - 1, ld_rows := ld_rows db @
         [\<lparr>lr_id = ld_next db, lr_parent_id = p, lr_base_id = b, lr_hash = h, lr_kind = k,
           lr_populated = True, lr_truncated = t, lr_last_used = now\<rparr>], ld_data := d\<rparr>"
proof (cases "find_layer h (ld_rows db)")
  case (Some q)
  then have "lr_populated q" using wf find_layer_Some by (fastforce simp: layer_db_wf_def)
  with Some run show ?thesis
    by (intro hit [OF Some]) (auto simp: with_eph_layer_def create_eph_layer_def Let_def touch_rows_def)
next
  case None
  show ?thesis
  proof (cases "fk_ok (ld_rows db) p \<and> fk_ok (ld_rows db) b")
    case False
    with None run show ?thesis
      by (intro failed [OF None]) (auto simp: with_eph_layer_def create_eph_layer_def Let_def)
  next
    case True
    show ?thesis
    proof (cases "body (ld_next db) (ld_data db)")
      case (Inl e)
      with True None run show ?thesis
        by (intro failed [OF None]) (auto simp: with_eph_layer_def create_eph_layer_def Let_def)
    next
      case (Inr td)
      obtain t d where td: "td = (t, d)" by (cases td)
      have fresh: "\<forall>r\<in>set (ld_rows db). lr_id r \<noteq> ld_next db"
        using wf by (force simp: layer_db_wf_def)
      then have keep: "map (\<lambda>r. if lr_id r = ld_next db then f r else r) (ld_rows db) = ld_rows db" for f
        by (simp add: map_idI)
      show ?thesis
      proof (rule made [OF None])
        show "body (ld_next db) (ld_data db) = Inr (t, d)" using Inr td by simp
        show "fk_ok (ld_rows db) p" "fk_ok (ld_rows db) b" using True by simp_all
      qed (use run True None Inr td in \<open>auto simp: with_eph_layer_def create_eph_layer_def Let_def
          mark_populated_def mark_truncated_def set_layer_def keep\<close>)
    qed
  qed
qed

lemma with_eph_layer_wf:
  assumes wf: "layer_db_wf db" and run: "with_eph_layer now p b h k body db = (r, db')"
  shows "layer_db_wf db'"
  using assms
proof (cases rule: with_eph_layer_cases)
  case (hit q)
  have "\<forall>r\<in>set (touch_rows now h (ld_rows db)). lr_populated r \<and> ld_next db < lr_id r"
    using wf by (auto simp: layer_db_wf_def touch_rows_def)
  with hit wf show ?thesis by (force simp: layer_db_wf_def)
next
  case (failed e)
  with wf show ?thesis by (force simp: layer_db_wf_def)
next
  case (made t d)
  then have "h \<notin> lr_hash ` set (ld_rows db)" by (simp add: find_layer_None)
  moreover have "ld_next db \<notin> lr_id ` set (ld_rows db)" using wf by (force simp: layer_db_wf_def)
  ultimately show ?thesis using made(6) wf by (force simp: layer_db_wf_def)
qed

lemma find_layer_append:
  "\<forall>r\<in>set rows. lr_hash r \<noteq> h \<Longrightarrow>
   find_layer h (rows @ [q]) = (if lr_hash q = h then Some q else None)"
  by (induction rows) (auto simp: find_layer_def)

lemma with_eph_layer_found:
  assumes wf: "layer_db_wf db" and run: "with_eph_layer now p b h k body db = (Inr out, db')"
  shows "\<exists>q. find_layer h (ld_rows db') = Some q \<and> lr_id q = lo_layer_id out \<and> lr_populated q
     \<and> lr_truncated q = lo_truncated out"
  using assms
proof (cases rule: with_eph_layer_cases)
  case (hit q)
  have "lr_populated q" using wf hit(1) find_layer_Some by (fastforce simp: layer_db_wf_def)
  with hit show ?thesis by (auto simp: find_touch)
next
  case (made t d)
  then have "\<forall>q\<in>set (ld_rows db). lr_hash q \<noteq> h" by (auto simp: find_layer_None)
  then have "find_layer h (ld_rows db @ [q]) = (if lr_hash q = h then Some q else None)" for q
    by (rule find_layer_append)
  with made show ?thesis by simp
qed simp

lemma with_eph_layer_again:
  assumes wf: "layer_db_wf db" and run: "with_eph_layer now p b h k body db = (Inr out, db')"
  shows "\<exists>db2. with_eph_layer now' p' b' h k' body' db' =
      (Inr \<lparr>lo_layer_id = lo_layer_id out, lo_created = False, lo_truncated = lo_truncated out\<rparr>, db2)
      \<and> ld_data db2 = ld_data db'"
proof -
  have wf': "layer_db_wf db'" by (rule with_eph_layer_wf [OF wf run])
  obtain q where q: "find_layer h (ld_rows db') = Some q" "lr_id q = lo_layer_id out"
    "lr_truncated q = lo_truncated out" using with_eph_layer_found [OF wf run] by auto
  obtain r db2 where run2: "with_eph_layer now' p' b' h k' body' db' = (r, db2)"
    by (cases "with_eph_layer now' p' b' h k' body' db'")
  from wf' this show ?thesis
    by (cases rule: with_eph_layer_cases) (use q run2 in auto)
qed

subsection \<open>Shape of a materialisation\<close>

lemma materialise_root_shape:
  assumes "materialise_root sha now ec bh extra bp sp pp content root db = (Inr ls, db')"
  shows "\<exists>base atoms sups. ls = [\<lparr>ml_root_id = rt_id root, ml_role = Base, ml_outcome = base\<rparr>]
       @ map (\<lambda>a. \<lparr>ml_root_id = rt_id root, ml_role = PerLayer, ml_outcome = a\<rparr>) atoms
       @ map (\<lambda>s. \<lparr>ml_root_id = rt_id root, ml_role = Supplement, ml_outcome = s\<rparr>) sups
     \<and> length sups = (if chain_last ec (rt_id root) = None then 0 else 1)
     \<and> length atoms = (if pp = None then 0
         else case content (rt_project_id root) of None \<Rightarrow> 0 | Some lids \<Rightarrow> length lids)"
proof -
  let ?salted = "root_salted_hash sha root bh"
  from assms obtain base sup atoms db1 db2 where
    sup: "(case chain_last ec (rt_id root) of
               None \<Rightarrow> sreturn None
             | Some parent \<Rightarrow>
                 sbind (with_eph_layer now (Some parent) (Some (lo_layer_id base))
                          (supplement_hash sha parent ?salted extra) Ephemeral
                          (sp root \<lparr>bl_layer_id = lo_layer_id base, bl_hash = ?salted\<rparr>))
                   (\<lambda>s. sreturn (Some s))) db1 = (Inr sup, db2)"
    and atoms: "(case pp of
               None \<Rightarrow> sreturn []
             | Some per_layer \<Rightarrow>
                 (case content (rt_project_id root) of
                    None \<Rightarrow> sreturn []
                  | Some layer_ids \<Rightarrow>
                      smap (\<lambda>lj. with_eph_layer now (Some lj) (Some (lo_layer_id base))
                                   (per_layer_hash sha lj ?salted) Ephemeral
                                   (per_layer root lj \<lparr>bl_layer_id = lo_layer_id base, bl_hash = ?salted\<rparr>))
                        layer_ids)) db2 = (Inr atoms, db')"
    and ls: "ls = [\<lparr>ml_root_id = rt_id root, ml_role = Base, ml_outcome = base\<rparr>]
         @ map (\<lambda>a. \<lparr>ml_root_id = rt_id root, ml_role = PerLayer, ml_outcome = a\<rparr>) atoms
         @ (case sup of None \<Rightarrow> []
            | Some s \<Rightarrow> [\<lparr>ml_root_id = rt_id root, ml_role = Supplement, ml_outcome = s\<rparr>])"
    unfolding materialise_root_def Let_def sbind_Inr sreturn_Inr by blast
  have "length atoms = (if pp = None then 0
         else case content (rt_project_id root) of None \<Rightarrow> 0 | Some lids \<Rightarrow> length lids)"
    using atoms by (auto simp: sreturn_Inr dest: smap_length split: option.splits)
  moreover have "length (case sup of None \<Rightarrow> [] | Some s \<Rightarrow> [s]) = (if chain_last ec (rt_id root) = None then 0 else 1)"
    using sup by (auto simp: sreturn_Inr sbind_Inr split: option.splits)
  moreover have "(case sup of None \<Rightarrow> []
            | Some s \<Rightarrow> [\<lparr>ml_root_id = rt_id root, ml_role = Supplement, ml_outcome = s\<rparr>])
      = map (\<lambda>s. \<lparr>ml_root_id = rt_id root, ml_role = Supplement, ml_outcome = s\<rparr>) (case sup of None \<Rightarrow> [] | Some s \<Rightarrow> [s])"
    by (cases sup) simp_all
  ultimately show ?thesis unfolding ls by metis
qed

lemma run_roots_results:
  "run_roots f xs s = (rs, s') \<Longrightarrow> length rs = length xs \<and> (\<forall>i<length xs. \<exists>t t'. f (xs ! i) t = (rs ! i, t'))"
proof (induction xs arbitrary: s rs s')
  case (Cons x xs)
  obtain r s1 where r: "f x s = (r, s1)" by (cases "f x s")
  obtain rs2 s2 where rs2: "run_roots f xs s1 = (rs2, s2)" by (cases "run_roots f xs s1")
  from Cons.prems r rs2 have "rs = r # rs2" by simp
  with Cons.IH [OF rs2] r show ?case by (auto simp: less_Suc_eq_0_disj)
qed simp


text \<open>The layers of one root, as a group of the result.\<close>

definition group_of :: "eph_context \<Rightarrow> root_layer \<Rightarrow> materialised_layer list \<Rightarrow> bool" where
  "group_of ec root g \<longleftrightarrow> g \<noteq> [] \<and> (\<forall>m\<in>set g. ml_root_id m = rt_id root)
     \<and> ml_role (hd g) = Base
     \<and> ml_role (last g) = (if has_chain ec then Supplement else Base)
     \<and> (\<forall>m\<in>set (tl (butlast g)). ml_role m = PerLayer)"

lemma chain_last_has_chain:
  assumes "eph_wf ec" and "root \<in> set (ec_roots ec)"
  shows "chain_last ec (rt_id root) = None \<longleftrightarrow> \<not> has_chain ec"
proof -
  have wf: "length (ec_chains ec) = length (root_ids ec)" "distinct (root_ids ec)"
    using assms(1) by (simp_all add: eph_wf_def roots_wf_def strict_sorted_iff)
  have "rt_id root \<in> set (root_ids ec)" using assms(2) by (simp add: root_ids_def)
  then obtain i where i: "i < length (root_ids ec)" "root_ids ec ! i = rt_id root"
    by (auto simp: in_set_conv_nth)
  have "root_index ec (rt_id root) = Some i"
    using index_of_distinct [OF wf(2) i(1)] i(2) by (simp add: root_index_def root_ids_def)
  moreover have "ec_chains ec ! i \<in> set (ec_chains ec)" "ec_chains ec \<noteq> []"
    using i(1) wf(1) by (auto intro: nth_mem)
  moreover have "has_chain ec \<longleftrightarrow> hd (ec_chains ec) \<noteq> []"
    using \<open>ec_chains ec \<noteq> []\<close> by (cases "ec_chains ec") (simp_all add: has_chain_def)
  moreover have "hd (ec_chains ec) \<in> set (ec_chains ec)" using \<open>ec_chains ec \<noteq> []\<close> by simp
  ultimately show ?thesis
    using assms(1) by (auto simp: chain_last_def Let_def eph_wf_def)
qed

lemma materialise_root_group:
  assumes "eph_wf ec" "root \<in> set (ec_roots ec)"
    and run: "materialise_root sha now ec bh extra bp sp pp content root db = (Inr g, db')"
    and content: "\<not> has_chain ec \<Longrightarrow> content = (\<lambda>p. None)"
  shows "group_of ec root g"
proof -
  from materialise_root_shape [OF run] obtain base atoms sups where
    g: "g = [\<lparr>ml_root_id = rt_id root, ml_role = Base, ml_outcome = base\<rparr>]
       @ map (\<lambda>a. \<lparr>ml_root_id = rt_id root, ml_role = PerLayer, ml_outcome = a\<rparr>) atoms
       @ map (\<lambda>s. \<lparr>ml_root_id = rt_id root, ml_role = Supplement, ml_outcome = s\<rparr>) sups"
    and sups: "length sups = (if chain_last ec (rt_id root) = None then 0 else 1)"
    and atoms: "length atoms = (if pp = None then 0
         else case content (rt_project_id root) of None \<Rightarrow> 0 | Some lids \<Rightarrow> length lids)"
    by blast
  show ?thesis
  proof (cases "has_chain ec")
    case True
    then have "chain_last ec (rt_id root) \<noteq> None" using chain_last_has_chain [OF assms(1,2)] by simp
    then obtain s where "sups = [s]" using sups by (cases sups) auto
    with True g show ?thesis by (auto simp: group_of_def butlast_append)
  next
    case False
    then have "chain_last ec (rt_id root) = None" using chain_last_has_chain [OF assms(1,2)] by simp
    moreover have "atoms = []" using atoms unfolding content [OF False] by (simp split: if_splits)
    ultimately show ?thesis using False g sups by (auto simp: group_of_def)
  qed
qed

abbreviation group_root :: "materialised_layer list \<Rightarrow> int" where
  "group_root g \<equiv> ml_root_id (hd g)"

text \<open>Groups that hold layers of one root each.\<close>

definition group_for :: "int \<Rightarrow> materialised_layer list \<Rightarrow> bool" where
  "group_for r g \<longleftrightarrow> g \<noteq> [] \<and> (\<forall>m\<in>set g. ml_root_id m = r)"

lemma map_replicate_eqI: "\<forall>m\<in>set g. f m = r \<Longrightarrow> map f g = replicate (length g) r"
  by (induction g) auto

lemma group_for_roots: "list_all2 group_for rs gs \<Longrightarrow> ml_root_id ` set (concat gs) = set rs"
proof (induction rule: list_all2_induct)
  case (Cons r rs g gs)
  then have "ml_root_id ` set g = {r}" by (auto simp: group_for_def neq_Nil_conv)
  with Cons show ?case by (simp add: image_Un)
qed simp

lemma filter_group:
  "list_all2 group_for rs gs \<Longrightarrow> distinct rs \<Longrightarrow> i < length rs \<Longrightarrow>
   filter (\<lambda>m. ml_root_id m = rs ! i) (concat gs) = gs ! i"
proof (induction arbitrary: i rule: list_all2_induct)
  case (Cons r rs g gs)
  have all: "\<forall>m\<in>set g. ml_root_id m = r" using Cons.hyps(1) by (simp add: group_for_def)
  have roots: "ml_root_id ` set (concat gs) = set rs" by (rule group_for_roots [OF Cons.hyps(2)])
  show ?case
  proof (cases i)
    case 0
    have "\<forall>m\<in>set (concat gs). ml_root_id m \<noteq> r" using roots Cons.prems(1) by (metis distinct.simps(2) imageI)
    then have "filter (\<lambda>m. ml_root_id m = r) (concat gs) = []" by (simp only: filter_empty_conv)
    moreover have "filter (\<lambda>m. ml_root_id m = r) g = g" using all by (simp only: filter_id_conv)
    ultimately show ?thesis using 0 by simp
  next
    case (Suc j)
    then have "rs ! j \<noteq> r" using Cons.prems by auto
    then have "filter (\<lambda>m. ml_root_id m = rs ! j) g = []" using all by (auto simp: filter_empty_conv)
    with Suc Cons show ?thesis by simp
  qed
qed simp

lemma sorted_concat_groups:
  "list_all2 group_for rs gs \<Longrightarrow> sorted rs \<Longrightarrow> sorted (map ml_root_id (concat gs))"
proof (induction rule: list_all2_induct)
  case (Cons r rs g gs)
  have "map ml_root_id g = replicate (length g) r"
    using Cons.hyps(1) by (auto simp: group_for_def intro: map_replicate_eqI)
  moreover have "\<forall>x\<in>ml_root_id ` set (concat gs). r \<le> x"
    using Cons.prems unfolding group_for_roots [OF Cons.hyps(2)] by simp
  ultimately show ?case using Cons by (auto simp: sorted_append)
qed simp


lemma partitioned_groups:
  assumes wf: "eph_wf ec" and order: "set order = set (ec_roots ec)" "distinct order"
    and run: "with_partitioned_layers sha now ec bh extra bp sp pp order db = (Inr mls, db')"
  obtains gs where "mls = concat gs" and "list_all2 group_for (root_ids ec) gs"
    and "\<forall>g\<in>set gs. \<exists>root\<in>set (ec_roots ec). group_of ec root g"
proof -
  define content where "content = (if pp \<noteq> None \<and> has_chain ec
                     then eph_content_layers_grouped (ld_objects db) (visible_ids ec) else (\<lambda>p. None))"
  let ?f = "materialise_root sha now ec bh extra bp sp pp content"
  let ?k = "\<lambda>g. case g of [] \<Rightarrow> None | l # _ \<Rightarrow> Some (ml_root_id l)"
  obtain results where rs: "run_roots ?f order db = (results, db')"
    using run by (auto simp: with_partitioned_layers_def Let_def content_def split: prod.splits)
  with run obtain groups where groups: "collect_results results = Inr groups" "mls = concat (sort_key ?k groups)"
    by (auto simp: with_partitioned_layers_def Let_def content_def split: prod.splits sum.splits)
  have res: "results = map Inr groups" using groups(1) by (simp add: collect_results_Inr_iff)
  have len: "length groups = length order" using run_roots_results [OF rs] res by simp
  have each: "group_of ec (order ! i) (groups ! i)" if i: "i < length order" for i
  proof -
    from run_roots_results [OF rs, THEN conjunct2, rule_format, OF i]
    obtain t t' where "?f (order ! i) t = (results ! i, t')" by blast
    moreover have "results ! i = Inr (groups ! i)" using i res len by simp
    ultimately have "?f (order ! i) t = (Inr (groups ! i), t')" by simp
    moreover have "order ! i \<in> set (ec_roots ec)" using nth_mem [OF i] unfolding order(1) .
    moreover have "\<not> has_chain ec \<Longrightarrow> content = (\<lambda>p. None)" by (simp add: content_def)
    ultimately show ?thesis using materialise_root_group [OF wf] by blast
  qed
  have key: "?k g = Some (group_root g)" if "g \<in> set groups" for g
  proof -
    from that obtain i where "i < length groups" "groups ! i = g" unfolding in_set_conv_nth by blast
    then have "g \<noteq> []" using each [of i] len by (simp add: group_of_def)
    then show ?thesis by (cases g) simp_all
  qed
  have roots: "map group_root groups = map rt_id order"
    using each len by (intro nth_equalityI) (auto simp: group_of_def)
  let ?gs = "sort_key ?k groups"
  have "sorted (map ?k ?gs)" by simp
  moreover have "map ?k ?gs = map Some (map group_root ?gs)" using key by simp
  ultimately have "sorted (map Some (map group_root ?gs))" by metis
  then have s: "sorted (map group_root ?gs)" by (simp add: sorted_iff_nth_mono)
  have ids: "distinct (root_ids ec)" "sorted (root_ids ec)"
    using wf by (simp_all add: eph_wf_def roots_wf_def strict_sorted_iff)
  have inj: "inj_on rt_id (set (ec_roots ec))" using ids(1) by (simp add: root_ids_def distinct_map)
  have "distinct (map rt_id order)" using inj order by (simp add: distinct_map)
  then have "distinct (map group_root groups)" by (simp add: roots)
  then have d: "distinct (map group_root ?gs)" by (simp add: distinct_map)
  have "set (map group_root ?gs) = set (map rt_id order)" unfolding roots [symmetric] by simp
  also have "\<dots> = set (root_ids ec)" using order(1) by (simp add: root_ids_def)
  finally have "map group_root ?gs = root_ids ec"
    using s d ids by (intro sorted_distinct_set_unique)
  moreover have "group_for (group_root g) g" if "g \<in> set ?gs" for g
  proof -
    from that obtain i where "i < length groups" "groups ! i = g" unfolding set_sort in_set_conv_nth by blast
    with each [of i] len show ?thesis by (auto simp: group_of_def group_for_def)
  qed
  ultimately have "list_all2 group_for (root_ids ec) ?gs"
    by (metis (no_types, lifting) list.rel_map(1) list_all2_same)
  moreover have "\<forall>g\<in>set ?gs. \<exists>root\<in>set (ec_roots ec). group_of ec root g"
  proof
    fix g assume "g \<in> set ?gs"
    then obtain i where "i < length groups" "groups ! i = g" unfolding set_sort in_set_conv_nth by blast
    with each [of i] len show "\<exists>root\<in>set (ec_roots ec). group_of ec root g"
      using nth_mem [of i order] order(1) by (intro bexI [of _ "order ! i"]) simp_all
  qed
  ultimately show ?thesis using that groups(2) by blast
qed

definition layer_pairs :: "materialised_layer list \<Rightarrow> (int \<times> int) list" where
  "layer_pairs mls = map (\<lambda>m. (ml_root_id m, lo_layer_id (ml_outcome m))) mls"

lemma pushed_to_pairs:
  "pushed_to r (layer_pairs mls) = map (\<lambda>m. lo_layer_id (ml_outcome m)) (filter (\<lambda>m. ml_root_id m = r) mls)"
  by (induction mls) (auto simp: pushed_to_def layer_pairs_def)

lemma partitioned_tips:
  assumes wf: "eph_wf ec" and order: "set order = set (ec_roots ec)" "distinct order"
    and run: "with_partitioned_layers sha now ec bh extra bp sp pp order db = (Inr mls, db')"
  shows "sorted (map ml_root_id mls)" and "ml_root_id ` set mls = set (root_ids ec)"
    and "r \<in> set (root_ids ec) \<Longrightarrow> \<exists>m\<in>set mls. ml_root_id m = r
       \<and> ml_role m = (if has_chain ec then Supplement else Base)
       \<and> last (pushed_to r (layer_pairs mls)) = lo_layer_id (ml_outcome m)"
proof -
  from partitioned_groups [OF assms] obtain gs where gs: "mls = concat gs"
    "list_all2 group_for (root_ids ec) gs" "\<forall>g\<in>set gs. \<exists>root\<in>set (ec_roots ec). group_of ec root g"
    by blast
  have ids: "distinct (root_ids ec)" "sorted (root_ids ec)"
    using wf by (simp_all add: eph_wf_def roots_wf_def strict_sorted_iff)
  show "sorted (map ml_root_id mls)" using sorted_concat_groups [OF gs(2) ids(2)] gs(1) by simp
  show "ml_root_id ` set mls = set (root_ids ec)" using group_for_roots [OF gs(2)] gs(1) by simp
  assume "r \<in> set (root_ids ec)"
  then obtain i where i: "i < length (root_ids ec)" "r = root_ids ec ! i" by (auto simp: in_set_conv_nth)
  have g: "filter (\<lambda>m. ml_root_id m = r) mls = gs ! i"
    using filter_group [OF gs(2) ids(1) i(1)] gs(1) i(2) by simp
  have "gs ! i \<in> set gs" using i(1) gs(2) by (auto dest: list_all2_lengthD)
  then obtain root where "group_of ec root (gs ! i)" using gs(3) by blast
  then have ne: "gs ! i \<noteq> []" and role: "ml_role (last (gs ! i)) = (if has_chain ec then Supplement else Base)"
    by (simp_all add: group_of_def)
  have "last (gs ! i) \<in> set (filter (\<lambda>m. ml_root_id m = r) mls)" unfolding g using ne by simp
  then have "last (gs ! i) \<in> set mls" "ml_root_id (last (gs ! i)) = r" by simp_all
  moreover have "last (pushed_to r (layer_pairs mls)) = lo_layer_id (ml_outcome (last (gs ! i)))"
    unfolding pushed_to_pairs g using ne by (simp add: last_map)
  ultimately show "\<exists>m\<in>set mls. ml_root_id m = r
       \<and> ml_role m = (if has_chain ec then Supplement else Base)
       \<and> last (pushed_to r (layer_pairs mls)) = lo_layer_id (ml_outcome m)"
    using role by blast
qed

subsection \<open>The doomed closure\<close>

definition edges_closed :: "(int \<times> int) list \<Rightarrow> int list \<Rightarrow> bool" where
  "edges_closed edges ds \<longleftrightarrow> (\<forall>(a, b)\<in>set edges. b \<in> set ds \<longrightarrow> a \<in> set ds)"

lemma set_doomed_round: "set (doomed_round edges ds) = set ds \<union> {a. \<exists>b. (a, b) \<in> set edges \<and> b \<in> set ds}"
  by (force simp: doomed_round_def)

lemma doomed_rounds_subset: "set ds \<subseteq> set (doomed_rounds n edges ds)"
  by (induction n arbitrary: ds) (auto simp: set_doomed_round subset_eq)

lemma doomed_rounds_closed:
  "length (filter (\<lambda>e. fst e \<notin> set ds) edges) \<le> n \<Longrightarrow> edges_closed edges (doomed_rounds n edges ds)"
proof (induction n arbitrary: ds)
  case 0
  then show ?case by (auto simp: edges_closed_def filter_empty_conv)
next
  case (Suc n)
  show ?case
  proof (cases "edges_closed edges ds")
    case True
    then have same: "set (doomed_round edges ds) = set ds"
      by (auto simp: set_doomed_round edges_closed_def)
    have "set es = set ds \<Longrightarrow> set (doomed_rounds m edges es) = set ds" for m es
    proof (induction m arbitrary: es)
      case (Suc m)
      have "set (doomed_round edges es) = set ds"
        using True Suc.prems by (auto simp: set_doomed_round edges_closed_def)
      with Suc.IH show ?case by simp
    qed simp
    with same True show ?thesis by (simp add: edges_closed_def)
  next
    case False
    then obtain a b where ab: "(a, b) \<in> set edges" "b \<in> set ds" "a \<notin> set ds"
      by (auto simp: edges_closed_def)
    let ?old = "filter (\<lambda>e. fst e \<notin> set ds) edges"
    let ?new = "filter (\<lambda>e. fst e \<notin> set (doomed_round edges ds)) edges"
    have "?new = filter (\<lambda>e. fst e \<notin> set (doomed_round edges ds)) ?old"
      by (auto simp: set_doomed_round intro: filter_cong)
    moreover have "length (filter (\<lambda>e. fst e \<notin> set (doomed_round edges ds)) ?old) < length ?old"
    proof (rule length_filter_less)
      show "(a, b) \<in> set ?old" using ab by simp
      show "\<not> fst (a, b) \<notin> set (doomed_round edges ds)" using ab by (auto simp: set_doomed_round)
    qed
    ultimately have "length ?new \<le> n" using Suc.prems by simp
    with Suc.IH show ?thesis by simp
  qed
qed

lemma doomed_rounds_reach:
  "x \<in> set (doomed_rounds n edges ds) \<Longrightarrow> \<exists>s\<in>set ds. (x, s) \<in> (set edges)\<^sup>*"
proof (induction n arbitrary: ds)
  case 0
  then show ?case by auto
next
  case (Suc n)
  then obtain s where "s \<in> set (doomed_round edges ds)" "(x, s) \<in> (set edges)\<^sup>*" by auto
  then show ?case by (auto simp: set_doomed_round intro: rtrancl_into_rtrancl)
qed

lemma closed_reach:
  assumes "edges_closed edges ds" "(x, s) \<in> (set edges)\<^sup>*" "s \<in> set ds"
  shows "x \<in> set ds"
  using assms(2,3,1) by (induction rule: converse_rtrancl_induct) (auto simp: edges_closed_def)

lemma doomed_iff:
  "x \<in> set (doomed seed db) \<longleftrightarrow> (\<exists>s\<in>set (doomed_seed seed db). (x, s) \<in> (set (doomed_edges db))\<^sup>*)"
proof
  assume "x \<in> set (doomed seed db)"
  then show "\<exists>s\<in>set (doomed_seed seed db). (x, s) \<in> (set (doomed_edges db))\<^sup>*"
    using doomed_rounds_reach by (simp add: doomed_def Let_def)
next
  assume "\<exists>s\<in>set (doomed_seed seed db). (x, s) \<in> (set (doomed_edges db))\<^sup>*"
  then obtain s where s: "s \<in> set (doomed_seed seed db)" "(x, s) \<in> (set (doomed_edges db))\<^sup>*" by blast
  have "edges_closed (doomed_edges db) (doomed seed db)"
    unfolding doomed_def Let_def by (rule doomed_rounds_closed) simp
  moreover have "s \<in> set (doomed seed db)"
    using s(1) doomed_rounds_subset by (auto simp: doomed_def Let_def)
  ultimately show "x \<in> set (doomed seed db)" using closed_reach s(2) by blast
qed

lemma doomed_closed: "edges_closed (doomed_edges db) (doomed seed db)"
  unfolding doomed_def Let_def by (rule doomed_rounds_closed) simp

text \<open>
  What the schema guarantees: layer ids are keys, ephemeral ids are negative, protected
  layers have no parent and no base, references resolve, and the rows of a protected
  layer only refer to symbols of protected layers.
\<close>

definition references :: "gc_db \<Rightarrow> (int \<times> int) list" where
  "references db = map (\<lambda>i. (in_layer i, in_symbol i)) (gd_instances db)
     @ map (\<lambda>r. (rf_layer r, rf_to_symbol r)) (gd_refs db)"

definition reference_ok :: "gc_db \<Rightarrow> int \<Rightarrow> int \<Rightarrow> bool" where
  "reference_ok db l tgt \<longleftrightarrow> (\<exists>s\<in>set (gd_symbols db). sy_id s = tgt
     \<and> (\<forall>q\<in>set (gd_layers db). lr_id q = l \<and> is_protected q \<longrightarrow>
          (\<forall>q'\<in>set (gd_layers db). lr_id q' = sy_layer s \<longrightarrow> is_protected q')))"

definition gc_wf :: "gc_db \<Rightarrow> bool" where
  "gc_wf db \<longleftrightarrow>
     distinct (map lr_id (gd_layers db)) \<and> distinct (map sy_id (gd_symbols db))
   \<and> (\<forall>r\<in>set (gd_layers db). (\<not> is_protected r \<longrightarrow> lr_id r < 0)
        \<and> (is_protected r \<longrightarrow> lr_parent_id r = None \<and> lr_base_id r = None)
        \<and> (\<forall>p\<in>set_option (lr_parent_id r) \<union> set_option (lr_base_id r). p \<in> lr_id ` set (gd_layers db)))
   \<and> (\<forall>p\<in>set (references db). reference_ok db (fst p) (snd p))"

text \<open>A reference row of a layer that survives keeps its symbol.\<close>

lemma reference_survives:
  assumes wf: "gc_wf db"
    and ref: "(l, tgt) \<in> set (references db)"
    and edge: "\<And>s. s \<in> set (gd_symbols db) \<Longrightarrow> sy_id s = tgt \<Longrightarrow> l < 0 \<Longrightarrow> sy_layer s < 0 \<Longrightarrow> l \<noteq> sy_layer s
        \<Longrightarrow> (l, sy_layer s) \<in> set (doomed_edges db)"
    and layer: "l \<in> lr_id ` set (gd_layers db)"
    and alive: "l \<notin> lr_id ` set (doomed_closure_delete seed db)"
  shows "\<exists>s\<in>set (gd_symbols db). sy_id s = tgt \<and> sy_layer s \<notin> lr_id ` set (doomed_closure_delete seed db)"
proof -
  obtain s where s: "s \<in> set (gd_symbols db)" "sy_id s = tgt"
    "\<forall>q\<in>set (gd_layers db). lr_id q = l \<and> is_protected q \<longrightarrow>
       (\<forall>q'\<in>set (gd_layers db). lr_id q' = sy_layer s \<longrightarrow> is_protected q')"
    using wf ref unfolding gc_wf_def reference_ok_def by fastforce
  have "sy_layer s \<notin> lr_id ` set (doomed_closure_delete seed db)"
  proof
    assume "sy_layer s \<in> lr_id ` set (doomed_closure_delete seed db)"
    then obtain q' where q': "q' \<in> set (gd_layers db)" "lr_id q' = sy_layer s" "sy_layer s \<in> set (doomed seed db)"
      "\<not> is_protected q'"
      by (auto simp: doomed_closure_delete_def Let_def)
    obtain q where q: "q \<in> set (gd_layers db)" "lr_id q = l" using layer by auto
    with s(3) q' have "\<not> is_protected q" by blast
    with q q' wf have neg: "l < 0" "sy_layer s < 0" by (force simp: gc_wf_def)+
    have "l \<in> set (doomed seed db)"
    proof (cases "l = sy_layer s")
      case True
      with q'(3) show ?thesis by simp
    next
      case False
      then have "(l, sy_layer s) \<in> set (doomed_edges db)" using edge s neg by blast
      with doomed_closed [of db seed] q'(3) show ?thesis by (auto simp: edges_closed_def)
    qed
    with q \<open>\<not> is_protected q\<close> alive show False
      by (auto simp: doomed_closure_delete_def Let_def)
  qed
  with s show ?thesis by blast
qed


lemma dead_iff:
  assumes "gc_wf db" "r \<in> set (gd_layers db)"
  shows "lr_id r \<in> lr_id ` set (doomed_closure_delete seed db) \<longleftrightarrow> lr_id r \<in> set (doomed seed db) \<and> \<not> is_protected r"
proof -
  have "inj_on lr_id (set (gd_layers db))" using assms(1) by (simp add: gc_wf_def distinct_map)
  with assms(2) show ?thesis
    unfolding doomed_closure_delete_def Let_def by (auto dest: inj_onD)
qed

lemma protected_alive:
  "gc_wf db \<Longrightarrow> r \<in> set (gd_layers db) \<Longrightarrow> is_protected r \<Longrightarrow>
   lr_id r \<notin> lr_id ` set (doomed_closure_delete seed db)"
  using dead_iff by blast

lemma parent_alive:
  assumes wf: "gc_wf db" and r: "r \<in> set (gd_layers db) \<and> lr_id r \<notin> lr_id ` set (doomed_closure_delete seed db)"
    and p: "lr_parent_id r = Some p \<or> lr_base_id r = Some p"
  shows "p \<in> lr_id ` {q \<in> set (gd_layers db). lr_id q \<notin> lr_id ` set (doomed_closure_delete seed db)}"
proof -
  have "p \<in> lr_id ` set (gd_layers db)" using wf r p by (auto simp: gc_wf_def)
  then obtain q where q: "q \<in> set (gd_layers db)" "lr_id q = p" by auto
  have unprot: "\<not> is_protected r" using wf r p by (auto simp: gc_wf_def)
  have "lr_id q \<notin> lr_id ` set (doomed_closure_delete seed db)"
  proof
    assume "lr_id q \<in> lr_id ` set (doomed_closure_delete seed db)"
    then have "p \<in> set (doomed seed db)" using dead_iff [OF wf q(1)] q(2) by simp
    moreover have "(lr_id r, p) \<in> set (doomed_edges db)"
      using r p by (force simp: doomed_edges_def)
    ultimately have "lr_id r \<in> set (doomed seed db)"
      using doomed_closed [of db seed] by (auto simp: edges_closed_def)
    with dead_iff [OF wf, of r seed] r unprot show False by simp
  qed
  with q show ?thesis by blast
qed

lemma instance_edge:
  "i \<in> set (gd_instances db) \<Longrightarrow> s \<in> set (gd_symbols db) \<Longrightarrow> sy_id s = in_symbol i \<Longrightarrow> in_layer i < 0 \<Longrightarrow>
   sy_layer s < 0 \<Longrightarrow> in_layer i \<noteq> sy_layer s \<Longrightarrow> (in_layer i, sy_layer s) \<in> set (doomed_edges db)"
  by (force simp: doomed_edges_def)

lemma ref_edge:
  "i \<in> set (gd_refs db) \<Longrightarrow> s \<in> set (gd_symbols db) \<Longrightarrow> sy_id s = rf_to_symbol i \<Longrightarrow> rf_layer i < 0 \<Longrightarrow>
   sy_layer s < 0 \<Longrightarrow> rf_layer i \<noteq> sy_layer s \<Longrightarrow> (rf_layer i, sy_layer s) \<in> set (doomed_edges db)"
  by (force simp: doomed_edges_def)

subsection \<open>Properties\<close>

text \<open>
  C32. The three kinds of layer key hash byte streams that determine their inputs and
  that never coincide between kinds, for hashes of 32 bytes, ids that are \<open>i64\<close> and
  lengths below \<open>2^64\<close>: two different (parent, base, extra), (layer, base) or (root hash,
  base) always feed the hasher different bytes.
\<close>

theorem layer_keys_injective:
  assumes "length b = 32" "length b' = 32" "is_i64 i" "is_i64 i'"
    and "length x < 2 ^ 64" "length x' < 2 ^ 64"
    and "length (rt_hash r) < 2 ^ 64" "length (rt_hash r') < 2 ^ 64"
  shows "(supplement_bytes i b x = supplement_bytes i' b' x' \<longrightarrow> i = i' \<and> b = b' \<and> x = x')
    \<and> (per_layer_bytes i b = per_layer_bytes i' b' \<longrightarrow> i = i' \<and> b = b')
    \<and> (root_salted_bytes r b = root_salted_bytes r' b' \<longrightarrow> rt_hash r = rt_hash r' \<and> b = b')
    \<and> supplement_bytes i b x \<noteq> per_layer_bytes i' b'
    \<and> supplement_bytes i b x \<noteq> root_salted_bytes r b'
    \<and> per_layer_bytes i b \<noteq> root_salted_bytes r b'"
proof (intro conjI impI)
  assume "supplement_bytes i b x = supplement_bytes i' b' x'"
  then have "i = i' \<and> b @ le_bytes 8 (int (length x)) @ x = b' @ le_bytes 8 (int (length x')) @ x'"
    using assms by (intro le8_split) (simp_all add: supplement_bytes_def)
  moreover from this have "b = b' \<and> le_bytes 8 (int (length x)) @ x = le_bytes 8 (int (length x')) @ x'"
    using assms(1,2) by (intro append_eq_len) simp_all
  moreover from this have "length x = length x' \<and> x = x'"
    using assms by (intro le8_len_split) simp_all
  ultimately show "i = i'" "b = b'" "x = x'" by blast+
next
  assume "per_layer_bytes i b = per_layer_bytes i' b'"
  then have "i = i' \<and> b = b'" using assms by (intro le8_split) (simp_all add: per_layer_bytes_def)
  then show "i = i'" "b = b'" by simp_all
next
  assume "root_salted_bytes r b = root_salted_bytes r' b'"
  then have "length (rt_hash r) = length (rt_hash r') \<and> rt_hash r @ b = rt_hash r' @ b'"
    using assms by (intro le8_len_split) (simp_all add: root_salted_bytes_def)
  then show "rt_hash r = rt_hash r'" "b = b'" using append_eq_len by blast+
qed (simp_all add: supplement_bytes_def per_layer_bytes_def root_salted_bytes_def)

theorem layer_keys_injective_witness:
  "supplement_bytes (-1) (replicate 32 CHR ''a'') [] \<noteq> supplement_bytes (-2) (replicate 32 CHR ''a'') []"
  using layer_keys_injective [of "replicate 32 CHR ''a''" "replicate 32 CHR ''a''" "-1" "-2" "[]" "[]"
      "\<lparr>rt_id = 1, rt_project_id = 1, rt_hash = []\<rparr>" "\<lparr>rt_id = 1, rt_project_id = 1, rt_hash = []\<rparr>"]
  by (simp add: is_i64_def i64_min_def i64_max_def)

text \<open>
  C14. The populate-and-commit protocol: it preserves the table invariant (unique hashes,
  every committed row populated); an error leaves rows and data as they were; after a
  success the key is in the table, populated, with the outcome's id and truncation flag;
  a hit changes no data; and the same key again is a hit with the same id and flag,
  whatever populate it is given.
\<close>

theorem with_eph_layer_two_phase:
  assumes "layer_db_wf db" and "with_eph_layer now p b h k body db = (r, db')"
  shows "layer_db_wf db' \<and>
    (case r of
       Inl e \<Rightarrow> ld_rows db' = ld_rows db \<and> ld_data db' = ld_data db
     | Inr out \<Rightarrow>
         (\<exists>q. find_layer h (ld_rows db') = Some q \<and> lr_id q = lo_layer_id out \<and> lr_populated q
             \<and> lr_truncated q = lo_truncated out)
         \<and> (\<not> lo_created out \<longrightarrow> ld_data db' = ld_data db)
         \<and> (\<exists>db2. with_eph_layer now' p' b' h k' body' db' =
               (Inr \<lparr>lo_layer_id = lo_layer_id out, lo_created = False, lo_truncated = lo_truncated out\<rparr>, db2)
               \<and> ld_data db2 = ld_data db'))"
proof (cases r)
  case (Inl e)
  from assms have "ld_rows db' = ld_rows db \<and> ld_data db' = ld_data db"
    by (cases rule: with_eph_layer_cases) (use Inl in auto)
  with Inl with_eph_layer_wf [OF assms] show ?thesis by simp
next
  case (Inr out)
  have run: "with_eph_layer now p b h k body db = (Inr out, db')" using assms(2) Inr by simp
  from assms have "\<not> lo_created out \<longrightarrow> ld_data db' = ld_data db"
    by (cases rule: with_eph_layer_cases) (use Inr in auto)
  with Inr with_eph_layer_wf [OF assms] with_eph_layer_found [OF assms(1) run]
    with_eph_layer_again [OF assms(1) run, of now' p' b' k' body']
  show ?thesis by simp
qed

definition demo_layer_db :: "nat layer_db" where
  "demo_layer_db = \<lparr>ld_rows = [\<lparr>lr_id = 7, lr_parent_id = None, lr_base_id = None, lr_hash = ''root'',
     lr_kind = Root, lr_populated = True, lr_truncated = False, lr_last_used = 0\<rparr>],
     ld_next = -1, ld_objects = [], ld_data = 0\<rparr>"

theorem with_eph_layer_two_phase_witness:
  "\<exists>db'. with_eph_layer 5 (Some 7) None ''h'' Ephemeral (\<lambda>i d. Inr (True, d + 1)) demo_layer_db
     = (Inr \<lparr>lo_layer_id = -1, lo_created = True, lo_truncated = True\<rparr>, db')
   \<and> layer_db_wf db' \<and> find_layer ''h'' (ld_rows db') \<noteq> None"
proof -
  let ?run = "with_eph_layer 5 (Some 7) None ''h'' Ephemeral (\<lambda>i d. Inr (True, d + 1)) demo_layer_db"
  have wf: "layer_db_wf demo_layer_db" by (simp add: layer_db_wf_def demo_layer_db_def)
  have "fst ?run = Inr \<lparr>lo_layer_id = -1, lo_created = True, lo_truncated = True\<rparr>"
    by (simp add: with_eph_layer_def create_eph_layer_def demo_layer_db_def find_layer_def fk_ok_def Let_def)
  then have run: "?run = (Inr \<lparr>lo_layer_id = -1, lo_created = True, lo_truncated = True\<rparr>, snd ?run)"
    by (metis prod.collapse)
  from with_eph_layer_two_phase [OF wf run, of 0 None None Root "\<lambda>i d. Inl []"] run
  show ?thesis by auto
qed

text \<open>
  C31. Materialising a verb on every root, in whatever order the roots complete: the
  result is sorted by root and names exactly the visible roots, so pushing it as one
  round never panics; and the tip each root's next supplement chains on is the
  supplement of this round (the base when the request had no chain yet), never a
  per-layer atom.
\<close>

theorem materialised_round_pushes:
  assumes "eph_wf ec" and "set order = set (ec_roots ec)" "distinct order"
    and "with_partitioned_layers sha now ec bh extra bp sp pp order db = (Inr mls, db')"
  shows "sorted (map ml_root_id mls)
    \<and> (\<exists>ec'. push_round ec (layer_pairs mls) = Some ec' \<and> eph_wf ec'
        \<and> (\<forall>r\<in>set (root_ids ec). \<exists>m\<in>set mls. ml_root_id m = r
              \<and> ml_role m = (if has_chain ec then Supplement else Base)
              \<and> chain_last ec' r = Some (lo_layer_id (ml_outcome m))))"
proof -
  have "fst ` set (layer_pairs mls) = set (root_ids ec)"
    using partitioned_tips(2) [OF assms] by (force simp: layer_pairs_def)
  then obtain ec' where ec': "push_round ec (layer_pairs mls) = Some ec'"
    using push_round_Some_iff [of ec "layer_pairs mls"] by auto
  have wf: "roots_wf ec" using assms(1) by (simp add: eph_wf_def)
  have tip: "chain_last ec' r = Some (last (pushed_to r (layer_pairs mls)))" if "r \<in> set (root_ids ec)" for r
    by (rule push_round_chain_last [OF ec' wf that])
  show ?thesis
    using partitioned_tips(1,3) [OF assms] ec' push_round_wf [OF ec' wf] tip by fastforce
qed

theorem materialised_round_pushes_witness:
  "\<exists>mls db' ec'. with_partitioned_layers (\<lambda>x. x) 5 (rooted [\<lparr>rt_id = 7, rt_project_id = 1, rt_hash = []\<rparr>]) ''b'' []
       (\<lambda>r i d. Inr (False, d)) (\<lambda>r b i d. Inr (False, d)) None [\<lparr>rt_id = 7, rt_project_id = 1, rt_hash = []\<rparr>]
       demo_layer_db = (Inr mls, db')
   \<and> push_round (rooted [\<lparr>rt_id = 7, rt_project_id = 1, rt_hash = []\<rparr>]) (layer_pairs mls) = Some ec'"
proof -
  let ?r = "\<lparr>rt_id = 7, rt_project_id = 1, rt_hash = []\<rparr>"
  let ?run = "with_partitioned_layers (\<lambda>x. x) 5 (rooted [?r]) ''b'' [] (\<lambda>r i d. Inr (False, d))
     (\<lambda>r b i d. Inr (False, d)) None [?r] demo_layer_db"
  have roots: "ec_roots (rooted [?r]) = [?r]" by (simp add: rooted_def Let_def)
  have "isl (fst ?run) = False"
    by (simp add: with_partitioned_layers_def materialise_root_def Let_def sbind_def sreturn_def
        with_eph_layer_def create_eph_layer_def demo_layer_db_def find_layer_def fk_ok_def
        root_salted_hash_def root_salted_bytes_def rooted_def chain_last_def root_index_def has_chain_def)
  then obtain mls db' where run: "?run = (Inr mls, db')"
    by (cases ?run) (metis (full_types) fst_conv isl_def sum.exhaust)
  have o: "set [?r] = set (ec_roots (rooted [?r]))" "distinct [?r]" by (simp_all add: roots)
  from materialised_round_pushes [OF rooted_wf o run] run show ?thesis by blast
qed

text \<open>
  Garbage collection by the doomed closure deletes exactly the unprotected layers from
  which a seed can be reached along instance, reference, parent and base edges, and
  leaves no hollow layer: every protected layer survives, a surviving layer's parent and
  base survive, and the cascades remove no row of a surviving layer.
\<close>

theorem gc_leaves_no_hollow_layer:
  fixes seed :: "layer_row \<Rightarrow> bool"
  assumes "gc_wf db"
  defines "dead \<equiv> doomed_closure_delete seed db"
  defines "db' \<equiv> cascade dead db"
  shows "set dead = {r \<in> set (gd_layers db). \<not> is_protected r
            \<and> (\<exists>s\<in>set (doomed_seed seed db). (lr_id r, s) \<in> (set (doomed_edges db))\<^sup>*)}
    \<and> (\<forall>r\<in>set (gd_layers db). is_protected r \<longrightarrow> r \<in> set (gd_layers db'))
    \<and> (\<forall>r\<in>set (gd_layers db'). \<forall>p. lr_parent_id r = Some p \<or> lr_base_id r = Some p
          \<longrightarrow> p \<in> lr_id ` set (gd_layers db'))
    \<and> (\<forall>i\<in>set (gd_instances db). in_layer i \<in> lr_id ` set (gd_layers db') \<longrightarrow> i \<in> set (gd_instances db'))
    \<and> (\<forall>i\<in>set (gd_refs db). rf_layer i \<in> lr_id ` set (gd_layers db') \<longrightarrow> i \<in> set (gd_refs db'))"
proof -
  have survivors: "l \<in> lr_id ` set (gd_layers db') \<Longrightarrow> l \<in> lr_id ` set (gd_layers db) \<and> l \<notin> lr_id ` set dead" for l
    unfolding db'_def cascade_def Let_def by fastforce
  show ?thesis
  proof (intro conjI ballI allI impI)
  show "set dead = {r \<in> set (gd_layers db). \<not> is_protected r
            \<and> (\<exists>s\<in>set (doomed_seed seed db). (lr_id r, s) \<in> (set (doomed_edges db))\<^sup>*)}"
    unfolding dead_def doomed_closure_delete_def Let_def by (auto simp: doomed_iff)
next
  fix r assume "r \<in> set (gd_layers db)" "is_protected r"
  then show "r \<in> set (gd_layers db')"
    using protected_alive [OF assms(1)] by (simp add: db'_def dead_def cascade_def Let_def)
next
  fix r p assume "r \<in> set (gd_layers db')" "lr_parent_id r = Some p \<or> lr_base_id r = Some p"
  then show "p \<in> lr_id ` set (gd_layers db')"
    using parent_alive [OF assms(1)] by (simp add: db'_def dead_def cascade_def Let_def)
next
  fix i assume i: "i \<in> set (gd_instances db)" "in_layer i \<in> lr_id ` set (gd_layers db')"
  have "(in_layer i, in_symbol i) \<in> set (references db)" using i by (force simp: references_def)
  moreover have "in_layer i \<in> lr_id ` set (gd_layers db)" "in_layer i \<notin> lr_id ` set dead"
    using survivors i(2) by blast+
  ultimately obtain s where "s \<in> set (gd_symbols db)" "sy_id s = in_symbol i" "sy_layer s \<notin> lr_id ` set dead"
    using reference_survives [OF assms(1), of "in_layer i" "in_symbol i" seed] i(1) instance_edge [of i db]
    unfolding dead_def by metis
  with i(1) \<open>in_layer i \<notin> _\<close> show "i \<in> set (gd_instances db')"
    by (auto simp: db'_def cascade_def Let_def list_ex_iff)
next
  fix i assume i: "i \<in> set (gd_refs db)" "rf_layer i \<in> lr_id ` set (gd_layers db')"
  have "(rf_layer i, rf_to_symbol i) \<in> set (references db)" using i by (force simp: references_def)
  moreover have "rf_layer i \<in> lr_id ` set (gd_layers db)" "rf_layer i \<notin> lr_id ` set dead"
    using survivors i(2) by blast+
  ultimately obtain s where "s \<in> set (gd_symbols db)" "sy_id s = rf_to_symbol i" "sy_layer s \<notin> lr_id ` set dead"
    using reference_survives [OF assms(1), of "rf_layer i" "rf_to_symbol i" seed] i(1) ref_edge [of i db]
    unfolding dead_def by metis
  with i(1) \<open>rf_layer i \<notin> _\<close> show "i \<in> set (gd_refs db')"
    by (auto simp: db'_def cascade_def Let_def list_ex_iff)
  qed
qed

definition demo_gc_db :: gc_db where
  "demo_gc_db = \<lparr>gd_layers =
     [\<lparr>lr_id = 7, lr_parent_id = None, lr_base_id = None, lr_hash = ''root'', lr_kind = Root,
       lr_populated = True, lr_truncated = False, lr_last_used = 0\<rparr>,
      \<lparr>lr_id = -1, lr_parent_id = Some 7, lr_base_id = None, lr_hash = ''a'', lr_kind = Ephemeral,
       lr_populated = True, lr_truncated = False, lr_last_used = 0\<rparr>,
      \<lparr>lr_id = -2, lr_parent_id = Some (-1), lr_base_id = None, lr_hash = ''b'', lr_kind = Ephemeral,
       lr_populated = True, lr_truncated = False, lr_last_used = 9\<rparr>],
     gd_symbols = [sample_symbol (-1)], gd_instances = [sample_instance (-2)], gd_refs = []\<rparr>"

theorem gc_leaves_no_hollow_layer_witness:
  "sample_instance (-2) \<in> set (gd_instances (cascade (delete_eph_layer (-9) demo_gc_db) demo_gc_db))
   \<and> map lr_id (delete_eph_layer (-1) demo_gc_db) = [-1, -2]"
proof -
  have "gc_wf demo_gc_db" by code_simp
  moreover have "sample_instance (-2) \<in> set (gd_instances demo_gc_db)"
    "in_layer (sample_instance (-2)) \<in> lr_id ` set (gd_layers (cascade (delete_eph_layer (-9) demo_gc_db) demo_gc_db))"
    by code_simp+
  moreover have "map lr_id (delete_eph_layer (-1) demo_gc_db) = [-1, -2]" by code_simp
  ultimately show ?thesis
    using gc_leaves_no_hollow_layer [of demo_gc_db "\<lambda>r. lr_id r = -9"] by (simp add: delete_eph_layer_def)
qed

end
