(* ===== verification/Diagnostics.thy ===== *)
theory Diagnostics
  imports Line_Index "HOL-Library.Product_Lexorder"
begin

section \<open>Spans and diagnostics\<close>

text \<open>
  \<open>askld/src/span.rs\<close>, \<open>askld/src/diagnostic.rs\<close> and the collapsing of warnings in
  \<open>askld/src/statement/mod.rs\<close> (\<open>gather_warnings\<close>).  Slicing a string out of range is
  \<open>None\<close>, the panic of the source.
\<close>

record span =
  sp_input :: string
  sp_start :: nat
  sp_end :: nat

definition span_entire :: "string \<Rightarrow> span" where
  "span_entire input = \<lparr>sp_input = input, sp_start = 0, sp_end = length input\<rparr>"

definition span_synthetic :: "string \<Rightarrow> span" where
  "span_synthetic input = \<lparr>sp_input = input, sp_start = 0, sp_end = length input\<rparr>"

definition slice :: "'a list \<Rightarrow> nat \<Rightarrow> nat \<Rightarrow> 'a list option" where
  "slice xs a b = (if a \<le> b \<and> b \<le> length xs then Some (take (b - a) (drop a xs)) else None)"

definition span_as_str :: "span \<Rightarrow> string option" where
  "span_as_str s = slice (sp_input s) (sp_start s) (sp_end s)"

definition sub_span :: "span \<Rightarrow> nat \<Rightarrow> nat \<Rightarrow> span" where
  "sub_span s a b = \<lparr>sp_input = sp_input s, sp_start = a, sp_end = b\<rparr>"

text \<open>\<open>str::find\<close> and \<open>str::rfind\<close> of one character.\<close>

fun find_char :: "'a \<Rightarrow> 'a list \<Rightarrow> nat option" where
  "find_char c [] = None"
| "find_char c (d # ds) = (if d = c then Some 0 else map_option Suc (find_char c ds))"

definition rfind_char :: "'a \<Rightarrow> 'a list \<Rightarrow> nat option" where
  "rfind_char c s = map_option (\<lambda>i. length s - 1 - i) (find_char c (rev s))"

definition span_line_text :: "span \<Rightarrow> string option" where
  "span_line_text s =
     (if sp_start s \<le> length (sp_input s) then
        (let line_start = (case rfind_char newline (take (sp_start s) (sp_input s)) of
                             Some i \<Rightarrow> i + 1 | None \<Rightarrow> 0);
             line_end = (case find_char newline (drop (sp_start s) (sp_input s)) of
                           Some i \<Rightarrow> sp_start s + i | None \<Rightarrow> length (sp_input s))
         in slice (sp_input s) line_start line_end)
      else None)"

datatype diagnostic_kind = NoMatch | Note

record diagnostic =
  dg_span :: span
  dg_kind :: diagnostic_kind
  dg_message :: string
  dg_token :: "string option"
  dg_suggestions :: "string list"
  dg_name_exists :: bool

definition diagnostic_no_match :: "span \<Rightarrow> string option \<Rightarrow> diagnostic option" where
  "diagnostic_no_match sp token =
     (case span_as_str sp of
        None \<Rightarrow> None
      | Some text \<Rightarrow> Some \<lparr>dg_span = sp, dg_kind = NoMatch,
          dg_message = [CHR 0x60] @ trim text @ [CHR 0x60] @ '' matched no symbols'',
          dg_token = token, dg_suggestions = [], dg_name_exists = False\<rparr>)"

definition diagnostic_note :: "span \<Rightarrow> string \<Rightarrow> diagnostic" where
  "diagnostic_note sp message = \<lparr>dg_span = sp, dg_kind = Note, dg_message = message,
     dg_token = None, dg_suggestions = [], dg_name_exists = False\<rparr>"

definition dg_start :: "diagnostic \<Rightarrow> nat" where "dg_start d = sp_start (dg_span d)"
definition dg_end :: "diagnostic \<Rightarrow> nat" where "dg_end d = sp_end (dg_span d)"

definition kind_rank :: "diagnostic \<Rightarrow> nat" where
  "kind_rank d = (case dg_kind d of NoMatch \<Rightarrow> 0 | Note \<Rightarrow> 1)"

text \<open>One round of the collapsing loop.\<close>

definition gather_step :: "diagnostic list \<Rightarrow> diagnostic \<Rightarrow> diagnostic list" where
  "gather_step filtered w =
     (if filtered \<noteq> [] \<and> dg_end (last filtered) \<ge> dg_start w then
        (if dg_kind w = NoMatch \<and> dg_kind (last filtered) = Note then butlast filtered @ [w] else filtered)
      else filtered @ [w])"

definition gather_warnings :: "diagnostic list list \<Rightarrow> diagnostic list" where
  "gather_warnings per_statement =
     foldl gather_step [] (sort_key (\<lambda>d. (dg_start d, kind_rank d)) (concat per_statement))"

text \<open>
  The enrichment of \<open>NoMatch\<close> warnings (\<open>enrich_no_match_suggestions\<close>): the index's two
  look-ups are parameters, \<open>None\<close> for a failed query.
\<close>

definition enrich_no_match ::
  "int list \<Rightarrow> (string \<Rightarrow> bool option) \<Rightarrow> (string \<Rightarrow> string list option) \<Rightarrow> diagnostic list \<Rightarrow> diagnostic list" where
  "enrich_no_match project_ids has_symbol suggest warnings =
     (if project_ids = [] then warnings
      else map (\<lambda>w.
        if dg_kind w \<noteq> NoMatch then w
        else (case dg_token w of
                None \<Rightarrow> w
              | Some token \<Rightarrow>
                  (case has_symbol token of
                     None \<Rightarrow> w
                   | Some True \<Rightarrow> w\<lparr>dg_name_exists := True\<rparr>
                   | Some False \<Rightarrow>
                       (case suggest token of None \<Rightarrow> w | Some names \<Rightarrow> w\<lparr>dg_suggestions := names\<rparr>))))
        warnings)"

subsection \<open>Lines\<close>

lemma find_char_Some:
  "find_char c s = Some i \<Longrightarrow> i < length s \<and> s ! i = c \<and> c \<notin> set (take i s)"
  by (induction s arbitrary: i) (auto split: if_splits)

lemma find_char_None: "find_char c s = None \<longleftrightarrow> c \<notin> set s"
  by (induction s) auto

lemma rfind_char_Some:
  assumes "rfind_char c s = Some i"
  shows "i < length s \<and> s ! i = c \<and> c \<notin> set (drop (Suc i) s)"
proof -
  from assms obtain j where j: "find_char c (rev s) = Some j" "i = length s - 1 - j"
    by (auto simp: rfind_char_def)
  from find_char_Some [OF j(1)] have f: "j < length s" "rev s ! j = c" "c \<notin> set (take j (rev s))" by simp_all
  have "take j (rev s) = rev (drop (length s - j) s)" using f(1) by (simp add: rev_drop)
  moreover have "length s - j = Suc i" using f(1) j(2) by simp
  ultimately have "c \<notin> set (drop (Suc i) s)" using f(3) by simp
  with f j(2) show ?thesis by (auto simp: rev_nth)
qed

lemma rfind_char_None: "rfind_char c s = None \<longleftrightarrow> c \<notin> set s"
  by (simp add: rfind_char_def find_char_None)

lemma slice_split:
  "slice xs a b = Some ys \<Longrightarrow> xs = take a xs @ ys @ drop b xs"
  by (auto simp: slice_def split: if_splits)
     (metis append_take_drop_id drop_drop le_add_diff_inverse2)

subsection \<open>Collapsing\<close>

text \<open>What holds after the loop went through the warnings \<open>seen\<close>.\<close>

definition gather_inv :: "diagnostic list \<Rightarrow> diagnostic list \<Rightarrow> bool" where
  "gather_inv seen kept \<longleftrightarrow> set kept \<subseteq> set seen
     \<and> sorted_wrt (\<lambda>a b. dg_end a < dg_start b) kept
     \<and> (\<forall>w\<in>set seen. dg_kind w = NoMatch \<longrightarrow>
          (\<exists>m\<in>set kept. dg_kind m = NoMatch \<and> dg_start m \<le> dg_start w \<and> dg_start w \<le> dg_end m))"

lemma gather_step_inv:
  assumes inv: "gather_inv seen kept" and sorted: "\<forall>d\<in>set seen. dg_start d \<le> dg_start w"
    and wf: "\<forall>d\<in>set (w # seen). dg_start d \<le> dg_end d"
  shows "gather_inv (seen @ [w]) (gather_step kept w)"
proof (cases "kept = []")
  case True
  with inv wf show ?thesis by (auto simp: gather_inv_def gather_step_def)
next
  case False
  then obtain ks l where kept: "kept = ks @ [l]" by (metis append_butlast_last_id)
  have l: "l \<in> set seen" "dg_start l \<le> dg_start w" "dg_start l \<le> dg_end l"
    using inv sorted wf kept by (auto simp: gather_inv_def)
  have sep: "sorted_wrt (\<lambda>a b. dg_end a < dg_start b) ks" "\<forall>a\<in>set ks. dg_end a < dg_start l"
    using inv kept by (auto simp: gather_inv_def sorted_wrt_append)
  have cover: "\<exists>m\<in>set kept. dg_kind m = NoMatch \<and> dg_start m \<le> dg_start d \<and> dg_start d \<le> dg_end m"
    if "d \<in> set seen" "dg_kind d = NoMatch" for d
    using inv that by (auto simp: gather_inv_def)
  consider (apart) "dg_end l < dg_start w" | (displace) "dg_end l \<ge> dg_start w" "dg_kind w = NoMatch" "dg_kind l = Note"
    | (drop) "dg_end l \<ge> dg_start w" "dg_kind w = Note \<or> dg_kind l = NoMatch"
    by (metis diagnostic_kind.exhaust linorder_not_less)
  then show ?thesis
  proof cases
    case apart
    then have "gather_step kept w = kept @ [w]" by (simp add: gather_step_def kept)
    moreover have "\<forall>a\<in>set kept. dg_end a < dg_start w" using sep(2) l apart kept by fastforce
    ultimately show ?thesis
      using inv wf cover by (auto simp: gather_inv_def sorted_wrt_append)
  next
    case displace
    then have step: "gather_step kept w = ks @ [w]" by (simp add: gather_step_def kept)
    have "\<exists>m\<in>set (ks @ [w]). dg_kind m = NoMatch \<and> dg_start m \<le> dg_start d \<and> dg_start d \<le> dg_end m"
      if "d \<in> set (seen @ [w])" "dg_kind d = NoMatch" for d
    proof (cases "d = w")
      case True
      with that wf show ?thesis by auto
    next
      case False
      with that obtain m where "m \<in> set kept" "dg_kind m = NoMatch" "dg_start m \<le> dg_start d" "dg_start d \<le> dg_end m"
        using cover by auto
      with displace(3) kept show ?thesis by auto
    qed
    moreover have "\<forall>a\<in>set ks. dg_end a < dg_start w" using sep(2) l(2) by fastforce
    ultimately show ?thesis
      using inv sep(1) kept unfolding step by (auto simp: gather_inv_def sorted_wrt_append)
  next
    case drop
    then have step: "gather_step kept w = kept" by (auto simp: gather_step_def kept)
    have "\<exists>m\<in>set kept. dg_kind m = NoMatch \<and> dg_start m \<le> dg_start w \<and> dg_start w \<le> dg_end m"
      if "dg_kind w = NoMatch"
      using that drop l(2) kept by auto
    then show ?thesis using inv unfolding step by (auto simp: gather_inv_def)
  qed
qed

lemma gather_fold_inv:
  "sorted (map dg_start (seen @ ws)) \<Longrightarrow> \<forall>d\<in>set (seen @ ws). dg_start d \<le> dg_end d \<Longrightarrow>
   gather_inv seen kept \<Longrightarrow> gather_inv (seen @ ws) (foldl gather_step kept ws)"
proof (induction ws arbitrary: seen kept)
  case (Cons w ws)
  have "gather_inv (seen @ [w]) (gather_step kept w)"
    using Cons.prems by (intro gather_step_inv) (auto simp: sorted_append)
  with Cons.IH [of "seen @ [w]" "gather_step kept w"] Cons.prems show ?case by simp
qed simp

lemma sorted_fst_key: "sorted (map (\<lambda>d. (f d, g d)) ds) \<Longrightarrow> sorted (map f ds)"
  by (induction ds) (auto simp: less_eq_prod_def)

subsection \<open>Properties\<close>

text \<open>
  The line text of a span that starts inside its source is the whole source line
  holding the start: it has no newline, and it is bounded on each side by the end of the
  text or a newline.
\<close>

theorem span_line_text_is_line:
  assumes "sp_start s \<le> length (sp_input s)"
  shows "\<exists>before line after. span_line_text s = Some line \<and> sp_input s = before @ line @ after
    \<and> newline \<notin> set line \<and> length before \<le> sp_start s \<and> sp_start s \<le> length before + length line
    \<and> (before = [] \<or> last before = newline) \<and> (after = [] \<or> hd after = newline)"
proof -
  let ?in = "sp_input s" and ?n = "sp_start s"
  define a where "a = (case rfind_char newline (take ?n ?in) of Some i \<Rightarrow> i + 1 | None \<Rightarrow> 0)"
  define b where "b = (case find_char newline (drop ?n ?in) of Some i \<Rightarrow> ?n + i | None \<Rightarrow> length ?in)"
  have a: "a \<le> ?n" "newline \<notin> set (drop a (take ?n ?in))" "a = 0 \<or> ?in ! (a - 1) = newline"
  proof -
    have "a \<le> ?n \<and> newline \<notin> set (drop a (take ?n ?in)) \<and> (a = 0 \<or> ?in ! (a - 1) = newline)"
    proof (cases "rfind_char newline (take ?n ?in)")
      case None
      then have "newline \<notin> set (take ?n ?in)" by (simp add: rfind_char_None)
      moreover have "a = 0" using None by (simp only: a_def option.case)
      ultimately show ?thesis by simp
    next
      case (Some i)
      then have "i < ?n" "take ?n ?in ! i = newline" "newline \<notin> set (drop (Suc i) (take ?n ?in))"
        using rfind_char_Some [OF Some] by auto
      with Some show ?thesis by (simp add: a_def)
    qed
    then show "a \<le> ?n" "newline \<notin> set (drop a (take ?n ?in))" "a = 0 \<or> ?in ! (a - 1) = newline" by blast+
  qed
  have b: "?n \<le> b" "b \<le> length ?in" "newline \<notin> set (take (b - ?n) (drop ?n ?in))"
    "b = length ?in \<or> ?in ! b = newline"
  proof -
    have "?n \<le> b \<and> b \<le> length ?in \<and> newline \<notin> set (take (b - ?n) (drop ?n ?in)) \<and> (b = length ?in \<or> ?in ! b = newline)"
    proof (cases "find_char newline (drop ?n ?in)")
      case None
      then have "newline \<notin> set (drop ?n ?in)" by (simp add: find_char_None)
      moreover have "b = length ?in" using None by (simp only: b_def option.case)
      ultimately show ?thesis using assms by simp
    next
      case (Some i)
      then have "i < length ?in - ?n" "?in ! (?n + i) = newline" "newline \<notin> set (take i (drop ?n ?in))"
        using find_char_Some [OF Some] by auto
      with Some assms show ?thesis by (simp add: b_def)
    qed
    then show "?n \<le> b" "b \<le> length ?in" "newline \<notin> set (take (b - ?n) (drop ?n ?in))"
      "b = length ?in \<or> ?in ! b = newline" by blast+
  qed
  let ?line = "take (b - a) (drop a ?in)"
  have result: "span_line_text s = Some ?line"
    using assms a b by (simp add: span_line_text_def slice_def a_def [symmetric] b_def [symmetric])
  have "?line = drop a (take ?n ?in) @ take (b - ?n) (drop ?n ?in)"
  proof -
    have "b - a = (?n - a) + (b - ?n)" using a(1) b(1) by simp
    then have "?line = take (?n - a) (drop a ?in) @ take (b - ?n) (drop (?n - a) (drop a ?in))"
      by (simp only: take_add)
    then show ?thesis using a(1) by (simp add: drop_take)
  qed
  then have "newline \<notin> set ?line" using a(2) b(3) by simp
  moreover have "?in = take a ?in @ ?line @ drop b ?in"
    using slice_split [of ?in a b ?line] a b by (simp add: slice_def)
  moreover have "a = 0 \<or> last (take a ?in) = newline"
  proof (cases "a = 0")
    case False
    then have "take a ?in \<noteq> []" using a(1) assms by auto
    then have "last (take a ?in) = ?in ! (a - 1)" using a(1) assms False by (simp add: last_conv_nth)
    with a(3) show ?thesis by simp
  qed simp
  moreover have "b = length ?in \<or> hd (drop b ?in) = newline"
    using b(2,4) by (metis hd_drop_conv_nth le_neq_implies_less)
  moreover have "length (take a ?in) \<le> ?n \<and> ?n \<le> length (take a ?in) + length ?line"
    using a(1) b(1,2) assms by simp
  ultimately show ?thesis using result
    by (intro exI [of _ "take a ?in"] exI [of _ ?line] exI [of _ "drop b ?in"]) auto
qed

theorem span_line_text_is_line_witness:
  "\<exists>line. span_line_text (span_entire ''ab'') = Some line \<and> newline \<notin> set line"
  using span_line_text_is_line [of "span_entire ''ab''"] by (auto simp: span_entire_def)

text \<open>
  C36. Collapsing the warnings of all statements: what is kept comes from the input, no two
  kept warnings touch, and a \<open>NoMatch\<close> (which carries the suggestions) is only ever
  dropped in favour of a kept \<open>NoMatch\<close> that covers its start, never of a note.
\<close>

theorem gather_warnings_kept:
  assumes "\<forall>d\<in>set (concat per_statement). dg_start d \<le> dg_end d"
  shows "set (gather_warnings per_statement) \<subseteq> set (concat per_statement)
    \<and> sorted_wrt (\<lambda>a b. dg_end a < dg_start b) (gather_warnings per_statement)
    \<and> (\<forall>w\<in>set (concat per_statement). dg_kind w = NoMatch \<longrightarrow>
        (\<exists>m\<in>set (gather_warnings per_statement).
           dg_kind m = NoMatch \<and> dg_start m \<le> dg_start w \<and> dg_start w \<le> dg_end m))"
proof -
  let ?ws = "sort_key (\<lambda>d. (dg_start d, kind_rank d)) (concat per_statement)"
  have "sorted (map (\<lambda>d. (dg_start d, kind_rank d)) ?ws)" by simp
  then have "sorted (map dg_start ([] @ ?ws))" using sorted_fst_key [of dg_start kind_rank ?ws] by simp
  moreover have "\<forall>d\<in>set ([] @ ?ws). dg_start d \<le> dg_end d" using assms by simp
  moreover have "gather_inv [] []" by (simp add: gather_inv_def)
  ultimately have "gather_inv ([] @ ?ws) (foldl gather_step [] ?ws)" by (rule gather_fold_inv)
  then show ?thesis by (simp add: gather_inv_def gather_warnings_def)
qed

definition demo_note :: "nat \<Rightarrow> nat \<Rightarrow> diagnostic_kind \<Rightarrow> diagnostic" where
  "demo_note a b k = (diagnostic_note \<lparr>sp_input = [], sp_start = a, sp_end = b\<rparr> [])\<lparr>dg_kind := k\<rparr>"

theorem gather_warnings_kept_witness:
  "\<exists>m\<in>set (gather_warnings [[demo_note 0 9 Note], [demo_note 3 5 NoMatch]]). dg_kind m = NoMatch"
  using gather_warnings_kept [of "[[demo_note 0 9 Note], [demo_note 3 5 NoMatch]]"]
  by (auto simp: demo_note_def diagnostic_note_def dg_start_def dg_end_def)

text \<open>
  A note can still be kept although it overlaps a \<open>NoMatch\<close>, when that \<open>NoMatch\<close> was
  itself dropped for an earlier one.
\<close>

lemma note_survives_dropped_no_match:
  "gather_warnings [[demo_note 0 4 NoMatch, demo_note 3 9 NoMatch, demo_note 6 8 Note]]
     = [demo_note 0 4 NoMatch, demo_note 6 8 Note]"
  by code_simp

end
