(* ===== verification/Verbs.thy ===== *)
theory Verbs
  imports Name_Pattern Diagnostics "HOL-Library.Word" "HOL-Library.AList"
begin

section \<open>Verbs\<close>

text \<open>
  \<open>askld/src/verb/\<close>: the verbs of a query and the methods of the traits \<open>Verb\<close>, \<open>Filter\<close> and
  \<open>Selector\<close> that only read the verb.  A verb is a value of \<open>verb_kind\<close> with its span and its
  identity: the code keys a selector's state by the address of the verb, so two verbs that
  share one \<open>Arc\<close> share \<open>vb_id\<close>.  The methods that run queries or change the parser context
  are in the theories of those components.
\<close>

subsection \<open>Relationship types\<close>

unbundle bit_operations_syntax

type_synonym rel_type = "8 word"

definition REL_EMPTY :: rel_type where "REL_EMPTY = 0"
definition REFS :: rel_type where "REFS = 1"
definition HAS :: rel_type where "HAS = 2"

definition rel_contains :: "rel_type \<Rightarrow> rel_type \<Rightarrow> bool" where
  "rel_contains self other \<longleftrightarrow> self AND other = other"

definition rel_union :: "rel_type \<Rightarrow> rel_type \<Rightarrow> rel_type" where
  "rel_union a b = a OR b"

datatype dependency_role =
    Parent
  | Child
  | User
  | PreSeedSibling
  | PreSeedLabel string

fun is_pre_seed :: "dependency_role \<Rightarrow> bool" where
  "is_pre_seed PreSeedSibling = True"
| "is_pre_seed (PreSeedLabel l) = True"
| "is_pre_seed r = False"

datatype dependency_kind = Necessary | Sufficient

subsection \<open>Kinds of verbs\<close>

datatype filter_kind =
    FKType "int list"
  | FKExactName name_pattern
  | FKCompoundName name_pattern

datatype verb_kind =
    VName name_pattern
  | VForced name_pattern
  | VUnit
  | VType int "name_pattern option" bool bool bool
  | VSelect
  | VFilter filter_kind bool
  | VIgnore "name_pattern option" "string option"
  | VProject string
  | VDirectOnly
  | VDefaultType "int list"
  | VIsolated bool
  | VHas
  | VRefs
  | VDerive rel_type bool
  | VUnnest
  | VAny
  | VLabel string bool
  | VUse string bool
  | VPreamble
  | VLoc string nat "string option"
  | VSearch string bool bool nat
  | VLayer

record verb =
  vb_id :: nat
  vb_span :: span
  vb_kind :: verb_kind

text \<open>A failed constructor: the template of the message and what is formatted into it.\<close>

datatype verb_error =
    BadValue pattern_error
  | Bail string "string list"

type_synonym named_args = "(string \<times> val) list"

definition plain :: "val \<Rightarrow> verb_error + string" where
  "plain v = map_err BadValue (as_plain v)"

definition named_plain :: "named_args \<Rightarrow> string \<Rightarrow> verb_error + string option" where
  "named_plain named key =
     (case map_of named key of None \<Rightarrow> Inr None | Some v \<Rightarrow> rbind (plain v) (\<lambda>t. Inr (Some t)))"

definition pattern_of :: "val \<Rightarrow> verb_error + name_pattern" where
  "pattern_of v = map_err BadValue (pattern_from_value v)"

text \<open>\<open>positional.first()\<close>, mapped through a parser and transposed.\<close>

definition first_with :: "(val \<Rightarrow> verb_error + 'a) \<Rightarrow> val list \<Rightarrow> verb_error + 'a option" where
  "first_with f positional =
     (case positional of [] \<Rightarrow> Inr None | v # _ \<Rightarrow> rbind (f v) (\<lambda>a. Inr (Some a)))"

subsection \<open>Constructors\<close>

definition name_selector_new :: "val list \<Rightarrow> named_args \<Rightarrow> verb_error + verb_kind" where
  "name_selector_new positional named =
     (case map_of named ''name'' of
        None \<Rightarrow> Inl (Bail ''Must contain name field'' [])
      | Some v \<Rightarrow> rbind (pattern_of v) (\<lambda>p. Inr (VName p)))"

definition forced_new :: "val list \<Rightarrow> named_args \<Rightarrow> verb_error + verb_kind" where
  "forced_new positional named =
     (case map_of named ''name'' of
        None \<Rightarrow> Inl (Bail ''Must contain name field'' [])
      | Some v \<Rightarrow> rbind (pattern_of v) (\<lambda>p. Inr (VForced p)))"

definition type_selector_new :: "val list \<Rightarrow> named_args \<Rightarrow> int \<Rightarrow> verb_error + verb_kind" where
  "type_selector_new positional named symbol_type =
     rbind (first_with pattern_of positional) (\<lambda>name_pattern.
     rbind (named_plain named ''filter'') (\<lambda>filter_arg.
     (let explicit_filter = map_option (\<lambda>v. eq_ignore_case v ''true'') filter_arg;
          filter_only = (case explicit_filter of Some b \<Rightarrow> b | None \<Rightarrow> name_pattern = None)
      in
     rbind (named_plain named ''inherit'') (\<lambda>inherit_arg.
     (let inherit = (case inherit_arg of Some v \<Rightarrow> eq_ignore_case v ''true'' | None \<Rightarrow> name_pattern = None)
      in
     rbind (named_plain named ''match'') (\<lambda>m.
     (let leaf_anchored = (if m = Some ''contains'' then False else \<not> dot_is_separator symbol_type)
      in Inr (VType symbol_type name_pattern filter_only inherit leaf_anchored))))))))"

definition select_new :: "val list \<Rightarrow> named_args \<Rightarrow> verb_error + verb_kind" where
  "select_new positional named = Inr VSelect"

definition parse_symbol_type :: "string \<Rightarrow> verb_error + int" where
  "parse_symbol_type part =
     (let part = trim part in
      if part = ''func'' then Inr SYMBOL_TYPE_FUNCTION
      else if part = ''mod'' then Inr SYMBOL_TYPE_MODULE
      else if part = ''file'' then Inr SYMBOL_TYPE_FILE
      else if part = ''dir'' then Inr SYMBOL_TYPE_DIRECTORY
      else if part = ''type'' then Inr SYMBOL_TYPE_TYPE
      else if part = ''data'' then Inr SYMBOL_TYPE_DATA
      else if part = ''macro'' then Inr SYMBOL_TYPE_MACRO
      else if part = ''field'' \<or> part = ''method'' then Inr SYMBOL_TYPE_FIELD
      else Inl (Bail ''Unknown symbol type: '' [part]))"

definition parse_symbol_types :: "string \<Rightarrow> verb_error + int list" where
  "parse_symbol_types s = collect_results (map parse_symbol_type (split_on (\<lambda>c. c = CHR '','') s))"

definition filter_kind_parse :: "string \<Rightarrow> val \<Rightarrow> verb_error + filter_kind" where
  "filter_kind_parse kind v =
     (if kind = ''type'' then
        rbind (plain v) (\<lambda>t. rbind (parse_symbol_types t) (\<lambda>ids. Inr (FKType ids)))
      else if kind = ''exact_name'' then rbind (pattern_of v) (\<lambda>p. Inr (FKExactName p))
      else if kind = ''compound_name'' then rbind (pattern_of v) (\<lambda>p. Inr (FKCompoundName p))
      else Inl (Bail ''Unknown filter kind'' [kind]))"

definition filter_new :: "val list \<Rightarrow> named_args \<Rightarrow> verb_error + verb_kind" where
  "filter_new positional named =
     (case positional of
        [] \<Rightarrow> Inl (Bail ''filter requires a kind as first argument'' [])
      | k # rest \<Rightarrow>
          rbind (plain k) (\<lambda>kind_str.
          case rest of
            [] \<Rightarrow> Inl (Bail ''filter requires a value as second argument'' [])
          | v # _ \<Rightarrow>
              rbind (filter_kind_parse kind_str v) (\<lambda>kind.
              rbind (named_plain named ''inherit'') (\<lambda>i.
              Inr (VFilter kind (case i of Some t \<Rightarrow> eq_ignore_case t ''true'' | None \<Rightarrow> False))))))"

definition ignore_new :: "val list \<Rightarrow> named_args \<Rightarrow> verb_error + verb_kind" where
  "ignore_new positional named =
     rbind (first_with pattern_of positional) (\<lambda>name.
     rbind (named_plain named ''package'') (\<lambda>package.
     if name = None \<and> package = None then Inl (Bail ''Expected at least one argument'' [])
     else Inr (VIgnore name package)))"

definition project_new :: "val list \<Rightarrow> named_args \<Rightarrow> verb_error + verb_kind" where
  "project_new positional named =
     (case positional of
        [] \<Rightarrow> Inl (Bail ''Expected a positional argument'' [])
      | p # _ \<Rightarrow> rbind (plain p) (\<lambda>t. Inr (VProject t)))"

text \<open>The flag parameters that only accept the two literals.\<close>

definition strict_flag :: "string \<Rightarrow> named_args \<Rightarrow> string \<Rightarrow> verb_error + bool" where
  "strict_flag message named key =
     rbind (named_plain named key) (\<lambda>v.
     case v of
       None \<Rightarrow> Inr False
     | Some t \<Rightarrow> if t = ''true'' then Inr True else if t = ''false'' then Inr False
                else Inl (Bail message [t]))"

definition isolated_new :: "val list \<Rightarrow> named_args \<Rightarrow> verb_error + verb_kind" where
  "isolated_new positional named =
     (if positional \<noteq> [] then Inl (Bail ''Unexpected positional arguments'' [])
      else rbind (strict_flag ''Unexpected value for isolated parameter'' named ''isolated'')
             (\<lambda>b. Inr (VIsolated b)))"

definition label_new :: "val list \<Rightarrow> named_args \<Rightarrow> verb_error + verb_kind" where
  "label_new positional named =
     rbind (strict_flag ''Unexpected value for inherit parameter'' named ''inherit'') (\<lambda>inherit.
     case filter (\<lambda>k. k \<noteq> ''inherit'') (map fst named) of
       k # _ \<Rightarrow> Inl (Bail ''Unexpected named argument'' [k])
     | [] \<Rightarrow>
         (case positional of
            [] \<Rightarrow> Inl (Bail ''Expected a positional argument'' [])
          | l # _ \<Rightarrow> rbind (plain l) (\<lambda>t. Inr (VLabel t inherit))))"

definition use_new :: "val list \<Rightarrow> named_args \<Rightarrow> verb_error + verb_kind" where
  "use_new positional named =
     rbind (strict_flag ''Unexpected value for forced parameter'' named ''forced'') (\<lambda>forced.
     case positional of
       [] \<Rightarrow> Inl (Bail ''Expected a positional argument'' [])
     | l # _ \<Rightarrow> rbind (plain l) (\<lambda>t. Inr (VUse t forced)))"

definition preamble_new :: "val list \<Rightarrow> named_args \<Rightarrow> verb_error + verb_kind" where
  "preamble_new positional named =
     (if positional \<noteq> [] then Inl (Bail ''Unexpected positional arguments'' [])
      else if named \<noteq> [] then Inl (Bail ''Unexpected named arguments'' [])
      else Inr VPreamble)"

definition has_new :: "val list \<Rightarrow> named_args \<Rightarrow> verb_error + verb_kind" where
  "has_new positional named = Inr VHas"

definition refs_new :: "val list \<Rightarrow> named_args \<Rightarrow> verb_error + verb_kind" where
  "refs_new positional named = Inr VRefs"

definition unnest_new :: "val list \<Rightarrow> named_args \<Rightarrow> verb_error + verb_kind" where
  "unnest_new positional named = Inr VUnnest"

definition any_new :: "val list \<Rightarrow> named_args \<Rightarrow> verb_error + verb_kind" where
  "any_new positional named = Inr VAny"

fun derive_parts :: "rel_type \<Rightarrow> string list \<Rightarrow> verb_error + rel_type" where
  "derive_parts rel [] = Inr rel"
| "derive_parts rel (part # parts) =
     (if trim part = ''refs'' then derive_parts (rel_union rel REFS) parts
      else if trim part = ''has'' then derive_parts (rel_union rel HAS) parts
      else Inl (Bail ''unknown relationship type in derive'' [trim part]))"

definition derive_new :: "val list \<Rightarrow> named_args \<Rightarrow> verb_error + verb_kind" where
  "derive_new positional named =
     (case map_of named ''type'' of
        None \<Rightarrow> Inl (Bail ''derive requires a parameter'' [''type''])
      | Some v \<Rightarrow>
          rbind (plain v) (\<lambda>type_str.
          rbind (derive_parts REL_EMPTY (split_on (\<lambda>c. c = CHR '','') type_str)) (\<lambda>rel.
          if rel = REL_EMPTY
          then Inl (Bail ''derive type parameter must contain at least one of'' [''refs'', ''has''])
          else rbind (named_plain named ''inherit'') (\<lambda>i.
               Inr (VDerive rel (case i of Some t \<Rightarrow> eq_ignore_case t ''true'' | None \<Rightarrow> True))))))"

definition loc_new :: "val list \<Rightarrow> named_args \<Rightarrow> verb_error + verb_kind" where
  "loc_new positional named =
     (case positional of
        p # l # _ \<Rightarrow>
          rbind (plain p) (\<lambda>file_path.
          rbind (plain l) (\<lambda>line_str.
          case parse_usize line_str of
            None \<Rightarrow> Inl (Bail ''loc line number must be an integer'' [])
          | Some line \<Rightarrow>
              if line = 0 then Inl (Bail ''loc line number must be >= 1'' [])
              else rbind (named_plain named ''project'') (\<lambda>project. Inr (VLoc file_path line project))))
      | _ \<Rightarrow> Inl (Bail ''loc requires two positional arguments: file path and line number'' []))"

definition DEFAULT_LIMIT :: nat where "DEFAULT_LIMIT = 500"

definition search_new :: "val list \<Rightarrow> named_args \<Rightarrow> verb_error + verb_kind" where
  "search_new positional named =
     (case positional of
        [q] \<Rightarrow>
          rbind (plain q) (\<lambda>query.
          if trim query = [] then Inl (Bail ''search: query must be non-empty'' [])
          else if chars_count query < 3 then Inl (Bail ''search: query must be at least 3 characters'' [])
          else
          rbind (rbind (named_plain named ''case'') (\<lambda>c.
            if c = None \<or> c = Some ''smart'' then Inr (smart_case_sensitive query)
            else if c = Some ''sensitive'' then Inr True
            else if c = Some ''insensitive'' then Inr False
            else Inl (Bail ''search: case'' [the c]))) (\<lambda>case_sensitive.
          rbind (rbind (named_plain named ''whole_word'') (\<lambda>w.
            if w = None \<or> w = Some ''false'' then Inr False
            else if w = Some ''true'' then Inr True
            else Inl (Bail ''search: whole_word'' [the w]))) (\<lambda>whole_word.
          rbind (rbind (named_plain named ''limit'') (\<lambda>l.
            case l of
              None \<Rightarrow> Inr DEFAULT_LIMIT
            | Some s \<Rightarrow> (case parse_usize s of
                          None \<Rightarrow> Inl (Bail ''search: limit must be a positive integer'' [s])
                        | Some n \<Rightarrow> if n = 0 then Inl (Bail ''search: limit must be >= 1'' []) else Inr n))) (\<lambda>limit.
          case filter (\<lambda>k. k \<notin> set [''case'', ''whole_word'', ''limit'']) (map fst named) of
            k # _ \<Rightarrow> Inl (Bail ''search: unknown argument'' [k])
          | [] \<Rightarrow> Inr (VSearch query case_sensitive whole_word limit)))))
      | _ \<Rightarrow> Inl (Bail ''search requires exactly one positional argument: query'' []))"

definition layer_new :: "val list \<Rightarrow> named_args \<Rightarrow> verb_error + verb_kind" where
  "layer_new positional named = Inr VLayer"

subsection \<open>Methods of the verbs\<close>

fun type_verb_name :: "int \<Rightarrow> string" where
  "type_verb_name t =
     (if t = SYMBOL_TYPE_FUNCTION then ''func'' else if t = SYMBOL_TYPE_FILE then ''file''
      else if t = SYMBOL_TYPE_MODULE then ''mod'' else if t = SYMBOL_TYPE_DIRECTORY then ''dir''
      else if t = SYMBOL_TYPE_TYPE then ''type'' else if t = SYMBOL_TYPE_DATA then ''data''
      else if t = SYMBOL_TYPE_MACRO then ''macro'' else if t = SYMBOL_TYPE_FIELD then ''field''
      else ''type_selector'')"

fun kind_name :: "verb_kind \<Rightarrow> string" where
  "kind_name (VName p) = ''_name_select''"
| "kind_name (VForced p) = ''forced''"
| "kind_name VUnit = ''unit''"
| "kind_name (VType t n f i l) = type_verb_name t"
| "kind_name VSelect = ''select''"
| "kind_name (VFilter k i) = ''filter''"
| "kind_name (VIgnore n p) = ''ignore''"
| "kind_name (VProject p) = ''project''"
| "kind_name VDirectOnly = ''direct_only_filter''"
| "kind_name (VDefaultType ids) = ''default_type_filter''"
| "kind_name (VIsolated b) = ''scope''"
| "kind_name VHas = ''has''"
| "kind_name VRefs = ''refs''"
| "kind_name (VDerive r i) = ''derive''"
| "kind_name VUnnest = ''unnest''"
| "kind_name VAny = ''any''"
| "kind_name (VLabel l i) = ''label''"
| "kind_name (VUse l f) = ''use''"
| "kind_name VPreamble = ''preamble''"
| "kind_name (VLoc f l p) = ''loc''"
| "kind_name (VSearch q c w n) = ''search''"
| "kind_name VLayer = ''layer''"

datatype derive_method = DeriveClone | DeriveSkip

fun kind_derive_method :: "verb_kind \<Rightarrow> derive_method" where
  "kind_derive_method VUnit = DeriveClone"
| "kind_derive_method (VIgnore n p) = DeriveClone"
| "kind_derive_method (VProject p) = DeriveClone"
| "kind_derive_method (VType t n f inherit l) = (if inherit then DeriveClone else DeriveSkip)"
| "kind_derive_method (VFilter k inherit) = (if inherit then DeriveClone else DeriveSkip)"
| "kind_derive_method (VLabel l inherit) = (if inherit then DeriveClone else DeriveSkip)"
| "kind_derive_method k = DeriveSkip"

text \<open>Whether \<open>derive_new_instance\<close> gives a fresh verb (a new address) or the \<open>Arc\<close> is shared.\<close>

fun derives_new_instance :: "verb_kind \<Rightarrow> bool" where
  "derives_new_instance (VType t n f inherit l) = True"
| "derives_new_instance (VFilter k inherit) = inherit"
| "derives_new_instance k = False"

datatype verb_tag =
    TagProjectFilter
  | TagNameSelector
  | TagTypeFilter
  | TagGenericFilter string
  | TagGenericSelector
  | TagUnnest

fun filter_tag_name :: "filter_kind \<Rightarrow> string" where
  "filter_tag_name (FKType ids) = ''type''"
| "filter_tag_name (FKExactName p) = ''exact_name''"
| "filter_tag_name (FKCompoundName p) = ''compound_name''"

fun kind_tag :: "verb_kind \<Rightarrow> verb_tag option" where
  "kind_tag (VProject p) = Some TagProjectFilter"
| "kind_tag (VType t name filter_only i l) =
     (if filter_only \<and> name \<noteq> None then Some TagTypeFilter else None)"
| "kind_tag (VFilter k i) = Some (TagGenericFilter (filter_tag_name k))"
| "kind_tag VSelect = Some TagGenericSelector"
| "kind_tag VUnnest = Some TagUnnest"
| "kind_tag k = None"

fun kind_is_unit :: "verb_kind \<Rightarrow> bool" where
  "kind_is_unit VUnit = True"
| "kind_is_unit k = False"

fun kind_non_constraining :: "verb_kind \<Rightarrow> bool" where
  "kind_non_constraining (VType t name filter_only i l) = (filter_only \<and> name = None)"
| "kind_non_constraining k = kind_is_unit k"

fun kind_matched_token :: "verb_kind \<Rightarrow> string option" where
  "kind_matched_token (VName (PatExact name)) = Some name"
| "kind_matched_token (VType t (Some (PatExact name)) f i l) = Some name"
| "kind_matched_token k = None"

text \<open>\<open>as_selector\<close>, \<open>as_filter\<close> and \<open>as_labeler\<close> succeed.\<close>

fun is_selector :: "verb_kind \<Rightarrow> bool" where
  "is_selector (VType t name filter_only inherit l) = (\<not> (filter_only \<and> name = None \<and> inherit))"
| "is_selector (VName p) = True"
| "is_selector (VForced p) = True"
| "is_selector VUnit = True"
| "is_selector VSelect = True"
| "is_selector (VIsolated b) = True"
| "is_selector (VUse l f) = True"
| "is_selector (VLoc f l p) = True"
| "is_selector (VSearch q c w n) = True"
| "is_selector VLayer = True"
| "is_selector k = False"

fun is_filter :: "verb_kind \<Rightarrow> bool" where
  "is_filter (VType t n f i l) = True"
| "is_filter (VFilter k i) = True"
| "is_filter (VIgnore n p) = True"
| "is_filter (VProject p) = True"
| "is_filter VDirectOnly = True"
| "is_filter (VDefaultType ids) = True"
| "is_filter k = False"

fun labeler_label :: "verb_kind \<Rightarrow> string option" where
  "labeler_label (VLabel l i) = Some l"
| "labeler_label k = None"

fun selector_label :: "verb_kind \<Rightarrow> string option" where
  "selector_label (VUse l f) = Some l"
| "selector_label k = None"

fun suppresses_default_type_filter :: "verb_kind \<Rightarrow> bool" where
  "suppresses_default_type_filter (VType t n f i l) = True"
| "suppresses_default_type_filter (VFilter (FKType ids) i) = True"
| "suppresses_default_type_filter k = False"

fun requires_name_constraint :: "verb_kind \<Rightarrow> bool" where
  "requires_name_constraint VSelect = True"
| "requires_name_constraint k = False"

fun has_name_constraint :: "verb_kind \<Rightarrow> bool" where
  "has_name_constraint (VFilter (FKExactName p) i) = True"
| "has_name_constraint (VFilter (FKCompoundName p) i) = True"
| "has_name_constraint k = False"

fun selector_dependency_kind :: "verb_kind \<Rightarrow> dependency_role \<Rightarrow> dependency_kind" where
  "selector_dependency_kind (VForced p) Child = Necessary"
| "selector_dependency_kind (VUse l f) User = Necessary"
| "selector_dependency_kind k r = Sufficient"

fun selector_has_layer_spec :: "verb_kind \<Rightarrow> bool" where
  "selector_has_layer_spec (VLoc f l p) = True"
| "selector_has_layer_spec (VSearch q c w n) = True"
| "selector_has_layer_spec VLayer = True"
| "selector_has_layer_spec k = False"

text \<open>What a verb added to a command does to the verbs already there.\<close>

fun kind_add_verb :: "verb_kind \<Rightarrow> verb list \<Rightarrow> verb list" where
  "kind_add_verb (VType t n f i l) existing =
     filter (\<lambda>v. \<not> suppresses_default_type_filter (vb_kind v)) existing"
| "kind_add_verb VAny existing =
     filter (\<lambda>v. \<not> suppresses_default_type_filter (vb_kind v)) existing"
| "kind_add_verb (VProject p) existing =
     filter (\<lambda>v. kind_tag (VProject p) \<noteq> kind_tag (vb_kind v)) existing"
| "kind_add_verb (VFilter k i) existing =
     filter (\<lambda>v. kind_tag (VFilter k i) \<noteq> kind_tag (vb_kind v)) existing"
| "kind_add_verb VSelect existing =
     filter (\<lambda>v. kind_tag VSelect \<noteq> kind_tag (vb_kind v)) existing"
| "kind_add_verb k existing = existing"

subsection \<open>Filters of the verbs\<close>

definition is_compound_code :: "string \<Rightarrow> bool" where
  "is_compound_code name \<longleftrightarrow> CHR ''.'' \<in> set name \<or> CHR ''/'' \<in> set name \<or> CHR '':'' \<in> set name"

definition name_filter :: "name_pattern \<Rightarrow> composite_filter" where
  "name_filter pattern =
     (case pattern of
        PatExact name \<Rightarrow>
          if is_compound_code name then CLeaf (compound_name_new name)
          else CLeaf (leaf_name_new name True)
      | PatGlob glob \<Rightarrow> glob_filter glob True True)"

definition name_filter_leaf :: "name_pattern \<Rightarrow> int \<Rightarrow> bool \<Rightarrow> composite_filter" where
  "name_filter_leaf pattern symbol_type leaf_anchored =
     (case pattern of
        PatGlob glob \<Rightarrow> glob_filter glob (dot_is_separator symbol_type) leaf_anchored
      | PatExact name \<Rightarrow>
          if symbol_type = SYMBOL_TYPE_DIRECTORY \<or> symbol_type = SYMBOL_TYPE_FILE
          then (if name \<noteq> [] \<and> hd name = CHR ''/'' then CLeaf (ExactName name)
                else if CHR ''/'' \<in> set name \<or> CHR '':'' \<in> set name
                then CLeaf (compound_name_with_options name leaf_anchored False)
                else CLeaf (leaf_name_new name False))
          else if is_compound_code name
          then (if leaf_anchored then CLeaf (compound_name_new_leaf_anchored name)
                else CLeaf (compound_name_new name))
          else CLeaf (leaf_name_new name True))"

definition type_filter_parts :: "int \<Rightarrow> name_pattern option \<Rightarrow> bool \<Rightarrow> composite_filter list" where
  "type_filter_parts symbol_type name leaf_anchored =
     CLeaf (SymbolTypeIs symbol_type)
     # (case name of None \<Rightarrow> [] | Some p \<Rightarrow> [name_filter_leaf p symbol_type leaf_anchored])"

fun filter_kind_composite :: "filter_kind \<Rightarrow> composite_filter option" where
  "filter_kind_composite (FKType ids) =
     (if length ids = 1 then Some (CLeaf (SymbolTypeIs (ids ! 0))) else Some (CLeaf (DefaultSymbolType ids)))"
| "filter_kind_composite (FKExactName (PatExact v)) = Some (CLeaf (ExactName v))"
| "filter_kind_composite (FKExactName (PatGlob g)) = Some (glob_full_name_filter g)"
| "filter_kind_composite (FKCompoundName (PatExact v)) = Some (CLeaf (compound_name_new v))"
| "filter_kind_composite (FKCompoundName (PatGlob g)) = Some (glob_filter g True True)"

definition ignore_composite :: "name_pattern option \<Rightarrow> string option \<Rightarrow> composite_filter option" where
  "ignore_composite name package =
     (let parts = (case name of
                     Some (PatExact n) \<Rightarrow> [CLeaf (compound_name_new n)]
                   | Some (PatGlob g) \<Rightarrow> [glob_filter g True True]
                   | None \<Rightarrow> [])
              @ (case package of
                   None \<Rightarrow> []
                 | Some p \<Rightarrow> (case package_descendant_new p of None \<Rightarrow> [] | Some leaf \<Rightarrow> [CLeaf leaf]))
      in if parts = [] then None else Some (cf_not (cf_and parts)))"

text \<open>\<open>Filter::get_composite_filter\<close>; no filter of the code uses the context it is given.\<close>

fun get_composite_filter :: "verb_kind \<Rightarrow> composite_filter option" where
  "get_composite_filter (VType t name filter_only i leaf_anchored) =
     (case (filter_only, name) of
        (True, Some (PatExact n)) \<Rightarrow> Some (CLeaf (compound_name_with_options n False (dot_is_separator t)))
      | (True, Some (PatGlob g)) \<Rightarrow> Some (glob_filter g (dot_is_separator t) True)
      | _ \<Rightarrow> Some (cf_and (type_filter_parts t name leaf_anchored)))"
| "get_composite_filter (VFilter k i) = filter_kind_composite k"
| "get_composite_filter (VIgnore n p) = ignore_composite n p"
| "get_composite_filter (VProject p) = Some (CLeaf (ProjectFilter p))"
| "get_composite_filter VDirectOnly = Some (CLeaf DirectOnly)"
| "get_composite_filter (VDefaultType ids) = (if ids = [] then None else Some (CLeaf (DefaultSymbolType ids)))"
| "get_composite_filter k = None"

text \<open>The filter parts of a command's filter verbs, in order.\<close>

definition filter_parts :: "verb list \<Rightarrow> composite_filter list" where
  "filter_parts verbs = somes (map (\<lambda>v. get_composite_filter (vb_kind v)) (filter (\<lambda>v. is_filter (vb_kind v)) verbs))"

text \<open>\<open>Selector::build_composite_filter\<close>, given the verbs of the command.\<close>

fun build_composite_filter :: "verb_kind \<Rightarrow> verb list \<Rightarrow> composite_filter option" where
  "build_composite_filter (VName p) verbs = Some (cf_and (filter_parts verbs @ [name_filter p]))"
| "build_composite_filter (VForced p) verbs = Some (cf_and (filter_parts verbs @ [name_filter p]))"
| "build_composite_filter (VType t n f i l) verbs =
     (if filter_parts verbs = [] then None else Some (cf_and (filter_parts verbs)))"
| "build_composite_filter VSelect verbs =
     (if filter_parts verbs = [] then None else Some (cf_and (filter_parts verbs)))"
| "build_composite_filter k verbs = None"

end
