(* ===== verification/Command.thy ===== *)
theory Command
  imports Verbs Layers
begin

section \<open>Commands\<close>

text \<open>
  \<open>askld/src/command.rs\<close>: the verbs of one statement, how a verb is added and derived into a
  child scope, the queries a command answers about its verbs, and the merging of the layer
  specifications of several layer-creating verbs into one.  \<open>add_verb\<close>, \<open>LayerSpec\<close> and
  \<open>sharded_scan\<close> are in \<open>askld/src/verb/mod.rs\<close>.
\<close>

subsection \<open>Building\<close>

record command =
  cm_verbs :: "verb list"
  cm_span :: "span option"
  cm_verb_span :: "span option"

definition command_default :: command where
  "command_default = \<lparr>cm_verbs = [], cm_span = None, cm_verb_span = None\<rparr>"

definition command_new :: "span \<Rightarrow> command" where
  "command_new sp = \<lparr>cm_verbs = [], cm_span = Some sp, cm_verb_span = None\<rparr>"

text \<open>
  \<open>fresh\<close> is the next unused identity: a derived verb is a new instance or the same \<open>Arc\<close>.
\<close>

fun derive_verbs :: "nat \<Rightarrow> verb list \<Rightarrow> verb list \<times> nat" where
  "derive_verbs fresh [] = ([], fresh)"
| "derive_verbs fresh (v # vs) =
     (case kind_derive_method (vb_kind v) of
        DeriveSkip \<Rightarrow> derive_verbs fresh vs
      | DeriveClone \<Rightarrow>
          if derives_new_instance (vb_kind v)
          then (let (ds, n) = derive_verbs (Suc fresh) vs in (v\<lparr>vb_id := fresh\<rparr> # ds, n))
          else (let (ds, n) = derive_verbs fresh vs in (v # ds, n)))"

definition command_derive :: "nat \<Rightarrow> span \<Rightarrow> command \<Rightarrow> command \<times> nat" where
  "command_derive fresh sp c =
     (let (vs, n) = derive_verbs fresh (cm_verbs c)
      in (\<lparr>cm_verbs = vs, cm_span = Some sp, cm_verb_span = None\<rparr>, n))"

definition add_verb :: "verb list \<Rightarrow> verb \<Rightarrow> verb list" where
  "add_verb existing_verbs new_verb =
     foldl (\<lambda>updated v. kind_add_verb (vb_kind v) updated @ [v]) [] (existing_verbs @ [new_verb])"

definition command_extend :: "verb \<Rightarrow> command \<Rightarrow> command" where
  "command_extend other c = c\<lparr>cm_verbs := add_verb (cm_verbs c) other\<rparr>"

definition set_verb_span :: "span \<Rightarrow> command \<Rightarrow> command" where
  "set_verb_span sp c = c\<lparr>cm_verb_span := Some sp\<rparr>"

text \<open>\<open>None\<close> is the panic of \<open>unwrap\<close> on a command without a span.\<close>

definition query_statement_span :: "command \<Rightarrow> span option" where
  "query_statement_span c = (case cm_verb_span c of Some s \<Rightarrow> Some s | None \<Rightarrow> cm_span c)"

subsection \<open>Questions\<close>

definition command_filters :: "command \<Rightarrow> verb list" where
  "command_filters c = filter (\<lambda>v. is_filter (vb_kind v)) (cm_verbs c)"

definition command_selectors :: "command \<Rightarrow> verb list" where
  "command_selectors c = filter (\<lambda>v. is_selector (vb_kind v)) (cm_verbs c)"

definition has_suppress_default_type_filter :: "command \<Rightarrow> bool" where
  "has_suppress_default_type_filter c = list_ex (\<lambda>v. suppresses_default_type_filter (vb_kind v)) (cm_verbs c)"

definition has_selectors :: "command \<Rightarrow> bool" where
  "has_selectors c = list_ex (\<lambda>v. is_selector (vb_kind v)) (cm_verbs c)"

definition command_has_layer_spec :: "command \<Rightarrow> bool" where
  "command_has_layer_spec c = list_ex (\<lambda>v. selector_has_layer_spec (vb_kind v)) (command_selectors c)"

definition has_verb_tag :: "verb_tag \<Rightarrow> command \<Rightarrow> bool" where
  "has_verb_tag tag c = list_ex (\<lambda>v. kind_tag (vb_kind v) = Some tag) (cm_verbs c)"

definition command_is_unit :: "command \<Rightarrow> bool" where
  "command_is_unit c = list_all (\<lambda>v. kind_is_unit (vb_kind v)) (command_selectors c)"

definition is_non_constraining :: "command \<Rightarrow> bool" where
  "is_non_constraining c = list_all (\<lambda>v. kind_non_constraining (vb_kind v)) (command_selectors c)"

definition get_labels :: "command \<Rightarrow> string list" where
  "get_labels c = somes (map (\<lambda>v. labeler_label (vb_kind v)) (cm_verbs c))"

definition get_selector_composite_filter :: "command \<Rightarrow> composite_filter option" where
  "get_selector_composite_filter c =
     (let parts = somes (map (\<lambda>v. build_composite_filter (vb_kind v) (cm_verbs c)) (command_selectors c))
      in case parts of [] \<Rightarrow> None | [f] \<Rightarrow> Some f | _ \<Rightarrow> Some (cf_or parts))"

text \<open>
  \<open>Command::filter\<close> runs the in-memory filters, and no verb overrides \<open>filter_impl\<close>, whose
  default does nothing.
\<close>

definition filter_impl :: "verb_kind \<Rightarrow> selection \<Rightarrow> selection" where
  "filter_impl k s = s"

definition command_filter :: "command \<Rightarrow> selection \<Rightarrow> selection" where
  "command_filter c s = foldl (\<lambda>s v. filter_impl (vb_kind v) s) s (command_filters c)"

text \<open>\<open>LabeledStatements\<close>: the statements of each label in the order they were remembered.\<close>

definition remember :: "'st \<Rightarrow> command \<Rightarrow> (string \<times> 'st list) list \<Rightarrow> (string \<times> 'st list) list" where
  "remember st c m =
     foldl (\<lambda>m mark. AList.update mark ((case map_of m mark of None \<Rightarrow> [] | Some ss \<Rightarrow> ss) @ [st]) m)
       m (get_labels c)"

subsection \<open>Layer specifications\<close>

record 'd layer_spec =
  ls_base_hash :: "byte list"
  ls_base_populate :: "root_layer \<Rightarrow> 'd populate"
  ls_supplement_populate :: "root_layer \<Rightarrow> base_layer_ref \<Rightarrow> 'd populate"
  ls_per_layer_populate :: "(root_layer \<Rightarrow> int \<Rightarrow> base_layer_ref \<Rightarrow> 'd populate) option"
  ls_supplement_extra :: "byte list"

type_synonym 'd sharded_scan = "root_layer \<Rightarrow> int list \<Rightarrow> bool \<Rightarrow> 'd populate"

definition no_op_populate :: "'d populate" where
  "no_op_populate layer_id d = Inr (False, d)"

definition sharded_scan :: "byte list \<Rightarrow> 'd sharded_scan \<Rightarrow> 'd layer_spec" where
  "sharded_scan base_hash scan =
     \<lparr>ls_base_hash = base_hash,
      ls_base_populate = (\<lambda>root. scan root [rt_id root] False),
      ls_supplement_populate = (\<lambda>root base_ref. no_op_populate),
      ls_per_layer_populate = Some (\<lambda>root layer_id base_ref. scan root [layer_id] True),
      ls_supplement_extra = []\<rparr>"

text \<open>The loop of a composite populate: each part in turn, truncation or-ed, first error out.\<close>

fun populate_all :: "'d populate list \<Rightarrow> 'd populate" where
  "populate_all [] layer_id d = Inr (False, d)"
| "populate_all (p # ps) layer_id d =
     rbind (p layer_id d) (\<lambda>(t, d').
     rbind (populate_all ps layer_id d') (\<lambda>(t', d''). Inr (t \<or> t', d'')))"

definition composite_base_bytes :: "'d layer_spec list \<Rightarrow> byte list" where
  "composite_base_bytes parts = ''composite-base-v1'' @ concat (map ls_base_hash parts)"

definition composite_extra_bytes :: "'d layer_spec list \<Rightarrow> byte list" where
  "composite_extra_bytes parts = ''composite-extra-v1''
     @ concat (map (\<lambda>p. le_bytes 8 (int (length (ls_supplement_extra p))) @ ls_supplement_extra p) parts)"

definition partitioned_composite :: "sha \<Rightarrow> 'd layer_spec list \<Rightarrow> 'd layer_spec" where
  "partitioned_composite sha parts =
     (let per_layers = somes (map ls_per_layer_populate parts)
      in \<lparr>ls_base_hash = sha (composite_base_bytes parts),
          ls_base_populate = (\<lambda>root. populate_all (map (\<lambda>p. ls_base_populate p root) parts)),
          ls_supplement_populate = (\<lambda>root b. populate_all (map (\<lambda>p. ls_supplement_populate p root b) parts)),
          ls_per_layer_populate =
            (if per_layers = [] then None
             else Some (\<lambda>root lj b. populate_all (map (\<lambda>f. f root lj b) per_layers))),
          ls_supplement_extra =
            (if list_all (\<lambda>p. ls_supplement_extra p = []) parts then []
             else sha (composite_extra_bytes parts))\<rparr>)"

text \<open>
  The specs of the layer-creating selectors in verb order, a failing one first; one spec is
  kept as it is.  \<open>spec_of\<close> is \<open>Selector::layer_spec\<close>.
\<close>

definition aggregate_layer_spec ::
  "sha \<Rightarrow> (verb \<Rightarrow> 'e + 'd layer_spec option) \<Rightarrow> command \<Rightarrow> 'e + 'd layer_spec option" where
  "aggregate_layer_spec sha spec_of c =
     rbind (collect_results (map spec_of (command_selectors c))) (\<lambda>specs.
     (case somes specs of
        [] \<Rightarrow> Inr None
      | [s] \<Rightarrow> Inr (Some s)
      | ss \<Rightarrow> Inr (Some (partitioned_composite sha ss))))"

subsection \<open>Adding verbs\<close>

text \<open>Whether a verb already there survives when another is added.\<close>

definition keeps :: "verb_kind \<Rightarrow> verb \<Rightarrow> bool" where
  "keeps k v \<longleftrightarrow> kind_add_verb k [v] = [v]"

lemma kind_add_verb_filter: "kind_add_verb k vs = filter (keeps k) vs"
proof -
  have single: "((if b then [x] else []) = [x]) = b" for b and x :: verb by simp
  have "keeps k = (\<lambda>v. kind_add_verb k [v] = [v])" by (simp add: fun_eq_iff keeps_def)
  then show ?thesis by (cases k) (simp_all add: single)
qed

lemma keeps_kind_cong: "vb_kind u = vb_kind v \<Longrightarrow> keeps k u = keeps k v"
  by (cases k) (auto simp: keeps_def)

definition verbs_settled :: "verb list \<Rightarrow> bool" where
  "verbs_settled vs \<longleftrightarrow> sorted_wrt (\<lambda>u v. keeps (vb_kind v) u) vs"

lemma add_verb_snoc:
  assumes "verbs_settled vs"
  shows "foldl (\<lambda>updated v. kind_add_verb (vb_kind v) updated @ [v]) [] vs = vs"
  using assms
proof (induction vs rule: rev_induct)
  case (snoc v vs)
  then show ?case by (auto simp: verbs_settled_def sorted_wrt_append kind_add_verb_filter)
qed simp

lemma add_verb_settled:
  assumes "verbs_settled vs"
  shows "add_verb vs v = filter (keeps (vb_kind v)) vs @ [v]" "verbs_settled (add_verb vs v)"
proof -
  show eq: "add_verb vs v = filter (keeps (vb_kind v)) vs @ [v]"
    using add_verb_snoc [OF assms] by (simp add: add_verb_def kind_add_verb_filter)
  show "verbs_settled (add_verb vs v)"
    using assms unfolding eq verbs_settled_def by (auto simp: sorted_wrt_append sorted_wrt_filter)
qed

lemma derive_verbs_kinds:
  "map vb_kind (fst (derive_verbs n vs)) = filter (\<lambda>k. kind_derive_method k = DeriveClone) (map vb_kind vs)"
  by (induction n vs rule: derive_verbs.induct) (auto split: derive_method.splits prod.splits)

lemma settled_kinds:
  "verbs_settled vs \<longleftrightarrow> sorted_wrt (\<lambda>a b. keeps b \<lparr>vb_id = 0, vb_span = span_entire [], vb_kind = a\<rparr>) (map vb_kind vs)"
  unfolding verbs_settled_def sorted_wrt_map
  by (rule arg_cong [of _ _ "\<lambda>P. sorted_wrt P vs"]) (intro ext keeps_kind_cong, simp)

lemma derive_settled: "verbs_settled vs \<Longrightarrow> verbs_settled (fst (derive_verbs n vs))"
  by (simp add: settled_kinds derive_verbs_kinds sorted_wrt_filter)

text \<open>The commands the parser can build.\<close>

inductive command_built :: "command \<Rightarrow> bool" where
  new: "command_built (command_new sp)"
| default: "command_built command_default"
| derived: "command_built c \<Longrightarrow> command_built (fst (command_derive n sp c))"
| extended: "command_built c \<Longrightarrow> command_built (command_extend v c)"
| verb_span: "command_built c \<Longrightarrow> command_built (set_verb_span sp c)"

lemma command_built_settled: "command_built c \<Longrightarrow> verbs_settled (cm_verbs c)"
proof (induction rule: command_built.induct)
  case (derived c n sp)
  then show ?case using derive_settled by (auto simp: command_derive_def split: prod.splits)
                                        (metis fst_conv)
qed (auto simp: command_new_def command_default_def verbs_settled_def command_extend_def set_verb_span_def
       intro: add_verb_settled(2) [unfolded verbs_settled_def])

lemma settled_at_most_one:
  assumes "verbs_settled vs" and removes: "\<And>u v. P u \<Longrightarrow> P v \<Longrightarrow> \<not> keeps (vb_kind v) u"
  shows "length (filter P vs) \<le> 1"
proof -
  define ws where "ws = filter P vs"
  have sorted: "sorted_wrt (\<lambda>u v. keeps (vb_kind v) u) ws"
    using assms(1) by (simp add: verbs_settled_def sorted_wrt_filter ws_def)
  have all: "\<forall>u\<in>set ws. P u" by (simp add: ws_def)
  have "length ws \<le> 1"
  proof (cases ws)
    case (Cons x xs)
    then show ?thesis
    proof (cases xs)
      case (Cons y ys)
      with \<open>ws = x # xs\<close> sorted all removes [of x y] show ?thesis by simp
    qed simp
  qed simp
  then show ?thesis by (simp add: ws_def)
qed

subsection \<open>Composite keys\<close>

lemma concat_32_inj:
  "\<forall>h\<in>set hs. length h = 32 \<Longrightarrow> \<forall>h\<in>set gs. length h = 32 \<Longrightarrow>
   concat hs = concat gs \<Longrightarrow> hs = (gs :: byte list list)"
proof (induction hs arbitrary: gs)
  case Nil
  then show ?case by (cases gs) auto
next
  case (Cons h hs)
  show ?case
  proof (cases gs)
    case Nil
    with Cons.prems have "h = []" by simp
    with Cons.prems show ?thesis by simp
  next
    case g: (Cons g gs')
    have eq: "h @ concat hs = g @ concat gs'" using Cons.prems(3) by (simp only: g concat.simps)
    have len: "length h = length g" using Cons.prems(1,2) by (simp add: g)
    from append_eq_len [OF eq len] have "h = g \<and> concat hs = concat gs'" .
    moreover have "hs = gs'" if "concat hs = concat gs'"
      using Cons.IH [OF _ _ that] Cons.prems(1,2) by (simp add: g)
    ultimately show ?thesis by (simp add: g)
  qed
qed

lemma concat_len_prefixed_inj:
  "\<forall>x\<in>set xs. length x < 2 ^ 64 \<Longrightarrow> \<forall>x\<in>set ys. length x < 2 ^ 64 \<Longrightarrow>
   concat (map (\<lambda>x. le_bytes 8 (int (length x)) @ x) xs) = concat (map (\<lambda>x. le_bytes 8 (int (length x)) @ x) ys)
   \<Longrightarrow> xs = ys"
proof (induction xs arbitrary: ys)
  case Nil
  then show ?case by (cases ys) (auto dest: arg_cong [of _ _ length])
next
  case (Cons x xs)
  show ?case
  proof (cases ys)
    case Nil
    with Cons.prems(3) show ?thesis by (auto dest: arg_cong [of _ _ length])
  next
    case y: (Cons y ys')
    let ?f = "\<lambda>x. le_bytes 8 (int (length x)) @ x"
    have "le_bytes 8 (int (length x)) @ (x @ concat (map ?f xs)) = le_bytes 8 (int (length y)) @ (y @ concat (map ?f ys'))"
      using Cons.prems(3) by (simp only: y list.map concat.simps append_assoc)
    then have "length x = length y \<and> x @ concat (map ?f xs) = y @ concat (map ?f ys')"
      using Cons.prems(1,2) by (intro le8_len_split) (simp_all add: y)
    moreover from this have "x = y \<and> concat (map ?f xs) = concat (map ?f ys')"
      using append_eq_len [of x "concat (map ?f xs)" y "concat (map ?f ys')"] by blast
    moreover have "xs = ys'" if "concat (map ?f xs) = concat (map ?f ys')"
      using Cons.IH [OF _ _ that] Cons.prems(1,2) by (simp add: y)
    ultimately show ?thesis by (simp add: y)
  qed
qed

subsection \<open>Properties\<close>

text \<open>
  Adding a verb to any command the parser can build (also through derivation into child
  scopes) replays all verbs, and that has exactly the effect of letting the new verb drop
  what it replaces and appending it.  Such a command never holds two type selectors, two
  project filters, two \<open>select\<close> verbs or two generic filters of one kind, and a type selector
  or \<open>any\<close> just added leaves no inherited type constraint.
\<close>

theorem command_extend_exact:
  assumes "command_built c"
  shows "cm_verbs (command_extend v c) = filter (keeps (vb_kind v)) (cm_verbs c) @ [v]
    \<and> length (filter (\<lambda>u. \<exists>t n f i l. vb_kind u = VType t n f i l) (cm_verbs c)) \<le> 1
    \<and> length (filter (\<lambda>u. kind_tag (vb_kind u) = Some TagProjectFilter) (cm_verbs c)) \<le> 1
    \<and> length (filter (\<lambda>u. kind_tag (vb_kind u) = Some TagGenericSelector) (cm_verbs c)) \<le> 1
    \<and> length (filter (\<lambda>u. kind_tag (vb_kind u) = Some (TagGenericFilter kind)) (cm_verbs c)) \<le> 1
    \<and> (\<forall>u\<in>set (butlast (cm_verbs (command_extend v c))).
        vb_kind v = VAny \<or> (\<exists>t n f i l. vb_kind v = VType t n f i l) \<longrightarrow> \<not> suppresses_default_type_filter (vb_kind u))"
proof -
  have settled: "verbs_settled (cm_verbs c)" by (rule command_built_settled [OF assms])
  have eq: "cm_verbs (command_extend v c) = filter (keeps (vb_kind v)) (cm_verbs c) @ [v]"
    by (simp add: command_extend_def add_verb_settled(1) [OF settled])
  have ty: "length (filter (\<lambda>u. \<exists>t n f i l. vb_kind u = VType t n f i l) (cm_verbs c)) \<le> 1"
    by (rule settled_at_most_one [OF settled]) (auto simp: keeps_def)
  have pr: "length (filter (\<lambda>u. kind_tag (vb_kind u) = Some TagProjectFilter) (cm_verbs c)) \<le> 1"
    by (rule settled_at_most_one [OF settled]) (auto simp: keeps_def elim!: kind_tag.elims split: if_splits)
  have se: "length (filter (\<lambda>u. kind_tag (vb_kind u) = Some TagGenericSelector) (cm_verbs c)) \<le> 1"
    by (rule settled_at_most_one [OF settled]) (auto simp: keeps_def elim!: kind_tag.elims split: if_splits)
  have fi: "length (filter (\<lambda>u. kind_tag (vb_kind u) = Some (TagGenericFilter kind)) (cm_verbs c)) \<le> 1"
    by (rule settled_at_most_one [OF settled]) (auto simp: keeps_def elim!: kind_tag.elims split: if_splits)
  show ?thesis using ty pr se fi by (auto simp: eq keeps_def)
qed

definition sample_span :: span where "sample_span = span_entire ''func''"

definition sample_verb :: "nat \<Rightarrow> verb_kind \<Rightarrow> verb" where
  "sample_verb i k = \<lparr>vb_id = i, vb_span = sample_span, vb_kind = k\<rparr>"

theorem command_extend_exact_witness:
  "cm_verbs (command_extend (sample_verb 2 (VType 6 None True True False))
     (command_extend (sample_verb 1 (VType 1 None True True False)) (command_new sample_span)))
   = [sample_verb 2 (VType 6 None True True False)]"
  using command_extend_exact [of "command_extend (sample_verb 1 (VType 1 None True True False)) (command_new sample_span)"
      "sample_verb 2 (VType 6 None True True False)"]
  by (simp add: command_built.intros keeps_def sample_verb_def command_extend_def command_new_def add_verb_def)

text \<open>
  The cache key of a multi-verb statement.  The composite base key determines the
  parts' base keys in source order; the composite supplement key determines every part's
  supplement inputs in source order; and there is a composite supplement key exactly when
  some part has supplement inputs, so statements without any stay acceptable on an empty
  chain.
\<close>

theorem composite_keys_exact:
  assumes "\<forall>p\<in>set (ps @ qs). length (ls_base_hash p) = 32 \<and> length (ls_supplement_extra p) < 2 ^ 64"
    and "\<forall>bytes. length (sha bytes) = 32"
  shows "(composite_base_bytes ps = composite_base_bytes qs \<longleftrightarrow> map ls_base_hash ps = map ls_base_hash qs)
    \<and> (composite_extra_bytes ps = composite_extra_bytes qs
         \<longleftrightarrow> map ls_supplement_extra ps = map ls_supplement_extra qs)
    \<and> (ls_supplement_extra (partitioned_composite sha ps) = [] \<longleftrightarrow> (\<forall>p\<in>set ps. ls_supplement_extra p = []))
    \<and> length (ls_base_hash (partitioned_composite sha ps)) = 32"
proof -
  let ?enc = "\<lambda>x. le_bytes 8 (int (length x)) @ x"
  have form: "composite_extra_bytes rs = ''composite-extra-v1'' @ concat (map ?enc (map ls_supplement_extra rs))"
    for rs :: "'a layer_spec list" by (simp add: composite_extra_bytes_def comp_def)
  have base: "map ls_base_hash ps = map ls_base_hash qs" if "composite_base_bytes ps = composite_base_bytes qs"
    using that assms(1) by (intro concat_32_inj) (auto simp: composite_base_bytes_def)
  have extra: "map ls_supplement_extra ps = map ls_supplement_extra qs"
    if "composite_extra_bytes ps = composite_extra_bytes qs"
  proof (rule concat_len_prefixed_inj)
    show "concat (map ?enc (map ls_supplement_extra ps)) = concat (map ?enc (map ls_supplement_extra qs))"
      using that unfolding form by simp
  qed (use assms(1) in auto)
  have conv: "composite_base_bytes ps = composite_base_bytes qs" if "map ls_base_hash ps = map ls_base_hash qs"
    using that by (simp add: composite_base_bytes_def)
  have conv': "composite_extra_bytes ps = composite_extra_bytes qs"
    if "map ls_supplement_extra ps = map ls_supplement_extra qs"
    unfolding form using that by simp
  have "sha (composite_extra_bytes ps) \<noteq> []" using assms(2) by (metis length_0_conv zero_neq_numeral)
  then show ?thesis
    using base extra conv conv' assms(2) by (auto simp: partitioned_composite_def Let_def list_all_iff)
qed

definition sample_spec :: "char \<Rightarrow> byte list \<Rightarrow> unit layer_spec" where
  "sample_spec c extra = (sharded_scan (replicate 32 c) (\<lambda>root layers eph. no_op_populate))
     \<lparr>ls_supplement_extra := extra\<rparr>"

theorem composite_keys_exact_witness:
  "composite_extra_bytes [sample_spec CHR ''a'' [], sample_spec CHR ''b'' ''xy'']
     \<noteq> composite_extra_bytes [sample_spec CHR ''b'' ''xy'', sample_spec CHR ''a'' []]"
  using composite_keys_exact [of "[sample_spec CHR ''a'' [], sample_spec CHR ''b'' ''xy'']"
      "[sample_spec CHR ''b'' ''xy'', sample_spec CHR ''a'' []]" "\<lambda>bytes. replicate 32 CHR ''h''"]
  by (simp add: sample_spec_def sharded_scan_def)

end
