(* ===== verification/Ephemeral.thy ===== *)
theory Ephemeral
  imports Command "HOL-Library.Multiset"
begin

section \<open>Verbs that create layers\<close>

text \<open>
  \<open>askld/src/verb/generic/ephemeral.rs\<close>, \<open>search.rs\<close> and \<open>loc.rs\<close>: the operations of a
  \<open>layer\<close> block, the layer specification of the three layer-creating verbs with their cache
  keys and populates, and the scoped inserts and look-ups of
  \<open>index/src/db_diesel/index_impl.rs\<close> they run.  The rows of the content search, computed by a
  function of the database, and the contents of files are parameters.
\<close>

subsection \<open>Rows of a layer\<close>

record eph_symbol_row =
  es_name :: string
  es_path :: string
  es_project_id :: int
  es_symbol_type :: int
  es_scope :: "int option"
  es_leaf_name :: string

record eph_instance_row =
  ei_symbol_id :: int
  ei_object_id :: int
  ei_start :: int
  ei_end :: int
  ei_instance_type :: int

record eph_ref_row =
  er_to_symbol :: int
  er_from_object :: int
  er_start :: int
  er_end :: int

record layer_batch =
  lb_symbols :: "eph_symbol_row list"
  lb_instances :: "eph_instance_row list"
  lb_refs :: "eph_ref_row list"

definition batch_new :: layer_batch where
  "batch_new = \<lparr>lb_symbols = [], lb_instances = [], lb_refs = []\<rparr>"

text \<open>
  The tables the inserts work on, with the three descending id sequences.  \<open>int4range\<close> of
  equal bounds is the empty range, one value whatever the bounds.
\<close>

record eph_data =
  ed_symbols :: "symbol_row list"
  ed_instances :: "instance_row list"
  ed_refs :: "ref_row list"
  ed_objects :: "object_row list"
  ed_next_symbol :: int
  ed_next_instance :: int
  ed_next_ref :: int

definition int4range :: "int \<Rightarrow> int \<Rightarrow> (bound \<times> bound) option" where
  "int4range a b =
     (if b < a then None
      else if a = b then Some (Included 0, Excluded 0) else Some (Included a, Excluded b))"

definition try_offsets :: "int list \<Rightarrow> string \<Rightarrow> string + int list" where
  "try_offsets offs kind =
     collect_results (map (\<lambda>off. if is_i32 off then Inr off else Inl (kind @ '' offset exceeds i32 range'')) offs)"

definition insert_symbols_scoped ::
  "eph_symbol_row list \<Rightarrow> int \<Rightarrow> int \<Rightarrow> eph_data \<Rightarrow> string + (int list \<times> eph_data)" where
  "insert_symbols_scoped rows project_id layer d =
     (let kept = filter (\<lambda>r. es_project_id r = project_id) rows;
          ids = map (\<lambda>i. ed_next_symbol d - int i) [0..<length kept];
          new = map (\<lambda>(i, r). \<lparr>sy_id = i, sy_name = es_name r, sy_path = es_path r,
                   sy_project_id = es_project_id r, sy_type = es_symbol_type r, sy_scope = es_scope r,
                   sy_leaf_name = es_leaf_name r, sy_layer = layer\<rparr>) (zip ids kept)
      in Inr (ids, d\<lparr>ed_symbols := ed_symbols d @ new, ed_next_symbol := ed_next_symbol d - int (length kept)\<rparr>))"

text \<open>The rows whose object is one of the project, as the \<open>JOIN\<close> keeps them.\<close>

definition in_project :: "eph_data \<Rightarrow> int \<Rightarrow> int \<Rightarrow> bool" where
  "in_project d project_id object_id \<longleftrightarrow>
     list_ex (\<lambda>ob. ob_id ob = object_id \<and> ob_project_id ob = project_id) (ed_objects d)"

fun insert_instance_rows :: "eph_instance_row list \<Rightarrow> int \<Rightarrow> eph_data \<Rightarrow> string + eph_data" where
  "insert_instance_rows [] layer d = Inr d"
| "insert_instance_rows (r # rows) layer d =
     (case int4range (ei_start r) (ei_end r) of
        None \<Rightarrow> Inl ''Failed to batch insert eph instances''
      | Some rng \<Rightarrow>
          let row = \<lparr>in_id = ed_next_instance d, in_symbol = ei_symbol_id r, in_object_id = ei_object_id r,
                     in_range = rng, in_type = ei_instance_type r, in_layer = layer\<rparr>;
              d' = d\<lparr>ed_next_instance := ed_next_instance d - 1\<rparr>
          in if list_ex (\<lambda>q. in_symbol q = ei_symbol_id r \<and> in_object_id q = ei_object_id r
                  \<and> in_range q = rng \<and> in_layer q = layer) (ed_instances d)
             then insert_instance_rows rows layer d'
             else if \<not> list_ex (\<lambda>s. sy_id s = ei_symbol_id r) (ed_symbols d)
             then Inl ''ephemeral_instance: symbol_id refers to a row that does not exist''
             else insert_instance_rows rows layer (d'\<lparr>ed_instances := ed_instances d @ [row]\<rparr>))"

definition insert_instances_scoped ::
  "eph_instance_row list \<Rightarrow> int \<Rightarrow> int \<Rightarrow> eph_data \<Rightarrow> string + eph_data" where
  "insert_instances_scoped rows project_id layer d =
     rbind (try_offsets (map ei_start rows) ''start'') (\<lambda>_.
     rbind (try_offsets (map ei_end rows) ''end'') (\<lambda>_.
     insert_instance_rows (filter (\<lambda>r. in_project d project_id (ei_object_id r)) rows) layer d))"

fun insert_ref_rows :: "eph_ref_row list \<Rightarrow> int \<Rightarrow> eph_data \<Rightarrow> string + eph_data" where
  "insert_ref_rows [] layer d = Inr d"
| "insert_ref_rows (r # rows) layer d =
     (case int4range (er_start r) (er_end r) of
        None \<Rightarrow> Inl ''Failed to batch insert eph refs''
      | Some rng \<Rightarrow>
          let row = \<lparr>rf_id = ed_next_ref d, rf_to_symbol = er_to_symbol r, rf_from_object = er_from_object r,
                     rf_from_range = rng, rf_layer = layer\<rparr>;
              d' = d\<lparr>ed_next_ref := ed_next_ref d - 1\<rparr>
          in if list_ex (\<lambda>q. rf_to_symbol q = er_to_symbol r \<and> rf_from_object q = er_from_object r
                  \<and> rf_from_range q = rng \<and> rf_layer q = layer) (ed_refs d)
             then insert_ref_rows rows layer d'
             else if \<not> list_ex (\<lambda>s. sy_id s = er_to_symbol r) (ed_symbols d)
             then Inl ''ephemeral_ref: to_symbol refers to a row that does not exist''
             else insert_ref_rows rows layer (d'\<lparr>ed_refs := ed_refs d @ [row]\<rparr>))"

definition insert_refs_scoped ::
  "eph_ref_row list \<Rightarrow> int \<Rightarrow> int \<Rightarrow> eph_data \<Rightarrow> string + eph_data" where
  "insert_refs_scoped rows project_id layer d =
     rbind (try_offsets (map er_start rows) ''start'') (\<lambda>_.
     rbind (try_offsets (map er_end rows) ''end'') (\<lambda>_.
     insert_ref_rows (filter (\<lambda>r. in_project d project_id (er_from_object r)) rows) layer d))"

definition insert_batch :: "layer_batch \<Rightarrow> int \<Rightarrow> int \<Rightarrow> eph_data \<Rightarrow> string + (int list \<times> eph_data)" where
  "insert_batch batch project_id layer d =
     rbind (insert_symbols_scoped (lb_symbols batch) project_id layer d) (\<lambda>(ids, d).
     rbind (insert_instances_scoped (lb_instances batch) project_id layer d) (\<lambda>d.
     rbind (insert_refs_scoped (lb_refs batch) project_id layer d) (\<lambda>d. Inr (ids, d))))"

subsection \<open>Operations of a layer block\<close>

type_synonym label_resolutions = "(string \<times> int list) list"

definition resolutions_get :: "label_resolutions \<Rightarrow> string \<Rightarrow> int list" where
  "resolutions_get resolved label = (case map_of resolved label of Some ids \<Rightarrow> ids | None \<Rightarrow> [])"

datatype symbol_input = SymLiteral int | SymLabel string

datatype eph_op =
    OpSymbol string int int "int option"
  | OpInstance symbol_input int int int int
  | OpRef symbol_input int int int

definition symbol_input_parse :: "string \<Rightarrow> string \<Rightarrow> verb_error + symbol_input" where
  "symbol_input_parse raw key =
     (case strip_prefix ''@'' raw of
        Some label \<Rightarrow>
          if label = [] then Inl (Bail ''label reference must not be empty'' [key]) else Inr (SymLabel label)
      | None \<Rightarrow>
          (case parse_i64 raw of
             None \<Rightarrow> Inl (Bail ''must be a valid i64 or a label reference'' [key])
           | Some i \<Rightarrow> Inr (SymLiteral i)))"

fun resolve_vec :: "label_resolutions \<Rightarrow> symbol_input \<Rightarrow> int list" where
  "resolve_vec resolved (SymLiteral i) = [i]"
| "resolve_vec resolved (SymLabel l) = resolutions_get resolved l"

fun input_label :: "symbol_input \<Rightarrow> string list" where
  "input_label (SymLiteral i) = []"
| "input_label (SymLabel l) = [l]"

text \<open>The macro \<open>parse_required\<close>.\<close>

definition required_plain :: "named_args \<Rightarrow> string \<Rightarrow> verb_error + string" where
  "required_plain named key =
     (case map_of named key of None \<Rightarrow> Inl (Bail ''requires parameter'' [key]) | Some v \<Rightarrow> plain v)"

definition parse_required :: "(string \<Rightarrow> 'a option) \<Rightarrow> named_args \<Rightarrow> string \<Rightarrow> verb_error + 'a" where
  "parse_required parse named key =
     rbind (required_plain named key) (\<lambda>t.
     case parse t of None \<Rightarrow> Inl (Bail ''must be a valid value'' [key]) | Some a \<Rightarrow> Inr a)"

definition ephemeral_symbol_create :: "val list \<Rightarrow> named_args \<Rightarrow> verb_error + eph_op" where
  "ephemeral_symbol_create positional named =
     rbind (parse_required Some named ''name'') (\<lambda>name.
     rbind (parse_required parse_i32 named ''project_id'') (\<lambda>project_id.
     rbind (parse_required parse_i32 named ''symbol_type'') (\<lambda>symbol_type.
     if \<not> (SYMBOL_TYPE_FUNCTION \<le> symbol_type \<and> symbol_type \<le> SYMBOL_TYPE_FIELD)
     then Inl (Bail ''symbol_type must be between function and field'' [])
     else
     rbind (named_plain named ''scope'') (\<lambda>s.
     (case s of
        None \<Rightarrow> Inr (OpSymbol name project_id symbol_type None)
      | Some t \<Rightarrow> (case parse_i32 t of
                     None \<Rightarrow> Inl (Bail ''scope must be a valid i32'' [])
                   | Some i \<Rightarrow> Inr (OpSymbol name project_id symbol_type (Some i))))))))"


definition ephemeral_instance_create :: "val list \<Rightarrow> named_args \<Rightarrow> verb_error + eph_op" where
  "ephemeral_instance_create positional named =
     rbind (required_plain named ''symbol_id'') (\<lambda>raw.
     rbind (symbol_input_parse raw ''symbol_id'') (\<lambda>symbol.
     rbind (parse_required parse_i32 named ''object_id'') (\<lambda>object_id.
     rbind (parse_required parse_i64 named ''start'') (\<lambda>start.
     rbind (parse_required parse_i64 named ''end'') (\<lambda>stop.
     rbind (parse_required parse_i32 named ''instance_type'') (\<lambda>instance_type.
     if \<not> (INSTANCE_TYPE_DEFINITION \<le> instance_type \<and> instance_type \<le> INSTANCE_TYPE_DOCUMENTATION)
     then Inl (Bail ''instance_type must be between definition and documentation'' [])
     else Inr (OpInstance symbol object_id start stop instance_type)))))))"

definition ephemeral_ref_create :: "val list \<Rightarrow> named_args \<Rightarrow> verb_error + eph_op" where
  "ephemeral_ref_create positional named =
     rbind (required_plain named ''to_symbol'') (\<lambda>raw.
     rbind (symbol_input_parse raw ''to_symbol'') (\<lambda>to_symbol.
     rbind (parse_required parse_i32 named ''from_object'') (\<lambda>from_object.
     rbind (parse_required parse_i64 named ''start'') (\<lambda>start.
     rbind (parse_required parse_i64 named ''end'') (\<lambda>stop.
     Inr (OpRef to_symbol from_object start stop))))))"

definition enc_u64 :: "nat \<Rightarrow> byte list" where "enc_u64 n = le_bytes 8 (int n)"

definition enc_id_list :: "int list \<Rightarrow> byte list" where
  "enc_id_list ids = enc_u64 (length ids) @ concat (map (le_bytes 8) ids)"

fun hash_params :: "label_resolutions \<Rightarrow> eph_op \<Rightarrow> byte list" where
  "hash_params resolved (OpSymbol name project_id symbol_type scope) =
     ''ephemeral_symbol'' @ enc_u64 (length name) @ name @ le_bytes 4 project_id @ le_bytes 4 symbol_type
     @ (case scope of Some s \<Rightarrow> char_of (1::nat) # le_bytes 4 s | None \<Rightarrow> [char_of (0::nat)])"
| "hash_params resolved (OpInstance symbol object_id start stop instance_type) =
     ''ephemeral_instance'' @ enc_id_list (resolve_vec resolved symbol)
     @ le_bytes 4 object_id @ le_bytes 8 start @ le_bytes 8 stop @ le_bytes 4 instance_type"
| "hash_params resolved (OpRef to_symbol from_object start stop) =
     ''ephemeral_ref'' @ enc_id_list (resolve_vec resolved to_symbol)
     @ le_bytes 4 from_object @ le_bytes 8 start @ le_bytes 8 stop"

fun collect_rows :: "label_resolutions \<Rightarrow> eph_op \<Rightarrow> layer_batch \<Rightarrow> layer_batch" where
  "collect_rows resolved (OpSymbol name project_id symbol_type scope) batch =
     (let (path, leaf) = symbol_path_and_leaf name symbol_type
      in batch\<lparr>lb_symbols := lb_symbols batch @
           [\<lparr>es_name = name, es_path = path, es_project_id = project_id, es_symbol_type = symbol_type,
             es_scope = scope, es_leaf_name = leaf\<rparr>]\<rparr>)"
| "collect_rows resolved (OpInstance symbol object_id start stop instance_type) batch =
     batch\<lparr>lb_instances := lb_instances batch @
       map (\<lambda>i. \<lparr>ei_symbol_id = i, ei_object_id = object_id, ei_start = start, ei_end = stop,
                 ei_instance_type = instance_type\<rparr>) (resolve_vec resolved symbol)\<rparr>"
| "collect_rows resolved (OpRef to_symbol from_object start stop) batch =
     batch\<lparr>lb_refs := lb_refs batch @
       map (\<lambda>i. \<lparr>er_to_symbol = i, er_from_object = from_object, er_start = start, er_end = stop\<rparr>)
         (resolve_vec resolved to_symbol)\<rparr>"

fun op_label_refs :: "eph_op \<Rightarrow> string list" where
  "op_label_refs (OpSymbol n p t s) = []"
| "op_label_refs (OpInstance symbol ob st en t) = input_label symbol"
| "op_label_refs (OpRef to_symbol ob st en) = input_label to_symbol"

definition batch_references_eph :: "layer_batch \<Rightarrow> bool" where
  "batch_references_eph b \<longleftrightarrow>
     list_ex (\<lambda>r. ei_symbol_id r < 0) (lb_instances b) \<or> list_ex (\<lambda>r. er_to_symbol r < 0) (lb_refs b)"

definition merge_batch :: "layer_batch \<Rightarrow> layer_batch \<Rightarrow> layer_batch" where
  "merge_batch dst src = \<lparr>lb_symbols = lb_symbols dst @ lb_symbols src,
     lb_instances = lb_instances dst @ lb_instances src, lb_refs = lb_refs dst @ lb_refs src\<rparr>"

subsection \<open>The \<open>layer\<close> block\<close>

definition op_batch :: "label_resolutions \<Rightarrow> eph_op \<Rightarrow> layer_batch" where
  "op_batch resolved op = collect_rows resolved op batch_new"

fun classify_ops ::
  "label_resolutions \<Rightarrow> eph_op list \<Rightarrow> eph_op list \<times> eph_op list \<times> layer_batch \<times> layer_batch
    \<Rightarrow> eph_op list \<times> eph_op list \<times> layer_batch \<times> layer_batch" where
  "classify_ops resolved [] acc = acc"
| "classify_ops resolved (op # ops) (base_ops, supp_ops, base_batch, supp_batch) =
     (let probe = op_batch resolved op
      in classify_ops resolved ops
           (if batch_references_eph probe
            then (base_ops, supp_ops @ [op], base_batch, merge_batch supp_batch probe)
            else (base_ops @ [op], supp_ops, merge_batch base_batch probe, supp_batch)))"

definition layer_base_bytes :: "label_resolutions \<Rightarrow> eph_op list \<Rightarrow> byte list" where
  "layer_base_bytes resolved base_ops = ''layer'' @ concat (map (hash_params resolved) base_ops)"

definition layer_extra_bytes :: "label_resolutions \<Rightarrow> eph_op list \<Rightarrow> byte list" where
  "layer_extra_bytes resolved supp_ops = ''layer-supplement-ops-v1'' @ concat (map (hash_params resolved) supp_ops)"

datatype spec_error =
    EmptyLayerBlock
  | EphReferenceWithoutChain
  | InvisibleProject int
  | UnknownObject int
  | InvisibleObject int int
  | IndexFailed string

fun check_objects :: "(int \<rightharpoonup> int) \<Rightarrow> int list \<Rightarrow> int list \<Rightarrow> spec_error + unit" where
  "check_objects known visible_projects [] = Inr ()"
| "check_objects known visible_projects (i # ids) =
     (case known i of
        None \<Rightarrow> Inl (UnknownObject i)
      | Some p \<Rightarrow> if p \<notin> set visible_projects then Inl (InvisibleObject i p)
                 else check_objects known visible_projects ids)"

definition insert_populate :: "layer_batch \<Rightarrow> root_layer \<Rightarrow> eph_data populate" where
  "insert_populate batch root layer_id d =
     rbind (insert_batch batch (rt_project_id root) layer_id d) (\<lambda>(ids, d'). Inr (False, d'))"

text \<open>\<open>load_object_projects\<close> is a look-up of the database, a failed one \<open>None\<close>.\<close>

definition layer_verb_spec ::
  "sha \<Rightarrow> (int list \<Rightarrow> (int \<times> int) list option) \<Rightarrow> eph_op list \<Rightarrow> eph_context \<Rightarrow> label_resolutions
    \<Rightarrow> spec_error + eph_data layer_spec" where
  "layer_verb_spec sha load_object_projects ops ec resolved =
     (if ops = [] then Inl EmptyLayerBlock
      else
      let (base_ops, supp_ops, base_batch, supp_batch) = classify_ops resolved ops ([], [], batch_new, batch_new)
      in if supp_ops \<noteq> [] \<and> \<not> has_chain ec then Inl EphReferenceWithoutChain
      else
      let base_hash = sha (layer_base_bytes resolved base_ops);
          extra = (if supp_ops = [] then [] else sha (layer_extra_bytes resolved supp_ops));
          visible_projects = map rt_project_id (ec_roots ec)
      in case find (\<lambda>r. es_project_id r \<notin> set visible_projects) (lb_symbols base_batch @ lb_symbols supp_batch) of
           Some r \<Rightarrow> Inl (InvisibleProject (es_project_id r))
         | None \<Rightarrow>
      let object_ids = sort_dedup (map ei_object_id (lb_instances base_batch @ lb_instances supp_batch)
                         @ map er_from_object (lb_refs base_batch @ lb_refs supp_batch))
      in rbind (if object_ids = [] then Inr ()
                else (case load_object_projects object_ids of
                        None \<Rightarrow> Inl (IndexFailed ''Failed to load object projects'')
                      | Some known \<Rightarrow> check_objects (map_of known) visible_projects object_ids)) (\<lambda>_.
         Inr \<lparr>ls_base_hash = base_hash,
              ls_base_populate = insert_populate base_batch,
              ls_supplement_populate = (\<lambda>root base_ref. insert_populate supp_batch root),
              ls_per_layer_populate = None,
              ls_supplement_extra = extra\<rparr>))"

subsection \<open>Content search\<close>

record search_match =
  sm_object_id :: int
  sm_project_id :: int
  sm_start :: int
  sm_end :: int

text \<open>
  What the SQL of the search gives for the query, case and word flags, the \<open>LIMIT\<close>, the
  project and layer arrays and the branch; \<open>None\<close> is a database error.
\<close>

type_synonym search_rows =
  "eph_data \<Rightarrow> string \<Rightarrow> bool \<Rightarrow> bool \<Rightarrow> int \<Rightarrow> int list \<Rightarrow> int list \<Rightarrow> bool \<Rightarrow> search_match list option"

definition limit_plus_one :: "nat \<Rightarrow> int" where
  "limit_plus_one limit = sat_add_i32 (as_i32 (int limit)) 1"

text \<open>The probe for the filter's object predicate on the project; \<open>holds\<close> reads one object.\<close>

definition project_passes ::
  "(object_row \<Rightarrow> sql_atom \<Rightarrow> bool) \<Rightarrow> composite_filter \<Rightarrow> int \<Rightarrow> eph_data \<Rightarrow> bool" where
  "project_passes holds f project_id d =
     (case compose_objects f of
        None \<Rightarrow> True
      | Some e \<Rightarrow> list_ex (\<lambda>ob. eval_expr (holds ob) e \<and> ob_project_id ob = project_id) (ed_objects d))"

definition search_content_matches_on ::
  "search_rows \<Rightarrow> (object_row \<Rightarrow> sql_atom \<Rightarrow> bool) \<Rightarrow> string \<Rightarrow> bool \<Rightarrow> bool \<Rightarrow> composite_filter \<Rightarrow> nat
    \<Rightarrow> int \<Rightarrow> int list \<Rightarrow> bool \<Rightarrow> eph_data \<Rightarrow> string + (search_match list \<times> bool)" where
  "search_content_matches_on rows_of holds query case_sensitive whole_word f limit project_id
      visible_layers eph_branch d =
     (let project_ids = (if project_passes holds f project_id d then [project_id] else [])
      in case rows_of d query case_sensitive whole_word (limit_plus_one limit) project_ids visible_layers eph_branch of
           None \<Rightarrow> Inl ''Failed to run search content query''
         | Some rows \<Rightarrow> Inr (take limit rows, limit < length rows))"

definition search_base_bytes :: "string \<Rightarrow> bool \<Rightarrow> bool \<Rightarrow> nat \<Rightarrow> composite_filter \<Rightarrow> byte list" where
  "search_base_bytes query case_sensitive whole_word limit f =
     ''search'' @ enc_u64 (length query) @ query @ enc_bool case_sensitive @ enc_bool whole_word
     @ enc_u64 limit @ cf_hash_into f"

text \<open>\<open>char::is_control\<close> on ASCII.\<close>

definition is_control :: "char \<Rightarrow> bool" where
  "is_control c \<longleftrightarrow> (of_char c :: nat) < 32 \<or> (of_char c :: nat) = 127"

definition sanitise_for_symbol_name :: "string \<Rightarrow> string" where
  "sanitise_for_symbol_name q = map (\<lambda>c. if c = CHR '':'' \<or> is_control c then CHR ''?'' else c) q"

definition search_scan ::
  "search_rows \<Rightarrow> (object_row \<Rightarrow> sql_atom \<Rightarrow> bool) \<Rightarrow> string \<Rightarrow> bool \<Rightarrow> bool \<Rightarrow> nat \<Rightarrow> composite_filter
    \<Rightarrow> eph_data sharded_scan" where
  "search_scan rows_of holds query case_sensitive whole_word limit f root visible_layers eph_branch layer_id d =
     rbind (search_content_matches_on rows_of holds query case_sensitive whole_word f limit
              (rt_project_id root) visible_layers eph_branch d) (\<lambda>(matches, truncated).
     if matches = [] then Inr (truncated, d)
     else
     let sym_name = ''search:'' @ sanitise_for_symbol_name query;
         (path, leaf) = symbol_path_and_leaf sym_name SYMBOL_TYPE_CONTENT
     in rbind (insert_batch (batch_new\<lparr>lb_symbols :=
            [\<lparr>es_name = sym_name, es_path = path, es_project_id = rt_project_id root,
              es_symbol_type = SYMBOL_TYPE_CONTENT, es_scope = None, es_leaf_name = leaf\<rparr>]\<rparr>)
          (rt_project_id root) layer_id d) (\<lambda>(ids, d).
        rbind (insert_batch (batch_new\<lparr>lb_instances :=
            map (\<lambda>m. \<lparr>ei_symbol_id = hd ids, ei_object_id = sm_object_id m, ei_start = sm_start m,
                      ei_end = sm_end m, ei_instance_type = INSTANCE_TYPE_DEFINITION\<rparr>) matches\<rparr>)
          (rt_project_id root) layer_id d) (\<lambda>(_, d).
        Inr (truncated, d))))"

definition search_verb_spec ::
  "sha \<Rightarrow> search_rows \<Rightarrow> (object_row \<Rightarrow> sql_atom \<Rightarrow> bool) \<Rightarrow> string \<Rightarrow> bool \<Rightarrow> bool \<Rightarrow> nat
    \<Rightarrow> composite_filter \<Rightarrow> eph_data layer_spec" where
  "search_verb_spec sha rows_of holds query case_sensitive whole_word limit f =
     sharded_scan (sha (search_base_bytes query case_sensitive whole_word limit f))
       (search_scan rows_of holds query case_sensitive whole_word limit f)"

text \<open>\<open>format!\<close> of a \<open>usize\<close> and of a string with \<open>{:?}\<close>.\<close>

fun nat_digits :: "nat \<Rightarrow> nat \<Rightarrow> nat \<Rightarrow> string" where
  "nat_digits base 0 n = []"
| "nat_digits base (Suc fuel) n =
     (let digit = (\<lambda>k. char_of (if k < 10 then 48 + k else 87 + k)) in
      if n < base then [digit n] else nat_digits base fuel (n div base) @ [digit (n mod base)])"

definition show_nat :: "nat \<Rightarrow> string" where "show_nat n = nat_digits 10 (Suc n) n"

definition debug_char :: "char \<Rightarrow> string" where
  "debug_char c =
     (if c = CHR 0x22 \<or> c = CHR 0x5C then [CHR 0x5C, c]
      else if c = CHR 0x0A then CHR 0x5C # ''n'' else if c = CHR 0x0D then CHR 0x5C # ''r''
      else if c = CHR 0x09 then CHR 0x5C # ''t'' else if c = CHR 0x00 then CHR 0x5C # ''0''
      else if is_control c then CHR 0x5C # ''u{'' @ nat_digits 16 (Suc (of_char c)) (of_char c) @ ''}''
      else [c])"

definition debug_str :: "string \<Rightarrow> string" where
  "debug_str s = CHR 0x22 # concat (map debug_char s) @ [CHR 0x22]"

definition search_truncation_warning :: "span \<Rightarrow> string \<Rightarrow> nat \<Rightarrow> diagnostic" where
  "search_truncation_warning sp query limit =
     diagnostic_note sp (''search('' @ debug_str query @ ''): result truncated at '' @ show_nat limit
       @ '' matches in at least one project; narrow the query (more specific text, project(''
       @ debug_str ''name'' @ ''), whole_word='' @ debug_str ''true'' @ '')'')"

subsection \<open>A line of a file\<close>

record file_match =
  fm_file_id :: int
  fm_project_id :: int
  fm_line_start :: int
  fm_line_end :: int

definition loc_base_bytes :: "string \<Rightarrow> nat \<Rightarrow> string option \<Rightarrow> byte list" where
  "loc_base_bytes file_path line project =
     ''loc'' @ enc_u64 (length file_path) @ file_path @ enc_u64 line
     @ (case project of Some p \<Rightarrow> char_of (1::nat) # p | None \<Rightarrow> [char_of (0::nat)])"

text \<open>
  \<open>find_objects_by_path_on\<close>: equal to the path, or ending with it after a slash.  The suffix
  is a LIKE pattern with the path escaped.
\<close>

definition path_matches :: "string \<Rightarrow> string \<Rightarrow> bool" where
  "path_matches path fs_path \<longleftrightarrow>
     fs_path = path \<or> like_reference (''%/'' @ escape_like path) fs_path"

definition find_objects_by_path_on ::
  "project_row list \<Rightarrow> string \<Rightarrow> string option \<Rightarrow> int list \<Rightarrow> bool \<Rightarrow> eph_data \<Rightarrow> (int \<times> int) list" where
  "find_objects_by_path_on projects path project_name visible_layers eph_branch d =
     [(ob_id ob, pr_id p). ob \<leftarrow> ed_objects d, p \<leftarrow> projects,
        pr_id p = ob_project_id ob \<and> path_matches path (ob_filesystem_path ob)
        \<and> ob_layer ob \<in> set visible_layers
        \<and> (case project_name of None \<Rightarrow> True | Some n \<Rightarrow> pr_name p = n)
        \<and> (eph_branch \<longrightarrow> ob_layer ob < 0)]"

text \<open>The loop over the matching files; a file whose content cannot be read is an error.\<close>

fun loc_file_matches :: "(int \<Rightarrow> string option) \<Rightarrow> nat \<Rightarrow> (int \<times> int) list \<Rightarrow> string + file_match list" where
  "loc_file_matches content_of line [] = Inr []"
| "loc_file_matches content_of line ((file_id, project_id) # ms) =
     (case content_of file_id of
        None \<Rightarrow> Inl ''Failed to load object content''
      | Some content \<Rightarrow>
          (case line_to_offset content line of
             None \<Rightarrow> loc_file_matches content_of line ms
           | Some line_start \<Rightarrow>
               rbind (loc_file_matches content_of line ms) (\<lambda>rest.
               Inr (\<lparr>fm_file_id = file_id, fm_project_id = project_id, fm_line_start = line_start,
                     fm_line_end = next_line_offset content line_start\<rparr> # rest))))"

definition loc_resolve ::
  "project_row list \<Rightarrow> (int \<Rightarrow> string option) \<Rightarrow> string \<Rightarrow> nat \<Rightarrow> string option \<Rightarrow> int list \<Rightarrow> bool
    \<Rightarrow> eph_data \<Rightarrow> string + file_match list" where
  "loc_resolve projects content_of file_path line project visible_layers eph_branch d =
     (let matches = find_objects_by_path_on projects file_path project visible_layers eph_branch d
      in if matches = []
         then (if \<not> eph_branch then Inl ''loc: no file matching found in index'' else Inr [])
         else rbind (loc_file_matches content_of line matches) (\<lambda>file_matches.
              if file_matches = [] \<and> \<not> eph_branch then Inl ''loc: line out of range for all files matching''
              else Inr file_matches))"

definition loc_build_instances ::
  "string \<Rightarrow> nat \<Rightarrow> file_match list \<Rightarrow> root_layer \<Rightarrow> eph_data populate" where
  "loc_build_instances file_path line file_matches root layer_id d =
     (let root_matches = filter (\<lambda>m. fm_project_id m = rt_project_id root) file_matches;
          sym_name = ''loc:'' @ file_path @ '':'' @ show_nat line;
          (path, leaf) = symbol_path_and_leaf sym_name SYMBOL_TYPE_CONTENT
      in rbind (insert_batch (batch_new\<lparr>lb_symbols := map (\<lambda>m.
            \<lparr>es_name = sym_name, es_path = path, es_project_id = fm_project_id m,
             es_symbol_type = SYMBOL_TYPE_CONTENT, es_scope = None, es_leaf_name = leaf\<rparr>) root_matches\<rparr>)
          (rt_project_id root) layer_id d) (\<lambda>(ids, d).
         rbind (insert_batch (batch_new\<lparr>lb_instances := map (\<lambda>(m, i).
            \<lparr>ei_symbol_id = i, ei_object_id = fm_file_id m, ei_start = fm_line_start m, ei_end = fm_line_end m,
             ei_instance_type = INSTANCE_TYPE_DEFINITION\<rparr>) (zip root_matches ids)\<rparr>)
          (rt_project_id root) layer_id d) (\<lambda>(_, d).
         Inr (False, d))))"

text \<open>
  The memo of the base resolution is left out: it is the result of the same function of
  objects and contents, which no populate changes.
\<close>

definition loc_verb_spec ::
  "sha \<Rightarrow> project_row list \<Rightarrow> (int \<Rightarrow> string option) \<Rightarrow> eph_context \<Rightarrow> string \<Rightarrow> nat \<Rightarrow> string option
    \<Rightarrow> eph_data layer_spec" where
  "loc_verb_spec sha projects content_of ec file_path line project =
     \<lparr>ls_base_hash = sha (loc_base_bytes file_path line project),
      ls_base_populate = (\<lambda>root layer_id d.
        rbind (loc_resolve projects content_of file_path line project (root_ids ec) False d)
          (\<lambda>ms. loc_build_instances file_path line ms root layer_id d)),
      ls_supplement_populate = (\<lambda>root base_ref. no_op_populate),
      ls_per_layer_populate = Some (\<lambda>root lj base_ref layer_id d.
        rbind (loc_resolve projects content_of file_path line project [lj] True d)
          (\<lambda>ms. loc_build_instances file_path line ms root layer_id d)),
      ls_supplement_extra = []\<rparr>"

subsection \<open>Keys\<close>

lemma enc_u64_split:
  "enc_u64 m @ r = enc_u64 n @ u \<Longrightarrow> m < 2 ^ 64 \<Longrightarrow> n < 2 ^ 64 \<Longrightarrow> m = n \<and> r = u"
  unfolding enc_u64_def by (rule le8_len_split)

lemma le4_split:
  assumes "le_bytes 4 x @ r = le_bytes 4 y @ u" "is_i32 x" "is_i32 y"
  shows "x = y \<and> r = u"
  using append_eq_len [OF assms(1)] le_bytes_i32_inj assms by simp

lemma enc_str64_split:
  assumes "enc_u64 (length s) @ s @ r = enc_u64 (length t) @ t @ u" "length s < 2 ^ 64" "length t < 2 ^ 64"
  shows "s = t \<and> r = u"
proof -
  have "length s = length t \<and> s @ r = t @ u" by (rule enc_u64_split [OF assms])
  then show ?thesis using append_eq_len [of s r t u] by blast
qed

lemma enc_id_list_split:
  assumes "enc_id_list xs @ r = enc_id_list ys @ u" "length xs < 2 ^ 64" "length ys < 2 ^ 64"
    "list_all is_i64 xs" "list_all is_i64 ys"
  shows "xs = ys \<and> r = u"
proof -
  have "length xs = length ys \<and> concat (map (le_bytes 8) xs) @ r = concat (map (le_bytes 8) ys) @ u"
    using assms(1-3) by (intro enc_u64_split) (simp_all add: enc_id_list_def)
  then show ?thesis using concat_le_bytes_split [of is_i64 8 xs ys r u] le_bytes_i64_inj assms(4,5) by blast
qed

lemma enc_opt_i32_split:
  assumes "(case s of Some v \<Rightarrow> char_of (1::nat) # le_bytes 4 v | None \<Rightarrow> [char_of (0::nat)]) @ r
      = (case t of Some v \<Rightarrow> char_of (1::nat) # le_bytes 4 v | None \<Rightarrow> [char_of (0::nat)]) @ u"
    and "\<forall>v. s = Some v \<longrightarrow> is_i32 v" "\<forall>v. t = Some v \<longrightarrow> is_i32 v"
  shows "s = t \<and> r = u"
proof (cases s)
  case None
  with assms(1) show ?thesis by (cases t) simp_all
next
  case (Some v)
  with assms(1) obtain w where t: "t = Some w" by (cases t) simp_all
  have "le_bytes 4 v @ r = le_bytes 4 w @ u" using assms(1) by (simp add: Some t)
  from le4_split [OF this] assms(2,3) show ?thesis by (simp add: Some t)
qed

text \<open>The sizes Rust's types give the fields of an operation.\<close>

fun op_ok :: "label_resolutions \<Rightarrow> eph_op \<Rightarrow> bool" where
  "op_ok resolved (OpSymbol name p t scope) \<longleftrightarrow>
     length name < 2 ^ 64 \<and> is_i32 p \<and> is_i32 t \<and> (\<forall>s. scope = Some s \<longrightarrow> is_i32 s)"
| "op_ok resolved (OpInstance symbol ob st en t) \<longleftrightarrow>
     length (resolve_vec resolved symbol) < 2 ^ 64 \<and> list_all is_i64 (resolve_vec resolved symbol)
     \<and> is_i32 ob \<and> is_i64 st \<and> is_i64 en \<and> is_i32 t"
| "op_ok resolved (OpRef symbol ob st en) \<longleftrightarrow>
     length (resolve_vec resolved symbol) < 2 ^ 64 \<and> list_all is_i64 (resolve_vec resolved symbol)
     \<and> is_i32 ob \<and> is_i64 st \<and> is_i64 en"

lemma hash_params_tag:
  "\<exists>x. hash_params r (OpSymbol n p t s) @ y = ''ephemeral_s'' @ x"
  "\<exists>x. hash_params r (OpInstance i ob st en ty) @ y = ''ephemeral_i'' @ x"
  "\<exists>x. hash_params r (OpRef i ob st en) @ y = ''ephemeral_r'' @ x"
  by simp_all

lemma hash_params_kind:
  assumes "hash_params r a @ x = hash_params q b @ y"
  shows "(\<exists>n p t s. a = OpSymbol n p t s) = (\<exists>n p t s. b = OpSymbol n p t s)
    \<and> (\<exists>i ob st en ty. a = OpInstance i ob st en ty) = (\<exists>i ob st en ty. b = OpInstance i ob st en ty)"
  using assms by (cases a; cases b) simp_all

lemma hash_params_split:
  assumes eq: "hash_params r a @ x = hash_params q b @ y" and ok: "op_ok r a" "op_ok q b"
  shows "op_batch r a = op_batch q b \<and> x = y"
proof (cases a)
  case a: (OpSymbol n p t s)
  then obtain m p' t' s' where b: "b = OpSymbol m p' t' s'" using hash_params_kind [OF eq] by blast
  let ?tail = "\<lambda>s. case s of Some v \<Rightarrow> char_of (1::nat) # le_bytes 4 v | None \<Rightarrow> [char_of (0::nat)]"
  have "enc_u64 (length n) @ n @ (le_bytes 4 p @ le_bytes 4 t @ ?tail s @ x)
      = enc_u64 (length m) @ m @ (le_bytes 4 p' @ le_bytes 4 t' @ ?tail s' @ y)"
    using eq a b by simp
  from enc_str64_split [OF this] ok a b
  have 1: "n = m" "le_bytes 4 p @ (le_bytes 4 t @ ?tail s @ x) = le_bytes 4 p' @ (le_bytes 4 t' @ ?tail s' @ y)"
    by simp_all
  have 2: "p = p'" "le_bytes 4 t @ (?tail s @ x) = le_bytes 4 t' @ (?tail s' @ y)"
    using le4_split [OF 1(2)] ok a b by simp_all
  have 3: "t = t'" "?tail s @ x = ?tail s' @ y"
    using le4_split [OF 2(2)] ok a b by simp_all
  have "s = s' \<and> x = y"
    using enc_opt_i32_split [OF 3(2)] ok a b by simp
  with 1 2 3 show ?thesis by (simp add: a b op_batch_def)
next
  case a: (OpInstance i ob st en ty)
  then obtain j ob' st' en' ty' where b: "b = OpInstance j ob' st' en' ty'" using hash_params_kind [OF eq] by blast
  have "enc_id_list (resolve_vec r i) @ (le_bytes 4 ob @ le_bytes 8 st @ le_bytes 8 en @ le_bytes 4 ty @ x)
      = enc_id_list (resolve_vec q j) @ (le_bytes 4 ob' @ le_bytes 8 st' @ le_bytes 8 en' @ le_bytes 4 ty' @ y)"
    using eq a b by simp
  from enc_id_list_split [OF this] ok a b
  have 1: "resolve_vec r i = resolve_vec q j"
    "le_bytes 4 ob @ (le_bytes 8 st @ le_bytes 8 en @ le_bytes 4 ty @ x)
      = le_bytes 4 ob' @ (le_bytes 8 st' @ le_bytes 8 en' @ le_bytes 4 ty' @ y)" by simp_all
  have 2: "ob = ob'" "le_bytes 8 st @ (le_bytes 8 en @ le_bytes 4 ty @ x) = le_bytes 8 st' @ (le_bytes 8 en' @ le_bytes 4 ty' @ y)"
    using le4_split [OF 1(2)] ok a b by simp_all
  have 3: "st = st'" "le_bytes 8 en @ (le_bytes 4 ty @ x) = le_bytes 8 en' @ (le_bytes 4 ty' @ y)"
    using le8_split [OF 2(2)] ok a b by simp_all
  have 4: "en = en'" "le_bytes 4 ty @ x = le_bytes 4 ty' @ y"
    using le8_split [OF 3(2)] ok a b by simp_all
  have "ty = ty' \<and> x = y" using le4_split [OF 4(2)] ok a b by simp
  with 1 2 3 4 show ?thesis by (simp add: a b op_batch_def)
next
  case a: (OpRef i ob st en)
  then obtain j ob' st' en' where b: "b = OpRef j ob' st' en'"
    using hash_params_kind [OF eq] by (cases b) auto
  have "enc_id_list (resolve_vec r i) @ (le_bytes 4 ob @ le_bytes 8 st @ le_bytes 8 en @ x)
      = enc_id_list (resolve_vec q j) @ (le_bytes 4 ob' @ le_bytes 8 st' @ le_bytes 8 en' @ y)"
    using eq a b by simp
  from enc_id_list_split [OF this] ok a b
  have 1: "resolve_vec r i = resolve_vec q j"
    "le_bytes 4 ob @ (le_bytes 8 st @ le_bytes 8 en @ x) = le_bytes 4 ob' @ (le_bytes 8 st' @ le_bytes 8 en' @ y)"
    by simp_all
  have 2: "ob = ob'" "le_bytes 8 st @ (le_bytes 8 en @ x) = le_bytes 8 st' @ (le_bytes 8 en' @ y)"
    using le4_split [OF 1(2)] ok a b by simp_all
  have 3: "st = st'" "le_bytes 8 en @ x = le_bytes 8 en' @ y"
    using le8_split [OF 2(2)] ok a b by simp_all
  have "en = en' \<and> x = y" using le8_split [OF 3(2)] ok a b by simp
  with 1 2 3 show ?thesis by (simp add: a b op_batch_def)
qed

lemma hash_params_nonempty: "hash_params r op \<noteq> []"
  by (cases op) simp_all

lemma hash_ops_inj:
  "concat (map (hash_params r) xs) = concat (map (hash_params q) ys) \<Longrightarrow>
   list_all (op_ok r) xs \<Longrightarrow> list_all (op_ok q) ys \<Longrightarrow> map (op_batch r) xs = map (op_batch q) ys"
proof (induction xs arbitrary: ys)
  case Nil
  then show ?case using hash_params_nonempty by (cases ys) auto
next
  case (Cons a xs)
  then obtain b ys' where ys: "ys = b # ys'" using hash_params_nonempty by (cases ys) auto
  have "hash_params r a @ concat (map (hash_params r) xs) = hash_params q b @ concat (map (hash_params q) ys')"
    using Cons.prems(1) ys by simp
  from hash_params_split [OF this] Cons.prems(2,3) ys Cons.IH [of ys'] show ?case by simp
qed

subsection \<open>Classification\<close>

definition op_eph :: "label_resolutions \<Rightarrow> eph_op \<Rightarrow> bool" where
  "op_eph resolved op \<longleftrightarrow> batch_references_eph (op_batch resolved op)"

lemma classify_ops_eq:
  "classify_ops r ops (b, s, bb, sb) =
     (b @ filter (\<lambda>op. \<not> op_eph r op) ops, s @ filter (op_eph r) ops,
      foldl merge_batch bb (map (op_batch r) (filter (\<lambda>op. \<not> op_eph r op) ops)),
      foldl merge_batch sb (map (op_batch r) (filter (op_eph r) ops)))"
  by (induction r ops "(b, s, bb, sb)" arbitrary: b s bb sb rule: classify_ops.induct)
     (simp_all add: Let_def op_eph_def)

lemma merge_fold:
  "lb_symbols (foldl merge_batch b bs) = lb_symbols b @ concat (map lb_symbols bs)"
  "lb_instances (foldl merge_batch b bs) = lb_instances b @ concat (map lb_instances bs)"
  "lb_refs (foldl merge_batch b bs) = lb_refs b @ concat (map lb_refs bs)"
  by (induction bs arbitrary: b) (simp_all add: merge_batch_def)

lemma mset_concat_partition:
  "mset (concat (map f (filter p xs)) @ concat (map f (filter (\<lambda>x. \<not> p x) xs))) = mset (concat (map f xs))"
  by (induction xs) auto

lemma check_objects_ok:
  "check_objects known vis ids = Inr () \<Longrightarrow> \<forall>i\<in>set ids. \<exists>p\<in>set vis. known i = Some p"
  by (induction known vis ids rule: check_objects.induct) (auto split: option.splits if_splits)

subsection \<open>Properties\<close>

text \<open>
  The chain-independent cache keys of the three layer-creating verbs.  Within a verb two
  keys agree exactly when the inputs agree (for a \<open>layer\<close> block: only when operation by
  operation the same rows are emitted), and no key of one verb is a key of another, nor of
  a composite.
\<close>

theorem verb_base_keys_exact:
  assumes "length q < 2 ^ 64" "length q' < 2 ^ 64" "n < 2 ^ 64" "n' < 2 ^ 64" "cf_wf f" "cf_wf f'"
    and "length path < 2 ^ 64" "length path' < 2 ^ 64" "line < 2 ^ 64" "line' < 2 ^ 64"
    and "list_all (op_ok r) ops" "list_all (op_ok r') ops'"
  shows "(search_base_bytes q c w n f = search_base_bytes q' c' w' n' f'
        \<longleftrightarrow> q = q' \<and> c = c' \<and> w = w' \<and> n = n' \<and> f = f')
    \<and> (loc_base_bytes path line pr = loc_base_bytes path' line' pr' \<longleftrightarrow> path = path' \<and> line = line' \<and> pr = pr')
    \<and> (layer_base_bytes r ops = layer_base_bytes r' ops' \<longrightarrow> map (op_batch r) ops = map (op_batch r') ops')
    \<and> distinct [search_base_bytes q c w n f, loc_base_bytes path line pr, layer_base_bytes r ops,
                composite_base_bytes (parts :: eph_data layer_spec list)]"
proof (intro conjI)
  show "search_base_bytes q c w n f = search_base_bytes q' c' w' n' f'
      \<longleftrightarrow> q = q' \<and> c = c' \<and> w = w' \<and> n = n' \<and> f = f'"
  proof
    assume eq: "search_base_bytes q c w n f = search_base_bytes q' c' w' n' f'"
    have "enc_u64 (length q) @ q @ (enc_bool c @ enc_bool w @ enc_u64 n @ cf_hash_into f)
        = enc_u64 (length q') @ q' @ (enc_bool c' @ enc_bool w' @ enc_u64 n' @ cf_hash_into f')"
      using eq by (simp add: search_base_bytes_def)
    from enc_str64_split [OF this assms(1,2)]
    have 1: "q = q'" "c = c'" "w = w'" "enc_u64 n @ cf_hash_into f = enc_u64 n' @ cf_hash_into f'"
      by (auto simp: enc_bool_def split: if_splits)
    from enc_u64_split [OF 1(4) assms(3,4)] have 2: "n = n'" "cf_hash_into f = cf_hash_into f'" by simp_all
    with 1 cf_hash_split [of f "[]" f' "[]"] assms(5,6)
    show "q = q' \<and> c = c' \<and> w = w' \<and> n = n' \<and> f = f'" by simp
  qed simp
  show "loc_base_bytes path line pr = loc_base_bytes path' line' pr' \<longleftrightarrow> path = path' \<and> line = line' \<and> pr = pr'"
  proof
    let ?tail = "\<lambda>pr. case pr of Some p \<Rightarrow> char_of (1::nat) # p | None \<Rightarrow> [char_of (0::nat)]"
    assume "loc_base_bytes path line pr = loc_base_bytes path' line' pr'"
    then have "enc_u64 (length path) @ path @ (enc_u64 line @ ?tail pr)
        = enc_u64 (length path') @ path' @ (enc_u64 line' @ ?tail pr')"
      by (simp add: loc_base_bytes_def)
    from enc_str64_split [OF this assms(7,8)]
    have 1: "path = path'" "enc_u64 line @ ?tail pr = enc_u64 line' @ ?tail pr'" by simp_all
    from enc_u64_split [OF 1(2) assms(9,10)] 1(1)
    show "path = path' \<and> line = line' \<and> pr = pr'" by (auto split: option.splits)
  qed simp
  show "layer_base_bytes r ops = layer_base_bytes r' ops' \<longrightarrow> map (op_batch r) ops = map (op_batch r') ops'"
  proof
    assume "layer_base_bytes r ops = layer_base_bytes r' ops'"
    then have "concat (map (hash_params r) ops) = concat (map (hash_params r') ops')"
      by (simp add: layer_base_bytes_def)
    from hash_ops_inj [OF this assms(11,12)] show "map (op_batch r) ops = map (op_batch r') ops'" .
  qed
  show "distinct [search_base_bytes q c w n f, loc_base_bytes path line pr, layer_base_bytes r ops,
      composite_base_bytes parts]"
    by (simp add: search_base_bytes_def loc_base_bytes_def layer_base_bytes_def composite_base_bytes_def)
qed

theorem verb_base_keys_exact_witness:
  "layer_base_bytes [(''a'', [7])] [OpInstance (SymLabel ''a'') 1 0 4 1]
     \<noteq> layer_base_bytes [(''a'', [8])] [OpInstance (SymLabel ''a'') 1 0 4 1]"
  using verb_base_keys_exact [of "''abc''" "''abd''" 5 5 "CLeaf (LeafName ''x'')" "CLeaf (LeafName ''x'')"
      "''f''" "''g''" 1 2 "[(''a'', [7])]" "[OpInstance (SymLabel ''a'') 1 0 4 1]"
      "[(''a'', [8])]" "[OpInstance (SymLabel ''a'') 1 0 4 1]" True True True True None None "[]"]
  by (auto simp: op_batch_def batch_new_def resolutions_get_def is_i32_def is_i64_def i32_min_def i32_max_def
      i64_min_def i64_max_def fits_u32_def)

text \<open>
  A \<open>layer\<close> block that is accepted loses nothing.  Its base and supplement batches
  together hold exactly the rows its operations emit; the base refers to no ephemeral id;
  without a chain there is no supplement; and every symbol, instance and reference row belongs
  to the project of a visible root, so that root's scoped insert takes it.
\<close>

theorem layer_block_keeps_rows:
  assumes ok: "layer_verb_spec sha load ops ec resolved = Inr spec"
    and load: "\<And>ids known. load ids = Some known \<Longrightarrow>
      \<forall>(i, p)\<in>set known. \<exists>ob\<in>set (ed_objects d). ob_id ob = i \<and> ob_project_id ob = p"
  shows "\<exists>base_ops supp_ops base supp. classify_ops resolved ops ([], [], batch_new, batch_new) = (base_ops, supp_ops, base, supp)
    \<and> mset (lb_symbols base @ lb_symbols supp) = mset (concat (map (lb_symbols \<circ> op_batch resolved) ops))
    \<and> mset (lb_instances base @ lb_instances supp) = mset (concat (map (lb_instances \<circ> op_batch resolved) ops))
    \<and> mset (lb_refs base @ lb_refs supp) = mset (concat (map (lb_refs \<circ> op_batch resolved) ops))
    \<and> \<not> batch_references_eph base
    \<and> (\<not> has_chain ec \<longrightarrow> supp = batch_new \<and> ls_supplement_extra spec = [])
    \<and> (\<forall>row\<in>set (lb_symbols base @ lb_symbols supp). \<exists>root\<in>set (ec_roots ec). es_project_id row = rt_project_id root)
    \<and> (\<forall>row\<in>set (lb_instances base @ lb_instances supp).
         \<exists>root\<in>set (ec_roots ec). in_project d (rt_project_id root) (ei_object_id row))
    \<and> (\<forall>row\<in>set (lb_refs base @ lb_refs supp).
         \<exists>root\<in>set (ec_roots ec). in_project d (rt_project_id root) (er_from_object row))"
proof -
  obtain base_ops supp_ops base supp where
    cl: "classify_ops resolved ops ([], [], batch_new, batch_new) = (base_ops, supp_ops, base, supp)"
    by (metis surj_pair)
  note parts = cl [unfolded classify_ops_eq, simplified]
  have rows: "lb_symbols base @ lb_symbols supp = concat (map (lb_symbols \<circ> op_batch resolved) base_ops) @ concat (map (lb_symbols \<circ> op_batch resolved) supp_ops)"
    "lb_instances base @ lb_instances supp = concat (map (lb_instances \<circ> op_batch resolved) base_ops) @ concat (map (lb_instances \<circ> op_batch resolved) supp_ops)"
    "lb_refs base @ lb_refs supp = concat (map (lb_refs \<circ> op_batch resolved) base_ops) @ concat (map (lb_refs \<circ> op_batch resolved) supp_ops)"
    using parts by (auto simp: merge_fold batch_new_def comp_def)
  have msets: "mset (concat (map f base_ops) @ concat (map f supp_ops)) = mset (concat (map f ops))" for f :: "eph_op \<Rightarrow> 'z list"
    using mset_concat_partition [of f "op_eph resolved" ops] parts by (auto simp: union_commute)
  have base_pos: "\<not> batch_references_eph base"
    using parts by (auto simp: batch_references_eph_def merge_fold batch_new_def list_ex_iff op_eph_def)
  let ?vis = "map rt_project_id (ec_roots ec)"
  let ?ids = "sort_dedup (map ei_object_id (lb_instances base @ lb_instances supp) @ map er_from_object (lb_refs base @ lb_refs supp))"
  have facts: "\<not> (supp_ops \<noteq> [] \<and> \<not> has_chain ec)"
    "find (\<lambda>row. es_project_id row \<notin> set ?vis) (lb_symbols base @ lb_symbols supp) = None"
    "?ids = [] \<or> (\<exists>known. load ?ids = Some known \<and> check_objects (map_of known) ?vis ?ids = Inr ())"
    "ls_supplement_extra spec = (if supp_ops = [] then [] else sha (layer_extra_bytes resolved supp_ops))"
    using ok unfolding layer_verb_spec_def cl prod.case Let_def
    by (auto simp: rbind_Inr split: if_splits option.splits simp del: set_sort_dedup)
  have syms: "\<forall>row\<in>set (lb_symbols base @ lb_symbols supp). \<exists>root\<in>set (ec_roots ec). es_project_id row = rt_project_id root"
    using facts(2) by (force simp: find_None_iff)
  have objs: "\<exists>root\<in>set (ec_roots ec). in_project d (rt_project_id root) i" if i: "i \<in> set ?ids" for i
  proof -
    from i facts(3) obtain known where known: "load ?ids = Some known" "check_objects (map_of known) ?vis ?ids = Inr ()"
      by (metis empty_iff list.set(1))
    from check_objects_ok [OF known(2)] i obtain p where p: "p \<in> set ?vis" "map_of known i = Some p" by blast
    from load [OF known(1)] map_of_SomeD [OF p(2)] have "in_project d p i" by (fastforce simp: in_project_def list_ex_iff)
    with p(1) show ?thesis by auto
  qed
  have sub: "ei_object_id ` set (lb_instances base @ lb_instances supp) \<union> er_from_object ` set (lb_refs base @ lb_refs supp) = set ?ids"
    by auto
  have inst: "\<forall>row\<in>set (lb_instances base @ lb_instances supp). \<exists>root\<in>set (ec_roots ec). in_project d (rt_project_id root) (ei_object_id row)"
    using objs sub by blast
  have refs: "\<forall>row\<in>set (lb_refs base @ lb_refs supp). \<exists>root\<in>set (ec_roots ec). in_project d (rt_project_id root) (er_from_object row)"
    using objs sub by blast
  have chainless: "\<not> has_chain ec \<longrightarrow> supp = batch_new \<and> ls_supplement_extra spec = []"
    using facts(1,4) parts by auto
  have m: "mset (lb_symbols base @ lb_symbols supp) = mset (concat (map (lb_symbols \<circ> op_batch resolved) ops))"
    "mset (lb_instances base @ lb_instances supp) = mset (concat (map (lb_instances \<circ> op_batch resolved) ops))"
    "mset (lb_refs base @ lb_refs supp) = mset (concat (map (lb_refs \<circ> op_batch resolved) ops))"
    by (simp_all only: rows msets)
  show ?thesis
    by (rule exI [of _ base_ops], rule exI [of _ supp_ops], rule exI [of _ base], rule exI [of _ supp])
      (intro conjI cl m base_pos chainless syms inst refs)
qed

definition sample_root :: root_layer where
  "sample_root = \<lparr>rt_id = 1, rt_project_id = 3, rt_hash = []\<rparr>"

definition sample_object :: object_row where
  "sample_object = \<lparr>ob_id = 5, ob_project_id = 3, ob_module_path = [], ob_filesystem_path = ''/f'',
     ob_filetype = [], ob_content_hash = [], ob_layer = 1\<rparr>"

definition sample_data :: eph_data where
  "sample_data = \<lparr>ed_symbols = [], ed_instances = [], ed_refs = [], ed_objects = [sample_object],
     ed_next_symbol = -1, ed_next_instance = -1, ed_next_ref = -1\<rparr>"

definition sample_ops :: "eph_op list" where
  "sample_ops = [OpSymbol ''a'' 3 1 None, OpInstance (SymLiteral 9) 5 0 4 1]"

lemma sample_layer_accepted:
  "\<exists>spec. layer_verb_spec (\<lambda>b. b) (\<lambda>ids. Some [(5, 3)]) sample_ops \<lparr>ec_roots = [sample_root], ec_chains = [[]]\<rparr> []
     = Inr spec"
  by (simp add: layer_verb_spec_def sample_ops_def op_batch_def batch_new_def batch_references_eph_def
      merge_batch_def Let_def sample_root_def sort_dedup_def split: prod.splits)

theorem layer_block_keeps_rows_witness:
  "\<exists>base_ops supp_ops base supp. classify_ops [] sample_ops ([], [], batch_new, batch_new) = (base_ops, supp_ops, base, supp)
     \<and> (\<forall>row\<in>set (lb_instances base @ lb_instances supp). in_project sample_data 3 (ei_object_id row))"
proof -
  from sample_layer_accepted obtain spec where
    "layer_verb_spec (\<lambda>b. b) (\<lambda>ids. Some [(5, 3)]) sample_ops \<lparr>ec_roots = [sample_root], ec_chains = [[]]\<rparr> [] = Inr spec" ..
  from layer_block_keeps_rows [OF this, of sample_data] show ?thesis
    by (fastforce simp: sample_data_def sample_object_def sample_root_def)
qed

text \<open>
  C37. The per-project limit of a search below \<open>i32::MAX\<close>: when the database answers with the
  first rows up to the \<open>LIMIT\<close> it is given, the matches are exactly the first \<open>limit\<close> of all
  matches, and the truncation flag tells exactly whether some were left out.
\<close>

theorem search_limit_exact:
  assumes "int limit < i32_max"
    and "rows_of d q c w (limit_plus_one limit) (if project_passes holds f pid d then [pid] else []) layers eph
      = Some (take (nat (limit_plus_one limit)) all_rows)"
  shows "search_content_matches_on rows_of holds q c w f limit pid layers eph d
    = Inr (take limit all_rows, limit < length all_rows)"
proof -
  have "as_i32 (int limit) = int limit" using assms(1) by (intro as_i32_id) (auto simp: i32_min_def)
  then have "nat (limit_plus_one limit) = Suc limit"
    using assms(1) by (simp add: limit_plus_one_def sat_add_i32_def i32_min_def)
  with assms(2) show ?thesis
    unfolding search_content_matches_on_def Let_def by (simp add: min_def)
qed

definition sample_match :: "int \<Rightarrow> search_match" where
  "sample_match i = \<lparr>sm_object_id = 5, sm_project_id = 3, sm_start = i, sm_end = i + 3\<rparr>"

theorem search_limit_exact_witness:
  "search_content_matches_on (\<lambda>d q c w l p ls e. Some (take (nat l) (map sample_match [0, 4, 8])))
     (\<lambda>ob a. True) ''abc'' True True (CAnd []) 2 3 [1] False sample_data
   = Inr (map sample_match [0, 4], True)"
  using search_limit_exact [of 2 "\<lambda>d q c w l p ls e. Some (take (nat l) (map sample_match [0, 4, 8]))" sample_data
      "''abc''" True True "\<lambda>ob a. True" "CAnd []" 3 "[1]" False "map sample_match [0, 4, 8]"]
  by (simp add: i32_max_def)

text \<open>
  Above that bound the conversion \<open>limit as i32\<close> wraps: a limit of \<open>2 ^ 32\<close> asks the database
  for one row and reports it as the complete answer.
\<close>

lemma search_limit_wraps:
  assumes "rows_of d q c w 1 (if project_passes holds f pid d then [pid] else []) layers eph = Some (take 1 all_rows)"
  shows "search_content_matches_on rows_of holds q c w f 4294967296 pid layers eph d = Inr (take 1 all_rows, False)"
proof -
  have "limit_plus_one 4294967296 = 1"
    by (simp add: limit_plus_one_def as_i32_def sat_add_i32_def i32_min_def i32_max_def)
  with assms show ?thesis
    unfolding search_content_matches_on_def Let_def by (simp add: min_def take_Suc split: list.splits)
qed

end
