(* ===== verification/Parser_Context.thy ===== *)
theory Parser_Context
  imports Ephemeral
begin

section \<open>From the parse tree to statements\<close>

text \<open>
  \<open>askld/src/parser.rs\<close>, \<open>parser_context.rs\<close>, \<open>scope.rs\<close>, the verb builders of \<open>verb/mod.rs\<close> and
  \<open>verb/generic/mod.rs\<close>, and \<open>build_statement\<close> of \<open>statement/parse.rs\<close>.  The tree is what the
  grammar \<open>askl.pest\<close> accepts; branches of the builders for other trees are left out.  The
  contexts are shared and mutable, so they are an explicit store: a context is an index into
  \<open>ps_ctxs\<close>, the global context has index 0.
\<close>

subsection \<open>The parse tree\<close>

datatype pvalue = PString string | PPrefixed string string

datatype parg = PPositional pvalue | PNamed string pvalue

datatype pverb =
    PGeneric string "parg list"
  | PLabelShortcut string
  | PInheritLabelShortcut string
  | PUseShortcut string
  | PPlainFilter pvalue
  | PForcedVerb pvalue

datatype pstatement = PStatement span "(span \<times> pverb) list" "pscope option"
  and pscope = PScope span "pstatement list"

subsection \<open>Statements\<close>

datatype stmt = Stmt command rel_type bool "stmt list"

primrec st_command :: "stmt \<Rightarrow> command" where "st_command (Stmt c r u ks) = c"
primrec st_rel :: "stmt \<Rightarrow> rel_type" where "st_rel (Stmt c r u ks) = r"
primrec st_unnest :: "stmt \<Rightarrow> bool" where "st_unnest (Stmt c r u ks) = u"
primrec st_children :: "stmt \<Rightarrow> stmt list" where "st_children (Stmt c r u ks) = ks"

datatype parse_error =
    VerbFailed verb_error
  | RegexReserved
  | UnknownPrefix string
  | NotEphemeral string
  | OutsideLayer string
  | UnknownVerb string
  | ContextPanic

subsection \<open>Contexts\<close>

record parser_ctx =
  pc_prev :: "nat option"
  pc_alternative :: "nat option"
  pc_command :: command
  pc_rel :: rel_type
  pc_default_types :: "int list option"
  pc_has_modifier :: bool
  pc_inherit_modifier :: bool
  pc_eph_ops :: "nat option"

text \<open>
  \<open>ps_fresh\<close> is the next verb identity; \<open>ps_ops\<close> holds the operations of each layer block,
  by the identity of its verb.
\<close>

record parser_state =
  ps_ctxs :: "parser_ctx list"
  ps_fresh :: nat
  ps_ops :: "(nat \<times> eph_op list) list"

type_synonym 'a build = "(parser_state, parse_error, 'a) step"

definition context_new :: "span \<Rightarrow> parser_ctx" where
  "context_new sp = \<lparr>pc_prev = None, pc_alternative = None, pc_command = command_new sp, pc_rel = REFS,
     pc_default_types = None, pc_has_modifier = False, pc_inherit_modifier = False, pc_eph_ops = None\<rparr>"

definition ctx_of :: "parser_state \<Rightarrow> nat \<Rightarrow> parser_ctx" where
  "ctx_of s c = ps_ctxs s ! c"

definition update_ctx :: "nat \<Rightarrow> (parser_ctx \<Rightarrow> parser_ctx) \<Rightarrow> parser_state \<Rightarrow> parser_state" where
  "update_ctx c f s = s\<lparr>ps_ctxs := (ps_ctxs s)[c := f (ctx_of s c)]\<rparr>"

definition modify_ctx :: "nat \<Rightarrow> (parser_ctx \<Rightarrow> parser_ctx) \<Rightarrow> unit build" where
  "modify_ctx c f s = (Inr (), update_ctx c f s)"

definition read_ctx :: "nat \<Rightarrow> (parser_ctx \<Rightarrow> 'a) \<Rightarrow> 'a build" where
  "read_ctx c f s = (Inr (f (ctx_of s c)), s)"

definition fail_with :: "parse_error \<Rightarrow> 'a build" where
  "fail_with e s = (Inl e, s)"

definition fresh_id :: "nat build" where
  "fresh_id s = (Inr (ps_fresh s), s\<lparr>ps_fresh := Suc (ps_fresh s)\<rparr>)"

definition lift_result :: "verb_error + 'a \<Rightarrow> 'a build" where
  "lift_result r s = (map_err VerbFailed r, s)"

definition context_derive :: "nat \<Rightarrow> span \<Rightarrow> nat build" where
  "context_derive from sp s =
     (let p = ctx_of s from;
          (cmd, fresh) = command_derive (ps_fresh s) sp (pc_command p);
          c = \<lparr>pc_prev = Some from, pc_alternative = pc_alternative p, pc_command = cmd, pc_rel = pc_rel p,
               pc_default_types = pc_default_types p, pc_has_modifier = pc_inherit_modifier p,
               pc_inherit_modifier = pc_inherit_modifier p, pc_eph_ops = pc_eph_ops p\<rparr>
      in (Inr (length (ps_ctxs s)), s\<lparr>ps_ctxs := ps_ctxs s @ [c], ps_fresh := fresh\<rparr>))"

definition set_relationship_type_explicit :: "rel_type \<Rightarrow> parser_ctx \<Rightarrow> parser_ctx" where
  "set_relationship_type_explicit r p = p\<lparr>pc_rel := r, pc_has_modifier := True\<rparr>"

definition set_relationship_type_default :: "rel_type \<Rightarrow> parser_ctx \<Rightarrow> parser_ctx" where
  "set_relationship_type_default r p = p\<lparr>pc_rel := r\<rparr>"

definition set_inherit_relationship_modifier :: "bool \<Rightarrow> parser_ctx \<Rightarrow> parser_ctx" where
  "set_inherit_relationship_modifier b p = p\<lparr>pc_inherit_modifier := b\<rparr>"

definition set_relationship_type_inherited :: "rel_type \<Rightarrow> parser_ctx \<Rightarrow> parser_ctx" where
  "set_relationship_type_inherited r p =
     set_inherit_relationship_modifier True (set_relationship_type_explicit r p)"

definition set_default_symbol_types :: "int list \<Rightarrow> parser_ctx \<Rightarrow> parser_ctx" where
  "set_default_symbol_types ts p = p\<lparr>pc_default_types := Some ts\<rparr>"

definition has_type_selector :: "parser_ctx \<Rightarrow> bool" where
  "has_type_selector p = has_suppress_default_type_filter (pc_command p)"

text \<open>The alternative context a preamble set, or the context itself.\<close>

definition target_ctx :: "parser_state \<Rightarrow> nat \<Rightarrow> nat" where
  "target_ctx s c = (case pc_alternative (ctx_of s c) of Some a \<Rightarrow> a | None \<Rightarrow> c)"

subsection \<open>Effects of verbs on the context\<close>

definition type_default_types :: "int \<Rightarrow> int list" where
  "type_default_types t =
     (if t = SYMBOL_TYPE_FUNCTION then [SYMBOL_TYPE_FUNCTION]
      else if t = SYMBOL_TYPE_TYPE then [SYMBOL_TYPE_TYPE]
      else if t = SYMBOL_TYPE_FIELD then [SYMBOL_TYPE_FUNCTION]
      else if t = SYMBOL_TYPE_MACRO then [SYMBOL_TYPE_MACRO, SYMBOL_TYPE_FUNCTION]
      else if t = SYMBOL_TYPE_MODULE then [SYMBOL_TYPE_MODULE, SYMBOL_TYPE_FUNCTION]
      else if t = SYMBOL_TYPE_FILE then [SYMBOL_TYPE_FUNCTION, SYMBOL_TYPE_MODULE]
      else if t = SYMBOL_TYPE_DIRECTORY then [SYMBOL_TYPE_DIRECTORY, SYMBOL_TYPE_FILE]
      else [SYMBOL_TYPE_FUNCTION])"

text \<open>\<open>Verb::update_context\<close>: true when the verb is consumed.  The preamble panics on a context without a parent.\<close>

definition update_context :: "verb \<Rightarrow> nat \<Rightarrow> bool build" where
  "update_context v c =
     (case vb_kind v of
        VHas \<Rightarrow> sbind (modify_ctx c (set_relationship_type_inherited HAS)) (\<lambda>_. sreturn True)
      | VRefs \<Rightarrow> sbind (modify_ctx c (set_relationship_type_inherited REFS)) (\<lambda>_. sreturn True)
      | VDerive rel inherit \<Rightarrow>
          sbind (modify_ctx c (set_inherit_relationship_modifier inherit \<circ> set_relationship_type_explicit rel))
            (\<lambda>_. sreturn True)
      | VType t n f i l \<Rightarrow>
          sbind (modify_ctx c (set_default_symbol_types (type_default_types t))) (\<lambda>_. sreturn False)
      | VFilter (FKType ids) True \<Rightarrow>
          sbind (modify_ctx c (set_default_symbol_types
                  (if SYMBOL_TYPE_FUNCTION \<in> set ids then ids else ids @ [SYMBOL_TYPE_FUNCTION])))
            (\<lambda>_. sreturn False)
      | VPreamble \<Rightarrow>
          sbind (read_ctx c pc_prev) (\<lambda>prev.
          case prev of
            None \<Rightarrow> fail_with ContextPanic
          | Some p \<Rightarrow>
              sbind (read_ctx p pc_prev) (\<lambda>pp.
              if pp \<noteq> None
              then fail_with (VerbFailed (Bail ''Preamble verb can only be used as the first verb statement in the askl code'' []))
              else sbind (modify_ctx c (\<lambda>x. x\<lparr>pc_alternative := Some p\<rparr>)) (\<lambda>_. sreturn True)))
      | VLayer \<Rightarrow>
          sbind (read_ctx c pc_eph_ops) (\<lambda>ops.
          if ops \<noteq> None then fail_with (VerbFailed (Bail ''nested layer blocks are not allowed'' []))
          else sbind (modify_ctx c (\<lambda>x. x\<lparr>pc_eph_ops := Some (vb_id v)\<rparr>)) (\<lambda>_. sreturn False))
      | _ \<Rightarrow> sreturn False)"

definition consume :: "nat \<Rightarrow> verb \<Rightarrow> verb option build" where
  "consume c v s =
     sbind (update_context v (target_ctx s c)) (\<lambda>consumed. sreturn (if consumed then None else Some v)) s"

definition extend_verb :: "nat \<Rightarrow> verb \<Rightarrow> unit build" where
  "extend_verb c v s =
     modify_ctx (target_ctx s c) (\<lambda>p. p\<lparr>pc_command := command_extend v (pc_command p)\<rparr>) s"

text \<open>\<open>ParserContext::command\<close> takes the command; one without selectors gets the unit verb.\<close>

definition take_command :: "nat \<Rightarrow> span \<Rightarrow> command build" where
  "take_command c sp =
     sbind (read_ctx c pc_command) (\<lambda>cmd.
     sbind (modify_ctx c (\<lambda>p. p\<lparr>pc_command := command_default\<rparr>)) (\<lambda>_.
     if command_selectors cmd = []
     then sbind fresh_id (\<lambda>i. sreturn (command_extend \<lparr>vb_id = i, vb_span = sp, vb_kind = VUnit\<rparr> cmd))
     else sreturn cmd))"

subsection \<open>Building verbs\<close>

fun value_build :: "pvalue \<Rightarrow> parse_error + val" where
  "value_build (PString t) = Inr (VStr Plain t)"
| "value_build (PPrefixed tag t) =
     (if tag = ''g'' then Inr (VStr Glob t)
      else if tag = ''re'' then Inl RegexReserved else Inl (UnknownPrefix tag))"

fun build_args :: "parg list \<Rightarrow> val list \<Rightarrow> named_args \<Rightarrow> parse_error + val list \<times> named_args" where
  "build_args [] positional named = Inr (positional, named)"
| "build_args (PPositional v # args) positional named =
     rbind (value_build v) (\<lambda>x. build_args args (positional @ [x]) named)"
| "build_args (PNamed n v # args) positional named =
     rbind (value_build v) (\<lambda>x. build_args args positional (AList.update n x named))"

definition ephemeral_names :: "string list" where
  "ephemeral_names = [''ephemeral_symbol'', ''ephemeral_instance'', ''ephemeral_ref'']"

definition new_op :: "string \<Rightarrow> val list \<Rightarrow> named_args \<Rightarrow> verb_error + eph_op" where
  "new_op ident positional named =
     (if ident = ''ephemeral_symbol'' then ephemeral_symbol_create positional named
      else if ident = ''ephemeral_instance'' then ephemeral_instance_create positional named
      else ephemeral_ref_create positional named)"

text \<open>The constructor of each verb name; \<open>None\<close> is an unknown verb.\<close>

definition verb_constructor :: "string \<Rightarrow> (val list \<Rightarrow> named_args \<Rightarrow> verb_error + verb_kind) option" where
  "verb_constructor ident = map_of
     [(''select'', select_new), (''filter'', filter_new), (''ignore'', ignore_new),
      (''project'', project_new), (''forced'', forced_new), (''scope'', isolated_new),
      (''label'', label_new), (''use'', use_new), (''preamble'', preamble_new),
      (''has'', has_new), (''refs'', refs_new), (''derive'', derive_new),
      (''unnest'', unnest_new), (''any'', any_new),
      (''func'', \<lambda>p n. type_selector_new p n SYMBOL_TYPE_FUNCTION),
      (''file'', \<lambda>p n. type_selector_new p n SYMBOL_TYPE_FILE),
      (''mod'', \<lambda>p n. type_selector_new p n SYMBOL_TYPE_MODULE),
      (''dir'', \<lambda>p n. type_selector_new p n SYMBOL_TYPE_DIRECTORY),
      (''type'', \<lambda>p n. type_selector_new p n SYMBOL_TYPE_TYPE),
      (''data'', \<lambda>p n. type_selector_new p n SYMBOL_TYPE_DATA),
      (''macro'', \<lambda>p n. type_selector_new p n SYMBOL_TYPE_MACRO),
      (''field'', \<lambda>p n. type_selector_new p n SYMBOL_TYPE_FIELD),
      (''method'', \<lambda>p n. type_selector_new p n SYMBOL_TYPE_FIELD),
      (''loc'', loc_new), (''search'', search_new), (''layer'', layer_new),
      (''_'', \<lambda>p n. Inr VUnit)] ident"

definition push_op :: "nat \<Rightarrow> eph_op \<Rightarrow> unit build" where
  "push_op layer op s =
     (Inr (), s\<lparr>ps_ops := AList.update layer
        ((case map_of (ps_ops s) layer of None \<Rightarrow> [] | Some ops \<Rightarrow> ops) @ [op]) (ps_ops s)\<rparr>)"

definition build_generic_verb :: "nat \<Rightarrow> string \<Rightarrow> parg list \<Rightarrow> verb_kind build" where
  "build_generic_verb c ident args =
     sbind (\<lambda>s. (build_args args [] [], s)) (\<lambda>(positional, named).
     sbind (read_ctx c pc_eph_ops) (\<lambda>eph_ops.
     if eph_ops \<noteq> None \<and> ident \<notin> set (''_'' # ephemeral_names) then fail_with (NotEphemeral ident)
     else if ident \<in> set ephemeral_names
     then (case eph_ops of
             None \<Rightarrow> fail_with (OutsideLayer ident)
           | Some layer \<Rightarrow>
               sbind (lift_result (new_op ident positional named)) (\<lambda>op.
               sbind (push_op layer op) (\<lambda>_. sreturn VUnit)))
     else (case verb_constructor ident of
             None \<Rightarrow> fail_with (UnknownVerb ident)
           | Some new \<Rightarrow> lift_result (new positional named))))"

definition shortcut_kind :: "pverb \<Rightarrow> parse_error + verb_kind" where
  "shortcut_kind pv =
     (case pv of
        PLabelShortcut l \<Rightarrow> map_err VerbFailed (label_new [value_plain l] [])
      | PInheritLabelShortcut l \<Rightarrow>
          map_err VerbFailed (label_new [value_plain l] [(''inherit'', value_plain ''true'')])
      | PUseShortcut l \<Rightarrow> map_err VerbFailed (use_new [value_plain l] [])
      | PPlainFilter v \<Rightarrow> rbind (value_build v) (\<lambda>x. map_err VerbFailed (name_selector_new [] [(''name'', x)]))
      | PForcedVerb v \<Rightarrow> rbind (value_build v) (\<lambda>x. map_err VerbFailed (forced_new [] [(''name'', x)]))
      | PGeneric n args \<Rightarrow> Inl (UnknownVerb n))"

definition build_verb :: "nat \<Rightarrow> span \<times> pverb \<Rightarrow> unit build" where
  "build_verb c spv =
     (case spv of (sp, pv) \<Rightarrow>
     sbind (case pv of
              PGeneric ident args \<Rightarrow> build_generic_verb c ident args
            | _ \<Rightarrow> sbind (read_ctx c pc_eph_ops) (\<lambda>eph_ops.
                    if eph_ops \<noteq> None then fail_with (NotEphemeral []) else (\<lambda>s. (shortcut_kind pv, s)))) (\<lambda>kind.
     sbind fresh_id (\<lambda>i.
     sbind (consume c \<lparr>vb_id = i, vb_span = sp, vb_kind = kind\<rparr>) (\<lambda>kept.
     case kept of None \<Rightarrow> sreturn () | Some v \<Rightarrow> extend_verb c v))))"

fun build_verbs :: "nat \<Rightarrow> (span \<times> pverb) list \<Rightarrow> unit build" where
  "build_verbs c [] = sreturn ()"
| "build_verbs c (v # vs) = sbind (build_verb c v) (\<lambda>_. build_verbs c vs)"

subsection \<open>Building statements\<close>

definition add_default_types :: "nat \<Rightarrow> span \<Rightarrow> int list \<Rightarrow> unit build" where
  "add_default_types c sp types =
     (if types = [] then sreturn ()
      else sbind fresh_id (\<lambda>i. extend_verb c \<lparr>vb_id = i, vb_span = sp, vb_kind = VDefaultType types\<rparr>))"

definition or_default :: "'a list option \<Rightarrow> 'a list" where
  "or_default opt = (case opt of Some xs \<Rightarrow> xs | None \<Rightarrow> [])"

definition build_empty_statement :: "nat \<Rightarrow> span \<Rightarrow> stmt build" where
  "build_empty_statement c sp =
     sbind (context_derive c sp) (\<lambda>sub.
     sbind (read_ctx sub pc_default_types) (\<lambda>types.
     sbind (add_default_types sub sp (or_default types)) (\<lambda>_.
     sbind (take_command sub sp) (\<lambda>cmd.
     sbind (read_ctx sub pc_rel) (\<lambda>rel.
     sreturn (Stmt cmd rel False []))))))"

text \<open>What \<open>build_statement\<close> does before its scope is built, and after.\<close>

definition enter_scope :: "nat \<Rightarrow> unit build" where
  "enter_scope sub =
     sbind (read_ctx sub pc_has_modifier) (\<lambda>has_modifier.
     sbind (if has_modifier then sreturn ()
            else modify_ctx sub (set_relationship_type_default (rel_union REFS HAS))) (\<lambda>_.
     modify_ctx sub (set_default_symbol_types [])))"

definition leave_statement ::
  "nat \<Rightarrow> span \<Rightarrow> rel_type \<Rightarrow> int list option \<Rightarrow> (span \<times> pverb) list \<Rightarrow> bool \<Rightarrow> stmt list \<Rightarrow> stmt build" where
  "leave_statement sub sp inherited_rel inherited_types verbs real_children kids =
     sbind (modify_ctx sub (set_relationship_type_default inherited_rel)) (\<lambda>_.
     sbind (read_ctx sub has_type_selector) (\<lambda>typed.
     sbind (if typed then sreturn () else add_default_types sub sp (or_default inherited_types)) (\<lambda>_.
     sbind (take_command sub sp) (\<lambda>cmd.
     sbind (read_ctx sub pc_rel) (\<lambda>rel.
     let cmd = (if real_children \<and> verbs \<noteq> []
                then set_verb_span (sub_span sp (sp_start sp) (sp_end (fst (last verbs)))) cmd else cmd)
     in sreturn (Stmt cmd rel (has_verb_tag TagUnnest cmd) kids))))))"

text \<open>A scope inside a layer block has no statements of its own: its operations are collected.\<close>

fun build_statement :: "nat \<Rightarrow> pstatement \<Rightarrow> stmt build"
  and build_statements :: "nat \<Rightarrow> pstatement list \<Rightarrow> stmt list build" where
  "build_statement c (PStatement sp verbs scope) =
     sbind (context_derive c sp) (\<lambda>sub.
     sbind (read_ctx sub (\<lambda>p. (pc_rel p, pc_default_types p))) (\<lambda>(inherited_rel, inherited_types).
     sbind (build_verbs sub verbs) (\<lambda>_.
     sbind (case scope of
              None \<Rightarrow> sreturn (False, [])
            | Some (PScope scope_sp stmts) \<Rightarrow>
                sbind (enter_scope sub) (\<lambda>_.
                sbind (if stmts = [] then sbind (build_empty_statement sub scope_sp) (\<lambda>e. sreturn [e])
                       else build_statements sub stmts) (\<lambda>kids.
                sbind (read_ctx sub pc_eph_ops) (\<lambda>eph_ops.
                sreturn (stmts \<noteq> [], if eph_ops \<noteq> None then [] else kids))))) (\<lambda>(real_children, kids).
     leave_statement sub sp inherited_rel inherited_types verbs real_children kids))))"
| "build_statements c [] = sreturn []"
| "build_statements c (p # ps) =
     sbind (build_statement c p) (\<lambda>t. sbind (build_statements c ps) (\<lambda>ts. sreturn (t # ts)))"

definition parse_tree :: "string \<Rightarrow> pstatement list \<Rightarrow> (parse_error + stmt) \<times> parser_state" where
  "parse_tree source tree =
     sbind (build_statements 0 tree) (\<lambda>ast.
     sbind (take_command 0 (span_entire source)) (\<lambda>cmd.
     sreturn (Stmt cmd REFS False ast)))
     \<lparr>ps_ctxs = [context_new (span_entire source)], ps_fresh = 0, ps_ops = []\<rparr>"

end
