(* ===== verification/Constrain.thy ===== *)
theory Constrain
  imports Command "HOL-Library.Sublist"
begin

text \<open>
  What each selector has selected, and how a dependency narrows it.  Sources:
  \<open>SelectorState\<close> in \<open>askld/src/verb/mod.rs\<close>, \<open>askld/src/execution_context.rs\<close> and
  \<open>Statement::get_selection\<close>, \<open>selection_node_count\<close>, \<open>is_computed\<close>,
  \<open>is_selection_some\<close> of \<open>askld/src/statement/mod.rs\<close>.  The state of a selector is its
  optional selection; the registry maps the identity of a selector to its state.
\<close>

subsection \<open>Narrowing a selection\<close>

text \<open>A hash set of ids is the set of the list it was collected from.\<close>

definition keep_nodes :: "(selection_node \<Rightarrow> bool) \<Rightarrow> selection \<Rightarrow> selection" where
  "keep_nodes P s = s\<lparr>sl_nodes := filter P (sl_nodes s)\<rparr>"

definition constrain_by_parent :: "selection \<Rightarrow> rel_type \<Rightarrow> selection \<Rightarrow> selection" where
  "constrain_by_parent parent rel_type s =
     (let check_refs = rel_contains rel_type REFS;
          check_has = rel_contains rel_type HAS;
          parent_symbol_ids = (if check_refs then map (\<lambda>n. sy_id (nd_symbol n)) (sl_nodes parent) else []);
          parent_instance_ids = (if check_has then map (\<lambda>n. in_id (nd_instance n)) (sl_nodes parent) else [])
      in keep_nodes (\<lambda>n.
           (check_refs \<and> list_ex (\<lambda>r. sy_id (cf_symbol r) = sy_id (nd_symbol n)
               \<and> sy_id (cf_parent_symbol r) \<in> set parent_symbol_ids) (sl_children parent))
           \<or> (check_has \<and> list_ex (\<lambda>r. in_id (hc_child_instance r) = in_id (nd_instance n)
               \<and> in_id (hc_parent_instance r) \<in> set parent_instance_ids) (sl_has_children parent))) s)"

definition constrain_by_child :: "selection \<Rightarrow> rel_type \<Rightarrow> selection \<Rightarrow> selection" where
  "constrain_by_child child rel_type s =
     (let check_refs = rel_contains rel_type REFS;
          check_has = rel_contains rel_type HAS;
          child_symbol_ids = (if check_refs then map (\<lambda>n. sy_id (nd_symbol n)) (sl_nodes child) else []);
          child_instance_ids = (if check_has then map (\<lambda>n. in_id (nd_instance n)) (sl_nodes child) else [])
      in keep_nodes (\<lambda>n.
           (check_refs \<and> list_ex (\<lambda>r. in_symbol (pf_from_instance r) = sy_id (nd_symbol n)
               \<and> sy_id (pf_to_symbol r) \<in> set child_symbol_ids) (sl_parents child))
           \<or> (check_has \<and> list_ex (\<lambda>r. in_id (hp_parent_instance r) = in_id (nd_instance n)
               \<and> in_id (hp_child_instance r) \<in> set child_instance_ids) (sl_has_parents child))) s)"

definition constrain_by_owner :: "selection \<Rightarrow> selection \<Rightarrow> selection" where
  "constrain_by_owner owner s =
     keep_nodes (\<lambda>u. list_ex (\<lambda>n. in_id (nd_instance n) = in_id (nd_instance u)) (sl_nodes owner)) s"

definition constrain_role :: "selection \<Rightarrow> dependency_role \<Rightarrow> rel_type \<Rightarrow> selection \<Rightarrow> selection" where
  "constrain_role dependency role rel_type s =
     (case role of
        Parent \<Rightarrow> constrain_by_child dependency rel_type s
      | Child \<Rightarrow> constrain_by_parent dependency rel_type s
      | User \<Rightarrow> constrain_by_owner dependency s
      | PreSeedSibling \<Rightarrow> s
      | PreSeedLabel l \<Rightarrow> s)"

text \<open>The Boolean result: the number of nodes changed.\<close>

definition constrain_selection ::
  "selection \<Rightarrow> dependency_role \<Rightarrow> rel_type \<Rightarrow> selection option \<Rightarrow> bool \<times> selection option" where
  "constrain_selection dependency role rel_type state =
     (case state of
        None \<Rightarrow> (False, None)
      | Some s \<Rightarrow>
          (let len_before = length (sl_nodes s);
               s' = constrain_role dependency role rel_type s
           in (len_before \<noteq> length (sl_nodes s'), Some s')))"

definition constrain_with_warning ::
  "selection \<Rightarrow> dependency_role \<Rightarrow> rel_type \<Rightarrow> span \<Rightarrow> string \<Rightarrow> selection option
    \<Rightarrow> (bool \<times> bool \<times> diagnostic list) \<times> selection option" where
  "constrain_with_warning dependency role rel_type sp ctx state =
     (case state of
        None \<Rightarrow> ((False, False, []), None)
      | Some s \<Rightarrow>
          (let (changed, state') = constrain_selection dependency role rel_type state;
               empty = (case state' of Some s' \<Rightarrow> sl_nodes s' = [] | None \<Rightarrow> False)
           in ((True, changed,
                if changed \<and> empty
                then [diagnostic_note sp (''Statement did not match any symbols after applying constraints from ''
                        @ ctx @ ''.'')]
                else []), state')))"

subsection \<open>The registry\<close>

type_synonym registry = "nat \<rightharpoonup> selection option"

definition reg_add :: "nat \<Rightarrow> selection option \<Rightarrow> registry \<Rightarrow> registry" where
  "reg_add i sel reg = reg(i \<mapsto> sel)"

definition reg_contains :: "nat \<Rightarrow> registry \<Rightarrow> bool" where
  "reg_contains i reg \<longleftrightarrow> reg i \<noteq> None"

text \<open>\<open>selector_state_with\<close>: a missing entry is created empty, then the function runs on it.\<close>

definition selector_state_with ::
  "nat \<Rightarrow> (selection option \<Rightarrow> 'r \<times> selection option) \<Rightarrow> registry \<Rightarrow> 'r \<times> registry" where
  "selector_state_with i f reg =
     (let state = (case reg i of Some st \<Rightarrow> st | None \<Rightarrow> None);
          (r, state') = f state
      in (r, reg(i \<mapsto> state')))"

text \<open>Execution errors; the \<open>expect\<close> and \<open>unwrap\<close> calls that fail are \<open>ExecPanic\<close>.\<close>

datatype exec_error = ExecFailed string | ExecPanic

text \<open>\<open>for_each_selector\<close>: the states of the selectors in order, a missing one panics.\<close>

fun selector_states :: "registry \<Rightarrow> verb list \<Rightarrow> exec_error + selection option list" where
  "selector_states reg [] = Inr []"
| "selector_states reg (v # vs) =
     (case reg (vb_id v) of
        None \<Rightarrow> Inl ExecPanic
      | Some st \<Rightarrow> rbind (selector_states reg vs) (\<lambda>sts. Inr (st # sts)))"

fun for_each_selector_mut ::
  "(verb \<Rightarrow> selection option \<Rightarrow> selection option) \<Rightarrow> verb list \<Rightarrow> registry \<Rightarrow> exec_error + registry" where
  "for_each_selector_mut f [] reg = Inr reg"
| "for_each_selector_mut f (v # vs) reg =
     (case reg (vb_id v) of
        None \<Rightarrow> Inl ExecPanic
      | Some st \<Rightarrow> for_each_selector_mut f vs (reg(vb_id v \<mapsto> f v st)))"

subsection \<open>The selection of a statement\<close>

text \<open>A selector without a selection resets the accumulation; a later one may start again.\<close>

fun merge_state :: "selection option \<Rightarrow> selection option \<Rightarrow> selection option" where
  "merge_state acc None = None"
| "merge_state None (Some sel) = Some sel"
| "merge_state (Some cur) (Some sel) = Some (selection_extend cur sel)"

definition get_selection :: "registry \<Rightarrow> command \<Rightarrow> exec_error + selection option" where
  "get_selection reg c =
     rbind (selector_states reg (command_selectors c)) (\<lambda>sts. Inr (foldl merge_state None sts))"

fun count_state :: "nat option \<Rightarrow> selection option \<Rightarrow> nat option" where
  "count_state cnt None = None"
| "count_state cnt (Some sel) = Some ((case cnt of None \<Rightarrow> 0 | Some n \<Rightarrow> n) + length (sl_nodes sel))"

definition selection_node_count :: "registry \<Rightarrow> command \<Rightarrow> exec_error + nat option" where
  "selection_node_count reg c =
     rbind (selector_states reg (command_selectors c)) (\<lambda>sts. Inr (foldl count_state None sts))"

definition has_selection :: "registry \<Rightarrow> command \<Rightarrow> exec_error + bool" where
  "has_selection reg c = rbind (selection_node_count reg c) (\<lambda>n. Inr (n \<noteq> None))"

text \<open>\<open>usize::MAX\<close> stands for no selection.\<close>

definition propagation_priority :: "registry \<Rightarrow> command \<Rightarrow> exec_error + nat" where
  "propagation_priority reg c =
     rbind (selection_node_count reg c) (\<lambda>n. Inr (case n of Some k \<Rightarrow> k | None \<Rightarrow> 2 ^ 64 - 1))"

definition is_computed :: "registry \<Rightarrow> command \<Rightarrow> bool" where
  "is_computed reg c \<longleftrightarrow> list_all (\<lambda>v. reg_contains (vb_id v) reg) (command_selectors c)"

definition is_selection_some :: "registry \<Rightarrow> command \<Rightarrow> exec_error + bool" where
  "is_selection_some reg c =
     rbind (selector_states reg (command_selectors c)) (\<lambda>sts. Inr (sts = [] \<or> list_ex (\<lambda>st. st \<noteq> None) sts))"

subsection \<open>Lemmas\<close>

lemma keep_nodes_sels [simp]:
  "sl_nodes (keep_nodes P s) = filter P (sl_nodes s)"
  "sl_parents (keep_nodes P s) = sl_parents s"
  "sl_children (keep_nodes P s) = sl_children s"
  "sl_has_parents (keep_nodes P s) = sl_has_parents s"
  "sl_has_children (keep_nodes P s) = sl_has_children s"
  by (simp_all add: keep_nodes_def)

lemma keep_nodes_id: "keep_nodes P s = s \<longleftrightarrow> (\<forall>n\<in>set (sl_nodes s). P n)"
  by (cases s) (auto simp: keep_nodes_def filter_id_conv)

lemma keep_nodes_idem: "keep_nodes P (keep_nodes P s) = keep_nodes P s"
  by (cases s) (simp add: keep_nodes_def)

lemma constrain_role_keeps:
  "\<exists>P. \<forall>s. constrain_role dependency role rel s = keep_nodes P s"
proof -
  have self: "\<exists>P. \<forall>s. s = keep_nodes P s"
    by (rule exI [of _ "\<lambda>n. True"]) (simp add: keep_nodes_def)
  show ?thesis
    by (cases role)
      (auto simp: constrain_role_def constrain_by_child_def constrain_by_parent_def
        constrain_by_owner_def Let_def self)
qed

lemma filter_len_neq: "length xs \<noteq> length (filter P xs) \<longleftrightarrow> length (filter P xs) < length xs"
  using length_filter_le [of P xs] by linarith

lemma filter_len_id: "length (filter P xs) < length xs \<longleftrightarrow> filter P xs \<noteq> xs"
  by (metis filter_id_conv length_filter_less less_irrefl)

lemma constrain_selection_shrinks:
  "constrain_selection d role rel st = (changed, st') \<Longrightarrow>
     (st = None \<longleftrightarrow> st' = None) \<and>
     (\<forall>s s'. st = Some s \<and> st' = Some s' \<longrightarrow>
        length (sl_nodes s') \<le> length (sl_nodes s) \<and>
        (changed \<longleftrightarrow> length (sl_nodes s') < length (sl_nodes s)))"
proof -
  obtain P where P: "\<And>s. constrain_role d role rel s = keep_nodes P s"
    using constrain_role_keeps by blast
  show "constrain_selection d role rel st = (changed, st') \<Longrightarrow> ?thesis"
    by (auto simp: constrain_selection_def P Let_def filter_len_neq split: option.splits)
qed

lemma constrain_with_warning_shrinks:
  assumes "constrain_with_warning d role rel sp ctx st = ((constrained, changed, ws), st')"
  shows "(constrained \<longleftrightarrow> st \<noteq> None) \<and> (st = None \<longleftrightarrow> st' = None) \<and>
     (st = None \<longrightarrow> \<not> changed \<and> ws = []) \<and>
     (\<forall>s s'. st = Some s \<and> st' = Some s' \<longrightarrow>
        length (sl_nodes s') \<le> length (sl_nodes s) \<and>
        (changed \<longleftrightarrow> length (sl_nodes s') < length (sl_nodes s)))"
proof (cases st)
  case None
  with assms show ?thesis by (simp add: constrain_with_warning_def)
next
  case (Some s)
  obtain c t where ct: "constrain_selection d role rel st = (c, t)" by fastforce
  from constrain_selection_shrinks [OF this] Some assms ct show ?thesis
    by (simp add: constrain_with_warning_def Let_def split: option.splits)
qed

lemma selector_states_ok:
  "(\<forall>v\<in>set vs. reg (vb_id v) \<noteq> None) \<Longrightarrow> selector_states reg vs = Inr (map (\<lambda>v. the (reg (vb_id v))) vs)"
  by (induction vs) auto

lemma selector_states_panic:
  "(\<exists>v\<in>set vs. reg (vb_id v) = None) \<Longrightarrow> selector_states reg vs = Inl ExecPanic"
  by (induction vs) (fastforce split: option.splits)+

lemma merge_count: "map_option (\<lambda>s. length (sl_nodes s)) (merge_state acc st)
    = count_state (map_option (\<lambda>s. length (sl_nodes s)) acc) st"
  by (cases "(acc, st)" rule: merge_state.cases) (simp_all add: selection_extend_def)

lemma foldl_merge_count:
  "map_option (\<lambda>s. length (sl_nodes s)) (foldl merge_state acc sts)
     = foldl count_state (map_option (\<lambda>s. length (sl_nodes s)) acc) sts"
  by (induction sts arbitrary: acc) (simp_all add: merge_count)

lemma foldl_merge_last:
  "sts \<noteq> [] \<Longrightarrow> foldl merge_state acc sts = None \<longleftrightarrow> last sts = None"
proof (induction sts arbitrary: acc rule: rev_induct)
  case (snoc st sts)
  show ?case by (cases st; cases "foldl merge_state acc sts") simp_all
qed simp

subsection \<open>Properties\<close>

text \<open>
  Constraining a selection by a dependency keeps a subsequence of its nodes and every edge
  list, reports a change exactly when a node went, and is idempotent.  A node stays exactly
  when the dependency supports it: as the source of a reference to (or the container of) a
  selected child, as the target of a reference from (or an instance contained in) a selected
  parent, as a node of the provider of a label; an ordering-only edge constrains nothing.
\<close>

theorem constrain_selection_exact:
  assumes "constrain_selection dep role rel (Some s) = (changed, Some s')"
  shows "subseq (sl_nodes s') (sl_nodes s) \<and> s' = s\<lparr>sl_nodes := sl_nodes s'\<rparr> \<and> (changed \<longleftrightarrow> s' \<noteq> s)
    \<and> constrain_selection dep role rel (Some s') = (False, Some s')
    \<and> (n \<in> set (sl_nodes s') \<longleftrightarrow> n \<in> set (sl_nodes s) \<and>
        (case role of
           Parent \<Rightarrow>
             (rel_contains rel REFS \<and> (\<exists>r\<in>set (sl_parents dep). \<exists>m\<in>set (sl_nodes dep).
                in_symbol (pf_from_instance r) = sy_id (nd_symbol n) \<and> sy_id (pf_to_symbol r) = sy_id (nd_symbol m)))
             \<or> (rel_contains rel HAS \<and> (\<exists>r\<in>set (sl_has_parents dep). \<exists>m\<in>set (sl_nodes dep).
                in_id (hp_parent_instance r) = in_id (nd_instance n) \<and> in_id (hp_child_instance r) = in_id (nd_instance m)))
         | Child \<Rightarrow>
             (rel_contains rel REFS \<and> (\<exists>r\<in>set (sl_children dep). \<exists>m\<in>set (sl_nodes dep).
                sy_id (cf_symbol r) = sy_id (nd_symbol n) \<and> sy_id (cf_parent_symbol r) = sy_id (nd_symbol m)))
             \<or> (rel_contains rel HAS \<and> (\<exists>r\<in>set (sl_has_children dep). \<exists>m\<in>set (sl_nodes dep).
                in_id (hc_child_instance r) = in_id (nd_instance n) \<and> in_id (hc_parent_instance r) = in_id (nd_instance m)))
         | User \<Rightarrow> \<exists>m\<in>set (sl_nodes dep). in_id (nd_instance m) = in_id (nd_instance n)
         | _ \<Rightarrow> True))"
proof -
  obtain P where P: "\<And>s. constrain_role dep role rel s = keep_nodes P s"
    using constrain_role_keeps by blast
  have s': "s' = keep_nodes P s" and changed: "changed \<longleftrightarrow> length (sl_nodes s) \<noteq> length (sl_nodes s')"
    using assms by (auto simp: constrain_selection_def Let_def P)
  have sub: "subseq (sl_nodes s') (sl_nodes s)" using s' by simp
  have same: "s' = s\<lparr>sl_nodes := sl_nodes s'\<rparr>" using s' by (simp add: keep_nodes_def)
  have flag: "changed \<longleftrightarrow> s' \<noteq> s"
    unfolding changed s' by (simp add: filter_len_neq filter_len_id keep_nodes_id filter_id_conv)
  have idem: "constrain_selection dep role rel (Some s') = (False, Some s')"
    using s' by (simp add: constrain_selection_def Let_def P keep_nodes_idem)
  have mem: "n \<in> set (sl_nodes s') \<longleftrightarrow> n \<in> set (sl_nodes (constrain_role dep role rel s))"
    using s' P by simp
  show ?thesis
    using sub same flag idem unfolding mem
    by (cases role) (auto simp: constrain_role_def constrain_by_child_def constrain_by_parent_def
        constrain_by_owner_def Let_def list_ex_iff)
qed

definition sample_node :: "int \<Rightarrow> selection_node" where
  "sample_node i = \<lparr>nd_symbol = (sample_symbol 7)\<lparr>sy_id := i\<rparr>, nd_instance = (sample_instance 7)\<lparr>in_id := i, in_symbol := i\<rparr>,
     nd_object = \<lparr>ob_id = 1, ob_project_id = 1, ob_module_path = [], ob_filesystem_path = [], ob_filetype = [],
       ob_content_hash = [], ob_layer = 7\<rparr>,
     nd_project = \<lparr>pr_id = 1, pr_name = [], pr_root_path = [], pr_upload_status = [], pr_root_layer_id = 7\<rparr>,
     nd_statements = []\<rparr>"

definition sample_nodes :: "int list \<Rightarrow> selection" where
  "sample_nodes ids = selection_new\<lparr>sl_nodes := map sample_node ids\<rparr>"

theorem constrain_selection_exact_witness:
  "constrain_selection (sample_nodes [1]) User REFS (Some (sample_nodes [1, 2])) = (True, Some (sample_nodes [1]))
   \<and> constrain_selection (sample_nodes [1]) User REFS (Some (sample_nodes [1])) = (False, Some (sample_nodes [1]))"
proof -
  have c: "constrain_selection (sample_nodes [1]) User REFS (Some (sample_nodes [1, 2]))
      = (True, Some (sample_nodes [1]))"
    by (simp add: constrain_selection_def constrain_role_def constrain_by_owner_def keep_nodes_def
        Let_def sample_nodes_def sample_node_def selection_new_def)
  from constrain_selection_exact [OF c, of "sample_node 1"] c show ?thesis by blast
qed

text \<open>
  The node count the worklist orders statements by, computed without building the merged
  selection, is the size of the merged selection; both panic exactly when a selector was never
  registered.  The merge resets at an unresolved selector, so a statement has a selection
  exactly when its last selector has one.
\<close>

theorem node_count_is_merged_size:
  "selection_node_count reg c
     = rbind (get_selection reg c) (\<lambda>sel. Inr (map_option (\<lambda>s. length (sl_nodes s)) sel))
   \<and> (get_selection reg c = Inl ExecPanic \<longleftrightarrow> \<not> is_computed reg c)
   \<and> (has_selection reg c = Inr True \<longleftrightarrow>
        is_computed reg c \<and> command_selectors c \<noteq> []
        \<and> reg (vb_id (last (command_selectors c))) \<notin> {None, Some None})"
proof (cases "is_computed reg c")
  case True
  then have reg: "\<forall>v\<in>set (command_selectors c). reg (vb_id v) \<noteq> None"
    by (simp add: is_computed_def list_all_iff reg_contains_def)
  define sts where "sts = map (\<lambda>v. the (reg (vb_id v))) (command_selectors c)"
  have ss: "selector_states reg (command_selectors c) = Inr sts"
    unfolding sts_def by (rule selector_states_ok [OF reg])
  have n: "selection_node_count reg c = Inr (map_option (\<lambda>s. length (sl_nodes s)) (foldl merge_state None sts))"
    using foldl_merge_count [of None sts] by (simp add: selection_node_count_def ss)
  have last: "foldl merge_state None sts = None \<longleftrightarrow> command_selectors c = [] \<or> last sts = None"
    using foldl_merge_last [of sts None] by (cases "command_selectors c = []") (simp_all add: sts_def)
  have lst: "command_selectors c \<noteq> [] \<Longrightarrow> reg (vb_id (last (command_selectors c))) = Some (last sts)"
    using reg by (auto simp: sts_def last_map)
  show ?thesis
    using True n last lst by (auto simp: get_selection_def has_selection_def ss)
next
  case False
  then have "\<exists>v\<in>set (command_selectors c). reg (vb_id v) = None"
    by (auto simp: is_computed_def list_all_iff reg_contains_def)
  from selector_states_panic [OF this] False show ?thesis
    by (simp add: get_selection_def selection_node_count_def has_selection_def)
qed

end
