(* ===== verification/Index_Queries.thy ===== *)
theory Index_Queries
  imports Sql_Cache "HOL-Library.Product_Lexorder"
begin

section \<open>The queries of the index\<close>

text \<open>
  The five query families of \<open>index/src/db_diesel/index_impl.rs\<close> and \<open>cte.rs\<close>, what the
  filter leaves of \<open>mixins.rs\<close> say of their rows, the row keys of \<open>sql_cache.rs\<close>, and the
  reads built on them: \<open>find_symbol\<close>, \<open>find_child_instance_ids\<close>,
  \<open>find_parent_instance_ids\<close>, \<open>find_edges_between\<close>, \<open>has_symbol_matching\<close>.  A table is the
  list of its rows and an inner join a list comprehension over tables; the text operators of
  PostgreSQL (\<open>LIKE\<close>, \<open>lquery\<close>, \<open>ltree @>\<close>) are the fields of \<open>sql_ops\<close>, and a load that
  fails is the error \<open>ix_failure\<close> gives it.
\<close>

subsection \<open>Tables\<close>

record symbol_type_row =
  st_id :: int
  st_name :: string
  st_level :: int
  st_dot_is_separator :: bool

record tables =
  tb_projects :: "project_row list"
  tb_objects :: "object_row list"
  tb_symbols :: "symbol_row list"
  tb_instances :: "instance_row list"
  tb_refs :: "ref_row list"
  tb_types :: "symbol_type_row list"

record sql_ops =
  so_lquery :: "string \<Rightarrow> string \<Rightarrow> bool"
  so_like :: "string \<Rightarrow> string \<Rightarrow> bool"
  so_ilike :: "string \<Rightarrow> string \<Rightarrow> bool"
  so_ancestor :: "string \<Rightarrow> string \<Rightarrow> bool"

record index_db =
  ix_tables :: tables
  ix_ops :: sql_ops
  ix_failure :: "string \<Rightarrow> visibility_spec \<Rightarrow> string option"

text \<open>
  An \<open>int4range\<close>: lower bound inclusive and upper bound exclusive, \<open>None\<close> for an infinite
  one; \<open>@>\<close> on ranges, where the empty range is contained in every range.
\<close>

fun range_lower :: "bound \<Rightarrow> int option" where
  "range_lower (Included a) = Some a"
| "range_lower (Excluded a) = Some (a + 1)"
| "range_lower Unbounded = None"

fun range_upper :: "bound \<Rightarrow> int option" where
  "range_upper (Included b) = Some (b + 1)"
| "range_upper (Excluded b) = Some b"
| "range_upper Unbounded = None"

definition range_norm :: "bound \<times> bound \<Rightarrow> (int option \<times> int option) option" where
  "range_norm r =
     (case (range_lower (fst r), range_upper (snd r)) of
        (Some a, Some b) \<Rightarrow> if b \<le> a then None else Some (Some a, Some b)
      | lu \<Rightarrow> Some lu)"

fun lower_le :: "int option \<Rightarrow> int option \<Rightarrow> bool" where
  "lower_le None l = True"
| "lower_le (Some a) None = False"
| "lower_le (Some a) (Some b) = (a \<le> b)"

fun upper_le :: "int option \<Rightarrow> int option \<Rightarrow> bool" where
  "upper_le u None = True"
| "upper_le None (Some b) = False"
| "upper_le (Some a) (Some b) = (a \<le> b)"

definition range_contains :: "bound \<times> bound \<Rightarrow> bound \<times> bound \<Rightarrow> bool" where
  "range_contains r s =
     (case range_norm s of
        None \<Rightarrow> True
      | Some (ls, us) \<Rightarrow>
          (case range_norm r of
             None \<Rightarrow> False
           | Some (lr, ur) \<Rightarrow> lower_le lr ls \<and> upper_le us ur))"

definition range_ne :: "bound \<times> bound \<Rightarrow> bound \<times> bound \<Rightarrow> bool" where
  "range_ne r s \<longleftrightarrow> range_norm r \<noteq> range_norm s"

subsection \<open>Queries\<close>

text \<open>
  A query under construction is its rows and the token that noted its layer columns.  The
  columns of a family, with the layer each row has there, are a list of pairs.
\<close>

type_synonym 'r query = "'r list \<times> eph_visibility"

definition layer_column :: "(string \<times> int) list \<Rightarrow> string \<Rightarrow> int" where
  "layer_column al c = (case map_of al c of Some l \<Rightarrow> l | None \<Rightarrow> 0)"

definition apply_visibility ::
  "('r \<Rightarrow> (string \<times> int) list) \<Rightarrow> string list \<Rightarrow> eph_visibility \<Rightarrow> 'r list \<Rightarrow> 'r query" where
  "apply_visibility layers columns vis rows =
     (filter (\<lambda>r. list_all (\<lambda>c. pred_value (layer_column (layers r)) c vis) columns) rows,
      apply_preds columns vis)"

definition with_filter :: "('r \<Rightarrow> sql_atom \<Rightarrow> bool) \<Rightarrow> sql_expr option \<Rightarrow> 'r query \<Rightarrow> 'r query" where
  "with_filter holds e q = (filter (\<lambda>r. expr_value (holds r) e) (fst q), snd q)"

definition with_ids :: "('r \<Rightarrow> int) \<Rightarrow> int list \<Rightarrow> 'r query \<Rightarrow> 'r query" where
  "with_ids column ids q = (filter (\<lambda>r. column r \<in> set ids) (fst q), snd q)"

definition guarded :: "('r \<Rightarrow> (string \<times> int) list) \<Rightarrow> 'r query \<Rightarrow> 'r list" where
  "guarded layers q = filter (\<lambda>r. guard_value (layer_column (layers r)) (snd q)) (fst q)"

definition run_load :: "index_db \<Rightarrow> string \<Rightarrow> eph_visibility \<Rightarrow> 'r list \<Rightarrow> string + 'r list" where
  "run_load ix what vis rows =
     (case ix_failure ix what (vis_branch vis) of Some e \<Rightarrow> Inl e | None \<Rightarrow> Inr rows)"

subsection \<open>Current rows\<close>

type_synonym current_row = "symbol_row \<times> instance_row \<times> object_row \<times> project_row"

definition current_columns :: "string list" where
  "current_columns = [''symbols.layer'', ''symbol_instances.layer'']"

definition current_layers :: "current_row \<Rightarrow> (string \<times> int) list" where
  "current_layers = (\<lambda>(s, i, ob, p).
     [(''symbols.layer'', sy_layer s), (''symbol_instances.layer'', in_layer i)])"

definition current_key :: "current_row \<Rightarrow> int" where
  "current_key = (\<lambda>(s, i, ob, p). in_id i)"

definition current_join :: "tables \<Rightarrow> current_row list" where
  "current_join db =
     [(s, i, ob, p).
        s \<leftarrow> tb_symbols db, i \<leftarrow> filter (\<lambda>i. sy_id s = in_symbol i) (tb_instances db),
        p \<leftarrow> filter (\<lambda>p. sy_project_id s = pr_id p) (tb_projects db),
        ob \<leftarrow> filter (\<lambda>ob. ob_id ob = in_object_id i) (tb_objects db)]"

definition build_current_query :: "tables \<Rightarrow> eph_visibility \<Rightarrow> current_row query" where
  "build_current_query db vis =
     apply_visibility current_layers current_columns vis (current_join db)"

fun current_holds :: "sql_ops \<Rightarrow> current_row \<Rightarrow> sql_atom \<Rightarrow> bool" where
  "current_holds ops (s, i, ob, p) (LeafNameEq n) = (sy_leaf_name s = n)"
| "current_holds ops (s, i, ob, p) (PathMatches q) = so_lquery ops (sy_path s) q"
| "current_holds ops (s, i, ob, p) (LeafNameLike pat case_sensitive) =
     (if case_sensitive then so_like ops (sy_leaf_name s) pat else so_ilike ops (sy_leaf_name s) pat)"
| "current_holds ops (s, i, ob, p) (NameLike pat case_sensitive) =
     (if case_sensitive then so_like ops (sy_name s) pat else so_ilike ops (sy_name s) pat)"
| "current_holds ops (s, i, ob, p) (NameEq n) = (sy_name s = n)"
| "current_holds ops (s, i, ob, p) (InstanceIdIn ids) = (in_id i \<in> set ids)"
| "current_holds ops (s, i, ob, p) (ProjectNameEq n) = (pr_name p = n)"
| "current_holds ops (s, i, ob, p) (SymbolTypeEq ty) = (sy_type s = ty)"
| "current_holds ops (s, i, ob, p) (SymbolTypeIn tys) = (sy_type s \<in> set tys)"
| "current_holds ops (s, i, ob, p) (DescendantOf path) = (so_ancestor ops path (sy_path s) \<and> sy_path s \<noteq> path)"
| "current_holds ops r a = False"

subsection \<open>References to and from a source\<close>

type_synonym parents_row = "ref_row \<times> symbol_row \<times> instance_row \<times> instance_row \<times> symbol_row"

text \<open>The last component, the symbol of the parent declaration, is joined but not selected.\<close>

definition ref_columns :: "string list" where
  "ref_columns = [''symbol_refs.layer'', ''symbols.layer'', ''symbol_instances.layer'',
     ''parent_decls.layer'', ''parent_symbols.layer'']"

definition parents_layers :: "parents_row \<Rightarrow> (string \<times> int) list" where
  "parents_layers = (\<lambda>(r, s, i, pd, ps).
     [(''symbol_refs.layer'', rf_layer r), (''symbols.layer'', sy_layer s),
      (''symbol_instances.layer'', in_layer i), (''parent_decls.layer'', in_layer pd),
      (''parent_symbols.layer'', sy_layer ps)])"

definition parents_key :: "parents_row \<Rightarrow> int \<times> int \<times> int" where
  "parents_key = (\<lambda>(r, s, i, pd, ps). (rf_id r, in_id i, in_id pd))"

definition parents_join :: "tables \<Rightarrow> parents_row list" where
  "parents_join db =
     [(r, s, i, pd, ps).
        r \<leftarrow> tb_refs db, s \<leftarrow> filter (\<lambda>s. rf_to_symbol r = sy_id s) (tb_symbols db),
        i \<leftarrow> filter (\<lambda>i. sy_id s = in_symbol i) (tb_instances db),
        pd \<leftarrow> filter (\<lambda>pd. in_object_id pd = rf_from_object r
                \<and> range_contains (in_range pd) (rf_from_range r)) (tb_instances db),
        ps \<leftarrow> filter (\<lambda>ps. sy_id ps = in_symbol pd) (tb_symbols db)]"

definition build_parents_query :: "tables \<Rightarrow> int list \<Rightarrow> eph_visibility \<Rightarrow> parents_row query" where
  "build_parents_query db source_ids vis =
     apply_visibility parents_layers ref_columns vis
       (filter (\<lambda>(r, s, i, pd, ps). in_id i \<in> set source_ids) (parents_join db))"

text \<open>No leaf constrains the parents context.\<close>

definition parents_holds :: "sql_ops \<Rightarrow> parents_row \<Rightarrow> sql_atom \<Rightarrow> bool" where
  "parents_holds ops r a = False"

type_synonym children_row =
  "symbol_row \<times> symbol_row \<times> instance_row \<times> instance_row \<times> ref_row \<times> object_row"

definition children_layers :: "children_row \<Rightarrow> (string \<times> int) list" where
  "children_layers = (\<lambda>(ps, s, i, pd, r, ob).
     [(''symbol_refs.layer'', rf_layer r), (''symbols.layer'', sy_layer s),
      (''symbol_instances.layer'', in_layer i), (''parent_decls.layer'', in_layer pd),
      (''parent_symbols.layer'', sy_layer ps)])"

definition children_key :: "children_row \<Rightarrow> int \<times> int \<times> int" where
  "children_key = (\<lambda>(ps, s, i, pd, r, ob). (rf_id r, in_id i, in_id pd))"

definition children_join :: "tables \<Rightarrow> children_row list" where
  "children_join db =
     [(ps, s, i, pd, r, ob).
        r \<leftarrow> tb_refs db, s \<leftarrow> filter (\<lambda>s. rf_to_symbol r = sy_id s) (tb_symbols db),
        i \<leftarrow> filter (\<lambda>i. sy_id s = in_symbol i) (tb_instances db),
        pd \<leftarrow> filter (\<lambda>pd. in_object_id pd = rf_from_object r
                \<and> range_contains (in_range pd) (rf_from_range r)) (tb_instances db),
        ps \<leftarrow> filter (\<lambda>ps. sy_id ps = in_symbol pd) (tb_symbols db),
        ob \<leftarrow> filter (\<lambda>ob. ob_id ob = in_object_id pd) (tb_objects db)]"

definition build_children_query :: "tables \<Rightarrow> int list \<Rightarrow> eph_visibility \<Rightarrow> children_row query" where
  "build_children_query db source_ids vis =
     apply_visibility children_layers ref_columns vis
       (filter (\<lambda>(ps, s, i, pd, r, ob). in_id pd \<in> set source_ids) (children_join db))"

text \<open>The rows a subquery sees.\<close>

definition sees :: "visibility_spec \<Rightarrow> int \<Rightarrow> bool" where
  "sees v layer \<longleftrightarrow> layer \<in> set (visible_of v)"

definition direct_child_ref :: "tables \<Rightarrow> visibility_spec \<Rightarrow> children_row \<Rightarrow> bool" where
  "direct_child_ref db v = (\<lambda>(ps, s, i, pd, r, ob).
     \<not> list_ex (\<lambda>container. list_ex (\<lambda>cont_sym. list_ex (\<lambda>cont_type. list_ex (\<lambda>parent_type.
          in_symbol container = sy_id cont_sym \<and> sy_type cont_sym = st_id cont_type
          \<and> st_id parent_type = sy_type ps
          \<and> in_object_id container = in_object_id pd
          \<and> range_contains (in_range pd) (in_range container)
          \<and> range_contains (in_range container) (rf_from_range r)
          \<and> range_ne (in_range container) (in_range pd)
          \<and> in_id container \<noteq> in_id pd
          \<and> st_level cont_type \<le> st_level parent_type
          \<and> sees v (in_layer container) \<and> sees v (sy_layer cont_sym))
        (tb_types db)) (tb_types db)) (tb_symbols db)) (tb_instances db))"

definition outermost_parent :: "tables \<Rightarrow> int list \<Rightarrow> visibility_spec \<Rightarrow> children_row \<Rightarrow> bool" where
  "outermost_parent db parent_ids v = (\<lambda>(ps, s, i, pd, r, ob).
     \<not> list_ex (\<lambda>op. in_id op \<in> set parent_ids \<and> in_id op \<noteq> in_id pd
          \<and> in_object_id op = in_object_id pd
          \<and> range_contains (in_range op) (in_range pd)
          \<and> range_ne (in_range op) (in_range pd)
          \<and> sees v (in_layer op)) (tb_instances db))"

fun children_holds :: "tables \<Rightarrow> children_row \<Rightarrow> sql_atom \<Rightarrow> bool" where
  "children_holds db row (NoContainerInChildren v) = direct_child_ref db v row"
| "children_holds db row (NoOuterParent parent_ids v) = outermost_parent db parent_ids v row"
| "children_holds db row a = False"

subsection \<open>Containment\<close>

text \<open>Rows keep the symbol types they were joined with, which are not selected.\<close>

type_synonym has_parents_row =
  "symbol_row \<times> instance_row \<times> symbol_type_row \<times> symbol_row \<times> instance_row \<times> symbol_type_row"

definition has_parents_columns :: "string list" where
  "has_parents_columns = [''symbols.layer'', ''symbol_instances.layer'',
     ''container_symbols.layer'', ''container_instances.layer'']"

definition has_parents_layers :: "has_parents_row \<Rightarrow> (string \<times> int) list" where
  "has_parents_layers = (\<lambda>(s, i, ty, cs, ci, cty).
     [(''symbols.layer'', sy_layer s), (''symbol_instances.layer'', in_layer i),
      (''container_symbols.layer'', sy_layer cs), (''container_instances.layer'', in_layer ci)])"

definition has_parents_key :: "has_parents_row \<Rightarrow> int \<times> int" where
  "has_parents_key = (\<lambda>(s, i, ty, cs, ci, cty). (in_id i, in_id ci))"

definition has_parents_join :: "tables \<Rightarrow> has_parents_row list" where
  "has_parents_join db =
     [(s, i, ty, cs, ci, cty).
        i \<leftarrow> tb_instances db, s \<leftarrow> filter (\<lambda>s. in_symbol i = sy_id s) (tb_symbols db),
        ty \<leftarrow> filter (\<lambda>ty. sy_type s = st_id ty) (tb_types db),
        ci \<leftarrow> filter (\<lambda>ci. in_object_id ci = in_object_id i
                \<and> range_contains (in_range ci) (in_range i) \<and> in_id ci \<noteq> in_id i) (tb_instances db),
        cs \<leftarrow> filter (\<lambda>cs. sy_id cs = in_symbol ci) (tb_symbols db),
        cty \<leftarrow> filter (\<lambda>cty. st_id cty = sy_type cs \<and> st_level ty \<le> st_level cty) (tb_types db)]"

definition build_has_parents_query :: "tables \<Rightarrow> int list \<Rightarrow> eph_visibility \<Rightarrow> has_parents_row query" where
  "build_has_parents_query db source_ids vis =
     apply_visibility has_parents_layers has_parents_columns vis
       (filter (\<lambda>(s, i, ty, cs, ci, cty). in_id i \<in> set source_ids) (has_parents_join db))"

definition innermost_container :: "tables \<Rightarrow> visibility_spec \<Rightarrow> has_parents_row \<Rightarrow> bool" where
  "innermost_container db v = (\<lambda>(s, i, ty, cs, ci, cty).
     \<not> list_ex (\<lambda>mid. list_ex (\<lambda>mid_sym.
          sy_id mid_sym = in_symbol mid
          \<and> in_object_id mid = in_object_id ci
          \<and> range_contains (in_range ci) (in_range mid)
          \<and> range_contains (in_range mid) (in_range i)
          \<and> range_ne (in_range mid) (in_range ci) \<and> range_ne (in_range mid) (in_range i)
          \<and> in_id mid \<noteq> in_id ci \<and> in_id mid \<noteq> in_id i
          \<and> sees v (in_layer mid) \<and> sees v (sy_layer mid_sym))
        (tb_symbols db)) (tb_instances db))"

fun has_parents_holds :: "tables \<Rightarrow> has_parents_row \<Rightarrow> sql_atom \<Rightarrow> bool" where
  "has_parents_holds db row (NoMidInHasParents v) = innermost_container db v row"
| "has_parents_holds db row a = False"

type_synonym has_children_row =
  "symbol_row \<times> instance_row \<times> symbol_type_row \<times> object_row \<times> symbol_row \<times> instance_row \<times> symbol_type_row"

definition has_children_columns :: "string list" where
  "has_children_columns = [''symbols.layer'', ''symbol_instances.layer'',
     ''contained_symbols.layer'', ''contained_instances.layer'']"

definition has_children_layers :: "has_children_row \<Rightarrow> (string \<times> int) list" where
  "has_children_layers = (\<lambda>(s, i, ty, ob, cs, ci, cty).
     [(''symbols.layer'', sy_layer s), (''symbol_instances.layer'', in_layer i),
      (''contained_symbols.layer'', sy_layer cs), (''contained_instances.layer'', in_layer ci)])"

definition has_children_key :: "has_children_row \<Rightarrow> int \<times> int" where
  "has_children_key = (\<lambda>(s, i, ty, ob, cs, ci, cty). (in_id i, in_id ci))"

definition has_children_join :: "tables \<Rightarrow> has_children_row list" where
  "has_children_join db =
     [(s, i, ty, ob, cs, ci, cty).
        i \<leftarrow> tb_instances db, s \<leftarrow> filter (\<lambda>s. in_symbol i = sy_id s) (tb_symbols db),
        ty \<leftarrow> filter (\<lambda>ty. sy_type s = st_id ty) (tb_types db),
        ob \<leftarrow> filter (\<lambda>ob. ob_id ob = in_object_id i) (tb_objects db),
        ci \<leftarrow> filter (\<lambda>ci. in_object_id ci = in_object_id i
                \<and> range_contains (in_range i) (in_range ci) \<and> in_id i \<noteq> in_id ci) (tb_instances db),
        cs \<leftarrow> filter (\<lambda>cs. sy_id cs = in_symbol ci) (tb_symbols db),
        cty \<leftarrow> filter (\<lambda>cty. st_id cty = sy_type cs \<and> st_level cty \<le> st_level ty) (tb_types db)]"

definition build_has_children_inner ::
  "tables \<Rightarrow> eph_visibility \<Rightarrow> (int \<Rightarrow> bool) \<Rightarrow> has_children_row query" where
  "build_has_children_inner db vis source_filter =
     apply_visibility has_children_layers has_children_columns vis
       (filter (\<lambda>(s, i, ty, ob, cs, ci, cty). source_filter (in_id i)) (has_children_join db))"

definition build_has_children_query :: "tables \<Rightarrow> int list \<Rightarrow> eph_visibility \<Rightarrow> has_children_row query" where
  "build_has_children_query db source_ids vis = build_has_children_inner db vis (\<lambda>i. i \<in> set source_ids)"

text \<open>The outer query against the common table expression \<open>candidates\<close>, and its body.\<close>

definition build_has_children_query_against_cte ::
  "tables \<Rightarrow> int list \<Rightarrow> eph_visibility \<Rightarrow> has_children_row query" where
  "build_has_children_query_against_cte db candidates vis =
     build_has_children_inner db vis (\<lambda>i. i \<in> set candidates)"

definition build_has_children_cte_body :: "tables \<Rightarrow> int list \<Rightarrow> eph_visibility \<Rightarrow> int list" where
  "build_has_children_cte_body db source_ids vis =
     map in_id (filter (\<lambda>i. in_id i \<in> set source_ids \<and> sees (vis_branch vis) (in_layer i)) (tb_instances db))"

definition direct_child :: "tables \<Rightarrow> visibility_spec \<Rightarrow> has_children_row \<Rightarrow> bool" where
  "direct_child db v = (\<lambda>(s, i, ty, ob, cs, ci, cty).
     \<not> list_ex (\<lambda>mid. list_ex (\<lambda>mid_sym. list_ex (\<lambda>mid_type.
          in_symbol mid = sy_id mid_sym \<and> sy_type mid_sym = st_id mid_type
          \<and> in_object_id mid = in_object_id i
          \<and> range_contains (in_range i) (in_range mid)
          \<and> range_contains (in_range mid) (in_range ci)
          \<and> range_ne (in_range mid) (in_range i) \<and> range_ne (in_range mid) (in_range ci)
          \<and> in_id mid \<noteq> in_id i \<and> in_id mid \<noteq> in_id ci
          \<and> st_level mid_type \<le> st_level ty
          \<and> sees v (in_layer mid) \<and> sees v (sy_layer mid_sym))
        (tb_types db)) (tb_symbols db)) (tb_instances db))"

fun has_children_holds :: "tables \<Rightarrow> has_children_row \<Rightarrow> sql_atom \<Rightarrow> bool" where
  "has_children_holds db row (NoMidInHasChildren v) = direct_child db v row"
| "has_children_holds db row a = False"

subsection \<open>Edges between selected instances\<close>

record implicit_edge =
  ie_ref_id :: int
  ie_to_symbol :: int
  ie_from_object :: int
  ie_from_range :: "bound \<times> bound"
  ie_to_instance :: int
  ie_from_instance :: int
  ie_sr_layer :: int
  ie_from_layer :: int
  ie_to_layer :: int

definition edge_key :: "implicit_edge \<Rightarrow> int \<times> int \<times> int" where
  "edge_key e = (ie_ref_id e, ie_from_instance e, ie_to_instance e)"

definition build_find_edges_cte_body :: "tables \<Rightarrow> int list \<Rightarrow> eph_visibility \<Rightarrow> instance_row list" where
  "build_find_edges_cte_body db source_ids vis =
     filter (\<lambda>i. in_id i \<in> set source_ids \<and> sees (vis_branch vis) (in_layer i)) (tb_instances db)"

text \<open>\<open>Vec::dedup_by_key\<close>: the first of each run of equal keys.\<close>

fun dedup_by_key :: "('a \<Rightarrow> 'k) \<Rightarrow> 'a list \<Rightarrow> 'a list" where
  "dedup_by_key k [] = []"
| "dedup_by_key k [x] = [x]"
| "dedup_by_key k (x # y # ys) =
     (if k y = k x then dedup_by_key k (x # ys) else x # dedup_by_key k (y # ys))"

definition edge_order :: "implicit_edge \<Rightarrow> int \<times> int \<times> int" where
  "edge_order e = (ie_from_instance e, ie_ref_id e, ie_to_instance e)"

definition edge_group :: "implicit_edge \<Rightarrow> int \<times> int" where
  "edge_group e = (ie_from_instance e, ie_ref_id e)"

definition distinct_edges :: "implicit_edge list \<Rightarrow> implicit_edge list" where
  "distinct_edges es = dedup_by_key edge_group (sort_key edge_order es)"

definition mk_edge :: "instance_row \<Rightarrow> ref_row \<Rightarrow> instance_row \<Rightarrow> implicit_edge" where
  "mk_edge from_inst sr to_inst =
     \<lparr>ie_ref_id = rf_id sr, ie_to_symbol = rf_to_symbol sr, ie_from_object = rf_from_object sr,
      ie_from_range = rf_from_range sr, ie_to_instance = in_id to_inst, ie_from_instance = in_id from_inst,
      ie_sr_layer = rf_layer sr, ie_from_layer = in_layer from_inst, ie_to_layer = in_layer to_inst\<rparr>"

definition edge_visible :: "visibility_spec \<Rightarrow> instance_row \<Rightarrow> ref_row \<Rightarrow> instance_row \<Rightarrow> bool" where
  "edge_visible v from_inst sr to_inst =
     (case v of
        RootOnly roots \<Rightarrow> rf_layer sr \<in> set roots
      | EphTouching visible \<Rightarrow> rf_layer sr \<in> set visible
          \<and> \<not> (0 < rf_layer sr \<and> 0 < in_layer from_inst \<and> 0 < in_layer to_inst)
      | Combined visible \<Rightarrow> rf_layer sr \<in> set visible)"

definition cte_find_edges_between :: "tables \<Rightarrow> instance_row list \<Rightarrow> visibility_spec \<Rightarrow> implicit_edge list" where
  "cte_find_edges_between db candidates v =
     distinct_edges
       [mk_edge from_inst sr to_inst.
          from_inst \<leftarrow> candidates,
          sr \<leftarrow> filter (\<lambda>sr. rf_from_object sr = in_object_id from_inst
                  \<and> range_contains (in_range from_inst) (rf_from_range sr)) (tb_refs db),
          to_inst \<leftarrow> filter (\<lambda>to_inst. in_symbol to_inst = rf_to_symbol sr
                  \<and> in_id from_inst \<noteq> in_id to_inst \<and> edge_visible v from_inst sr to_inst) candidates]"

subsection \<open>Loads\<close>

definition load_current :: "index_db \<Rightarrow> string \<Rightarrow> composite_filter \<Rightarrow> eph_visibility \<Rightarrow> string + current_row list" where
  "load_current ix what f vis =
     run_load ix what vis
       (guarded current_layers
         (with_filter (current_holds (ix_ops ix)) (compose_current f vis)
           (build_current_query (ix_tables ix) vis)))"

definition load_parents ::
  "index_db \<Rightarrow> string \<Rightarrow> composite_filter \<Rightarrow> int list \<Rightarrow> int list option \<Rightarrow> eph_visibility \<Rightarrow> string + parents_row list" where
  "load_parents ix what f source_ids scope_ids vis =
     (let q = with_filter (parents_holds (ix_ops ix)) (compose_parents f vis)
                (build_parents_query (ix_tables ix) source_ids vis);
          q' = (case scope_ids of None \<Rightarrow> q | Some ids \<Rightarrow> with_ids (\<lambda>(r, s, i, pd, ps). in_id pd) ids q)
      in run_load ix what vis (guarded parents_layers q'))"

definition load_children ::
  "index_db \<Rightarrow> string \<Rightarrow> composite_filter \<Rightarrow> int list \<Rightarrow> int list option \<Rightarrow> eph_visibility \<Rightarrow> string + children_row list" where
  "load_children ix what f source_ids scope_ids vis =
     (let q = with_filter (children_holds (ix_tables ix)) (compose_children f vis)
                (build_children_query (ix_tables ix) source_ids vis);
          q' = (case scope_ids of None \<Rightarrow> q | Some ids \<Rightarrow> with_ids (\<lambda>(ps, s, i, pd, r, ob). in_id i) ids q)
      in run_load ix what vis (guarded children_layers q'))"

definition load_has_parents ::
  "index_db \<Rightarrow> string \<Rightarrow> composite_filter \<Rightarrow> int list \<Rightarrow> eph_visibility \<Rightarrow> string + has_parents_row list" where
  "load_has_parents ix what f source_ids vis =
     run_load ix what vis
       (guarded has_parents_layers
         (with_filter (has_parents_holds (ix_tables ix)) (compose_has_parents f vis)
           (build_has_parents_query (ix_tables ix) source_ids vis)))"

text \<open>The containment children: the plain query under a filter, else the fast path.\<close>

definition load_has_children ::
  "index_db \<Rightarrow> string \<Rightarrow> composite_filter \<Rightarrow> int list \<Rightarrow> eph_visibility \<Rightarrow> string + has_children_row list" where
  "load_has_children ix what f source_ids vis =
     (let db = ix_tables ix in
      run_load ix what vis
        (if constrains_has_children f
         then guarded has_children_layers
                (with_filter (has_children_holds db) (compose_has_children f vis)
                  (build_has_children_query db source_ids vis))
         else guarded has_children_layers
                (build_has_children_query_against_cte db (build_has_children_cte_body db source_ids vis) vis)))"

definition load_edges :: "index_db \<Rightarrow> int list \<Rightarrow> eph_visibility \<Rightarrow> string + implicit_edge list" where
  "load_edges ix ids vis =
     run_load ix ''find_edges_between'' vis
       (cte_find_edges_between (ix_tables ix) (build_find_edges_cte_body (ix_tables ix) ids vis) (fst (vis_snapshot vis)))"

subsection \<open>Scopes\<close>

datatype scope_context =
    Scope "int list" "composite_filter option"
  | Skip
  | Unscoped

datatype scope_role = ChildrenOf "int list" | ParentsOf "int list"

definition referenced_instances :: "tables \<Rightarrow> visibility_spec \<Rightarrow> int list \<Rightarrow> int list" where
  "referenced_instances db v parent_ids =
     [in_id si.
        sr \<leftarrow> filter (\<lambda>sr. sees v (rf_layer sr)) (tb_refs db),
        si \<leftarrow> filter (\<lambda>si. in_symbol si = rf_to_symbol sr \<and> sees v (in_layer si)) (tb_instances db),
        pd \<leftarrow> filter (\<lambda>pd. in_object_id pd = rf_from_object sr \<and> range_contains (in_range pd) (rf_from_range sr)
                \<and> sees v (in_layer pd) \<and> in_id pd \<in> set parent_ids) (tb_instances db)]"

definition referring_instances :: "tables \<Rightarrow> visibility_spec \<Rightarrow> int list \<Rightarrow> int list" where
  "referring_instances db v child_ids =
     [in_id pd.
        sr \<leftarrow> filter (\<lambda>sr. sees v (rf_layer sr)) (tb_refs db),
        pd \<leftarrow> filter (\<lambda>pd. in_object_id pd = rf_from_object sr \<and> range_contains (in_range pd) (rf_from_range sr)
                \<and> sees v (in_layer pd)) (tb_instances db),
        si \<leftarrow> filter (\<lambda>si. in_symbol si = rf_to_symbol sr \<and> sees v (in_layer si)
                \<and> in_id si \<in> set child_ids) (tb_instances db)]"

definition resolve_filter_to_ids ::
  "index_db \<Rightarrow> composite_filter \<Rightarrow> scope_role option \<Rightarrow> eph_context \<Rightarrow> string + int list" where
  "resolve_filter_to_ids ix f role ec =
     (let db = ix_tables ix;
          vis = vis_combined ec;
          query = with_filter (current_holds (ix_ops ix)) (compose_current f vis) (build_current_query db vis);
          query' = (case role of
                Some (ChildrenOf parent_ids) \<Rightarrow>
                  if parent_ids \<noteq> []
                  then with_ids current_key (referenced_instances db (vis_branch vis) parent_ids) query
                  else query
              | Some (ParentsOf child_ids) \<Rightarrow>
                  if child_ids \<noteq> []
                  then with_ids current_key (referring_instances db (vis_branch vis) child_ids) query
                  else query
              | None \<Rightarrow> query)
      in rbind (map_err (\<lambda>e. ''Failed to resolve filter to IDs: '' @ e)
                 (run_load ix ''resolve_filter_to_ids'' vis (fst query'))) (\<lambda>results.
         Inr (sort_dedup (map current_key results))))"

definition resolve_scope_ids ::
  "index_db \<Rightarrow> int list \<Rightarrow> composite_filter option \<Rightarrow> scope_role option \<Rightarrow> eph_context \<Rightarrow> string + int list" where
  "resolve_scope_ids ix ids f role ec =
     (case f of
        None \<Rightarrow> Inr ids
      | Some f' \<Rightarrow>
          rbind (resolve_filter_to_ids ix f' role ec) (\<lambda>more. Inr (sort_dedup (ids @ more))))"

subsection \<open>Reads\<close>

definition has_symbol_matching :: "index_db \<Rightarrow> composite_filter \<Rightarrow> eph_context \<Rightarrow> string + bool" where
  "has_symbol_matching ix f ec =
     rbind (map_err (\<lambda>e. ''Failed to probe symbol existence: '' @ e)
       (cached_load_partitioned
         (\<lambda>vis. rbind (load_current ix ''has_symbol_matching'' f vis) (\<lambda>rows. Inr (take 1 rows)))
         current_key ec (is_chain_dependent f))) (\<lambda>rows.
     Inr (rows \<noteq> []))"

definition select_current :: "index_db \<Rightarrow> composite_filter \<Rightarrow> eph_context \<Rightarrow> string + current_row list" where
  "select_current ix f ec =
     map_err (\<lambda>e. ''Failed to load symbols: '' @ e)
       (cached_load_partitioned (load_current ix ''select_current'' f) current_key ec (is_chain_dependent f))"

definition select_parents ::
  "index_db \<Rightarrow> composite_filter \<Rightarrow> int list \<Rightarrow> scope_context \<Rightarrow> eph_context \<Rightarrow> string + parents_row list" where
  "select_parents ix f current_ids scope ec =
     (let load = (\<lambda>scope_ids. map_err (\<lambda>e. ''Failed to load symbol references: '' @ e)
            (cached_load_partitioned (load_parents ix ''select_parents'' f current_ids scope_ids)
              parents_key ec (is_chain_dependent f)))
      in case scope of
           Skip \<Rightarrow> Inr []
         | Unscoped \<Rightarrow> load None
         | Scope ids scope_filter \<Rightarrow>
             rbind (resolve_scope_ids ix ids scope_filter (Some (ParentsOf current_ids)) ec) (\<lambda>scope_ids.
             load (Some scope_ids)))"

definition select_children ::
  "index_db \<Rightarrow> composite_filter \<Rightarrow> int list \<Rightarrow> scope_context \<Rightarrow> eph_context \<Rightarrow> string + children_row list" where
  "select_children ix f current_ids scope ec =
     (let load = (\<lambda>scope_ids. map_err (\<lambda>e. ''Failed to load symbol references: '' @ e)
            (cached_load_partitioned (load_children ix ''select_children'' f current_ids scope_ids)
              children_key ec (is_chain_dependent f)))
      in case scope of
           Skip \<Rightarrow> Inr []
         | Unscoped \<Rightarrow> load None
         | Scope ids scope_filter \<Rightarrow>
             rbind (resolve_scope_ids ix ids scope_filter (Some (ChildrenOf current_ids)) ec) (\<lambda>scope_ids.
             load (Some scope_ids)))"

definition select_has_parents ::
  "index_db \<Rightarrow> composite_filter \<Rightarrow> int list \<Rightarrow> eph_context \<Rightarrow> string + has_parents_row list" where
  "select_has_parents ix f current_ids ec =
     map_err (\<lambda>e. ''Failed to load containment parents: '' @ e)
       (cached_load_partitioned (load_has_parents ix ''select_has_parents'' f current_ids)
         has_parents_key ec (is_chain_dependent f))"

definition select_has_children ::
  "index_db \<Rightarrow> composite_filter \<Rightarrow> int list \<Rightarrow> eph_context \<Rightarrow> string + has_children_row list" where
  "select_has_children ix f current_ids ec =
     map_err (\<lambda>e. ''Failed to load containment children: '' @ e)
       (cached_load_partitioned (load_has_children ix ''select_has_children'' f current_ids)
         has_children_key ec (is_chain_dependent f))"

text \<open>The rows as a selection; children are sorted by the instances they relate.\<close>

definition node_of_row :: "current_row \<Rightarrow> selection_node" where
  "node_of_row = (\<lambda>(s, i, ob, p).
     \<lparr>nd_symbol = s, nd_instance = i, nd_object = ob, nd_project = p, nd_statements = []\<rparr>)"

definition parent_of_row :: "parents_row \<Rightarrow> parent_reference" where
  "parent_of_row = (\<lambda>(r, s, i, pd, ps).
     \<lparr>pf_to_symbol = s, pf_to_instance = i, pf_from_instance = pd, pf_ref = r\<rparr>)"

definition child_of_row :: "children_row \<Rightarrow> child_reference" where
  "child_of_row = (\<lambda>(ps, s, i, pd, r, ob).
     \<lparr>cf_parent_symbol = ps, cf_symbol = s, cf_instance = i, cf_from_instance = pd, cf_ref = r,
      cf_from_object = ob\<rparr>)"

definition has_parent_of_row :: "has_parents_row \<Rightarrow> has_parent_reference" where
  "has_parent_of_row = (\<lambda>(s, i, ty, cs, ci, cty).
     \<lparr>hp_child_symbol = s, hp_child_instance = i, hp_parent_symbol = cs, hp_parent_instance = ci\<rparr>)"

definition has_child_of_row :: "has_children_row \<Rightarrow> has_child_reference" where
  "has_child_of_row = (\<lambda>(s, i, ty, ob, cs, ci, cty).
     \<lparr>hc_parent_symbol = s, hc_parent_instance = i, hc_child_symbol = cs, hc_child_instance = ci,
      hc_parent_object = ob\<rparr>)"

definition selection_of_rows ::
  "current_row list \<Rightarrow> parents_row list \<Rightarrow> children_row list \<Rightarrow> has_parents_row list \<Rightarrow> has_children_row list
    \<Rightarrow> selection" where
  "selection_of_rows current parents children has_parents has_children =
     \<lparr>sl_nodes = map node_of_row current,
      sl_parents = map parent_of_row parents,
      sl_children = sort_key (\<lambda>c. (in_id (cf_from_instance c), in_id (cf_instance c)))
         (map child_of_row children),
      sl_has_parents = map has_parent_of_row has_parents,
      sl_has_children = sort_key (\<lambda>h. (in_id (hc_parent_instance h), in_id (hc_child_instance h)))
         (map has_child_of_row has_children)\<rparr>"

definition isolation_message :: string where
  "isolation_message = ''internal error: ephemeral layer isolation violation''"

definition find_symbol ::
  "index_db \<Rightarrow> composite_filter \<Rightarrow> scope_context \<Rightarrow> scope_context \<Rightarrow> eph_context \<Rightarrow> string + selection" where
  "find_symbol ix f parent_scope children_scope ec =
     rbind (select_current ix f ec) (\<lambda>current.
     let current_ids = sort_dedup (map current_key current) in
     rbind (select_parents ix f current_ids parent_scope ec) (\<lambda>parents.
     rbind (select_children ix f current_ids children_scope ec) (\<lambda>children.
     rbind (select_has_parents ix f current_ids ec) (\<lambda>has_parents.
     rbind (select_has_children ix f current_ids ec) (\<lambda>has_children.
     map_err (\<lambda>e. isolation_message)
       (checked_new (selection_of_rows current parents children has_parents has_children) ec))))))"

text \<open>The layer check each list of loaded rows goes through.\<close>

definition check_layers :: "('r \<Rightarrow> int list) \<Rightarrow> eph_context \<Rightarrow> 'r list \<Rightarrow> string + 'r list" where
  "check_layers layers_of ec rows =
     (if list_ex (\<lambda>r. list_ex (\<lambda>l. is_eph_leak l (visible_ids ec)) (layers_of r)) rows
      then Inl isolation_message else Inr rows)"

text \<open>Loaded rows, their layers checked, as the ids of one of their instances.\<close>

definition checked_ids ::
  "string \<Rightarrow> string + 'r list \<Rightarrow> ('r \<Rightarrow> int list) \<Rightarrow> ('r \<Rightarrow> int) \<Rightarrow> eph_context \<Rightarrow> string + int list" where
  "checked_ids message loaded layers_of col ec =
     rbind (map_err (\<lambda>e. message @ e) loaded) (\<lambda>results.
     rbind (check_layers layers_of ec results) (\<lambda>results.
     Inr (map col results)))"

definition find_child_instance_ids ::
  "index_db \<Rightarrow> int list \<Rightarrow> bool \<Rightarrow> bool \<Rightarrow> composite_filter \<Rightarrow> eph_context \<Rightarrow> string + int list" where
  "find_child_instance_ids ix parent_ids include_refs include_has f ec =
     (let source_ids = sort_dedup parent_ids; cd = is_chain_dependent f in
      rbind (if include_has
             then checked_ids ''Failed to find has-child instance IDs: ''
                    (cached_load_partitioned (load_has_children ix ''find_child_instance_ids (has)'' f source_ids)
                      has_children_key ec cd)
                    (\<lambda>(ps, pi, ty, ob, cs, ci, cty). [sy_layer ps, in_layer pi, sy_layer cs, in_layer ci])
                    (\<lambda>(ps, pi, ty, ob, cs, ci, cty). in_id ci) ec
             else Inr []) (\<lambda>has_ids.
      rbind (if include_refs
             then checked_ids ''Failed to find ref-child instance IDs: ''
                    (cached_load_partitioned (load_children ix ''find_child_instance_ids (refs)'' f source_ids None)
                      children_key ec cd)
                    (\<lambda>(ps, cs, ci, fi, sr, ob). [sy_layer ps, sy_layer cs, in_layer ci, in_layer fi, rf_layer sr])
                    (\<lambda>(ps, cs, ci, fi, sr, ob). in_id ci) ec
             else Inr []) (\<lambda>ref_ids.
      Inr (sort_dedup (has_ids @ ref_ids)))))"

definition find_parent_instance_ids ::
  "index_db \<Rightarrow> int list \<Rightarrow> bool \<Rightarrow> bool \<Rightarrow> composite_filter \<Rightarrow> eph_context \<Rightarrow> string + int list" where
  "find_parent_instance_ids ix child_ids include_refs include_has f ec =
     (let source_ids = sort_dedup child_ids; cd = is_chain_dependent f in
      rbind (if include_refs
             then checked_ids ''Failed to find ref-parent instance IDs: ''
                    (cached_load_partitioned (load_parents ix ''find_parent_instance_ids (refs)'' f source_ids None)
                      parents_key ec cd)
                    (\<lambda>(sr, s, ci, pi, ps). [rf_layer sr, sy_layer s, in_layer ci, in_layer pi])
                    (\<lambda>(sr, s, ci, pi, ps). in_id pi) ec
             else Inr []) (\<lambda>ref_ids.
      rbind (if include_has
             then checked_ids ''Failed to find has-parent instance IDs: ''
                    (cached_load_partitioned (load_has_parents ix ''find_parent_instance_ids (has)'' f source_ids)
                      has_parents_key ec cd)
                    (\<lambda>(cs, ci, ty, ps, pi, pty). [sy_layer cs, in_layer ci, sy_layer ps, in_layer pi])
                    (\<lambda>(cs, ci, ty, ps, pi, pty). in_id pi) ec
             else Inr []) (\<lambda>has_ids.
      Inr (sort_dedup (ref_ids @ has_ids)))))"

definition find_edges_between :: "index_db \<Rightarrow> int list \<Rightarrow> eph_context \<Rightarrow> string + implicit_edge list" where
  "find_edges_between ix instance_ids ec =
     (if instance_ids = [] then Inr []
      else rbind (map_err (\<lambda>e. ''Failed to find edges between instances: '' @ e)
             (cached_load_partitioned (load_edges ix (sort_dedup instance_ids)) edge_key ec False)) (\<lambda>results.
           check_layers (\<lambda>e. [ie_sr_layer e, ie_from_layer e, ie_to_layer e]) ec (distinct_edges results)))"

end
