(* ===== verification/Execution.thy ===== *)
theory Execution
  imports Constrain Ephemeral Index_Queries
begin

text \<open>
  How a command computes its first selections and reacts to the selection of another
  statement.  Sources: the \<open>Selector\<close> trait in \<open>askld/src/verb/mod.rs\<close> and its
  implementations in \<open>verb/generic/selectors.rs\<close>, \<open>verb/labels.rs\<close>; \<open>Command\<close> in
  \<open>askld/src/command.rs\<close> (\<open>notify_from_selection\<close>, \<open>accept_notification\<close>,
  \<open>compute_selected\<close>, \<open>ComputeResult\<close>).  The index is a record of its queries; the
  \<open>OnceLock\<close> of a forced verb is an entry of the context, by the identity of the verb.
\<close>

subsection \<open>What execution calls\<close>

text \<open>The queries, errors as messages, and the line and column that the parser library gives an offset.\<close>

record exec_env =
  ev_find_symbol :: "composite_filter \<Rightarrow> scope_context \<Rightarrow> scope_context \<Rightarrow> eph_context \<Rightarrow> string + selection"
  ev_find_child_ids :: "int list \<Rightarrow> bool \<Rightarrow> bool \<Rightarrow> composite_filter \<Rightarrow> eph_context \<Rightarrow> string + int list"
  ev_find_parent_ids :: "int list \<Rightarrow> bool \<Rightarrow> bool \<Rightarrow> composite_filter \<Rightarrow> eph_context \<Rightarrow> string + int list"
  ev_layer_instances :: "int list \<Rightarrow> string + int list"
  ev_edges_between :: "int list \<Rightarrow> eph_context \<Rightarrow> string + implicit_edge list"
  ev_line_col :: "string \<Rightarrow> nat \<Rightarrow> nat \<times> nat"

definition find_symbol_by_instance_id ::
  "exec_env \<Rightarrow> command \<Rightarrow> int list \<Rightarrow> scope_context \<Rightarrow> scope_context \<Rightarrow> eph_context \<Rightarrow> string + selection" where
  "find_symbol_by_instance_id env c instances parent_scope children_scope eph =
     ev_find_symbol env (cf_and (filter_parts (cm_verbs c) @ [CLeaf (SymbolInstanceIds instances)]))
       parent_scope children_scope eph"

definition span_display :: "exec_env \<Rightarrow> span \<Rightarrow> string" where
  "span_display env sp =
     (let (start_line, start_col) = ev_line_col env (sp_input sp) (sp_start sp);
          (end_line, end_col) = ev_line_col env (sp_input sp) (sp_end sp)
      in if start_line = end_line
         then ''Line '' @ show_nat start_line @ '':'' @ show_nat start_col @ ''-'' @ show_nat end_col
         else ''Line '' @ show_nat start_line @ '':'' @ show_nat start_col
              @ '' to Line '' @ show_nat end_line @ '':'' @ show_nat end_col)"

definition command_span :: "command \<Rightarrow> exec_error + span" where
  "command_span c = (case cm_span c of Some sp \<Rightarrow> Inr sp | None \<Rightarrow> Inl ExecPanic)"

subsection \<open>The execution context\<close>

record layer_activation =
  la_root_id :: int
  la_layer_id :: int
  la_created :: bool
  la_truncated :: bool
  la_role :: layer_role

record exec_ctx =
  xc_registry :: registry
  xc_once :: "nat \<rightharpoonup> selection"
  xc_eph :: eph_context
  xc_activations :: "layer_activation list"

definition exec_ctx_new :: "root_layer list \<Rightarrow> exec_ctx" where
  "exec_ctx_new roots = \<lparr>xc_registry = (\<lambda>i. None), xc_once = (\<lambda>i. None), xc_eph = rooted roots, xc_activations = []\<rparr>"

text \<open>\<open>OnceLock::set\<close> keeps the first value.\<close>

definition once_set :: "nat \<Rightarrow> selection \<Rightarrow> (nat \<rightharpoonup> selection) \<Rightarrow> (nat \<rightharpoonup> selection)" where
  "once_set i s once = (case once i of None \<Rightarrow> once(i \<mapsto> s) | Some s' \<Rightarrow> once)"

text \<open>
  The notifier as the receiver sees it, and the notification: role, relationship type and
  unnest mode.
\<close>

record notification =
  nt_command :: command
  nt_weak :: bool
  nt_role :: dependency_role
  nt_rel :: rel_type
  nt_unnest :: bool

subsection \<open>Deriving a selection\<close>

text \<open>The references a forced selection gets: every selected parent to every forced node.\<close>

definition fake_parent_references :: "selection \<Rightarrow> selection \<Rightarrow> parent_reference list" where
  "fake_parent_references parent child =
     [\<lparr>pf_to_symbol = nd_symbol c, pf_to_instance = nd_instance c, pf_from_instance = nd_instance p,
       pf_ref = \<lparr>rf_id = 0, rf_to_symbol = sy_id (nd_symbol c), rf_from_object = ob_id (nd_object p),
         rf_from_range = in_range (nd_instance p), rf_layer = in_layer (nd_instance p)\<rparr>\<rparr>.
       p \<leftarrow> sl_nodes parent, c \<leftarrow> sl_nodes child]"

definition lift_query :: "string + 'a \<Rightarrow> exec_error + 'a" where
  "lift_query r = map_err ExecFailed r"

text \<open>The trait's three default derivations, on the notifier's selection.\<close>

definition derive_from_parent_default ::
  "exec_env \<Rightarrow> command \<Rightarrow> eph_context \<Rightarrow> notification \<Rightarrow> scope_context \<Rightarrow> scope_context \<Rightarrow> selection option
    \<Rightarrow> exec_error + selection option" where
  "derive_from_parent_default env c eph nt parent_scope children_scope parent =
     (case parent of
        None \<Rightarrow> Inr None
      | Some parent_sel \<Rightarrow>
          (let parent_ids = get_instance_ids parent_sel;
               find_filter = cf_and (if nt_unnest nt then [] else [CLeaf DirectOnly, CLeaf (OuterParent parent_ids)])
           in rbind (lift_query (ev_find_child_ids env parent_ids (rel_contains (nt_rel nt) REFS)
                       (rel_contains (nt_rel nt) HAS) find_filter eph)) (\<lambda>decl_ids.
              rbind (lift_query (find_symbol_by_instance_id env c decl_ids parent_scope children_scope eph)) (\<lambda>s.
              Inr (Some s)))))"

definition innermost_filter :: "bool \<Rightarrow> composite_filter" where
  "innermost_filter unnest = cf_and (if unnest then [] else [CLeaf InnermostOnly])"

definition derive_from_child_default ::
  "exec_env \<Rightarrow> command \<Rightarrow> eph_context \<Rightarrow> notification \<Rightarrow> scope_context \<Rightarrow> scope_context \<Rightarrow> selection option
    \<Rightarrow> exec_error + selection option" where
  "derive_from_child_default env c eph nt parent_scope children_scope child =
     (case child of
        None \<Rightarrow> Inr None
      | Some child_sel \<Rightarrow>
          rbind (lift_query (ev_find_parent_ids env (get_instance_ids child_sel) (rel_contains (nt_rel nt) REFS)
                   (rel_contains (nt_rel nt) HAS) (innermost_filter (nt_unnest nt)) eph)) (\<lambda>decl_ids.
          rbind (lift_query (find_symbol_by_instance_id env c decl_ids parent_scope children_scope eph)) (\<lambda>s.
          Inr (Some s))))"

definition derive_from_provider_default :: "selection option \<Rightarrow> selection option" where
  "derive_from_provider_default provider = provider"

text \<open>\<open>ForcedVerb\<close>: the selection it cached, as if every selected parent referred to it.\<close>

definition forced_derive_from_parent :: "selection option \<Rightarrow> selection option \<Rightarrow> selection option" where
  "forced_derive_from_parent cached parent =
     (case parent of
        None \<Rightarrow> None
      | Some parent_selection \<Rightarrow>
          (case cached of
             None \<Rightarrow> Some selection_new
           | Some s \<Rightarrow> Some (s\<lparr>sl_parents := fake_parent_references parent_selection s\<rparr>)))"

text \<open>\<open>UserVerb\<close>.\<close>

definition user_derive_from_parent ::
  "bool \<Rightarrow> selection option \<Rightarrow> selection option \<Rightarrow> exec_error + selection option" where
  "user_derive_from_parent forced cached parent =
     (if \<not> forced then Inl (ExecFailed ''Cannot derive from parent when not forced'')
      else Inr (forced_derive_from_parent cached parent))"

definition user_derive_from_child ::
  "exec_env \<Rightarrow> eph_context \<Rightarrow> notification \<Rightarrow> selection option \<Rightarrow> selection option
    \<Rightarrow> exec_error + selection option" where
  "user_derive_from_child env eph nt cached child =
     (case child of
        None \<Rightarrow> Inr None
      | Some child_sel \<Rightarrow>
          (case cached of
             None \<Rightarrow> Inr (Some selection_new)
           | Some s \<Rightarrow>
               rbind (lift_query (ev_find_parent_ids env (get_instance_ids child_sel)
                        (rel_contains (nt_rel nt) REFS) (rel_contains (nt_rel nt) HAS)
                        (innermost_filter (nt_unnest nt)) eph)) (\<lambda>parent_ids.
               Inr (Some (keep_nodes (\<lambda>n. in_id (nd_instance n) \<in> set parent_ids) s)))))"

definition user_derive_from_provider ::
  "nat \<Rightarrow> bool \<Rightarrow> selection option \<Rightarrow> (nat \<rightharpoonup> selection) \<Rightarrow> selection option \<times> (nat \<rightharpoonup> selection)" where
  "user_derive_from_provider i forced provider once =
     (case provider of
        None \<Rightarrow> (None, once)
      | Some s \<Rightarrow> if \<not> forced then (Some s, once) else (None, once_set i s once))"

text \<open>\<open>UserVerb::update_state\<close>: a forced one takes what its provider left.\<close>

fun update_state :: "verb_kind \<Rightarrow> selection option \<Rightarrow> selection option \<Rightarrow> selection option" where
  "update_state (VUse l forced) cached state =
     (if forced then (if state = None \<and> cached \<noteq> None then cached else state) else state)"
| "update_state k cached state = state"

subsection \<open>Constraining on a notification\<close>

datatype constraint_action = ActSkip | ActConstrained bool "diagnostic list" | ActDerive

definition try_constrain_default ::
  "exec_env \<Rightarrow> verb \<Rightarrow> selection \<Rightarrow> notification \<Rightarrow> registry \<Rightarrow> exec_error + constraint_action \<times> registry" where
  "try_constrain_default env v dep nt reg =
     (let (exists, reg1) = (if nt_weak nt then selector_state_with (vb_id v) (\<lambda>st. (st \<noteq> None, st)) reg else (False, reg))
      in if exists then Inr (ActSkip, reg1)
         else rbind (command_span (nt_command nt)) (\<lambda>nsp.
              let ((constrained, changed, warnings), reg2) =
                    selector_state_with (vb_id v)
                      (constrain_with_warning dep (nt_role nt) (nt_rel nt)
                         ((vb_span v)\<lparr>sp_input := sp_input nsp\<rparr>) (span_display env nsp)) reg1
              in Inr (if constrained then ActConstrained changed warnings else ActDerive, reg2)))"

definition try_constrain_user ::
  "verb \<Rightarrow> bool \<Rightarrow> selection \<Rightarrow> notification \<Rightarrow> registry \<Rightarrow> exec_error + constraint_action \<times> registry" where
  "try_constrain_user v forced dep nt reg =
     (if \<not> forced \<or> nt_role nt \<noteq> Child
      then (let ((constrained, changed), reg1) =
                  selector_state_with (vb_id v) (\<lambda>st.
                    if st \<noteq> None
                    then (let (changed, st') = constrain_selection dep (nt_role nt) (nt_rel nt) st in ((True, changed), st'))
                    else ((False, False), st)) reg
            in if constrained then Inr (ActConstrained changed [], reg1)
               else if nt_role nt = Child
               then Inl (ExecFailed ''Use verb is not resolvable because of a circular dependency.'')
               else Inr (ActDerive, reg1))
      else Inr (ActDerive, reg))"

definition try_constrain_notification ::
  "exec_env \<Rightarrow> verb \<Rightarrow> selection \<Rightarrow> notification \<Rightarrow> registry \<Rightarrow> exec_error + constraint_action \<times> registry" where
  "try_constrain_notification env v dep nt reg =
     (case vb_kind v of
        VUse l forced \<Rightarrow> try_constrain_user v forced dep nt reg
      | _ \<Rightarrow> try_constrain_default env v dep nt reg)"

text \<open>Which derivation runs: by the role of the dependency, then by the verb.\<close>

definition derive_selection ::
  "exec_env \<Rightarrow> command \<Rightarrow> verb \<Rightarrow> selection option \<Rightarrow> notification \<Rightarrow> scope_context \<Rightarrow> scope_context \<Rightarrow> exec_ctx
    \<Rightarrow> exec_error + selection option \<times> (nat \<rightharpoonup> selection)" where
  "derive_selection env c v dep nt parent_scope children_scope ctx =
     (let once = xc_once ctx; cached = once (vb_id v); eph = xc_eph ctx in
      case nt_role nt of
        Child \<Rightarrow>
          rbind (case vb_kind v of
                   VForced p \<Rightarrow> Inr (forced_derive_from_parent cached dep)
                 | VUse l forced \<Rightarrow> user_derive_from_parent forced cached dep
                 | _ \<Rightarrow> derive_from_parent_default env c eph nt parent_scope children_scope dep) (\<lambda>s. Inr (s, once))
      | Parent \<Rightarrow>
          rbind (case vb_kind v of
                   VUse l forced \<Rightarrow> user_derive_from_child env eph nt cached dep
                 | _ \<Rightarrow> derive_from_child_default env c eph nt parent_scope children_scope dep) (\<lambda>s. Inr (s, once))
      | User \<Rightarrow>
          Inr (case vb_kind v of
                 VUse l forced \<Rightarrow> user_derive_from_provider (vb_id v) forced dep once
               | _ \<Rightarrow> (derive_from_provider_default dep, once))
      | _ \<Rightarrow> Inr (None, once))"

subsection \<open>Accepting a notification\<close>

text \<open>A \<open>User\<close> notification concerns only the selectors that name a label of the notifier.\<close>

definition concerns :: "string list option \<Rightarrow> verb \<Rightarrow> bool" where
  "concerns notifier_labels v =
     (case notifier_labels of
        None \<Rightarrow> True
      | Some ls \<Rightarrow> (case selector_label (vb_kind v) of None \<Rightarrow> False | Some l \<Rightarrow> l \<in> set ls))"

text \<open>One selector: the flag, the warnings and the context after it.\<close>

definition accept_one ::
  "exec_env \<Rightarrow> command \<Rightarrow> notification \<Rightarrow> selection \<Rightarrow> string list option \<Rightarrow> scope_context \<Rightarrow> scope_context
    \<Rightarrow> verb \<Rightarrow> exec_ctx \<Rightarrow> exec_error + (bool \<times> diagnostic list) \<times> exec_ctx" where
  "accept_one env c nt dep labels parent_scope children_scope v ctx =
     (if \<not> concerns labels v then Inr ((False, []), ctx)
      else rbind (try_constrain_notification env v dep nt (xc_registry ctx)) (\<lambda>(action, reg).
        let ctx1 = ctx\<lparr>xc_registry := reg\<rparr> in
        case action of
          ActSkip \<Rightarrow> Inr ((False, []), ctx1)
        | ActConstrained changed warnings \<Rightarrow> Inr ((changed, warnings), ctx1)
        | ActDerive \<Rightarrow>
            rbind (get_selection (xc_registry ctx1) (nt_command nt)) (\<lambda>notifier_sel.
            rbind (derive_selection env c v notifier_sel nt parent_scope children_scope ctx1) (\<lambda>(sel, once).
            Inr ((True, []), ctx1\<lparr>xc_registry := (xc_registry ctx1)(vb_id v \<mapsto> map_option (command_filter c) sel),
                                  xc_once := once\<rparr>)))))"

fun accept_all ::
  "exec_env \<Rightarrow> command \<Rightarrow> notification \<Rightarrow> selection \<Rightarrow> string list option \<Rightarrow> scope_context \<Rightarrow> scope_context
    \<Rightarrow> verb list \<Rightarrow> exec_ctx \<Rightarrow> exec_error + (bool \<times> diagnostic list) \<times> exec_ctx" where
  "accept_all env c nt dep labels ps cs [] ctx = Inr ((False, []), ctx)"
| "accept_all env c nt dep labels ps cs (v # vs) ctx =
     rbind (accept_one env c nt dep labels ps cs v ctx) (\<lambda>((ch, ws), ctx1).
     rbind (accept_all env c nt dep labels ps cs vs ctx1) (\<lambda>((ch', ws'), ctx2).
     Inr ((ch \<or> ch', ws @ ws'), ctx2)))"

definition accept_notification ::
  "exec_env \<Rightarrow> command \<Rightarrow> notification \<Rightarrow> scope_context \<Rightarrow> scope_context \<Rightarrow> exec_ctx
    \<Rightarrow> exec_error + (bool \<times> diagnostic list) \<times> exec_ctx" where
  "accept_notification env c nt parent_scope children_scope ctx =
     (if \<not> has_selectors (nt_command nt) then Inr ((False, []), ctx)
      else rbind (get_selection (xc_registry ctx) (nt_command nt)) (\<lambda>sel.
        case sel of
          None \<Rightarrow> Inr ((False, []), ctx)
        | Some dep \<Rightarrow>
            accept_all env c nt dep (if nt_role nt = User then Some (get_labels (nt_command nt)) else None)
              parent_scope children_scope (command_selectors c) ctx))"

subsection \<open>Merged notification of a parent\<close>

text \<open>The instance ids to derive from are looked up once, by the first selector that needs them.\<close>

definition notify_one ::
  "exec_env \<Rightarrow> command \<Rightarrow> selection \<Rightarrow> dependency_role \<Rightarrow> rel_type \<Rightarrow> bool \<Rightarrow> scope_context \<Rightarrow> scope_context
    \<Rightarrow> verb \<Rightarrow> int list option \<times> exec_ctx
    \<Rightarrow> exec_error + (bool \<times> diagnostic list) \<times> int list option \<times> exec_ctx" where
  "notify_one env c dep role rel unnest parent_scope children_scope v = (\<lambda>(derivation_ids, ctx).
     rbind (command_span c) (\<lambda>csp.
     let ((constrained, sel_changed, sel_warnings), reg) =
           selector_state_with (vb_id v)
             (constrain_with_warning dep role rel ((vb_span v)\<lparr>sp_input := sp_input csp\<rparr>) ''children'') (xc_registry ctx);
         ctx1 = ctx\<lparr>xc_registry := reg\<rparr>
     in if constrained \<or> role \<noteq> Parent then Inr ((sel_changed, sel_warnings), derivation_ids, ctx1)
        else rbind (case derivation_ids of
                      Some ids \<Rightarrow> Inr ids
                    | None \<Rightarrow> lift_query (ev_find_parent_ids env (get_instance_ids dep) (rel_contains rel REFS)
                                (rel_contains rel HAS) (innermost_filter unnest) (xc_eph ctx1))) (\<lambda>decl_ids.
             rbind (lift_query (find_symbol_by_instance_id env c decl_ids parent_scope children_scope (xc_eph ctx1))) (\<lambda>s.
             Inr ((True, sel_warnings), Some decl_ids,
                  ctx1\<lparr>xc_registry := (xc_registry ctx1)(vb_id v \<mapsto> Some (command_filter c s))\<rparr>)))))"

fun notify_all ::
  "exec_env \<Rightarrow> command \<Rightarrow> selection \<Rightarrow> dependency_role \<Rightarrow> rel_type \<Rightarrow> bool \<Rightarrow> scope_context \<Rightarrow> scope_context
    \<Rightarrow> verb list \<Rightarrow> int list option \<times> exec_ctx
    \<Rightarrow> exec_error + (bool \<times> diagnostic list) \<times> int list option \<times> exec_ctx" where
  "notify_all env c dep role rel unnest ps cs [] s = Inr ((False, []), s)"
| "notify_all env c dep role rel unnest ps cs (v # vs) s =
     rbind (notify_one env c dep role rel unnest ps cs v s) (\<lambda>((ch, ws), s1).
     rbind (notify_all env c dep role rel unnest ps cs vs s1) (\<lambda>((ch', ws'), s2).
     Inr ((ch \<or> ch', ws @ ws'), s2)))"

definition notify_from_selection ::
  "exec_env \<Rightarrow> command \<Rightarrow> selection \<Rightarrow> dependency_role \<Rightarrow> rel_type \<Rightarrow> bool \<Rightarrow> scope_context \<Rightarrow> scope_context
    \<Rightarrow> exec_ctx \<Rightarrow> exec_error + (bool \<times> diagnostic list) \<times> exec_ctx" where
  "notify_from_selection env c dep role rel unnest parent_scope children_scope ctx =
     rbind (notify_all env c dep role rel unnest parent_scope children_scope (command_selectors c) (None, ctx))
       (\<lambda>(r, ids, ctx'). Inr (r, ctx'))"

subsection \<open>The first selections of a command\<close>

text \<open>
  What computing needs of the database, whose state is \<open>'w\<close>: the queries on a state, the layer
  specification of a selector, the materialisation of a specification on every root, and the
  touch of reused layers.
\<close>

record ('w, 'd) world_api =
  wd_sha :: sha
  wd_env :: "'w \<Rightarrow> exec_env"
  wd_layer_spec :: "verb \<Rightarrow> eph_context \<Rightarrow> composite_filter \<Rightarrow> label_resolutions \<Rightarrow> 'w \<Rightarrow> string + 'd layer_spec option"
  wd_materialise :: "eph_context \<Rightarrow> 'd layer_spec \<Rightarrow> ('w, string, materialised_layer list) step"
  wd_touch :: "int list \<Rightarrow> 'w \<Rightarrow> 'w"

record compute_result =
  cr_selections :: "(nat \<times> selection option) list"
  cr_warnings :: "diagnostic list"
  cr_activations :: "layer_activation list"
  cr_once :: "(nat \<times> selection) list"

text \<open>
  \<open>Selector::select_from_all_impl\<close> of each selector: the selection and what it caches in its
  \<open>OnceLock\<close>.
\<close>

definition find_all ::
  "exec_env \<Rightarrow> composite_filter \<Rightarrow> scope_context \<Rightarrow> scope_context \<Rightarrow> eph_context
    \<Rightarrow> string + selection option \<times> selection option" where
  "find_all env f ps cs eph = rbind (ev_find_symbol env f ps cs eph) (\<lambda>s. Inr (Some s, None))"

fun select_from_all ::
  "exec_env \<Rightarrow> verb_kind \<Rightarrow> composite_filter \<Rightarrow> scope_context \<Rightarrow> scope_context \<Rightarrow> eph_context
    \<Rightarrow> string + selection option \<times> selection option" where
  "select_from_all env (VName p) f ps cs eph = find_all env (cf_and [f, name_filter p]) ps cs eph"
| "select_from_all env (VForced p) f ps cs eph =
     rbind (ev_find_symbol env (cf_and [f, name_filter p]) ps cs eph) (\<lambda>s. Inr (None, Some s))"
| "select_from_all env VUnit f ps cs eph = Inr (None, None)"
| "select_from_all env (VUse l forced) f ps cs eph = Inr (None, None)"
| "select_from_all env (VIsolated b) f ps cs eph = Inr (Some selection_new, None)"
| "select_from_all env (VType t n filter_only i l) f ps cs eph =
     (if filter_only then Inr (None, None) else find_all env f ps cs eph)"
| "select_from_all env k f ps cs eph = find_all env f ps cs eph"

fun truncation_warning :: "verb \<Rightarrow> diagnostic option" where
  "truncation_warning v =
     (case vb_kind v of VSearch q c w n \<Rightarrow> Some (search_truncation_warning (vb_span v) q n) | _ \<Rightarrow> None)"

fun first_some :: "'a option list \<Rightarrow> 'a option" where
  "first_some [] = None"
| "first_some (Some x # xs) = Some x"
| "first_some (None # xs) = first_some xs"

definition name_constraint_warnings :: "command \<Rightarrow> span \<Rightarrow> diagnostic list" where
  "name_constraint_warnings c csp =
     map (\<lambda>v. diagnostic_note ((vb_span v)\<lparr>sp_input := sp_input csp\<rparr>)
            (''select requires at least one name filter (filter('' @ debug_str ''compound_name''
             @ '', ...) or filter('' @ debug_str ''exact_name'' @ '', ...))''))
       (filter (\<lambda>v. requires_name_constraint (vb_kind v)
          \<and> \<not> list_ex (\<lambda>u. has_name_constraint (vb_kind u)) (cm_verbs c)) (command_selectors c))"

text \<open>
  Phase 1: one materialisation per statement.  Its layers join the local context as one round;
  the result also says whether any layer was truncated.
\<close>

definition activation_of :: "materialised_layer \<Rightarrow> layer_activation" where
  "activation_of l =
     \<lparr>la_root_id = ml_root_id l, la_layer_id = lo_layer_id (ml_outcome l),
      la_created = lo_created (ml_outcome l), la_truncated = lo_truncated (ml_outcome l), la_role = ml_role l\<rparr>"

definition materialise_statement ::
  "('w, 'd) world_api \<Rightarrow> command \<Rightarrow> eph_context \<Rightarrow> label_resolutions
    \<Rightarrow> ('w, exec_error, layer_activation list \<times> eph_context) step" where
  "materialise_statement api c eph resolved w =
     (let composite = cf_and (filter_parts (cm_verbs c)) in
      case aggregate_layer_spec (wd_sha api) (\<lambda>v. wd_layer_spec api v eph composite resolved w) c of
        Inl e \<Rightarrow> (Inl (ExecFailed e), w)
      | Inr None \<Rightarrow> (Inr ([], eph), w)
      | Inr (Some spec) \<Rightarrow>
          if \<not> has_chain eph \<and> ls_supplement_extra spec \<noteq> []
          then (Inl (ExecFailed ''internal error: layer spec carries supplement inputs but no ephemeral context exists before this statement''), w)
          else (case wd_materialise api eph spec w of
                  (Inl e, w1) \<Rightarrow> (Inl (ExecFailed e), w1)
                | (Inr results, w1) \<Rightarrow>
                    (case push_round eph (map (\<lambda>l. (ml_root_id l, lo_layer_id (ml_outcome l))) results) of
                       None \<Rightarrow> (Inl ExecPanic, w1)
                     | Some local_eph \<Rightarrow>
                         (Inr (map activation_of results, local_eph),
                          wd_touch api (map (\<lambda>l. lo_layer_id (ml_outcome l))
                            (filter (\<lambda>l. \<not> lo_created (ml_outcome l)) results)) w1))))"

text \<open>Phase 2, one selector: its selection, its warnings and what it caches.\<close>

definition no_layers_warning :: "span \<Rightarrow> verb \<Rightarrow> diagnostic" where
  "no_layers_warning csp v = diagnostic_note ((vb_span v)\<lparr>sp_input := sp_input csp\<rparr>)
     ([CHR 0x27] @ kind_name (vb_kind v) @ [CHR 0x27]
      @ '' produced no layers: no projects are visible (is the index empty?)'')"

definition filter_and_warn ::
  "command \<Rightarrow> span \<Rightarrow> verb \<Rightarrow> selection option \<Rightarrow> exec_error + selection option \<times> diagnostic list" where
  "filter_and_warn c csp v sel =
     (case sel of
        None \<Rightarrow> Inr (None, [])
      | Some s \<Rightarrow>
          (let s' = command_filter c s in
           if selection_is_empty s'
           then (case diagnostic_no_match ((vb_span v)\<lparr>sp_input := sp_input csp\<rparr>) (kind_matched_token (vb_kind v)) of
                   None \<Rightarrow> Inl ExecPanic | Some d \<Rightarrow> Inr (Some s', [d]))
           else Inr (Some s', [])))"

definition compute_selector ::
  "exec_env \<Rightarrow> command \<Rightarrow> span \<Rightarrow> int list \<Rightarrow> scope_context \<Rightarrow> scope_context \<Rightarrow> eph_context \<Rightarrow> verb
    \<Rightarrow> exec_error + (selection option \<times> diagnostic list) \<times> selection option" where
  "compute_selector env c csp layer_ids parent_scope children_scope eph v =
     (if selector_has_layer_spec (vb_kind v) then
        (if layer_ids = [] then Inr ((None, [no_layers_warning csp v]), None)
         else rbind (lift_query (ev_layer_instances env layer_ids)) (\<lambda>ids.
              rbind (if ids = [] then Inr None
                     else rbind (lift_query (ev_find_symbol env (CLeaf (SymbolInstanceIds ids)) parent_scope children_scope eph))
                            (\<lambda>s. Inr (Some s))) (\<lambda>sel.
              rbind (filter_and_warn c csp v sel) (\<lambda>r. Inr (r, None)))))
      else rbind (lift_query (select_from_all env (vb_kind v) (cf_and (filter_parts (cm_verbs c)))
                    parent_scope children_scope eph)) (\<lambda>(sel, cached).
           rbind (filter_and_warn c csp v sel) (\<lambda>r. Inr (r, cached))))"

fun compute_selectors ::
  "exec_env \<Rightarrow> command \<Rightarrow> span \<Rightarrow> int list \<Rightarrow> scope_context \<Rightarrow> scope_context \<Rightarrow> eph_context \<Rightarrow> verb list
    \<Rightarrow> compute_result \<Rightarrow> exec_error + compute_result" where
  "compute_selectors env c csp layer_ids ps cs eph [] r = Inr r"
| "compute_selectors env c csp layer_ids ps cs eph (v # vs) r =
     rbind (compute_selector env c csp layer_ids ps cs eph v) (\<lambda>((sel, ws), cached).
     compute_selectors env c csp layer_ids ps cs eph vs
       (r\<lparr>cr_selections := cr_selections r @ [(vb_id v, sel)], cr_warnings := cr_warnings r @ ws,
          cr_once := cr_once r @ (case cached of None \<Rightarrow> [] | Some s \<Rightarrow> [(vb_id v, s)])\<rparr>))"

text \<open>A command without a span panics at its first warning or error; the model panics at once.\<close>

definition compute_selected ::
  "('w, 'd) world_api \<Rightarrow> command \<Rightarrow> scope_context \<Rightarrow> scope_context \<Rightarrow> eph_context \<Rightarrow> label_resolutions
    \<Rightarrow> ('w, exec_error, compute_result) step" where
  "compute_selected api c parent_scope children_scope eph resolved w =
     (if command_selectors c = []
      then (Inr \<lparr>cr_selections = [], cr_warnings = [], cr_activations = [], cr_once = []\<rparr>, w)
      else (case command_span c of
        Inl e \<Rightarrow> (Inl e, w)
      | Inr csp \<Rightarrow>
          sbind (materialise_statement api c eph resolved) (\<lambda>(activations, local_eph) w1.
            let truncated = (if list_ex la_truncated activations
                   then (case first_some (map truncation_warning
                           (filter (\<lambda>v. selector_has_layer_spec (vb_kind v)) (command_selectors c))) of
                           None \<Rightarrow> [] | Some d \<Rightarrow> [d]) else []);
                r = \<lparr>cr_selections = [], cr_warnings = name_constraint_warnings c csp @ truncated,
                     cr_activations = activations, cr_once = []\<rparr>
            in (compute_selectors (wd_env api w1) c csp (map la_layer_id activations) parent_scope children_scope
                  local_eph (command_selectors c) r, w1)) w))"

text \<open>\<open>ComputeResult::apply\<close>: registry, warnings of the statement, and one round on the chains.\<close>

definition compute_apply :: "compute_result \<Rightarrow> exec_ctx \<Rightarrow> exec_error + exec_ctx" where
  "compute_apply r ctx =
     (let ctx1 = ctx\<lparr>xc_registry := foldl (\<lambda>reg (i, sel). reg_add i sel reg) (xc_registry ctx) (cr_selections r),
                     xc_once := foldl (\<lambda>once (i, s). once_set i s once) (xc_once ctx) (cr_once r)\<rparr>
      in if cr_activations r = [] then Inr ctx1
         else (case push_round (xc_eph ctx) (map (\<lambda>a. (la_root_id a, la_layer_id a)) (cr_activations r)) of
                 None \<Rightarrow> Inl ExecPanic
               | Some eph \<Rightarrow> Inr (ctx1\<lparr>xc_eph := eph, xc_activations := xc_activations ctx @ cr_activations r\<rparr>)))"

end
