(* ===== verification/Statements.thy ===== *)
theory Statements
  imports Execution Parser_Context
begin

text \<open>
  Execution of a parsed query: the statements in source order, their dependency graph, weak
  statements, the first computation and the propagation of selections until nothing changes.
  Sources: \<open>askld/src/statement/mod.rs\<close>, \<open>statement/parse.rs\<close> (\<open>build_dependency_graph\<close>),
  \<open>statement/scope_helpers.rs\<close>, \<open>scope.rs\<close>, \<open>hierarchy.rs\<close>, \<open>execution_state.rs\<close>.  A
  statement is its position in the list of \<open>scope::visit\<close>; the mutable state of statements is
  a list of the same length.
\<close>

subsection \<open>The statements of a query\<close>

record stmt_node =
  sn_command :: command
  sn_rel :: rel_type
  sn_unnest :: bool
  sn_parent :: "nat option"
  sn_children :: "nat list"

text \<open>
  Every statement, its scope after it, with the parents that \<open>populate_parents\<close> sets: none for
  the top-level statements.
\<close>

fun flatten :: "nat \<Rightarrow> nat option \<Rightarrow> stmt \<Rightarrow> stmt_node list"
  and flatten_scope :: "nat \<Rightarrow> nat option \<Rightarrow> stmt list \<Rightarrow> nat list \<times> stmt_node list" where
  "flatten i parent (Stmt c r u ks) =
     (let (ids, below) = flatten_scope (Suc i) (Some i) ks
      in \<lparr>sn_command = c, sn_rel = r, sn_unnest = u, sn_parent = parent, sn_children = ids\<rparr> # below)"
| "flatten_scope i parent [] = ([], [])"
| "flatten_scope i parent (t # ts) =
     (let here = flatten i parent t; (ids, rest) = flatten_scope (i + length here) parent ts
      in (i # ids, here @ rest))"

record program =
  pg_nodes :: "stmt_node list"
  pg_top :: "nat list"

definition visit_statements :: "stmt \<Rightarrow> program" where
  "visit_statements root = (let (ids, nodes) = flatten_scope 0 None (st_children root) in \<lparr>pg_nodes = nodes, pg_top = ids\<rparr>)"

definition node_of :: "program \<Rightarrow> nat \<Rightarrow> stmt_node" where
  "node_of pg i = pg_nodes pg ! i"

abbreviation command_of :: "program \<Rightarrow> nat \<Rightarrow> command" where
  "command_of pg i \<equiv> sn_command (node_of pg i)"

subsection \<open>Execution states\<close>

record stmt_state =
  ss_dependencies :: "(nat \<times> dependency_role \<times> dependency_kind) list"
  ss_dependents :: "(nat \<times> dependency_role \<times> string option) list"
  ss_weak :: bool
  ss_warnings :: "diagnostic list"

definition stmt_state_new :: stmt_state where
  "stmt_state_new = \<lparr>ss_dependencies = [], ss_dependents = [], ss_weak = False, ss_warnings = []\<rparr>"

definition add_dependency :: "nat \<Rightarrow> nat \<times> dependency_role \<times> dependency_kind \<Rightarrow> stmt_state list \<Rightarrow> stmt_state list" where
  "add_dependency i d sts = sts[i := (sts ! i)\<lparr>ss_dependencies := ss_dependencies (sts ! i) @ [d]\<rparr>]"

definition add_dependent :: "nat \<Rightarrow> nat \<times> dependency_role \<times> string option \<Rightarrow> stmt_state list \<Rightarrow> stmt_state list" where
  "add_dependent i d sts = sts[i := (sts ! i)\<lparr>ss_dependents := ss_dependents (sts ! i) @ [d]\<rparr>]"

definition add_warnings :: "nat \<Rightarrow> diagnostic list \<Rightarrow> stmt_state list \<Rightarrow> stmt_state list" where
  "add_warnings i ws sts = sts[i := (sts ! i)\<lparr>ss_warnings := ss_warnings (sts ! i) @ ws\<rparr>]"

subsection \<open>The dependency graph\<close>

definition child_dependency_kind :: "command \<Rightarrow> dependency_kind" where
  "child_dependency_kind c =
     (if list_ex (\<lambda>v. selector_dependency_kind (vb_kind v) Child = Necessary) (command_selectors c)
      then Necessary else Sufficient)"

definition link_parent :: "program \<Rightarrow> nat \<Rightarrow> stmt_state list \<Rightarrow> stmt_state list" where
  "link_parent pg i sts =
     (case sn_parent (node_of pg i) of None \<Rightarrow> sts | Some p \<Rightarrow> add_dependent i (p, Parent, None) sts)"

definition link_child :: "program \<Rightarrow> nat \<Rightarrow> nat \<Rightarrow> stmt_state list \<Rightarrow> stmt_state list" where
  "link_child pg i c sts =
     add_dependency c (i, Child, child_dependency_kind (command_of pg c)) (add_dependent i (c, Child, None) sts)"

text \<open>
  The state of the statement stays mutably borrowed while its edges are built, so an edge to
  itself panics.
\<close>

fun link_user :: "nat \<Rightarrow> verb \<Rightarrow> string \<Rightarrow> nat list \<Rightarrow> stmt_state list \<Rightarrow> exec_error + stmt_state list" where
  "link_user i v label [] sts = Inr sts"
| "link_user i v label (l # ls) sts =
     (if l = i then Inl ExecPanic
      else link_user i v label ls
        (add_dependency i (l, User, selector_dependency_kind (vb_kind v) User)
          (add_dependent l (i, User, Some label) sts)))"

fun link_users ::
  "(string \<times> nat list) list \<Rightarrow> nat \<Rightarrow> verb list \<Rightarrow> stmt_state list \<Rightarrow> exec_error + stmt_state list" where
  "link_users labeled i [] sts = Inr sts"
| "link_users labeled i (v # vs) sts =
     (case selector_label (vb_kind v) of
        None \<Rightarrow> link_users labeled i vs sts
      | Some label \<Rightarrow>
          (case map_of labeled label of
             None \<Rightarrow> Inl (ExecFailed (''Label '' @ label @ '' not found for user selector''))
           | Some ls \<Rightarrow> rbind (link_user i v label ls sts) (link_users labeled i vs)))"

fun link_seed :: "nat \<Rightarrow> string \<Rightarrow> nat list \<Rightarrow> stmt_state list \<Rightarrow> exec_error + stmt_state list" where
  "link_seed i label [] sts = Inr sts"
| "link_seed i label (l # ls) sts =
     (if list_ex (\<lambda>(d, role, k). role = PreSeedLabel label \<and> d = l) (ss_dependencies (sts ! i))
      then link_seed i label ls sts
      else if l = i then Inl ExecPanic
      else link_seed i label ls
        (add_dependency i (l, PreSeedLabel label, Necessary)
          (add_dependent l (i, PreSeedLabel label, None) sts)))"

fun link_seeds ::
  "(string \<times> nat list) list \<Rightarrow> nat \<Rightarrow> string list \<Rightarrow> stmt_state list \<Rightarrow> exec_error + stmt_state list" where
  "link_seeds labeled i [] sts = Inr sts"
| "link_seeds labeled i (label # labels) sts =
     (case map_of labeled label of
        None \<Rightarrow> Inl (ExecFailed (''Label '' @ label @ '' not found for layer-creating verb argument''))
      | Some ls \<Rightarrow> rbind (link_seed i label ls sts) (link_seeds labeled i labels))"

text \<open>The labels a layer block refers to; \<open>ops\<close> are the operations of each block.\<close>

definition layer_label_refs :: "(nat \<times> eph_op list) list \<Rightarrow> command \<Rightarrow> string list" where
  "layer_label_refs ops c =
     concat (map (\<lambda>v. if vb_kind v = VLayer
                       then concat (map op_label_refs (case map_of ops (vb_id v) of None \<Rightarrow> [] | Some os \<Rightarrow> os))
                       else []) (command_selectors c))"

definition link_statement ::
  "program \<Rightarrow> (nat \<times> eph_op list) list \<Rightarrow> (string \<times> nat list) list \<Rightarrow> nat \<Rightarrow> stmt_state list
    \<Rightarrow> exec_error + stmt_state list" where
  "link_statement pg ops labeled i sts =
     (let c = command_of pg i;
          sts1 = foldl (\<lambda>sts ch. link_child pg i ch sts) (link_parent pg i sts) (sn_children (node_of pg i))
      in rbind (link_users labeled i (command_selectors c) sts1) (link_seeds labeled i (layer_label_refs ops c)))"

fun link_all ::
  "program \<Rightarrow> (nat \<times> eph_op list) list \<Rightarrow> (string \<times> nat list) list \<Rightarrow> nat list \<Rightarrow> stmt_state list
    \<Rightarrow> exec_error + stmt_state list" where
  "link_all pg ops labeled [] sts = Inr sts"
| "link_all pg ops labeled (i # is) sts =
     rbind (link_statement pg ops labeled i sts) (link_all pg ops labeled is)"

text \<open>Top-level statements after a layer creator wait for the last one before them.\<close>

fun link_siblings :: "program \<Rightarrow> nat option \<Rightarrow> nat list \<Rightarrow> stmt_state list \<Rightarrow> stmt_state list" where
  "link_siblings pg last_creator [] sts = sts"
| "link_siblings pg last_creator (j # js) sts =
     link_siblings pg (if command_has_layer_spec (command_of pg j) then Some j else last_creator) js
       (case last_creator of
          None \<Rightarrow> sts
        | Some i \<Rightarrow> add_dependency j (i, PreSeedSibling, Sufficient) (add_dependent i (j, PreSeedSibling, None) sts))"

definition remember_all :: "program \<Rightarrow> (string \<times> nat list) list" where
  "remember_all pg = foldl (\<lambda>m i. remember i (command_of pg i) m) [] [0..<length (pg_nodes pg)]"

definition build_dependency_graph ::
  "program \<Rightarrow> (nat \<times> eph_op list) list \<Rightarrow> stmt_state list \<Rightarrow> exec_error + stmt_state list" where
  "build_dependency_graph pg ops sts =
     rbind (link_all pg ops (remember_all pg) [0..<length (pg_nodes pg)] sts) (\<lambda>sts1.
     Inr (link_siblings pg None (pg_top pg) sts1))"

subsection \<open>Weak statements\<close>

definition weak_step :: "program \<Rightarrow> bool list \<Rightarrow> nat \<Rightarrow> bool list" where
  "weak_step pg weak i =
     (if weak ! i then weak
      else if \<not> is_non_constraining (command_of pg i) then weak
      else let parent_weak = (case sn_parent (node_of pg i) of Some p \<Rightarrow> weak ! p | None \<Rightarrow> True);
               all_children_weak = list_all (\<lambda>c. weak ! c) (sn_children (node_of pg i))
           in if parent_weak \<or> all_children_weak then weak[i := True] else weak)"

definition weak_pass :: "program \<Rightarrow> bool list \<Rightarrow> bool list" where
  "weak_pass pg weak = foldl (weak_step pg) weak [0..<length (pg_nodes pg)]"

definition weak_le :: "bool list \<Rightarrow> bool list \<Rightarrow> bool" where
  "weak_le a b \<longleftrightarrow> length a = length b \<and> (\<forall>i<length a. a ! i \<longrightarrow> b ! i)"

lemma weak_le_refl [simp]: "weak_le a a" by (simp add: weak_le_def)
lemma weak_le_trans: "weak_le a b \<Longrightarrow> weak_le b c \<Longrightarrow> weak_le a c" by (auto simp: weak_le_def)

lemma update_True_nth: "j < length weak \<Longrightarrow> weak ! j \<Longrightarrow> weak[i := True] ! j"
  by (cases "j = i") simp_all

lemma weak_step_le: "weak_le weak (weak_step pg weak i)"
  by (simp add: weak_step_def weak_le_def Let_def update_True_nth)

lemma weak_fold_le: "weak_le weak (foldl (weak_step pg) weak is)"
  by (induction "is" arbitrary: weak) (auto intro: weak_le_trans weak_step_le)

lemma weak_le_count:
  "weak_le a b \<Longrightarrow> a \<noteq> b \<Longrightarrow> count_list b False < count_list a False"
proof (induction a arbitrary: b)
  case (Cons x a)
  then obtain y b' where b: "b = y # b'" by (cases b) (auto simp: weak_le_def)
  have le: "weak_le a b'" and xy: "x \<longrightarrow> y"
    using Cons.prems(1) unfolding b weak_le_def by force+
  show ?case
  proof (cases "a = b'")
    case True
    with Cons.prems(2) b xy show ?thesis by auto
  next
    case False
    from Cons.IH [OF le this] xy b show ?thesis by auto
  qed
qed (simp add: weak_le_def)

text \<open>The fixpoint loop; \<open>changed\<close> is set exactly when a pass marks a statement.\<close>

function mark_weak :: "program \<Rightarrow> bool list \<Rightarrow> bool list" where
  "mark_weak pg weak = (let weak' = weak_pass pg weak in if weak' = weak then weak else mark_weak pg weak')"
  by auto
termination
  by (relation "measure (\<lambda>(pg, weak). count_list weak False)")
    (auto simp: weak_pass_def intro!: weak_le_count weak_fold_le)

declare mark_weak.simps [simp del]

definition mark_weak_statements :: "program \<Rightarrow> stmt_state list \<Rightarrow> stmt_state list" where
  "mark_weak_statements pg sts =
     map (\<lambda>(st, w). st\<lparr>ss_weak := w\<rparr>) (zip sts (mark_weak pg (map ss_weak sts)))"

subsection \<open>Scopes\<close>

function all_descendants_weak :: "program \<Rightarrow> stmt_state list \<Rightarrow> nat \<Rightarrow> bool" where
  "all_descendants_weak pg sts i =
     list_all (\<lambda>c. ss_weak (sts ! c) \<and> (i < c \<and> c < length (pg_nodes pg) \<longrightarrow> all_descendants_weak pg sts c))
       (sn_children (node_of pg i))"
  by auto
termination by (relation "measure (\<lambda>(pg, sts, i). length (pg_nodes pg) - i)") auto

declare all_descendants_weak.simps [simp del]

definition should_skip_in_parent_merge :: "program \<Rightarrow> stmt_state list \<Rightarrow> nat \<Rightarrow> bool" where
  "should_skip_in_parent_merge pg sts c \<longleftrightarrow>
     ss_weak (sts ! c) \<and> command_is_unit (command_of pg c) \<and> all_descendants_weak pg sts c"

definition build_parent_scope :: "program \<Rightarrow> registry \<Rightarrow> nat \<Rightarrow> exec_error + scope_context" where
  "build_parent_scope pg reg i =
     (case sn_parent (node_of pg i) of
        None \<Rightarrow> Inr Unscoped
      | Some p \<Rightarrow>
          if is_computed reg (command_of pg p)
          then rbind (get_selection reg (command_of pg p)) (\<lambda>sel.
               Inr (case sel of Some s \<Rightarrow> Scope (get_instance_ids s) None | None \<Rightarrow> Unscoped))
          else Inr (case get_selector_composite_filter (command_of pg p) of
                      Some f \<Rightarrow> Scope [] (Some f) | None \<Rightarrow> Unscoped))"

text \<open>The children seen so far: an uncomputed one, a transparent one, selected ids, filters.\<close>

fun scan_children ::
  "program \<Rightarrow> registry \<Rightarrow> nat list \<Rightarrow> bool \<times> bool \<times> int list \<times> composite_filter list
    \<Rightarrow> exec_error + bool \<times> bool \<times> int list \<times> composite_filter list" where
  "scan_children pg reg [] acc = Inr acc"
| "scan_children pg reg (c # cs) (uncomputed, transparent, ids, filters) =
     (if is_computed reg (command_of pg c)
      then rbind (get_selection reg (command_of pg c)) (\<lambda>sel.
           scan_children pg reg cs
             (case sel of Some s \<Rightarrow> (uncomputed, transparent, ids @ get_instance_ids s, filters)
              | None \<Rightarrow> (uncomputed, True, ids, filters)))
      else scan_children pg reg cs
             (True, transparent, ids,
              filters @ (case get_selector_composite_filter (command_of pg c) of Some f \<Rightarrow> [f] | None \<Rightarrow> [])))"

definition build_children_scope :: "program \<Rightarrow> registry \<Rightarrow> nat \<Rightarrow> exec_error + scope_context" where
  "build_children_scope pg reg i =
     rbind (scan_children pg reg (sn_children (node_of pg i)) (False, False, [], []))
       (\<lambda>(uncomputed, transparent, ids, filters).
       Inr (if sn_children (node_of pg i) = [] then Skip
            else (let combined = (if filters = [] then None else Some (cf_or filters)) in
              if ids = [] \<and> combined = None
              then (if uncomputed \<or> transparent then Unscoped else Skip)
              else Scope ids combined)))"

subsection \<open>First computation\<close>

definition canonical_ids :: "int list \<Rightarrow> int list" where
  "canonical_ids ids = sort_dedup ids"

text \<open>A queued computation: statement, scopes, the chains and the labels when it was queued.\<close>

record pending_compute =
  pd_statement :: nat
  pd_parent_scope :: scope_context
  pd_children_scope :: scope_context
  pd_eph :: eph_context
  pd_resolved :: label_resolutions

fun apply_all :: "(nat \<times> compute_result) list \<Rightarrow> exec_ctx \<times> stmt_state list \<Rightarrow> exec_error + exec_ctx \<times> stmt_state list" where
  "apply_all [] (ctx, sts) = Inr (ctx, sts)"
| "apply_all ((i, cr) # rs) (ctx, sts) =
     rbind (compute_apply cr ctx) (\<lambda>ctx'. apply_all rs (ctx', add_warnings i (cr_warnings cr) sts))"

text \<open>
  The queued futures are joined: each runs to its end, here in queue order, and nothing is
  applied when one of them failed.
\<close>

definition drain_pending ::
  "('w, 'd) world_api \<Rightarrow> program \<Rightarrow> pending_compute list \<Rightarrow> exec_ctx \<times> stmt_state list
    \<Rightarrow> ('w, exec_error, exec_ctx \<times> stmt_state list) step" where
  "drain_pending api pg pending cs w =
     (let (results, w') = run_roots (\<lambda>p. compute_selected api (command_of pg (pd_statement p))
                            (pd_parent_scope p) (pd_children_scope p) (pd_eph p) (pd_resolved p)) pending w
      in (rbind (collect_results results) (\<lambda>crs. apply_all (zip (map pd_statement pending) crs) cs), w'))"

definition pre_seed_deps :: "stmt_state \<Rightarrow> (nat \<times> string option) list" where
  "pre_seed_deps st =
     somes (map (\<lambda>(d, role, k). case role of
       PreSeedSibling \<Rightarrow> Some (d, None) | PreSeedLabel l \<Rightarrow> Some (d, Some l) | _ \<Rightarrow> None) (ss_dependencies st))"

fun resolve_labels ::
  "program \<Rightarrow> registry \<Rightarrow> (nat \<times> string option) list \<Rightarrow> label_resolutions \<Rightarrow> exec_error + label_resolutions" where
  "resolve_labels pg reg [] resolved = Inr resolved"
| "resolve_labels pg reg ((d, None) # deps) resolved = resolve_labels pg reg deps resolved"
| "resolve_labels pg reg ((d, Some label) # deps) resolved =
     rbind (get_selection reg (command_of pg d)) (\<lambda>sel.
     resolve_labels pg reg deps
       (case sel of
          None \<Rightarrow> resolved
        | Some s \<Rightarrow> AList.update label (canonical_ids (map (\<lambda>n. sy_id (nd_symbol n)) (sl_nodes s))) resolved))"

fun compute_roots ::
  "('w, 'd) world_api \<Rightarrow> program \<Rightarrow> nat list \<Rightarrow> pending_compute list \<Rightarrow> exec_ctx \<times> stmt_state list
    \<Rightarrow> ('w, exec_error, exec_ctx \<times> stmt_state list) step" where
  "compute_roots api pg [] pending cs w =
     (if pending = [] then (Inr cs, w) else drain_pending api pg pending cs w)"
| "compute_roots api pg (i # is) pending cs w =
     (let deps = pre_seed_deps (snd cs ! i) in
      sbind (if deps \<noteq> [] \<and> pending \<noteq> [] then drain_pending api pg pending cs else sreturn cs) (\<lambda>(ctx, sts) w1.
        let pending1 = (if deps \<noteq> [] then [] else pending) in
        case rbind (resolve_labels pg (xc_registry ctx) deps []) (\<lambda>resolved.
             rbind (build_parent_scope pg (xc_registry ctx) i) (\<lambda>ps.
             rbind (build_children_scope pg (xc_registry ctx) i) (\<lambda>chs.
             Inr \<lparr>pd_statement = i, pd_parent_scope = ps, pd_children_scope = chs,
                  pd_eph = xc_eph ctx, pd_resolved = resolved\<rparr>))) of
          Inl e \<Rightarrow> (Inl e, w1)
        | Inr p \<Rightarrow> compute_roots api pg is (pending1 @ [p]) (ctx, sts) w1) w)"

subsection \<open>Notification\<close>

text \<open>The union of the selections of the children that count; \<open>None\<close> when none has one.\<close>

fun merge_children ::
  "program \<Rightarrow> registry \<Rightarrow> stmt_state list \<Rightarrow> nat list \<Rightarrow> selection option \<Rightarrow> exec_error + selection option" where
  "merge_children pg reg sts [] acc = Inr acc"
| "merge_children pg reg sts (c # cs) acc =
     (if \<not> has_selectors (command_of pg c) \<or> should_skip_in_parent_merge pg sts c
      then merge_children pg reg sts cs acc
      else rbind (get_selection reg (command_of pg c)) (\<lambda>sel.
           merge_children pg reg sts cs
             (case sel of None \<Rightarrow> acc
              | Some s \<Rightarrow> Some (selection_extend (case acc of None \<Rightarrow> selection_new | Some m \<Rightarrow> m) s))))"

text \<open>\<open>Iterator::all\<close> stops at the first child without a selection.\<close>

fun all_resolved :: "program \<Rightarrow> registry \<Rightarrow> nat list \<Rightarrow> exec_error + bool" where
  "all_resolved pg reg [] = Inr True"
| "all_resolved pg reg (c # cs) =
     rbind (is_selection_some reg (command_of pg c)) (\<lambda>b. if b then all_resolved pg reg cs else Inr False)"

definition notify_parent ::
  "exec_env \<Rightarrow> program \<Rightarrow> nat \<Rightarrow> nat \<Rightarrow> exec_ctx \<times> stmt_state list
    \<Rightarrow> exec_error + bool \<times> exec_ctx \<times> stmt_state list" where
  "notify_parent env pg i target = (\<lambda>(ctx, sts).
     let kids = sn_children (node_of pg target); reg = xc_registry ctx in
     rbind (all_resolved pg reg kids) (\<lambda>ready.
     if \<not> ready then Inr (False, ctx, sts)
     else rbind (merge_children pg reg sts kids None) (\<lambda>m.
     case m of
       None \<Rightarrow> Inr (False, ctx, sts)
     | Some merged \<Rightarrow>
         rbind (build_parent_scope pg reg target) (\<lambda>ps.
         rbind (notify_from_selection env (command_of pg target) merged Parent (sn_rel (node_of pg i))
                  (sn_unnest (node_of pg target)) ps (Scope (get_instance_ids merged) None) ctx) (\<lambda>((changed, ws), ctx').
         Inr (changed, ctx', add_warnings target ws sts))))))"

definition notify ::
  "exec_env \<Rightarrow> program \<Rightarrow> nat \<Rightarrow> nat \<times> dependency_role \<times> string option \<Rightarrow> exec_ctx \<times> stmt_state list
    \<Rightarrow> exec_error + bool \<times> exec_ctx \<times> stmt_state list" where
  "notify env pg i dependent = (\<lambda>(ctx, sts).
     let (target, role, label) = dependent in
     if is_pre_seed role then Inr (False, ctx, sts)
     else if role = Parent then notify_parent env pg i target (ctx, sts)
     else
       let rel = (if role = Child then sn_rel (node_of pg target) else sn_rel (node_of pg i));
           nt = \<lparr>nt_command = command_of pg i, nt_weak = ss_weak (sts ! i), nt_role = role, nt_rel = rel,
                 nt_unnest = sn_unnest (node_of pg target)\<rparr>
       in rbind (build_parent_scope pg (xc_registry ctx) target) (\<lambda>ps.
          rbind (build_children_scope pg (xc_registry ctx) target) (\<lambda>cs.
          rbind (accept_notification env (command_of pg target) nt ps cs ctx) (\<lambda>((changed, ws), ctx').
          Inr (changed, ctx', add_warnings target ws sts)))))"

subsection \<open>The worklist\<close>

definition schedule :: "nat \<Rightarrow> nat list \<Rightarrow> nat list" where
  "schedule i wl = (if i \<in> set wl then wl else wl @ [i])"

definition swap_remove :: "'a list \<Rightarrow> nat \<Rightarrow> 'a \<times> 'a list" where
  "swap_remove xs i = (xs ! i, if Suc i = length xs then butlast xs else (butlast xs)[i := last xs])"

text \<open>\<open>min_by_key\<close>: the first position of the least key.\<close>

fun min_index :: "nat list \<Rightarrow> nat" where
  "min_index [] = 0"
| "min_index [k] = 0"
| "min_index (k # ks) = (let j = min_index ks in if ks ! j < k then Suc j else 0)"

definition pop_next :: "program \<Rightarrow> registry \<Rightarrow> nat list \<Rightarrow> exec_error + (nat \<times> nat list) option" where
  "pop_next pg reg wl =
     (if wl = [] then Inr None
      else rbind (collect_results (map (\<lambda>i. propagation_priority reg (command_of pg i)) wl)) (\<lambda>keys.
           Inr (Some (swap_remove wl (min_index keys)))))"

text \<open>The dependents of the popped statement in turn; a changed one is scheduled.\<close>

fun notify_dependents ::
  "exec_env \<Rightarrow> program \<Rightarrow> nat \<Rightarrow> (nat \<times> dependency_role \<times> string option) list
    \<Rightarrow> nat list \<times> exec_ctx \<times> stmt_state list \<Rightarrow> exec_error + nat list \<times> exec_ctx \<times> stmt_state list" where
  "notify_dependents env pg i [] s = Inr s"
| "notify_dependents env pg i (d # ds) (wl, ctx, sts) =
     rbind (notify env pg i d (ctx, sts)) (\<lambda>(changed, ctx', sts').
     notify_dependents env pg i ds (if changed then schedule (fst d) wl else wl, ctx', sts'))"

definition refresh_selectors :: "command \<Rightarrow> exec_ctx \<Rightarrow> exec_error + exec_ctx" where
  "refresh_selectors c ctx =
     rbind (for_each_selector_mut (\<lambda>v st.
              map_option (command_filter c) (update_state (vb_kind v) (xc_once ctx (vb_id v)) st))
            (command_selectors c) (xc_registry ctx)) (\<lambda>reg. Inr (ctx\<lparr>xc_registry := reg\<rparr>))"

text \<open>One round of the loop for the popped statement.\<close>

definition process_statement ::
  "exec_env \<Rightarrow> program \<Rightarrow> nat \<Rightarrow> nat list \<times> exec_ctx \<times> stmt_state list
    \<Rightarrow> exec_error + nat list \<times> exec_ctx \<times> stmt_state list" where
  "process_statement env pg i = (\<lambda>(wl, ctx, sts).
     rbind (refresh_selectors (command_of pg i) ctx) (\<lambda>ctx1.
     rbind (has_selection (xc_registry ctx1) (command_of pg i)) (\<lambda>b.
     if \<not> b then Inr (wl, ctx1, sts)
     else notify_dependents env pg i (ss_dependents (sts ! i)) (wl, ctx1, sts))))"

text \<open>Not returning is \<open>None\<close>.\<close>

partial_function (option) worklist_loop ::
  "exec_env \<Rightarrow> program \<Rightarrow> nat list \<times> exec_ctx \<times> stmt_state list
    \<Rightarrow> (exec_error + exec_ctx \<times> stmt_state list) option" where
  "worklist_loop env pg s =
     (case s of (wl, ctx, sts) \<Rightarrow>
      case pop_next pg (xc_registry ctx) wl of
        Inl e \<Rightarrow> Some (Inl e)
      | Inr None \<Rightarrow> Some (Inr (ctx, sts))
      | Inr (Some (i, wl')) \<Rightarrow>
          (case process_statement env pg i (wl', ctx, sts) of
             Inl e \<Rightarrow> Some (Inl e)
           | Inr s' \<Rightarrow> worklist_loop env pg s'))"

fun seed_worklist :: "program \<Rightarrow> registry \<Rightarrow> nat list \<Rightarrow> nat list \<Rightarrow> exec_error + nat list" where
  "seed_worklist pg reg [] wl = Inr wl"
| "seed_worklist pg reg (i # is) wl =
     rbind (has_selection reg (command_of pg i)) (\<lambda>b. seed_worklist pg reg is (if b then schedule i wl else wl))"

definition run_worklist ::
  "exec_env \<Rightarrow> program \<Rightarrow> exec_ctx \<times> stmt_state list \<Rightarrow> (exec_error + exec_ctx \<times> stmt_state list) option" where
  "run_worklist env pg = (\<lambda>(ctx, sts).
     case seed_worklist pg (xc_registry ctx) [0..<length (pg_nodes pg)] [] of
       Inl e \<Rightarrow> Some (Inl e)
     | Inr wl \<Rightarrow> worklist_loop env pg (wl, ctx, sts))"

definition compute_nodes ::
  "('w, 'd) world_api \<Rightarrow> (nat \<times> eph_op list) list \<Rightarrow> stmt \<Rightarrow> exec_ctx \<Rightarrow> 'w
    \<Rightarrow> ((exec_error + program \<times> exec_ctx \<times> stmt_state list) \<times> 'w) option" where
  "compute_nodes api ops root ctx w =
     (let pg = visit_statements root; n = length (pg_nodes pg) in
      case build_dependency_graph pg ops (replicate n stmt_state_new) of
        Inl e \<Rightarrow> Some (Inl e, w)
      | Inr sts \<Rightarrow>
          (case compute_roots api pg [0..<n] [] (ctx, mark_weak_statements pg sts) w of
             (Inl e, w1) \<Rightarrow> Some (Inl e, w1)
           | (Inr cs, w1) \<Rightarrow>
               (case run_worklist (wd_env api w1) pg cs of
                  None \<Rightarrow> None
                | Some (Inl e) \<Rightarrow> Some (Inl e, w1)
                | Some (Inr cs') \<Rightarrow> Some (Inr (pg, cs'), w1))))"

end
