(* ===== verification/Worklist.thy ===== *)
theory Worklist
  imports Statements "HOL-Library.Multiset"
begin

text \<open>
  What holds of the execution of \<open>Statements\<close>: the shape of the flattened query, the edges of
  the dependency graph, the least fixpoint of weak statements, and the end of the propagation
  loop, by a lexicographic measure over the depths of the query.
\<close>

subsection \<open>The flattened query\<close>

text \<open>
  A run of nodes that starts at position \<open>i\<close>, with the positions \<open>ids\<close> of the statements whose
  parent is \<open>parent\<close>.
\<close>

definition flat_wf :: "nat \<Rightarrow> nat option \<Rightarrow> nat list \<Rightarrow> stmt_node list \<Rightarrow> bool" where
  "flat_wf i parent ids ns \<longleftrightarrow>
     (\<forall>j<length ns. \<forall>c\<in>set (sn_children (ns ! j)).
        i + j < c \<and> c < i + length ns \<and> sn_parent (ns ! (c - i)) = Some (i + j)) \<and>
     (\<forall>j<length ns. (i + j \<in> set ids \<and> sn_parent (ns ! j) = parent) \<or>
        (\<exists>p<j. sn_parent (ns ! j) = Some (i + p) \<and> i + j \<in> set (sn_children (ns ! p)))) \<and>
     (\<forall>c\<in>set ids. i \<le> c \<and> c < i + length ns \<and> sn_parent (ns ! (c - i)) = parent)"

lemma flat_wf_nil: "flat_wf i parent [] []"
  by (simp add: flat_wf_def)

lemma flat_wf_append:
  assumes a: "flat_wf i parent ids1 a" and b: "flat_wf (i + length a) parent ids2 b"
  shows "flat_wf i parent (ids1 @ ids2) (a @ b)"
  unfolding flat_wf_def
proof (intro conjI; intro allI impI ballI)
  fix j c assume j: "j < length (a @ b)" and c: "c \<in> set (sn_children ((a @ b) ! j))"
  show "i + j < c \<and> c < i + length (a @ b) \<and> sn_parent ((a @ b) ! (c - i)) = Some (i + j)"
  proof (cases "j < length a")
    case True
    with c a have "i + j < c \<and> c < i + length a \<and> sn_parent (a ! (c - i)) = Some (i + j)"
      by (simp add: flat_wf_def nth_append)
    moreover from this have "c - i < length a" by linarith
    ultimately show ?thesis by (simp add: nth_append)
  next
    case False
    define k where "k = j - length a"
    have k: "k < length b" "j = length a + k" using j False by (auto simp: k_def)
    have "c \<in> set (sn_children (b ! k))" using c k by (simp add: nth_append)
    with b k(1) have "i + length a + k < c \<and> c < i + length a + length b
        \<and> sn_parent (b ! (c - (i + length a))) = Some (i + length a + k)"
      by (simp add: flat_wf_def)
    moreover from this have "\<not> c - i < length a" by linarith
    ultimately show ?thesis using k by (simp add: nth_append)
  qed
next
  fix j assume j: "j < length (a @ b)"
  show "(i + j \<in> set (ids1 @ ids2) \<and> sn_parent ((a @ b) ! j) = parent) \<or>
      (\<exists>p<j. sn_parent ((a @ b) ! j) = Some (i + p) \<and> i + j \<in> set (sn_children ((a @ b) ! p)))"
  proof (cases "j < length a")
    case True
    with a have "(i + j \<in> set ids1 \<and> sn_parent (a ! j) = parent) \<or>
        (\<exists>p<j. sn_parent (a ! j) = Some (i + p) \<and> i + j \<in> set (sn_children (a ! p)))"
      by (simp add: flat_wf_def)
    then show ?thesis
    proof (elim disjE exE conjE)
      fix p assume "p < j" "sn_parent (a ! j) = Some (i + p)" "i + j \<in> set (sn_children (a ! p))"
      then show ?thesis using True by (intro disjI2 exI [of _ p]) (simp add: nth_append)
    qed (use True in \<open>simp add: nth_append\<close>)
  next
    case False
    define k where "k = j - length a"
    have k: "k < length b" "j = length a + k" using j False by (auto simp: k_def)
    with b have "(i + length a + k \<in> set ids2 \<and> sn_parent (b ! k) = parent) \<or>
        (\<exists>p<k. sn_parent (b ! k) = Some (i + length a + p) \<and> i + length a + k \<in> set (sn_children (b ! p)))"
      by (simp add: flat_wf_def)
    then show ?thesis
    proof (elim disjE exE conjE)
      fix p assume "p < k" "sn_parent (b ! k) = Some (i + length a + p)"
        "i + length a + k \<in> set (sn_children (b ! p))"
      then show ?thesis using k by (intro disjI2 exI [of _ "length a + p"]) (simp add: nth_append add.assoc)
    qed (use k in \<open>simp add: nth_append add.assoc\<close>)
  qed
next
  fix c assume "c \<in> set (ids1 @ ids2)"
  then consider "c \<in> set ids1" | "c \<in> set ids2" by auto
  then show "i \<le> c \<and> c < i + length (a @ b) \<and> sn_parent ((a @ b) ! (c - i)) = parent"
  proof cases
    case 1
    with a have "i \<le> c \<and> c < i + length a \<and> sn_parent (a ! (c - i)) = parent" by (simp add: flat_wf_def)
    moreover from this have "c - i < length a" by linarith
    ultimately show ?thesis by (simp add: nth_append)
  next
    case 2
    with b have *: "i + length a \<le> c \<and> c < i + length a + length b \<and> sn_parent (b ! (c - (i + length a))) = parent"
      by (simp add: flat_wf_def)
    moreover from this have "\<not> c - i < length a" by linarith
    ultimately show ?thesis by (simp add: nth_append)
  qed
qed

lemma flat_wf_Cons:
  assumes below: "flat_wf (Suc i) (Some i) ids ns" and n: "sn_children n = ids" "sn_parent n = parent"
  shows "flat_wf i parent [i] (n # ns)"
  unfolding flat_wf_def
proof (intro conjI; intro allI impI ballI)
  fix j c assume j: "j < length (n # ns)" and c: "c \<in> set (sn_children ((n # ns) ! j))"
  show "i + j < c \<and> c < i + length (n # ns) \<and> sn_parent ((n # ns) ! (c - i)) = Some (i + j)"
  proof (cases j)
    case 0
    with c n below have "Suc i \<le> c \<and> c < Suc i + length ns \<and> sn_parent (ns ! (c - Suc i)) = Some i"
      by (simp add: flat_wf_def)
    then show ?thesis using 0 by (auto simp: nth_Cons')
  next
    case (Suc k)
    with c j below have "Suc i + k < c \<and> c < Suc i + length ns \<and> sn_parent (ns ! (c - Suc i)) = Some (Suc i + k)"
      by (simp add: flat_wf_def)
    then show ?thesis using Suc by (auto simp: nth_Cons')
  qed
next
  fix j assume j: "j < length (n # ns)"
  show "(i + j \<in> set [i] \<and> sn_parent ((n # ns) ! j) = parent) \<or>
      (\<exists>p<j. sn_parent ((n # ns) ! j) = Some (i + p) \<and> i + j \<in> set (sn_children ((n # ns) ! p)))"
  proof (cases j)
    case 0 then show ?thesis using n by simp
  next
    case (Suc k)
    with j below have "(Suc i + k \<in> set ids \<and> sn_parent (ns ! k) = Some i) \<or>
        (\<exists>p<k. sn_parent (ns ! k) = Some (Suc i + p) \<and> Suc i + k \<in> set (sn_children (ns ! p)))"
      by (simp add: flat_wf_def)
    then show ?thesis
    proof (elim disjE exE conjE)
      fix p assume "p < k" "sn_parent (ns ! k) = Some (Suc i + p)" "Suc i + k \<in> set (sn_children (ns ! p))"
      then show ?thesis using Suc by (intro disjI2 exI [of _ "Suc p"]) simp
    next
      assume "Suc i + k \<in> set ids" "sn_parent (ns ! k) = Some i"
      then show ?thesis using Suc n by (intro disjI2 exI [of _ 0]) simp
    qed
  qed
next
  fix c assume "c \<in> set [i]"
  then show "i \<le> c \<and> c < i + length (n # ns) \<and> sn_parent ((n # ns) ! (c - i)) = parent"
    using n by simp
qed

lemma flatten_wf:
  "flat_wf i parent [i] (flatten i parent t)"
  "flatten_scope i parent ts = (ids, ns) \<Longrightarrow> flat_wf i parent ids ns"
proof (induction i parent t and i parent ts arbitrary: and ids ns rule: flatten_flatten_scope.induct)
  case (1 i parent c r u ks)
  obtain ids below where s: "flatten_scope (Suc i) (Some i) ks = (ids, below)" by fastforce
  from flat_wf_Cons [OF 1 [OF s]] show ?case by (simp add: s)
next
  case (2 i parent)
  then show ?case by (simp add: flat_wf_nil)
next
  case (3 i parent t ts)
  obtain ids' rest where s: "flatten_scope (i + length (flatten i parent t)) parent ts = (ids', rest)" by fastforce
  from flat_wf_append [OF "3.IH"(1) "3.IH"(2) [OF refl s]] "3.prems" s show ?case by auto
qed

text \<open>Children come after their parent and point to it; the others are the top-level statements.\<close>

definition program_wf :: "program \<Rightarrow> bool" where
  "program_wf pg \<longleftrightarrow>
     (\<forall>i<length (pg_nodes pg). \<forall>c\<in>set (sn_children (node_of pg i)).
        i < c \<and> c < length (pg_nodes pg) \<and> sn_parent (node_of pg c) = Some i) \<and>
     (\<forall>i<length (pg_nodes pg). case sn_parent (node_of pg i) of
        None \<Rightarrow> i \<in> set (pg_top pg)
      | Some p \<Rightarrow> p < i \<and> i \<in> set (sn_children (node_of pg p))) \<and>
     (\<forall>t\<in>set (pg_top pg). t < length (pg_nodes pg) \<and> sn_parent (node_of pg t) = None)"

lemma visit_statements_wf: "program_wf (visit_statements root)"
proof -
  obtain ids ns where s: "flatten_scope 0 None (st_children root) = (ids, ns)" by fastforce
  have wf: "flat_wf 0 None ids ns" by (rule flatten_wf(2) [OF s])
  have kids: "\<forall>i<length ns. \<forall>c\<in>set (sn_children (ns ! i)). i < c \<and> c < length ns \<and> sn_parent (ns ! c) = Some i"
    using wf unfolding flat_wf_def add_0 diff_zero by blast
  have up: "(i \<in> set ids \<and> sn_parent (ns ! i) = None)
      \<or> (\<exists>p<i. sn_parent (ns ! i) = Some p \<and> i \<in> set (sn_children (ns ! p)))" if "i < length ns" for i
    using wf that unfolding flat_wf_def add_0 diff_zero by blast
  have tops: "\<forall>c\<in>set ids. c < length ns \<and> sn_parent (ns ! c) = None"
    using wf unfolding flat_wf_def add_0 diff_zero by blast
  have up': "\<forall>i<length ns. case sn_parent (ns ! i) of None \<Rightarrow> i \<in> set ids
      | Some p \<Rightarrow> p < i \<and> i \<in> set (sn_children (ns ! p))"
    using up by fastforce
  have pg: "pg_nodes (visit_statements root) = ns" "pg_top (visit_statements root) = ids"
    by (simp_all add: visit_statements_def s)
  show ?thesis
    unfolding program_wf_def node_of_def pg by (intro conjI kids up' tops)
qed

text \<open>How deep a statement is nested.\<close>

function depth :: "program \<Rightarrow> nat \<Rightarrow> nat" where
  "depth pg i = (case sn_parent (node_of pg i) of None \<Rightarrow> 0 | Some p \<Rightarrow> if p < i then Suc (depth pg p) else 0)"
  by auto
termination by (relation "measure snd") auto

declare depth.simps [simp del]

lemma depth_le: "depth pg i \<le> i"
proof (induction i rule: less_induct)
  case (less i)
  show ?case
  proof (cases "sn_parent (node_of pg i)")
    case None then show ?thesis by (simp add: depth.simps)
  next
    case (Some p)
    show ?thesis
    proof (cases "p < i")
      case True
      with less [OF True] Some show ?thesis by (simp add: depth.simps [of pg i])
    qed (simp add: depth.simps Some)
  qed
qed

lemma depth_child:
  "program_wf pg \<Longrightarrow> i < length (pg_nodes pg) \<Longrightarrow> sn_parent (node_of pg i) = Some p \<Longrightarrow> depth pg i = Suc (depth pg p)"
proof -
  assume wf: "program_wf pg" and i: "i < length (pg_nodes pg)" and p: "sn_parent (node_of pg i) = Some p"
  from wf i have "case sn_parent (node_of pg i) of None \<Rightarrow> i \<in> set (pg_top pg)
      | Some p \<Rightarrow> p < i \<and> i \<in> set (sn_children (node_of pg p))"
    unfolding program_wf_def by blast
  then show ?thesis by (simp add: depth.simps [of pg i] p)
qed

subsection \<open>A lexicographic order on functions\<close>

definition lex_less :: "nat \<Rightarrow> (nat \<Rightarrow> nat) \<Rightarrow> (nat \<Rightarrow> nat) \<Rightarrow> bool" where
  "lex_less K f g \<longleftrightarrow> (\<exists>k<K. f k < g k \<and> (\<forall>j<k. f j = g j))"

definition lex_le :: "nat \<Rightarrow> (nat \<Rightarrow> nat) \<Rightarrow> (nat \<Rightarrow> nat) \<Rightarrow> bool" where
  "lex_le K f g \<longleftrightarrow> lex_less K f g \<or> (\<forall>j<K. f j = g j)"

lemma lex_lessI:
  assumes "k < K" "f k < g k" "\<And>j. j < k \<Longrightarrow> f j \<le> g j"
  shows "lex_less K f g"
proof -
  define m where "m = (LEAST j. f j < g j)"
  have m: "f m < g m" "m \<le> k"
    unfolding m_def using assms(2) by (rule LeastI, rule Least_le)
  have "f j = g j" if "j < m" for j
    using not_less_Least [of j "\<lambda>j. f j < g j"] that assms(3) [of j] m(2) unfolding m_def by fastforce
  with m assms(1) show ?thesis unfolding lex_less_def by (intro exI [of _ m]) auto
qed

lemma lex_leI: "(\<And>j. j < K \<Longrightarrow> f j \<le> g j) \<Longrightarrow> lex_le K f g"
  unfolding lex_le_def by (metis lex_lessI le_less less_trans)

lemma lex_less_trans: "lex_less K f g \<Longrightarrow> lex_less K g h \<Longrightarrow> lex_less K f h"
proof -
  assume "lex_less K f g" "lex_less K g h"
  then obtain k l where "k < K" "f k < g k" "\<forall>j<k. f j = g j" "l < K" "g l < h l" "\<forall>j<l. g j = h j"
    by (auto simp: lex_less_def)
  then show ?thesis
    by (intro lex_lessI [of "min k l"]) (cases k l rule: linorder_cases; simp add: min_def)+
qed

lemma lex_le_trans: "lex_le K f g \<Longrightarrow> lex_le K g h \<Longrightarrow> lex_le K f h"
  unfolding lex_le_def using lex_less_trans [of K f g h] by (auto simp: lex_less_def)

lemma lex_le_less_trans: "lex_le K f g \<Longrightarrow> lex_less K g h \<Longrightarrow> lex_less K f h"
  unfolding lex_le_def using lex_less_trans [of K f g h] by (auto simp: lex_less_def)

lemma lex_less_mono: "lex_less K f g \<Longrightarrow> K \<le> L \<Longrightarrow> lex_less L f g"
  by (auto simp: lex_less_def intro: less_le_trans)

lemma wf_lex_less: "wf {(f, g). lex_less K f g}"
proof (rule wf_subset [OF wf_inv_image [OF wf_lenlex [OF wf_less_than]]])
  show "{(f, g). lex_less K f g} \<subseteq> inv_image (lenlex less_than) (\<lambda>f. map f [0..<K])"
  proof clarsimp
    fix f g :: "nat \<Rightarrow> nat" assume "lex_less K f g"
    then obtain k where k: "k < K" "f k < g k" "\<forall>j<k. f j = g j" by (auto simp: lex_less_def)
    have split: "map h [0..<K] = map h [0..<k] @ h k # map h [Suc k..<K]" for h :: "nat \<Rightarrow> nat"
    proof -
      have "[0..<K] = [0..<k] @ k # [Suc k..<K]"
        using k(1) by (metis less_imp_le_nat upt_add_eq_append upt_conv_Cons le_add_diff_inverse zero_le)
      then show ?thesis by simp
    qed
    have same: "map f [0..<k] = map g [0..<k]" using k(3) by simp
    show "(map f [0..<K], map g [0..<K]) \<in> lenlex less_than"
      unfolding split same using k(2) by (simp add: lenlex_append2 [OF irrefl_less_than] Cons_lenlex_iff)
  qed
qed

subsection \<open>What a notification does to the selections\<close>

definition resolved :: "registry \<Rightarrow> nat \<Rightarrow> bool" where
  "resolved reg y \<longleftrightarrow> (\<exists>s. reg y = Some (Some s))"

definition state_size :: "registry \<Rightarrow> nat \<Rightarrow> nat" where
  "state_size reg y = (case reg y of Some (Some s) \<Rightarrow> length (sl_nodes s) | _ \<Rightarrow> 0)"

definition sel_ids :: "program \<Rightarrow> nat \<Rightarrow> nat set" where
  "sel_ids pg i = vb_id ` set (command_selectors (command_of pg i))"

definition is_forced :: "verb \<Rightarrow> bool" where
  "is_forced v \<longleftrightarrow> (\<exists>l. vb_kind v = VUse l True)"

definition forced_id :: "program \<Rightarrow> nat \<Rightarrow> nat \<Rightarrow> bool" where
  "forced_id pg i y \<longleftrightarrow> (\<exists>v\<in>set (command_selectors (command_of pg i)). vb_id v = y \<and> is_forced v)"

text \<open>
  A transition of registry and caches by a notification of role \<open>role\<close> to the selectors whose
  identities are \<open>ids\<close>, of which \<open>forced\<close> are forced uses; \<open>ch\<close> is the reported change.
  Selections are never lost.  Either a selector was resolved or a cache filled, or else every
  selection only shrank (but a forced use renewed by its parent), and a reported change has a
  reason.
\<close>

definition transition ::
  "nat set \<Rightarrow> (nat \<Rightarrow> bool) \<Rightarrow> dependency_role \<Rightarrow> bool \<Rightarrow> registry \<times> (nat \<rightharpoonup> selection)
    \<Rightarrow> registry \<times> (nat \<rightharpoonup> selection) \<Rightarrow> bool" where
  "transition ids forced role ch = (\<lambda>(r, c) (r', c').
     (\<forall>y. resolved r y \<longrightarrow> resolved r' y) \<and> (\<forall>y. c y \<noteq> None \<longrightarrow> c' y = c y) \<and>
     (\<forall>y. y \<notin> ids \<longrightarrow> r' y = r y) \<and> (\<forall>y. r y \<noteq> None \<longrightarrow> r' y \<noteq> None) \<and>
     (\<forall>y. c y = None \<and> c' y \<noteq> None \<longrightarrow> ch \<and> y \<in> ids \<and> forced y) \<and>
     ((\<exists>y\<in>ids. (\<not> resolved r y \<and> resolved r' y) \<or> (c y = None \<and> c' y \<noteq> None)) \<or>
      (c' = c \<and> (\<forall>y. resolved r' y = resolved r y) \<and>
       (\<forall>y. state_size r' y \<le> state_size r y \<or> (role = Child \<and> y \<in> ids \<and> forced y)) \<and>
       (ch \<longrightarrow> (\<exists>y\<in>ids. state_size r' y < state_size r y) \<or> (role = Child \<and> (\<exists>y\<in>ids. forced y))
          \<or> (\<exists>y\<in>ids. forced y \<and> \<not> resolved r y \<and> c y \<noteq> None)))))"

lemma transition_refl: "transition ids forced role False s s"
  by (cases s) (auto simp: transition_def)

lemma transition_trans:
  assumes 1: "transition ids forced role a s t" and 2: "transition ids forced role b t u"
  shows "transition ids forced role (a \<or> b) s u"
proof -
  obtain r c where s: "s = (r, c)" by (cases s)
  obtain r' c' where t: "t = (r', c')" by (cases t)
  obtain r'' c'' where u: "u = (r'', c'')" by (cases u)
  note 1 = 1 [unfolded s t transition_def prod.case] and 2 = 2 [unfolded t u transition_def prod.case]
  note a1 = 1 [THEN conjunct1] and a2 = 1 [THEN conjunct2, THEN conjunct1]
    and a3 = 1 [THEN conjunct2, THEN conjunct2, THEN conjunct1]
    and a4 = 1 [THEN conjunct2, THEN conjunct2, THEN conjunct2, THEN conjunct1]
    and a5 = 1 [THEN conjunct2, THEN conjunct2, THEN conjunct2, THEN conjunct2, THEN conjunct1]
    and a6 = 1 [THEN conjunct2, THEN conjunct2, THEN conjunct2, THEN conjunct2, THEN conjunct2]
  note b1 = 2 [THEN conjunct1] and b2 = 2 [THEN conjunct2, THEN conjunct1]
    and b3 = 2 [THEN conjunct2, THEN conjunct2, THEN conjunct1]
    and b4 = 2 [THEN conjunct2, THEN conjunct2, THEN conjunct2, THEN conjunct1]
    and b5 = 2 [THEN conjunct2, THEN conjunct2, THEN conjunct2, THEN conjunct2, THEN conjunct1]
    and b6 = 2 [THEN conjunct2, THEN conjunct2, THEN conjunct2, THEN conjunct2, THEN conjunct2]
  have res: "\<forall>y. resolved r y \<longrightarrow> resolved r'' y" using a1 b1 by blast
  have keep: "\<forall>y. c y \<noteq> None \<longrightarrow> c'' y = c y" using a2 b2 by metis
  have out: "\<forall>y. y \<notin> ids \<longrightarrow> r'' y = r y" using a3 b3 by metis
  have pres: "\<forall>y. r y \<noteq> None \<longrightarrow> r'' y \<noteq> None" using a4 b4 by blast
  have new: "\<forall>y. c y = None \<and> c'' y \<noteq> None \<longrightarrow> (a \<or> b) \<and> y \<in> ids \<and> forced y"
    using a5 b5 b2 by metis
  have last: "(\<exists>y\<in>ids. (\<not> resolved r y \<and> resolved r'' y) \<or> (c y = None \<and> c'' y \<noteq> None)) \<or>
      (c'' = c \<and> (\<forall>y. resolved r'' y = resolved r y) \<and>
       (\<forall>y. state_size r'' y \<le> state_size r y \<or> (role = Child \<and> y \<in> ids \<and> forced y)) \<and>
       (a \<or> b \<longrightarrow> (\<exists>y\<in>ids. state_size r'' y < state_size r y) \<or> (role = Child \<and> (\<exists>y\<in>ids. forced y))
          \<or> (\<exists>y\<in>ids. forced y \<and> \<not> resolved r y \<and> c y \<noteq> None)))"
  proof (cases "\<exists>y\<in>ids. (\<not> resolved r y \<and> resolved r' y) \<or> (c y = None \<and> c' y \<noteq> None)")
    case True
    then obtain y where y: "y \<in> ids" "(\<not> resolved r y \<and> resolved r' y) \<or> (c y = None \<and> c' y \<noteq> None)" by blast
    have "resolved r' y \<longrightarrow> resolved r'' y" "c' y \<noteq> None \<longrightarrow> c'' y = c' y" using b1 b2 by blast+
    with y have "(\<not> resolved r y \<and> resolved r'' y) \<or> (c y = None \<and> c'' y \<noteq> None)" by metis
    with y(1) show ?thesis by blast
  next
    case F1: False
    with a6 have q1: "c' = c" "\<And>y. resolved r' y = resolved r y"
      "\<And>y. state_size r' y \<le> state_size r y \<or> (role = Child \<and> y \<in> ids \<and> forced y)"
      "a \<Longrightarrow> (\<exists>y\<in>ids. state_size r' y < state_size r y) \<or> (role = Child \<and> (\<exists>y\<in>ids. forced y))
          \<or> (\<exists>y\<in>ids. forced y \<and> \<not> resolved r y \<and> c y \<noteq> None)"
      by blast+
    show ?thesis
    proof (cases "\<exists>y\<in>ids. (\<not> resolved r' y \<and> resolved r'' y) \<or> (c' y = None \<and> c'' y \<noteq> None)")
      case True
      then show ?thesis unfolding q1(1,2) by blast
    next
      case False
      with b6 have q2: "c'' = c'" "\<And>y. resolved r'' y = resolved r' y"
        "\<And>y. state_size r'' y \<le> state_size r' y \<or> (role = Child \<and> y \<in> ids \<and> forced y)"
        "b \<Longrightarrow> (\<exists>y\<in>ids. state_size r'' y < state_size r' y) \<or> (role = Child \<and> (\<exists>y\<in>ids. forced y))
          \<or> (\<exists>y\<in>ids. forced y \<and> \<not> resolved r' y \<and> c' y \<noteq> None)"
        by blast+
      have sizes: "state_size r'' y \<le> state_size r y \<or> (role = Child \<and> y \<in> ids \<and> forced y)" for y
        using q1(3) [of y] q2(3) [of y] by (meson order_trans)
      have reason: "(\<exists>y\<in>ids. state_size r'' y < state_size r y) \<or> (role = Child \<and> (\<exists>y\<in>ids. forced y))
          \<or> (\<exists>y\<in>ids. forced y \<and> \<not> resolved r y \<and> c y \<noteq> None)" if ab: "a \<or> b"
      proof (cases "role = Child \<and> (\<exists>y\<in>ids. forced y)")
        case no: False
        have le1: "state_size r' y \<le> state_size r y" and le2: "state_size r'' y \<le> state_size r' y" for y
          using q1(3) [of y] q2(3) [of y] no by blast+
        from ab show ?thesis
        proof
          assume a
          from q1(4) [OF this] no show ?thesis using le2 by (meson order.strict_trans1)
        next
          assume b
          from q2(4) [OF this] no show ?thesis using le1 q1(1,2) by (metis order.strict_trans2)
        qed
      qed blast
      show ?thesis using q1(1,2) q2(1,2) sizes reason by simp
    qed
  qed
  show ?thesis
    unfolding s u transition_def prod.case
    by (intro conjI res keep out pres new last)
qed

text \<open>The updates of one selector.\<close>

definition state_of :: "registry \<Rightarrow> nat \<Rightarrow> selection option" where
  "state_of reg x = (case reg x of Some st \<Rightarrow> st | None \<Rightarrow> None)"

lemma resolved_state_of: "resolved reg x \<longleftrightarrow> state_of reg x \<noteq> None"
  by (auto simp: resolved_def state_of_def split: option.splits)

lemma resolved_upd [simp]: "resolved (reg(x \<mapsto> st)) y = (if y = x then st \<noteq> None else resolved reg y)"
  by (auto simp: resolved_def)

lemma size_upd [simp]:
  "state_size (reg(x \<mapsto> st)) y
     = (if y = x then (case st of Some s \<Rightarrow> length (sl_nodes s) | None \<Rightarrow> 0) else state_size reg y)"
  by (auto simp: state_size_def split: option.splits)

lemma size_state_of: "state_size reg x = (case state_of reg x of Some s \<Rightarrow> length (sl_nodes s) | None \<Rightarrow> 0)"
  by (auto simp: state_size_def state_of_def split: option.splits)

lemma state_of_upd [simp]: "state_of (reg(x \<mapsto> st)) y = (if y = x then st else state_of reg y)"
  by (simp add: state_of_def)

lemma transition_idle:
  "x \<in> ids \<Longrightarrow> transition ids forced role False (reg, once) (reg(x \<mapsto> state_of reg x), once)"
  by (auto simp: transition_def resolved_state_of size_state_of)

lemma transition_grow:
  "x \<in> ids \<Longrightarrow> \<not> resolved reg x \<Longrightarrow> transition ids forced role ch (reg, once) (reg(x \<mapsto> Some s), once)"
  unfolding transition_def prod.case by (intro conjI disjI1) auto

lemma transition_shrink:
  "x \<in> ids \<Longrightarrow> state_of reg x = Some s \<Longrightarrow> length (sl_nodes s') \<le> length (sl_nodes s) \<Longrightarrow>
     (ch \<longleftrightarrow> length (sl_nodes s') < length (sl_nodes s)) \<Longrightarrow>
     transition ids forced role ch (reg, once) (reg(x \<mapsto> Some s'), once)"
  unfolding transition_def prod.case
  by (intro conjI disjI2) (auto simp: resolved_state_of size_state_of)

lemma transition_renew:
  "x \<in> ids \<Longrightarrow> forced x \<Longrightarrow> transition ids forced Child ch (reg, once) (reg(x \<mapsto> Some s), once)"
proof (cases "resolved reg x")
  case True
  assume "x \<in> ids" "forced x"
  with True show ?thesis unfolding transition_def prod.case by (intro conjI disjI2) auto
qed (rule transition_grow)

lemma transition_provide:
  assumes "x \<in> ids" "forced x" "\<not> resolved reg x"
  shows "transition ids forced role True (reg, once) (reg(x \<mapsto> None), once_set x s once)"
proof (cases "once x")
  case None
  with assms show ?thesis
    unfolding transition_def prod.case by (intro conjI disjI1) (auto simp: once_set_def)
next
  case (Some s')
  with assms show ?thesis
    unfolding transition_def prod.case
    by (intro conjI disjI2) (auto simp: once_set_def state_size_def resolved_def split: option.splits)
qed

subsection \<open>Each selector of the receiver\<close>

lemma state_with:
  "selector_state_with x f reg = (fst (f (state_of reg x)), reg(x \<mapsto> snd (f (state_of reg x))))"
  by (simp add: selector_state_with_def state_of_def Let_def split: prod.splits)

text \<open>The three outcomes of the constraint phase.\<close>

definition constrain_outcome ::
  "verb \<Rightarrow> dependency_role \<Rightarrow> registry \<Rightarrow> constraint_action \<Rightarrow> registry \<Rightarrow> bool" where
  "constrain_outcome v role reg action reg' \<longleftrightarrow>
     (case action of
        ActSkip \<Rightarrow> reg' = reg(vb_id v \<mapsto> state_of reg (vb_id v))
      | ActConstrained ch ws \<Rightarrow>
          (\<exists>s s'. state_of reg (vb_id v) = Some s \<and> reg' = reg(vb_id v \<mapsto> Some s')
             \<and> length (sl_nodes s') \<le> length (sl_nodes s) \<and> (ch \<longleftrightarrow> length (sl_nodes s') < length (sl_nodes s)))
      | ActDerive \<Rightarrow>
          (reg' = reg \<or> reg' = reg(vb_id v \<mapsto> state_of reg (vb_id v)))
          \<and> (\<not> resolved reg (vb_id v) \<or> (is_forced v \<and> role = Child))
          \<and> (\<forall>l. vb_kind v = VUse l False \<longrightarrow> role \<noteq> Child))"

lemma constrain_outcome_default:
  assumes "\<not> (\<exists>l f. vb_kind v = VUse l f)" and "try_constrain_default env v dep nt reg = Inr (action, reg')"
  shows "constrain_outcome v (nt_role nt) reg action reg'"
proof -
  let ?x = "vb_id v"
  define reg1 where "reg1 = (if nt_weak nt then reg(?x \<mapsto> state_of reg ?x) else reg)"
  have st1: "state_of reg1 ?x = state_of reg ?x" by (simp add: reg1_def)
  show ?thesis
  proof (cases "nt_weak nt \<and> state_of reg ?x \<noteq> None")
    case True
    with assms(2) show ?thesis
      by (simp add: try_constrain_default_def state_with constrain_outcome_def)
  next
    case False
    from assms(2) obtain nsp where
      nsp: "command_span (nt_command nt) = Inr nsp"
      using False by (auto simp: try_constrain_default_def state_with rbind_Inr split: if_splits)
    have guard: "(if nt_weak nt then selector_state_with ?x (\<lambda>st. (st \<noteq> None, st)) reg else (False, reg)) = (False, reg1)"
      using False by (simp add: state_with reg1_def)
    have r: "Inr (action, reg') = (let ((constrained, changed, warnings), reg2) =
            selector_state_with ?x (constrain_with_warning dep (nt_role nt) (nt_rel nt)
              ((vb_span v)\<lparr>sp_input := sp_input nsp\<rparr>) (span_display env nsp)) reg1
          in Inr (if constrained then ActConstrained changed warnings else ActDerive, reg2) :: exec_error + _)"
      using assms(2) [symmetric] unfolding try_constrain_default_def guard by (simp add: nsp)
    obtain constrained changed ws st' where
      c: "constrain_with_warning dep (nt_role nt) (nt_rel nt) ((vb_span v)\<lparr>sp_input := sp_input nsp\<rparr>)
            (span_display env nsp) (state_of reg ?x) = ((constrained, changed, ws), st')"
      by (metis prod.collapse)
    have reg1_upd: "reg1(?x \<mapsto> st') = reg(?x \<mapsto> st')" by (simp add: reg1_def)
    from r have act: "action = (if constrained then ActConstrained changed ws else ActDerive)" "reg' = reg(?x \<mapsto> st')"
      by (simp_all add: state_with st1 c reg1_upd Let_def)
    from constrain_with_warning_shrinks [OF c] act assms(1) show ?thesis
      by (cases "state_of reg ?x"; cases st') (auto simp: constrain_outcome_def resolved_state_of)
  qed
qed

lemma constrain_outcome_user:
  assumes v: "vb_kind v = VUse l f" and t: "try_constrain_user v f dep nt reg = Inr (action, reg')"
  shows "constrain_outcome v (nt_role nt) reg action reg'"
proof (cases "\<not> f \<or> nt_role nt \<noteq> Child")
  case False
  with t v show ?thesis by (auto simp: try_constrain_user_def constrain_outcome_def is_forced_def)
next
  case act: True
  show ?thesis
  proof (cases "state_of reg (vb_id v)")
    case None
    with t v act show ?thesis
      by (auto simp: try_constrain_user_def constrain_outcome_def state_with resolved_state_of split: if_splits)
  next
    case (Some s)
    obtain ch st' where c: "constrain_selection dep (nt_role nt) (nt_rel nt) (Some s) = (ch, st')" by fastforce
    with t act Some have "action = ActConstrained ch []" "reg' = reg(vb_id v \<mapsto> st')"
      by (auto simp: try_constrain_user_def state_with)
    with constrain_selection_shrinks [OF c] Some show ?thesis
      by (cases st') (auto simp: constrain_outcome_def)
  qed
qed

lemma constrain_outcome_any:
  "try_constrain_notification env v dep nt reg = Inr (action, reg') \<Longrightarrow> constrain_outcome v (nt_role nt) reg action reg'"
  unfolding try_constrain_notification_def
  by (cases "vb_kind v") (auto intro: constrain_outcome_default constrain_outcome_user)

text \<open>A selection that is there stays there.\<close>

lemma get_selection_Some_iff:
  "(\<exists>s. get_selection reg c = Inr (Some s)) \<longleftrightarrow>
     is_computed reg c \<and> command_selectors c \<noteq> [] \<and> resolved reg (vb_id (last (command_selectors c)))"
proof (cases "is_computed reg c")
  case True
  then have reg: "\<forall>v\<in>set (command_selectors c). reg (vb_id v) \<noteq> None"
    by (simp add: is_computed_def list_all_iff reg_contains_def)
  define sts where "sts = map (\<lambda>v. the (reg (vb_id v))) (command_selectors c)"
  have ss: "selector_states reg (command_selectors c) = Inr sts"
    unfolding sts_def by (rule selector_states_ok [OF reg])
  have lst: "command_selectors c \<noteq> [] \<Longrightarrow> reg (vb_id (last (command_selectors c))) = Some (last sts)"
    using reg by (auto simp: sts_def last_map)
  have "foldl merge_state None sts = None \<longleftrightarrow> command_selectors c = [] \<or> last sts = None"
    using foldl_merge_last [of sts None] by (cases "command_selectors c = []") (simp_all add: sts_def)
  with True lst show ?thesis
    by (auto simp: get_selection_def ss resolved_def)
next
  case False
  then have "\<exists>v\<in>set (command_selectors c). reg (vb_id v) = None"
    by (auto simp: is_computed_def list_all_iff reg_contains_def)
  from selector_states_panic [OF this] False show ?thesis by (simp add: get_selection_def)
qed

lemma transition_persists:
  assumes t: "transition ids forced role ch (r, once) (r', once')" and s: "get_selection r c = Inr (Some s)"
  shows "\<exists>s'. get_selection r' c = Inr (Some s')"
proof -
  have "is_computed r c" "command_selectors c \<noteq> []" "resolved r (vb_id (last (command_selectors c)))"
    using s get_selection_Some_iff [of r c] by auto
  moreover have "\<forall>y. resolved r y \<longrightarrow> resolved r' y" "\<forall>y. r y \<noteq> None \<longrightarrow> r' y \<noteq> None"
    using t unfolding transition_def by auto
  ultimately show ?thesis
    unfolding get_selection_Some_iff is_computed_def list_all_iff reg_contains_def by blast
qed

text \<open>The role is one that notifications carry.\<close>

definition notifies :: "dependency_role \<Rightarrow> bool" where
  "notifies role \<longleftrightarrow> role \<in> {Parent, Child, User}"

lemma derive_transition:
  assumes d: "derive_selection env c v (Some dep) nt ps cs ctx = Inr (sel, once)"
    and role: "notifies (nt_role nt)"
    and user: "nt_role nt = User \<Longrightarrow> selector_label (vb_kind v) \<noteq> None"
    and st: "\<not> resolved (xc_registry ctx) (vb_id v) \<or> (is_forced v \<and> nt_role nt = Child)"
    and plain: "\<forall>l. vb_kind v = VUse l False \<longrightarrow> nt_role nt \<noteq> Child"
    and x: "vb_id v \<in> ids" "is_forced v \<longrightarrow> forced (vb_id v)"
  shows "transition ids forced (nt_role nt) True (xc_registry ctx, xc_once ctx)
     ((xc_registry ctx)(vb_id v \<mapsto> map_option (command_filter c) sel), once)"
proof (cases "nt_role nt")
  case Child
  have some: "sel \<noteq> None \<and> once = xc_once ctx"
    using d Child plain
    by (cases "vb_kind v")
      (auto simp: derive_selection_def Let_def rbind_Inr derive_from_parent_default_def
        forced_derive_from_parent_def user_derive_from_parent_def split: option.splits if_splits)
  show ?thesis
  proof (cases "is_forced v")
    case True
    with some x Child show ?thesis using transition_renew [OF x(1)] by auto
  next
    case False
    with some st show ?thesis using transition_grow [OF x(1)] Child by auto
  qed
next
  case Parent
  have some: "sel \<noteq> None \<and> once = xc_once ctx"
    using d Parent
    by (cases "vb_kind v")
      (auto simp: derive_selection_def Let_def rbind_Inr derive_from_child_default_def
        user_derive_from_child_def split: option.splits)
  with st Parent show ?thesis using transition_grow [OF x(1)] by auto
next
  case User
  then obtain l f where v: "vb_kind v = VUse l f" using user by (cases "vb_kind v") auto
  have nr: "\<not> resolved (xc_registry ctx) (vb_id v)" using st User by simp
  show ?thesis
  proof (cases f)
    case True
    with d User v have "sel = None" "once = once_set (vb_id v) dep (xc_once ctx)"
      by (auto simp: derive_selection_def Let_def user_derive_from_provider_def)
    moreover have "forced (vb_id v)" using x(2) v True by (auto simp: is_forced_def)
    ultimately show ?thesis using transition_provide [OF x(1) _ nr] User by simp
  next
    case False
    with d User v have "sel = Some dep" "once = xc_once ctx"
      by (auto simp: derive_selection_def Let_def user_derive_from_provider_def)
    then show ?thesis using transition_grow [OF x(1) nr] by simp
  qed
qed (use role in \<open>simp_all add: notifies_def\<close>)

lemma accept_one_transition:
  assumes a: "accept_one env c nt dep labels ps cs v ctx = Inr ((ch, ws), ctx')"
    and role: "notifies (nt_role nt)" and user: "nt_role nt = User \<Longrightarrow> labels \<noteq> None"
    and sel: "get_selection (xc_registry ctx) (nt_command nt) = Inr (Some d)"
    and x: "vb_id v \<in> ids" "is_forced v \<longrightarrow> forced (vb_id v)"
  shows "transition ids forced (nt_role nt) ch (xc_registry ctx, xc_once ctx) (xc_registry ctx', xc_once ctx')
     \<and> xc_eph ctx' = xc_eph ctx"
proof (cases "concerns labels v")
  case False
  with a have "ch = False" "ctx' = ctx" by (simp_all add: accept_one_def)
  then show ?thesis by (simp add: transition_refl)
next
  case con: True
  with a obtain action reg where
    t: "try_constrain_notification env v dep nt (xc_registry ctx) = Inr (action, reg)"
    by (auto simp: accept_one_def rbind_Inr)
  note out = constrain_outcome_any [OF t, unfolded constrain_outcome_def]
  have lab: "nt_role nt = User \<Longrightarrow> selector_label (vb_kind v) \<noteq> None"
    using con user by (auto simp: concerns_def split: option.splits)
  show ?thesis
  proof (cases action)
    case ActSkip
    with a con t have "ch = False" "ctx' = ctx\<lparr>xc_registry := reg\<rparr>" by (auto simp: accept_one_def)
    moreover have "reg = (xc_registry ctx)(vb_id v \<mapsto> state_of (xc_registry ctx) (vb_id v))"
      using out ActSkip by simp
    ultimately show ?thesis using transition_idle [OF x(1)] by simp
  next
    case (ActConstrained ch' ws')
    with a con t have "ch = ch'" "ctx' = ctx\<lparr>xc_registry := reg\<rparr>" by (auto simp: accept_one_def)
    moreover from out ActConstrained obtain s s' where
      s: "state_of (xc_registry ctx) (vb_id v) = Some s" "reg = (xc_registry ctx)(vb_id v \<mapsto> Some s')"
        "length (sl_nodes s') \<le> length (sl_nodes s)" "ch' \<longleftrightarrow> length (sl_nodes s') < length (sl_nodes s)" by auto
    ultimately show ?thesis using transition_shrink [OF x(1) s(1,3,4)] by simp
  next
    case ActDerive
    define ctx1 where "ctx1 = ctx\<lparr>xc_registry := reg\<rparr>"
    have idle: "transition ids forced (nt_role nt) False (xc_registry ctx, xc_once ctx) (reg, xc_once ctx)"
      using out ActDerive transition_idle [OF x(1)] by (auto intro: transition_refl)
    from transition_persists [OF this sel] obtain d' where
      d': "get_selection reg (nt_command nt) = Inr (Some d')" by blast
    from a con t ActDerive d' obtain s once where
      ds: "derive_selection env c v (Some d') nt ps cs ctx1 = Inr (s, once)" and
      ch: "ch = True" and
      ctx': "ctx' = ctx1\<lparr>xc_registry := (xc_registry ctx1)(vb_id v \<mapsto> map_option (command_filter c) s), xc_once := once\<rparr>"
      by (auto simp: accept_one_def rbind_Inr Let_def ctx1_def)
    have st: "\<not> resolved (xc_registry ctx1) (vb_id v) \<or> (is_forced v \<and> nt_role nt = Child)"
      using out ActDerive by (auto simp: ctx1_def resolved_state_of)
    have plain: "\<forall>l. vb_kind v = VUse l False \<longrightarrow> nt_role nt \<noteq> Child" using out ActDerive by simp
    from derive_transition [where forced = forced, OF ds role lab st plain x]
    have "transition ids forced (nt_role nt) True (reg, xc_once ctx) (xc_registry ctx', xc_once ctx')"
      by (simp add: ctx' ctx1_def)
    from transition_trans [OF idle this] ch show ?thesis by (simp add: ctx' ctx1_def)
  qed
qed

lemma accept_all_transition:
  assumes role: "notifies (nt_role nt)" and user: "nt_role nt = User \<Longrightarrow> labels \<noteq> None"
  shows "accept_all env c nt dep labels ps cs vs ctx = Inr ((ch, ws), ctx') \<Longrightarrow>
     get_selection (xc_registry ctx) (nt_command nt) = Inr (Some d) \<Longrightarrow>
     (\<forall>v\<in>set vs. vb_id v \<in> ids \<and> (is_forced v \<longrightarrow> forced (vb_id v))) \<Longrightarrow>
     transition ids forced (nt_role nt) ch (xc_registry ctx, xc_once ctx) (xc_registry ctx', xc_once ctx')
     \<and> xc_eph ctx' = xc_eph ctx"
proof (induction vs arbitrary: ctx ch ws ctx' d)
  case Nil
  then show ?case by (auto intro: transition_refl)
next
  case (Cons v vs)
  from Cons.prems(1) obtain r1 ctx1 r2 where
    first: "accept_one env c nt dep labels ps cs v ctx = Inr (r1, ctx1)" and
    r: "accept_all env c nt dep labels ps cs vs ctx1 = Inr (r2, ctx')" and c: "ch \<longleftrightarrow> fst r1 \<or> fst r2"
    by (fastforce simp: rbind_Inr)
  obtain ch1 ws1 ch2 ws2 where rs: "r1 = (ch1, ws1)" "r2 = (ch2, ws2)" by fastforce
  note one = first [unfolded rs] and rest = r [unfolded rs] and ch = c [unfolded rs fst_conv]
  from accept_one_transition [OF one role user Cons.prems(2)] Cons.prems(3)
  have t1: "transition ids forced (nt_role nt) ch1 (xc_registry ctx, xc_once ctx) (xc_registry ctx1, xc_once ctx1)"
    and e1: "xc_eph ctx1 = xc_eph ctx" by auto
  from transition_persists [OF t1 Cons.prems(2)] obtain d' where
    d': "get_selection (xc_registry ctx1) (nt_command nt) = Inr (Some d')" by blast
  from Cons.IH [OF rest d'] Cons.prems(3) transition_trans [OF t1] ch e1 show ?case by auto
qed

lemma notify_one_transition:
  assumes a: "notify_one env c dep Parent rel unnest ps cs v (ids0, ctx) = Inr ((ch, ws), ids1, ctx')"
    and x: "vb_id v \<in> ids"
  shows "transition ids forced Parent ch (xc_registry ctx, xc_once ctx) (xc_registry ctx', xc_once ctx')
     \<and> xc_eph ctx' = xc_eph ctx"
proof -
  let ?r = "xc_registry ctx" and ?x = "vb_id v"
  from a obtain csp where
    csp: "command_span c = Inr csp" by (auto simp: notify_one_def rbind_Inr)
  obtain con sch ws1 st' where
    w: "constrain_with_warning dep Parent rel ((vb_span v)\<lparr>sp_input := sp_input csp\<rparr>) ''children'' (state_of ?r ?x)
        = ((con, sch, ws1), st')" by (metis prod.collapse)
  from constrain_with_warning_shrinks [OF w]
  have sh: "con \<longleftrightarrow> state_of ?r ?x \<noteq> None" "state_of ?r ?x = None \<longleftrightarrow> st' = None"
    "state_of ?r ?x = None \<longrightarrow> \<not> sch"
    "\<And>s s'. state_of ?r ?x = Some s \<Longrightarrow> st' = Some s' \<Longrightarrow> length (sl_nodes s') \<le> length (sl_nodes s) \<and>
        (sch \<longleftrightarrow> length (sl_nodes s') < length (sl_nodes s))" by auto
  show ?thesis
  proof (cases "state_of ?r ?x")
    case (Some s)
    then obtain s' where s': "st' = Some s'" using sh(2) by (cases st') auto
    have "con" using sh(1) Some by simp
    with a csp w s' have "ch = sch" "ctx' = ctx\<lparr>xc_registry := ?r(?x \<mapsto> Some s')\<rparr>"
      by (auto simp: notify_one_def state_with Let_def)
    with transition_shrink [OF x Some] sh(4) [OF Some s'] show ?thesis by simp
  next
    case None
    then have "\<not> con" "st' = None" "\<not> resolved ?r ?x" using sh by (auto simp: resolved_state_of)
    with a csp w obtain s where
      "ch = True" "ctx' = ctx\<lparr>xc_registry := ?r(?x \<mapsto> Some (command_filter c s))\<rparr>"
      by (auto simp: notify_one_def state_with Let_def rbind_Inr)
    with transition_grow [OF x \<open>\<not> resolved ?r ?x\<close>] show ?thesis by simp
  qed
qed

lemma notify_all_transition:
  "notify_all env c dep Parent rel unnest ps cs vs (ids0, ctx) = Inr ((ch, ws), ids1, ctx') \<Longrightarrow>
     (\<forall>v\<in>set vs. vb_id v \<in> ids) \<Longrightarrow>
     transition ids forced Parent ch (xc_registry ctx, xc_once ctx) (xc_registry ctx', xc_once ctx')
     \<and> xc_eph ctx' = xc_eph ctx"
proof (induction vs arbitrary: ids0 ctx ch ws ids1 ctx')
  case Nil
  then show ?case by (auto intro: transition_refl)
next
  case (Cons v vs)
  from Cons.prems(1) obtain r1 i1 ctx1 r2 where
    first: "notify_one env c dep Parent rel unnest ps cs v (ids0, ctx) = Inr (r1, i1, ctx1)" and
    r: "notify_all env c dep Parent rel unnest ps cs vs (i1, ctx1) = Inr (r2, ids1, ctx')" and
    c: "ch \<longleftrightarrow> fst r1 \<or> fst r2"
    by (fastforce simp: rbind_Inr)
  obtain ch1 ws1 ch2 ws2 where rs: "r1 = (ch1, ws1)" "r2 = (ch2, ws2)" by fastforce
  note one = first [unfolded rs] and rest = r [unfolded rs] and ch = c [unfolded rs fst_conv]
  from notify_one_transition [OF one, of ids forced] Cons.prems(2)
  have "transition ids forced Parent ch1 (xc_registry ctx, xc_once ctx) (xc_registry ctx1, xc_once ctx1)"
    "xc_eph ctx1 = xc_eph ctx" by auto
  with Cons.IH [OF rest] Cons.prems(2) transition_trans [OF this(1)] ch show ?case by auto
qed


subsection \<open>The measure of the propagation loop\<close>

text \<open>
  Index 0 counts what is still to be resolved or cached; indices \<open>2d + 1\<close> and \<open>2d + 2\<close> hold the
  size of the selections and the number of worklist entries at depth \<open>d\<close>.
\<close>

definition all_ids :: "program \<Rightarrow> nat set" where
  "all_ids pg = (\<Union>i<length (pg_nodes pg). sel_ids pg i)"

definition depth_ids :: "program \<Rightarrow> nat \<Rightarrow> nat set" where
  "depth_ids pg d = (\<Union>i\<in>{i. i < length (pg_nodes pg) \<and> depth pg i = d}. sel_ids pg i)"

definition unsettled :: "program \<Rightarrow> registry \<times> (nat \<rightharpoonup> selection) \<Rightarrow> nat" where
  "unsettled pg = (\<lambda>(r, c). card {y \<in> all_ids pg. \<not> resolved r y} + card {y \<in> all_ids pg. c y = None})"

definition loop_measure :: "program \<Rightarrow> nat list \<Rightarrow> registry \<times> (nat \<rightharpoonup> selection) \<Rightarrow> nat \<Rightarrow> nat" where
  "loop_measure pg wl s k =
     (if k = 0 then unsettled pg s
      else if odd k then (\<Sum>y\<in>depth_ids pg (k div 2). state_size (fst s) y)
      else length (filter (\<lambda>i. depth pg i = k div 2 - 1) wl))"

lemma finite_sel_ids [simp]: "finite (sel_ids pg i)" by (simp add: sel_ids_def)
lemma finite_all_ids [simp]: "finite (all_ids pg)" by (simp add: all_ids_def)
lemma finite_depth_ids [simp]: "finite (depth_ids pg d)" by (simp add: depth_ids_def)

lemma sel_ids_all: "i < length (pg_nodes pg) \<Longrightarrow> sel_ids pg i \<subseteq> all_ids pg"
  by (auto simp: all_ids_def)

lemma unsettled_less:
  assumes "\<forall>y. resolved r y \<longrightarrow> resolved r' y" "\<forall>y. c y \<noteq> None \<longrightarrow> c' y = c y"
    and "\<exists>y\<in>all_ids pg. (\<not> resolved r y \<and> resolved r' y) \<or> (c y = None \<and> c' y \<noteq> None)"
  shows "unsettled pg (r', c') < unsettled pg (r, c)"
proof -
  have r: "{y \<in> all_ids pg. \<not> resolved r' y} \<subseteq> {y \<in> all_ids pg. \<not> resolved r y}" using assms(1) by blast
  have c: "{y \<in> all_ids pg. c' y = None} \<subseteq> {y \<in> all_ids pg. c y = None}"
  proof clarify
    fix y assume "y \<in> all_ids pg" "c' y = None"
    then show "c y = None" using assms(2) by metis
  qed
  have "{y \<in> all_ids pg. \<not> resolved r' y} \<subset> {y \<in> all_ids pg. \<not> resolved r y}
      \<or> {y \<in> all_ids pg. c' y = None} \<subset> {y \<in> all_ids pg. c y = None}"
  proof -
    from assms(3) obtain y where y: "y \<in> all_ids pg" "(\<not> resolved r y \<and> resolved r' y) \<or> (c y = None \<and> c' y \<noteq> None)" by blast
    then have "y \<in> {y \<in> all_ids pg. \<not> resolved r y} - {y \<in> all_ids pg. \<not> resolved r' y}
        \<or> y \<in> {y \<in> all_ids pg. c y = None} - {y \<in> all_ids pg. c' y = None}" by simp
    then show ?thesis using psubsetI [OF r] psubsetI [OF c] by blast
  qed
  then have "card {y \<in> all_ids pg. \<not> resolved r' y} < card {y \<in> all_ids pg. \<not> resolved r y}
      \<or> card {y \<in> all_ids pg. c' y = None} < card {y \<in> all_ids pg. c y = None}"
    using psubset_card_mono [of "{y \<in> all_ids pg. \<not> resolved r y}"] psubset_card_mono [of "{y \<in> all_ids pg. c y = None}"]
    by auto
  moreover have "card {y \<in> all_ids pg. \<not> resolved r' y} \<le> card {y \<in> all_ids pg. \<not> resolved r y}"
    "card {y \<in> all_ids pg. c' y = None} \<le> card {y \<in> all_ids pg. c y = None}"
    using r c by (auto intro!: card_mono)
  ultimately show ?thesis by (auto simp: unsettled_def)
qed

lemma unsettled_same: "(\<forall>y. resolved r' y = resolved r y) \<Longrightarrow> unsettled pg (r', c) = unsettled pg (r, c)"
  by (simp add: unsettled_def)

lemma lex_less_0: "f 0 < g 0 \<Longrightarrow> 0 < K \<Longrightarrow> lex_less K f g"
  by (auto simp: lex_less_def)

text \<open>The identity of a forced use names that use only.\<close>

definition forced_owned :: "program \<Rightarrow> bool" where
  "forced_owned pg \<longleftrightarrow>
     (\<forall>i<length (pg_nodes pg). \<forall>v\<in>set (command_selectors (command_of pg i)).
      \<forall>j<length (pg_nodes pg). forced_id pg j (vb_id v) \<longrightarrow> i = j \<and> is_forced v)"

text \<open>A forced use whose cache is filled but whose selection is not yet taken is scheduled.\<close>

definition forced_scheduled :: "program \<Rightarrow> nat list \<Rightarrow> registry \<times> (nat \<rightharpoonup> selection) \<Rightarrow> bool" where
  "forced_scheduled pg wl = (\<lambda>(r, c).
     \<forall>t<length (pg_nodes pg). \<forall>y. forced_id pg t y \<and> \<not> resolved r y \<and> c y \<noteq> None \<longrightarrow> t \<in> set wl)"

lemma forced_id_sel: "forced_id pg t y \<Longrightarrow> y \<in> sel_ids pg t"
  by (auto simp: forced_id_def sel_ids_def)

lemma forced_owned_unique:
  "forced_owned pg \<Longrightarrow> t < length (pg_nodes pg) \<Longrightarrow> i < length (pg_nodes pg) \<Longrightarrow> forced_id pg t y \<Longrightarrow> y \<in> sel_ids pg i \<Longrightarrow> i = t"
  by (auto simp: forced_owned_def sel_ids_def)

lemma depth_count_schedule:
  "length (filter (\<lambda>i. depth pg i = d) (schedule t wl))
     = length (filter (\<lambda>i. depth pg i = d) wl) + (if t \<notin> set wl \<and> depth pg t = d then 1 else 0)"
  by (simp add: schedule_def)

text \<open>A notification by a statement at depth \<open>d\<close> does not increase the measure up to the worklist of depth \<open>d\<close>.\<close>

lemma notification_lex:
  assumes tr: "transition (sel_ids pg t) (forced_id pg t) role ch (r, c) (r', c')"
    and t: "t < length (pg_nodes pg)" and child: "role = Child \<Longrightarrow> depth pg t = Suc d"
    and owned: "forced_owned pg" and sched: "forced_scheduled pg wl (r, c) \<or> (\<forall>y. forced_id pg t y \<longrightarrow> \<not> (\<not> resolved r y \<and> c y \<noteq> None))"
  shows "lex_le (2 * d + 3) (loop_measure pg (if ch then schedule t wl else wl) (r', c')) (loop_measure pg wl (r, c))"
    (is "lex_le _ ?f ?g")
proof -
  note tr' = tr [unfolded transition_def prod.case]
  show ?thesis
  proof (cases "\<exists>y\<in>sel_ids pg t. (\<not> resolved r y \<and> resolved r' y) \<or> (c y = None \<and> c' y \<noteq> None)")
    case True
    then have "\<exists>y\<in>all_ids pg. (\<not> resolved r y \<and> resolved r' y) \<or> (c y = None \<and> c' y \<noteq> None)"
      using sel_ids_all [OF t] by blast
    from unsettled_less [OF _ _ this] tr' have "?f 0 < ?g 0" by (simp add: loop_measure_def)
    then show ?thesis by (simp add: lex_le_def lex_less_0)
  next
    case False
    with tr' have c: "c' = c" and res: "\<forall>y. resolved r' y = resolved r y"
      and size: "\<And>y. state_size r' y \<le> state_size r y \<or> (role = Child \<and> y \<in> sel_ids pg t \<and> forced_id pg t y)"
      and why: "ch \<Longrightarrow> (\<exists>y\<in>sel_ids pg t. state_size r' y < state_size r y)
          \<or> (role = Child \<and> (\<exists>y\<in>sel_ids pg t. forced_id pg t y))
          \<or> (\<exists>y\<in>sel_ids pg t. forced_id pg t y \<and> \<not> resolved r y \<and> c y \<noteq> None)"
      by blast+
    have zero: "?f 0 = ?g 0" using res by (simp add: loop_measure_def c unsettled_same)
    have sizes: "?f k \<le> ?g k" if k: "odd k" "role = Child \<longrightarrow> k div 2 \<le> d" for k
    proof -
      have "state_size r' y \<le> state_size r y" if y: "y \<in> depth_ids pg (k div 2)" for y
      proof (rule ccontr)
        assume "\<not> ?thesis"
        with size [of y] have "role = Child" "forced_id pg t y" by auto
        moreover from y obtain i where "i < length (pg_nodes pg)" "depth pg i = k div 2" "y \<in> sel_ids pg i"
          by (auto simp: depth_ids_def)
        ultimately show False using forced_owned_unique [OF owned t] child k(2) by fastforce
      qed
      then show ?thesis using k(1) by (auto simp: loop_measure_def intro!: sum_mono)
    qed
    have wls: "?f k \<le> ?g k" if "k \<noteq> 0" "even k" "\<not> ch \<or> t \<in> set wl \<or> depth pg t \<noteq> k div 2 - 1" for k
      using that by (auto simp: loop_measure_def depth_count_schedule)
    show ?thesis
    proof (cases "role = Child")
      case True
      show ?thesis
      proof (rule lex_leI)
        fix k assume k: "k < 2 * d + 3"
        have odd: "odd k \<Longrightarrow> k div 2 \<le> d" using k by (auto elim!: oddE)
        have even: "depth pg t \<noteq> k div 2 - 1" using k child [OF True] by linarith
        consider "k = 0" | "odd k" | "k \<noteq> 0" "even k" by blast
        then show "?f k \<le> ?g k"
        proof cases
          case 1 then show ?thesis using zero by (simp only: order_refl)
        qed (use sizes wls odd even in blast)+
      qed
    next
      case False
      show ?thesis
      proof (cases "ch \<and> t \<notin> set wl")
        case True
        have "\<not> (\<exists>y\<in>sel_ids pg t. forced_id pg t y \<and> \<not> resolved r y \<and> c y \<noteq> None)"
          using True sched t unfolding forced_scheduled_def prod.case by blast
        with why True False obtain y where y: "y \<in> sel_ids pg t" "state_size r' y < state_size r y" by blast
        let ?k = "2 * depth pg t + 1"
        have "y \<in> depth_ids pg (depth pg t)" using y(1) t by (auto simp: depth_ids_def)
        moreover have "\<forall>y. state_size r' y \<le> state_size r y" using size False by blast
        ultimately have less: "?f ?k < ?g ?k" using y(2) by (auto simp: loop_measure_def intro!: sum_strict_mono_ex1)
        have below: "?f j \<le> ?g j" if "j < ?k \<or> (j < 2 * d + 3 \<and> d < depth pg t)" for j
        proof -
          have even: "depth pg t \<noteq> j div 2 - 1" if "j \<noteq> 0" "even j"
            using that \<open>j < ?k \<or> (j < 2 * d + 3 \<and> d < depth pg t)\<close> by (auto elim!: evenE)
          consider "j = 0" | "odd j" | "j \<noteq> 0" "even j" by blast
          then show ?thesis
          proof cases
            case 1 then show ?thesis using zero by (simp only: order_refl)
          qed (use sizes wls even False in blast)+
        qed
        show ?thesis
        proof (cases "depth pg t \<le> d")
          case True
          have "lex_less (2 * d + 3) ?f ?g"
            by (rule lex_lessI [of ?k]) (use True less below in auto)
          then show ?thesis by (simp add: lex_le_def)
        next
          case False
          then show ?thesis using below by (intro lex_leI) auto
        qed
      next
        case no: False
        show ?thesis
        proof (rule lex_leI)
          fix k assume "k < 2 * d + 3"
          show "?f k \<le> ?g k"
            using zero sizes [of k] wls [of k] no False by (cases "k = 0"; cases "even k") auto
        qed
      qed
    qed
  qed
qed

lemma forced_scheduled_step:
  assumes tr: "transition (sel_ids pg t) (forced_id pg t) role ch (r, c) (r', c')"
    and t: "t < length (pg_nodes pg)" and owned: "forced_owned pg" and sched: "forced_scheduled pg wl (r, c)"
  shows "forced_scheduled pg (if ch then schedule t wl else wl) (r', c')"
  unfolding forced_scheduled_def prod.case
proof (intro allI impI; elim conjE)
  fix u y assume u: "u < length (pg_nodes pg)" "forced_id pg u y" "\<not> resolved r' y" "c' y \<noteq> None"
  note tr' = tr [unfolded transition_def prod.case]
  have nr: "\<not> resolved r y" using tr' u(3) by blast
  show "u \<in> set (if ch then schedule t wl else wl)"
  proof (cases "c y = None")
    case True
    with tr' u(4) have "ch" "y \<in> sel_ids pg t" by blast+
    with forced_owned_unique [OF owned u(1) t u(2)] show ?thesis by (simp add: schedule_def)
  next
    case False
    with sched u nr have "u \<in> set wl" unfolding forced_scheduled_def prod.case by blast
    then show ?thesis by (simp add: schedule_def)
  qed
qed


subsection \<open>One round of the loop\<close>

lemma command_filter_id [simp]: "command_filter c s = s"
proof -
  have "foldl (\<lambda>s v. filter_impl (vb_kind v) s) s vs = s" for vs :: "verb list"
    by (induction vs) (simp_all add: filter_impl_def)
  then show ?thesis by (simp add: command_filter_def)
qed

lemma update_state_Some [simp]: "update_state k cached (Some s) = Some s"
  by (cases k) auto

lemma update_state_new: "update_state k cached None = Some s \<Longrightarrow> cached = Some s"
  by (cases k) (auto split: if_splits)

lemma update_state_forced: "is_forced v \<Longrightarrow> cached \<noteq> None \<Longrightarrow> update_state (vb_kind v) cached st \<noteq> None"
  by (cases st) (auto simp: is_forced_def)

definition refreshed :: "(nat \<rightharpoonup> selection) \<Rightarrow> verb list \<Rightarrow> registry \<Rightarrow> registry \<Rightarrow> bool" where
  "refreshed once vs reg reg' \<longleftrightarrow>
     (\<forall>y. resolved reg y \<longrightarrow> reg' y = reg y) \<and> (\<forall>y. y \<notin> vb_id ` set vs \<longrightarrow> reg' y = reg y) \<and>
     (\<forall>v\<in>set vs. is_forced v \<and> once (vb_id v) \<noteq> None \<longrightarrow> resolved reg' (vb_id v))"

lemma refresh_refreshed:
  "for_each_selector_mut (\<lambda>v st. map_option (command_filter c) (update_state (vb_kind v) (once (vb_id v)) st)) vs reg
     = Inr reg' \<Longrightarrow> refreshed once vs reg reg'"
proof (induction vs arbitrary: reg)
  case (Cons v vs)
  define f :: "verb \<Rightarrow> selection option \<Rightarrow> selection option" where
    "f = (\<lambda>v st. map_option (command_filter c) (update_state (vb_kind v) (once (vb_id v)) st))"
  from Cons.prems obtain st where st: "reg (vb_id v) = Some st"
    and rest: "for_each_selector_mut f vs (reg(vb_id v \<mapsto> f v st)) = Inr reg'"
    unfolding f_def by (auto split: option.splits simp del: command_filter_id)
  let ?r = "reg(vb_id v \<mapsto> f v st)"
  have f: "f v st = update_state (vb_kind v) (once (vb_id v)) st" by (cases "update_state (vb_kind v) (once (vb_id v)) st") (simp_all add: f_def)
  from Cons.IH [OF rest [unfolded f_def]] have ih: "refreshed once vs ?r reg'" by (simp only: f_def)
  have keep: "resolved reg y \<Longrightarrow> ?r y = reg y" for y
    using st f by (auto simp: resolved_def)
  have forced: "is_forced v \<and> once (vb_id v) \<noteq> None \<longrightarrow> resolved ?r (vb_id v)"
    using update_state_forced f by simp
  show ?case
    unfolding refreshed_def
  proof (intro conjI allI impI ballI)
    fix y assume "resolved reg y"
    then have "resolved ?r y" "?r y = reg y" using keep by (auto simp: resolved_def)
    with ih show "reg' y = reg y" unfolding refreshed_def by metis
  next
    fix y assume "y \<notin> vb_id ` set (v # vs)"
    with ih show "reg' y = reg y" unfolding refreshed_def by simp
  next
    fix u assume "u \<in> set (v # vs)" "is_forced u \<and> once (vb_id u) \<noteq> None"
    then show "resolved reg' (vb_id u)"
      using ih forced unfolding refreshed_def by (cases "u = v") (auto simp: resolved_def)
  qed
qed (simp add: refreshed_def)

lemma state_size_unresolved: "\<not> resolved reg y \<Longrightarrow> state_size reg y = 0"
  by (auto simp: state_size_def resolved_def split: option.splits)

lemma refreshed_unsettled:
  assumes r: "refreshed once vs reg reg'" and ids: "vb_id ` set vs \<subseteq> all_ids pg"
  shows "unsettled pg (reg', once) < unsettled pg (reg, once)
     \<or> (unsettled pg (reg', once) = unsettled pg (reg, once) \<and> (\<forall>y. state_size reg' y = state_size reg y))"
proof (cases "\<exists>y. \<not> resolved reg y \<and> resolved reg' y")
  case True
  then obtain y where y: "\<not> resolved reg y" "resolved reg' y" by blast
  have "y \<in> all_ids pg"
  proof (rule ccontr)
    assume "y \<notin> all_ids pg"
    then have "y \<notin> vb_id ` set vs" using ids by blast
    then have "reg' y = reg y" using r by (simp add: refreshed_def)
    with y show False by (simp add: resolved_def)
  qed
  moreover have "\<forall>y. resolved reg y \<longrightarrow> resolved reg' y" using r by (auto simp: refreshed_def resolved_def)
  ultimately show ?thesis using unsettled_less [of reg reg' once once pg] y by blast
next
  case False
  moreover have "\<forall>y. resolved reg y \<longrightarrow> resolved reg' y" using r by (auto simp: refreshed_def resolved_def)
  ultimately have same: "\<forall>y. resolved reg' y = resolved reg y" by blast
  have "state_size reg' y = state_size reg y" for y
  proof (cases "resolved reg y")
    case True
    with r show ?thesis by (simp add: refreshed_def state_size_def)
  qed (use same state_size_unresolved in metis)
  with unsettled_same [OF same] show ?thesis by blast
qed

lemma min_index_less: "xs \<noteq> [] \<Longrightarrow> min_index xs < length xs"
  by (induction xs rule: min_index.induct) (auto simp: Let_def)

lemma swap_remove_mset: "k < length xs \<Longrightarrow> swap_remove xs k = (x, ys) \<Longrightarrow> mset xs = add_mset x (mset ys)"
proof (cases "Suc k = length xs")
  case True
  assume "k < length xs" and s: "swap_remove xs k = (x, ys)"
  then obtain zs z where xs: "xs = zs @ [z]" by (cases xs rule: rev_cases) auto
  with s True have "x = z" "ys = zs" by (auto simp: swap_remove_def nth_append)
  with xs show ?thesis by simp
next
  case False
  assume k: "k < length xs" and s: "swap_remove xs k = (x, ys)"
  then obtain zs z where xs: "xs = zs @ [z]" by (cases xs rule: rev_cases) auto
  with k False have kz: "k < length zs" by simp
  with s xs False have "x = zs ! k" "ys = zs[k := z]" by (auto simp: swap_remove_def nth_append)
  with xs kz show ?thesis by (simp add: mset_update)
qed

lemma pop_next_mset:
  assumes "pop_next pg reg wl = Inr (Some (i, wl'))"
  shows "mset wl = add_mset i (mset wl')"
proof -
  from assms obtain keys where wl: "wl \<noteq> []"
    and keys: "collect_results (map (\<lambda>i. propagation_priority reg (command_of pg i)) wl) = Inr keys"
    and s: "swap_remove wl (min_index keys) = (i, wl')"
    by (auto simp: pop_next_def rbind_Inr split: if_splits)
  have "length keys = length wl" using keys by (auto simp: collect_results_Inr_iff dest: arg_cong [of _ _ length])
  with wl min_index_less [of keys] have "min_index keys < length wl" by (cases keys) auto
  from swap_remove_mset [OF this s] show ?thesis .
qed

lemma mset_filter_length: "mset xs = add_mset x (mset ys) \<Longrightarrow>
   length (filter P xs) = length (filter P ys) + (if P x then 1 else 0)"
proof -
  assume "mset xs = add_mset x (mset ys)"
  then have "size (filter_mset P (mset xs)) = size (filter_mset P (add_mset x (mset ys)))" by simp
  then show ?thesis by (simp flip: mset_filter)
qed

lemma pop_refresh_lex:
  assumes m: "mset wl = add_mset i (mset wl')" and r: "refreshed once vs reg reg'"
    and ids: "vb_id ` set vs \<subseteq> all_ids pg"
  shows "lex_less (2 * depth pg i + 3) (loop_measure pg wl' (reg', once)) (loop_measure pg wl (reg, once))"
    (is "lex_less ?K ?f ?g")
proof (cases "unsettled pg (reg', once) < unsettled pg (reg, once)")
  case True
  then show ?thesis by (intro lex_less_0) (simp_all add: loop_measure_def)
next
  case False
  with refreshed_unsettled [OF r ids]
  have u: "unsettled pg (reg', once) = unsettled pg (reg, once)" and s: "\<forall>y. state_size reg' y = state_size reg y"
    by auto
  show ?thesis
  proof (rule lex_lessI [of "2 * depth pg i + 2"])
    show "?f (2 * depth pg i + 2) < ?g (2 * depth pg i + 2)"
      by (simp add: loop_measure_def mset_filter_length [OF m])
  next
    fix j assume "j < 2 * depth pg i + 2"
    then show "?f j \<le> ?g j" by (simp add: loop_measure_def mset_filter_length [OF m] u s)
  qed simp
qed


text \<open>A notification: its transition, and the dependents of every statement as before.\<close>

lemma add_warnings_dependents [simp]: "map ss_dependents (add_warnings i ws sts) = map ss_dependents sts"
  by (cases "i < length sts") (auto simp: add_warnings_def list_eq_iff_nth_eq nth_list_update)

lemma notify_parent_transition:
  assumes n: "notify_parent env pg i t (ctx, sts) = Inr (ch, ctx', sts')"
  shows "transition (sel_ids pg t) (forced_id pg t) Parent ch (xc_registry ctx, xc_once ctx) (xc_registry ctx', xc_once ctx')
     \<and> map ss_dependents sts' = map ss_dependents sts"
proof -
  have refl: ?thesis if "ctx' = ctx" "sts' = sts" "\<not> ch" using that by (simp add: transition_refl)
  from n consider "ctx' = ctx" "sts' = sts" "\<not> ch"
    | merged ps ws where "notify_from_selection env (command_of pg t) merged Parent (sn_rel (node_of pg i))
        (sn_unnest (node_of pg t)) ps (Scope (get_instance_ids merged) None) ctx = Inr ((ch, ws), ctx')"
      "sts' = add_warnings t ws sts"
    by (fastforce simp: notify_parent_def Let_def rbind_Inr split: if_splits option.splits)
  then show ?thesis
  proof cases
    case 2
    from 2(1) obtain ids where "notify_all env (command_of pg t) merged Parent (sn_rel (node_of pg i))
        (sn_unnest (node_of pg t)) ps (Scope (get_instance_ids merged) None) (command_selectors (command_of pg t))
        (None, ctx) = Inr ((ch, ws), ids, ctx')"
      by (auto simp: notify_from_selection_def rbind_Inr)
    from notify_all_transition [OF this, of "sel_ids pg t" "forced_id pg t"] 2(2)
    show ?thesis by (simp add: sel_ids_def)
  qed (rule refl)
qed

lemma accept_notification_transition:
  assumes a: "accept_notification env (command_of pg t) nt ps cs ctx = Inr ((ch, ws), ctx')"
    and role: "notifies (nt_role nt)"
  shows "transition (sel_ids pg t) (forced_id pg t) (nt_role nt) ch (xc_registry ctx, xc_once ctx) (xc_registry ctx', xc_once ctx')"
proof -
  from a consider "ctx' = ctx" "\<not> ch"
    | dep where "get_selection (xc_registry ctx) (nt_command nt) = Inr (Some dep)"
      "accept_all env (command_of pg t) nt dep (if nt_role nt = User then Some (get_labels (nt_command nt)) else None)
        ps cs (command_selectors (command_of pg t)) ctx = Inr ((ch, ws), ctx')"
    by (fastforce simp: accept_notification_def rbind_Inr split: if_splits option.splits)
  then show ?thesis
  proof cases
    case 2
    have "\<forall>v\<in>set (command_selectors (command_of pg t)).
        vb_id v \<in> sel_ids pg t \<and> (is_forced v \<longrightarrow> forced_id pg t (vb_id v))"
      by (auto simp: sel_ids_def forced_id_def)
    from accept_all_transition [OF role _ 2(2,1) this] show ?thesis by simp
  qed (simp add: transition_refl)
qed

lemma notify_transition:
  assumes n: "notify env pg i (t, role, l) (ctx, sts) = Inr (ch, ctx', sts')"
  shows "\<exists>ro. (ro = Child \<longrightarrow> role = Child)
     \<and> transition (sel_ids pg t) (forced_id pg t) ro ch (xc_registry ctx, xc_once ctx) (xc_registry ctx', xc_once ctx')
     \<and> map ss_dependents sts' = map ss_dependents sts"
proof (cases "is_pre_seed role \<or> role = Parent")
  case True
  show ?thesis
  proof (cases "is_pre_seed role")
    case True
    with n show ?thesis by (intro exI [of _ Parent]) (simp add: notify_def transition_refl)
  next
    case False
    with True n have "notify_parent env pg i t (ctx, sts) = Inr (ch, ctx', sts')" by (simp add: notify_def)
    from notify_parent_transition [OF this] show ?thesis by (intro exI [of _ Parent]) simp
  qed
next
  case False
  then have role: "notifies role" by (cases role) (auto simp: notifies_def)
  define nt where "nt = \<lparr>nt_command = command_of pg i, nt_weak = ss_weak (sts ! i), nt_role = role,
     nt_rel = (if role = Child then sn_rel (node_of pg t) else sn_rel (node_of pg i)),
     nt_unnest = sn_unnest (node_of pg t)\<rparr>"
  from False n have "rbind (build_parent_scope pg (xc_registry ctx) t) (\<lambda>ps.
      rbind (build_children_scope pg (xc_registry ctx) t) (\<lambda>cs.
      rbind (accept_notification env (command_of pg t) nt ps cs ctx) (\<lambda>((changed, ws), ctx').
      Inr (changed, ctx', add_warnings t ws sts)))) = Inr (ch, ctx', sts')"
    by (simp add: notify_def nt_def Let_def)
  then obtain ps cs ws where
    a: "accept_notification env (command_of pg t) nt ps cs ctx = Inr ((ch, ws), ctx')" "sts' = add_warnings t ws sts"
    by (auto simp: rbind_Inr)
  have "nt_role nt = role" by (simp add: nt_def)
  with accept_notification_transition [OF a(1)] role a(2) show ?thesis by (intro exI [of _ role]) simp
qed

text \<open>What the dependents of a statement are allowed to be.\<close>

definition dependents_ok :: "program \<Rightarrow> nat \<Rightarrow> (nat \<times> dependency_role \<times> string option) list \<Rightarrow> bool" where
  "dependents_ok pg i ds \<longleftrightarrow>
     (\<forall>(t, role, l)\<in>set ds. t < length (pg_nodes pg) \<and> (role = Child \<longrightarrow> sn_parent (node_of pg t) = Some i))"

lemma notify_dependents_lex:
  assumes wf: "program_wf pg" and owned: "forced_owned pg"
  shows "notify_dependents env pg i ds (wl, ctx, sts) = Inr (wl', ctx', sts') \<Longrightarrow> dependents_ok pg i ds \<Longrightarrow>
     set wl \<subseteq> {..<length (pg_nodes pg)} \<Longrightarrow> forced_scheduled pg wl (xc_registry ctx, xc_once ctx) \<Longrightarrow>
     lex_le (2 * depth pg i + 3) (loop_measure pg wl' (xc_registry ctx', xc_once ctx'))
       (loop_measure pg wl (xc_registry ctx, xc_once ctx))
     \<and> set wl' \<subseteq> {..<length (pg_nodes pg)} \<and> forced_scheduled pg wl' (xc_registry ctx', xc_once ctx')
     \<and> map ss_dependents sts' = map ss_dependents sts"
proof (induction ds arbitrary: wl ctx sts)
  case Nil
  then show ?case by (simp add: lex_le_def)
next
  case (Cons d ds)
  obtain t role l where d: "d = (t, role, l)" by (cases d) auto
  from Cons.prems(1) obtain ch ctx1 sts1 where
    n: "notify env pg i (t, role, l) (ctx, sts) = Inr (ch, ctx1, sts1)" and
    rest: "notify_dependents env pg i ds (if ch then schedule t wl else wl, ctx1, sts1) = Inr (wl', ctx', sts')"
    by (auto simp: d rbind_Inr cong: if_cong)
  from Cons.prems(2) have t: "t < length (pg_nodes pg)" and up: "role = Child \<Longrightarrow> sn_parent (node_of pg t) = Some i"
    and ok: "dependents_ok pg i ds"
    by (auto simp: d dependents_ok_def)
  from notify_transition [OF n] obtain ro where ro: "ro = Child \<longrightarrow> role = Child"
    and tr: "transition (sel_ids pg t) (forced_id pg t) ro ch (xc_registry ctx, xc_once ctx) (xc_registry ctx1, xc_once ctx1)"
    and sts: "map ss_dependents sts1 = map ss_dependents sts" by blast
  have child: "ro = Child \<Longrightarrow> depth pg t = Suc (depth pg i)"
    using ro up depth_child [OF wf t] by blast
  let ?wl = "if ch then schedule t wl else wl"
  have le: "lex_le (2 * depth pg i + 3) (loop_measure pg ?wl (xc_registry ctx1, xc_once ctx1))
      (loop_measure pg wl (xc_registry ctx, xc_once ctx))"
    using notification_lex [OF tr t child owned] Cons.prems(4) by blast
  have sched: "forced_scheduled pg ?wl (xc_registry ctx1, xc_once ctx1)"
    by (rule forced_scheduled_step [OF tr t owned Cons.prems(4)])
  have sub: "set ?wl \<subseteq> {..<length (pg_nodes pg)}" using Cons.prems(3) t by (auto simp: schedule_def)
  from Cons.IH [OF rest ok sub sched] lex_le_trans [OF _ le] sts show ?case by auto
qed


text \<open>The state of the loop: entries and dependents are statements, cached forced uses are scheduled.\<close>

definition loop_inv :: "program \<Rightarrow> nat list \<times> exec_ctx \<times> stmt_state list \<Rightarrow> bool" where
  "loop_inv pg = (\<lambda>(wl, ctx, sts).
     set wl \<subseteq> {..<length (pg_nodes pg)} \<and> length sts = length (pg_nodes pg)
     \<and> (\<forall>i<length (pg_nodes pg). dependents_ok pg i (ss_dependents (sts ! i)))
     \<and> forced_scheduled pg wl (xc_registry ctx, xc_once ctx))"

definition state_measure :: "program \<Rightarrow> nat list \<times> exec_ctx \<times> stmt_state list \<Rightarrow> nat \<Rightarrow> nat" where
  "state_measure pg = (\<lambda>(wl, ctx, sts). loop_measure pg wl (xc_registry ctx, xc_once ctx))"

lemma forced_scheduled_pop:
  assumes m: "mset wl = add_mset i (mset wl')"
    and r: "refreshed once (command_selectors (command_of pg i)) reg reg'"
    and s: "forced_scheduled pg wl (reg, once)"
  shows "forced_scheduled pg wl' (reg', once)"
  unfolding forced_scheduled_def prod.case
proof (intro allI impI; elim conjE)
  fix t y assume t: "t < length (pg_nodes pg)" "forced_id pg t y" "\<not> resolved reg' y" "once y \<noteq> None"
  have "resolved reg y \<longrightarrow> resolved reg' y" using r by (simp add: refreshed_def resolved_def)
  with s t have "t \<in> set wl" unfolding forced_scheduled_def prod.case by blast
  moreover have "t \<noteq> i"
  proof
    assume "t = i"
    with t(2) obtain v where "v \<in> set (command_selectors (command_of pg i))" "vb_id v = y" "is_forced v"
      by (auto simp: forced_id_def)
    with r t(3,4) show False unfolding refreshed_def by blast
  qed
  moreover have "set wl = insert i (set wl')" using m by (metis set_mset_mset set_mset_add_mset_insert)
  ultimately show "t \<in> set wl'" by blast
qed

lemma round_decreases:
  assumes wf: "program_wf pg" and owned: "forced_owned pg" and inv: "loop_inv pg (wl, ctx, sts)"
    and pop: "pop_next pg (xc_registry ctx) wl = Inr (Some (i, wl'))"
    and p: "process_statement env pg i (wl', ctx, sts) = Inr s'"
  shows "loop_inv pg s' \<and> lex_less (2 * length (pg_nodes pg) + 1) (state_measure pg s') (state_measure pg (wl, ctx, sts))"
proof -
  let ?n = "length (pg_nodes pg)"
  have m: "mset wl = add_mset i (mset wl')" by (rule pop_next_mset [OF pop])
  then have set_wl: "set wl = insert i (set wl')" by (metis set_mset_mset set_mset_add_mset_insert)
  from inv have i: "i < ?n" and sub: "set wl' \<subseteq> {..<?n}" and sched: "forced_scheduled pg wl (xc_registry ctx, xc_once ctx)"
    and deps: "\<forall>i<?n. dependents_ok pg i (ss_dependents (sts ! i))" and len: "length sts = ?n"
    unfolding loop_inv_def prod.case set_wl by auto
  from p obtain ctx1 b where ref: "refresh_selectors (command_of pg i) ctx = Inr ctx1"
    and cases: "(\<not> b \<and> s' = (wl', ctx1, sts)) \<or>
      (b \<and> notify_dependents env pg i (ss_dependents (sts ! i)) (wl', ctx1, sts) = Inr s')"
    by (auto simp: process_statement_def rbind_Inr split: if_splits)
  from ref obtain reg where reg: "for_each_selector_mut (\<lambda>v st.
        map_option (command_filter (command_of pg i)) (update_state (vb_kind v) (xc_once ctx (vb_id v)) st))
      (command_selectors (command_of pg i)) (xc_registry ctx) = Inr reg" and ctx1: "ctx1 = ctx\<lparr>xc_registry := reg\<rparr>"
    unfolding refresh_selectors_def rbind_Inr by blast
  have r: "refreshed (xc_once ctx) (command_selectors (command_of pg i)) (xc_registry ctx) reg"
    by (rule refresh_refreshed [OF reg])
  have "vb_id ` set (command_selectors (command_of pg i)) \<subseteq> all_ids pg"
    using sel_ids_all [OF i] by (simp add: sel_ids_def)
  from pop_refresh_lex [OF m r this]
  have less: "lex_less (2 * depth pg i + 3) (loop_measure pg wl' (xc_registry ctx1, xc_once ctx1))
      (loop_measure pg wl (xc_registry ctx, xc_once ctx))" by (simp add: ctx1)
  have sched1: "forced_scheduled pg wl' (xc_registry ctx1, xc_once ctx1)"
    using forced_scheduled_pop [OF m r sched] by (simp add: ctx1)
  have K: "2 * depth pg i + 3 \<le> 2 * ?n + 1" using depth_le [of pg i] i by linarith
  from cases show ?thesis
  proof (elim disjE conjE)
    assume "s' = (wl', ctx1, sts)"
    then show ?thesis
      using sub len deps sched1 lex_less_mono [OF less K] by (simp add: loop_inv_def state_measure_def)
  next
    assume n: "notify_dependents env pg i (ss_dependents (sts ! i)) (wl', ctx1, sts) = Inr s'"
    obtain wl2 ctx2 sts2 where s': "s' = (wl2, ctx2, sts2)" by (cases s')
    from notify_dependents_lex [OF wf owned n [unfolded s'] deps [rule_format, OF i] sub sched1]
    have le: "lex_le (2 * depth pg i + 3) (loop_measure pg wl2 (xc_registry ctx2, xc_once ctx2))
        (loop_measure pg wl' (xc_registry ctx1, xc_once ctx1))"
      and sub2: "set wl2 \<subseteq> {..<?n}" and sched2: "forced_scheduled pg wl2 (xc_registry ctx2, xc_once ctx2)"
      and same: "map ss_dependents sts2 = map ss_dependents sts" by auto
    have len2: "length sts2 = ?n" using same len by (metis length_map)
    have deps2: "\<forall>i<?n. dependents_ok pg i (ss_dependents (sts2 ! i))"
      using deps same len len2 by (metis nth_map)
    from lex_le_less_trans [OF le less] have "lex_less (2 * ?n + 1) (loop_measure pg wl2 (xc_registry ctx2, xc_once ctx2))
        (loop_measure pg wl (xc_registry ctx, xc_once ctx))" by (rule lex_less_mono [OF _ K])
    with sub2 sched2 len2 deps2 show ?thesis unfolding s' loop_inv_def state_measure_def prod.case by blast
  qed
qed

lemma worklist_loop_returns:
  assumes wf: "program_wf pg" and owned: "forced_owned pg"
  shows "loop_inv pg s \<Longrightarrow> worklist_loop env pg s \<noteq> None"
proof (induction s rule: wf_induct [OF wf_inv_image [OF wf_lex_less [of "2 * length (pg_nodes pg) + 1"], of "state_measure pg"]])
  case (1 s)
  obtain wl ctx sts where s: "s = (wl, ctx, sts)" by (cases s)
  show ?case
  proof (cases "pop_next pg (xc_registry ctx) wl")
    case (Inl e)
    then show ?thesis by (subst worklist_loop.simps) (simp add: s)
  next
    case (Inr o1)
    show ?thesis
    proof (cases o1)
      case None
      with Inr show ?thesis by (subst worklist_loop.simps) (simp add: s)
    next
      case (Some a)
      obtain i wl' where a: "a = (i, wl')" by (cases a)
      note pop = Inr [unfolded Some a]
      show ?thesis
      proof (cases "process_statement env pg i (wl', ctx, sts)")
        case (Inl e)
        then show ?thesis using pop by (subst worklist_loop.simps) (simp add: s)
      next
        case (Inr s')
        from round_decreases [OF wf owned 1(2) [unfolded s] pop Inr] s
        have inv: "loop_inv pg s'" and less: "(s', s) \<in> inv_image {(f, g). lex_less (2 * length (pg_nodes pg) + 1) f g} (state_measure pg)"
          by auto
        from 1(1) less inv have "worklist_loop env pg s' \<noteq> None" by blast
        then show ?thesis using pop Inr by (subst worklist_loop.simps) (simp add: s)
      qed
    qed
  qed
qed

end
