(* ===== verification/Propagation.thy ===== *)
theory Propagation
  imports Worklist
begin

text \<open>
  The query's execution as a whole: what the dependency graph links, which caches the first
  computation fills, and that the propagation always ends.  Also the least fixpoint of weak
  statements and the panics of \<open>build_dependency_graph\<close> and of the label resolution.
\<close>

subsection \<open>The edges of the dependency graph\<close>

definition edges_ok :: "program \<Rightarrow> stmt_state list \<Rightarrow> bool" where
  "edges_ok pg sts \<longleftrightarrow> length sts = length (pg_nodes pg)
     \<and> (\<forall>i<length (pg_nodes pg). dependents_ok pg i (ss_dependents (sts ! i)))"

lemma edges_ok_cong:
  assumes "map ss_dependents sts' = map ss_dependents sts" and "edges_ok pg sts"
  shows "edges_ok pg sts'"
proof -
  have "length sts' = length sts" using assms(1) by (metis length_map)
  moreover have "ss_dependents (sts' ! i) = ss_dependents (sts ! i)" if "i < length sts" for i
    using assms(1) that calculation by (metis nth_map)
  ultimately show ?thesis using assms(2) by (simp add: edges_ok_def)
qed

lemma edges_ok_dependency: "edges_ok pg sts \<Longrightarrow> edges_ok pg (add_dependency i d sts)"
proof (rule edges_ok_cong)
  show "map ss_dependents (add_dependency i d sts) = map ss_dependents sts"
    by (cases "i < length sts") (auto simp: add_dependency_def list_eq_iff_nth_eq nth_list_update)
qed

lemma edges_ok_dependent:
  "edges_ok pg sts \<Longrightarrow> t < length (pg_nodes pg) \<Longrightarrow> (role = Child \<longrightarrow> sn_parent (node_of pg t) = Some i) \<Longrightarrow>
     edges_ok pg (add_dependent i (t, role, l) sts)"
proof -
  assume ok: "edges_ok pg sts" and t: "t < length (pg_nodes pg)" "role = Child \<longrightarrow> sn_parent (node_of pg t) = Some i"
  have "dependents_ok pg j (ss_dependents (add_dependent i (t, role, l) sts ! j))" if "j < length (pg_nodes pg)" for j
    using ok t that by (cases "j = i") (auto simp: edges_ok_def add_dependent_def dependents_ok_def)
  with ok show ?thesis by (simp add: edges_ok_def add_dependent_def)
qed

lemma link_child_ok:
  "edges_ok pg sts \<Longrightarrow> c < length (pg_nodes pg) \<Longrightarrow> sn_parent (node_of pg c) = Some i \<Longrightarrow> edges_ok pg (link_child pg i c sts)"
  by (simp add: link_child_def edges_ok_dependency edges_ok_dependent)

lemma link_user_ok:
  "edges_ok pg sts \<Longrightarrow> i < length (pg_nodes pg) \<Longrightarrow> link_user i v label ls sts = Inr sts' \<Longrightarrow> edges_ok pg sts'"
proof (induction ls arbitrary: sts)
  case (Cons l ls)
  from Cons.prems(3) have rest: "link_user i v label ls (add_dependency i
      (l, User, selector_dependency_kind (vb_kind v) User) (add_dependent l (i, User, Some label) sts)) = Inr sts'"
    by (simp split: if_splits)
  from Cons.IH [OF _ Cons.prems(2) rest] Cons.prems(1,2) show ?case
    by (simp add: edges_ok_dependency edges_ok_dependent)
qed simp

lemma link_users_ok:
  "edges_ok pg sts \<Longrightarrow> i < length (pg_nodes pg) \<Longrightarrow> link_users labeled i vs sts = Inr sts' \<Longrightarrow> edges_ok pg sts'"
  by (induction vs arbitrary: sts) (auto split: option.splits simp: rbind_Inr intro: link_user_ok)

lemma link_seed_ok:
  "edges_ok pg sts \<Longrightarrow> i < length (pg_nodes pg) \<Longrightarrow> link_seed i label ls sts = Inr sts' \<Longrightarrow> edges_ok pg sts'"
proof (induction ls arbitrary: sts)
  case (Cons l ls)
  show ?case
  proof (cases "list_ex (\<lambda>(d, role, k). role = PreSeedLabel label \<and> d = l) (ss_dependencies (sts ! i))")
    case True
    with Cons show ?thesis by simp
  next
    case False
    with Cons.prems(3) have "l \<noteq> i" and rest: "link_seed i label ls
        (add_dependency i (l, PreSeedLabel label, Necessary) (add_dependent l (i, PreSeedLabel label, None) sts)) = Inr sts'"
      by (auto split: if_splits)
    from Cons.IH [OF _ Cons.prems(2) rest] Cons.prems(1,2) show ?thesis
      by (simp add: edges_ok_dependency edges_ok_dependent)
  qed
qed simp

lemma link_seeds_ok:
  "edges_ok pg sts \<Longrightarrow> i < length (pg_nodes pg) \<Longrightarrow> link_seeds labeled i labels sts = Inr sts' \<Longrightarrow> edges_ok pg sts'"
  by (induction labels arbitrary: sts) (auto split: option.splits simp: rbind_Inr intro: link_seed_ok)

lemma link_children_ok:
  "edges_ok pg sts \<Longrightarrow> \<forall>c\<in>set cs. c < length (pg_nodes pg) \<and> sn_parent (node_of pg c) = Some i \<Longrightarrow>
     edges_ok pg (foldl (\<lambda>sts ch. link_child pg i ch sts) sts cs)"
  by (induction cs arbitrary: sts) (auto intro: link_child_ok)

lemma link_parent_ok:
  assumes "program_wf pg" "i < length (pg_nodes pg)" "edges_ok pg sts"
  shows "edges_ok pg (link_parent pg i sts)"
proof (cases "sn_parent (node_of pg i)")
  case (Some p)
  from assms(1,2) have "case sn_parent (node_of pg i) of None \<Rightarrow> i \<in> set (pg_top pg)
      | Some p \<Rightarrow> p < i \<and> i \<in> set (sn_children (node_of pg p))"
    unfolding program_wf_def by blast
  with Some assms(2,3) show ?thesis by (simp add: link_parent_def edges_ok_dependent)
qed (use assms in \<open>simp add: link_parent_def\<close>)

lemma link_all_ok:
  assumes wf: "program_wf pg"
  shows "edges_ok pg sts \<Longrightarrow> \<forall>i\<in>set is. i < length (pg_nodes pg) \<Longrightarrow> link_all pg ops labeled is sts = Inr sts' \<Longrightarrow>
     edges_ok pg sts'"
proof (induction "is" arbitrary: sts)
  case (Cons i "is")
  from Cons.prems(3) obtain sts1 where one: "link_statement pg ops labeled i sts = Inr sts1"
    and rest: "link_all pg ops labeled is sts1 = Inr sts'" by (auto simp: rbind_Inr)
  have i: "i < length (pg_nodes pg)" using Cons.prems(2) by simp
  have kids: "\<forall>c\<in>set (sn_children (node_of pg i)). c < length (pg_nodes pg) \<and> sn_parent (node_of pg c) = Some i"
    using wf i unfolding program_wf_def by blast
  let ?s = "foldl (\<lambda>sts ch. link_child pg i ch sts) (link_parent pg i sts) (sn_children (node_of pg i))"
  have ok: "edges_ok pg ?s" by (rule link_children_ok [OF link_parent_ok [OF wf i Cons.prems(1)] kids])
  from one obtain sts2 where "link_users labeled i (command_selectors (command_of pg i)) ?s = Inr sts2"
    "link_seeds labeled i (layer_label_refs ops (command_of pg i)) sts2 = Inr sts1"
    by (auto simp: link_statement_def Let_def rbind_Inr)
  with link_users_ok [OF ok i] link_seeds_ok [OF _ i] have "edges_ok pg sts1" by blast
  with Cons.IH rest Cons.prems(2) show ?case by simp
qed simp

lemma link_siblings_ok:
  "edges_ok pg sts \<Longrightarrow> \<forall>j\<in>set js. j < length (pg_nodes pg) \<Longrightarrow> edges_ok pg (link_siblings pg lc js sts)"
proof (induction js arbitrary: lc sts)
  case (Cons j js)
  have "edges_ok pg (case lc of None \<Rightarrow> sts
      | Some i \<Rightarrow> add_dependency j (i, PreSeedSibling, Sufficient) (add_dependent i (j, PreSeedSibling, None) sts))"
    using Cons.prems by (auto split: option.splits simp: edges_ok_dependency edges_ok_dependent)
  from Cons.IH [OF this] Cons.prems(2) show ?case by simp
qed simp

lemma stmt_states_ok: "edges_ok pg (replicate (length (pg_nodes pg)) stmt_state_new)"
  by (simp add: edges_ok_def dependents_ok_def stmt_state_new_def)

lemma build_dependency_graph_ok:
  assumes wf: "program_wf pg" and ok: "edges_ok pg sts" and b: "build_dependency_graph pg ops sts = Inr sts'"
  shows "edges_ok pg sts'"
proof -
  from b obtain sts1 where l: "link_all pg ops (remember_all pg) [0..<length (pg_nodes pg)] sts = Inr sts1"
    and s: "sts' = link_siblings pg None (pg_top pg) sts1"
    by (auto simp: build_dependency_graph_def rbind_Inr)
  from link_all_ok [OF wf ok _ l] have "edges_ok pg sts1" by simp
  moreover have "\<forall>t\<in>set (pg_top pg). t < length (pg_nodes pg)" using wf unfolding program_wf_def by blast
  ultimately show ?thesis unfolding s by (rule link_siblings_ok)
qed

lemma mark_weak_length: "length (mark_weak pg weak) = length weak"
proof (induction pg weak rule: mark_weak.induct)
  case (1 pg weak)
  have "length (weak_pass pg weak) = length weak"
    using weak_fold_le by (auto simp: weak_pass_def weak_le_def)
  with 1 show ?case by (subst mark_weak.simps) (simp add: Let_def)
qed

lemma mark_weak_statements_ok: "edges_ok pg sts \<Longrightarrow> edges_ok pg (mark_weak_statements pg sts)"
proof (rule edges_ok_cong)
  show "map ss_dependents (mark_weak_statements pg sts) = map ss_dependents sts"
    by (rule nth_equalityI) (simp_all add: mark_weak_statements_def mark_weak_length)
qed

subsection \<open>The caches that the first computation fills\<close>

text \<open>Only a forced name fills its cache when it computes.\<close>

definition forced_name :: "command \<Rightarrow> nat \<Rightarrow> bool" where
  "forced_name c y \<longleftrightarrow> (\<exists>v\<in>set (command_selectors c). vb_id v = y \<and> (\<exists>p. vb_kind v = VForced p))"

lemma select_from_all_caches:
  "select_from_all env k f ps cs eph = Inr (sel, Some s) \<Longrightarrow> \<exists>p. k = VForced p"
  by (cases k) (auto simp: find_all_def rbind_Inr split: if_splits)

lemma compute_selector_caches:
  "compute_selector env c csp ls ps cs eph v = Inr (r, Some s) \<Longrightarrow> \<exists>p. vb_kind v = VForced p"
  by (auto simp: compute_selector_def rbind_Inr lift_query_def split: if_splits dest: select_from_all_caches)

lemma compute_selectors_caches:
  "compute_selectors env c csp ls ps cs eph vs r = Inr r' \<Longrightarrow> set vs \<subseteq> set (command_selectors c) \<Longrightarrow>
     \<forall>(y, s)\<in>set (cr_once r). forced_name c y \<Longrightarrow> \<forall>(y, s)\<in>set (cr_once r'). forced_name c y"
proof (induction vs arbitrary: r)
  case (Cons v vs)
  from Cons.prems(1) obtain sel ws cached where
    one: "compute_selector env c csp ls ps cs eph v = Inr ((sel, ws), cached)" and
    rest: "compute_selectors env c csp ls ps cs eph vs
       (r\<lparr>cr_selections := cr_selections r @ [(vb_id v, sel)], cr_warnings := cr_warnings r @ ws,
          cr_once := cr_once r @ (case cached of None \<Rightarrow> [] | Some s \<Rightarrow> [(vb_id v, s)])\<rparr>) = Inr r'"
    by (auto simp: rbind_Inr)
  have "\<forall>(y, s)\<in>set (case cached of None \<Rightarrow> [] | Some s \<Rightarrow> [(vb_id v, s)]). forced_name c y"
    using one Cons.prems(2) compute_selector_caches by (fastforce simp: forced_name_def split: option.splits)
  with Cons.IH [OF rest] Cons.prems(2,3) show ?case by auto
qed simp

lemma compute_selected_caches:
  assumes "compute_selected api c ps cs eph labels w = (Inr r, w')"
  shows "\<forall>(y, s)\<in>set (cr_once r). forced_name c y"
proof (cases "command_selectors c = []")
  case True
  with assms show ?thesis by (auto simp: compute_selected_def)
next
  case False
  with assms obtain csp acts eph' ws where
    "compute_selectors (wd_env api w') c csp (map la_layer_id acts) ps cs eph' (command_selectors c)
       \<lparr>cr_selections = [], cr_warnings = ws, cr_activations = acts, cr_once = []\<rparr> = Inr r"
    by (auto simp: compute_selected_def sbind_Inr Let_def split: sum.splits)
  from compute_selectors_caches [OF this] show ?thesis by simp
qed

definition caches_ok :: "program \<Rightarrow> exec_ctx \<Rightarrow> bool" where
  "caches_ok pg ctx \<longleftrightarrow> (\<forall>y. xc_once ctx y \<noteq> None \<longrightarrow> (\<exists>i<length (pg_nodes pg). forced_name (command_of pg i) y))"

lemma once_fold:
  "foldl (\<lambda>once (i, s). once_set i s once) once0 xs y \<noteq> None \<Longrightarrow> once0 y \<noteq> None \<or> y \<in> fst ` set xs"
  by (induction xs arbitrary: once0) (force simp: once_set_def split: option.splits if_splits)+

lemma compute_apply_caches:
  assumes a: "compute_apply r ctx = Inr ctx'" and ok: "caches_ok pg ctx"
    and r: "\<forall>(y, s)\<in>set (cr_once r). \<exists>i<length (pg_nodes pg). forced_name (command_of pg i) y"
  shows "caches_ok pg ctx'"
  unfolding caches_ok_def
proof (intro allI impI)
  fix y assume "xc_once ctx' y \<noteq> None"
  moreover have "xc_once ctx' = foldl (\<lambda>once (i, s). once_set i s once) (xc_once ctx) (cr_once r)"
    using a by (auto simp: compute_apply_def Let_def split: if_splits option.splits)
  ultimately have "xc_once ctx y \<noteq> None \<or> y \<in> fst ` set (cr_once r)" using once_fold by metis
  then show "\<exists>i<length (pg_nodes pg). forced_name (command_of pg i) y"
    using ok r by (fastforce simp: caches_ok_def)
qed

lemma apply_all_ok:
  "apply_all rs (ctx, sts) = Inr (ctx', sts') \<Longrightarrow> caches_ok pg ctx \<Longrightarrow>
     \<forall>(i, r)\<in>set rs. \<forall>(y, s)\<in>set (cr_once r). \<exists>i<length (pg_nodes pg). forced_name (command_of pg i) y \<Longrightarrow>
     caches_ok pg ctx' \<and> map ss_dependents sts' = map ss_dependents sts"
proof (induction rs arbitrary: ctx sts)
  case (Cons x rs)
  obtain i r where x: "x = (i, r)" by (cases x)
  from Cons.prems(1) obtain ctx1 where a: "compute_apply r ctx = Inr ctx1"
    and rest: "apply_all rs (ctx1, add_warnings i (cr_warnings r) sts) = Inr (ctx', sts')"
    by (auto simp: x rbind_Inr)
  have "caches_ok pg ctx1" using compute_apply_caches [OF a Cons.prems(2)] Cons.prems(3) by (auto simp: x)
  with Cons.IH [OF rest] Cons.prems(3) show ?case by simp
qed simp

lemma case_sum_Inr:
  assumes "(case r of Inl e \<Rightarrow> (Inl e, w) | Inr p \<Rightarrow> f p) = (Inr x, w')"
  obtains p where "r = Inr p" "f p = (Inr x, w')"
  using assms by (cases r) auto

lemma drain_pending_ok:
  assumes d: "drain_pending api pg pending (ctx, sts) w = (Inr (ctx', sts'), w')"
    and ok: "caches_ok pg ctx" and p: "\<forall>p\<in>set pending. pd_statement p < length (pg_nodes pg)"
  shows "caches_ok pg ctx' \<and> map ss_dependents sts' = map ss_dependents sts"
proof -
  define f :: "pending_compute \<Rightarrow> _" where "f = (\<lambda>p. compute_selected api (command_of pg (pd_statement p))
       (pd_parent_scope p) (pd_children_scope p) (pd_eph p) (pd_resolved p))"
  obtain results w1 where run: "run_roots f pending w = (results, w1)" by fastforce
  from d obtain crs where c: "collect_results results = Inr crs"
    and a: "apply_all (zip (map pd_statement pending) crs) (ctx, sts) = Inr (ctx', sts')"
    by (auto simp: drain_pending_def run [unfolded f_def] rbind_Inr)
  have res: "results = map Inr crs" using c by (simp add: collect_results_Inr_iff)
  note rr = run_roots_results [OF run]
  have "\<forall>(i, r)\<in>set (zip (map pd_statement pending) crs). \<forall>(y, s)\<in>set (cr_once r).
      \<exists>i<length (pg_nodes pg). forced_name (command_of pg i) y"
  proof (clarify)
    fix i r y s assume z: "(i, r) \<in> set (zip (map pd_statement pending) crs)" and y: "(y, s) \<in> set (cr_once r)"
    from z obtain k where k: "k < length pending" "k < length crs" "r = crs ! k" by (auto simp: set_zip)
    from rr k(1) obtain t t' where "f (pending ! k) t = (results ! k, t')" by blast
    with k res have "f (pending ! k) t = (Inr r, t')" by simp
    from compute_selected_caches [OF this [unfolded f_def]] y p k(1)
    show "\<exists>i<length (pg_nodes pg). forced_name (command_of pg i) y" by (auto dest!: nth_mem)
  qed
  from apply_all_ok [OF a ok this] show ?thesis .
qed

lemma compute_roots_ok:
  "compute_roots api pg is pending (ctx, sts) w = (Inr (ctx', sts'), w') \<Longrightarrow> caches_ok pg ctx \<Longrightarrow>
     \<forall>i\<in>set is. i < length (pg_nodes pg) \<Longrightarrow> \<forall>p\<in>set pending. pd_statement p < length (pg_nodes pg) \<Longrightarrow>
     caches_ok pg ctx' \<and> map ss_dependents sts' = map ss_dependents sts"
proof (induction "is" arbitrary: pending ctx sts w)
  case Nil
  then show ?case by (auto split: if_splits dest: drain_pending_ok)
next
  case (Cons i "is")
  define deps where "deps = pre_seed_deps (sts ! i)"
  define drain where "drain = (if deps \<noteq> [] \<and> pending \<noteq> [] then drain_pending api pg pending (ctx, sts) else sreturn (ctx, sts))"
  define pending1 where "pending1 = (if deps \<noteq> [] then [] else pending)"
  from Cons.prems(1) obtain ctx1 sts1 w1 where
    first: "drain w = (Inr (ctx1, sts1), w1)" and
    second: "(case rbind (resolve_labels pg (xc_registry ctx1) deps []) (\<lambda>resolved.
             rbind (build_parent_scope pg (xc_registry ctx1) i) (\<lambda>ps.
             rbind (build_children_scope pg (xc_registry ctx1) i) (\<lambda>chs.
             Inr \<lparr>pd_statement = i, pd_parent_scope = ps, pd_children_scope = chs,
                  pd_eph = xc_eph ctx1, pd_resolved = resolved\<rparr>))) of
          Inl e \<Rightarrow> (Inl e, w1)
        | Inr p \<Rightarrow> compute_roots api pg is (pending1 @ [p]) (ctx1, sts1) w1) = (Inr (ctx', sts'), w')"
    unfolding compute_roots.simps Let_def snd_conv deps_def [symmetric] drain_def [symmetric] pending1_def [symmetric] sbind_Inr
    by (elim exE conjE; case_tac a; simp only: prod.case)
  from second obtain p where
    queued: "rbind (resolve_labels pg (xc_registry ctx1) deps []) (\<lambda>resolved.
             rbind (build_parent_scope pg (xc_registry ctx1) i) (\<lambda>ps.
             rbind (build_children_scope pg (xc_registry ctx1) i) (\<lambda>chs.
             Inr \<lparr>pd_statement = i, pd_parent_scope = ps, pd_children_scope = chs,
                  pd_eph = xc_eph ctx1, pd_resolved = resolved\<rparr>))) = Inr p" and
    more: "compute_roots api pg is (pending1 @ [p]) (ctx1, sts1) w1 = (Inr (ctx', sts'), w')"
    by (elim case_sum_Inr) auto
  from queued have p: "pd_statement p = i" by (auto simp: rbind_Inr)
  have one: "caches_ok pg ctx1 \<and> map ss_dependents sts1 = map ss_dependents sts"
    using first Cons.prems(2,4) drain_pending_ok [of api pg pending ctx sts w ctx1 sts1 w1]
    by (auto simp: drain_def sreturn_Inr split: if_splits)
  from Cons.IH [OF more] one Cons.prems(3,4) p show ?case by (auto simp: pending1_def)
qed

lemma seed_worklist_set:
  "seed_worklist pg reg is wl = Inr wl' \<Longrightarrow> set wl' \<subseteq> set wl \<union> set is"
  by (induction "is" arbitrary: wl) (fastforce simp: rbind_Inr schedule_def split: if_splits)+


subsection \<open>The weak statements\<close>

text \<open>The least set closed under the rule of \<open>weak_step\<close>.\<close>

inductive weak :: "program \<Rightarrow> nat \<Rightarrow> bool" for pg where
  top: "i < length (pg_nodes pg) \<Longrightarrow> is_non_constraining (command_of pg i) \<Longrightarrow> sn_parent (node_of pg i) = None \<Longrightarrow> weak pg i"
| below: "i < length (pg_nodes pg) \<Longrightarrow> is_non_constraining (command_of pg i) \<Longrightarrow> sn_parent (node_of pg i) = Some p \<Longrightarrow>
    weak pg p \<Longrightarrow> weak pg i"
| above: "i < length (pg_nodes pg) \<Longrightarrow> is_non_constraining (command_of pg i) \<Longrightarrow>
    (\<forall>c\<in>set (sn_children (node_of pg i)). weak pg c) \<Longrightarrow> weak pg i"

lemma weak_step_sound:
  assumes wf: "program_wf pg" and len: "length ws = length (pg_nodes pg)" and i: "i < length (pg_nodes pg)"
    and sound: "\<forall>j<length ws. ws ! j \<longrightarrow> weak pg j"
  shows "length (weak_step pg ws i) = length ws \<and> (\<forall>j<length ws. weak_step pg ws i ! j \<longrightarrow> weak pg j)"
proof -
  have kids: "\<forall>c\<in>set (sn_children (node_of pg i)). c < length (pg_nodes pg)" using wf i unfolding program_wf_def by blast
  have par: "sn_parent (node_of pg i) = Some p \<Longrightarrow> p < length (pg_nodes pg)" for p
  proof -
    assume p: "sn_parent (node_of pg i) = Some p"
    from wf i have "case sn_parent (node_of pg i) of None \<Rightarrow> i \<in> set (pg_top pg)
        | Some p \<Rightarrow> p < i \<and> i \<in> set (sn_children (node_of pg p))" unfolding program_wf_def by blast
    with p i show ?thesis by simp
  qed
  have new: "weak pg i" if "weak_step pg ws i ! i" "\<not> ws ! i"
  proof -
    from that have nc: "is_non_constraining (command_of pg i)" and
      why: "(case sn_parent (node_of pg i) of Some p \<Rightarrow> ws ! p | None \<Rightarrow> True)
        \<or> list_all (\<lambda>c. ws ! c) (sn_children (node_of pg i))"
      by (auto simp: weak_step_def Let_def split: if_splits)
    show ?thesis
    proof (cases "list_all (\<lambda>c. ws ! c) (sn_children (node_of pg i))")
      case True
      with kids sound len have "\<forall>c\<in>set (sn_children (node_of pg i)). weak pg c" by (auto simp: list_all_iff)
      then show ?thesis by (rule weak.above [OF i nc])
    next
      case False
      with why have up: "case sn_parent (node_of pg i) of Some p \<Rightarrow> ws ! p | None \<Rightarrow> True" by simp
      show ?thesis
      proof (cases "sn_parent (node_of pg i)")
        case None then show ?thesis by (rule weak.top [OF i nc])
      next
        case (Some p)
        with up sound len par have "weak pg p" by simp
        then show ?thesis by (rule weak.below [OF i nc Some])
      qed
    qed
  qed
  have other: "j \<noteq> i \<Longrightarrow> weak_step pg ws i ! j = ws ! j" for j by (simp add: weak_step_def Let_def)
  have "length (weak_step pg ws i) = length ws" by (simp add: weak_step_def Let_def)
  then show ?thesis using sound new other by metis
qed

lemma weak_fold_sound:
  assumes wf: "program_wf pg"
  shows "length ws = length (pg_nodes pg) \<Longrightarrow> \<forall>i\<in>set is. i < length (pg_nodes pg) \<Longrightarrow> \<forall>j<length ws. ws ! j \<longrightarrow> weak pg j \<Longrightarrow>
     length (foldl (weak_step pg) ws is) = length ws \<and> (\<forall>j<length ws. foldl (weak_step pg) ws is ! j \<longrightarrow> weak pg j)"
proof (induction "is" arbitrary: ws)
  case (Cons i "is")
  from weak_step_sound [OF wf Cons.prems(1) _ Cons.prems(3), of i] Cons.prems(2)
  have s: "length (weak_step pg ws i) = length ws" "\<forall>j<length ws. weak_step pg ws i ! j \<longrightarrow> weak pg j" by auto
  with Cons.IH [of "weak_step pg ws i"] Cons.prems show ?case by simp
qed simp

lemma mark_weak_sound:
  "program_wf pg \<Longrightarrow> length ws = length (pg_nodes pg) \<Longrightarrow> \<forall>j<length ws. ws ! j \<longrightarrow> weak pg j \<Longrightarrow>
     \<forall>j<length ws. mark_weak pg ws ! j \<longrightarrow> weak pg j"
proof (induction pg ws rule: mark_weak.induct)
  case (1 pg ws)
  from weak_fold_sound [OF "1.prems"(1,2) _ "1.prems"(3), of "[0..<length (pg_nodes pg)]"]
  have s: "length (weak_pass pg ws) = length ws" "\<forall>j<length ws. weak_pass pg ws ! j \<longrightarrow> weak pg j"
    by (auto simp: weak_pass_def)
  show ?case
  proof (cases "weak_pass pg ws = ws")
    case True
    with "1.prems"(3) show ?thesis by (subst mark_weak.simps) simp
  next
    case False
    from "1.IH" [OF refl False "1.prems"(1)] s "1.prems"(2) False show ?thesis
      by (subst mark_weak.simps) simp
  qed
qed

lemma weak_le_antisym: "weak_le a b \<Longrightarrow> weak_le b a \<Longrightarrow> a = b"
  unfolding weak_le_def by (intro nth_equalityI) auto

lemma weak_fold_fixed: "foldl (weak_step pg) ws is = ws \<Longrightarrow> i \<in> set is \<Longrightarrow> weak_step pg ws i = ws"
proof (induction "is")
  case (Cons j "is")
  have "weak_le (weak_step pg ws j) ws" using weak_fold_le [of "weak_step pg ws j" pg "is"] Cons.prems(1) by simp
  with weak_step_le [of ws pg j] have "weak_step pg ws j = ws" using weak_le_antisym by blast
  with Cons show ?case by auto
qed simp

lemma mark_weak_fixed: "weak_pass pg (mark_weak pg ws) = mark_weak pg ws"
  by (induction pg ws rule: mark_weak.induct) (subst (1 2) mark_weak.simps, simp add: Let_def)

lemma mark_weak_complete:
  assumes len: "length ws = length (pg_nodes pg)" and w: "weak pg i"
  shows "mark_weak pg ws ! i"
  using w
proof induction
  have fixed: "weak_step pg (mark_weak pg ws) i = mark_weak pg ws" if "i < length (pg_nodes pg)" for i
    using weak_fold_fixed [OF mark_weak_fixed [unfolded weak_pass_def]] that by simp
  have closed: "mark_weak pg ws ! i" if "i < length (pg_nodes pg)" "is_non_constraining (command_of pg i)"
    "(case sn_parent (node_of pg i) of Some p \<Rightarrow> mark_weak pg ws ! p | None \<Rightarrow> True)
      \<or> list_all (\<lambda>c. mark_weak pg ws ! c) (sn_children (node_of pg i))" for i
  proof (rule ccontr)
    assume not: "\<not> ?thesis"
    with that have "weak_step pg (mark_weak pg ws) i = (mark_weak pg ws)[i := True]" by (simp add: weak_step_def)
    with fixed [OF that(1)] have "mark_weak pg ws ! i = (mark_weak pg ws)[i := True] ! i" by simp
    with not that(1) len show False by (simp add: mark_weak_length)
  qed
  { case (top i) then show ?case by (intro closed) simp_all }
  { case (below i p) then show ?case by (intro closed) simp_all }
  { case (above i) then show ?case by (intro closed) (simp_all add: list_all_iff) }
qed

text \<open>A statement \<open>a\<close> encloses \<open>d\<close> when it is \<open>d\<close> or an ancestor of it.\<close>

inductive encloses :: "program \<Rightarrow> nat \<Rightarrow> nat \<Rightarrow> bool" for pg where
  self: "i < length (pg_nodes pg) \<Longrightarrow> encloses pg i i"
| up: "encloses pg a p \<Longrightarrow> d < length (pg_nodes pg) \<Longrightarrow> sn_parent (node_of pg d) = Some p \<Longrightarrow> encloses pg a d"

lemma encloses_trans: "encloses pg a b \<Longrightarrow> encloses pg b d \<Longrightarrow> encloses pg a d"
  by (rotate_tac, induction rule: encloses.induct) (auto intro: encloses.up)

lemma encloses_below: "encloses pg i d \<Longrightarrow> i < length (pg_nodes pg) \<and> d < length (pg_nodes pg)"
  by (induction rule: encloses.induct) auto

lemma encloses_parent: "encloses pg a i \<Longrightarrow> a = i \<or> (\<exists>p. sn_parent (node_of pg i) = Some p \<and> encloses pg a p)"
  by (erule encloses.cases) auto

lemma program_wf_child:
  "program_wf pg \<Longrightarrow> i < length (pg_nodes pg) \<Longrightarrow> c \<in> set (sn_children (node_of pg i)) \<Longrightarrow>
     i < c \<and> c < length (pg_nodes pg) \<and> sn_parent (node_of pg c) = Some i"
  unfolding program_wf_def by blast

lemma program_wf_parent:
  assumes "program_wf pg" "i < length (pg_nodes pg)" "sn_parent (node_of pg i) = Some p"
  shows "p < i \<and> i \<in> set (sn_children (node_of pg p))"
proof -
  from assms(1,2) have "case sn_parent (node_of pg i) of None \<Rightarrow> i \<in> set (pg_top pg)
      | Some p \<Rightarrow> p < i \<and> i \<in> set (sn_children (node_of pg p))" unfolding program_wf_def by blast
  with assms(3) show ?thesis by simp
qed

lemma encloses_child:
  assumes wf: "program_wf pg"
  shows "encloses pg i d \<Longrightarrow> d = i \<or> (\<exists>c\<in>set (sn_children (node_of pg i)). encloses pg c d)"
proof (induction rule: encloses.induct)
  case (up a p d)
  from up.IH show ?case
  proof
    assume "p = a"
    with program_wf_parent [OF wf up.hyps(2,3)] up.hyps(2) show ?thesis by (blast intro: encloses.self)
  next
    assume "\<exists>c\<in>set (sn_children (node_of pg a)). encloses pg c p"
    with up.hyps(2,3) show ?thesis by (blast intro: encloses.up)
  qed
qed simp

definition plain :: "program \<Rightarrow> nat \<Rightarrow> bool" where
  "plain pg i \<longleftrightarrow> is_non_constraining (command_of pg i)"

lemma weak_path:
  assumes wf: "program_wf pg"
  shows "weak pg i \<Longrightarrow> (\<forall>a. encloses pg a i \<longrightarrow> plain pg a) \<or> (\<forall>d. encloses pg i d \<longrightarrow> plain pg d)"
proof (induction rule: weak.induct)
  case (top i)
  have "plain pg a" if "encloses pg a i" for a
    using encloses_parent [OF that] top by (auto simp: plain_def)
  then show ?case by blast
next
  case (below i p)
  have up: "encloses pg p i"
    by (rule encloses.up [OF encloses.self]) (use below(1,3) program_wf_parent [OF wf below(1,3)] in auto)
  from below.IH show ?case
  proof
    assume anc: "\<forall>a. encloses pg a p \<longrightarrow> plain pg a"
    have "plain pg a" if "encloses pg a i" for a
      using encloses_parent [OF that] anc below(2,3) by (auto simp: plain_def)
    then show ?thesis by blast
  next
    assume "\<forall>d. encloses pg p d \<longrightarrow> plain pg d"
    then show ?thesis using encloses_trans [OF up] by blast
  qed
next
  case (above i)
  have kid: "encloses pg i c" if "c \<in> set (sn_children (node_of pg i))" for c
    by (rule encloses.up [OF encloses.self]) (use program_wf_child [OF wf above(1) that] above(1) in auto)
  show ?case
  proof (cases "\<exists>c\<in>set (sn_children (node_of pg i)). \<forall>a. encloses pg a c \<longrightarrow> plain pg a")
    case True
    then show ?thesis using kid encloses_trans by blast
  next
    case False
    have "plain pg d" if "encloses pg i d" for d
      using encloses_child [OF wf that] False above(2,3) by (auto simp: plain_def)
    then show ?thesis by blast
  qed
qed

lemma path_weak:
  assumes wf: "program_wf pg"
  shows "i < length (pg_nodes pg) \<Longrightarrow> \<forall>a. encloses pg a i \<longrightarrow> plain pg a \<Longrightarrow> weak pg i"
proof (induction i rule: less_induct)
  case (less i)
  have nc: "is_non_constraining (command_of pg i)" using less.prems encloses.self by (auto simp: plain_def)
  show ?case
  proof (cases "sn_parent (node_of pg i)")
    case None
    then show ?thesis using weak.top less.prems(1) nc by blast
  next
    case (Some p)
    from program_wf_parent [OF wf less.prems(1) Some] less.prems(1) have p: "p < i" "p < length (pg_nodes pg)" by auto
    have "\<forall>a. encloses pg a p \<longrightarrow> plain pg a"
      using less.prems encloses.up [OF _ less.prems(1) Some] by blast
    from less.IH [OF p this] weak.below [OF less.prems(1) nc Some] show ?thesis by blast
  qed
qed

lemma subtree_weak:
  assumes wf: "program_wf pg"
  shows "i < length (pg_nodes pg) \<Longrightarrow> \<forall>d. encloses pg i d \<longrightarrow> plain pg d \<Longrightarrow> weak pg i"
proof (induction "length (pg_nodes pg) - i" arbitrary: i rule: less_induct)
  case (less i)
  have nc: "is_non_constraining (command_of pg i)" using less.prems encloses.self by (auto simp: plain_def)
  have "weak pg c" if "c \<in> set (sn_children (node_of pg i))" for c
  proof (rule less.hyps)
    from program_wf_child [OF wf less.prems(1) that]
    have c: "i < c" "c < length (pg_nodes pg)" "sn_parent (node_of pg c) = Some i" by auto
    from c show "length (pg_nodes pg) - c < length (pg_nodes pg) - i" "c < length (pg_nodes pg)" by auto
    have "encloses pg i c" by (rule encloses.up [OF encloses.self]) (use c less.prems(1) in auto)
    then show "\<forall>d. encloses pg c d \<longrightarrow> plain pg d" using less.prems(2) encloses_trans by blast
  qed
  then show ?case using weak.above [OF less.prems(1) nc] by blast
qed


lemma mark_weak_statements_nth:
  "i < length sts \<Longrightarrow> ss_weak (mark_weak_statements pg sts ! i) = mark_weak pg (map ss_weak sts) ! i"
  by (simp add: mark_weak_statements_def mark_weak_length)

subsection \<open>The propagation returns\<close>

lemma caches_scheduled:
  assumes owned: "forced_owned pg" and c: "caches_ok pg ctx"
  shows "forced_scheduled pg wl (xc_registry ctx, xc_once ctx)"
  unfolding forced_scheduled_def prod.case
proof (intro allI impI; elim conjE)
  fix t y assume t: "t < length (pg_nodes pg)" and f: "forced_id pg t y" and y: "xc_once ctx y \<noteq> None"
  from c y obtain i v p where i: "i < length (pg_nodes pg)" "v \<in> set (command_selectors (command_of pg i))"
    "vb_id v = y" "vb_kind v = VForced p"
    by (auto simp: caches_ok_def forced_name_def)
  from owned t f i(1-3) have "is_forced v" unfolding forced_owned_def by blast
  with i(4) have False by (simp add: is_forced_def)
  then show "t \<in> set wl" by simp
qed

lemma compute_nodes_returns:
  assumes owned: "forced_owned (visit_statements root)"
  shows "compute_nodes api ops root (exec_ctx_new roots) w \<noteq> None"
proof -
  let ?pg = "visit_statements root" let ?n = "length (pg_nodes (visit_statements root))"
  let ?ctx = "exec_ctx_new roots"
  have wf: "program_wf ?pg" by (rule visit_statements_wf)
  show ?thesis
  proof (cases "build_dependency_graph ?pg ops (replicate ?n stmt_state_new)")
    case (Inr sts)
    let ?sts = "mark_weak_statements ?pg sts"
    have edges: "edges_ok ?pg ?sts"
      by (rule mark_weak_statements_ok [OF build_dependency_graph_ok [OF wf stmt_states_ok Inr]])
    have c0: "caches_ok ?pg ?ctx" by (simp add: caches_ok_def exec_ctx_new_def)
    obtain r w1 where roots: "compute_roots api ?pg [0..<?n] [] (?ctx, ?sts) w = (r, w1)" by fastforce
    show ?thesis
    proof (cases r)
      case (Inr cs)
      obtain ctx1 sts1 where cs: "cs = (ctx1, sts1)" by (cases cs)
      from compute_roots_ok [OF roots [unfolded Inr cs] c0]
      have c1: "caches_ok ?pg ctx1" and same: "map ss_dependents sts1 = map ss_dependents ?sts" by auto
      have edges1: "edges_ok ?pg sts1" by (rule edges_ok_cong [OF same edges])
      have "run_worklist (wd_env api w1) ?pg (ctx1, sts1) \<noteq> None"
      proof (cases "seed_worklist ?pg (xc_registry ctx1) [0..<?n] []")
        case (Inr wl)
        have "loop_inv ?pg (wl, ctx1, sts1)"
          using seed_worklist_set [OF Inr] edges1 caches_scheduled [OF owned c1]
          by (auto simp: loop_inv_def edges_ok_def)
        from worklist_loop_returns [OF wf owned this] Inr show ?thesis by (simp add: run_worklist_def)
      qed (simp add: run_worklist_def)
      with roots Inr cs \<open>build_dependency_graph ?pg ops (replicate ?n stmt_state_new) = Inr sts\<close>
      show ?thesis by (auto simp: compute_nodes_def Let_def split: sum.splits)
    qed (use roots Inr in \<open>simp add: compute_nodes_def Let_def\<close>)
  qed (simp add: compute_nodes_def Let_def)
qed

subsection \<open>Labels\<close>

lemma remember_lookup:
  "map_of (remember i c m) l =
     (case map_of m l of
        None \<Rightarrow> if l \<in> set (get_labels c) then Some (replicate (count_list (get_labels c) l) i) else None
      | Some is \<Rightarrow> Some (is @ replicate (count_list (get_labels c) l) i))"
proof -
  have "map_of (foldl (\<lambda>m mark. AList.update mark ((case map_of m mark of None \<Rightarrow> [] | Some ss \<Rightarrow> ss) @ [i]) m) m ls) l =
     (case map_of m l of
        None \<Rightarrow> if l \<in> set ls then Some (replicate (count_list ls l) i) else None
      | Some is \<Rightarrow> Some (is @ replicate (count_list ls l) i))" for ls :: "string list" and m
    by (induction ls arbitrary: m) (auto simp: update_conv' split: option.splits)
  then show ?thesis by (simp add: remember_def)
qed

lemma remember_all_lookup:
  "(map_of (remember_all pg) l = None \<longleftrightarrow> (\<forall>i<length (pg_nodes pg). l \<notin> set (get_labels (command_of pg i))))
   \<and> (\<forall>is. map_of (remember_all pg) l = Some is \<longrightarrow>
        set is = {i. i < length (pg_nodes pg) \<and> l \<in> set (get_labels (command_of pg i))})"
proof -
  have "(map_of (foldl (\<lambda>m i. remember i (command_of pg i) m) [] [0..<n]) l = None \<longleftrightarrow>
           (\<forall>i<n. l \<notin> set (get_labels (command_of pg i))))
   \<and> (\<forall>is. map_of (foldl (\<lambda>m i. remember i (command_of pg i) m) [] [0..<n]) l = Some is \<longrightarrow>
        set is = {i. i < n \<and> l \<in> set (get_labels (command_of pg i))})" for n
  proof (induction n)
    case (Suc n)
    then show ?case
      by (auto simp: remember_lookup less_Suc_eq count_list_0_iff split: option.splits if_splits)
  qed simp
  then show ?thesis by (simp add: remember_all_def)
qed


text \<open>The labels that a statement refers to, by its selectors and by its layer blocks.\<close>

definition label_uses :: "(nat \<times> eph_op list) list \<Rightarrow> command \<Rightarrow> string list" where
  "label_uses ops c = somes (map (\<lambda>v. selector_label (vb_kind v)) (command_selectors c)) @ layer_label_refs ops c"

definition no_self :: "stmt_state list \<Rightarrow> bool" where
  "no_self sts \<longleftrightarrow> (\<forall>i<length sts. \<forall>(d, role, k)\<in>set (ss_dependencies (sts ! i)). d \<noteq> i)"

lemma no_self_dependent [simp]: "no_self (add_dependent i d sts) = no_self sts"
proof -
  have "ss_dependencies (add_dependent i d sts ! j) = ss_dependencies (sts ! j)" for j
    by (cases "i < length sts"; cases "j = i") (auto simp: add_dependent_def list_update_beyond)
  then show ?thesis by (simp add: no_self_def add_dependent_def)
qed

lemma no_self_dependency: "no_self sts \<Longrightarrow> d \<noteq> i \<Longrightarrow> no_self (add_dependency i (d, role, k) sts)"
proof -
  assume s: "no_self sts" and d: "d \<noteq> i"
  have "\<forall>(e, role, k)\<in>set (ss_dependencies (add_dependency i (d, role, k) sts ! j)). e \<noteq> j" if "j < length sts" for j
    using s d that by (cases "j = i") (auto simp: no_self_def add_dependency_def)
  then show ?thesis by (simp add: no_self_def add_dependency_def)
qed

lemma add_lengths [simp]:
  "length (add_dependency i d sts) = length sts" "length (add_dependent i e sts) = length sts"
  by (simp_all add: add_dependency_def add_dependent_def)

lemma link_user_exact:
  "no_self sts \<Longrightarrow>
     (if i \<in> set ls then link_user i v label ls sts = Inl ExecPanic
      else \<exists>sts'. link_user i v label ls sts = Inr sts' \<and> no_self sts' \<and> length sts' = length sts)"
proof (induction ls arbitrary: sts)
  case (Cons l ls)
  show ?case
  proof (cases "l = i")
    case False
    then have "no_self (add_dependency i (l, User, selector_dependency_kind (vb_kind v) User)
        (add_dependent l (i, User, Some label) sts))" using Cons.prems by (simp add: no_self_dependency)
    from Cons.IH [OF this] False show ?thesis by auto
  qed simp
qed simp

lemma link_seed_exact:
  "no_self sts \<Longrightarrow> i < length sts \<Longrightarrow>
     (if i \<in> set ls then link_seed i label ls sts = Inl ExecPanic
      else \<exists>sts'. link_seed i label ls sts = Inr sts' \<and> no_self sts' \<and> length sts' = length sts)"
proof (induction ls arbitrary: sts)
  case (Cons l ls)
  show ?case
  proof (cases "list_ex (\<lambda>(d, role, k). role = PreSeedLabel label \<and> d = l) (ss_dependencies (sts ! i))")
    case True
    then have "l \<noteq> i" using Cons.prems by (auto simp: no_self_def list_ex_iff)
    with Cons.IH [OF Cons.prems] True show ?thesis by simp
  next
    case seen: False
    show ?thesis
    proof (cases "l = i")
      case True
      with seen show ?thesis by simp
    next
      case False
      then have "no_self (add_dependency i (l, PreSeedLabel label, Necessary)
          (add_dependent l (i, PreSeedLabel label, None) sts))" using Cons.prems by (simp add: no_self_dependency)
      from Cons.IH [OF this] Cons.prems(2) False seen show ?thesis by auto
    qed
  qed
qed simp

text \<open>How the references of one statement come out: all good, a label of its own, an unknown one.\<close>

definition outcome :: "(string \<times> nat list) list \<Rightarrow> nat \<Rightarrow> string list \<Rightarrow> nat \<Rightarrow> exec_error + stmt_state list \<Rightarrow> bool" where
  "outcome labeled i ls n r \<longleftrightarrow>
     (case r of
        Inr sts \<Rightarrow> (\<forall>l\<in>set ls. \<exists>is. map_of labeled l = Some is \<and> i \<notin> set is) \<and> no_self sts \<and> length sts = n
      | Inl ExecPanic \<Rightarrow> \<exists>l\<in>set ls. \<exists>is. map_of labeled l = Some is \<and> i \<in> set is
      | Inl (ExecFailed e) \<Rightarrow> \<exists>l\<in>set ls. map_of labeled l = None)"

lemma outcome_Cons:
  assumes "map_of labeled l = Some is" "i \<notin> set is" "outcome labeled i ls n r"
  shows "outcome labeled i (l # ls) n r"
  using assms by (auto simp: outcome_def split: sum.splits exec_error.splits)

lemma link_users_exact:
  "no_self sts \<Longrightarrow> outcome labeled i (somes (map (\<lambda>v. selector_label (vb_kind v)) vs)) (length sts) (link_users labeled i vs sts)"
proof (induction vs arbitrary: sts)
  case (Cons v vs)
  show ?case
  proof (cases "selector_label (vb_kind v)")
    case None
    with Cons show ?thesis by simp
  next
    case label: (Some l)
    show ?thesis
    proof (cases "map_of labeled l")
      case None
      with label show ?thesis by (simp add: outcome_def)
    next
      case (Some "is")
      show ?thesis
      proof (cases "i \<in> set is")
        case True
        with link_user_exact [OF Cons.prems, of i "is" v l] label Some show ?thesis by (simp add: outcome_def)
      next
        case False
        with link_user_exact [OF Cons.prems, of i "is" v l] obtain sts1 where
          s: "link_user i v l is sts = Inr sts1" "no_self sts1" "length sts1 = length sts" by auto
        from outcome_Cons [OF Some False Cons.IH [OF s(2)]] s label Some show ?thesis by simp
      qed
    qed
  qed
qed (simp add: outcome_def)

lemma link_seeds_exact:
  "no_self sts \<Longrightarrow> i < length sts \<Longrightarrow> outcome labeled i ls (length sts) (link_seeds labeled i ls sts)"
proof (induction ls arbitrary: sts)
  case (Cons l ls)
  show ?case
  proof (cases "map_of labeled l")
    case None
    then show ?thesis by (simp add: outcome_def)
  next
    case (Some "is")
    show ?thesis
    proof (cases "i \<in> set is")
      case True
      with link_seed_exact [OF Cons.prems, of "is" l] Some show ?thesis by (simp add: outcome_def)
    next
      case False
      with link_seed_exact [OF Cons.prems, of "is" l] obtain sts1 where
        s: "link_seed i l is sts = Inr sts1" "no_self sts1" "length sts1 = length sts" by auto
      from outcome_Cons [OF Some False Cons.IH [OF s(2)]] s Cons.prems(2) Some show ?thesis by simp
    qed
  qed
qed (simp add: outcome_def)

lemma no_self_link_child: "no_self sts \<Longrightarrow> i \<noteq> c \<Longrightarrow> no_self (link_child pg i c sts) \<and> length (link_child pg i c sts) = length sts"
  by (simp add: link_child_def no_self_dependency)

lemma no_self_link_children:
  "no_self sts \<Longrightarrow> \<forall>c\<in>set cs. i \<noteq> c \<Longrightarrow>
     no_self (foldl (\<lambda>sts ch. link_child pg i ch sts) sts cs)
     \<and> length (foldl (\<lambda>sts ch. link_child pg i ch sts) sts cs) = length sts"
  by (induction cs arbitrary: sts) (simp_all add: no_self_link_child)

lemma no_self_link_parent: "no_self (link_parent pg i sts) = no_self sts \<and> length (link_parent pg i sts) = length sts"
  by (simp add: link_parent_def split: option.splits)

lemma link_statement_exact:
  assumes wf: "program_wf pg" and i: "i < length (pg_nodes pg)" and sts: "no_self sts" "length sts = length (pg_nodes pg)"
  shows "outcome labeled i (label_uses ops (command_of pg i)) (length sts) (link_statement pg ops labeled i sts)"
proof -
  let ?c = "command_of pg i"
  define sts1 where "sts1 = foldl (\<lambda>sts ch. link_child pg i ch sts) (link_parent pg i sts) (sn_children (node_of pg i))"
  have "\<forall>c\<in>set (sn_children (node_of pg i)). i \<noteq> c" using program_wf_child [OF wf i] by fastforce
  from no_self_link_children [OF _ this, of "link_parent pg i sts" pg] no_self_link_parent [of pg i sts] sts
  have sts1: "no_self sts1" "length sts1 = length sts" by (auto simp: sts1_def)
  have eq: "link_statement pg ops labeled i sts =
      rbind (link_users labeled i (command_selectors ?c) sts1) (link_seeds labeled i (layer_label_refs ops ?c))"
    by (simp add: link_statement_def sts1_def Let_def)
  note users = link_users_exact [OF sts1(1), of labeled i "command_selectors ?c"]
  show ?thesis
  proof (cases "link_users labeled i (command_selectors ?c) sts1")
    case (Inl e)
    with users show ?thesis unfolding eq label_uses_def by (cases e) (auto simp: outcome_def)
  next
    case (Inr sts2)
    with users have u: "\<forall>l\<in>set (somes (map (\<lambda>v. selector_label (vb_kind v)) (command_selectors ?c))).
        \<exists>is. map_of labeled l = Some is \<and> i \<notin> set is"
      "no_self sts2" "length sts2 = length sts" using sts1 by (auto simp: outcome_def)
    have "outcome labeled i (layer_label_refs ops ?c) (length sts) (link_seeds labeled i (layer_label_refs ops ?c) sts2)"
      using link_seeds_exact [OF u(2), of i labeled] i sts u(3) by simp
    then show ?thesis using Inr u(1) unfolding eq label_uses_def
      by (auto simp: outcome_def split: sum.splits exec_error.splits)
  qed
qed

text \<open>The first statement that fails decides.\<close>

lemma link_all_exact:
  assumes wf: "program_wf pg"
  shows "\<forall>i\<in>set is. i < length (pg_nodes pg) \<Longrightarrow> no_self sts \<Longrightarrow> length sts = length (pg_nodes pg) \<Longrightarrow>
     (case link_all pg ops labeled is sts of
        Inr sts' \<Rightarrow> \<forall>i\<in>set is. \<forall>l\<in>set (label_uses ops (command_of pg i)). \<exists>js. map_of labeled l = Some js \<and> i \<notin> set js
      | Inl ExecPanic \<Rightarrow> \<exists>i\<in>set is. \<exists>l\<in>set (label_uses ops (command_of pg i)). \<exists>js. map_of labeled l = Some js \<and> i \<in> set js
      | Inl (ExecFailed e) \<Rightarrow> \<exists>i\<in>set is. \<exists>l\<in>set (label_uses ops (command_of pg i)). map_of labeled l = None)"
proof (induction "is" arbitrary: sts)
  case (Cons i "is")
  have i: "i < length (pg_nodes pg)" using Cons.prems(1) by simp
  note one = link_statement_exact [OF wf i Cons.prems(2,3), of labeled ops]
  show ?case
  proof (cases "link_statement pg ops labeled i sts")
    case (Inl e)
    with one show ?thesis by (cases e) (auto simp: outcome_def)
  next
    case (Inr sts1)
    with one Cons.prems(3) have "no_self sts1" "length sts1 = length (pg_nodes pg)"
      and ok: "\<forall>l\<in>set (label_uses ops (command_of pg i)). \<exists>js. map_of labeled l = Some js \<and> i \<notin> set js"
      by (auto simp: outcome_def)
    with Cons.IH [of sts1] Cons.prems(1) have
      "(case link_all pg ops labeled is sts1 of
        Inr sts' \<Rightarrow> \<forall>i\<in>set is. \<forall>l\<in>set (label_uses ops (command_of pg i)). \<exists>js. map_of labeled l = Some js \<and> i \<notin> set js
      | Inl ExecPanic \<Rightarrow> \<exists>i\<in>set is. \<exists>l\<in>set (label_uses ops (command_of pg i)). \<exists>js. map_of labeled l = Some js \<and> i \<in> set js
      | Inl (ExecFailed e) \<Rightarrow> \<exists>i\<in>set is. \<exists>l\<in>set (label_uses ops (command_of pg i)). map_of labeled l = None)"
      by simp
    with Inr ok show ?thesis
      by (cases "link_all pg ops labeled is sts1") (auto split: exec_error.splits)
  qed
qed simp


lemma graph_exact:
  assumes wf: "program_wf pg"
  shows "case build_dependency_graph pg ops (replicate (length (pg_nodes pg)) stmt_state_new) of
      Inr sts' \<Rightarrow> \<forall>i<length (pg_nodes pg). \<forall>l\<in>set (label_uses ops (command_of pg i)).
        l \<notin> set (get_labels (command_of pg i)) \<and> (\<exists>j<length (pg_nodes pg). l \<in> set (get_labels (command_of pg j)))
    | Inl ExecPanic \<Rightarrow> \<exists>i<length (pg_nodes pg). \<exists>l\<in>set (label_uses ops (command_of pg i)). l \<in> set (get_labels (command_of pg i))
    | Inl (ExecFailed e) \<Rightarrow> \<exists>i<length (pg_nodes pg). \<exists>l\<in>set (label_uses ops (command_of pg i)).
        \<forall>j<length (pg_nodes pg). l \<notin> set (get_labels (command_of pg j))"
proof -
  let ?n = "length (pg_nodes pg)" and ?m = "remember_all pg"
  have none: "map_of ?m l = None \<longleftrightarrow> (\<forall>i<?n. l \<notin> set (get_labels (command_of pg i)))" for l
    using remember_all_lookup [of pg l] by blast
  have some: "map_of ?m l = Some js \<Longrightarrow> i < ?n \<Longrightarrow> i \<in> set js \<longleftrightarrow> l \<in> set (get_labels (command_of pg i))" for l js i
    using remember_all_lookup [of pg l] by blast
  note all = link_all_exact [OF wf, of "[0..<?n]" "replicate ?n stmt_state_new" ops ?m]
  have fresh: "no_self (replicate ?n stmt_state_new)" by (simp add: no_self_def stmt_state_new_def)
  show ?thesis
  proof (cases "link_all pg ops ?m [0..<?n] (replicate ?n stmt_state_new)")
    case (Inr sts)
    with all fresh have *: "\<forall>i<?n. \<forall>l\<in>set (label_uses ops (command_of pg i)). \<exists>js. map_of ?m l = Some js \<and> i \<notin> set js"
      by simp
    have "l \<notin> set (get_labels (command_of pg i)) \<and> (\<exists>j<?n. l \<in> set (get_labels (command_of pg j)))"
      if "i < ?n" "l \<in> set (label_uses ops (command_of pg i))" for i l
    proof -
      from * that obtain js where js: "map_of ?m l = Some js" "i \<notin> set js" by blast
      with some [OF js(1) that(1)] none [of l] show ?thesis by auto
    qed
    with Inr show ?thesis by (simp add: build_dependency_graph_def)
  next
    case (Inl e)
    show ?thesis
    proof (cases e)
      case (ExecFailed m)
      with Inl all fresh obtain i l where "i < ?n" "l \<in> set (label_uses ops (command_of pg i))" "map_of ?m l = None"
        by auto
      with Inl ExecFailed none show ?thesis by (auto simp: build_dependency_graph_def)
    next
      case ExecPanic
      with Inl all fresh obtain i l js where
        *: "i < ?n" "l \<in> set (label_uses ops (command_of pg i))" "map_of ?m l = Some js" "i \<in> set js" by auto
      with some [OF *(3,1)] Inl ExecPanic show ?thesis by (auto simp: build_dependency_graph_def)
    qed
  qed
qed

text \<open>The selections of the providers of a label among the dependencies, in order.\<close>

definition label_providers :: "program \<Rightarrow> registry \<Rightarrow> (nat \<times> string option) list \<Rightarrow> string \<Rightarrow> selection list" where
  "label_providers pg reg deps l =
     somes (map (\<lambda>(d, l'). if l' = Some l
                  then (case get_selection reg (command_of pg d) of Inr sel \<Rightarrow> sel | Inl e \<Rightarrow> None) else None) deps)"





lemma label_providers_simps [simp]:
  "label_providers pg reg [] l = []"
  "label_providers pg reg ((d, None) # deps) l = label_providers pg reg deps l"
  "get_selection reg (command_of pg d) = Inr sel \<Longrightarrow> label_providers pg reg ((d, Some k) # deps) l =
     (if k = l then (case sel of None \<Rightarrow> [] | Some s \<Rightarrow> [s]) else []) @ label_providers pg reg deps l"
  by (auto simp: label_providers_def split: option.splits)


subsection \<open>Properties\<close>

text \<open>
  C40. Weak statements.  The fixpoint marks exactly the statements that cannot constrain: all
  statements on the path from the top level down to it are non-constraining, or all statements
  of its own subtree are.
\<close>

theorem weak_statements_exact:
  assumes "length sts = length (pg_nodes (visit_statements root))" "\<forall>st\<in>set sts. \<not> ss_weak st" "i < length sts"
  shows "ss_weak (mark_weak_statements (visit_statements root) sts ! i) \<longleftrightarrow>
     (\<forall>a. encloses (visit_statements root) a i \<longrightarrow> is_non_constraining (command_of (visit_statements root) a)) \<or>
     (\<forall>d. encloses (visit_statements root) i d \<longrightarrow> is_non_constraining (command_of (visit_statements root) d))"
proof -
  let ?pg = "visit_statements root" and ?ws = "map ss_weak sts"
  have wf: "program_wf ?pg" by (rule visit_statements_wf)
  have none: "\<forall>j<length ?ws. \<not> ?ws ! j" using assms(2) by simp
  have i: "i < length (pg_nodes ?pg)" using assms by simp
  have "ss_weak (mark_weak_statements ?pg sts ! i) \<longleftrightarrow> weak ?pg i"
    using mark_weak_statements_nth [OF assms(3), of ?pg] mark_weak_sound [OF wf, of ?ws] none
      mark_weak_complete [of ?ws ?pg i] assms(1,3) by auto
  moreover have "weak ?pg i \<longleftrightarrow> (\<forall>a. encloses ?pg a i \<longrightarrow> plain ?pg a) \<or> (\<forall>d. encloses ?pg i d \<longrightarrow> plain ?pg d)"
    using weak_path [OF wf] path_weak [OF wf i] subtree_weak [OF wf i] by blast
  ultimately show ?thesis unfolding plain_def by blast
qed

definition unit_command :: "nat \<Rightarrow> command" where
  "unit_command i = command_extend (sample_verb i VUnit) (command_new sample_span)"

definition named_command :: "nat \<Rightarrow> command" where
  "named_command i = command_extend (sample_verb i (VName (PatExact ''f''))) (command_new sample_span)"

text \<open>The query \<open>"f" {{}}\<close>: a named statement, a unit statement in it, and one in that.\<close>

definition sample_query :: stmt where
  "sample_query = Stmt command_default REFS False
     [Stmt (named_command 0) REFS False [Stmt (unit_command 1) REFS False [Stmt (unit_command 2) REFS False []]]]"

theorem weak_statements_exact_witness:
  "map ss_weak (mark_weak_statements (visit_statements sample_query) (replicate 3 stmt_state_new)) = [False, True, True]
   \<and> is_non_constraining (command_of (visit_statements sample_query) 2)"
proof -
  let ?pg = "visit_statements sample_query" and ?sts = "replicate 3 stmt_state_new"
  have nodes: "length (pg_nodes ?pg) = 3"
    by (simp add: visit_statements_def sample_query_def)
  have marks: "map ss_weak (mark_weak_statements ?pg ?sts) = [False, True, True]"
    by (code_simp)
  have sub: "ss_weak (mark_weak_statements ?pg ?sts ! 2)"
  proof -
    have "map ss_weak (mark_weak_statements ?pg ?sts) ! 2" by (simp add: marks)
    moreover have "length (mark_weak_statements ?pg ?sts) = 3"
      by (simp add: mark_weak_statements_def mark_weak_length)
    ultimately show ?thesis by simp
  qed
  have "encloses ?pg 2 2" by (rule encloses.self) (simp add: nodes)
  with sub weak_statements_exact [of ?sts sample_query 2] nodes marks show ?thesis
    by (auto simp: stmt_state_new_def)
qed

text \<open>
  C38. The dependency graph.  It is built exactly when every label that a statement uses, in a
  selector or in a layer block, marks some statement and not the statement itself; a missing
  label is reported as an error, and a statement that refers to its own label panics.
\<close>

theorem dependency_graph_labels:
  fixes root :: stmt and ops :: "(nat \<times> eph_op list) list"
  defines "pg \<equiv> visit_statements root"
  defines "r \<equiv> build_dependency_graph pg ops (replicate (length (pg_nodes pg)) stmt_state_new)"
  shows "((\<exists>sts. r = Inr sts) \<longleftrightarrow>
      (\<forall>i<length (pg_nodes pg). \<forall>l\<in>set (label_uses ops (command_of pg i)).
        l \<notin> set (get_labels (command_of pg i)) \<and> (\<exists>j<length (pg_nodes pg). l \<in> set (get_labels (command_of pg j)))))
    \<and> (r = Inl ExecPanic \<longrightarrow>
      (\<exists>i<length (pg_nodes pg). \<exists>l\<in>set (label_uses ops (command_of pg i)). l \<in> set (get_labels (command_of pg i))))
    \<and> ((\<exists>e. r = Inl (ExecFailed e)) \<longrightarrow>
      (\<exists>i<length (pg_nodes pg). \<exists>l\<in>set (label_uses ops (command_of pg i)).
        \<forall>j<length (pg_nodes pg). l \<notin> set (get_labels (command_of pg j))))"
proof -
  note g = graph_exact [OF visit_statements_wf, of root ops, folded pg_def, folded r_def]
  show ?thesis
  proof (cases r)
    case (Inl e)
    with g show ?thesis by (cases e) auto
  next
    case (Inr sts)
    with g show ?thesis by auto
  qed
qed

definition own_label_command :: command where
  "own_label_command = command_extend (sample_verb 1 (VUse ''x'' False))
     (command_extend (sample_verb 0 (VLabel ''x'' False)) (command_new sample_span))"

theorem dependency_graph_labels_witness:
  "build_dependency_graph (visit_statements (Stmt command_default REFS False [Stmt own_label_command REFS False []])) []
     [stmt_state_new] = Inl ExecPanic
   \<and> ''x'' \<in> set (get_labels own_label_command)"
proof -
  let ?t = "Stmt command_default REFS False [Stmt own_label_command REFS False []]"
  have n: "pg_nodes (visit_statements ?t) = [\<lparr>sn_command = own_label_command, sn_rel = REFS, sn_unnest = False,
      sn_parent = None, sn_children = []\<rparr>]"
    by (simp add: visit_statements_def)
  have r: "build_dependency_graph (visit_statements ?t) [] [stmt_state_new] = Inl ExecPanic"
    by code_simp
  from dependency_graph_labels [of ?t "[]"] r n
  have "\<exists>l\<in>set (label_uses [] own_label_command). l \<in> set (get_labels own_label_command)"
    by (simp add: node_of_def)
  then have "''x'' \<in> set (get_labels own_label_command)" by code_simp
  with r show ?thesis by blast
qed




end
