(* ===== verification/Parse_Results.thy ===== *)
theory Parse_Results
  imports Propagation
begin

text \<open>
  What the parser hands to execution: every statement has a built command with a selector, and
  the identity of a forced use belongs to one verb of one statement.  With the measure of
  \<open>Worklist\<close> it follows that executing a parsed query always returns.
\<close>

subsection \<open>Identities of verbs\<close>

definition ids_ok :: "nat \<Rightarrow> verb multiset \<Rightarrow> bool" where
  "ids_ok fresh M \<longleftrightarrow> (\<forall>v\<in>#M. vb_id v < fresh)
     \<and> (\<forall>v\<in>#M. is_forced v \<longrightarrow> size {#u \<in># M. vb_id u = vb_id v#} = 1)"

lemma ids_ok_mono:
  assumes ok: "ids_ok fresh M" and sub: "M' \<subseteq># M" and le: "fresh \<le> fresh'"
  shows "ids_ok fresh' M'"
  unfolding ids_ok_def
proof (intro conjI ballI impI)
  fix v assume v: "v \<in># M'"
  then have vM: "v \<in># M" using sub by (rule mset_subset_eqD [rotated])
  with ok le show "vb_id v < fresh'" by (auto simp: ids_ok_def)
  assume "is_forced v"
  with ok vM have "size {#u \<in># M. vb_id u = vb_id v#} = 1" by (simp add: ids_ok_def)
  moreover have "size {#u \<in># M'. vb_id u = vb_id v#} \<le> size {#u \<in># M. vb_id u = vb_id v#}"
    by (intro size_mset_mono multiset_filter_mono sub)
  moreover have "v \<in># {#u \<in># M'. vb_id u = vb_id v#}" using v by simp
  then have "size {#u \<in># M'. vb_id u = vb_id v#} \<noteq> 0" by (metis empty_not_add_mset multi_member_split size_eq_0_iff_empty)
  ultimately show "size {#u \<in># M'. vb_id u = vb_id v#} = 1" by linarith
qed

lemma ids_ok_new: "ids_ok fresh M \<Longrightarrow> vb_id v = fresh \<Longrightarrow> ids_ok (Suc fresh) (add_mset v M)"
proof -
  assume ok: "ids_ok fresh M" and v: "vb_id v = fresh"
  then have none: "{#u \<in># M. vb_id u = fresh#} = {#}" by (auto simp: ids_ok_def filter_mset_eq_conv)
  show ?thesis
    using ok v none by (auto simp: ids_ok_def)
qed

lemma ids_ok_dup:
  assumes ok: "ids_ok fresh M" and v: "v \<in># M" "\<not> is_forced v"
  shows "ids_ok fresh (add_mset v M)"
proof -
  have "vb_id v \<noteq> vb_id u" if u: "u \<in># M" "is_forced u" for u
  proof
    assume eq: "vb_id v = vb_id u"
    have "u \<noteq> v" using u v by blast
    then obtain M' where M: "M = add_mset u (add_mset v M')"
      using u(1) v(1) by (metis insert_noteq_member multi_member_split)
    have "size {#w \<in># M. vb_id w = vb_id u#} \<ge> 2" unfolding M using eq by simp
    with ok u show False by (simp add: ids_ok_def)
  qed
  with ok v show ?thesis by (auto simp: ids_ok_def)
qed

lemma clone_not_forced: "kind_derive_method (vb_kind v) = DeriveClone \<Longrightarrow> \<not> is_forced v"
  by (auto simp: is_forced_def)

lemma derive_verbs_ids:
  "derive_verbs fresh vs = (ds, n) \<Longrightarrow> ids_ok fresh M \<Longrightarrow> set vs \<subseteq> set_mset M \<Longrightarrow>
     ids_ok n (mset ds + M) \<and> fresh \<le> n"
proof (induction fresh vs arbitrary: ds n M rule: derive_verbs.induct)
  case (2 fresh v vs)
  show ?case
  proof (cases "kind_derive_method (vb_kind v)")
    case DeriveSkip
    with 2 show ?thesis by simp
  next
    case DeriveClone
    have sub: "set vs \<subseteq> set_mset (add_mset w M)" for w using "2.prems"(3) by auto
    show ?thesis
    proof (cases "derives_new_instance (vb_kind v)")
      case True
      let ?v = "v\<lparr>vb_id := fresh\<rparr>"
      obtain ds' where d: "derive_verbs (Suc fresh) vs = (ds', n)" "ds = ?v # ds'"
        using "2.prems"(1) DeriveClone True by (auto split: prod.splits)
      have "ids_ok (Suc fresh) (add_mset ?v M)" by (rule ids_ok_new [OF "2.prems"(2)]) simp
      from "2.IH"(1) [OF DeriveClone True d(1) this sub] d(2) show ?thesis by simp
    next
      case False
      obtain ds' where d: "derive_verbs fresh vs = (ds', n)" "ds = v # ds'"
        using "2.prems"(1) DeriveClone False by (auto split: prod.splits)
      have "ids_ok fresh (add_mset v M)"
        by (rule ids_ok_dup [OF "2.prems"(2) _ clone_not_forced [OF DeriveClone]]) (use "2.prems"(3) in auto)
      from "2.IH"(2) [OF DeriveClone False d(1) this sub] d(2) show ?thesis by simp
    qed
  qed
qed simp

lemma command_extend_verbs: "mset (cm_verbs (command_extend v c)) \<subseteq># add_mset v (mset (cm_verbs c))"
proof -
  have "mset (foldl (\<lambda>updated v. kind_add_verb (vb_kind v) updated @ [v]) acc vs) \<subseteq># mset acc + mset vs" for acc vs
  proof (induction vs arbitrary: acc)
    case (Cons v vs)
    let ?k = "kind_add_verb (vb_kind v) acc @ [v]"
    have "mset ?k \<subseteq># mset acc + {#v#}" by (simp add: kind_add_verb_filter)
    then have "mset ?k + mset vs \<subseteq># mset acc + {#v#} + mset vs" by (rule subset_mset.add_right_mono)
    from subset_mset.order_trans [OF Cons [of ?k] this] show ?case by simp
  qed simp
  from this [of "[]" "cm_verbs c @ [v]"] show ?thesis by (simp add: command_extend_def add_verb_def)
qed

subsection \<open>The store of contexts\<close>

text \<open>
  Parents come before their children, an alternative context is always the global one, and
  every context holds a command the parser can build.
\<close>

definition store_ok :: "parser_state \<Rightarrow> bool" where
  "store_ok s \<longleftrightarrow> ps_ctxs s \<noteq> [] \<and> (\<forall>c<length (ps_ctxs s).
     pc_alternative (ctx_of s c) \<in> {None, Some 0} \<and> command_built (pc_command (ctx_of s c))
     \<and> (case pc_prev (ctx_of s c) of None \<Rightarrow> c = 0 | Some p \<Rightarrow> p < c))"

definition store_verbs :: "parser_state \<Rightarrow> verb multiset" where
  "store_verbs s = mset (concat (map (\<lambda>p. cm_verbs (pc_command p)) (ps_ctxs s)))"

definition sids :: "parser_state \<Rightarrow> verb multiset \<Rightarrow> bool" where
  "sids s B \<longleftrightarrow> ids_ok (ps_fresh s) (store_verbs s + B)"

text \<open>
  A building step takes the verbs \<open>H\<close> in hand, works on context \<open>c\<close> and hands out the verbs of
  its result; whatever other verbs \<open>B\<close> there are, identities stay as they should.
\<close>

definition builds :: "verb list \<Rightarrow> nat \<Rightarrow> 'a build \<Rightarrow> ('a \<Rightarrow> verb list) \<Rightarrow> ('a \<Rightarrow> bool) \<Rightarrow> bool" where
  "builds H c m G Q \<longleftrightarrow> (\<forall>s a s'. store_ok s \<longrightarrow> c < length (ps_ctxs s) \<longrightarrow> m s = (Inr a, s')
     \<longrightarrow> store_ok s' \<and> length (ps_ctxs s) \<le> length (ps_ctxs s') \<and> Q a
       \<and> (\<forall>B. sids s (mset H + B) \<longrightarrow> sids s' (mset (G a) + B)))"

lemma buildsI:
  assumes "\<And>s a s'. store_ok s \<Longrightarrow> c < length (ps_ctxs s) \<Longrightarrow> m s = (Inr a, s') \<Longrightarrow>
     store_ok s' \<and> length (ps_ctxs s) \<le> length (ps_ctxs s') \<and> Q a
       \<and> (\<forall>B. sids s (mset H + B) \<longrightarrow> sids s' (mset (G a) + B))"
  shows "builds H c m G Q"
  using assms by (simp add: builds_def)

lemma buildsD:
  assumes "builds H c m G Q" "store_ok s" "c < length (ps_ctxs s)" "m s = (Inr a, s')"
  shows "store_ok s'" "length (ps_ctxs s) \<le> length (ps_ctxs s')" "Q a"
    "sids s (mset H + B) \<Longrightarrow> sids s' (mset (G a) + B)"
  using assms unfolding builds_def by blast+

lemma sids_mono: "sids s B \<Longrightarrow> B' \<subseteq># B \<Longrightarrow> sids s B'"
  unfolding sids_def by (rule ids_ok_mono) (auto intro: subset_mset.add_left_mono)

lemma sids_same: "ps_ctxs s' = ps_ctxs s \<Longrightarrow> ps_fresh s' = ps_fresh s \<Longrightarrow> sids s' B = sids s B"
  by (simp add: sids_def store_verbs_def)

lemma builds_bind:
  assumes m: "builds H c m G1 R" and f: "\<And>a. R a \<Longrightarrow> builds (G1 a) c (f a) G Q"
  shows "builds H c (sbind m f) G Q"
proof (rule buildsI)
  fix s b s' assume s: "store_ok s" "c < length (ps_ctxs s)" "sbind m f s = (Inr b, s')"
  then obtain a t where a: "m s = (Inr a, t)" and b: "f a t = (Inr b, s')" by (auto simp: sbind_Inr)
  note 1 = buildsD [OF m s(1,2) a]
  have "c < length (ps_ctxs t)" using 1(2) s(2) by simp
  note 2 = buildsD [OF f [OF 1(3)] 1(1) this b]
  show "store_ok s' \<and> length (ps_ctxs s) \<le> length (ps_ctxs s') \<and> Q b
       \<and> (\<forall>B. sids s (mset H + B) \<longrightarrow> sids s' (mset (G b) + B))"
    using 1 2 by (meson order_trans)
qed

lemma builds_return: "mset (G a) \<subseteq># mset H \<Longrightarrow> Q a \<Longrightarrow> builds H c (sreturn a) G Q"
  by (rule buildsI) (auto simp: sreturn_Inr intro: sids_mono subset_mset.add_right_mono)

lemma builds_fail: "builds H c (fail_with e) G Q"
  by (rule buildsI) (simp add: fail_with_def)

lemma builds_read: "(\<And>p. Q (f p)) \<Longrightarrow> builds H c (read_ctx d f) (\<lambda>_. H) Q"
  by (rule buildsI) (auto simp: read_ctx_def)

lemma builds_const: "(\<And>a. r = Inr a \<Longrightarrow> Q a) \<Longrightarrow> builds H c (\<lambda>s. (r, s)) (\<lambda>_. H) Q"
  by (rule buildsI) auto

lemma builds_lift: "builds H c (lift_result r) (\<lambda>_. H) (\<lambda>_. True)"
  by (rule buildsI) (auto simp: lift_result_def)

lemma builds_weaken:
  "builds H c m G Q \<Longrightarrow> (\<And>a. Q a \<Longrightarrow> mset (G' a) \<subseteq># mset (G a) \<and> Q' a) \<Longrightarrow> builds H c m G' Q'"
  unfolding builds_def by (meson sids_mono subset_mset.add_right_mono)

lemma builds_more:
  "builds H c m G Q \<Longrightarrow> builds (H @ X) c m (\<lambda>a. G a @ X) Q"
  unfolding builds_def by (simp add: add.assoc)

lemma builds_fresh: "(\<And>i. vb_id (v i) = i) \<Longrightarrow> builds H c fresh_id (\<lambda>i. v i # H) (\<lambda>_. True)"
proof (rule buildsI)
  fix s a s' assume v: "\<And>i. vb_id (v i) = i" and s: "store_ok s" "fresh_id s = (Inr a, s')"
  then have a: "a = ps_fresh s" "s' = s\<lparr>ps_fresh := Suc (ps_fresh s)\<rparr>" by (auto simp: fresh_id_def)
  have "sids s' (mset (v a # H) + B)" if "sids s (mset H + B)" for B
    using ids_ok_new [OF that [unfolded sids_def], of "v a"] v a by (simp add: sids_def store_verbs_def)
  moreover have "store_ok s'" using s(1) a(2) by (simp add: store_ok_def ctx_of_def)
  ultimately show "store_ok s' \<and> length (ps_ctxs s) \<le> length (ps_ctxs s') \<and> True
      \<and> (\<forall>B. sids s (mset H + B) \<longrightarrow> sids s' (mset (v a # H) + B))" using a by simp
qed

text \<open>Changing one context of the store.\<close>

lemma store_verbs_update:
  assumes "d < length (ps_ctxs s)"
  shows "store_verbs (update_ctx d f s) + mset (cm_verbs (pc_command (ctx_of s d)))
     = store_verbs s + mset (cm_verbs (pc_command (f (ctx_of s d))))"
proof -
  let ?cs = "ps_ctxs s"
  define A where "A = take d ?cs"
  define Z where "Z = drop (Suc d) ?cs"
  have cs: "?cs = A @ ctx_of s d # Z" using assms by (simp add: A_def Z_def ctx_of_def id_take_nth_drop)
  have "length A = d" using assms by (simp add: A_def)
  then have "ps_ctxs (update_ctx d f s) = A @ f (ctx_of s d) # Z"
    by (simp add: update_ctx_def cs list_update_append)
  then show ?thesis unfolding store_verbs_def cs by simp
qed

lemma store_ok_update:
  assumes "store_ok s" "d < length (ps_ctxs s)"
    and "pc_alternative (f (ctx_of s d)) \<in> {pc_alternative (ctx_of s d), Some 0}"
    and "pc_prev (f (ctx_of s d)) = pc_prev (ctx_of s d)" "command_built (pc_command (f (ctx_of s d)))"
  shows "store_ok (update_ctx d f s)"
  using assms unfolding store_ok_def update_ctx_def ctx_of_def
  by (auto simp: nth_list_update)

lemma update_ctx_sels [simp]:
  "length (ps_ctxs (update_ctx d f s)) = length (ps_ctxs s)" "ps_fresh (update_ctx d f s) = ps_fresh s"
  by (simp_all add: update_ctx_def)

lemma target_in: "store_ok s \<Longrightarrow> c < length (ps_ctxs s) \<Longrightarrow> target_ctx s c < length (ps_ctxs s)"
  by (auto simp: store_ok_def target_ctx_def split: option.splits)

text \<open>A change that leaves the command alone.\<close>

definition keeps_command :: "(parser_ctx \<Rightarrow> parser_ctx) \<Rightarrow> bool" where
  "keeps_command f \<longleftrightarrow> (\<forall>p. pc_command (f p) = pc_command p \<and> pc_prev (f p) = pc_prev p \<and> pc_alternative (f p) = pc_alternative p)"

lemma builds_modify_at:
  assumes "keeps_command f"
  shows "store_ok s \<Longrightarrow> d < length (ps_ctxs s) \<Longrightarrow> modify_ctx d f s = (Inr a, s') \<Longrightarrow>
     store_ok s' \<and> length (ps_ctxs s) \<le> length (ps_ctxs s') \<and> (sids s B \<longrightarrow> sids s' B)"
proof -
  assume s: "store_ok s" "d < length (ps_ctxs s)" "modify_ctx d f s = (Inr a, s')"
  have s': "s' = update_ctx d f s" using s(3) by (simp add: modify_ctx_def)
  have "store_ok s'" unfolding s'
    by (rule store_ok_update [OF s(1,2)]) (use assms s(1,2) in \<open>auto simp: keeps_command_def store_ok_def\<close>)
  moreover have "store_verbs s' = store_verbs s"
    using store_verbs_update [OF s(2), of f] assms by (simp add: s' keeps_command_def)
  ultimately show ?thesis by (simp add: sids_def s')
qed

lemma builds_modify: "keeps_command f \<Longrightarrow> builds H c (modify_ctx c f) (\<lambda>_. H) (\<lambda>_. True)"
  by (rule buildsI) (use builds_modify_at in blast)


lemma target_cases: "store_ok s \<Longrightarrow> c < length (ps_ctxs s) \<Longrightarrow> target_ctx s c = c \<or> target_ctx s c = 0"
  by (auto simp: store_ok_def target_ctx_def split: option.splits)

lemma keeps_command_modifiers:
  "keeps_command (set_relationship_type_explicit r)" "keeps_command (set_relationship_type_default r)"
  "keeps_command (set_inherit_relationship_modifier b)" "keeps_command (set_relationship_type_inherited r)"
  "keeps_command (set_default_symbol_types ts)" "keeps_command (\<lambda>x. x\<lparr>pc_eph_ops := e\<rparr>)"
  "keeps_command (set_inherit_relationship_modifier b \<circ> set_relationship_type_explicit r)"
  by (simp_all add: keeps_command_def set_relationship_type_explicit_def set_relationship_type_default_def
    set_inherit_relationship_modifier_def set_relationship_type_inherited_def set_default_symbol_types_def)

text \<open>The preamble: the parent of the context is the global one.\<close>

definition enter_preamble :: "nat \<Rightarrow> bool build" where
  "enter_preamble c =
     sbind (read_ctx c pc_prev) (\<lambda>prev.
     case prev of
       None \<Rightarrow> fail_with ContextPanic
     | Some p \<Rightarrow>
         sbind (read_ctx p pc_prev) (\<lambda>pp.
         if pp \<noteq> None
         then fail_with (VerbFailed (Bail ''Preamble verb can only be used as the first verb statement in the askl code'' []))
         else sbind (modify_ctx c (\<lambda>x. x\<lparr>pc_alternative := Some p\<rparr>)) (\<lambda>_. sreturn True)))"

lemma builds_preamble: "builds H c (enter_preamble c) (\<lambda>_. H) (\<lambda>_. True)"
proof (rule buildsI)
  fix s a s' assume s: "store_ok s" "c < length (ps_ctxs s)" "enter_preamble c s = (Inr a, s')"
  from s(3) obtain p where p: "pc_prev (ctx_of s c) = Some p" "pc_prev (ctx_of s p) = None"
    and s': "s' = update_ctx c (\<lambda>x. x\<lparr>pc_alternative := Some p\<rparr>) s"
    by (auto simp: enter_preamble_def sbind_Inr read_ctx_def fail_with_def modify_ctx_def sreturn_Inr
      split: option.splits if_splits)
  have prevs: "case pc_prev (ctx_of s d) of None \<Rightarrow> d = 0 | Some p \<Rightarrow> p < d" if "d < length (ps_ctxs s)" for d
    using s(1) that unfolding store_ok_def by blast
  have "p < c" using prevs [OF s(2)] p(1) by simp
  then have "p = 0" using prevs [of p] s(2) p(2) by simp
  have ok: "store_ok s'" unfolding s'
    by (rule store_ok_update [OF s(1,2)]) (use s(1,2) \<open>p = 0\<close> in \<open>auto simp: store_ok_def\<close>)
  have "store_verbs s' = store_verbs s"
    using store_verbs_update [OF s(2), of "\<lambda>x. x\<lparr>pc_alternative := Some p\<rparr>"] by (simp add: s')
  with ok show "store_ok s' \<and> length (ps_ctxs s) \<le> length (ps_ctxs s') \<and> True
      \<and> (\<forall>B. sids s (mset H + B) \<longrightarrow> sids s' (mset H + B))"
    by (simp add: sids_def s')
qed

lemma builds_modify_then: "keeps_command f \<Longrightarrow> builds H c (sbind (modify_ctx c f) (\<lambda>_. sreturn b)) (\<lambda>_. H) (\<lambda>_. True)"
  by (rule builds_bind [OF builds_modify]) (auto intro: builds_return)

lemma builds_update_context: "builds H c (update_context v c) (\<lambda>_. H) (\<lambda>_. True)"
proof -
  have ret: "builds H c (sreturn False) (\<lambda>_. H) (\<lambda>_. True)" by (rule builds_return) simp_all
  show ?thesis
  proof (cases "vb_kind v")
    case VPreamble
    then have "update_context v c = enter_preamble c" unfolding update_context_def enter_preamble_def by (simp only: verb_kind.case)
    then show ?thesis using builds_preamble by metis
  next
    case VLayer
    then show ?thesis
      unfolding update_context_def
      by (auto intro!: builds_bind [OF builds_read] builds_fail builds_modify_then keeps_command_modifiers)
  next
    case (VFilter k b)
    then show ?thesis
      using ret by (cases k; cases b)
        (auto simp: update_context_def intro!: builds_modify_then keeps_command_modifiers)
  qed (auto simp: update_context_def ret intro!: builds_modify_then keeps_command_modifiers)
qed

text \<open>A step on the target context is a step on the context.\<close>

lemma builds_at_target:
  assumes "\<And>d. builds H d (m d) G Q"
  shows "builds H c (\<lambda>s. m (target_ctx s c) s) G Q"
proof (rule buildsI)
  fix s a s' assume s: "store_ok s" "c < length (ps_ctxs s)" "m (target_ctx s c) s = (Inr a, s')"
  show "store_ok s' \<and> length (ps_ctxs s) \<le> length (ps_ctxs s') \<and> Q a
       \<and> (\<forall>B. sids s (mset H + B) \<longrightarrow> sids s' (mset (G a) + B))"
    using buildsD [OF assms s(1) target_in [OF s(1,2)] s(3)] by blast
qed

lemma builds_consume: "builds H c (consume c v) (\<lambda>_. H) (\<lambda>kept. kept = None \<or> kept = Some v)"
proof -
  have "builds H d (sbind (update_context v d) (\<lambda>consumed. sreturn (if consumed then None else Some v)))
      (\<lambda>_. H) (\<lambda>kept. kept = None \<or> kept = Some v)" for d
    by (rule builds_bind [OF builds_update_context]) (auto intro: builds_return)
  from builds_at_target [where m = "\<lambda>d. sbind (update_context v d) (\<lambda>consumed. sreturn (if consumed then None else Some v))",
      OF this] show ?thesis
    by (simp add: consume_def [abs_def])
qed

lemma builds_extend: "builds (v # H) c (extend_verb c v) (\<lambda>_. H) (\<lambda>_. True)"
proof -
  define f :: "parser_ctx \<Rightarrow> parser_ctx" where "f = (\<lambda>p. p\<lparr>pc_command := command_extend v (pc_command p)\<rparr>)"
  have "builds (v # H) d (modify_ctx d f) (\<lambda>_. H) (\<lambda>_. True)" for d
  proof (rule buildsI)
    fix s a s' assume s: "store_ok s" "d < length (ps_ctxs s)" "modify_ctx d f s = (Inr a, s')"
    have s': "s' = update_ctx d f s" using s(3) by (simp add: modify_ctx_def)
    have ok: "store_ok s'" unfolding s'
      by (rule store_ok_update [OF s(1,2)]) (use s(1,2) in \<open>auto simp: f_def store_ok_def intro: command_built.intros\<close>)
    have new: "mset (cm_verbs (pc_command (f (ctx_of s d)))) \<subseteq># add_mset v (mset (cm_verbs (pc_command (ctx_of s d))))"
      using command_extend_verbs by (simp add: f_def)
    have "store_verbs s' + mset (cm_verbs (pc_command (ctx_of s d)))
        \<subseteq># store_verbs s + add_mset v (mset (cm_verbs (pc_command (ctx_of s d))))"
      using store_verbs_update [OF s(2), of f] subset_mset.add_left_mono [OF new] by (simp add: s')
    then have sub: "store_verbs s' \<subseteq># add_mset v (store_verbs s)"
      by (metis add_mset_add_single mset_subset_eq_mono_add_right_cancel union_mset_add_mset_left union_mset_add_mset_right)
    have "sids s' (mset H + B)" if "sids s (mset (v # H) + B)" for B
    proof -
      have "store_verbs s' + (mset H + B) \<subseteq># store_verbs s + (mset (v # H) + B)"
        using subset_mset.add_right_mono [OF sub, of "mset H + B"] by simp
      with that show ?thesis unfolding sids_def by (rule ids_ok_mono) (simp add: s')
    qed
    with ok show "store_ok s' \<and> length (ps_ctxs s) \<le> length (ps_ctxs s') \<and> True
       \<and> (\<forall>B. sids s (mset (v # H) + B) \<longrightarrow> sids s' (mset H + B))" by (simp add: s')
  qed
  from builds_at_target [where m = "\<lambda>d. modify_ctx d f", OF this] show ?thesis
    by (simp add: extend_verb_def [abs_def] f_def)
qed

text \<open>Taking the command of a context: its verbs are now in hand.\<close>

definition swap_command :: "nat \<Rightarrow> command build" where
  "swap_command c = sbind (read_ctx c pc_command) (\<lambda>cmd.
     sbind (modify_ctx c (\<lambda>p. p\<lparr>pc_command := command_default\<rparr>)) (\<lambda>_. sreturn cmd))"

lemma builds_swap: "builds H c (swap_command c) (\<lambda>cmd. cm_verbs cmd @ H) command_built"
proof (rule buildsI)
  fix s a s' assume s: "store_ok s" "c < length (ps_ctxs s)" "swap_command c s = (Inr a, s')"
  let ?f = "\<lambda>p. p\<lparr>pc_command := command_default\<rparr>"
  have a: "a = pc_command (ctx_of s c)" and s': "s' = update_ctx c ?f s"
    using s(3) by (auto simp: swap_command_def sbind_Inr read_ctx_def modify_ctx_def sreturn_Inr)
  have "store_ok s'" unfolding s'
    by (rule store_ok_update [OF s(1,2)]) (use s(1,2) in \<open>auto simp: store_ok_def intro: command_built.intros\<close>)
  moreover have "command_built a" using s(1,2) a by (simp add: store_ok_def)
  moreover have v: "store_verbs s' + mset (cm_verbs a) = store_verbs s"
    using store_verbs_update [OF s(2), of ?f] by (simp add: s' a command_default_def)
  have "sids s' (mset (cm_verbs a @ H) + B) = sids s (mset H + B)" for B
    unfolding sids_def v [symmetric] by (simp add: s' ac_simps)
  ultimately show "store_ok s' \<and> length (ps_ctxs s) \<le> length (ps_ctxs s') \<and> command_built a
       \<and> (\<forall>B. sids s (mset H + B) \<longrightarrow> sids s' (mset (cm_verbs a @ H) + B))" by (simp add: s')
qed

lemma take_command_swap:
  "take_command c sp = sbind (swap_command c) (\<lambda>cmd.
     if command_selectors cmd = []
     then sbind fresh_id (\<lambda>i. sreturn (command_extend \<lparr>vb_id = i, vb_span = sp, vb_kind = VUnit\<rparr> cmd))
     else sreturn cmd)"
  by (auto simp: take_command_def swap_command_def sbind_def sreturn_def fun_eq_iff split: prod.splits sum.splits)

lemma builds_take: "builds H c (take_command c sp) (\<lambda>cmd. cm_verbs cmd @ H)
    (\<lambda>cmd. command_built cmd \<and> command_selectors cmd \<noteq> [])"
  unfolding take_command_swap
proof (rule builds_bind [OF builds_swap])
  fix cmd assume built: "command_built cmd"
  let ?v = "\<lambda>i. \<lparr>vb_id = i, vb_span = sp, vb_kind = VUnit\<rparr>"
  have unit: "command_built (command_extend (?v i) cmd) \<and> command_selectors (command_extend (?v i) cmd) \<noteq> []" for i
    using add_verb_settled(1) [OF command_built_settled [OF built], of "?v i"] command_built.extended [OF built, of "?v i"]
    by (simp add: command_selectors_def command_extend_def)
  have verbs: "mset (cm_verbs (command_extend (?v i) cmd) @ H) \<subseteq># mset (?v i # cm_verbs cmd @ H)" for i
    using subset_mset.add_right_mono [OF command_extend_verbs [of "?v i" cmd], of "mset H"] by simp
  have "builds (cm_verbs cmd @ H) c (sbind fresh_id (\<lambda>i. sreturn (command_extend (?v i) cmd)))
      (\<lambda>cmd. cm_verbs cmd @ H) (\<lambda>cmd. command_built cmd \<and> command_selectors cmd \<noteq> [])"
    by (rule builds_bind [OF builds_fresh [of ?v]]) (simp, rule builds_return, rule verbs, rule unit)
  then show "builds (cm_verbs cmd @ H) c
      (if command_selectors cmd = [] then sbind fresh_id (\<lambda>i. sreturn (command_extend (?v i) cmd)) else sreturn cmd)
      (\<lambda>cmd. cm_verbs cmd @ H) (\<lambda>cmd. command_built cmd \<and> command_selectors cmd \<noteq> [])"
    using built by (auto intro: builds_return)
qed


text \<open>Entering a child context.\<close>

lemma builds_derive:
  assumes "\<And>sub. builds H sub (f sub) G Q"
  shows "builds H c (sbind (context_derive c sp) f) G Q"
proof (rule buildsI)
  fix s a s' assume s: "store_ok s" "c < length (ps_ctxs s)" "sbind (context_derive c sp) f s = (Inr a, s')"
  let ?p = "ctx_of s c"
  obtain ds n where ds: "derive_verbs (ps_fresh s) (cm_verbs (pc_command ?p)) = (ds, n)" by fastforce
  define cmd where "cmd = \<lparr>cm_verbs = ds, cm_span = Some sp, cm_verb_span = None\<rparr>"
  define child where "child = \<lparr>pc_prev = Some c, pc_alternative = pc_alternative ?p, pc_command = cmd, pc_rel = pc_rel ?p,
               pc_default_types = pc_default_types ?p, pc_has_modifier = pc_inherit_modifier ?p,
               pc_inherit_modifier = pc_inherit_modifier ?p, pc_eph_ops = pc_eph_ops ?p\<rparr>"
  define t where "t = s\<lparr>ps_ctxs := ps_ctxs s @ [child], ps_fresh := n\<rparr>"
  have step: "context_derive c sp s = (Inr (length (ps_ctxs s)), t)"
    by (simp add: context_derive_def command_derive_def ds t_def child_def cmd_def Let_def)
  then have f: "f (length (ps_ctxs s)) t = (Inr a, s')" using s(3) by (simp add: sbind_def)
  have built: "command_built (pc_command ?p)" using s(1,2) by (simp add: store_ok_def)
  have "command_built cmd"
    using command_built.derived [OF built, of "ps_fresh s" sp] by (simp add: command_derive_def ds cmd_def)
  moreover have "ctx_of t d = (if d = length (ps_ctxs s) then child else ctx_of s d)" if "d < length (ps_ctxs t)" for d
    using that by (auto simp: ctx_of_def t_def nth_append)
  ultimately have t_ok: "store_ok t"
    using s(1,2) unfolding store_ok_def by (auto simp: t_def child_def less_Suc_eq)
  have "sids t (mset H + B)" if "sids s (mset H + B)" for B
  proof -
    have "set (cm_verbs (pc_command ?p)) \<subseteq> set_mset (store_verbs s)"
      using s(2) by (force simp: store_verbs_def ctx_of_def)
    then have "set (cm_verbs (pc_command ?p)) \<subseteq> set_mset (store_verbs s + (mset H + B))" by auto
    from derive_verbs_ids [OF ds that [unfolded sids_def] this] show ?thesis
      by (simp add: sids_def store_verbs_def t_def child_def cmd_def ac_simps)
  qed
  moreover note buildsD [OF assms t_ok _ f]
  ultimately show "store_ok s' \<and> length (ps_ctxs s) \<le> length (ps_ctxs s') \<and> Q a
       \<and> (\<forall>B. sids s (mset H + B) \<longrightarrow> sids s' (mset (G a) + B))"
    by (auto simp: t_def)
qed

lemma builds_push: "builds H c (push_op l op) (\<lambda>_. H) (\<lambda>_. True)"
  by (rule buildsI) (auto simp: push_op_def store_ok_def ctx_of_def sids_def store_verbs_def)

subsection \<open>Verbs and statements\<close>

lemma builds_generic_verb: "builds H c (build_generic_verb c ident args) (\<lambda>_. H) (\<lambda>_. True)"
proof -
  have op: "builds H c (case eph_ops of None \<Rightarrow> fail_with (OutsideLayer ident)
      | Some layer \<Rightarrow> sbind (lift_result (new_op ident positional named)) (\<lambda>op.
          sbind (push_op layer op) (\<lambda>_. sreturn VUnit))) (\<lambda>_. H) (\<lambda>_. True)" for eph_ops positional named
    by (cases eph_ops)
      (auto intro!: builds_fail builds_bind [OF builds_lift] builds_bind [OF builds_push] builds_return)
  have new: "builds H c (case verb_constructor ident of None \<Rightarrow> fail_with (UnknownVerb ident)
      | Some new \<Rightarrow> lift_result (new positional named)) (\<lambda>_. H) (\<lambda>_. True)" for positional named
    by (cases "verb_constructor ident") (auto intro!: builds_fail builds_lift)
  have body: "builds H c (sbind (read_ctx c pc_eph_ops) (\<lambda>eph_ops.
     if eph_ops \<noteq> None \<and> ident \<notin> set (''_'' # ephemeral_names) then fail_with (NotEphemeral ident)
     else if ident \<in> set ephemeral_names
     then (case eph_ops of
             None \<Rightarrow> fail_with (OutsideLayer ident)
           | Some layer \<Rightarrow>
               sbind (lift_result (new_op ident positional named)) (\<lambda>op.
               sbind (push_op layer op) (\<lambda>_. sreturn VUnit)))
     else (case verb_constructor ident of
             None \<Rightarrow> fail_with (UnknownVerb ident)
           | Some new \<Rightarrow> lift_result (new positional named)))) (\<lambda>_. H) (\<lambda>_. True)" for positional named
    by (rule builds_bind [OF builds_read, where R = "\<lambda>_. True"]) (simp_all only: op new builds_fail split: if_split, simp)
  show ?thesis
    unfolding build_generic_verb_def
    by (rule builds_bind [OF builds_const, where R = "\<lambda>_. True"]) (simp, simp only: split_beta body)
qed

lemma builds_verb: "builds H c (build_verb c spv) (\<lambda>_. H) (\<lambda>_. True)"
proof -
  obtain sp pv where spv: "spv = (sp, pv)" by (cases spv)
  have kind: "builds H c (case pv of
              PGeneric ident args \<Rightarrow> build_generic_verb c ident args
            | _ \<Rightarrow> sbind (read_ctx c pc_eph_ops) (\<lambda>eph_ops.
                    if eph_ops \<noteq> None then fail_with (NotEphemeral []) else (\<lambda>s. (shortcut_kind pv, s))))
        (\<lambda>_. H) (\<lambda>_. True)"
  proof -
    have "builds H c (sbind (read_ctx c pc_eph_ops) (\<lambda>eph_ops.
        if eph_ops \<noteq> None then fail_with (NotEphemeral []) else (\<lambda>s. (shortcut_kind pv, s)))) (\<lambda>_. H) (\<lambda>_. True)"
      by (rule builds_bind [OF builds_read, where R = "\<lambda>_. True"]) (auto intro: builds_fail builds_const)
    then show ?thesis by (cases pv) (simp_all only: pverb.case builds_generic_verb)
  qed
  show ?thesis
    unfolding build_verb_def spv prod.case
  proof (rule builds_bind [OF kind])
    fix kind :: verb_kind
    let ?v = "\<lambda>i. \<lparr>vb_id = i, vb_span = sp, vb_kind = kind\<rparr>"
    have last: "builds (?v i # H) c (sbind (consume c (?v i)) (\<lambda>kept.
        case kept of None \<Rightarrow> sreturn () | Some v \<Rightarrow> extend_verb c v)) (\<lambda>_. H) (\<lambda>_. True)" for i
    proof (rule builds_bind [OF builds_consume])
      fix kept assume "kept = None \<or> kept = Some (?v i)"
      then show "builds (?v i # H) c (case kept of None \<Rightarrow> sreturn () | Some v \<Rightarrow> extend_verb c v) (\<lambda>_. H) (\<lambda>_. True)"
      proof
        assume "kept = None"
        then show ?thesis by (simp add: builds_return)
      qed (simp add: builds_extend)
    qed
    show "builds H c (sbind fresh_id (\<lambda>i. sbind (consume c (?v i)) (\<lambda>kept.
        case kept of None \<Rightarrow> sreturn () | Some v \<Rightarrow> extend_verb c v))) (\<lambda>_. H) (\<lambda>_. True)"
      by (rule builds_bind [OF builds_fresh [of ?v]]) (simp, rule last)
  qed
qed

lemma builds_verbs: "builds H c (build_verbs c vs) (\<lambda>_. H) (\<lambda>_. True)"
proof (induction vs)
  case (Cons v vs)
  then show ?case unfolding build_verbs.simps by (rule builds_bind [OF builds_verb])
qed (auto intro: builds_return)

lemma builds_default_types: "builds H c (add_default_types c sp types) (\<lambda>_. H) (\<lambda>_. True)"
proof (cases "types = []")
  case False
  let ?v = "\<lambda>i. \<lparr>vb_id = i, vb_span = sp, vb_kind = VDefaultType types\<rparr>"
  have "builds H c (sbind fresh_id (\<lambda>i. extend_verb c (?v i))) (\<lambda>_. H) (\<lambda>_. True)"
    by (rule builds_bind [OF builds_fresh [of ?v]]) (simp, rule builds_extend)
  with False show ?thesis by (simp add: add_default_types_def)
qed (auto simp: add_default_types_def intro: builds_return)


primrec stmt_verbs :: "stmt \<Rightarrow> verb list" where
  "stmt_verbs (Stmt c r u ks) = cm_verbs c @ concat (map stmt_verbs ks)"

text \<open>A statement the executor can work with: built commands with selectors, all the way down.\<close>

primrec stmt_ok :: "stmt \<Rightarrow> bool" where
  "stmt_ok (Stmt c r u ks) \<longleftrightarrow> command_built c \<and> command_selectors c \<noteq> [] \<and> list_all stmt_ok ks"

lemma set_verb_span_sels [simp]:
  "cm_verbs (set_verb_span sp c) = cm_verbs c" "command_selectors (set_verb_span sp c) = command_selectors c"
  by (simp_all add: set_verb_span_def command_selectors_def)

lemma builds_empty_statement: "builds H c (build_empty_statement c sp) (\<lambda>t. stmt_verbs t @ H) stmt_ok"
  unfolding build_empty_statement_def
proof (rule builds_derive, rule builds_bind [OF builds_read, where R = "\<lambda>_. True"], simp)
  fix sub types
  show "builds H sub (sbind (add_default_types sub sp (or_default types)) (\<lambda>_.
     sbind (take_command sub sp) (\<lambda>cmd.
     sbind (read_ctx sub pc_rel) (\<lambda>rel. sreturn (Stmt cmd rel False []))))) (\<lambda>t. stmt_verbs t @ H) stmt_ok"
    by (rule builds_bind [OF builds_default_types], rule builds_bind [OF builds_take],
        rule builds_bind [OF builds_read, where R = "\<lambda>_. True"]) (auto intro: builds_return)
qed

lemma builds_enter_scope: "builds H c (enter_scope c) (\<lambda>_. H) (\<lambda>_. True)"
proof -
  have "builds H c (if m then sreturn () else modify_ctx c (set_relationship_type_default (rel_union REFS HAS)))
      (\<lambda>_. H) (\<lambda>_. True)" for m :: bool
    by (simp add: builds_return builds_modify keeps_command_modifiers)
  then show ?thesis
    unfolding enter_scope_def
    by (intro builds_bind [OF builds_read, where R = "\<lambda>_. True"] builds_bind [where R = "\<lambda>_. True" and ?G1.0 = "\<lambda>_. H"]
        builds_modify keeps_command_modifiers) simp_all
qed

lemma builds_leave:
  assumes kids: "list_all stmt_ok kids"
  shows "builds (concat (map stmt_verbs kids)) c (leave_statement c sp r types verbs real kids) stmt_verbs stmt_ok"
  unfolding leave_statement_def
proof (rule builds_bind [OF builds_modify], simp add: keeps_command_modifiers,
    rule builds_bind [OF builds_read, where R = "\<lambda>_. True"], simp)
  fix typed
  let ?H = "concat (map stmt_verbs kids)"
  have types: "builds ?H c (if typed then sreturn () else add_default_types c sp (or_default types)) (\<lambda>_. ?H) (\<lambda>_. True)"
    by (simp add: builds_return builds_default_types)
  show "builds ?H c (sbind (if typed then sreturn () else add_default_types c sp (or_default types)) (\<lambda>_.
     sbind (take_command c sp) (\<lambda>cmd.
     sbind (read_ctx c pc_rel) (\<lambda>rel.
     let cmd = (if real \<and> verbs \<noteq> []
                then set_verb_span (sub_span sp (sp_start sp) (sp_end (fst (last verbs)))) cmd else cmd)
     in sreturn (Stmt cmd rel (has_verb_tag TagUnnest cmd) kids))))) stmt_verbs stmt_ok"
    by (rule builds_bind [OF types], rule builds_bind [OF builds_take],
        rule builds_bind [OF builds_read, where R = "\<lambda>_. True"], simp,
        unfold Let_def, rule builds_return)
      (use kids in \<open>auto intro: command_built.verb_span\<close>)
qed

lemma builds_statement:
  "builds [] c (build_statement c p) stmt_verbs stmt_ok"
  "builds [] c (build_statements c ps) (\<lambda>ts. concat (map stmt_verbs ts)) (list_all stmt_ok)"
proof (induction c p and c ps rule: build_statement_build_statements.induct)
  case (1 c sp verbs scope)
  let ?G = "\<lambda>(real :: bool, kids). concat (map stmt_verbs kids)"
  let ?Q = "\<lambda>(real :: bool, kids). list_all stmt_ok kids"
  have scope: "builds [] sub (case scope of
              None \<Rightarrow> sreturn (False, [])
            | Some (PScope scope_sp stmts) \<Rightarrow>
                sbind (enter_scope sub) (\<lambda>_.
                sbind (if stmts = [] then sbind (build_empty_statement sub scope_sp) (\<lambda>e. sreturn [e])
                       else build_statements sub stmts) (\<lambda>kids.
                sbind (read_ctx sub pc_eph_ops) (\<lambda>eph_ops.
                sreturn (stmts \<noteq> [], if eph_ops \<noteq> None then [] else kids))))) ?G ?Q" for sub
  proof (cases scope)
    case None
    then show ?thesis by (auto intro: builds_return)
  next
    case (Some sc)
    obtain scope_sp stmts where sc: "sc = PScope scope_sp stmts" by (cases sc)
    have kids: "builds [] sub (if stmts = [] then sbind (build_empty_statement sub scope_sp) (\<lambda>e. sreturn [e])
        else build_statements sub stmts) (\<lambda>ts. concat (map stmt_verbs ts)) (list_all stmt_ok)"
    proof (cases "stmts = []")
      case True
      have "builds [] sub (sbind (build_empty_statement sub scope_sp) (\<lambda>e. sreturn [e]))
          (\<lambda>ts. concat (map stmt_verbs ts)) (list_all stmt_ok)"
        by (rule builds_bind [OF builds_empty_statement]) (auto intro: builds_return)
      with True show ?thesis by simp
    next
      case False
      with 1 [OF Some sc] show ?thesis by simp
    qed
    show ?thesis
      unfolding Some option.case sc pscope.case
      by (rule builds_bind [OF builds_enter_scope], rule builds_bind [OF kids],
          rule builds_bind [OF builds_read, where R = "\<lambda>_. True"], simp, rule builds_return) auto
  qed
  show ?case
    unfolding build_statement.simps
  proof (rule builds_derive, rule builds_bind [OF builds_read, where R = "\<lambda>_. True"], simp)
    fix sub and q :: "rel_type \<times> int list option"
    obtain r types where q: "q = (r, types)" by (cases q)
    show "builds [] sub (case q of (inherited_rel, inherited_types) \<Rightarrow>
       sbind (build_verbs sub verbs) (\<lambda>_.
       sbind (case scope of
              None \<Rightarrow> sreturn (False, [])
            | Some (PScope scope_sp stmts) \<Rightarrow>
                sbind (enter_scope sub) (\<lambda>_.
                sbind (if stmts = [] then sbind (build_empty_statement sub scope_sp) (\<lambda>e. sreturn [e])
                       else build_statements sub stmts) (\<lambda>kids.
                sbind (read_ctx sub pc_eph_ops) (\<lambda>eph_ops.
                sreturn (stmts \<noteq> [], if eph_ops \<noteq> None then [] else kids))))) (\<lambda>(real_children, kids).
       leave_statement sub sp inherited_rel inherited_types verbs real_children kids))) stmt_verbs stmt_ok"
      unfolding q prod.case
    proof (rule builds_bind [OF builds_verbs], rule builds_bind [OF scope])
      fix x :: "bool \<times> stmt list" assume x: "?Q x"
      obtain real kids where rk: "x = (real, kids)" by (cases x)
      with x show "builds (?G x) sub (case x of (real_children, kids) \<Rightarrow>
          leave_statement sub sp r types verbs real_children kids) stmt_verbs stmt_ok"
        by (simp add: builds_leave)
    qed
  qed
next
  case (2 c)
  then show ?case by (auto intro: builds_return)
next
  case (3 c p ps)
  show ?case
    unfolding build_statements.simps
  proof (rule builds_bind [OF 3(1)])
    fix t assume t: "stmt_ok t"
    have rest: "builds (stmt_verbs t) c (build_statements c ps) (\<lambda>ts. concat (map stmt_verbs ts) @ stmt_verbs t) (list_all stmt_ok)"
      using builds_more [OF 3(2), of "stmt_verbs t"] by simp
    show "builds (stmt_verbs t) c (sbind (build_statements c ps) (\<lambda>ts. sreturn (t # ts)))
        (\<lambda>ts. concat (map stmt_verbs ts)) (list_all stmt_ok)"
      by (rule builds_bind [OF rest], rule builds_return) (use t in auto)
  qed
qed


lemma parse_tree_ok:
  assumes "parse_tree source tree = (Inr root, s)"
  shows "stmt_ok (Stmt (st_command root) REFS False (st_children root)) \<and> st_rel root = REFS
    \<and> ids_ok (ps_fresh s) (mset (concat (map stmt_verbs (st_children root))))"
proof -
  let ?s0 = "\<lparr>ps_ctxs = [context_new (span_entire source)], ps_fresh = 0, ps_ops = []\<rparr>"
  have ok0: "store_ok ?s0" by (simp add: store_ok_def ctx_of_def context_new_def command_built.new)
  have ids0: "sids ?s0 (mset [] + {#})"
    by (simp add: sids_def store_verbs_def context_new_def command_new_def ids_ok_def)
  have step: "builds [] 0 (sbind (build_statements 0 tree) (\<lambda>ast.
     sbind (take_command 0 (span_entire source)) (\<lambda>cmd. sreturn (Stmt cmd REFS False ast))))
     (\<lambda>t. concat (map stmt_verbs (st_children t)))
     (\<lambda>t. stmt_ok (Stmt (st_command t) REFS False (st_children t)) \<and> st_rel t = REFS)"
    by (rule builds_bind [OF builds_statement(2)], rule builds_bind [OF builds_take], rule builds_return) auto
  note r = buildsD [OF step ok0 _ assms [unfolded parse_tree_def]]
  have "sids s (mset (concat (map stmt_verbs (st_children root))) + {#})" by (rule r(4) [OF _ ids0]) simp
  then have "ids_ok (ps_fresh s) (mset (concat (map stmt_verbs (st_children root))))"
    unfolding sids_def by (rule ids_ok_mono) simp_all
  with r(3) show ?thesis by simp
qed

lemma flatten_verbs:
  "concat (map (\<lambda>n. cm_verbs (sn_command n)) (flatten i parent t)) = stmt_verbs t"
  "concat (map (\<lambda>n. cm_verbs (sn_command n)) (snd (flatten_scope i parent ts))) = concat (map stmt_verbs ts)"
  by (induction i parent t and i parent ts rule: flatten_flatten_scope.induct)
    (auto simp: Let_def split: prod.splits)

lemma flatten_ok:
  "stmt_ok t \<Longrightarrow> \<forall>n\<in>set (flatten i parent t). command_built (sn_command n) \<and> command_selectors (sn_command n) \<noteq> []"
  "list_all stmt_ok ts \<Longrightarrow> \<forall>n\<in>set (snd (flatten_scope i parent ts)).
     command_built (sn_command n) \<and> command_selectors (sn_command n) \<noteq> []"
  by (induction i parent t and i parent ts rule: flatten_flatten_scope.induct)
    (auto simp: Let_def split_beta)

lemma filter_len_two:
  assumes "i < length ns" "j < length ns" "i \<noteq> j" "filter P (f (ns ! i)) \<noteq> []" "filter P (f (ns ! j)) \<noteq> []"
  shows "2 \<le> length (filter P (concat (map f ns)))"
  using assms
proof (induction "min i j" arbitrary: i j ns rule: less_induct)
  case less
  obtain x xs where ns: "ns = x # xs" using less.prems(1) by (cases ns) auto
  have some: "filter P (concat (map f xs)) \<noteq> []" if "k < length xs" "filter P (f (xs ! k)) \<noteq> []" for k
    using that nth_mem [of k xs] by (fastforce simp: filter_concat)
  show ?case
  proof (cases "i = 0 \<or> j = 0")
    case True
    then obtain k where "filter P (f x) \<noteq> []" "k < length xs" "filter P (f (xs ! k)) \<noteq> []"
      using less.prems by (auto simp: ns gr0_conv_Suc)
    then show ?thesis using some by (cases "filter P (f x)"; cases "filter P (concat (map f xs))") (auto simp: ns)
  next
    case False
    then obtain i' j' where ij: "i = Suc i'" "j = Suc j'" by (metis not0_implies_Suc)
    have "2 \<le> length (filter P (concat (map f xs)))"
      by (rule less.hyps [of i' j']) (use less.prems ij in \<open>auto simp: ns\<close>)
    then show ?thesis by (simp add: ns)
  qed
qed

lemma filter_two_elems: "u \<in> set xs \<Longrightarrow> v \<in> set xs \<Longrightarrow> u \<noteq> v \<Longrightarrow> P u \<Longrightarrow> P v \<Longrightarrow> 2 \<le> length (filter P xs)"
proof -
  assume "u \<in> set xs" "v \<in> set xs" "u \<noteq> v" "P u" "P v"
  then have "{u, v} \<subseteq> set (filter P xs)" by simp
  then have "card {u, v} \<le> card (set (filter P xs))" by (rule card_mono [rotated]) simp
  with \<open>u \<noteq> v\<close> card_length [of "filter P xs"] show ?thesis by simp
qed

lemma ids_forced_owned:
  assumes ok: "ids_ok n (mset (concat (map stmt_verbs (st_children root))))"
  shows "forced_owned (visit_statements root)"
  unfolding forced_owned_def
proof (intro allI impI ballI)
  fix i v j
  let ?pg = "visit_statements root" and ?f = "\<lambda>n. cm_verbs (sn_command n)"
  let ?ns = "pg_nodes (visit_statements root)"
  assume i: "i < length ?ns" and v: "v \<in> set (command_selectors (command_of ?pg i))"
    and j: "j < length ?ns" and f: "forced_id ?pg j (vb_id v)"
  obtain ids ns where fs: "flatten_scope 0 None (st_children root) = (ids, ns)" by fastforce
  have ns: "?ns = ns" by (simp add: visit_statements_def fs)
  have all: "concat (map ?f ?ns) = concat (map stmt_verbs (st_children root))"
    using flatten_verbs(2) [of 0 None "st_children root"] by (simp add: ns fs)
  from f obtain u where u: "u \<in> set (command_selectors (command_of ?pg j))" "vb_id u = vb_id v" "is_forced u"
    by (auto simp: forced_id_def)
  let ?P = "\<lambda>w. vb_id w = vb_id v"
  have vi: "v \<in> set (?f (?ns ! i))" and uj: "u \<in> set (?f (?ns ! j))"
    using v u by (auto simp: command_selectors_def node_of_def)
  have "u \<in> set (concat (map ?f ?ns))" using uj j by (auto intro: bexI [of _ "?ns ! j"])
  moreover have "length (filter ?P (concat (map ?f ?ns))) = 1" if "u \<in> set (concat (map ?f ?ns))"
  proof -
    from that have "u \<in># mset (concat (map stmt_verbs (st_children root)))" unfolding all by (simp only: set_mset_mset)
    with ok u(3) have "size {#w \<in># mset (concat (map stmt_verbs (st_children root))). vb_id w = vb_id u#} = 1"
      unfolding ids_ok_def by blast
    then show ?thesis unfolding all u(2) by (simp only: mset_filter size_mset flip: mset_filter)
  qed
  ultimately have one: "length (filter ?P (concat (map ?f ?ns))) = 1" by blast
  have "i = j"
  proof (rule ccontr)
    assume ne: "i \<noteq> j"
    have "2 \<le> length (filter ?P (concat (map ?f ?ns)))"
      by (rule filter_len_two [OF i j ne]) (use vi uj u(2) in \<open>auto simp: filter_empty_conv\<close>)
    with one show False by simp
  qed
  moreover have "u = v"
  proof (rule ccontr)
    assume ne: "u \<noteq> v"
    have "u \<in> set (concat (map ?f ?ns))" "v \<in> set (concat (map ?f ?ns))"
      using vi uj i j by (auto intro: bexI [of _ "?ns ! j"] bexI [of _ "?ns ! i"])
    from filter_two_elems [OF this ne, of ?P] u(2) one show False by simp
  qed
  ultimately show "i = j \<and> is_forced v" using u(3) by simp
qed

subsection \<open>Properties\<close>

text \<open>
  C2. What the parser builds.  Every statement of a successful parse has a command made by the
  parser's own operations, so its verbs are settled under replacement, with at least one
  selector; the identity of a forced use belongs to one verb of one statement, whatever is
  inherited.
\<close>

theorem parsed_statements_ok:
  assumes "parse_tree source tree = (Inr root, s)"
    and "i < length (pg_nodes (visit_statements root))"
  shows "command_built (command_of (visit_statements root) i)
    \<and> command_selectors (command_of (visit_statements root) i) \<noteq> []
    \<and> has_selectors (command_of (visit_statements root) i)
    \<and> forced_owned (visit_statements root)"
proof -
  obtain ids ns where fs: "flatten_scope 0 None (st_children root) = (ids, ns)" by fastforce
  have kids: "list_all stmt_ok (st_children root)" using parse_tree_ok [OF assms(1)] by simp
  from flatten_ok(2) [OF kids, of 0 None] fs have nodes: "\<forall>n\<in>set ns. command_built (sn_command n) \<and> command_selectors (sn_command n) \<noteq> []"
    by simp
  have "command_of (visit_statements root) i \<in> sn_command ` set ns"
    using assms(2) by (simp add: node_of_def visit_statements_def fs)
  with nodes have c: "command_built (command_of (visit_statements root) i)"
    "command_selectors (command_of (visit_statements root) i) \<noteq> []" by auto
  then have "has_selectors (command_of (visit_statements root) i)"
    by (auto simp: has_selectors_def command_selectors_def list_ex_iff filter_empty_conv)
  with c ids_forced_owned parse_tree_ok [OF assms(1)] show ?thesis by blast
qed

text \<open>The query \<open>"f" { !g }\<close>.\<close>

definition sample_source :: string where "sample_source = ''\"f\" { !g }''"

definition sample_tree :: "pstatement list" where
  "sample_tree =
     [PStatement (sub_span (span_entire sample_source) 0 10) [(sub_span (span_entire sample_source) 0 3, PPlainFilter (PString ''f''))]
       (Some (PScope (sub_span (span_entire sample_source) 4 10)
         [PStatement (sub_span (span_entire sample_source) 6 8) [(sub_span (span_entire sample_source) 6 8, PForcedVerb (PString ''g''))] None]))]"

definition sample_ast :: stmt where
  "sample_ast = (case fst (parse_tree sample_source sample_tree) of Inr root \<Rightarrow> root | Inl e \<Rightarrow> sample_query)"

lemma sample_parse: "parse_tree sample_source sample_tree = (Inr sample_ast, snd (parse_tree sample_source sample_tree))"
proof -
  have "\<not> isl (fst (parse_tree sample_source sample_tree))" by code_simp
  then show ?thesis
    by (cases "parse_tree sample_source sample_tree"; cases "fst (parse_tree sample_source sample_tree)")
      (auto simp: sample_ast_def)
qed

theorem parsed_statements_ok_witness:
  "length (pg_nodes (visit_statements sample_ast)) = 2
   \<and> command_selectors (command_of (visit_statements sample_ast) 1) \<noteq> [] \<and> forced_owned (visit_statements sample_ast)"
proof -
  have n: "length (pg_nodes (visit_statements sample_ast)) = 2" by code_simp
  with parsed_statements_ok [OF sample_parse, of 1] show ?thesis by simp
qed

text \<open>
  C1. Executing a parsed query returns.  Whatever the database answers, the propagation of
  selections over the statements of a query that the parser accepted ends, with a result or an
  error: the worklist cannot run forever.  (Not returning is \<open>None\<close>.)
\<close>

theorem parsed_query_returns:
  assumes "parse_tree source tree = (Inr root, s)"
  shows "\<exists>r w'. compute_nodes api (ps_ops s) root (exec_ctx_new roots) w = Some (r, w')"
  using compute_nodes_returns [OF ids_forced_owned [OF parse_tree_ok [OF assms, THEN conjunct2, THEN conjunct2]],
      of api "ps_ops s" roots w] by auto

theorem parsed_query_returns_witness:
  "\<forall>(api :: (unit, unit) world_api) w. \<exists>r w'.
     compute_nodes api (ps_ops (snd (parse_tree sample_source sample_tree))) sample_ast (exec_ctx_new []) w = Some (r, w')"
  by (intro allI, rule parsed_query_returns [OF sample_parse])

end
