(* ===== verification/Index_Exact.thy ===== *)
theory Index_Exact
  imports Index_Queries
begin

text \<open>
  The queries of \<open>Index_Queries\<close> return exactly the rows one query over all visible layers
  returns, each once: the split into a persistent and an ephemeral branch, the merge by row
  key, the fast path of containment and the two passes of \<open>DISTINCT ON\<close> change nothing.
\<close>

subsection \<open>One family of rows\<close>

definition tables_ok :: "tables \<Rightarrow> bool" where
  "tables_ok db \<longleftrightarrow> distinct (map pr_id (tb_projects db)) \<and> distinct (map ob_id (tb_objects db))
     \<and> distinct (map sy_id (tb_symbols db)) \<and> distinct (map in_id (tb_instances db))
     \<and> distinct (map rf_id (tb_refs db)) \<and> distinct (map st_id (tb_types db))"

definition row_visible :: "(string \<times> int) list \<Rightarrow> eph_context \<Rightarrow> bool" where
  "row_visible al ec \<longleftrightarrow> (\<forall>l\<in>set (map snd al). l \<in> set (visible_ids ec))"

lemma layer_columns_all:
  assumes "distinct (map fst al)"
  shows "(\<forall>c\<in>set (map fst al). P (layer_column al c)) \<longleftrightarrow> (\<forall>l\<in>set (map snd al). P l)"
proof -
  have "layer_column al c = l" if "(c, l) \<in> set al" for c l
    using assms that by (simp add: layer_column_def)
  then show ?thesis by force
qed

lemma visible_no_chain:
  assumes "eph_wf ec" "\<not> has_chain ec"
  shows "visible_ids ec = root_ids ec"
proof -
  have "\<forall>c\<in>set (ec_chains ec). c = []"
    using assms by (auto simp: eph_wf_def has_chain_def split: list.splits)
  then show ?thesis by (simp add: visible_ids_concat concat_eq_Nil_conv)
qed

lemma merge_rows_set:
  assumes "inj_on key (set rs)"
  shows "set (merge_rows key {} rs) = set rs"
proof
  show "set (merge_rows key {} rs) \<subseteq> set rs" by (rule merge_rows_props)
  show "set rs \<subseteq> set (merge_rows key {} rs)"
  proof
    fix r assume r: "r \<in> set rs"
    then obtain r' where r': "r' \<in> set (merge_rows key {} rs)" "key r' = key r"
      using merge_rows_props(3) [of key "{}" rs] by (force simp: image_iff)
    have "r' \<in> set rs" by (rule subsetD [OF merge_rows_props(1) r'(1)])
    then show "r \<in> set (merge_rows key {} rs)"
      using r r' assms by (metis inj_onD)
  qed
qed

locale query_family =
  fixes layers :: "'r \<Rightarrow> (string \<times> int) list" and columns :: "string list"
    and key :: "'r \<Rightarrow> 'k" and join :: "tables \<Rightarrow> 'r list"
  assumes columns_some: "columns \<noteq> []" "distinct columns"
    and layers_columns: "map fst (layers r) = columns"
    and join_keyed: "tables_ok db \<Longrightarrow> distinct (map key (join db))"
begin

definition selects :: "eph_visibility \<Rightarrow> 'r \<Rightarrow> bool" where
  "selects vis r \<longleftrightarrow> branch_selects (layer_column (layers r)) columns vis"

lemma selects_combined: "selects (vis_combined ec) r \<longleftrightarrow> row_visible (layers r) ec"
  using layer_columns_all [of "layers r" "\<lambda>l. l \<in> set (visible_ids ec)"] columns_some(2)
  by (simp add: selects_def branch_selects_simps row_visible_def layers_columns)

lemma selects_partition:
  assumes "signed_layers ec"
  shows "selects (vis_combined ec) r \<longleftrightarrow> selects (vis_root_only ec) r \<or> selects (vis_eph_touching ec) r"
  using signed_visible_root [OF assms] columns_some(1)
  unfolding selects_def branch_selects_simps by blast

lemma selects_no_chain:
  assumes "eph_wf ec" "\<not> has_chain ec"
  shows "selects (vis_combined ec) r \<longleftrightarrow> selects (vis_root_only ec) r"
  using visible_no_chain [OF assms] by (simp add: selects_def branch_selects_simps)

lemma query_rows:
  "guarded layers (with_filter holds e (apply_visibility layers columns vis rows))
     = filter (\<lambda>r. selects vis r \<and> expr_value (holds r) e) rows"
  "guarded layers (with_ids col ids (with_filter holds e (apply_visibility layers columns vis rows)))
     = filter (\<lambda>r. selects vis r \<and> expr_value (holds r) e \<and> col r \<in> set ids) rows"
  "guarded layers (apply_visibility layers columns vis rows) = filter (selects vis) rows"
  by (auto simp: guarded_def with_filter_def with_ids_def apply_visibility_def selects_def branch_selects_def
      list_all_iff intro!: filter_cong)

lemma load_exact:
  assumes ok: "tables_ok db" "signed_layers ec" "eph_wf ec"
    and load: "\<And>vis rows. load vis = Inr rows \<Longrightarrow> rows = filter (\<lambda>r. selects vis r \<and> P vis r) (join db)"
    and same: "cd \<or> (\<forall>vis r. P vis r = P (vis_combined ec) r)"
    and result: "cached_load_partitioned load key ec cd = Inr rs"
  shows "set rs = {r \<in> set (join db). row_visible (layers r) ec \<and> P (vis_combined ec) r}"
    and "distinct (map key rs)"
proof -
  have keyed: "distinct (map key (join db))" by (rule join_keyed [OF ok(1)])
  then have inj: "inj_on key (set (join db))" by (simp add: distinct_map)
  have fdist: "distinct (map key (filter Q (join db)))" for Q
    using keyed by (simp add: distinct_map_filter)
  have "set rs = {r \<in> set (join db). selects (vis_combined ec) r \<and> P (vis_combined ec) r}
    \<and> distinct (map key rs)"
  proof (cases "cd \<or> \<not> has_chain ec")
    case True
    have "rs = filter (\<lambda>r. selects (vis_combined ec) r \<and> P (vis_combined ec) r) (join db)"
    proof (cases cd)
      case True
      then have "load (vis_combined ec) = Inr rs" using result by (simp add: cached_load_partitioned_def)
      then show ?thesis by (rule load)
    next
      case False
      then have "load (vis_root_only ec) = Inr rs" "\<not> has_chain ec"
        using True result by (simp_all add: cached_load_partitioned_def)
      then have rs: "rs = filter (\<lambda>r. selects (vis_root_only ec) r \<and> P (vis_root_only ec) r) (join db)"
        and chain: "\<not> has_chain ec"
        by (auto intro: load)
      have "P (vis_root_only ec) = P (vis_combined ec)" using False same by blast
      then show ?thesis unfolding rs by (simp only: selects_no_chain [OF ok(3) chain])
    qed
    then show ?thesis using fdist by simp
  next
    case False
    then obtain ps es where ps: "load (vis_root_only ec) = Inr ps" and es: "load (vis_eph_touching ec) = Inr es"
      and rs: "rs = merge_rows key {} (ps @ es)"
      using result by (auto simp: cached_load_partitioned_def rbind_Inr)
    have P: "P vis r = P (vis_combined ec) r" for vis r using False same by blast
    have rows: "ps = filter (\<lambda>r. selects (vis_root_only ec) r \<and> P (vis_combined ec) r) (join db)"
      "es = filter (\<lambda>r. selects (vis_eph_touching ec) r \<and> P (vis_combined ec) r) (join db)"
      using load [OF ps] load [OF es] by (simp_all only: P [of "vis_root_only ec"] P [of "vis_eph_touching ec"])
    have "set (ps @ es) \<subseteq> set (join db)" by (auto simp: rows)
    then have "set rs = set (ps @ es)"
      unfolding rs by (intro merge_rows_set) (rule inj_on_subset [OF inj])
    also have "\<dots> = {r \<in> set (join db). selects (vis_combined ec) r \<and> P (vis_combined ec) r}"
      using selects_partition [OF ok(2)] by (auto simp: rows)
    finally show ?thesis using merge_rows_props(2) rs by metis
  qed
  then show "set rs = {r \<in> set (join db). row_visible (layers r) ec \<and> P (vis_combined ec) r}"
    "distinct (map key rs)"
    by (simp_all add: selects_combined)
qed

end

lemma load_returns:
  assumes "\<And>vis. \<exists>rows. load vis = Inr rows"
  shows "\<exists>rs. cached_load_partitioned load key ec cd = Inr rs"
proof -
  have "\<forall>vis. \<exists>rows. load vis = Inr rows" using assms by blast
  then obtain f where "load vis = Inr (f vis)" for vis by metis
  then show ?thesis by (simp add: cached_load_partitioned_def)
qed

subsection \<open>Keys identify rows\<close>

lemma distinct_concat_map:
  assumes "distinct xs" "\<And>x. x \<in> set xs \<Longrightarrow> distinct (f x)"
    and "\<And>x y z. x \<in> set xs \<Longrightarrow> y \<in> set xs \<Longrightarrow> z \<in> set (f x) \<Longrightarrow> z \<in> set (f y) \<Longrightarrow> x = y"
  shows "distinct (concat (map f xs))"
  using assms
proof (induction xs)
  case (Cons x xs)
  have "x = y" if "y \<in> set xs" "z \<in> set (f x)" "z \<in> set (f y)" for y z
    by (rule Cons.prems(3) [of x y z]) (use that in simp_all)
  then have "set (f x) \<inter> set (concat (map f xs)) = {}"
    using Cons.prems(1) by fastforce
  then show ?case using Cons by simp
qed simp

lemma tables_distinct:
  assumes "tables_ok db"
  shows "distinct (tb_projects db)" "distinct (tb_objects db)" "distinct (tb_symbols db)"
    "distinct (tb_instances db)" "distinct (tb_refs db)" "distinct (tb_types db)"
  using assms by (auto simp: tables_ok_def distinct_map)

lemma tables_inj:
  assumes "tables_ok db"
  shows "p \<in> set (tb_projects db) \<Longrightarrow> p' \<in> set (tb_projects db) \<Longrightarrow> pr_id p = pr_id p' \<Longrightarrow> p = p'"
    "ob \<in> set (tb_objects db) \<Longrightarrow> ob' \<in> set (tb_objects db) \<Longrightarrow> ob_id ob = ob_id ob' \<Longrightarrow> ob = ob'"
    "s \<in> set (tb_symbols db) \<Longrightarrow> s' \<in> set (tb_symbols db) \<Longrightarrow> sy_id s = sy_id s' \<Longrightarrow> s = s'"
    "i \<in> set (tb_instances db) \<Longrightarrow> i' \<in> set (tb_instances db) \<Longrightarrow> in_id i = in_id i' \<Longrightarrow> i = i'"
    "r \<in> set (tb_refs db) \<Longrightarrow> r' \<in> set (tb_refs db) \<Longrightarrow> rf_id r = rf_id r' \<Longrightarrow> r = r'"
    "ty \<in> set (tb_types db) \<Longrightarrow> ty' \<in> set (tb_types db) \<Longrightarrow> st_id ty = st_id ty' \<Longrightarrow> ty = ty'"
  using assms by (auto simp: tables_ok_def distinct_map dest: inj_onD)

lemmas join_defs = current_join_def parents_join_def children_join_def has_parents_join_def has_children_join_def

lemma joins_distinct:
  assumes "tables_ok db"
  shows "distinct (current_join db)" "distinct (parents_join db)" "distinct (children_join db)"
    "distinct (has_parents_join db)" "distinct (has_children_join db)"
  unfolding join_defs
  by (intro distinct_concat_map; auto simp: tables_distinct [OF assms] distinct_map inj_on_def)+

lemma joins_inj:
  assumes "tables_ok db"
  shows "inj_on current_key (set (current_join db))" "inj_on parents_key (set (parents_join db))"
    "inj_on children_key (set (children_join db))"
    "inj_on has_parents_key (set (has_parents_join db))"
    "inj_on has_children_key (set (has_children_join db))"
  by (rule inj_onI, auto simp: join_defs current_key_def parents_key_def children_key_def
        has_parents_key_def has_children_key_def; metis tables_inj [OF assms])+

lemma joins_keyed:
  assumes "tables_ok db"
  shows "distinct (map current_key (current_join db))" "distinct (map parents_key (parents_join db))"
    "distinct (map children_key (children_join db))"
    "distinct (map has_parents_key (has_parents_join db))"
    "distinct (map has_children_key (has_children_join db))"
  by (simp_all add: distinct_map joins_distinct [OF assms] joins_inj [OF assms])

interpretation current: query_family current_layers current_columns current_key current_join
  by unfold_locales (auto simp: current_columns_def current_layers_def intro: joins_keyed)

interpretation parents: query_family parents_layers ref_columns parents_key parents_join
  by unfold_locales (auto simp: ref_columns_def parents_layers_def intro: joins_keyed)

interpretation children: query_family children_layers ref_columns children_key children_join
  by unfold_locales (auto simp: ref_columns_def children_layers_def intro: joins_keyed)

interpretation has_parents: query_family has_parents_layers has_parents_columns has_parents_key has_parents_join
  by unfold_locales (auto simp: has_parents_columns_def has_parents_layers_def intro: joins_keyed)

interpretation has_children: query_family has_children_layers has_children_columns has_children_key has_children_join
  by unfold_locales (auto simp: has_children_columns_def has_children_layers_def intro: joins_keyed)

subsection \<open>The rows a single query over all visible layers returns\<close>

definition current_rows :: "index_db \<Rightarrow> composite_filter \<Rightarrow> eph_context \<Rightarrow> current_row set" where
  "current_rows ix f ec =
     {r \<in> set (current_join (ix_tables ix)). row_visible (current_layers r) ec
        \<and> expr_value (current_holds (ix_ops ix) r) (compose_current f (vis_combined ec))}"

definition parents_rows :: "index_db \<Rightarrow> composite_filter \<Rightarrow> int set \<Rightarrow> eph_context \<Rightarrow> parents_row set" where
  "parents_rows ix f sources ec =
     {(r, s, i, pd, ps) \<in> set (parents_join (ix_tables ix)).
        row_visible (parents_layers (r, s, i, pd, ps)) ec \<and> in_id i \<in> sources
        \<and> expr_value (parents_holds (ix_ops ix) (r, s, i, pd, ps)) (compose_parents f (vis_combined ec))}"

definition children_rows :: "index_db \<Rightarrow> composite_filter \<Rightarrow> int set \<Rightarrow> eph_context \<Rightarrow> children_row set" where
  "children_rows ix f sources ec =
     {(ps, s, i, pd, r, ob) \<in> set (children_join (ix_tables ix)).
        row_visible (children_layers (ps, s, i, pd, r, ob)) ec \<and> in_id pd \<in> sources
        \<and> expr_value (children_holds (ix_tables ix) (ps, s, i, pd, r, ob)) (compose_children f (vis_combined ec))}"

definition has_parents_rows :: "index_db \<Rightarrow> composite_filter \<Rightarrow> int set \<Rightarrow> eph_context \<Rightarrow> has_parents_row set" where
  "has_parents_rows ix f sources ec =
     {(s, i, ty, cs, ci, cty) \<in> set (has_parents_join (ix_tables ix)).
        row_visible (has_parents_layers (s, i, ty, cs, ci, cty)) ec \<and> in_id i \<in> sources
        \<and> expr_value (has_parents_holds (ix_tables ix) (s, i, ty, cs, ci, cty))
            (compose_has_parents f (vis_combined ec))}"

definition has_children_rows :: "index_db \<Rightarrow> composite_filter \<Rightarrow> int set \<Rightarrow> eph_context \<Rightarrow> has_children_row set" where
  "has_children_rows ix f sources ec =
     {(s, i, ty, ob, cs, ci, cty) \<in> set (has_children_join (ix_tables ix)).
        row_visible (has_children_layers (s, i, ty, ob, cs, ci, cty)) ec \<and> in_id i \<in> sources
        \<and> expr_value (has_children_holds (ix_tables ix) (s, i, ty, ob, cs, ci, cty))
            (compose_has_children f (vis_combined ec))}"

definition index_ok :: "index_db \<Rightarrow> eph_context \<Rightarrow> bool" where
  "index_ok ix ec \<longleftrightarrow> tables_ok (ix_tables ix) \<and> signed_layers ec \<and> eph_wf ec"

lemma run_load_Inr: "run_load ix what vis rows = Inr rs \<longleftrightarrow> ix_failure ix what (vis_branch vis) = None \<and> rs = rows"
  by (auto simp: run_load_def split: option.splits)

lemma current_exact:
  assumes "index_ok ix ec"
    and "cached_load_partitioned (load_current ix what f) current_key ec (is_chain_dependent f) = Inr rs"
  shows "set rs = current_rows ix f ec" "distinct (map current_key rs)"
proof -
  let ?P = "\<lambda>vis r. expr_value (current_holds (ix_ops ix) r) (compose_current f vis)"
  have load: "rows = filter (\<lambda>r. current.selects vis r \<and> ?P vis r) (current_join (ix_tables ix))"
    if "load_current ix what f vis = Inr rows" for vis rows
    using that by (simp add: load_current_def run_load_Inr build_current_query_def current.query_rows)
  have same: "is_chain_dependent f \<or> (\<forall>vis r. ?P vis r = ?P (vis_combined ec) r)"
    using compose_vis_free(1) [of f _ "vis_combined ec"] by metis
  note ok = assms(1) [unfolded index_ok_def]
  note exact = current.load_exact [where P = ?P, OF _ _ _ load same assms(2)]
  show "set rs = current_rows ix f ec" using exact(1) ok by (auto simp: current_rows_def)
  show "distinct (map current_key rs)" using exact(2) ok by blast
qed

text \<open>The rows in scope.\<close>

definition in_scope :: "('r \<Rightarrow> int) \<Rightarrow> int list option \<Rightarrow> 'r \<Rightarrow> bool" where
  "in_scope col scope r \<longleftrightarrow> (case scope of None \<Rightarrow> True | Some ids \<Rightarrow> col r \<in> set ids)"

lemma parents_exact:
  assumes "index_ok ix ec"
    and "cached_load_partitioned (load_parents ix what f ids scope) parents_key ec (is_chain_dependent f) = Inr rs"
  shows "set rs = {row \<in> parents_rows ix f (set ids) ec. in_scope (\<lambda>(r, s, i, pd, ps). in_id pd) scope row}"
    "distinct (map parents_key rs)"
proof -
  let ?P = "\<lambda>vis row. expr_value (parents_holds (ix_ops ix) row) (compose_parents f vis)
     \<and> (case row of (r, s, i, pd, ps) \<Rightarrow> in_id i \<in> set ids)
     \<and> in_scope (\<lambda>(r, s, i, pd, ps). in_id pd) scope row"
  have load: "rows = filter (\<lambda>r. parents.selects vis r \<and> ?P vis r) (parents_join (ix_tables ix))"
    if "load_parents ix what f ids scope vis = Inr rows" for vis rows
    using that
    by (cases scope) (auto simp: load_parents_def Let_def run_load_Inr build_parents_query_def parents.query_rows
        in_scope_def intro!: filter_cong)
  have same: "is_chain_dependent f \<or> (\<forall>vis r. ?P vis r = ?P (vis_combined ec) r)"
    using compose_vis_free(2) [of f _ "vis_combined ec"] by metis
  note ok = assms(1) [unfolded index_ok_def]
  note exact = parents.load_exact [where P = ?P, OF _ _ _ load same assms(2)]
  show "set rs = {row \<in> parents_rows ix f (set ids) ec. in_scope (\<lambda>(r, s, i, pd, ps). in_id pd) scope row}"
    using exact(1) ok by (auto simp: parents_rows_def)
  show "distinct (map parents_key rs)" using exact(2) ok by blast
qed

lemma children_exact:
  assumes "index_ok ix ec"
    and "cached_load_partitioned (load_children ix what f ids scope) children_key ec (is_chain_dependent f) = Inr rs"
  shows "set rs = {row \<in> children_rows ix f (set ids) ec. in_scope (\<lambda>(ps, s, i, pd, r, ob). in_id i) scope row}"
    "distinct (map children_key rs)"
proof -
  let ?P = "\<lambda>vis row. expr_value (children_holds (ix_tables ix) row) (compose_children f vis)
     \<and> (case row of (ps, s, i, pd, r, ob) \<Rightarrow> in_id pd \<in> set ids)
     \<and> in_scope (\<lambda>(ps, s, i, pd, r, ob). in_id i) scope row"
  have load: "rows = filter (\<lambda>r. children.selects vis r \<and> ?P vis r) (children_join (ix_tables ix))"
    if "load_children ix what f ids scope vis = Inr rows" for vis rows
    using that
    by (cases scope) (auto simp: load_children_def Let_def run_load_Inr build_children_query_def children.query_rows
        in_scope_def intro!: filter_cong)
  have same: "is_chain_dependent f \<or> (\<forall>vis r. ?P vis r = ?P (vis_combined ec) r)"
    using compose_vis_free(3) [of f _ "vis_combined ec"] by metis
  note ok = assms(1) [unfolded index_ok_def]
  note exact = children.load_exact [where P = ?P, OF _ _ _ load same assms(2)]
  show "set rs = {row \<in> children_rows ix f (set ids) ec. in_scope (\<lambda>(ps, s, i, pd, r, ob). in_id i) scope row}"
    using exact(1) ok by (auto simp: children_rows_def)
  show "distinct (map children_key rs)" using exact(2) ok by blast
qed

lemma has_parents_exact:
  assumes "index_ok ix ec"
    and "cached_load_partitioned (load_has_parents ix what f ids) has_parents_key ec (is_chain_dependent f) = Inr rs"
  shows "set rs = has_parents_rows ix f (set ids) ec" "distinct (map has_parents_key rs)"
proof -
  let ?P = "\<lambda>vis row. expr_value (has_parents_holds (ix_tables ix) row) (compose_has_parents f vis)
     \<and> (case row of (s, i, ty, cs, ci, cty) \<Rightarrow> in_id i \<in> set ids)"
  have load: "rows = filter (\<lambda>r. has_parents.selects vis r \<and> ?P vis r) (has_parents_join (ix_tables ix))"
    if "load_has_parents ix what f ids vis = Inr rows" for vis rows
    using that
    by (auto simp: load_has_parents_def run_load_Inr build_has_parents_query_def has_parents.query_rows
        intro!: filter_cong)
  have same: "is_chain_dependent f \<or> (\<forall>vis r. ?P vis r = ?P (vis_combined ec) r)"
    using compose_vis_free(4) [of f _ "vis_combined ec"] by metis
  note ok = assms(1) [unfolded index_ok_def]
  note exact = has_parents.load_exact [where P = ?P, OF _ _ _ load same assms(2)]
  show "set rs = has_parents_rows ix f (set ids) ec" using exact(1) ok by (auto simp: has_parents_rows_def)
  show "distinct (map has_parents_key rs)" using exact(2) ok by blast
qed

text \<open>The common table expression holds the source ids a visible row can have.\<close>

lemma cte_candidates:
  assumes "(s, i, ty, ob, cs, ci, cty) \<in> set (has_children_join db)"
    and "has_children.selects vis (s, i, ty, ob, cs, ci, cty)"
  shows "in_id i \<in> set (build_has_children_cte_body db ids vis) \<longleftrightarrow> in_id i \<in> set ids"
proof -
  have "i \<in> set (tb_instances db)" using assms(1) by (auto simp: has_children_join_def)
  moreover have "sees (vis_branch vis) (in_layer i)"
    using assms(2) [unfolded has_children.selects_def branch_selects_def]
    by (simp add: has_children_columns_def has_children_layers_def layer_column_def pred_value_def sees_def)
  ultimately show ?thesis by (auto simp: build_has_children_cte_body_def)
qed

lemma constrains_has_children_None:
  "no_empty_or f \<Longrightarrow> \<not> constrains_has_children f \<Longrightarrow> compose_has_children f vis = None"
  using has_children_shape [of f vis] by (simp add: compose_has_children_def)

lemma has_children_exact:
  assumes "index_ok ix ec" and "no_empty_or f"
    and "cached_load_partitioned (load_has_children ix what f ids) has_children_key ec (is_chain_dependent f) = Inr rs"
  shows "set rs = has_children_rows ix f (set ids) ec" "distinct (map has_children_key rs)"
proof -
  let ?P = "\<lambda>vis row. expr_value (has_children_holds (ix_tables ix) row) (compose_has_children f vis)
     \<and> (case row of (s, i, ty, ob, cs, ci, cty) \<Rightarrow> in_id i \<in> set ids)"
  have load: "rows = filter (\<lambda>r. has_children.selects vis r \<and> ?P vis r) (has_children_join (ix_tables ix))"
    if "load_has_children ix what f ids vis = Inr rows" for vis rows
  proof (cases "constrains_has_children f")
    case True
    then show ?thesis using that
      by (auto simp: load_has_children_def Let_def run_load_Inr build_has_children_query_def
          build_has_children_inner_def has_children.query_rows intro!: filter_cong)
  next
    case False
    then have "expr_value h (compose_has_children f vis)" for h
      using constrains_has_children_None [OF assms(2)] by (simp add: expr_value_def)
    then show ?thesis using that False
      by (auto simp: load_has_children_def run_load_Inr build_has_children_query_against_cte_def
          build_has_children_inner_def has_children.query_rows Let_def cte_candidates intro!: filter_cong)
  qed
  have same: "is_chain_dependent f \<or> (\<forall>vis r. ?P vis r = ?P (vis_combined ec) r)"
    using compose_vis_free(5) [of f _ "vis_combined ec"] by metis
  note ok = assms(1) [unfolded index_ok_def]
  note exact = has_children.load_exact [where P = ?P, OF _ _ _ load same assms(3)]
  show "set rs = has_children_rows ix f (set ids) ec" using exact(1) ok by (auto simp: has_children_rows_def)
  show "distinct (map has_children_key rs)" using exact(2) ok by blast
qed

subsection \<open>Reads return when the loads do\<close>

definition loads_return :: "index_db \<Rightarrow> bool" where
  "loads_return ix \<longleftrightarrow> ix_failure ix = (\<lambda>what v. None)"

lemma run_load_returns: "loads_return ix \<Longrightarrow> run_load ix what vis rows = Inr rows"
  by (simp add: run_load_def loads_return_def)

lemma partitioned_returns:
  assumes "loads_return ix"
  shows "\<exists>rs. cached_load_partitioned (load_current ix what f) current_key ec cd = Inr rs"
    "\<exists>rs. cached_load_partitioned (load_parents ix what f ids scope) parents_key ec cd = Inr rs"
    "\<exists>rs. cached_load_partitioned (load_children ix what f ids scope) children_key ec cd = Inr rs"
    "\<exists>rs. cached_load_partitioned (load_has_parents ix what f ids) has_parents_key ec cd = Inr rs"
    "\<exists>rs. cached_load_partitioned (load_has_children ix what f ids) has_children_key ec cd = Inr rs"
    "\<exists>rs. cached_load_partitioned (load_edges ix ids) edge_key ec cd = Inr rs"
  by (rule load_returns; simp add: load_current_def load_parents_def load_children_def load_has_parents_def
      load_has_children_def load_edges_def Let_def run_load_returns [OF assms])+

text \<open>The instances a scope allows.\<close>

definition role_ids :: "index_db \<Rightarrow> scope_role \<Rightarrow> eph_context \<Rightarrow> int list option" where
  "role_ids ix role ec =
     (let v = Combined (visible_ids ec) in
      case role of
        ChildrenOf ids \<Rightarrow> if ids = [] then None else Some (referenced_instances (ix_tables ix) v ids)
      | ParentsOf ids \<Rightarrow> if ids = [] then None else Some (referring_instances (ix_tables ix) v ids))"

definition scope_set :: "index_db \<Rightarrow> scope_context \<Rightarrow> scope_role \<Rightarrow> eph_context \<Rightarrow> int set" where
  "scope_set ix scope role ec =
     (case scope of
        Skip \<Rightarrow> {}
      | Unscoped \<Rightarrow> UNIV
      | Scope ids f \<Rightarrow> set ids \<union> (case f of
          None \<Rightarrow> {}
        | Some f' \<Rightarrow> current_key ` {r \<in> current_rows ix f' ec. in_scope current_key (role_ids ix role ec) r}))"

lemma resolve_filter_exact:
  assumes "loads_return ix" and "index_ok ix ec"
  shows "\<exists>ids. resolve_filter_to_ids ix f (Some role) ec = Inr ids \<and> sorted ids \<and> distinct ids
    \<and> set ids = current_key ` {r \<in> current_rows ix f ec. in_scope current_key (role_ids ix role ec) r}"
proof -
  let ?db = "ix_tables ix" and ?vis = "vis_combined ec"
  let ?q = "filter (\<lambda>r. expr_value (current_holds (ix_ops ix) r) (compose_current f ?vis))
    (filter (\<lambda>r. list_all (\<lambda>c. pred_value (layer_column (current_layers r)) c ?vis) current_columns) (current_join ?db))"
  have pre: "list_all (\<lambda>c. pred_value (layer_column (current_layers r)) c ?vis) current_columns
      \<longleftrightarrow> row_visible (current_layers r) ec" for r
    using current.selects_combined [of ec r]
    by (simp add: current.selects_def branch_selects_def list_all_iff guard_value_def apply_preds_simps
        vis_combined_def vis_new_def)
  have q: "set ?q = current_rows ix f ec" by (auto simp: current_rows_def pre)
  have v: "vis_branch ?vis = Combined (visible_ids ec)" by (simp add: vis_combined_def vis_new_def)
  let ?rows = "filter (in_scope current_key (role_ids ix role ec)) ?q"
  have "resolve_filter_to_ids ix f (Some role) ec = Inr (sort_dedup (map current_key ?rows))"
    unfolding resolve_filter_to_ids_def
    by (cases role) (simp_all add: Let_def with_filter_def with_ids_def build_current_query_def
        apply_visibility_def run_load_returns [OF assms(1)] role_ids_def v in_scope_def)
  moreover have "set ?rows = {r \<in> current_rows ix f ec. in_scope current_key (role_ids ix role ec) r}"
    using q by auto
  ultimately show ?thesis by simp
qed

lemma resolve_scope_exact:
  assumes "loads_return ix" and "index_ok ix ec"
  shows "\<exists>all. resolve_scope_ids ix ids f (Some role) ec = Inr all
    \<and> set all = scope_set ix (Scope ids f) role ec"
  using resolve_filter_exact [OF assms, of _ role]
  by (cases f) (auto simp: resolve_scope_ids_def scope_set_def rbind_Inr, (metis set_append set_sort_dedup)+)

lemma select_parents_exact:
  assumes "loads_return ix" and "index_ok ix ec"
  shows "\<exists>rs. select_parents ix f ids scope ec = Inr rs \<and> distinct (map parents_key rs)
    \<and> set rs = {(r, s, i, pd, ps) \<in> parents_rows ix f (set ids) ec. in_id pd \<in> scope_set ix scope (ParentsOf ids) ec}"
proof -
  have load: "\<exists>rs. map_err h (cached_load_partitioned (load_parents ix what f ids scope_ids) parents_key ec
      (is_chain_dependent f)) = Inr rs \<and> distinct (map parents_key rs)
      \<and> set rs = {row \<in> parents_rows ix f (set ids) ec. in_scope (\<lambda>(r, s, i, pd, ps). in_id pd) scope_ids row}"
    for h :: "string \<Rightarrow> string" and what scope_ids
    unfolding map_err_Inr
    using partitioned_returns(2) [OF assms(1), of what f ids scope_ids ec "is_chain_dependent f"]
      parents_exact [OF assms(2), of what f ids scope_ids] by blast
  show ?thesis
  proof (cases scope)
    case (Scope known sf)
    obtain all where all: "resolve_scope_ids ix known sf (Some (ParentsOf ids)) ec = Inr all"
      and set_all: "set all = scope_set ix (Scope known sf) (ParentsOf ids) ec"
      using resolve_scope_exact [OF assms] by blast
    show ?thesis
      using load [of _ "''select_parents''" "Some all"] Scope all set_all
      by (auto simp: select_parents_def in_scope_def)
  qed (use load [of _ "''select_parents''" None] in
      \<open>auto simp: select_parents_def in_scope_def scope_set_def\<close>)
qed

lemma select_children_exact:
  assumes "loads_return ix" and "index_ok ix ec"
  shows "\<exists>rs. select_children ix f ids scope ec = Inr rs \<and> distinct (map children_key rs)
    \<and> set rs = {(ps, s, i, pd, r, ob) \<in> children_rows ix f (set ids) ec. in_id i \<in> scope_set ix scope (ChildrenOf ids) ec}"
proof -
  have load: "\<exists>rs. map_err h (cached_load_partitioned (load_children ix what f ids scope_ids) children_key ec
      (is_chain_dependent f)) = Inr rs \<and> distinct (map children_key rs)
      \<and> set rs = {row \<in> children_rows ix f (set ids) ec. in_scope (\<lambda>(ps, s, i, pd, r, ob). in_id i) scope_ids row}"
    for h :: "string \<Rightarrow> string" and what scope_ids
    unfolding map_err_Inr
    using partitioned_returns(3) [OF assms(1), of what f ids scope_ids ec "is_chain_dependent f"]
      children_exact [OF assms(2), of what f ids scope_ids] by blast
  show ?thesis
  proof (cases scope)
    case (Scope known sf)
    obtain all where all: "resolve_scope_ids ix known sf (Some (ChildrenOf ids)) ec = Inr all"
      and set_all: "set all = scope_set ix (Scope known sf) (ChildrenOf ids) ec"
      using resolve_scope_exact [OF assms] by blast
    show ?thesis
      using load [of _ "''select_children''" "Some all"] Scope all set_all
      by (auto simp: select_children_def in_scope_def)
  qed (use load [of _ "''select_children''" None] in
      \<open>auto simp: select_children_def in_scope_def scope_set_def\<close>)
qed

lemma select_others_exact:
  assumes "loads_return ix" and "index_ok ix ec"
  shows "\<exists>rs. select_current ix f ec = Inr rs \<and> distinct (map current_key rs) \<and> set rs = current_rows ix f ec"
    "\<exists>rs. select_has_parents ix f ids ec = Inr rs \<and> distinct (map has_parents_key rs)
      \<and> set rs = has_parents_rows ix f (set ids) ec"
    "no_empty_or f \<Longrightarrow> \<exists>rs. select_has_children ix f ids ec = Inr rs \<and> distinct (map has_children_key rs)
      \<and> set rs = has_children_rows ix f (set ids) ec"
proof -
  show "\<exists>rs. select_current ix f ec = Inr rs \<and> distinct (map current_key rs) \<and> set rs = current_rows ix f ec"
    unfolding select_current_def map_err_Inr
    using partitioned_returns(1) [OF assms(1), of "''select_current''" f ec "is_chain_dependent f"]
      current_exact [OF assms(2), of "''select_current''" f] by blast
  show "\<exists>rs. select_has_parents ix f ids ec = Inr rs \<and> distinct (map has_parents_key rs)
      \<and> set rs = has_parents_rows ix f (set ids) ec"
    unfolding select_has_parents_def map_err_Inr
    using partitioned_returns(4) [OF assms(1), of "''select_has_parents''" f ids ec "is_chain_dependent f"]
      has_parents_exact [OF assms(2), of "''select_has_parents''" f ids] by blast
  show "no_empty_or f \<Longrightarrow> \<exists>rs. select_has_children ix f ids ec = Inr rs \<and> distinct (map has_children_key rs)
      \<and> set rs = has_children_rows ix f (set ids) ec"
    unfolding select_has_children_def map_err_Inr
    using partitioned_returns(5) [OF assms(1), of "''select_has_children''" f ids ec "is_chain_dependent f"]
      has_children_exact [OF assms(2), of f "''select_has_children''" ids] by blast
qed

subsection \<open>The selection never leaks a layer\<close>

definition objects_visible :: "tables \<Rightarrow> eph_context \<Rightarrow> bool" where
  "objects_visible db ec \<longleftrightarrow>
     (\<forall>i\<in>set (tb_instances db). \<forall>ob\<in>set (tb_objects db).
        ob_id ob = in_object_id i \<longrightarrow> in_layer i \<in> set (visible_ids ec) \<longrightarrow> ob_layer ob \<in> set (visible_ids ec))"

lemmas layers_defs = current_layers_def parents_layers_def children_layers_def has_parents_layers_def
  has_children_layers_def

lemma visible_rows:
  "(s, i, ob, p) \<in> current_rows ix f ec \<Longrightarrow>
     {sy_layer s, in_layer i} \<subseteq> set (visible_ids ec) \<and> i \<in> set (tb_instances (ix_tables ix))
      \<and> ob \<in> set (tb_objects (ix_tables ix)) \<and> ob_id ob = in_object_id i"
  "(r, s, i, pd, ps) \<in> parents_rows ix f ids ec \<Longrightarrow>
     {rf_layer r, sy_layer s, in_layer i, in_layer pd} \<subseteq> set (visible_ids ec)"
  "(ps, s, i, pd, r, ob) \<in> children_rows ix f ids ec \<Longrightarrow>
     {sy_layer ps, sy_layer s, in_layer i, in_layer pd, rf_layer r} \<subseteq> set (visible_ids ec)
      \<and> pd \<in> set (tb_instances (ix_tables ix)) \<and> ob \<in> set (tb_objects (ix_tables ix)) \<and> ob_id ob = in_object_id pd"
  "(s, i, ty, cs, ci, cty) \<in> has_parents_rows ix f ids ec \<Longrightarrow>
     {sy_layer s, in_layer i, sy_layer cs, in_layer ci} \<subseteq> set (visible_ids ec)"
  "(s, i, ty, ob, cs, ci, cty) \<in> has_children_rows ix f ids ec \<Longrightarrow>
     {sy_layer s, in_layer i, sy_layer cs, in_layer ci} \<subseteq> set (visible_ids ec)
      \<and> i \<in> set (tb_instances (ix_tables ix)) \<and> ob \<in> set (tb_objects (ix_tables ix)) \<and> ob_id ob = in_object_id i"
  by (auto simp: current_rows_def parents_rows_def children_rows_def has_parents_rows_def has_children_rows_def
      row_visible_def layers_defs join_defs)

lemmas row_images = node_of_row_def parent_of_row_def child_of_row_def has_parent_of_row_def has_child_of_row_def

lemma visible_images:
  assumes "objects_visible (ix_tables ix) ec"
  shows "r1 \<in> current_rows ix f ec \<Longrightarrow> n = node_of_row r1 \<Longrightarrow>
      {sy_layer (nd_symbol n), in_layer (nd_instance n), ob_layer (nd_object n)} \<subseteq> set (visible_ids ec)"
    "r2 \<in> parents_rows ix f ids ec \<Longrightarrow> p = parent_of_row r2 \<Longrightarrow>
      {sy_layer (pf_to_symbol p), in_layer (pf_to_instance p), in_layer (pf_from_instance p), rf_layer (pf_ref p)}
        \<subseteq> set (visible_ids ec)"
    "r3 \<in> children_rows ix f ids ec \<Longrightarrow> c = child_of_row r3 \<Longrightarrow>
      {sy_layer (cf_parent_symbol c), sy_layer (cf_symbol c), in_layer (cf_instance c),
       in_layer (cf_from_instance c), rf_layer (cf_ref c), ob_layer (cf_from_object c)} \<subseteq> set (visible_ids ec)"
    "r4 \<in> has_parents_rows ix f ids ec \<Longrightarrow> h = has_parent_of_row r4 \<Longrightarrow>
      {sy_layer (hp_child_symbol h), in_layer (hp_child_instance h), sy_layer (hp_parent_symbol h),
       in_layer (hp_parent_instance h)} \<subseteq> set (visible_ids ec)"
    "r5 \<in> has_children_rows ix f ids ec \<Longrightarrow> k = has_child_of_row r5 \<Longrightarrow>
      {sy_layer (hc_parent_symbol k), in_layer (hc_parent_instance k), sy_layer (hc_child_symbol k),
       in_layer (hc_child_instance k), ob_layer (hc_parent_object k)} \<subseteq> set (visible_ids ec)"
proof -
  have obv: "ob_layer ob \<in> set (visible_ids ec)"
    if "i \<in> set (tb_instances (ix_tables ix)) \<and> ob \<in> set (tb_objects (ix_tables ix)) \<and> ob_id ob = in_object_id i"
      "in_layer i \<in> set (visible_ids ec)" for i ob
    using assms that unfolding objects_visible_def by blast
  show "r1 \<in> current_rows ix f ec \<Longrightarrow> n = node_of_row r1 \<Longrightarrow>
      {sy_layer (nd_symbol n), in_layer (nd_instance n), ob_layer (nd_object n)} \<subseteq> set (visible_ids ec)"
    using visible_rows(1) obv by (cases r1) (force simp: row_images)
  show "r2 \<in> parents_rows ix f ids ec \<Longrightarrow> p = parent_of_row r2 \<Longrightarrow>
      {sy_layer (pf_to_symbol p), in_layer (pf_to_instance p), in_layer (pf_from_instance p), rf_layer (pf_ref p)}
        \<subseteq> set (visible_ids ec)"
    using visible_rows(2) by (cases r2) (force simp: row_images)
  show "r3 \<in> children_rows ix f ids ec \<Longrightarrow> c = child_of_row r3 \<Longrightarrow>
      {sy_layer (cf_parent_symbol c), sy_layer (cf_symbol c), in_layer (cf_instance c),
       in_layer (cf_from_instance c), rf_layer (cf_ref c), ob_layer (cf_from_object c)} \<subseteq> set (visible_ids ec)"
    using visible_rows(3) obv by (cases r3) (force simp: row_images)
  show "r4 \<in> has_parents_rows ix f ids ec \<Longrightarrow> h = has_parent_of_row r4 \<Longrightarrow>
      {sy_layer (hp_child_symbol h), in_layer (hp_child_instance h), sy_layer (hp_parent_symbol h),
       in_layer (hp_parent_instance h)} \<subseteq> set (visible_ids ec)"
    using visible_rows(4) by (cases r4) (force simp: row_images)
  show "r5 \<in> has_children_rows ix f ids ec \<Longrightarrow> k = has_child_of_row r5 \<Longrightarrow>
      {sy_layer (hc_parent_symbol k), in_layer (hc_parent_instance k), sy_layer (hc_child_symbol k),
       in_layer (hc_child_instance k), ob_layer (hc_parent_object k)} \<subseteq> set (visible_ids ec)"
    using visible_rows(5) obv by (cases r5) (force simp: row_images)
qed

lemma rows_isolated:
  assumes obv: "objects_visible (ix_tables ix) ec"
    and sub: "set cs \<subseteq> current_rows ix f ec" "set ps \<subseteq> parents_rows ix f ids ec" "set ch \<subseteq> children_rows ix f ids ec"
      "set hp \<subseteq> has_parents_rows ix f ids ec" "set hc \<subseteq> has_children_rows ix f ids ec"
  shows "checked_new (selection_of_rows cs ps ch hp hc) ec = Inr (selection_of_rows cs ps ch hp hc)"
proof -
  note img = visible_images [OF obv]
  have "selection_layers (selection_of_rows cs ps ch hp hc) \<subseteq> set (visible_ids ec)"
    unfolding selection_layers_def selection_of_rows_def selection.simps set_map set_sort Un_subset_iff UN_subset_iff
    by (intro conjI ballI; erule imageE;
        rule img(1) [OF subsetD [OF sub(1)]] img(2) [OF subsetD [OF sub(2)]] img(3) [OF subsetD [OF sub(3)]]
          img(4) [OF subsetD [OF sub(4)]] img(5) [OF subsetD [OF sub(5)]]; assumption)
  then show ?thesis by (simp add: checked_new_def has_eph_leak_iff)
qed

lemma find_symbol_returns:
  assumes "loads_return ix" "index_ok ix ec" "objects_visible (ix_tables ix) ec" "no_empty_or f"
  obtains current parents children has_parents has_children
  where "find_symbol ix f parent_scope children_scope ec
      = Inr (selection_of_rows current parents children has_parents has_children)"
    and "set current = current_rows ix f ec" "distinct (map current_key current)"
    and "let ids = sort_dedup (map current_key current) in
      distinct (map parents_key parents) \<and> distinct (map children_key children)
      \<and> distinct (map has_parents_key has_parents) \<and> distinct (map has_children_key has_children)
      \<and> set parents = {(r, s, i, pd, ps) \<in> parents_rows ix f (set ids) ec.
            in_id pd \<in> scope_set ix parent_scope (ParentsOf ids) ec}
      \<and> set children = {(ps, s, i, pd, r, ob) \<in> children_rows ix f (set ids) ec.
            in_id i \<in> scope_set ix children_scope (ChildrenOf ids) ec}
      \<and> set has_parents = has_parents_rows ix f (set ids) ec
      \<and> set has_children = has_children_rows ix f (set ids) ec"
proof -
  obtain current where cur: "select_current ix f ec = Inr current" "set current = current_rows ix f ec"
    "distinct (map current_key current)"
    using select_others_exact(1) [OF assms(1,2)] by blast
  define ids where "ids = sort_dedup (map current_key current)"
  obtain parents where par: "select_parents ix f ids parent_scope ec = Inr parents" "distinct (map parents_key parents)"
    "set parents = {(r, s, i, pd, ps) \<in> parents_rows ix f (set ids) ec. in_id pd \<in> scope_set ix parent_scope (ParentsOf ids) ec}"
    using select_parents_exact [OF assms(1,2)] by blast
  obtain children where chi: "select_children ix f ids children_scope ec = Inr children" "distinct (map children_key children)"
    "set children = {(ps, s, i, pd, r, ob) \<in> children_rows ix f (set ids) ec. in_id i \<in> scope_set ix children_scope (ChildrenOf ids) ec}"
    using select_children_exact [OF assms(1,2)] by blast
  obtain has_parents where hp: "select_has_parents ix f ids ec = Inr has_parents" "distinct (map has_parents_key has_parents)"
    "set has_parents = has_parents_rows ix f (set ids) ec"
    using select_others_exact(2) [OF assms(1,2)] by blast
  obtain has_children where hc: "select_has_children ix f ids ec = Inr has_children" "distinct (map has_children_key has_children)"
    "set has_children = has_children_rows ix f (set ids) ec"
    using select_others_exact(3) [OF assms(1,2,4)] by blast
  have "checked_new (selection_of_rows current parents children has_parents has_children) ec
      = Inr (selection_of_rows current parents children has_parents has_children)"
    by (rule rows_isolated [OF assms(3)]) (use cur par chi hp hc in auto)
  then have "find_symbol ix f parent_scope children_scope ec
      = Inr (selection_of_rows current parents children has_parents has_children)"
    by (simp add: find_symbol_def Let_def cur(1) ids_def [symmetric] par(1) chi(1) hp(1) hc(1))
  then show ?thesis
    using that cur(2,3) par(2,3) chi(2,3) hp(2,3) hc(2,3) unfolding ids_def Let_def by blast
qed

subsection \<open>Instance ids\<close>

lemma check_layers_ok:
  "(\<And>r. r \<in> set rows \<Longrightarrow> set (layers_of r) \<subseteq> set (visible_ids ec)) \<Longrightarrow> check_layers layers_of ec rows = Inr rows"
  by (fastforce simp: check_layers_def list_ex_iff is_eph_leak_def)

lemma checked_ids_ok:
  assumes "loaded = Inr rs" and "set rs = R" and "\<And>r. r \<in> R \<Longrightarrow> set (layers_of r) \<subseteq> set (visible_ids ec)"
  shows "\<exists>ids. checked_ids message loaded layers_of col ec = Inr ids \<and> set ids = col ` R"
  using check_layers_ok [of rs layers_of ec] assms by (simp add: checked_ids_def)

lemma child_ids_exact:
  assumes "loads_return ix" "index_ok ix ec" "no_empty_or f"
  shows "\<exists>ids. find_child_instance_ids ix parent_ids include_refs include_has f ec = Inr ids
    \<and> sorted ids \<and> distinct ids
    \<and> set ids =
        (if include_has then (\<lambda>(s, i, ty, ob, cs, ci, cty). in_id ci) ` has_children_rows ix f (set parent_ids) ec else {})
      \<union> (if include_refs then (\<lambda>(ps, s, i, pd, r, ob). in_id i) ` children_rows ix f (set parent_ids) ec else {})"
proof -
  let ?src = "sort_dedup parent_ids"
  obtain hs where hs: "cached_load_partitioned (load_has_children ix ''find_child_instance_ids (has)'' f ?src)
      has_children_key ec (is_chain_dependent f) = Inr hs"
    using partitioned_returns(5) [OF assms(1)] by blast
  have hs_set: "set hs = has_children_rows ix f (set parent_ids) ec"
    using has_children_exact(1) [OF assms(2,3) hs] by simp
  obtain rs where rs: "cached_load_partitioned (load_children ix ''find_child_instance_ids (refs)'' f ?src None)
      children_key ec (is_chain_dependent f) = Inr rs"
    using partitioned_returns(3) [OF assms(1)] by blast
  have rs_set: "set rs = children_rows ix f (set parent_ids) ec"
    using children_exact(1) [OF assms(2) rs] by (simp add: in_scope_def)
  have one: "\<forall>m. \<exists>ids. checked_ids m (Inr hs) (\<lambda>(ps, pi, ty, ob, cs, ci, cty).
      [sy_layer ps, in_layer pi, sy_layer cs, in_layer ci]) (\<lambda>(ps, pi, ty, ob, cs, ci, cty). in_id ci) ec = Inr ids
      \<and> set ids = (\<lambda>(s, i, ty, ob, cs, ci, cty). in_id ci) ` has_children_rows ix f (set parent_ids) ec"
    by (rule allI, rule checked_ids_ok [OF refl hs_set]) (use visible_rows(5) in fastforce)
  have two: "\<forall>m. \<exists>ids. checked_ids m (Inr rs) (\<lambda>(ps, cs, ci, fi, sr, ob).
      [sy_layer ps, sy_layer cs, in_layer ci, in_layer fi, rf_layer sr]) (\<lambda>(ps, cs, ci, fi, sr, ob). in_id ci) ec = Inr ids
      \<and> set ids = (\<lambda>(ps, s, i, pd, r, ob). in_id i) ` children_rows ix f (set parent_ids) ec"
    by (rule allI, rule checked_ids_ok [OF refl rs_set]) (use visible_rows(3) in fastforce)
  show ?thesis
    using choice [OF one] choice [OF two]
    unfolding find_child_instance_ids_def Let_def hs rs
    by (elim exE, cases include_has; cases include_refs; simp)
qed

lemma parent_ids_exact:
  assumes "loads_return ix" "index_ok ix ec"
  shows "\<exists>ids. find_parent_instance_ids ix child_ids include_refs include_has f ec = Inr ids
    \<and> sorted ids \<and> distinct ids
    \<and> set ids =
        (if include_refs then (\<lambda>(r, s, i, pd, ps). in_id pd) ` parents_rows ix f (set child_ids) ec else {})
      \<union> (if include_has then (\<lambda>(s, i, ty, cs, ci, cty). in_id ci) ` has_parents_rows ix f (set child_ids) ec else {})"
proof -
  let ?src = "sort_dedup child_ids"
  obtain rs where rs: "cached_load_partitioned (load_parents ix ''find_parent_instance_ids (refs)'' f ?src None)
      parents_key ec (is_chain_dependent f) = Inr rs"
    using partitioned_returns(2) [OF assms(1)] by blast
  have rs_set: "set rs = parents_rows ix f (set child_ids) ec"
    using parents_exact(1) [OF assms(2) rs] by (simp add: in_scope_def)
  obtain hs where hs: "cached_load_partitioned (load_has_parents ix ''find_parent_instance_ids (has)'' f ?src)
      has_parents_key ec (is_chain_dependent f) = Inr hs"
    using partitioned_returns(4) [OF assms(1)] by blast
  have hs_set: "set hs = has_parents_rows ix f (set child_ids) ec"
    using has_parents_exact(1) [OF assms(2) hs] by simp
  have one: "\<forall>m. \<exists>ids. checked_ids m (Inr rs) (\<lambda>(sr, s, ci, pi, ps). [rf_layer sr, sy_layer s, in_layer ci, in_layer pi])
      (\<lambda>(sr, s, ci, pi, ps). in_id pi) ec = Inr ids
      \<and> set ids = (\<lambda>(r, s, i, pd, ps). in_id pd) ` parents_rows ix f (set child_ids) ec"
    by (rule allI, rule checked_ids_ok [OF refl rs_set]) (use visible_rows(2) in fastforce)
  have two: "\<forall>m. \<exists>ids. checked_ids m (Inr hs) (\<lambda>(cs, ci, ty, ps, pi, pty).
      [sy_layer cs, in_layer ci, sy_layer ps, in_layer pi]) (\<lambda>(cs, ci, ty, ps, pi, pty). in_id pi) ec = Inr ids
      \<and> set ids = (\<lambda>(s, i, ty, cs, ci, cty). in_id ci) ` has_parents_rows ix f (set child_ids) ec"
    by (rule allI, rule checked_ids_ok [OF refl hs_set]) (use visible_rows(4) in fastforce)
  show ?thesis
    using choice [OF one] choice [OF two]
    unfolding find_parent_instance_ids_def Let_def hs rs
    by (elim exE, cases include_has; cases include_refs; simp)
qed

subsection \<open>Edges: the first edge of each group\<close>

definition nearest :: "implicit_edge set \<Rightarrow> implicit_edge set" where
  "nearest E = {e \<in> E. \<forall>e'\<in>E. edge_group e' = edge_group e \<longrightarrow> ie_to_instance e \<le> ie_to_instance e'}"

lemma nearestD: "e \<in> nearest E \<Longrightarrow> e' \<in> E \<Longrightarrow> edge_group e' = edge_group e \<Longrightarrow> ie_to_instance e \<le> ie_to_instance e'"
  by (simp add: nearest_def)

lemma dedup_by_key_hd: "xs \<noteq> [] \<Longrightarrow> dedup_by_key k xs \<noteq> [] \<and> hd (dedup_by_key k xs) = hd xs"
  by (induction k xs rule: dedup_by_key.induct) auto

lemma dedup_by_key_subset: "set (dedup_by_key k xs) \<subseteq> set xs"
  by (induction k xs rule: dedup_by_key.induct) auto

lemma edge_order_group:
  "edge_order a \<le> edge_order b \<Longrightarrow> edge_group a \<le> edge_group b"
  "edge_order a \<le> edge_order b \<Longrightarrow> edge_group a = edge_group b \<Longrightarrow> ie_to_instance a \<le> ie_to_instance b"
  by (auto simp: edge_order_def edge_group_def less_eq_prod_def)

lemma dedup_edges:
  "sorted (map edge_order es) \<Longrightarrow> sorted_wrt (<) (map edge_group (dedup_by_key edge_group es))
    \<and> edge_group ` set (dedup_by_key edge_group es) = edge_group ` set es
    \<and> (\<forall>e\<in>set (dedup_by_key edge_group es). \<forall>e'\<in>set es. edge_group e' = edge_group e \<longrightarrow> edge_order e \<le> edge_order e')"
proof (induction edge_group es rule: dedup_by_key.induct)
  case (3 x y ys)
  show ?case
  proof (cases "edge_group y = edge_group x")
    case True
    with 3 show ?thesis by (auto 0 3)
  next
    case False
    have IH: "sorted_wrt (<) (map edge_group (dedup_by_key edge_group (y # ys)))
      \<and> edge_group ` set (dedup_by_key edge_group (y # ys)) = edge_group ` set (y # ys)
      \<and> (\<forall>e\<in>set (dedup_by_key edge_group (y # ys)). \<forall>e'\<in>set (y # ys). edge_group e' = edge_group e \<longrightarrow> edge_order e \<le> edge_order e')"
      using 3 False by simp
    have "edge_group x \<le> edge_group y" using 3(3) edge_order_group(1) by simp
    with False have xy: "edge_group x < edge_group y" by simp
    have "edge_group y \<le> edge_group e" if "e \<in> set (y # ys)" for e
      using that 3(3) edge_order_group(1) [of y e] by auto
    then have less: "edge_group x < edge_group e" if "e \<in> set (y # ys)" for e
      using that xy less_le_trans by blast
    have "edge_group x < edge_group e" if "e \<in> set (dedup_by_key edge_group (y # ys))" for e
      by (rule less) (rule subsetD [OF dedup_by_key_subset that])
    then show ?thesis using False IH less by fastforce
  qed
qed auto

lemma distinct_edges_exact:
  assumes "inj_on edge_order (set es)"
  shows "set (distinct_edges es) = nearest (set es)"
    and "sorted_wrt (<) (map edge_group (distinct_edges es))"
proof -
  let ?ds = "distinct_edges es"
  have "sorted (map edge_order (sort_key edge_order es))" by simp
  note props = dedup_edges [OF this, folded distinct_edges_def, unfolded set_sort]
  have sub: "set ?ds \<subseteq> set es"
    unfolding distinct_edges_def using dedup_by_key_subset [of edge_group "sort_key edge_order es"] by simp
  show "sorted_wrt (<) (map edge_group ?ds)" using props by blast
  show "set ?ds = nearest (set es)"
  proof (intro equalityI subsetI)
    fix e assume "e \<in> set ?ds"
    then show "e \<in> nearest (set es)"
      using props sub edge_order_group(2) [of e] unfolding nearest_def by auto
  next
    fix e assume e: "e \<in> nearest (set es)"
    then have "edge_group e \<in> edge_group ` set ?ds" using props unfolding nearest_def by blast
    then obtain d where d: "d \<in> set ?ds" "edge_group d = edge_group e" by auto
    then have "edge_order d \<le> edge_order e" using props e unfolding nearest_def by auto
    then have "ie_to_instance d \<le> ie_to_instance e" using d(2) edge_order_group(2) by blast
    moreover have "ie_to_instance e \<le> ie_to_instance d" using e d sub unfolding nearest_def by auto
    ultimately have "edge_order d = edge_order e" using d(2) by (simp add: edge_order_def edge_group_def)
    then have "d = e" using assms d(1) e sub unfolding nearest_def by (auto dest: inj_onD)
    then show "e \<in> set ?ds" using d(1) by simp
  qed
qed

lemma nearest_exists:
  assumes "finite E" "e \<in> E"
  shows "\<exists>m\<in>nearest E. edge_group m = edge_group e \<and> ie_to_instance m \<le> ie_to_instance e"
proof -
  define S where "S = {x \<in> E. edge_group x = edge_group e}"
  have fin: "finite (ie_to_instance ` S)" "ie_to_instance ` S \<noteq> {}" using assms by (auto simp: S_def)
  then obtain m where m: "m \<in> S" "ie_to_instance m = Min (ie_to_instance ` S)"
    by (metis Min_in imageE)
  then have le: "ie_to_instance m \<le> ie_to_instance x" if "x \<in> S" for x
    using fin(1) that by simp
  then have "m \<in> nearest E" using m(1) by (auto simp: nearest_def S_def)
  then show ?thesis using m(1) le [of e] assms(2) by (auto simp: S_def)
qed

lemma nearest_subset: "nearest E \<subseteq> E" by (auto simp: nearest_def)

lemma nearest_union:
  assumes "finite A" "finite B"
  shows "nearest (nearest A \<union> nearest B) = nearest (A \<union> B)"
proof (intro equalityI subsetI)
  fix e assume e: "e \<in> nearest (nearest A \<union> nearest B)"
  have "ie_to_instance e \<le> ie_to_instance e'" if ab: "e' \<in> A \<union> B" "edge_group e' = edge_group e" for e'
  proof -
    obtain m where m: "m \<in> nearest A \<union> nearest B" "edge_group m = edge_group e'" "ie_to_instance m \<le> ie_to_instance e'"
      using ab(1) nearest_exists [OF assms(1), of e'] nearest_exists [OF assms(2), of e'] by blast
    have "ie_to_instance e \<le> ie_to_instance m" by (rule nearestD [OF e m(1)]) (simp add: m(2) ab(2))
    then show ?thesis using m(3) by simp
  qed
  then show "e \<in> nearest (A \<union> B)" using e by (auto simp: nearest_def)
next
  fix e assume "e \<in> nearest (A \<union> B)"
  then show "e \<in> nearest (nearest A \<union> nearest B)" by (auto simp: nearest_def)
qed

lemma nearest_idem: "finite E \<Longrightarrow> nearest (nearest E) = nearest E"
  using nearest_union [of E E] by simp

lemma distinct_edges_unique:
  assumes inj: "inj_on edge_order (set xs \<union> set ys)" and eq: "nearest (set xs) = nearest (set ys)"
  shows "distinct_edges xs = distinct_edges ys"
proof -
  note xs = distinct_edges_exact [OF inj_on_subset [OF inj Un_upper1]]
  note ys = distinct_edges_exact [OF inj_on_subset [OF inj Un_upper2]]
  have strict: "sorted (map edge_group zs) \<and> distinct (map edge_group zs)"
    if "sorted_wrt (<) (map edge_group zs)" for zs
    using that by (simp add: strict_sorted_iff)
  show ?thesis
    using strict [OF xs(2)] strict [OF ys(2)] xs(1) ys(1) eq
    by (intro map_sorted_distinct_set_unique [of edge_group])
      (auto simp: distinct_map)
qed

text \<open>The pairs of candidates a reference joins, and the edges a branch sees.\<close>

definition edge_rows :: "tables \<Rightarrow> int set \<Rightarrow> visibility_spec \<Rightarrow> implicit_edge set" where
  "edge_rows db ids v =
     {mk_edge from_inst sr to_inst |from_inst sr to_inst.
        from_inst \<in> set (tb_instances db) \<and> to_inst \<in> set (tb_instances db) \<and> sr \<in> set (tb_refs db)
        \<and> in_id from_inst \<in> ids \<and> in_id to_inst \<in> ids \<and> in_id from_inst \<noteq> in_id to_inst
        \<and> rf_from_object sr = in_object_id from_inst \<and> range_contains (in_range from_inst) (rf_from_range sr)
        \<and> in_symbol to_inst = rf_to_symbol sr
        \<and> sees v (in_layer from_inst) \<and> sees v (in_layer to_inst) \<and> edge_visible v from_inst sr to_inst}"

lemma edge_rows_all:
  "\<exists>es. cte_find_edges_between db (build_find_edges_cte_body db ids vis) (vis_branch vis) = distinct_edges es
     \<and> set es = edge_rows db (set ids) (vis_branch vis)"
  unfolding cte_find_edges_between_def
  by (rule exI, rule conjI, rule refl) (auto simp: edge_rows_def build_find_edges_cte_body_def)

lemma edge_rows_inj:
  assumes "tables_ok db" "E \<subseteq> edge_rows db ids v \<union> edge_rows db ids v'"
  shows "inj_on edge_order E" "inj_on edge_key E"
proof -
  have eq: "mk_edge f r t = mk_edge f' r' t'"
    if "f \<in> set (tb_instances db)" "t \<in> set (tb_instances db)" "r \<in> set (tb_refs db)"
      "f' \<in> set (tb_instances db)" "t' \<in> set (tb_instances db)" "r' \<in> set (tb_refs db)"
      "in_id f = in_id f'" "rf_id r = rf_id r'" "in_id t = in_id t'" for f r t f' r' t'
    using tables_inj(4) [OF assms(1) that(1,4,7)] tables_inj(5) [OF assms(1) that(3,6,8)]
      tables_inj(4) [OF assms(1) that(2,5,9)] by simp
  have rows: "\<exists>f r t. e = mk_edge f r t \<and> f \<in> set (tb_instances db) \<and> t \<in> set (tb_instances db)
      \<and> r \<in> set (tb_refs db)" if "e \<in> E" for e
    using assms(2) that unfolding edge_rows_def by blast
  show "inj_on edge_order E"
  proof (rule inj_onI)
    fix x y assume "x \<in> E" "y \<in> E" "edge_order x = edge_order y"
    moreover obtain f r t where x: "x = mk_edge f r t" "f \<in> set (tb_instances db)" "t \<in> set (tb_instances db)"
      "r \<in> set (tb_refs db)" using rows [OF calculation(1)] by blast
    moreover obtain f' r' t' where y: "y = mk_edge f' r' t'" "f' \<in> set (tb_instances db)"
      "t' \<in> set (tb_instances db)" "r' \<in> set (tb_refs db)" using rows [OF calculation(2)] by blast
    ultimately show "x = y" unfolding x(1) y(1) by (intro eq) (simp_all add: edge_order_def mk_edge_def)
  qed
  then show "inj_on edge_key E"
    unfolding inj_on_def edge_order_def edge_key_def by blast
qed

lemma finite_edge_rows: "finite (edge_rows db ids v)"
proof -
  have "edge_rows db ids v \<subseteq> (\<lambda>(f, r, t). mk_edge f r t) `
      (set (tb_instances db) \<times> set (tb_refs db) \<times> set (tb_instances db))"
    by (force simp: edge_rows_def)
  then show ?thesis by (rule finite_subset) simp
qed

lemma edge_rows_partition:
  assumes "signed_layers ec"
  shows "edge_rows db ids (RootOnly (root_ids ec)) \<union> edge_rows db ids (EphTouching (visible_ids ec))
    = edge_rows db ids (Combined (visible_ids ec))"
  using signed_visible_root [OF assms]
  by (fastforce simp: edge_rows_def edge_visible_def sees_def)

lemma edges_merge:
  assumes "index_ok ix ec" "loads_return ix"
  shows "\<exists>rs. cached_load_partitioned (load_edges ix ids) edge_key ec False = Inr rs
    \<and> set rs \<subseteq> edge_rows (ix_tables ix) (set ids) (Combined (visible_ids ec))
    \<and> nearest (set rs) = nearest (edge_rows (ix_tables ix) (set ids) (Combined (visible_ids ec)))"
proof -
  let ?db = "ix_tables ix"
  let ?C = "edge_rows ?db (set ids) (Combined (visible_ids ec))"
  let ?R = "edge_rows ?db (set ids) (RootOnly (root_ids ec))"
  let ?E = "edge_rows ?db (set ids) (EphTouching (visible_ids ec))"
  have ok: "tables_ok ?db" "signed_layers ec" "eph_wf ec" using assms(1) by (simp_all add: index_ok_def)
  have load: "\<exists>es. load_edges ix ids vis = Inr es \<and> set es = nearest (edge_rows ?db (set ids) (vis_branch vis))" for vis
  proof -
    obtain es where es: "cte_find_edges_between ?db (build_find_edges_cte_body ?db ids vis) (vis_branch vis) = distinct_edges es"
      "set es = edge_rows ?db (set ids) (vis_branch vis)"
      using edge_rows_all by blast
    have "inj_on edge_order (set es)" by (rule edge_rows_inj(1) [OF ok(1)]) (use es(2) in blast)
    then have "set (distinct_edges es) = nearest (edge_rows ?db (set ids) (vis_branch vis))"
      using distinct_edges_exact(1) es(2) by simp
    then show ?thesis using es(1)
      by (simp add: load_edges_def vis_snapshot_def run_load_returns [OF assms(2)])
  qed
  obtain ps where ps: "load_edges ix ids (vis_root_only ec) = Inr ps" "set ps = nearest ?R"
    using load [of "vis_root_only ec"] by (auto simp: vis_root_only_def vis_new_def)
  obtain es where es: "load_edges ix ids (vis_eph_touching ec) = Inr es" "set es = nearest ?E"
    using load [of "vis_eph_touching ec"] by (auto simp: vis_eph_touching_def vis_new_def)
  have sub: "nearest ?R \<subseteq> ?C" "nearest ?E \<subseteq> ?C"
    using nearest_subset edge_rows_partition [OF ok(2), of ?db "set ids"] by blast+
  show ?thesis
  proof (cases "has_chain ec")
    case False
    have "visible_ids ec = root_ids ec" by (rule visible_no_chain [OF ok(3) False])
    then have "?R = ?C" by (simp add: edge_rows_def sees_def edge_visible_def)
    then show ?thesis
      using ps False sub nearest_idem [OF finite_edge_rows] by (simp add: cached_load_partitioned_def)
  next
    case True
    have "inj_on edge_key (set (ps @ es))"
      by (rule edge_rows_inj(2) [OF ok(1)]) (use ps(2) es(2) sub in auto)
    then have "set (merge_rows edge_key {} (ps @ es)) = nearest ?R \<union> nearest ?E"
      using merge_rows_set ps(2) es(2) by (metis set_append)
    moreover have "nearest (nearest ?R \<union> nearest ?E) = nearest ?C"
      using nearest_union [OF finite_edge_rows finite_edge_rows] edge_rows_partition [OF ok(2)] by metis
    ultimately show ?thesis
      using ps(1) es(1) True sub by (simp add: cached_load_partitioned_def)
  qed
qed

lemma edges_exact:
  assumes "loads_return ix" "index_ok ix ec"
  shows "find_edges_between ix ids ec = Inr (cte_find_edges_between (ix_tables ix)
      (build_find_edges_cte_body (ix_tables ix) ids (vis_combined ec)) (Combined (visible_ids ec)))"
proof -
  let ?db = "ix_tables ix"
  let ?C = "edge_rows ?db (set ids) (Combined (visible_ids ec))"
  have ok: "tables_ok ?db" using assms(2) by (simp add: index_ok_def)
  have v: "vis_branch (vis_combined ec) = Combined (visible_ids ec)" by (simp add: vis_combined_def vis_new_def)
  obtain es where es: "cte_find_edges_between ?db (build_find_edges_cte_body ?db ids (vis_combined ec))
      (Combined (visible_ids ec)) = distinct_edges es" "set es = ?C"
    using edge_rows_all [of ?db ids "vis_combined ec"] unfolding v by blast
  obtain rs where rs: "cached_load_partitioned (load_edges ix (sort_dedup ids)) edge_key ec False = Inr rs"
    "set rs \<subseteq> ?C" "nearest (set rs) = nearest ?C"
    using edges_merge [OF assms(2,1), of "sort_dedup ids"] by auto
  have inj: "inj_on edge_order (set rs \<union> set es)"
    by (rule edge_rows_inj(1) [OF ok]) (use rs(2) es(2) in blast)
  have "distinct_edges rs = distinct_edges es"
    by (rule distinct_edges_unique [OF inj]) (simp add: rs es)
  moreover have "check_layers (\<lambda>e. [ie_sr_layer e, ie_from_layer e, ie_to_layer e]) ec (distinct_edges es)
      = Inr (distinct_edges es)"
  proof (rule check_layers_ok)
    fix e assume "e \<in> set (distinct_edges es)"
    moreover have "inj_on edge_order (set es)" by (rule edge_rows_inj(1) [OF ok]) (use es(2) in blast)
    ultimately have "e \<in> ?C" using distinct_edges_exact(1) nearest_subset es(2) by blast
    then show "set [ie_sr_layer e, ie_from_layer e, ie_to_layer e] \<subseteq> set (visible_ids ec)"
      by (auto simp: edge_rows_def mk_edge_def sees_def edge_visible_def)
  qed
  moreover have "ids = [] \<Longrightarrow> distinct_edges es = []"
    using es(2) by (simp add: edge_rows_def distinct_edges_def)
  ultimately show ?thesis using rs(1) es(1) by (simp add: find_edges_between_def)
qed

lemma symbol_matching_exact:
  assumes "loads_return ix" "index_ok ix ec"
  shows "has_symbol_matching ix f ec = Inr (current_rows ix f ec \<noteq> {})"
proof -
  let ?rows = "\<lambda>vis. filter (\<lambda>r. current.selects vis r
      \<and> expr_value (current_holds (ix_ops ix) r) (compose_current f vis)) (current_join (ix_tables ix))"
  have load: "load_current ix what f vis = Inr (?rows vis)" for what vis
    by (simp add: load_current_def run_load_returns [OF assms(1)] build_current_query_def current.query_rows)
  obtain rs where rs: "cached_load_partitioned (load_current ix ''x'' f) current_key ec (is_chain_dependent f) = Inr rs"
    using partitioned_returns(1) [OF assms(1)] by blast
  have empty: "current_rows ix f ec = {} \<longleftrightarrow> rs = []"
    using current_exact(1) [OF assms(2) rs] by auto
  have merge: "merge_rows k {} xs = [] \<longleftrightarrow> xs = []" for k :: "current_row \<Rightarrow> int" and xs
    by (cases xs) simp_all
  have "\<exists>rs. cached_load_partitioned
      (\<lambda>vis. rbind (load_current ix ''has_symbol_matching'' f vis) (\<lambda>rows. Inr (take 1 rows)))
      current_key ec (is_chain_dependent f) = Inr rs \<and> (rs = [] \<longleftrightarrow> current_rows ix f ec = {})"
    using rs unfolding cached_load_partitioned_def load empty
    by (auto simp: merge simp del: filter_empty_conv split: if_splits)
  then show ?thesis by (auto simp: has_symbol_matching_def)
qed

lemma image_keys:
  "get_instance_ids (selection_of_rows cs ps ch hp hc) = map current_key cs"
  "map (\<lambda>p. (rf_id (pf_ref p), in_id (pf_to_instance p), in_id (pf_from_instance p))) (map parent_of_row ps)
     = map parents_key ps"
  "map (\<lambda>c. (rf_id (cf_ref c), in_id (cf_instance c), in_id (cf_from_instance c))) (map child_of_row ch)
     = map children_key ch"
  "map (\<lambda>h. (in_id (hp_child_instance h), in_id (hp_parent_instance h))) (map has_parent_of_row hp)
     = map has_parents_key hp"
  "map (\<lambda>h. (in_id (hc_parent_instance h), in_id (hc_child_instance h))) (map has_child_of_row hc)
     = map has_children_key hc"
  by (auto simp: get_instance_ids_def selection_of_rows_def row_images current_key_def parents_key_def
      children_key_def has_parents_key_def has_children_key_def)

lemma distinct_map_sort: "distinct (map g (sort_key h xs)) \<longleftrightarrow> distinct (map g xs)"
  by (simp add: distinct_map)

subsection \<open>Properties\<close>

text \<open>
  C3. A symbol query returns exactly what one query over all visible layers returns: the nodes
  are the visible instances the filter selects, each once; the references, containers and
  contained instances are the visible ones of those nodes that the filter and the scopes allow,
  each once.  With every load succeeding it never ends in the isolation error.
\<close>

theorem find_symbol_exact:
  assumes "loads_return ix" "index_ok ix ec" "objects_visible (ix_tables ix) ec" "no_empty_or f"
  shows "\<exists>s. find_symbol ix f parent_scope children_scope ec = Inr s
    \<and> (let ids = sort_dedup (get_instance_ids s) in
        set (sl_nodes s) = node_of_row ` current_rows ix f ec
      \<and> set (sl_parents s) = parent_of_row ` {(r, to, i, pd, ps) \<in> parents_rows ix f (set ids) ec.
            in_id pd \<in> scope_set ix parent_scope (ParentsOf ids) ec}
      \<and> set (sl_children s) = child_of_row ` {(ps, to, i, pd, r, ob) \<in> children_rows ix f (set ids) ec.
            in_id i \<in> scope_set ix children_scope (ChildrenOf ids) ec}
      \<and> set (sl_has_parents s) = has_parent_of_row ` has_parents_rows ix f (set ids) ec
      \<and> set (sl_has_children s) = has_child_of_row ` has_children_rows ix f (set ids) ec
      \<and> distinct (get_instance_ids s)
      \<and> distinct (map (\<lambda>p. (rf_id (pf_ref p), in_id (pf_to_instance p), in_id (pf_from_instance p))) (sl_parents s))
      \<and> distinct (map (\<lambda>c. (rf_id (cf_ref c), in_id (cf_instance c), in_id (cf_from_instance c))) (sl_children s))
      \<and> distinct (map (\<lambda>h. (in_id (hp_child_instance h), in_id (hp_parent_instance h))) (sl_has_parents s))
      \<and> distinct (map (\<lambda>h. (in_id (hc_parent_instance h), in_id (hc_child_instance h))) (sl_has_children s)))"
proof -
  obtain cs ps ch hp hc where found: "find_symbol ix f parent_scope children_scope ec
      = Inr (selection_of_rows cs ps ch hp hc)"
    and cs: "set cs = current_rows ix f ec" "distinct (map current_key cs)"
    and others: "let ids = sort_dedup (map current_key cs) in
      distinct (map parents_key ps) \<and> distinct (map children_key ch)
      \<and> distinct (map has_parents_key hp) \<and> distinct (map has_children_key hc)
      \<and> set ps = {(r, s, i, pd, ps) \<in> parents_rows ix f (set ids) ec.
            in_id pd \<in> scope_set ix parent_scope (ParentsOf ids) ec}
      \<and> set ch = {(ps, s, i, pd, r, ob) \<in> children_rows ix f (set ids) ec.
            in_id i \<in> scope_set ix children_scope (ChildrenOf ids) ec}
      \<and> set hp = has_parents_rows ix f (set ids) ec
      \<and> set hc = has_children_rows ix f (set ids) ec"
    by (rule find_symbol_returns [OF assms])
  show ?thesis
    by (rule exI [of _ "selection_of_rows cs ps ch hp hc"], rule conjI, rule found)
      (use cs others in \<open>unfold Let_def image_keys(1),
        simp add: selection_of_rows_def distinct_map_sort image_keys del: map_map\<close>)
qed

text \<open>
  C5. The ids a dependency is narrowed to: asked for the children (or parents) of some
  instances, the index returns the sorted distinct ids of exactly the visible contained (or
  containing) and referenced (or referring) instances, as the two flags choose, filtered; the
  fast path of containment is the plain query, and no isolation error occurs.
\<close>

theorem related_ids_exact:
  assumes "loads_return ix" "index_ok ix ec" "no_empty_or f"
  shows "(\<exists>ids. find_child_instance_ids ix sources refs has f ec = Inr ids \<and> sorted ids \<and> distinct ids
    \<and> set ids =
        (if has then (\<lambda>(s, i, ty, ob, cs, ci, cty). in_id ci) ` has_children_rows ix f (set sources) ec else {})
      \<union> (if refs then (\<lambda>(ps, s, i, pd, r, ob). in_id i) ` children_rows ix f (set sources) ec else {}))
   \<and> (\<exists>ids. find_parent_instance_ids ix sources refs has f ec = Inr ids \<and> sorted ids \<and> distinct ids
    \<and> set ids =
        (if refs then (\<lambda>(r, s, i, pd, ps). in_id pd) ` parents_rows ix f (set sources) ec else {})
      \<union> (if has then (\<lambda>(s, i, ty, cs, ci, cty). in_id ci) ` has_parents_rows ix f (set sources) ec else {}))"
  using child_ids_exact [OF assms] parent_ids_exact [OF assms(1,2)] by (intro conjI)

text \<open>
  C4. Edges between selected instances: splitting the query by layers, deduplicating each branch,
  merging by row key and deduplicating again gives exactly the one \<open>DISTINCT ON\<close> query over all
  visible layers, in its order.
\<close>

theorem edges_between_exact:
  assumes "loads_return ix" "index_ok ix ec"
  shows "find_edges_between ix ids ec = Inr (cte_find_edges_between (ix_tables ix)
      (build_find_edges_cte_body (ix_tables ix) ids (vis_combined ec)) (Combined (visible_ids ec)))"
  by (rule edges_exact [OF assms])

subsection \<open>A small index\<close>

text \<open>
  A function of the root layer 1 that refers to a symbol with one instance in the root layer
  and one in the ephemeral layer -1 on top of it.
\<close>

definition tiny_symbol :: "int \<Rightarrow> string \<Rightarrow> symbol_row" where
  "tiny_symbol i n = \<lparr>sy_id = i, sy_name = n, sy_path = n, sy_project_id = 1, sy_type = 1, sy_scope = None,
     sy_leaf_name = n, sy_layer = 1\<rparr>"

definition tiny_instance :: "int \<Rightarrow> int \<Rightarrow> int \<Rightarrow> int \<Rightarrow> int \<Rightarrow> instance_row" where
  "tiny_instance i s lo hi l = \<lparr>in_id = i, in_symbol = s, in_object_id = 1,
     in_range = (Included lo, Excluded hi), in_type = 1, in_layer = l\<rparr>"

definition tiny_tables :: tables where
  "tiny_tables = \<lparr>
     tb_projects = [\<lparr>pr_id = 1, pr_name = ''p'', pr_root_path = ''/'', pr_upload_status = ''complete'', pr_root_layer_id = 1\<rparr>],
     tb_objects = [\<lparr>ob_id = 1, ob_project_id = 1, ob_module_path = ''m'', ob_filesystem_path = ''/m'',
       ob_filetype = ''c'', ob_content_hash = ''h'', ob_layer = 1\<rparr>],
     tb_symbols = [tiny_symbol 1 ''f'', tiny_symbol 2 ''g''],
     tb_instances = [tiny_instance 1 1 0 50 1, tiny_instance 2 2 60 90 1, tiny_instance (- 3) 2 100 120 (- 1)],
     tb_refs = [\<lparr>rf_id = 1, rf_to_symbol = 2, rf_from_object = 1, rf_from_range = (Included 10, Excluded 11), rf_layer = 1\<rparr>],
     tb_types = [\<lparr>st_id = 1, st_name = ''function'', st_level = 2, st_dot_is_separator = True\<rparr>]\<rparr>"

definition tiny_index :: index_db where
  "tiny_index = \<lparr>ix_tables = tiny_tables,
     ix_ops = \<lparr>so_lquery = (\<lambda>a b. a = b), so_like = (\<lambda>a b. a = b), so_ilike = (\<lambda>a b. a = b), so_ancestor = (\<lambda>a b. False)\<rparr>,
     ix_failure = (\<lambda>what v. None)\<rparr>"

definition tiny_context :: eph_context where
  "tiny_context = \<lparr>ec_roots = [\<lparr>rt_id = 1, rt_project_id = 1, rt_hash = []\<rparr>], ec_chains = [[- 1]]\<rparr>"

lemma tiny_ok:
  "loads_return tiny_index" "index_ok tiny_index tiny_context"
  "objects_visible (ix_tables tiny_index) tiny_context"
proof -
  show "loads_return tiny_index" by (simp add: loads_return_def tiny_index_def)
  show "index_ok tiny_index tiny_context"
    by (simp add: index_ok_def tables_ok_def tiny_index_def tiny_tables_def tiny_symbol_def tiny_instance_def
        signed_layers_def eph_wf_def roots_wf_def tiny_context_def root_ids_def)
  show "objects_visible (ix_tables tiny_index) tiny_context"
    by (simp add: objects_visible_def tiny_index_def tiny_tables_def tiny_instance_def tiny_context_def
        visible_ids_def root_ids_def)
qed

theorem find_symbol_exact_witness:
  "\<exists>s. find_symbol tiny_index (CLeaf (LeafName ''g'')) Unscoped Skip tiny_context = Inr s
     \<and> get_instance_ids s = [2, - 3] \<and> map (\<lambda>p. in_id (pf_from_instance p)) (sl_parents s) = [1, 1]"
proof -
  have "find_symbol tiny_index (CLeaf (LeafName ''g'')) Unscoped Skip tiny_context \<noteq> Inl e" for e
    using find_symbol_exact [OF tiny_ok, of "CLeaf (LeafName ''g'')" Unscoped Skip] by fastforce
  moreover have "case find_symbol tiny_index (CLeaf (LeafName ''g'')) Unscoped Skip tiny_context of
      Inl e \<Rightarrow> True | Inr s \<Rightarrow> get_instance_ids s = [2, - 3]
        \<and> map (\<lambda>p. in_id (pf_from_instance p)) (sl_parents s) = [1, 1]"
    by code_simp
  ultimately show ?thesis
    by (cases "find_symbol tiny_index (CLeaf (LeafName ''g'')) Unscoped Skip tiny_context") auto
qed

theorem related_ids_exact_witness:
  "find_child_instance_ids tiny_index [1] True True (CLeaf DirectOnly) tiny_context = Inr [- 3, 2]
   \<and> find_parent_instance_ids tiny_index [- 3] True True (CAnd []) tiny_context \<noteq> Inl isolation_message"
proof -
  have "find_child_instance_ids tiny_index [1] True True (CLeaf DirectOnly) tiny_context \<noteq> Inl e" for e
    using related_ids_exact [OF tiny_ok(1,2), of "CLeaf DirectOnly" "[1]" True True] by fastforce
  moreover have "find_parent_instance_ids tiny_index [- 3] True True (CAnd []) tiny_context \<noteq> Inl e" for e
    using related_ids_exact [OF tiny_ok(1,2), of "CAnd []" "[- 3]" True True] by fastforce
  moreover have "find_child_instance_ids tiny_index [1] True True (CLeaf DirectOnly) tiny_context = Inr [- 3, 2]"
    by code_simp
  ultimately show ?thesis by blast
qed

theorem edges_between_exact_witness:
  "find_edges_between tiny_index [2, 1, - 3] tiny_context
     = Inr [mk_edge (tiny_instance 1 1 0 50 1) (hd (tb_refs tiny_tables)) (tiny_instance (- 3) 2 100 120 (- 1))]"
  unfolding edges_between_exact [OF tiny_ok(1,2)] by code_simp

end
