(* ===== verification/Results.thy ===== *)
theory Results
  imports Parse_Results Index_Exact
begin

section \<open>The result of a query\<close>

text \<open>
  What a finished execution returns.  Sources: \<open>Statement::execute\<close>, \<open>collect_ref_edges\<close> and
  \<open>collect_has_edges\<close> of \<open>askld/src/statement/mod.rs\<close> and the node and edge lists of
  \<open>askld/src/cfg.rs\<close>.  A hash set or hash map is the list of its entries in the order they were
  inserted; \<open>as_vec\<close> is the sorted order a caller sees.
\<close>

subsection \<open>Nodes and edges\<close>

record symbol_node_id =
  ni_symbol :: int
  ni_instance :: int

record occurrence =
  oc_file :: int
  oc_range :: "int \<times> int"

type_synonym ref_edge = "symbol_node_id \<times> symbol_node_id \<times> occurrence option"

record has_edge =
  he_parent :: int
  he_child :: int
  he_parent_instance :: int
  he_child_instance :: int

record execution_result =
  er_nodes :: "selection_node list"
  er_edges :: "ref_edge list"
  er_has_edges :: "has_edge list"
  er_warnings :: "diagnostic list"

text \<open>\<open>NodeList::as_vec\<close>, \<open>EdgeList::as_vec\<close>, \<open>HasEdgeList::as_vec\<close>.\<close>

definition nodes_as_vec :: "selection_node list \<Rightarrow> int list" where
  "nodes_as_vec ns = sort (map (\<lambda>n. in_id (nd_instance n)) ns)"

definition edges_as_vec :: "ref_edge list \<Rightarrow> ref_edge list" where
  "edges_as_vec es = sort_key (\<lambda>(f, t, oc). (ni_instance f, ni_instance t, ni_symbol f, ni_symbol t)) es"

definition has_edges_as_vec :: "has_edge list \<Rightarrow> has_edge list" where
  "has_edges_as_vec es =
     sort_key (\<lambda>e. (he_parent e, he_child e, he_parent_instance e, he_child_instance e)) es"

subsection \<open>Reference edges\<close>

text \<open>
  The edges so far and the keys seen: source instance, target symbol and occurrence.  An edge
  under a key already seen is dropped.
\<close>

type_synonym edge_acc = "(int \<times> int \<times> occurrence) list \<times> ref_edge list"

record candidate_edge =
  ce_from :: symbol_node_id
  ce_to :: symbol_node_id
  ce_occurrence :: occurrence

definition ce_key :: "candidate_edge \<Rightarrow> int \<times> int \<times> occurrence" where
  "ce_key c = (ni_instance (ce_from c), ni_symbol (ce_to c), ce_occurrence c)"

definition add_edge :: "candidate_edge \<Rightarrow> edge_acc \<Rightarrow> edge_acc" where
  "add_edge c acc =
     (if ce_key c \<in> set (fst acc) then acc
      else (ce_key c # fst acc, snd acc @ [(ce_from c, ce_to c, Some (ce_occurrence c))]))"

text \<open>\<open>range_bounds_to_offsets(..).unwrap()\<close>: an unbounded range panics.\<close>

definition offsets_or_panic :: "bound \<times> bound \<Rightarrow> exec_error + int \<times> int" where
  "offsets_or_panic r = (case range_bounds_to_offsets r of None \<Rightarrow> Inl ExecPanic | Some p \<Rightarrow> Inr p)"

definition parent_candidate :: "int set \<Rightarrow> parent_reference \<Rightarrow> exec_error + candidate_edge option" where
  "parent_candidate all_nodes p =
     (if in_id (pf_from_instance p) \<notin> all_nodes \<or> in_id (pf_to_instance p) \<notin> all_nodes then Inr None
      else rbind (offsets_or_panic (rf_from_range (pf_ref p))) (\<lambda>r.
        Inr (Some \<lparr>ce_from = \<lparr>ni_symbol = in_symbol (pf_from_instance p), ni_instance = in_id (pf_from_instance p)\<rparr>,
                   ce_to = \<lparr>ni_symbol = sy_id (pf_to_symbol p), ni_instance = in_id (pf_to_instance p)\<rparr>,
                   ce_occurrence = \<lparr>oc_file = in_object_id (pf_from_instance p), oc_range = r\<rparr>\<rparr>)))"

definition forced_candidate :: "int set \<Rightarrow> parent_reference \<Rightarrow> exec_error + candidate_edge option" where
  "forced_candidate all_nodes p = (if rf_id (pf_ref p) \<noteq> 0 then Inr None else parent_candidate all_nodes p)"

definition explicit_candidate :: "int set \<Rightarrow> parent_reference \<Rightarrow> exec_error + candidate_edge option" where
  "explicit_candidate all_nodes p = (if rf_id (pf_ref p) = 0 then Inr None else parent_candidate all_nodes p)"

definition child_candidate :: "int set \<Rightarrow> child_reference \<Rightarrow> exec_error + candidate_edge option" where
  "child_candidate all_nodes c =
     (if in_id (cf_from_instance c) \<notin> all_nodes \<or> in_id (cf_instance c) \<notin> all_nodes then Inr None
      else rbind (offsets_or_panic (rf_from_range (cf_ref c))) (\<lambda>r.
        Inr (Some \<lparr>ce_from = \<lparr>ni_symbol = sy_id (cf_parent_symbol c), ni_instance = in_id (cf_from_instance c)\<rparr>,
                   ce_to = \<lparr>ni_symbol = rf_to_symbol (cf_ref c), ni_instance = in_id (cf_instance c)\<rparr>,
                   ce_occurrence = \<lparr>oc_file = ob_id (cf_from_object c), oc_range = r\<rparr>\<rparr>)))"

text \<open>The nodes the database's edges are mapped to: the last selected node of each instance wins.\<close>

definition implicit_candidate ::
  "(int \<rightharpoonup> int) \<Rightarrow> implicit_edge \<Rightarrow> exec_error + candidate_edge option" where
  "implicit_candidate symbol_of e =
     (case (symbol_of (ie_from_instance e), symbol_of (ie_to_instance e)) of
        (Some from_sym, Some to_sym) \<Rightarrow>
          rbind (offsets_or_panic (ie_from_range e)) (\<lambda>r.
          Inr (Some \<lparr>ce_from = \<lparr>ni_symbol = from_sym, ni_instance = ie_from_instance e\<rparr>,
                     ce_to = \<lparr>ni_symbol = ie_to_symbol e, ni_instance = ie_to_instance e\<rparr>,
                     ce_occurrence = \<lparr>oc_file = ie_from_object e, oc_range = r\<rparr>\<rparr>))
      | _ \<Rightarrow> Inr None)"

fun add_candidates :: "('x \<Rightarrow> exec_error + candidate_edge option) \<Rightarrow> 'x list \<Rightarrow> edge_acc \<Rightarrow> exec_error + edge_acc" where
  "add_candidates f [] acc = Inr acc"
| "add_candidates f (x # xs) acc =
     rbind (f x) (\<lambda>c. add_candidates f xs (case c of None \<Rightarrow> acc | Some c \<Rightarrow> add_edge c acc))"

fun forced_edges :: "int set \<Rightarrow> selection list \<Rightarrow> edge_acc \<Rightarrow> exec_error + edge_acc" where
  "forced_edges all_nodes [] acc = Inr acc"
| "forced_edges all_nodes (s # ss) acc =
     rbind (add_candidates (forced_candidate all_nodes) (sl_parents s) acc) (forced_edges all_nodes ss)"

fun explicit_edges :: "int set \<Rightarrow> selection list \<Rightarrow> edge_acc \<Rightarrow> exec_error + edge_acc" where
  "explicit_edges all_nodes [] acc = Inr acc"
| "explicit_edges all_nodes (s # ss) acc =
     rbind (add_candidates (child_candidate all_nodes) (sl_children s) acc) (\<lambda>acc.
     rbind (add_candidates (explicit_candidate all_nodes) (sl_parents s) acc) (explicit_edges all_nodes ss))"

definition instance_symbols :: "int set \<Rightarrow> selection list \<Rightarrow> (int \<rightharpoonup> int)" where
  "instance_symbols all_nodes sels =
     foldl (\<lambda>m n. if in_id (nd_instance n) \<in> all_nodes then m(in_id (nd_instance n) \<mapsto> sy_id (nd_symbol n)) else m)
       Map.empty (concat (map sl_nodes sels))"

text \<open>The statements that have a selection, in order.\<close>

definition selections_of :: "program \<Rightarrow> registry \<Rightarrow> exec_error + (nat \<times> selection) list" where
  "selections_of pg reg =
     rbind (collect_results (map (\<lambda>i. get_selection reg (command_of pg i)) [0..<length (pg_nodes pg)])) (\<lambda>sels.
     Inr (somes (map (\<lambda>(i, s). map_option (Pair i) s) (zip [0..<length (pg_nodes pg)] sels))))"

text \<open>A query for the implicit edges that fails is as if it had found none.\<close>

definition collect_ref_edges ::
  "exec_env \<Rightarrow> eph_context \<Rightarrow> int list \<Rightarrow> selection list \<Rightarrow> exec_error + ref_edge list" where
  "collect_ref_edges env eph node_ids sels =
     (let all_nodes = set node_ids in
      rbind (forced_edges all_nodes sels ([], [])) (\<lambda>acc.
      rbind (explicit_edges all_nodes sels acc) (\<lambda>acc.
      rbind (case ev_edges_between env (canonical_ids node_ids) eph of
               Inl e \<Rightarrow> Inr acc
             | Inr edges \<Rightarrow> add_candidates (implicit_candidate (instance_symbols all_nodes sels)) edges acc) (\<lambda>acc.
      Inr (snd acc)))))"

subsection \<open>Containment edges\<close>

definition i64_top :: int where "i64_top = 9223372036854775807"

text \<open>The width of a container; \<open>e - s\<close> is an \<open>i32\<close>.\<close>

definition container_span :: "instance_row \<Rightarrow> int" where
  "container_span i =
     (case range_bounds_to_offsets (in_range i) of Some (s, e) \<Rightarrow> as_i32 (e - s) | None \<Rightarrow> i64_top)"

type_synonym containment = "instance_row \<times> instance_row \<times> int \<times> int"

definition containments :: "selection \<Rightarrow> containment list" where
  "containments s =
     map (\<lambda>h. (hc_parent_instance h, hc_child_instance h, sy_id (hc_parent_symbol h), sy_id (hc_child_symbol h)))
       (sl_has_children s)
     @ map (\<lambda>h. (hp_parent_instance h, hp_child_instance h, sy_id (hp_parent_symbol h), sy_id (hp_child_symbol h)))
       (sl_has_parents s)"

definition mk_has_edge :: "containment \<Rightarrow> has_edge" where
  "mk_has_edge = (\<lambda>(pi, ci, ps, cs).
     \<lparr>he_parent = ps, he_child = cs, he_parent_instance = in_id pi, he_child_instance = in_id ci\<rparr>)"

text \<open>One containment: the entry of the child keeps the container with the smaller span.\<close>

definition keep_tightest :: "int set \<Rightarrow> (int \<times> has_edge \<times> int) list \<Rightarrow> containment \<Rightarrow> (int \<times> has_edge \<times> int) list" where
  "keep_tightest all_nodes best c =
     (case c of (pi, ci, ps, cs) \<Rightarrow>
        if in_id pi \<notin> all_nodes \<or> in_id ci \<notin> all_nodes then best
        else case map_of best (in_id ci) of
               None \<Rightarrow> best @ [(in_id ci, mk_has_edge c, container_span pi)]
             | Some (e, sp) \<Rightarrow>
                 if container_span pi < sp then AList.update (in_id ci) (mk_has_edge c, container_span pi) best
                 else best)"

definition collect_has_edges :: "int list \<Rightarrow> selection list \<Rightarrow> has_edge list" where
  "collect_has_edges node_ids sels =
     map (\<lambda>(k, e, sp). e) (foldl (keep_tightest (set node_ids)) [] (concat (map containments sels)))"

subsection \<open>Execution\<close>

definition statement_range :: "command \<Rightarrow> exec_error + query_statement_range" where
  "statement_range c =
     (case query_statement_span c of
        None \<Rightarrow> Inl ExecPanic
      | Some sp \<Rightarrow>
          (case span_as_str sp of
             None \<Rightarrow> Inl ExecPanic
           | Some t \<Rightarrow> Inr \<lparr>qs_start = sp_start sp, qs_end = sp_end sp, qs_text = t\<rparr>))"

definition add_node :: "query_statement_range \<Rightarrow> (int \<times> selection_node) list \<Rightarrow> selection_node \<Rightarrow> (int \<times> selection_node) list" where
  "add_node info m n =
     (let n' = n\<lparr>nd_statements := nd_statements n @ [info]\<rparr>; k = in_id (nd_instance n) in
      case map_of m k of
        None \<Rightarrow> m @ [(k, n')]
      | Some old \<Rightarrow> AList.update k (old\<lparr>nd_statements := nd_statements old @ nd_statements n'\<rparr>) m)"

fun collect_nodes ::
  "program \<Rightarrow> (nat \<times> selection) list \<Rightarrow> (int \<times> selection_node) list \<Rightarrow> exec_error + (int \<times> selection_node) list" where
  "collect_nodes pg [] m = Inr m"
| "collect_nodes pg ((i, s) # sels) m =
     rbind (statement_range (command_of pg i)) (\<lambda>info.
     collect_nodes pg sels (foldl (add_node info) m (sl_nodes s)))"

definition collect_result ::
  "exec_env \<Rightarrow> eph_context \<Rightarrow> program \<Rightarrow> registry \<Rightarrow> diagnostic list \<Rightarrow> exec_error + execution_result" where
  "collect_result env eph pg reg warnings =
     rbind (selections_of pg reg) (\<lambda>sels.
     rbind (collect_nodes pg sels []) (\<lambda>node_map.
     let node_ids = map fst node_map in
     rbind (collect_ref_edges env eph node_ids (map snd sels)) (\<lambda>ref_edges.
     Inr \<lparr>er_nodes = map snd node_map, er_edges = ref_edges,
          er_has_edges = collect_has_edges node_ids (map snd sels), er_warnings = warnings\<rparr>)))"

text \<open>\<open>MAX_SUGGESTIONS\<close> is 5; the two look-ups of the enrichment fail with \<open>None\<close>.\<close>

record name_lookups =
  nl_has_symbol :: "composite_filter \<Rightarrow> eph_context \<Rightarrow> bool option"
  nl_suggest :: "string \<Rightarrow> int list \<Rightarrow> int list \<Rightarrow> nat \<Rightarrow> string list option"

definition execute ::
  "('w, 'd) world_api \<Rightarrow> ('w \<Rightarrow> name_lookups) \<Rightarrow> (nat \<times> eph_op list) list \<Rightarrow> stmt \<Rightarrow> exec_ctx \<Rightarrow> 'w
    \<Rightarrow> ((exec_error + execution_result) \<times> 'w) option" where
  "execute api names ops root ctx w =
     (case compute_nodes api ops root ctx w of
        None \<Rightarrow> None
      | Some (Inl e, w1) \<Rightarrow> Some (Inl e, w1)
      | Some (Inr (pg, ctx1, sts), w1) \<Rightarrow>
          (let eph = xc_eph ctx1; project_ids = map rt_project_id (ec_roots eph);
               warnings = enrich_no_match project_ids
                 (\<lambda>token. nl_has_symbol (names w1) (name_filter (PatExact token)) eph)
                 (\<lambda>token. nl_suggest (names w1) token project_ids (visible_ids eph) 5)
                 (gather_warnings (map ss_warnings sts))
           in Some (collect_result (wd_env api w1) eph pg (xc_registry ctx1) warnings, w1)))"

subsection \<open>What the edge list holds\<close>

fun edge_key_of :: "ref_edge \<Rightarrow> int \<times> int \<times> occurrence" where
  "edge_key_of (f, to, oc) = (ni_instance f, ni_symbol to, the oc)"

definition acc_ok :: "edge_acc \<Rightarrow> bool" where
  "acc_ok acc \<longleftrightarrow> set (fst acc) = edge_key_of ` set (snd acc) \<and> distinct (map edge_key_of (snd acc))"

definition candidates :: "('x \<Rightarrow> exec_error + candidate_edge option) \<Rightarrow> 'x list \<Rightarrow> candidate_edge set" where
  "candidates f xs = {c. \<exists>x\<in>set xs. f x = Inr (Some c)}"

definition edge_of :: "candidate_edge \<Rightarrow> ref_edge" where
  "edge_of c = (ce_from c, ce_to c, Some (ce_occurrence c))"

lemma edge_key_of_edge_of [simp]: "edge_key_of (edge_of c) = ce_key c"
  by (simp add: edge_of_def ce_key_def)

definition extends_by :: "candidate_edge set \<Rightarrow> edge_acc \<Rightarrow> edge_acc \<Rightarrow> bool" where
  "extends_by C acc acc' \<longleftrightarrow>
     edge_key_of ` set (snd acc') = edge_key_of ` set (snd acc) \<union> ce_key ` C
     \<and> set (snd acc') \<subseteq> set (snd acc) \<union> edge_of ` C \<and> (\<exists>es. snd acc' = snd acc @ es)"

lemma extends_by_refl: "extends_by {} acc acc" by (simp add: extends_by_def)

lemma extends_by_trans:
  assumes "extends_by A a b" "extends_by B b c"
  shows "extends_by (A \<union> B) a c"
proof -
  obtain e1 e2 where e: "snd b = snd a @ e1" "snd c = snd b @ e2" using assms by (auto simp: extends_by_def)
  have "edge_key_of ` set (snd c) = edge_key_of ` set (snd a) \<union> ce_key ` (A \<union> B)"
    using assms unfolding extends_by_def by (simp add: image_Un Un_assoc)
  moreover have "set (snd c) \<subseteq> set (snd a) \<union> edge_of ` (A \<union> B)"
    using assms unfolding extends_by_def by blast
  ultimately show ?thesis using e by (simp add: extends_by_def)
qed

lemma add_edge_extends:
  assumes "acc_ok acc"
  shows "acc_ok (add_edge c acc) \<and> extends_by {c} acc (add_edge c acc)"
proof (cases "ce_key c \<in> set (fst acc)")
  case True
  then have "ce_key c \<in> edge_key_of ` set (snd acc)" using assms by (simp add: acc_ok_def)
  then have "edge_key_of ` set (snd acc) = insert (ce_key c) (edge_key_of ` set (snd acc))" by blast
  then show ?thesis using True assms by (simp add: add_edge_def extends_by_def subset_insertI2)
next
  case False
  have "edge_key_of (ce_from c, ce_to c, Some (ce_occurrence c)) = ce_key c"
    by (simp add: ce_key_def)
  then show ?thesis
    using False assms by (auto simp: add_edge_def acc_ok_def extends_by_def edge_of_def)
qed

lemma add_candidates_extends:
  "add_candidates f xs acc = Inr acc' \<Longrightarrow> acc_ok acc \<Longrightarrow> acc_ok acc' \<and> extends_by (candidates f xs) acc acc'"
proof (induction xs arbitrary: acc)
  case Nil
  then show ?case by (simp add: candidates_def extends_by_refl)
next
  case (Cons x xs)
  then obtain c where c: "f x = Inr c"
    "add_candidates f xs (case c of None \<Rightarrow> acc | Some c \<Rightarrow> add_edge c acc) = Inr acc'"
    by (auto simp: rbind_Inr)
  show ?case
  proof (cases c)
    case None
    have "candidates f (x # xs) = candidates f xs" using c(1) None by (auto simp: candidates_def)
    then show ?thesis using Cons.IH Cons.prems(2) c(2) None by simp
  next
    case (Some k)
    have eq: "candidates f (x # xs) = {k} \<union> candidates f xs" using c(1) Some by (auto simp: candidates_def)
    note first = add_edge_extends [OF Cons.prems(2), of k]
    then have "acc_ok acc' \<and> extends_by (candidates f xs) (add_edge k acc) acc'"
      using Cons.IH c(2) Some by simp
    then show ?thesis using first extends_by_trans eq by metis
  qed
qed

definition forced_of :: "int set \<Rightarrow> selection list \<Rightarrow> candidate_edge set" where
  "forced_of N sels = (\<Union>s\<in>set sels. candidates (forced_candidate N) (sl_parents s))"

definition explicit_of :: "int set \<Rightarrow> selection list \<Rightarrow> candidate_edge set" where
  "explicit_of N sels = (\<Union>s\<in>set sels. candidates (child_candidate N) (sl_children s)
     \<union> candidates (explicit_candidate N) (sl_parents s))"

definition implicit_of :: "exec_env \<Rightarrow> eph_context \<Rightarrow> int list \<Rightarrow> selection list \<Rightarrow> candidate_edge set" where
  "implicit_of env eph ids sels =
     (case ev_edges_between env (canonical_ids ids) eph of
        Inl e \<Rightarrow> {} | Inr edges \<Rightarrow> candidates (implicit_candidate (instance_symbols (set ids) sels)) edges)"

lemma forced_edges_extends:
  "forced_edges N sels acc = Inr acc' \<Longrightarrow> acc_ok acc \<Longrightarrow> acc_ok acc' \<and> extends_by (forced_of N sels) acc acc'"
proof (induction sels arbitrary: acc)
  case Nil
  then show ?case by (simp add: forced_of_def extends_by_refl)
next
  case (Cons s sels)
  then obtain mid where mid: "add_candidates (forced_candidate N) (sl_parents s) acc = Inr mid"
    "forced_edges N sels mid = Inr acc'" by (auto simp: rbind_Inr)
  note one = add_candidates_extends [OF mid(1) Cons.prems(2)]
  then have "acc_ok acc' \<and> extends_by (forced_of N sels) mid acc'" using Cons.IH mid(2) by blast
  moreover have "forced_of N (s # sels) = candidates (forced_candidate N) (sl_parents s) \<union> forced_of N sels"
    by (auto simp: forced_of_def)
  ultimately show ?case using one extends_by_trans by metis
qed

lemma explicit_edges_extends:
  "explicit_edges N sels acc = Inr acc' \<Longrightarrow> acc_ok acc \<Longrightarrow> acc_ok acc' \<and> extends_by (explicit_of N sels) acc acc'"
proof (induction sels arbitrary: acc)
  case Nil
  then show ?case by (simp add: explicit_of_def extends_by_refl)
next
  case (Cons s sels)
  then obtain a b where a: "add_candidates (child_candidate N) (sl_children s) acc = Inr a"
    and b: "add_candidates (explicit_candidate N) (sl_parents s) a = Inr b"
    and rest: "explicit_edges N sels b = Inr acc'" by (auto simp: rbind_Inr)
  note one = add_candidates_extends [OF a Cons.prems(2)]
  note two = add_candidates_extends [OF b conjunct1 [OF one]]
  have "acc_ok acc' \<and> extends_by (explicit_of N sels) b acc'" using Cons.IH rest two by blast
  moreover have "explicit_of N (s # sels) = (candidates (child_candidate N) (sl_children s)
      \<union> candidates (explicit_candidate N) (sl_parents s)) \<union> explicit_of N sels"
    by (auto simp: explicit_of_def)
  ultimately show ?case using one two extends_by_trans by metis
qed

lemma collect_ref_edges_extends:
  assumes "collect_ref_edges env eph ids sels = Inr es"
  shows "distinct (map edge_key_of es)
    \<and> edge_key_of ` set es = ce_key ` (forced_of (set ids) sels \<union> explicit_of (set ids) sels \<union> implicit_of env eph ids sels)
    \<and> set es \<subseteq> edge_of ` (forced_of (set ids) sels \<union> explicit_of (set ids) sels \<union> implicit_of env eph ids sels)"
proof -
  obtain a b c where a: "forced_edges (set ids) sels ([], []) = Inr a" and b: "explicit_edges (set ids) sels a = Inr b"
    and c: "(case ev_edges_between env (canonical_ids ids) eph of Inl e \<Rightarrow> Inr b
             | Inr edges \<Rightarrow> add_candidates (implicit_candidate (instance_symbols (set ids) sels)) edges b) = Inr c"
    and es: "es = snd c"
    using assms by (auto simp: collect_ref_edges_def Let_def rbind_Inr)
  have "acc_ok ([], [])" by (simp add: acc_ok_def)
  note one = forced_edges_extends [OF a this]
  note two = explicit_edges_extends [OF b conjunct1 [OF one]]
  have three: "acc_ok c \<and> extends_by (implicit_of env eph ids sels) b c"
  proof (cases "ev_edges_between env (canonical_ids ids) eph")
    case (Inl e)
    then show ?thesis using c two by (simp add: implicit_of_def extends_by_refl)
  next
    case (Inr edges)
    then have "add_candidates (implicit_candidate (instance_symbols (set ids) sels)) edges b = Inr c"
      using c by simp
    from add_candidates_extends [OF this conjunct1 [OF two]] show ?thesis
      using Inr by (simp add: implicit_of_def)
  qed
  have "extends_by (forced_of (set ids) sels \<union> explicit_of (set ids) sels \<union> implicit_of env eph ids sels) ([], []) c"
    using one two three extends_by_trans by blast
  then show ?thesis using three es unfolding extends_by_def acc_ok_def by simp
qed

lemma instance_symbols_dom:
  "dom (instance_symbols N sels) = (\<Union>s\<in>set sels. (\<lambda>n. in_id (nd_instance n)) ` set (sl_nodes s)) \<inter> N"
proof -
  have dom: "dom (foldl (\<lambda>m n. if in_id (nd_instance n) \<in> N then m(in_id (nd_instance n) \<mapsto> sy_id (nd_symbol n)) else m) m ns)
      = dom m \<union> ((\<lambda>n. in_id (nd_instance n)) ` set ns \<inter> N)" for m :: "int \<rightharpoonup> int" and ns
    by (induction ns arbitrary: m) auto
  show ?thesis unfolding instance_symbols_def dom by auto
qed

lemma candidate_ends:
  "parent_candidate N p = Inr (Some c) \<Longrightarrow> ni_instance (ce_from c) \<in> N \<and> ni_instance (ce_to c) \<in> N"
  "child_candidate N h = Inr (Some c) \<Longrightarrow> ni_instance (ce_from c) \<in> N \<and> ni_instance (ce_to c) \<in> N"
  "implicit_candidate m e = Inr (Some c) \<Longrightarrow> ni_instance (ce_from c) \<in> dom m \<and> ni_instance (ce_to c) \<in> dom m"
  by (auto simp: parent_candidate_def child_candidate_def implicit_candidate_def rbind_Inr
      split: if_splits option.splits)

lemma candidate_endpoints:
  assumes "c \<in> forced_of (set ids) sels \<union> explicit_of (set ids) sels \<union> implicit_of env eph ids sels"
  shows "ni_instance (ce_from c) \<in> set ids \<and> ni_instance (ce_to c) \<in> set ids"
proof -
  consider (forced) "c \<in> forced_of (set ids) sels" | (explicit) "c \<in> explicit_of (set ids) sels"
    | (implicit) "c \<in> implicit_of env eph ids sels" using assms by blast
  then show ?thesis
  proof cases
    case forced
    then show ?thesis
      using candidate_ends(1) by (fastforce simp: forced_of_def candidates_def forced_candidate_def split: if_splits)
  next
    case explicit
    then show ?thesis
      using candidate_ends(1,2) by (fastforce simp: explicit_of_def candidates_def explicit_candidate_def split: if_splits)
  next
    case implicit
    have "dom (instance_symbols (set ids) sels) \<subseteq> set ids" by (simp add: instance_symbols_dom)
    with implicit show ?thesis
      using candidate_ends(3) by (fastforce simp: implicit_of_def candidates_def split: sum.splits)
  qed
qed

subsection \<open>What the containment edges hold\<close>

definition related :: "int set \<Rightarrow> containment list \<Rightarrow> int \<Rightarrow> containment set" where
  "related N cs k = {(pi, ci, ps, sy) \<in> set cs. in_id ci = k \<and> in_id pi \<in> N \<and> in_id ci \<in> N}"

definition best_entry :: "containment set \<Rightarrow> (has_edge \<times> int) option \<Rightarrow> bool" where
  "best_entry R v =
     (case v of
        None \<Rightarrow> R = {}
      | Some (e, sp) \<Rightarrow> \<exists>c\<in>R. e = mk_has_edge c \<and> sp = container_span (fst c)
          \<and> (\<forall>c'\<in>R. sp \<le> container_span (fst c')))"

definition tightest :: "int set \<Rightarrow> containment list \<Rightarrow> (int \<times> has_edge \<times> int) list \<Rightarrow> bool" where
  "tightest N cs best \<longleftrightarrow> distinct (map fst best) \<and> (\<forall>k. best_entry (related N cs k) (map_of best k))"

lemma related_snoc:
  "related N (cs @ [(pi, ci, ps, sy)]) k =
     (if in_id ci = k \<and> in_id pi \<in> N \<and> in_id ci \<in> N then insert (pi, ci, ps, sy) (related N cs k)
      else related N cs k)"
  by (auto simp: related_def)

lemma best_entry_steps:
  "best_entry {} None" "best_entry R None \<Longrightarrow> best_entry (insert c R) (Some (mk_has_edge c, container_span (fst c)))"
  "best_entry R (Some (e, sp)) \<Longrightarrow> container_span (fst c) < sp
     \<Longrightarrow> best_entry (insert c R) (Some (mk_has_edge c, container_span (fst c)))"
  "best_entry R (Some (e, sp)) \<Longrightarrow> \<not> container_span (fst c) < sp \<Longrightarrow> best_entry (insert c R) (Some (e, sp))"
  by (force simp: best_entry_def)+

lemma keep_tightest_step:
  assumes inv: "tightest N cs best"
  shows "tightest N (cs @ [c]) (keep_tightest N best c)"
proof -
  obtain pi ci ps sy where c: "c = (pi, ci, ps, sy)" by (cases c)
  have keys: "distinct (map fst best)" and entry: "best_entry (related N cs k) (map_of best k)" for k
    using inv by (simp_all add: tightest_def)
  show ?thesis
  proof (cases "in_id pi \<in> N \<and> in_id ci \<in> N")
    case False
    then have "keep_tightest N best c = best" "related N (cs @ [c]) k = related N cs k" for k
      by (auto simp: c keep_tightest_def related_snoc)
    then show ?thesis using inv by (simp add: tightest_def)
  next
    case True
    have R: "related N (cs @ [c]) k = (if k = in_id ci then insert c (related N cs k) else related N cs k)" for k
      using True by (auto simp: c related_snoc)
    show ?thesis
    proof (cases "map_of best (in_id ci)")
      case None
      have kt: "keep_tightest N best c = best @ [(in_id ci, mk_has_edge c, container_span (fst c))]"
        using True None by (simp add: c keep_tightest_def)
      have lookup: "map_of (keep_tightest N best c) k =
          (if k = in_id ci then Some (mk_has_edge c, container_span (fst c)) else map_of best k)" for k
        using None by (simp add: kt map_add_def split: option.split)
      have "in_id ci \<notin> fst ` set best" using None by (simp add: map_of_eq_None_iff)
      then have "distinct (map fst (keep_tightest N best c))" using keys by (simp add: kt)
      moreover have "best_entry (related N (cs @ [c]) k) (map_of (keep_tightest N best c) k)" for k
        unfolding R lookup using entry [of k] None by (auto intro: best_entry_steps(2))
      ultimately show ?thesis by (simp add: tightest_def)
    next
      case (Some v)
      then obtain e sp where v: "map_of best (in_id ci) = Some (e, sp)" by (cases v) auto
      show ?thesis
      proof (cases "container_span (fst c) < sp")
        case less: True
        have kt: "keep_tightest N best c = AList.update (in_id ci) (mk_has_edge c, container_span (fst c)) best"
          using True v less by (simp add: c keep_tightest_def)
        have "best_entry (related N (cs @ [c]) k) (map_of (keep_tightest N best c) k)" for k
          unfolding R kt update_conv using entry [of k] v best_entry_steps(3) [OF _ less] by auto
        then show ?thesis using keys distinct_update by (auto simp: tightest_def kt)
      next
        case False
        have kt: "keep_tightest N best c = best" using True v False by (simp add: c keep_tightest_def)
        have "best_entry (related N (cs @ [c]) k) (map_of (keep_tightest N best c) k)" for k
          unfolding R kt using entry [of k] v best_entry_steps(4) [OF _ False] by auto
        then show ?thesis using keys by (simp add: tightest_def kt)
      qed
    qed
  qed
qed

lemma keep_tightest_all: "tightest N cs (foldl (keep_tightest N) [] cs)"
proof (induction cs rule: rev_induct)
  case Nil
  then show ?case by (simp add: tightest_def related_def best_entry_def)
next
  case (snoc c cs)
  then show ?case using keep_tightest_step by simp
qed

lemma has_edges_tightest:
  fixes ids sels
  defines "cs \<equiv> concat (map containments sels)" and "es \<equiv> collect_has_edges ids sels"
  shows "distinct (map he_child_instance es)"
    and "he_child_instance ` set es = {k. related (set ids) cs k \<noteq> {}}"
    and "\<forall>e\<in>set es. \<exists>c\<in>related (set ids) cs (he_child_instance e). e = mk_has_edge c
       \<and> (\<forall>c'\<in>related (set ids) cs (he_child_instance e). container_span (fst c) \<le> container_span (fst c'))"
proof -
  define best where "best = foldl (keep_tightest (set ids)) [] cs"
  have t: "distinct (map fst best)" "best_entry (related (set ids) cs k) (map_of best k)" for k
    using keep_tightest_all [of "set ids" cs] by (simp_all add: tightest_def best_def)
  have es: "es = map (\<lambda>(k, e, sp). e) best" by (simp add: es_def collect_has_edges_def best_def cs_def)
  have at: "he_child_instance e = k \<and> (\<exists>c\<in>related (set ids) cs k. e = mk_has_edge c
       \<and> (\<forall>c'\<in>related (set ids) cs k. container_span (fst c) \<le> container_span (fst c')))"
    if "(k, e, sp) \<in> set best" for k e sp
  proof -
    have "map_of best k = Some (e, sp)" using t(1) that by simp
    then obtain c where c: "c \<in> related (set ids) cs k" "e = mk_has_edge c"
      "\<forall>c'\<in>related (set ids) cs k. container_span (fst c) \<le> container_span (fst c')"
      using t(2) [of k] by (auto simp: best_entry_def)
    then have "he_child_instance e = k" by (auto simp: related_def mk_has_edge_def)
    then show ?thesis using c by blast
  qed
  have map: "map he_child_instance es = map fst best"
    unfolding es using at by (fastforce simp: comp_def)
  show "distinct (map he_child_instance es)" using t(1) map by simp
  have "fst ` set best = {k. related (set ids) cs k \<noteq> {}}"
  proof -
    have "k \<in> fst ` set best \<longleftrightarrow> map_of best k \<noteq> None" for k by (simp add: map_of_eq_None_iff)
    moreover have "map_of best k = None \<longleftrightarrow> related (set ids) cs k = {}" for k
      using t(2) [of k] by (auto simp: best_entry_def split: option.splits)
    ultimately show ?thesis by blast
  qed
  then show "he_child_instance ` set es = {k. related (set ids) cs k \<noteq> {}}"
    using map by (metis list.set_map)
  show "\<forall>e\<in>set es. \<exists>c\<in>related (set ids) cs (he_child_instance e). e = mk_has_edge c
       \<and> (\<forall>c'\<in>related (set ids) cs (he_child_instance e). container_span (fst c) \<le> container_span (fst c'))"
    unfolding es using at by fastforce
qed

subsection \<open>What the node list holds\<close>

text \<open>The node list after the nodes \<open>tagged\<close> with the range of their statement.\<close>

definition node_entry :: "(query_statement_range \<times> selection_node) list \<Rightarrow> int \<Rightarrow> selection_node option \<Rightarrow> bool" where
  "node_entry tagged k v =
     (let here = filter (\<lambda>(info, n). in_id (nd_instance n) = k) tagged in
      case v of
        None \<Rightarrow> here = []
      | Some x \<Rightarrow> in_id (nd_instance x) = k \<and> nd_statements x = map fst here \<and> (\<exists>(info, n)\<in>set here. node_eq x n))"

definition nodes_ok :: "(query_statement_range \<times> selection_node) list \<Rightarrow> (int \<times> selection_node) list \<Rightarrow> bool" where
  "nodes_ok tagged m \<longleftrightarrow> distinct (map fst m) \<and> (\<forall>k. node_entry tagged k (map_of m k))"

lemma add_node_step:
  assumes inv: "nodes_ok tagged m" and fresh: "nd_statements n = []"
  shows "nodes_ok (tagged @ [(info, n)]) (add_node info m n)"
proof -
  let ?k = "in_id (nd_instance n)"
  have keys: "distinct (map fst m)" and entry: "node_entry tagged k (map_of m k)" for k
    using inv by (simp_all add: nodes_ok_def)
  have other: "node_entry (tagged @ [(info, n)]) k v = node_entry tagged k v" if "k \<noteq> ?k" for k v
    using that by (simp add: node_entry_def)
  show ?thesis
  proof (cases "map_of m ?k")
    case None
    have add: "add_node info m n = m @ [(?k, n\<lparr>nd_statements := [info]\<rparr>)]"
      using None fresh by (simp add: add_node_def Let_def)
    have look: "map_of (add_node info m n) k = (if k = ?k then Some (n\<lparr>nd_statements := [info]\<rparr>) else map_of m k)" for k
      using None by (simp add: add map_add_def split: option.split)
    have "distinct (map fst (add_node info m n))"
      using keys None by (simp add: add map_of_eq_None_iff)
    moreover have "node_entry (tagged @ [(info, n)]) k (map_of (add_node info m n) k)" for k
    proof (cases "k = ?k")
      case True
      then show ?thesis
        unfolding look using entry [of ?k] None by (simp add: node_entry_def Let_def node_eq_def)
    qed (simp add: look other entry)
    ultimately show ?thesis by (simp add: nodes_ok_def)
  next
    case (Some old)
    define old' where "old' = old\<lparr>nd_statements := nd_statements old @ [info]\<rparr>"
    have add: "add_node info m n = AList.update ?k old' m"
      using Some fresh by (simp add: add_node_def Let_def old'_def)
    have look: "map_of (add_node info m n) k = (if k = ?k then Some old' else map_of m k)" for k
      by (simp add: add update_conv)
    have "distinct (map fst (add_node info m n))" unfolding add by (rule distinct_update [OF keys])
    moreover have "node_entry (tagged @ [(info, n)]) k (map_of (add_node info m n) k)" for k
    proof (cases "k = ?k")
      case True
      then show ?thesis
        unfolding look using entry [of ?k] Some
        by (auto simp: node_entry_def Let_def node_eq_def old'_def)
    qed (simp add: look other entry)
    ultimately show ?thesis by (simp add: nodes_ok_def)
  qed
qed

lemma add_nodes:
  "nodes_ok tagged m \<Longrightarrow> \<forall>n\<in>set ns. nd_statements n = [] \<Longrightarrow>
   nodes_ok (tagged @ map (Pair info) ns) (foldl (add_node info) m ns)"
proof (induction ns arbitrary: tagged m)
  case (Cons n ns)
  then have "nodes_ok (tagged @ [(info, n)]) (add_node info m n)" by (intro add_node_step) simp_all
  then show ?case using Cons.IH Cons.prems(2) by fastforce
qed simp

text \<open>Every node a statement selected, with the range of the statement.\<close>

fun tagged_nodes :: "program \<Rightarrow> (nat \<times> selection) list \<Rightarrow> (query_statement_range \<times> selection_node) list" where
  "tagged_nodes pg [] = []"
| "tagged_nodes pg ((i, s) # sels) =
     (case statement_range (command_of pg i) of
        Inl e \<Rightarrow> [] | Inr info \<Rightarrow> map (Pair info) (sl_nodes s)) @ tagged_nodes pg sels"

lemma collect_nodes_ok:
  "collect_nodes pg sels m = Inr m' \<Longrightarrow> nodes_ok tagged m \<Longrightarrow> \<forall>(i, s)\<in>set sels. \<forall>n\<in>set (sl_nodes s). nd_statements n = [] \<Longrightarrow>
   nodes_ok (tagged @ tagged_nodes pg sels) m' \<and> (\<forall>(i, s)\<in>set sels. \<exists>info. statement_range (command_of pg i) = Inr info)"
proof (induction sels arbitrary: tagged m)
  case (Cons x sels)
  obtain i s where x: "x = (i, s)" by (cases x)
  obtain info where info: "statement_range (command_of pg i) = Inr info"
    and rest: "collect_nodes pg sels (foldl (add_node info) m (sl_nodes s)) = Inr m'"
    using Cons.prems(1) x by (auto simp: rbind_Inr)
  have "nodes_ok (tagged @ map (Pair info) (sl_nodes s)) (foldl (add_node info) m (sl_nodes s))"
    using Cons.prems(2,3) x by (intro add_nodes) auto
  from Cons.IH [OF rest this] show ?case using Cons.prems(3) x info by simp
qed simp

lemma tagged_nodes_ids:
  assumes "\<forall>(i, s)\<in>set sels. \<exists>info. statement_range (command_of pg i) = Inr info"
  shows "(\<lambda>(info, n). in_id (nd_instance n)) ` set (tagged_nodes pg sels)
    = (\<Union>(i, s)\<in>set sels. set (get_instance_ids s))"
  using assms
proof (induction sels)
  case (Cons x sels)
  obtain i s where x: "x = (i, s)" by (cases x)
  then obtain info where "statement_range (command_of pg i) = Inr info" using Cons.prems by auto
  then show ?case
    using Cons x by (simp add: image_Un image_image get_instance_ids_def)
qed simp

lemma collected_nodes:
  assumes "collect_nodes pg sels [] = Inr m" and "\<forall>(i, s)\<in>set sels. \<forall>n\<in>set (sl_nodes s). nd_statements n = []"
  shows "distinct (map fst m)" and "set (map fst m) = (\<Union>(i, s)\<in>set sels. set (get_instance_ids s))"
    and "map (\<lambda>n. in_id (nd_instance n)) (map snd m) = map fst m"
    and "\<forall>x\<in>set (map snd m). nd_statements x =
      map fst (filter (\<lambda>(info, n). in_id (nd_instance n) = in_id (nd_instance x)) (tagged_nodes pg sels))"
proof -
  have "nodes_ok [] []" by (simp add: nodes_ok_def node_entry_def)
  from collect_nodes_ok [OF assms(1) this assms(2)]
  have ok: "nodes_ok (tagged_nodes pg sels) m"
    and ranges: "\<forall>(i, s)\<in>set sels. \<exists>info. statement_range (command_of pg i) = Inr info" by simp_all
  show keys: "distinct (map fst m)" using ok by (simp add: nodes_ok_def)
  have entry: "node_entry (tagged_nodes pg sels) k (map_of m k)" for k using ok by (simp add: nodes_ok_def)
  have "k \<in> set (map fst m) \<longleftrightarrow> k \<in> (\<lambda>(info, n). in_id (nd_instance n)) ` set (tagged_nodes pg sels)" for k
  proof -
    have "k \<in> set (map fst m) \<longleftrightarrow> map_of m k \<noteq> None" by (simp add: map_of_eq_None_iff)
    also have "\<dots> \<longleftrightarrow> filter (\<lambda>(info, n). in_id (nd_instance n) = k) (tagged_nodes pg sels) \<noteq> []"
    proof (cases "map_of m k")
      case (Some x)
      then obtain p where "p \<in> set (filter (\<lambda>(info, n). in_id (nd_instance n) = k) (tagged_nodes pg sels))"
        using entry [of k] by (auto simp: node_entry_def Let_def)
      then show ?thesis using Some by (metis empty_iff empty_set option.distinct(1))
    qed (use entry [of k] in \<open>simp add: node_entry_def Let_def\<close>)
    also have "\<dots> \<longleftrightarrow> k \<in> (\<lambda>(info, n). in_id (nd_instance n)) ` set (tagged_nodes pg sels)"
      by (force simp: filter_empty_conv)
    finally show ?thesis .
  qed
  then show "set (map fst m) = (\<Union>(i, s)\<in>set sels. set (get_instance_ids s))"
    using tagged_nodes_ids [OF ranges] by blast
  have at: "in_id (nd_instance x) = k \<and> nd_statements x =
      map fst (filter (\<lambda>(info, n). in_id (nd_instance n) = k) (tagged_nodes pg sels))" if "(k, x) \<in> set m" for k x
    using entry [of k] that keys by (simp add: node_entry_def Let_def)
  show "map (\<lambda>n. in_id (nd_instance n)) (map snd m) = map fst m" using at by (auto simp: comp_def)
  show "\<forall>x\<in>set (map snd m). nd_statements x =
      map fst (filter (\<lambda>(info, n). in_id (nd_instance n) = in_id (nd_instance x)) (tagged_nodes pg sels))"
    using at by fastforce
qed

subsection \<open>Properties\<close>

text \<open>
  C10. The nodes of a result: one node per instance, for exactly the instances some statement
  selected, and each node lists the source ranges of the statements that selected it, in
  statement order.
\<close>

theorem result_nodes_exact:
  assumes "collect_result env eph pg reg warnings = Inr r" and "selections_of pg reg = Inr sels"
    and "\<forall>(i, s)\<in>set sels. \<forall>n\<in>set (sl_nodes s). nd_statements n = []"
  shows "distinct (map (\<lambda>n. in_id (nd_instance n)) (er_nodes r))
    \<and> set (nodes_as_vec (er_nodes r)) = (\<Union>(i, s)\<in>set sels. set (get_instance_ids s))
    \<and> (\<forall>x\<in>set (er_nodes r). nd_statements x =
         map fst (filter (\<lambda>(info, n). in_id (nd_instance n) = in_id (nd_instance x)) (tagged_nodes pg sels)))"
proof -
  obtain m es where m: "collect_nodes pg sels [] = Inr m" and r: "er_nodes r = map snd m"
    using assms(1,2) by (auto simp: collect_result_def Let_def rbind_Inr)
  note nodes = collected_nodes [OF m assms(3)]
  then show ?thesis unfolding r nodes_as_vec_def set_sort by (metis list.set_map)
qed

text \<open>
  C11. The reference edges of a result: every edge connects two nodes of the result, no two edges
  share source instance, target symbol and occurrence, and an edge with a given key is there iff
  a forced, an explicit or (when the database answered) an implicit reference between result
  nodes has that key.
\<close>

theorem ref_edges_exact:
  assumes "collect_ref_edges env eph ids sels = Inr es"
  shows "distinct (map edge_key_of es)
    \<and> edge_key_of ` set es =
        ce_key ` (forced_of (set ids) sels \<union> explicit_of (set ids) sels \<union> implicit_of env eph ids sels)
    \<and> (\<forall>(f, to, oc)\<in>set es. ni_instance f \<in> set ids \<and> ni_instance to \<in> set ids \<and> oc \<noteq> None)
    \<and> set (edges_as_vec es) = set es"
proof -
  note ext = collect_ref_edges_extends [OF assms]
  have "ni_instance f \<in> set ids \<and> ni_instance to \<in> set ids \<and> oc \<noteq> None" if "(f, to, oc) \<in> set es" for f to oc
    using ext that candidate_endpoints [of _ ids sels env eph] by (fastforce simp: edge_of_def)
  then show ?thesis using ext by (auto simp: edges_as_vec_def)
qed

text \<open>
  C12. The containment edges of a result: at most one per child, one exactly for the children some
  selected container holds, and always to a container of the least width.
\<close>

theorem containment_edges_tightest:
  "distinct (map he_child_instance (collect_has_edges ids sels))
    \<and> he_child_instance ` set (collect_has_edges ids sels) = {k. related (set ids) (concat (map containments sels)) k \<noteq> {}}
    \<and> set (has_edges_as_vec (collect_has_edges ids sels)) = set (collect_has_edges ids sels)
    \<and> list_all (\<lambda>e. \<exists>c\<in>related (set ids) (concat (map containments sels)) (he_child_instance e). e = mk_has_edge c
         \<and> container_span (fst c) = Min ((\<lambda>c. container_span (fst c)) `
             related (set ids) (concat (map containments sels)) (he_child_instance e))) (collect_has_edges ids sels)"
proof -
  let ?R = "related (set ids) (concat (map containments sels))"
  note t = has_edges_tightest [of ids sels]
  have min: "container_span (fst c) = Min ((\<lambda>c. container_span (fst c)) ` R)"
    if "c \<in> R" "\<forall>c'\<in>R. container_span (fst c) \<le> container_span (fst c')" "finite R" for c R
    using that by (intro Min_eqI [symmetric]) auto
  have "finite (?R k)" for k
    by (rule finite_subset [of _ "set (concat (map containments sels))"]) (auto simp: related_def)
  then have "\<forall>e\<in>set (collect_has_edges ids sels). \<exists>c\<in>?R (he_child_instance e). e = mk_has_edge c
       \<and> container_span (fst c) = Min ((\<lambda>c. container_span (fst c)) ` ?R (he_child_instance e))"
    using t(3) min by blast
  then show ?thesis using t(1,2) by (simp add: list_all_iff has_edges_as_vec_def)
qed

subsection \<open>A small result\<close>

definition tiny_ref :: ref_row where "tiny_ref = hd (tb_refs tiny_tables)"

definition tiny_node :: "symbol_row \<Rightarrow> instance_row \<Rightarrow> selection_node" where
  "tiny_node sy i = \<lparr>nd_symbol = sy, nd_instance = i, nd_object = hd (tb_objects tiny_tables),
     nd_project = hd (tb_projects tiny_tables), nd_statements = []\<rparr>"

definition tiny_selection :: selection where
  "tiny_selection = \<lparr>
     sl_nodes = [tiny_node (tiny_symbol 1 ''f'') (tiny_instance 1 1 0 50 1),
                 tiny_node (tiny_symbol 2 ''g'') (tiny_instance 2 2 60 90 1)],
     sl_parents = [\<lparr>pf_to_symbol = tiny_symbol 2 ''g'', pf_to_instance = tiny_instance 2 2 60 90 1,
                    pf_from_instance = tiny_instance 1 1 0 50 1, pf_ref = tiny_ref\<rparr>],
     sl_children = [], sl_has_parents = [], sl_has_children = []\<rparr>"

definition tiny_env :: exec_env where
  "tiny_env = \<lparr>ev_find_symbol = find_symbol tiny_index, ev_find_child_ids = find_child_instance_ids tiny_index,
     ev_find_parent_ids = find_parent_instance_ids tiny_index, ev_layer_instances = (\<lambda>ls. Inr []),
     ev_edges_between = find_edges_between tiny_index, ev_line_col = (\<lambda>s k. (0, k))\<rparr>"

text \<open>Both statements of the query \<open>"f" { !g }\<close> hold the two nodes.\<close>

abbreviation tiny_program where "tiny_program \<equiv> visit_statements sample_ast"
abbreviation tiny_registry where "tiny_registry \<equiv> (\<lambda>_. Some (Some tiny_selection) :: selection option option)"
abbreviation tiny_outcome where "tiny_outcome \<equiv> collect_result tiny_env tiny_context tiny_program tiny_registry []"

lemma tiny_result:
  "selections_of tiny_program tiny_registry = Inr [(0, tiny_selection), (1, tiny_selection)]"
  "tiny_outcome = Inr (projr tiny_outcome)" "nodes_as_vec (er_nodes (projr tiny_outcome)) = [1, 2]"
  "map edge_key_of (er_edges (projr tiny_outcome)) = [(1, 2, \<lparr>oc_file = 1, oc_range = (10, 11)\<rparr>)]"
     apply code_simp
    apply code_simp
   apply code_simp
  apply code_simp
  done

theorem result_nodes_exact_witness:
  "distinct (map (\<lambda>n. in_id (nd_instance n)) (er_nodes (projr tiny_outcome)))
   \<and> nodes_as_vec (er_nodes (projr tiny_outcome)) = [1, 2]
   \<and> set [1, 2] = (\<Union>(i, s)\<in>set [(0 :: nat, tiny_selection), (1, tiny_selection)]. set (get_instance_ids s))"
proof -
  have fresh: "\<forall>(i, s)\<in>set [(0 :: nat, tiny_selection), (1, tiny_selection)]. \<forall>n\<in>set (sl_nodes s). nd_statements n = []"
    by (simp add: tiny_selection_def tiny_node_def)
  show ?thesis using result_nodes_exact [OF tiny_result(2,1) fresh] unfolding tiny_result(3) by blast
qed

theorem ref_edges_exact_witness:
  "\<exists>es. collect_ref_edges tiny_env tiny_context [1, 2] [tiny_selection, tiny_selection] = Inr es
     \<and> length es = 1 \<and> set (edges_as_vec es) = set es \<and> distinct (map edge_key_of es)"
proof -
  define es where "es = projr (collect_ref_edges tiny_env tiny_context [1, 2] [tiny_selection, tiny_selection])"
  have "collect_ref_edges tiny_env tiny_context [1, 2] [tiny_selection, tiny_selection] = Inr es"
    unfolding es_def by code_simp
  moreover have "length es = 1" unfolding es_def by code_simp
  ultimately show ?thesis using ref_edges_exact by blast
qed

end
