(* ===== verification/Store_Paths.thy ===== *)
theory Store_Paths
  imports Prelude
begin

section \<open>Paths, hashes and upload states of the index store\<close>

text \<open>
  The plain functions of \<open>askld/src/index_store/mod.rs\<close>: the normal form of the paths an
  upload names, base names, the hexadecimal digest of a content, and the text form of the
  upload status.  SHA-256 is a parameter.
\<close>

subsection \<open>Upload status\<close>

datatype upload_status = Uploading | Complete | UploadFailed | Deleting

fun status_text :: "upload_status \<Rightarrow> string" where
  "status_text Uploading = ''uploading''"
| "status_text Complete = ''complete''"
| "status_text UploadFailed = ''failed''"
| "status_text Deleting = ''deleting''"

definition status_of_text :: "string \<Rightarrow> string + upload_status" where
  "status_of_text t =
     (if t = ''uploading'' then Inr Uploading
      else if t = ''complete'' then Inr Complete
      else if t = ''failed'' then Inr UploadFailed
      else if t = ''deleting'' then Inr Deleting
      else Inl (''unknown upload_status value: '' @ t))"

lemma status_roundtrip: "status_of_text t = Inr u \<longleftrightarrow> t = status_text u"
  by (cases u) (auto simp: status_of_text_def)

subsection \<open>Paths\<close>

abbreviation slash :: char where "slash \<equiv> CHR 0x2F"
abbreviation backslash :: char where "backslash \<equiv> CHR 0x5C"

definition normalize_posix :: "string \<Rightarrow> string" where
  "normalize_posix path = replace_char backslash slash path"

definition starts_with_slash :: "string \<Rightarrow> bool" where
  "starts_with_slash s = (case s of [] \<Rightarrow> False | c # cs \<Rightarrow> c = slash)"

text \<open>One component: empty ones and \<open>.\<close> are skipped, \<open>..\<close> pops (nothing, on an empty stack).\<close>

definition push_component :: "string list \<Rightarrow> string \<Rightarrow> string list" where
  "push_component stack part =
     (if part = [] \<or> part = ''.'' then stack
      else if part = ''..'' then butlast stack
      else stack @ [part])"

definition resolve_components :: "string \<Rightarrow> string list" where
  "resolve_components normalized = foldl push_component [] (split_on (\<lambda>c. c = slash) normalized)"

definition normalize_full_path :: "string \<Rightarrow> string" where
  "normalize_full_path path =
     (let normalized = normalize_posix path;
          joined = join_with [slash] (resolve_components normalized);
          result = (if starts_with_slash normalized then slash # joined else joined)
      in if result = [] then [slash] else result)"

definition path_basename :: "string \<Rightarrow> string" where
  "path_basename path =
     (let normalized = normalize_full_path path in
      if normalized = [slash] then [slash]
      else last (split_on (\<lambda>c. c = slash) (rev (dropWhile (\<lambda>c. c = slash) (rev normalized)))))"

subsection \<open>Hexadecimal digests\<close>

definition hex_digit :: "nat \<Rightarrow> char" where
  "hex_digit n = (if n < 10 then char_of (48 + n) else char_of (87 + n))"

definition hex_byte :: "byte \<Rightarrow> string" where
  "hex_byte b = [hex_digit (of_char b div 16), hex_digit (of_char b mod 16)]"

definition hash_bytes :: "(byte list \<Rightarrow> byte list) \<Rightarrow> byte list \<Rightarrow> string" where
  "hash_bytes sha bytes = concat (map hex_byte (sha bytes))"

lemma hex_digit_inj: "m < 16 \<Longrightarrow> n < 16 \<Longrightarrow> hex_digit m = hex_digit n \<Longrightarrow> m = n"
proof -
  assume m: "m < 16" and n: "n < 16" and eq: "hex_digit m = hex_digit n"
  have "(of_char (hex_digit k) :: nat) = (if k < 10 then 48 + k else 87 + k)" if "k < 16" for k
    using that by (simp add: hex_digit_def)
  then have "(if m < 10 then 48 + m else 87 + m) = (if n < 10 then 48 + n else 87 + n)"
    using m n eq by metis
  then show "m = n" using m n by (auto split: if_splits)
qed

lemma hex_byte_inj: "hex_byte a = hex_byte b \<Longrightarrow> a = b"
proof -
  assume "hex_byte a = hex_byte b"
  then have eq: "hex_digit (of_char a div 16) = hex_digit (of_char b div 16)"
    "hex_digit (of_char a mod 16) = hex_digit (of_char b mod 16)" by (simp_all add: hex_byte_def)
  have "(of_char a :: nat) < 16 * 16" "(of_char b :: nat) < 16 * 16"
    using nat_of_char_less_256 [of a] nat_of_char_less_256 [of b] by simp_all
  then have "(of_char a :: nat) div 16 < 16" "(of_char b :: nat) div 16 < 16"
    by (simp_all add: less_mult_imp_div_less)
  then have "(of_char a :: nat) div 16 = of_char b div 16" "(of_char a :: nat) mod 16 = of_char b mod 16"
    using eq hex_digit_inj by simp_all
  then have "(of_char a :: nat) = of_char b" by (metis div_mult_mod_eq)
  then show "a = b" by (rule of_char_eqI)
qed

lemma hash_bytes_inj: "hash_bytes sha a = hash_bytes sha b \<longleftrightarrow> sha a = sha b"
proof -
  have "concat (map hex_byte xs) = concat (map hex_byte ys) \<Longrightarrow> xs = ys" for xs ys
  proof (induction xs arbitrary: ys)
    case Nil
    then show ?case by (cases ys) (simp_all add: hex_byte_def)
  next
    case (Cons x xs)
    then obtain y zs where ys: "ys = y # zs" by (cases ys) (simp_all add: hex_byte_def)
    with Cons.prems have "hex_byte x @ concat (map hex_byte xs) = hex_byte y @ concat (map hex_byte zs)" by simp
    moreover have "length (hex_byte x) = length (hex_byte y)" by (simp add: hex_byte_def)
    ultimately show ?case using Cons.IH [of zs] hex_byte_inj ys by simp
  qed
  then show ?thesis by (auto simp: hash_bytes_def)
qed

subsection \<open>The normal form\<close>

definition clean_component :: "string \<Rightarrow> bool" where
  "clean_component w \<longleftrightarrow> w \<noteq> [] \<and> w \<noteq> ''.'' \<and> w \<noteq> ''..'' \<and> slash \<notin> set w \<and> backslash \<notin> set w"

lemma no_backslash_posix: "backslash \<notin> set (normalize_posix s)"
  by (auto simp: normalize_posix_def replace_char_def split: if_splits)

lemma posix_id: "backslash \<notin> set s \<Longrightarrow> normalize_posix s = s"
  by (induction s) (auto simp: normalize_posix_def replace_char_def)

lemma push_component_clean:
  "\<forall>w\<in>set stack. clean_component w \<Longrightarrow> slash \<notin> set part \<Longrightarrow> backslash \<notin> set part \<Longrightarrow>
   \<forall>w\<in>set (push_component stack part). clean_component w"
  by (auto simp: push_component_def clean_component_def dest: in_set_butlastD)

lemma foldl_push_clean:
  "\<forall>w\<in>set stack. clean_component w \<Longrightarrow> \<forall>p\<in>set parts. slash \<notin> set p \<and> backslash \<notin> set p \<Longrightarrow>
   \<forall>w\<in>set (foldl push_component stack parts). clean_component w"
proof (induction parts arbitrary: stack)
  case (Cons p parts)
  then show ?case using push_component_clean [of stack p] by simp
qed simp

lemma resolve_clean:
  "backslash \<notin> set s \<Longrightarrow> \<forall>w\<in>set (resolve_components s). clean_component w"
  unfolding resolve_components_def
  by (rule foldl_push_clean) (use split_on_pieces split_on_subset in fastforce)+

lemma foldl_push_clean_id:
  "\<forall>w\<in>set parts. clean_component w \<Longrightarrow> foldl push_component stack parts = stack @ parts"
  by (induction parts arbitrary: stack) (auto simp: push_component_def clean_component_def)

lemma resolve_join:
  assumes "\<forall>w\<in>set ws. clean_component w"
  shows "resolve_components (join_with [slash] ws) = ws"
    and "resolve_components (slash # join_with [slash] ws) = ws"
proof -
  have free: "\<forall>w\<in>set ws. \<forall>c\<in>set w. c \<noteq> slash" using assms by (auto simp: clean_component_def)
  have split: "split_on (\<lambda>c. c = slash) (join_with [slash] ws) = (if ws = [] then [[]] else ws)"
    using split_on_join [of ws "\<lambda>c. c = slash" slash] free by simp
  show "resolve_components (join_with [slash] ws) = ws"
    using foldl_push_clean_id [OF assms, of "[]"]
    by (simp add: resolve_components_def split push_component_def)
  show "resolve_components (slash # join_with [slash] ws) = ws"
    using foldl_push_clean_id [OF assms, of "[]"]
    by (simp add: resolve_components_def split push_component_def)
qed

lemma join_no_backslash: "\<forall>w\<in>set ws. clean_component w \<Longrightarrow> backslash \<notin> set (join_with [slash] ws)"
  using set_join_with [of "[slash]" ws] by (auto simp: clean_component_def)

lemma join_clean_shape:
  assumes "\<forall>w\<in>set ws. clean_component w"
  shows "join_with [slash] ws = [] \<longleftrightarrow> ws = []" "\<not> starts_with_slash (join_with [slash] ws)"
proof -
  show "join_with [slash] ws = [] \<longleftrightarrow> ws = []"
  proof (cases ws)
    case (Cons w vs)
    then show ?thesis using assms by (cases vs) (auto simp: clean_component_def)
  qed simp
  show "\<not> starts_with_slash (join_with [slash] ws)"
  proof (cases ws)
    case (Cons w vs)
    with assms obtain c cs where w: "w = c # cs" "c \<noteq> slash" by (cases w) (auto simp: clean_component_def)
    then show ?thesis using Cons by (cases vs) (simp_all add: starts_with_slash_def)
  qed (simp add: starts_with_slash_def)
qed

text \<open>The normal form: an optional slash and clean components.\<close>

definition path_of_components :: "bool \<Rightarrow> string list \<Rightarrow> string" where
  "path_of_components rooted ws =
     (if rooted \<or> ws = [] then slash # join_with [slash] ws else join_with [slash] ws)"

lemma normalize_form:
  "normalize_full_path s = path_of_components (starts_with_slash (normalize_posix s)) (resolve_components (normalize_posix s))"
proof -
  have "\<forall>w\<in>set (resolve_components (normalize_posix s)). clean_component w"
    by (rule resolve_clean [OF no_backslash_posix])
  note shape = join_clean_shape [OF this]
  show ?thesis using shape(1) by (auto simp: normalize_full_path_def path_of_components_def Let_def)
qed

lemma path_of_components_back:
  assumes "\<forall>w\<in>set ws. clean_component w"
  shows "resolve_components (path_of_components b ws) = ws" "normalize_posix (path_of_components b ws) = path_of_components b ws"
    "starts_with_slash (path_of_components b ws) \<longleftrightarrow> b \<or> ws = []"
  using resolve_join [OF assms] join_no_backslash [OF assms] join_clean_shape(2) [OF assms]
  by (auto simp: path_of_components_def posix_id starts_with_slash_def)

lemma normalize_idem: "normalize_full_path (normalize_full_path s) = normalize_full_path s"
proof -
  have clean: "\<forall>w\<in>set (resolve_components (normalize_posix s)). clean_component w"
    by (rule resolve_clean [OF no_backslash_posix])
  show ?thesis
    unfolding normalize_form [of s] using path_of_components_back [OF clean]
    by (simp add: normalize_form [of "path_of_components _ _"]) (simp add: path_of_components_def)
qed

lemma normalize_absolute:
  assumes "starts_with_slash s"
  shows "starts_with_slash (normalize_full_path s)"
proof -
  have "starts_with_slash (normalize_posix s)"
    using assms by (cases s) (auto simp: starts_with_slash_def normalize_posix_def replace_char_def)
  then show ?thesis
    unfolding normalize_form [of s] using path_of_components_back(3) [OF resolve_clean [OF no_backslash_posix]] by simp
qed

lemma hex_digit_cases: "n < 16 \<Longrightarrow> hex_digit n \<in> set ''0123456789abcdef''"
proof -
  assume "n < 16"
  then have "n \<in> set [0..<16]" by simp
  moreover have "\<forall>n\<in>set [0..<16]. hex_digit n \<in> set ''0123456789abcdef''" by code_simp
  ultimately show ?thesis by blast
qed

lemma trim_hash [simp]: "trim (hash_bytes sha b) = hash_bytes sha b"
proof -
  have "\<not> is_ws c" if "c \<in> set ''0123456789abcdef''" for c
  proof -
    have "\<forall>c\<in>set ''0123456789abcdef''. \<not> is_ws c" by code_simp
    then show ?thesis using that by blast
  qed
  moreover have "set (hash_bytes sha b) \<subseteq> set ''0123456789abcdef''"
  proof -
    have "set (hex_byte x) \<subseteq> set ''0123456789abcdef''" for x
    proof -
      have "(of_char x :: nat) < 16 * 16" using nat_of_char_less_256 [of x] by simp
      then have "(of_char x :: nat) div 16 < 16" by (rule less_mult_imp_div_less)
      then show ?thesis using hex_digit_cases [of "of_char x div 16"] hex_digit_cases [of "of_char x mod 16"]
        unfolding hex_byte_def by auto
    qed
    then show ?thesis unfolding hash_bytes_def by (simp only: set_concat set_map) blast
  qed
  ultimately have free: "\<forall>c\<in>set (hash_bytes sha b). \<not> is_ws c" by blast
  have "hash_bytes sha b = [] \<or> \<not> is_ws (hd (hash_bytes sha b)) \<and> \<not> is_ws (last (hash_bytes sha b))"
    using free hd_in_set last_in_set by blast
  then show ?thesis by (rule trim_id)
qed

text \<open>
  The paths the store keeps are in normal form: normalising is idempotent, the components of
  the result are non-empty, free of slashes and backslashes and neither \<open>.\<close> nor \<open>..\<close>, the
  result is absolute iff the given path is or nothing is left of it, and the base name is the
  last component (or the root).
\<close>

theorem normalized_path_exact:
  "normalize_full_path (normalize_full_path s) = normalize_full_path s
   \<and> resolve_components (normalize_full_path s) = resolve_components (normalize_posix s)
   \<and> list_all clean_component (resolve_components (normalize_full_path s))
   \<and> (starts_with_slash (normalize_full_path s) \<longleftrightarrow>
        starts_with_slash (normalize_posix s) \<or> resolve_components (normalize_posix s) = [])
   \<and> path_basename s =
       (case resolve_components (normalize_posix s) of [] \<Rightarrow> [slash] | w # ws \<Rightarrow> last (w # ws))"
proof -
  define ws where "ws = resolve_components (normalize_posix s)"
  define b where "b = starts_with_slash (normalize_posix s)"
  have clean: "\<forall>w\<in>set ws. clean_component w" unfolding ws_def by (rule resolve_clean [OF no_backslash_posix])
  have n: "normalize_full_path s = path_of_components b ws" unfolding b_def ws_def by (rule normalize_form)
  note comps = path_of_components_back [OF clean, of b]
  have base: "path_basename s = (case ws of [] \<Rightarrow> [slash] | w # ws \<Rightarrow> last (w # ws))"
  proof (cases "ws = []")
    case True
    then show ?thesis by (simp add: path_basename_def n path_of_components_def)
  next
    case False
    have not_root: "path_of_components b ws \<noteq> [slash]"
      using False join_clean_shape [OF clean] by (auto simp: path_of_components_def starts_with_slash_def)
    have free: "\<forall>w\<in>set ws. \<forall>c\<in>set w. c \<noteq> slash" using clean by (auto simp: clean_component_def)
    have "last (join_with [slash] ws) \<noteq> slash \<and> join_with [slash] ws \<noteq> []"
      using False clean
    proof (induction "[slash]" ws rule: join_with.induct)
      case (2 w)
      then show ?case by (metis clean_component_def join_with.simps(2) last_in_set list.set_intros(1))
    next
      case (3 w v ws)
      then show ?case by simp
    qed simp
    then have keep: "rev (dropWhile (\<lambda>c. c = slash) (rev (path_of_components b ws))) = path_of_components b ws"
      by (auto simp: path_of_components_def dropWhile_hd_id hd_rev)
    have "last (split_on (\<lambda>c. c = slash) (path_of_components b ws)) = last ws"
      using False split_on_join [of ws "\<lambda>c. c = slash" slash] free by (simp add: path_of_components_def)
    then have "path_basename s = last ws" using not_root by (simp add: path_basename_def n Let_def keep)
    then show ?thesis using False by (cases ws) simp_all
  qed
  show ?thesis using normalize_idem [of s] comps clean base unfolding n by (simp add: list_all_iff flip: ws_def b_def)
qed

end
