(* ===== verification/Upload.thy ===== *)
theory Upload
  imports Store_Paths Ephemeral Index_Queries
begin

section \<open>The index store\<close>

text \<open>
  Uploading and deleting projects: \<open>askld/src/index_store/upload.rs\<close>, the write half of
  \<open>index_store/query.rs\<close> and the rows of \<open>index_store/mod.rs\<close>, on the tables the migrations
  declare.  An operation is a step on the whole store; a transaction that fails restores the
  store except the sequences.  The keys of the tables are errors of the statements that would
  break them, and a delete is followed by the \<open>ON DELETE CASCADE\<close> of every foreign key.
  Connections always succeed; the random bytes of a root's hash, the time and SHA-256 are
  arguments.
\<close>

subsection \<open>What a client sends\<close>

record upload_symbol =
  us_local_id :: int
  us_name :: string
  us_scope :: int
  us_type :: int

record upload_instance =
  ui_symbol :: int
  ui_type :: int
  ui_start :: int
  ui_end :: int

record upload_ref =
  ur_symbol :: int
  ur_start :: int
  ur_end :: int

record upload_object =
  uo_local_id :: int
  uo_module_path :: string
  uo_filesystem_path :: string
  uo_filetype :: string
  uo_content :: "byte list"
  uo_instances :: "upload_instance list"
  uo_refs :: "upload_ref list"
  uo_content_hash :: string

record upload_project =
  up_name :: string
  up_root_path :: string
  up_objects :: "upload_object list"
  up_symbols :: "upload_symbol list"

record object_content =
  ct_hash :: string
  ct_content :: "byte list"

datatype upload_error = Conflict | Invalid string | Storage string

subsection \<open>Tables\<close>

record store_project =
  pj_id :: int
  pj_name :: string
  pj_root_path :: string
  pj_status :: upload_status
  pj_symbol_chunks :: "int option"
  pj_object_chunks :: "int option"
  pj_root_layer :: int

record sequences =
  sq_project :: int
  sq_object :: int
  sq_instance :: int
  sq_ref :: int
  sq_root :: int

record store_db =
  sd_projects :: "store_project list"
  sd_layers :: "layer_row list"
  sd_symbols :: "symbol_row list"
  sd_objects :: "object_row list"
  sd_instances :: "instance_row list"
  sd_refs :: "ref_row list"
  sd_contents :: "(string \<times> byte list) list"
  sd_object_contents :: "(int \<times> byte list) list"
  sd_symbol_chunks :: "(int \<times> int) list"
  sd_object_chunks :: "(int \<times> int) list"
  sd_seqs :: sequences
  sd_epoch :: nat

type_synonym ('e, 'a) store_step = "(store_db, 'e, 'a) step"

definition sfail :: "'e \<Rightarrow> ('s, 'e, 'a) step" where "sfail e = (\<lambda>s. (Inl e, s))"

definition slift :: "'e + 'a \<Rightarrow> ('s, 'e, 'a) step" where "slift r = (\<lambda>s. (r, s))"

text \<open>A transaction: sequences are not rolled back.\<close>

definition transaction :: "('e, 'a) store_step \<Rightarrow> ('e, 'a) store_step" where
  "transaction body db =
     (case body db of
        (Inl e, db') \<Rightarrow> (Inl e, db\<lparr>sd_seqs := sd_seqs db'\<rparr>)
      | (Inr a, db') \<Rightarrow> (Inr a, db'))"

text \<open>\<open>ClearOnDrop\<close>: the SQL result cache is cleared (its epoch advances) whatever the outcome.\<close>

definition clear_on_drop :: "('e, 'a) store_step \<Rightarrow> ('e, 'a) store_step" where
  "clear_on_drop body db = (case body db of (r, db') \<Rightarrow> (r, db'\<lparr>sd_epoch := sd_epoch db' + 1\<rparr>))"

definition find_project :: "int \<Rightarrow> store_db \<Rightarrow> store_project option" where
  "find_project pid db = List.find (\<lambda>p. pj_id p = pid) (sd_projects db)"

subsection \<open>Deletes\<close>

text \<open>The rows of every table whose foreign keys still have their targets.\<close>

definition sweep :: "store_db \<Rightarrow> store_db" where
  "sweep db =
     (let pids = set (map pj_id (sd_projects db));
          lids = set (map lr_id (sd_layers db));
          symbols = filter (\<lambda>s. sy_project_id s \<in> pids \<and> sy_layer s \<in> lids) (sd_symbols db);
          objects = filter (\<lambda>ob. ob_project_id ob \<in> pids \<and> ob_layer ob \<in> lids) (sd_objects db);
          sids = set (map sy_id symbols);
          oids = set (map ob_id objects)
      in db\<lparr>sd_symbols := symbols, sd_objects := objects,
            sd_instances := filter (\<lambda>i. in_symbol i \<in> sids \<and> in_object_id i \<in> oids \<and> in_layer i \<in> lids) (sd_instances db),
            sd_refs := filter (\<lambda>r. rf_to_symbol r \<in> sids \<and> rf_from_object r \<in> oids \<and> rf_layer r \<in> lids) (sd_refs db),
            sd_object_contents := filter (\<lambda>c. fst c \<in> oids) (sd_object_contents db),
            sd_symbol_chunks := filter (\<lambda>c. fst c \<in> pids) (sd_symbol_chunks db),
            sd_object_chunks := filter (\<lambda>c. fst c \<in> pids) (sd_object_chunks db)\<rparr>)"

text \<open>Layers that go with the layers \<open>gone\<close>, by the foreign keys of parent and base.\<close>

fun layer_closure :: "nat \<Rightarrow> layer_row list \<Rightarrow> int list \<Rightarrow> int list" where
  "layer_closure 0 rows gone = gone"
| "layer_closure (Suc n) rows gone =
     layer_closure n rows (gone @ map lr_id (filter (\<lambda>r. lr_id r \<notin> set gone \<and>
       list_ex (\<lambda>g. lr_parent_id r = Some g \<or> lr_base_id r = Some g) gone) rows))"

text \<open>The foreign key of a project on its root layer does not cascade: it blocks the delete.\<close>

definition delete_layers :: "int list \<Rightarrow> (string, nat) store_step" where
  "delete_layers ids db =
     (let gone = layer_closure (length (sd_layers db)) (sd_layers db) ids in
      if list_ex (\<lambda>p. pj_root_layer p \<in> set gone) (sd_projects db)
      then (Inl ''update or delete on table \"layers\" violates foreign key constraint'', db)
      else (Inr (length (filter (\<lambda>r. lr_id r \<in> set ids) (sd_layers db))),
            sweep (db\<lparr>sd_layers := filter (\<lambda>r. lr_id r \<notin> set gone) (sd_layers db)\<rparr>)))"

definition purge_eph_layers :: "(string, nat) store_step" where
  "purge_eph_layers db =
     delete_layers (map lr_id (purge_eph_cache
       \<lparr>gd_layers = sd_layers db, gd_symbols = sd_symbols db, gd_instances = sd_instances db, gd_refs = sd_refs db\<rparr>)) db"

definition delete_project_row :: "int \<Rightarrow> store_db \<Rightarrow> store_db" where
  "delete_project_row pid db = sweep (db\<lparr>sd_projects := filter (\<lambda>p. pj_id p \<noteq> pid) (sd_projects db)\<rparr>)"

definition in_upload :: "(string, 'a) store_step \<Rightarrow> (upload_error, 'a) store_step" where
  "in_upload m db = (case m db of (r, db') \<Rightarrow> (map_err Storage r, db'))"

subsection \<open>Projects\<close>

definition show_int :: "int \<Rightarrow> string" where
  "show_int i = (if i < 0 then ''-'' @ show_nat (nat (- i)) else show_nat (nat i))"

definition show_option_int :: "int option \<Rightarrow> string" where
  "show_option_int v = (case v of None \<Rightarrow> ''None'' | Some i \<Rightarrow> ''Some('' @ show_int i @ '')'')"

definition insert_project ::
  "nat \<Rightarrow> byte list \<Rightarrow> string \<Rightarrow> string \<Rightarrow> int option \<Rightarrow> int option \<Rightarrow> (upload_error, int \<times> bool) store_step" where
  "insert_project now root_hash project_name root_path symbol_total object_total db =
     (let sq = sd_seqs db; root = sq_root sq; pid = sq_project sq;
          db1 = db\<lparr>sd_seqs := sq\<lparr>sq_root := root + 1\<rparr>\<rparr>;
          db2 = db\<lparr>sd_seqs := sq\<lparr>sq_root := root + 1, sq_project := pid + 1\<rparr>\<rparr> in
      if root_hash \<in> set (map lr_hash (sd_layers db))
      then (Inl (Storage ''duplicate key value violates unique constraint''), db1)
      else if project_name \<in> set (map pj_name (sd_projects db)) then (Inl Conflict, db2)
      else (Inr (pid, False),
            db2\<lparr>sd_layers := sd_layers db @
                  [\<lparr>lr_id = root, lr_parent_id = None, lr_base_id = None, lr_hash = root_hash, lr_kind = Root,
                    lr_populated = True, lr_truncated = False, lr_last_used = now\<rparr>],
                sd_projects := sd_projects db @
                  [\<lparr>pj_id = pid, pj_name = project_name, pj_root_path = root_path, pj_status = Uploading,
                    pj_symbol_chunks = symbol_total, pj_object_chunks = object_total, pj_root_layer = root\<rparr>]\<rparr>))"

definition delete_zombie :: "store_project \<Rightarrow> (upload_error, unit) store_step" where
  "delete_zombie p =
     sbind (\<lambda>db. (Inr (), delete_project_row (pj_id p) db)) (\<lambda>_.
     sbind (in_upload (delete_layers [pj_root_layer p])) (\<lambda>_.
     sbind (in_upload purge_eph_layers) (\<lambda>_. sreturn ())))"

definition create_project ::
  "nat \<Rightarrow> byte list \<Rightarrow> string \<Rightarrow> string \<Rightarrow> int option \<Rightarrow> int option \<Rightarrow> (upload_error, int \<times> bool) store_step" where
  "create_project now root_hash project_name root_path symbol_total object_total db =
     (case List.find (\<lambda>p. pj_name p = project_name) (sd_projects db) of
        None \<Rightarrow> insert_project now root_hash project_name root_path symbol_total object_total db
      | Some p \<Rightarrow>
          (case pj_status p of
             Uploading \<Rightarrow>
               if pj_symbol_chunks p \<noteq> symbol_total
               then (Inl (Invalid (''Project '' @ [CHR 0x27] @ project_name @ [CHR 0x27]
                       @ '' already exists with different chunk counts (stored symbol_chunks_total=''
                       @ show_option_int (pj_symbol_chunks p) @ '' vs requested '' @ show_option_int symbol_total
                       @ ''). Re-run with --force to replace it.'')), db)
               else (Inr (pj_id p, True), db)
           | Complete \<Rightarrow> (Inl Conflict, db)
           | _ \<Rightarrow>
               sbind (delete_zombie p) (\<lambda>_.
                 insert_project now root_hash project_name root_path symbol_total object_total) db))"

definition upload_index ::
  "nat \<Rightarrow> byte list \<Rightarrow> upload_project \<Rightarrow> int option \<Rightarrow> int option \<Rightarrow> (upload_error, int \<times> bool) store_step" where
  "upload_index now root_hash upload symbol_total object_total =
     (let project_name = trim (up_name upload); root_path = trim (up_root_path upload) in
      if up_symbols upload \<noteq> []
      then sfail (Invalid ''symbols must be uploaded via POST /v1/index/projects/{id}/symbols'')
      else if project_name = [] then sfail (Invalid ''project_name is required'')
      else if root_path = [] then sfail (Invalid ''root_path is required'')
      else if \<not> starts_with_slash root_path then sfail (Invalid ''root_path must be an absolute path'')
      else clear_on_drop (transaction
        (create_project now root_hash project_name root_path symbol_total object_total)))"

subsection \<open>Symbol rows\<close>

text \<open>\<open>project_id << 32 | local_id\<close>.\<close>

definition project_symbol_id_base :: "int \<Rightarrow> int" where
  "project_symbol_id_base project_id = push_bit 32 project_id"

definition compute_symbol_id :: "int \<Rightarrow> int \<Rightarrow> upload_error + int" where
  "compute_symbol_id project_id local_id =
     (if project_id \<le> 0
      then Inl (Invalid (''project_id '' @ show_int project_id @ '' must be positive''))
      else if local_id < 0 \<or> 2 ^ 32 \<le> local_id
      then Inl (Invalid (''symbol local_id '' @ show_int local_id @ '' is out of range [0, 2^32)''))
      else Inr (Bit_Operations.or (push_bit 32 project_id) local_id))"

definition validate_type :: "int \<Rightarrow> int list \<Rightarrow> string \<Rightarrow> upload_error + int" where
  "validate_type v valid label =
     (if v \<in> set valid then Inr v else Inl (Invalid (''invalid '' @ label @ '' '' @ show_int v)))"

definition validate_symbol_type :: "int \<Rightarrow> upload_error + int" where
  "validate_symbol_type v =
     validate_type v [SYMBOL_TYPE_FUNCTION, SYMBOL_TYPE_FILE, SYMBOL_TYPE_MODULE, SYMBOL_TYPE_DIRECTORY,
       SYMBOL_TYPE_TYPE, SYMBOL_TYPE_DATA, SYMBOL_TYPE_MACRO, SYMBOL_TYPE_FIELD] ''symbol type''"

text \<open>The instance types definition (1) to documentation (10), in the order of the table.\<close>

definition validate_instance_type :: "int \<Rightarrow> upload_error + int" where
  "validate_instance_type v = validate_type v [1, 2, 3, 4, 5, 6, 7, 8, 9, 10] ''instance type''"

fun build_symbols_from :: "int list \<Rightarrow> int \<Rightarrow> int \<Rightarrow> upload_symbol list \<Rightarrow> upload_error + symbol_row list" where
  "build_symbols_from seen project_id root [] = Inr []"
| "build_symbols_from seen project_id root (s # ss) =
     (if us_local_id s \<in> set seen
      then Inl (Invalid (''duplicate symbol local_id '' @ show_int (us_local_id s)))
      else rbind (compute_symbol_id project_id (us_local_id s)) (\<lambda>i.
           rbind (validate_symbol_type (us_type s)) (\<lambda>ty.
           let (path, leaf) = symbol_path_and_leaf (us_name s) ty in
           rbind (build_symbols_from (us_local_id s # seen) project_id root ss) (\<lambda>rows.
           Inr (\<lparr>sy_id = i, sy_name = us_name s, sy_path = path, sy_project_id = project_id, sy_type = ty,
                 sy_scope = (if us_scope s \<noteq> 0 then Some (us_scope s) else None), sy_leaf_name = leaf,
                 sy_layer = root\<rparr> # rows)))))"

definition build_symbols :: "int \<Rightarrow> int \<Rightarrow> upload_symbol list \<Rightarrow> upload_error + symbol_row list" where
  "build_symbols = build_symbols_from []"

definition MAX_INSERT_ROWS :: nat where "MAX_INSERT_ROWS = 1000"
definition MAX_SYMBOL_INSERT_ROWS :: nat where "MAX_SYMBOL_INSERT_ROWS = 1000"

text \<open>\<open>slice::chunks\<close>, for a positive size.\<close>

function chunks :: "nat \<Rightarrow> 'a list \<Rightarrow> 'a list list" where
  "chunks n xs = (if n = 0 \<or> xs = [] then [] else take n xs # chunks n (drop n xs))"
  by auto
termination by (relation "measure (\<lambda>(n, xs). length xs)") auto

declare chunks.simps [simp del]

definition insert_symbols :: "symbol_row list \<Rightarrow> (upload_error, unit) store_step" where
  "insert_symbols rows db =
     (if \<not> distinct (map sy_id (sd_symbols db @ rows))
      then (Inl (Storage ''duplicate key value violates unique constraint \"symbols_pkey\"''), db)
      else if list_ex (\<lambda>s. sy_project_id s \<notin> set (map pj_id (sd_projects db))
             \<or> sy_layer s \<notin> set (map lr_id (sd_layers db))) rows
      then (Inl (Storage ''insert or update on table \"symbols\" violates foreign key constraint''), db)
      else (Inr (), db\<lparr>sd_symbols := sd_symbols db @ rows\<rparr>))"

text \<open>\<open>ON CONFLICT DO NOTHING\<close>: the number of rows inserted.\<close>

definition claim_symbol_chunk :: "int \<Rightarrow> int \<Rightarrow> (upload_error, nat) store_step" where
  "claim_symbol_chunk pid seq db =
     (if (pid, seq) \<in> set (sd_symbol_chunks db) then (Inr 0, db)
      else if find_project pid db = None
      then (Inl (Storage ''insert or update on table \"project_symbol_chunks\" violates foreign key constraint''), db)
      else (Inr 1, db\<lparr>sd_symbol_chunks := sd_symbol_chunks db @ [(pid, seq)]\<rparr>))"

definition root_layer_of :: "int \<Rightarrow> (upload_error, int) store_step" where
  "root_layer_of pid db =
     (case find_project pid db of
        None \<Rightarrow> (Inl (Storage ''Record not found''), db)
      | Some p \<Rightarrow> (Inr (pj_root_layer p), db))"

definition upload_symbol_chunk :: "int \<Rightarrow> int \<Rightarrow> upload_symbol list \<Rightarrow> (upload_error, unit) store_step" where
  "upload_symbol_chunk pid seq symbols =
     clear_on_drop (transaction (
       sbind (claim_symbol_chunk pid seq) (\<lambda>inserted.
       if inserted = 0 then sreturn ()
       else sbind (root_layer_of pid) (\<lambda>root.
            sbind (slift (build_symbols pid root symbols)) (\<lambda>rows.
            sbind (smap insert_symbols (chunks MAX_SYMBOL_INSERT_ROWS rows)) (\<lambda>_. sreturn ()))))))"


subsection \<open>Objects, instances and references\<close>

record object_insert =
  oi_local_id :: int
  oi_content :: "byte list option"
  oi_row :: object_row

definition object_path :: "upload_object \<Rightarrow> upload_error + string" where
  "object_path ob =
     (let raw = trim (uo_filesystem_path ob) in
      if raw = [] then Inl (Invalid (''filesystem_path is required for object '' @ show_int (uo_local_id ob)))
      else if \<not> starts_with_slash raw
      then Inl (Invalid (''filesystem_path must be an absolute path for object '' @ show_int (uo_local_id ob)))
      else Inr (normalize_full_path raw))"

text \<open>Content sent along, or only its hash.\<close>

definition object_content_hash :: "sha \<Rightarrow> upload_object \<Rightarrow> upload_error + byte list option \<times> string" where
  "object_content_hash sha ob =
     (if uo_content_hash ob \<noteq> [] \<and> uo_content ob = [] then Inr (None, uo_content_hash ob)
      else let computed = hash_bytes sha (uo_content ob) in
           if uo_content_hash ob \<noteq> [] \<and> uo_content_hash ob \<noteq> computed
           then Inl (Invalid (''content_hash mismatch for object '' @ show_int (uo_local_id ob)
                  @ '': client sent '' @ uo_content_hash ob @ '' but computed '' @ computed))
           else Inr (Some (uo_content ob), computed))"

text \<open>The id of a row is set when it is inserted.\<close>

fun build_objects_from :: "sha \<Rightarrow> int list \<Rightarrow> int \<Rightarrow> int \<Rightarrow> upload_object list \<Rightarrow> upload_error + object_insert list" where
  "build_objects_from sha seen project_id root [] = Inr []"
| "build_objects_from sha seen project_id root (ob # obs) =
     (if uo_local_id ob \<in> set seen
      then Inl (Invalid (''duplicate object local_id '' @ show_int (uo_local_id ob)))
      else rbind (object_path ob) (\<lambda>path.
           rbind (object_content_hash sha ob) (\<lambda>(content, hash).
           rbind (build_objects_from sha (uo_local_id ob # seen) project_id root obs) (\<lambda>rows.
           Inr (\<lparr>oi_local_id = uo_local_id ob, oi_content = content,
                 oi_row = \<lparr>ob_id = 0, ob_project_id = project_id, ob_module_path = uo_module_path ob,
                   ob_filesystem_path = path, ob_filetype = uo_filetype ob, ob_content_hash = hash,
                   ob_layer = root\<rparr>\<rparr> # rows)))))"

definition build_objects :: "sha \<Rightarrow> int \<Rightarrow> int \<Rightarrow> upload_object list \<Rightarrow> upload_error + object_insert list" where
  "build_objects sha = build_objects_from sha []"

text \<open>One row of the upsert on (project, path): a fresh id is drawn in any case.\<close>

definition same_place :: "object_row \<Rightarrow> object_row \<Rightarrow> bool" where
  "same_place a b \<longleftrightarrow> ob_project_id a = ob_project_id b \<and> ob_filesystem_path a = ob_filesystem_path b"

definition upsert_object :: "object_row \<Rightarrow> (upload_error, int) store_step" where
  "upsert_object row db =
     (let sq = sd_seqs db; fresh = sq_object sq; db1 = db\<lparr>sd_seqs := sq\<lparr>sq_object := fresh + 1\<rparr>\<rparr> in
      case List.find (same_place row) (sd_objects db) of
        None \<Rightarrow> (Inr fresh, db1\<lparr>sd_objects := sd_objects db @ [row\<lparr>ob_id := fresh\<rparr>]\<rparr>)
      | Some old \<Rightarrow>
          (Inr (ob_id old),
           db1\<lparr>sd_objects := map (\<lambda>ob. if ob_id ob = ob_id old
                 then ob\<lparr>ob_content_hash := ob_content_hash row, ob_filetype := ob_filetype row,
                         ob_module_path := ob_module_path row, ob_layer := ob_layer row\<rparr> else ob) (sd_objects db)\<rparr>))"

text \<open>The statement: no row may be affected twice.\<close>

definition upsert_objects :: "object_row list \<Rightarrow> (upload_error, int list) store_step" where
  "upsert_objects rows db =
     (if \<not> distinct (map (\<lambda>r. (ob_project_id r, ob_filesystem_path r)) rows)
      then (Inl (Storage ''ON CONFLICT DO UPDATE command cannot affect row a second time''), db)
      else if list_ex (\<lambda>r. ob_project_id r \<notin> set (map pj_id (sd_projects db))
             \<or> ob_layer r \<notin> set (map lr_id (sd_layers db))) rows
      then (Inl (Storage ''insert or update on table \"objects\" violates foreign key constraint''), db)
      else smap upsert_object rows db)"

fun add_contents :: "(string \<times> byte list) list \<Rightarrow> (string \<times> byte list) list \<Rightarrow> nat \<times> (string \<times> byte list) list" where
  "add_contents [] store = (0, store)"
| "add_contents ((h, c) # rows) store =
     (if h \<in> fst ` set store then add_contents rows store
      else (let (n, store') = add_contents rows (store @ [(h, c)]) in (n + 1, store')))"

definition insert_contents :: "(string \<times> byte list) list \<Rightarrow> ('e, nat) store_step" where
  "insert_contents rows db =
     (case add_contents rows (sd_contents db) of (n, store) \<Rightarrow> (Inr n, db\<lparr>sd_contents := store\<rparr>))"

definition content_rows :: "object_insert list \<Rightarrow> (string \<times> byte list) list" where
  "content_rows inserts =
     somes (map (\<lambda>oi. map_option (\<lambda>c. (ob_content_hash (oi_row oi), c)) (oi_content oi)) inserts)"

definition insert_object_chunk :: "object_insert list \<Rightarrow> (upload_error, (int \<times> int) list) store_step" where
  "insert_object_chunk inserts =
     sbind (upsert_objects (map oi_row inserts)) (\<lambda>ids.
     sbind (if content_rows inserts = [] then sreturn 0 else insert_contents (content_rows inserts)) (\<lambda>_.
     sreturn (zip (map oi_local_id inserts) ids)))"

text \<open>The map from local to stored ids.\<close>

definition insert_objects :: "object_insert list \<Rightarrow> (upload_error, int \<rightharpoonup> int) store_step" where
  "insert_objects inserts =
     sbind (smap insert_object_chunk (chunks MAX_INSERT_ROWS inserts)) (\<lambda>maps.
     sreturn (map_of (concat maps)))"

definition resolve_object_id :: "(int \<rightharpoonup> int) \<Rightarrow> int \<Rightarrow> upload_error + int" where
  "resolve_object_id m local_id =
     (case m local_id of
        None \<Rightarrow> Inl (Invalid (''missing object mapping for local_id '' @ show_int local_id))
      | Some i \<Rightarrow> Inr i)"

definition build_instance :: "int \<Rightarrow> int \<Rightarrow> int \<Rightarrow> upload_instance \<Rightarrow> upload_error + instance_row" where
  "build_instance project_id root object_id i =
     rbind (compute_symbol_id project_id (ui_symbol i)) (\<lambda>sid.
     rbind (if ui_type i \<noteq> 0 then validate_instance_type (ui_type i) else Inr INSTANCE_TYPE_DEFINITION) (\<lambda>ty.
     Inr \<lparr>in_id = 0, in_symbol = sid, in_object_id = object_id, in_range = (Included (ui_start i), Excluded (ui_end i)),
          in_type = ty, in_layer = root\<rparr>))"

definition build_ref :: "int \<Rightarrow> int \<Rightarrow> int \<Rightarrow> upload_ref \<Rightarrow> upload_error + ref_row" where
  "build_ref project_id root object_id r =
     rbind (compute_symbol_id project_id (ur_symbol r)) (\<lambda>sid.
     Inr \<lparr>rf_id = 0, rf_to_symbol = sid, rf_from_object = object_id,
          rf_from_range = (Included (ur_start r), Excluded (ur_end r)), rf_layer = root\<rparr>)"

text \<open>The rows of all objects, in order; the first error ends the build.\<close>

fun build_rows ::
  "(int \<rightharpoonup> int) \<Rightarrow> (int \<Rightarrow> upload_object \<Rightarrow> (upload_error + 'r) list) \<Rightarrow> upload_object list \<Rightarrow> upload_error + 'r list" where
  "build_rows m rows_of [] = Inr []"
| "build_rows m rows_of (ob # obs) =
     rbind (resolve_object_id m (uo_local_id ob)) (\<lambda>object_id.
     rbind (collect_results (rows_of object_id ob)) (\<lambda>rows.
     rbind (build_rows m rows_of obs) (\<lambda>more. Inr (rows @ more))))"

definition build_symbol_instances :: "int \<Rightarrow> int \<Rightarrow> upload_object list \<Rightarrow> (int \<rightharpoonup> int) \<Rightarrow> upload_error + instance_row list" where
  "build_symbol_instances project_id root objects m =
     build_rows m (\<lambda>oid ob. map (build_instance project_id root oid) (uo_instances ob)) objects"

definition build_symbol_refs :: "int \<Rightarrow> int \<Rightarrow> upload_object list \<Rightarrow> (int \<rightharpoonup> int) \<Rightarrow> upload_error + ref_row list" where
  "build_symbol_refs project_id root objects m =
     build_rows m (\<lambda>oid ob. map (build_ref project_id root oid) (uo_refs ob)) objects"

text \<open>An \<open>int4range\<close> whose lower bound exceeds the upper one is an error of the statement.\<close>

fun range_ok :: "bound \<times> bound \<Rightarrow> bool" where
  "range_ok (Included a, Excluded b) = (a \<le> b)"
| "range_ok r = True"

definition insert_instance :: "instance_row \<Rightarrow> (upload_error, unit) store_step" where
  "insert_instance row db =
     (let sq = sd_seqs db; fresh = sq_instance sq; db1 = db\<lparr>sd_seqs := sq\<lparr>sq_instance := fresh + 1\<rparr>\<rparr> in
      if \<not> range_ok (in_range row)
      then (Inl (Storage ''range lower bound must be less than or equal to range upper bound''), db1)
      else if list_ex (\<lambda>i. in_symbol i = in_symbol row \<and> in_object_id i = in_object_id row
             \<and> range_norm (in_range i) = range_norm (in_range row) \<and> in_layer i = in_layer row) (sd_instances db)
      then (Inr (), db1)
      else if in_symbol row \<notin> set (map sy_id (sd_symbols db)) \<or> in_object_id row \<notin> set (map ob_id (sd_objects db))
             \<or> in_layer row \<notin> set (map lr_id (sd_layers db))
      then (Inl (Storage ''insert or update on table \"symbol_instances\" violates foreign key constraint''), db1)
      else (Inr (), db1\<lparr>sd_instances := sd_instances db @ [row\<lparr>in_id := fresh\<rparr>]\<rparr>))"

definition insert_ref :: "ref_row \<Rightarrow> (upload_error, unit) store_step" where
  "insert_ref row db =
     (let sq = sd_seqs db; fresh = sq_ref sq; db1 = db\<lparr>sd_seqs := sq\<lparr>sq_ref := fresh + 1\<rparr>\<rparr> in
      if \<not> range_ok (rf_from_range row)
      then (Inl (Storage ''range lower bound must be less than or equal to range upper bound''), db1)
      else if list_ex (\<lambda>r. rf_to_symbol r = rf_to_symbol row \<and> rf_from_object r = rf_from_object row
             \<and> range_norm (rf_from_range r) = range_norm (rf_from_range row) \<and> rf_layer r = rf_layer row) (sd_refs db)
      then (Inr (), db1)
      else if rf_to_symbol row \<notin> set (map sy_id (sd_symbols db)) \<or> rf_from_object row \<notin> set (map ob_id (sd_objects db))
             \<or> rf_layer row \<notin> set (map lr_id (sd_layers db))
      then (Inl (Storage ''insert or update on table \"symbol_refs\" violates foreign key constraint''), db1)
      else (Inr (), db1\<lparr>sd_refs := sd_refs db @ [row\<lparr>rf_id := fresh\<rparr>]\<rparr>))"

definition insert_symbol_instances :: "instance_row list \<Rightarrow> (upload_error, unit) store_step" where
  "insert_symbol_instances rows =
     sbind (smap (smap insert_instance) (chunks MAX_INSERT_ROWS rows)) (\<lambda>_. sreturn ())"

definition insert_symbol_refs :: "ref_row list \<Rightarrow> (upload_error, unit) store_step" where
  "insert_symbol_refs rows =
     sbind (smap (smap insert_ref) (chunks MAX_INSERT_ROWS rows)) (\<lambda>_. sreturn ())"

text \<open>The hashes of a hash set are named in the order they came.\<close>

definition missing_contents :: "object_insert list \<Rightarrow> store_db \<Rightarrow> string list" where
  "missing_contents inserts db =
     filter (\<lambda>h. h \<notin> fst ` set (sd_contents db))
       (remdups (map (\<lambda>oi. ob_content_hash (oi_row oi))
         (filter (\<lambda>oi. oi_content oi = None \<and> ob_content_hash (oi_row oi) \<noteq> []) inserts)))"

definition check_contents :: "object_insert list \<Rightarrow> (upload_error, unit) store_step" where
  "check_contents inserts db =
     (let missing = missing_contents inserts db in
      if missing \<noteq> []
      then (Inl (Invalid (''missing content for '' @ show_nat (length missing) @ '' hash(es): ''
              @ join_with '', '' missing)), db)
      else (Inr (), db))"

definition do_upload_objects :: "sha \<Rightarrow> int \<Rightarrow> upload_object list \<Rightarrow> (upload_error, unit) store_step" where
  "do_upload_objects sha pid objects =
     sbind (root_layer_of pid) (\<lambda>root.
     sbind (slift (build_objects sha pid root objects)) (\<lambda>inserts.
     sbind (check_contents inserts) (\<lambda>_.
     sbind (insert_objects inserts) (\<lambda>object_map.
     sbind (slift (build_symbol_instances pid root objects object_map)) (\<lambda>instances.
     sbind (insert_symbol_instances instances) (\<lambda>_.
     sbind (slift (build_symbol_refs pid root objects object_map)) (\<lambda>refs.
     insert_symbol_refs refs)))))))"

definition claim_object_chunk :: "int \<Rightarrow> int \<Rightarrow> (upload_error, nat) store_step" where
  "claim_object_chunk pid seq db =
     (if (pid, seq) \<in> set (sd_object_chunks db) then (Inr 0, db)
      else if find_project pid db = None
      then (Inl (Storage ''insert or update on table \"project_object_chunks\" violates foreign key constraint''), db)
      else (Inr 1, db\<lparr>sd_object_chunks := sd_object_chunks db @ [(pid, seq)]\<rparr>))"

definition upload_object_chunk :: "sha \<Rightarrow> int \<Rightarrow> int \<Rightarrow> upload_project \<Rightarrow> (upload_error, unit) store_step" where
  "upload_object_chunk sha pid seq upload =
     (if up_symbols upload \<noteq> []
      then sfail (Invalid ''symbols must be uploaded in phase 1 (header) only'')
      else clear_on_drop (transaction (
        sbind (claim_object_chunk pid seq) (\<lambda>inserted.
        if inserted = 0 then sreturn () else do_upload_objects sha pid (up_objects upload)))))"


subsection \<open>Finishing an upload\<close>

definition set_status :: "int \<Rightarrow> upload_status \<Rightarrow> store_db \<Rightarrow> store_db" where
  "set_status pid st db =
     db\<lparr>sd_projects := map (\<lambda>p. if pj_id p = pid then p\<lparr>pj_status := st\<rparr> else p) (sd_projects db)\<rparr>"

definition committed_chunks :: "int \<Rightarrow> (int \<times> int) list \<Rightarrow> nat" where
  "committed_chunks pid cs = length (filter (\<lambda>c. fst c = pid) cs)"

definition check_total :: "string \<Rightarrow> nat \<Rightarrow> int option \<Rightarrow> upload_error + unit" where
  "check_total what committed required =
     (case required of
        None \<Rightarrow> Inr ()
      | Some t \<Rightarrow>
          if int committed \<noteq> t
          then Inl (Invalid (show_nat committed @ ''/'' @ show_int t @ '' '' @ what @ '' chunks committed ''
                @ [CHR 0xE2, CHR 0x80, CHR 0x94] @ '' upload incomplete''))
          else Inr ())"

definition finish :: "int \<Rightarrow> (upload_error, bool) store_step" where
  "finish pid =
     sbind (\<lambda>db. (Inr (), set_status pid Complete db)) (\<lambda>_.
     sbind (in_upload purge_eph_layers) (\<lambda>_. sreturn True))"

definition finalize_project :: "int \<Rightarrow> (upload_error, bool) store_step" where
  "finalize_project pid =
     clear_on_drop (transaction (\<lambda>db.
       case find_project pid db of
         None \<Rightarrow> (Inr False, db)
       | Some p \<Rightarrow>
           (case pj_status p of
              Complete \<Rightarrow> (Inr True, db)
            | Uploading \<Rightarrow>
                sbind (slift (check_total ''symbol'' (committed_chunks pid (sd_symbol_chunks db)) (pj_symbol_chunks p))) (\<lambda>_.
                sbind (slift (check_total ''object'' (committed_chunks pid (sd_object_chunks db)) (pj_object_chunks p))) (\<lambda>_.
                finish pid)) db
            | _ \<Rightarrow> (Inl Conflict, db))))"

text \<open>
  The hash is compared trimmed but stored as it came.  Each chunk is a statement of its own,
  outside a transaction; the cache is cleared although nothing was stored when a hash is wrong.
\<close>

definition content_row :: "sha \<Rightarrow> object_content \<Rightarrow> upload_error + string \<times> byte list" where
  "content_row sha entry =
     (let hash_trimmed = trim (ct_hash entry); actual_hash = hash_bytes sha (ct_content entry) in
      if hash_trimmed = [] then Inl (Invalid ''content_hash is required on ObjectContent'')
      else if actual_hash \<noteq> hash_trimmed
      then Inl (Invalid (''content_hash mismatch: expected '' @ ct_hash entry @ '', got '' @ actual_hash))
      else Inr (ct_hash entry, ct_content entry))"

definition upload_contents :: "sha \<Rightarrow> object_content list \<Rightarrow> (upload_error, nat) store_step" where
  "upload_contents sha contents =
     clear_on_drop (
       sbind (slift (collect_results (map (content_row sha) contents))) (\<lambda>rows.
       sbind (smap insert_contents (chunks MAX_INSERT_ROWS rows)) (\<lambda>counts. sreturn (sum_list counts))))"

subsection \<open>Deleting a project\<close>

definition in_id_range :: "int \<Rightarrow> int \<Rightarrow> int \<Rightarrow> bool" where
  "in_id_range lower upper i \<longleftrightarrow> lower \<le> i \<and> i < upper"

definition delete_symbol_rows :: "int \<Rightarrow> int \<Rightarrow> store_db \<Rightarrow> store_db" where
  "delete_symbol_rows lower upper db =
     db\<lparr>sd_refs := filter (\<lambda>r. \<not> in_id_range lower upper (rf_to_symbol r)) (sd_refs db),
        sd_instances := filter (\<lambda>i. \<not> in_id_range lower upper (in_symbol i)) (sd_instances db)\<rparr>"

definition delete_project_data :: "int \<Rightarrow> store_db \<Rightarrow> store_db" where
  "delete_project_data pid db =
     (let db1 = delete_symbol_rows (project_symbol_id_base pid) (project_symbol_id_base (as_i32 (pid + 1))) db;
          db2 = sweep (db1\<lparr>sd_symbols := filter (\<lambda>s. sy_project_id s \<noteq> pid) (sd_symbols db1)\<rparr>)
      in sweep (db2\<lparr>sd_objects := filter (\<lambda>ob. ob_project_id ob \<noteq> pid) (sd_objects db2)\<rparr>))"

definition delete_project :: "int \<Rightarrow> (string, bool) store_step" where
  "delete_project pid db =
     (if pid \<le> 0 \<or> find_project pid db = None then (Inr False, db)
      else clear_on_drop (transaction (
        sbind (\<lambda>db. (Inr (), delete_project_data pid db)) (\<lambda>_.
        sbind (\<lambda>db. (Inr (map_option pj_root_layer (find_project pid db)), delete_project_row pid db)) (\<lambda>root.
        sbind (case root of None \<Rightarrow> sreturn 0 | Some r \<Rightarrow> delete_layers [r]) (\<lambda>_.
        sbind purge_eph_layers (\<lambda>_. sreturn True)))))) (set_status pid Deleting db))"

definition clear_caches :: "(string, nat) store_step" where
  "clear_caches db = transaction purge_eph_layers (db\<lparr>sd_epoch := sd_epoch db + 1\<rparr>)"

subsection \<open>Reads\<close>

record project_info =
  pi_id :: int
  pi_name :: string
  pi_root_path :: string
  pi_status :: upload_status

record project_details = project_info +
  pd_file_count :: nat
  pd_symbol_count :: nat
  pd_symbol_chunks :: "int option"
  pd_object_chunks :: "int option"
  pd_committed_symbols :: "int list"
  pd_committed_objects :: "int list"

definition list_projects :: "store_db \<Rightarrow> project_info list" where
  "list_projects db =
     map (\<lambda>p. \<lparr>pi_id = pj_id p, pi_name = pj_name p, pi_root_path = pj_root_path p, pi_status = pj_status p\<rparr>)
       (sort_key pj_id (filter (\<lambda>p. 0 < pj_id p) (sd_projects db)))"

definition chunk_seqs :: "int \<Rightarrow> (int \<times> int) list \<Rightarrow> int list" where
  "chunk_seqs pid cs = sort (map snd (filter (\<lambda>c. fst c = pid) cs))"

definition get_project_details :: "int \<Rightarrow> store_db \<Rightarrow> project_details option" where
  "get_project_details pid db =
     (case find_project pid db of
        None \<Rightarrow> None
      | Some p \<Rightarrow>
          if pj_id p \<le> 0 then None
          else Some \<lparr>pi_id = pj_id p, pi_name = pj_name p, pi_root_path = pj_root_path p, pi_status = pj_status p,
            pd_file_count = length (filter (\<lambda>ob. ob_project_id ob = pid) (sd_objects db)),
            pd_symbol_count = length (filter (\<lambda>s. sy_project_id s = pid \<and> sy_layer s = pj_root_layer p) (sd_symbols db)),
            pd_symbol_chunks = pj_symbol_chunks p, pd_object_chunks = pj_object_chunks p,
            pd_committed_symbols = chunk_seqs pid (sd_symbol_chunks db),
            pd_committed_objects = chunk_seqs pid (sd_object_chunks db)\<rparr>)"

definition check_content_hashes :: "string list \<Rightarrow> store_db \<Rightarrow> string list" where
  "check_content_hashes hashes db =
     (if hashes = [] then [] else filter (\<lambda>h. h \<in> set hashes) (map fst (sd_contents db)))"

text \<open>\<open>COALESCE(oc.content, cs.content)\<close>; both columns may be NULL, which is the error of the load.\<close>

definition object_bytes :: "store_db \<Rightarrow> object_row \<Rightarrow> string + byte list" where
  "object_bytes db ob =
     (case map_of (sd_object_contents db) (ob_id ob) of
        Some c \<Rightarrow> Inr c
      | None \<Rightarrow>
          (case map_of (sd_contents db) (ob_content_hash ob) of
             Some c \<Rightarrow> Inr c
           | None \<Rightarrow> Inl ''Unexpected null for non-null column''))"

definition get_project_file_contents_by_path :: "int \<Rightarrow> string \<Rightarrow> store_db \<Rightarrow> string + byte list option" where
  "get_project_file_contents_by_path pid path db =
     (case List.find (\<lambda>ob. ob_project_id ob = pid \<and> ob_filesystem_path ob = normalize_full_path path) (sd_objects db) of
        None \<Rightarrow> Inr None
      | Some ob \<Rightarrow> rbind (object_bytes db ob) (\<lambda>c. Inr (Some c)))"

end
