(* ===== verification/Upload_Protocol.thy ===== *)
theory Upload_Protocol
  imports Upload
begin

text \<open>
  What holds of the index store in every state its operations reach: keys, ownership of rows by
  projects and layers, the types and normal forms of stored values.  Also what a chunk, the end
  of an upload and a deletion do.
\<close>

subsection \<open>States the operations reach\<close>

datatype store_op =
    OpUpload nat "byte list" upload_project "int option" "int option"
  | OpSymbols int int "upload_symbol list"
  | OpObjects int int upload_project
  | OpContents "object_content list"
  | OpFinalize int
  | OpDelete int
  | OpClear

fun store_run :: "sha \<Rightarrow> store_op \<Rightarrow> store_db \<Rightarrow> store_db" where
  "store_run sha (OpUpload now h u st ot) db = snd (upload_index now h u st ot db)"
| "store_run sha (OpSymbols pid seq symbols) db = snd (upload_symbol_chunk pid seq symbols db)"
| "store_run sha (OpObjects pid seq u) db = snd (upload_object_chunk sha pid seq u db)"
| "store_run sha (OpContents cs) db = snd (upload_contents sha cs db)"
| "store_run sha (OpFinalize pid) db = snd (finalize_project pid db)"
| "store_run sha (OpDelete pid) db = snd (delete_project pid db)"
| "store_run sha OpClear db = snd (clear_caches db)"

definition empty_store :: store_db where
  "empty_store = \<lparr>sd_projects = [], sd_layers = [], sd_symbols = [], sd_objects = [], sd_instances = [],
     sd_refs = [], sd_contents = [], sd_object_contents = [], sd_symbol_chunks = [], sd_object_chunks = [],
     sd_seqs = \<lparr>sq_project = 1, sq_object = 1, sq_instance = 1, sq_ref = 1, sq_root = 1\<rparr>, sd_epoch = 0\<rparr>"

abbreviation project_ids :: "store_db \<Rightarrow> int set" where "project_ids db \<equiv> set (map pj_id (sd_projects db))"
abbreviation layer_ids :: "store_db \<Rightarrow> int set" where "layer_ids db \<equiv> set (map lr_id (sd_layers db))"
abbreviation symbol_ids :: "store_db \<Rightarrow> int set" where "symbol_ids db \<equiv> set (map sy_id (sd_symbols db))"
abbreviation object_ids :: "store_db \<Rightarrow> int set" where "object_ids db \<equiv> set (map ob_id (sd_objects db))"

text \<open>The project a stored symbol id belongs to.\<close>

definition id_project :: "int \<Rightarrow> int" where "id_project i = i div 2 ^ 32"

definition owns :: "store_db \<Rightarrow> int \<Rightarrow> int \<Rightarrow> bool" where
  "owns db pid layer \<longleftrightarrow> (\<exists>p\<in>set (sd_projects db). pj_id p = pid \<and> pj_root_layer p = layer)"

definition projects_ok :: "store_db \<Rightarrow> bool" where
  "projects_ok db \<longleftrightarrow> distinct (map pj_id (sd_projects db)) \<and> distinct (map pj_name (sd_projects db))
     \<and> distinct (map pj_root_layer (sd_projects db))
     \<and> (\<forall>p\<in>set (sd_projects db). 0 < pj_id p \<and> pj_id p < sq_project (sd_seqs db)
          \<and> (\<exists>l\<in>set (sd_layers db). lr_id l = pj_root_layer p \<and> lr_kind l = Root))
     \<and> 0 < sq_project (sd_seqs db)"

definition layers_ok :: "store_db \<Rightarrow> bool" where
  "layers_ok db \<longleftrightarrow> distinct (map lr_id (sd_layers db)) \<and> 0 < sq_root (sd_seqs db)
     \<and> (\<forall>l\<in>set (sd_layers db). lr_id l < sq_root (sd_seqs db)
          \<and> (lr_kind l = Root \<longrightarrow> 0 < lr_id l \<and> lr_parent_id l = None \<and> lr_base_id l = None))"

definition symbol_typed :: "symbol_row \<Rightarrow> bool" where
  "symbol_typed s \<longleftrightarrow> sy_type s \<in> {1..8} \<and> (sy_path s, sy_leaf_name s) = symbol_path_and_leaf (sy_name s) (sy_type s)"

definition symbols_ok :: "store_db \<Rightarrow> bool" where
  "symbols_ok db \<longleftrightarrow> distinct (map sy_id (sd_symbols db))
     \<and> (\<forall>s\<in>set (sd_symbols db). sy_project_id s \<in> project_ids db \<and> sy_layer s \<in> layer_ids db
          \<and> (if 0 < sy_layer s
             then owns db (sy_project_id s) (sy_layer s) \<and> id_project (sy_id s) = sy_project_id s \<and> symbol_typed s
             else sy_id s < 0))"

definition object_typed :: "object_row \<Rightarrow> bool" where
  "object_typed ob \<longleftrightarrow> starts_with_slash (ob_filesystem_path ob)
     \<and> normalize_full_path (ob_filesystem_path ob) = ob_filesystem_path ob"

definition object_place :: "object_row \<Rightarrow> int \<times> string" where
  "object_place ob = (ob_project_id ob, ob_filesystem_path ob)"

definition objects_ok :: "store_db \<Rightarrow> bool" where
  "objects_ok db \<longleftrightarrow> distinct (map ob_id (sd_objects db)) \<and> distinct (map object_place (sd_objects db))
     \<and> (\<forall>ob\<in>set (sd_objects db). ob_id ob < sq_object (sd_seqs db) \<and> owns db (ob_project_id ob) (ob_layer ob) \<and> object_typed ob)"

definition instance_key :: "instance_row \<Rightarrow> int \<times> int \<times> (int option \<times> int option) option \<times> int" where
  "instance_key i = (in_symbol i, in_object_id i, range_norm (in_range i), in_layer i)"

definition ref_key :: "ref_row \<Rightarrow> int \<times> int \<times> (int option \<times> int option) option \<times> int" where
  "ref_key r = (rf_to_symbol r, rf_from_object r, range_norm (rf_from_range r), rf_layer r)"

text \<open>A row of a file: its symbol, object and layer are stored and of one project.\<close>

definition linked :: "store_db \<Rightarrow> int \<Rightarrow> int \<Rightarrow> int \<Rightarrow> bool" where
  "linked db sid oid layer \<longleftrightarrow> sid \<in> symbol_ids db \<and> oid \<in> object_ids db \<and> layer \<in> layer_ids db
     \<and> (0 < layer \<longrightarrow> 0 < sid \<and> (\<exists>ob\<in>set (sd_objects db). ob_id ob = oid \<and> ob_layer ob = layer \<and> ob_project_id ob = id_project sid))"

definition rows_ok :: "store_db \<Rightarrow> bool" where
  "rows_ok db \<longleftrightarrow> distinct (map instance_key (sd_instances db)) \<and> distinct (map ref_key (sd_refs db))
     \<and> (\<forall>i\<in>set (sd_instances db). linked db (in_symbol i) (in_object_id i) (in_layer i)
          \<and> (0 < in_layer i \<longrightarrow> in_type i \<in> {1..10} \<and> range_ok (in_range i)))
     \<and> (\<forall>r\<in>set (sd_refs db). linked db (rf_to_symbol r) (rf_from_object r) (rf_layer r))"

definition chunks_ok :: "store_db \<Rightarrow> bool" where
  "chunks_ok db \<longleftrightarrow> distinct (sd_symbol_chunks db) \<and> distinct (sd_object_chunks db)
     \<and> (\<forall>c\<in>set (sd_symbol_chunks db) \<union> set (sd_object_chunks db). fst c \<in> project_ids db)
     \<and> (\<forall>c\<in>set (sd_object_contents db). fst c \<in> object_ids db)"

definition contents_ok :: "sha \<Rightarrow> store_db \<Rightarrow> bool" where
  "contents_ok sha db \<longleftrightarrow> distinct (map fst (sd_contents db))
     \<and> (\<forall>(h, c)\<in>set (sd_contents db). hash_bytes sha c = trim h)"

definition store_ok :: "sha \<Rightarrow> store_db \<Rightarrow> bool" where
  "store_ok sha db \<longleftrightarrow> projects_ok db \<and> layers_ok db \<and> symbols_ok db \<and> objects_ok db \<and> rows_ok db \<and> chunks_ok db
     \<and> contents_ok sha db"

lemmas store_ok_defs = store_ok_def projects_ok_def layers_ok_def symbols_ok_def objects_ok_def rows_ok_def
  chunks_ok_def contents_ok_def

text \<open>
  What queries do to the store meanwhile: ephemeral layers and their rows come and go, what is
  persistent stays.
\<close>

definition eph_change :: "store_db \<Rightarrow> store_db \<Rightarrow> bool" where
  "eph_change db db' \<longleftrightarrow>
     sd_projects db' = sd_projects db \<and> sd_objects db' = sd_objects db \<and> sd_contents db' = sd_contents db
     \<and> sd_object_contents db' = sd_object_contents db \<and> sd_symbol_chunks db' = sd_symbol_chunks db
     \<and> sd_object_chunks db' = sd_object_chunks db \<and> sd_seqs db' = sd_seqs db
     \<and> filter (\<lambda>l. 0 < lr_id l) (sd_layers db') = filter (\<lambda>l. 0 < lr_id l) (sd_layers db)
     \<and> filter (\<lambda>s. 0 < sy_layer s) (sd_symbols db') = filter (\<lambda>s. 0 < sy_layer s) (sd_symbols db)
     \<and> filter (\<lambda>i. 0 < in_layer i) (sd_instances db') = filter (\<lambda>i. 0 < in_layer i) (sd_instances db)
     \<and> filter (\<lambda>r. 0 < rf_layer r) (sd_refs db') = filter (\<lambda>r. 0 < rf_layer r) (sd_refs db)
     \<and> distinct (map lr_id (sd_layers db')) \<and> distinct (map sy_id (sd_symbols db'))
     \<and> distinct (map instance_key (sd_instances db')) \<and> distinct (map ref_key (sd_refs db'))
     \<and> (\<forall>l\<in>set (sd_layers db'). lr_id l \<le> 0 \<longrightarrow> lr_kind l \<noteq> Root)
     \<and> (\<forall>s\<in>set (sd_symbols db'). sy_layer s \<le> 0 \<longrightarrow> sy_id s < 0 \<and> sy_project_id s \<in> project_ids db' \<and> sy_layer s \<in> layer_ids db')
     \<and> (\<forall>i\<in>set (sd_instances db'). in_layer i \<le> 0 \<longrightarrow>
          in_symbol i \<in> symbol_ids db' \<and> in_object_id i \<in> object_ids db' \<and> in_layer i \<in> layer_ids db')
     \<and> (\<forall>r\<in>set (sd_refs db'). rf_layer r \<le> 0 \<longrightarrow>
          rf_to_symbol r \<in> symbol_ids db' \<and> rf_from_object r \<in> object_ids db' \<and> rf_layer r \<in> layer_ids db')"

inductive store_reach :: "sha \<Rightarrow> store_db \<Rightarrow> bool" for sha where
  start: "store_reach sha empty_store"
| oper: "store_reach sha (store_run sha q db)" if "store_reach sha db"
| query: "store_reach sha db'" if "store_reach sha db" and "eph_change db db'"

subsection \<open>Transactions\<close>

lemma store_ok_seqs_epoch:
  assumes "store_ok sha db" "sq_project (sd_seqs db) \<le> sq_project sq" "sq_object (sd_seqs db) \<le> sq_object sq"
    "sq_root (sd_seqs db) \<le> sq_root sq"
  shows "store_ok sha (db\<lparr>sd_seqs := sq\<rparr>)"
proof -
  let ?db = "db\<lparr>sd_seqs := sq\<rparr>"
  have "projects_ok ?db" using assms(1,2) by (fastforce simp: store_ok_def projects_ok_def)
  moreover have "layers_ok ?db" using assms(1,4) by (fastforce simp: store_ok_def layers_ok_def)
  moreover have "symbols_ok ?db = symbols_ok db" by (simp add: symbols_ok_def owns_def)
  moreover have "objects_ok ?db" using assms(1,3) by (fastforce simp: store_ok_def objects_ok_def owns_def)
  moreover have "rows_ok ?db = rows_ok db" by (simp add: rows_ok_def linked_def)
  moreover have "chunks_ok ?db = chunks_ok db" "contents_ok sha ?db = contents_ok sha db"
    by (simp_all add: chunks_ok_def contents_ok_def)
  ultimately show ?thesis using assms(1) by (simp add: store_ok_def)
qed

lemma store_ok_epoch [simp]: "store_ok sha (db\<lparr>sd_epoch := n\<rparr>) = store_ok sha db"
  unfolding store_ok_defs by (simp add: owns_def linked_def)

text \<open>Sequences only grow.\<close>

definition seqs_le :: "store_db \<Rightarrow> store_db \<Rightarrow> bool" where
  "seqs_le db db' \<longleftrightarrow> sq_project (sd_seqs db) \<le> sq_project (sd_seqs db') \<and> sq_object (sd_seqs db) \<le> sq_object (sd_seqs db')
     \<and> sq_root (sd_seqs db) \<le> sq_root (sd_seqs db')"

text \<open>
  Every object's content is in the store, except for the hashes \<open>H\<close> of objects whose content is
  about to be stored.
\<close>

definition backed :: "string set \<Rightarrow> store_db \<Rightarrow> bool" where
  "backed H db \<longleftrightarrow> (\<forall>ob\<in>set (sd_objects db). ob_content_hash ob \<in> fst ` set (sd_contents db) \<union> H)"

definition valid :: "sha \<Rightarrow> (store_db \<Rightarrow> bool) \<Rightarrow> ('e, 'a) store_step \<Rightarrow> ('a \<Rightarrow> store_db \<Rightarrow> bool) \<Rightarrow> bool" where
  "valid sha P m Q \<longleftrightarrow> (\<forall>db. store_ok sha db \<and> P db \<longrightarrow> seqs_le db (snd (m db))
     \<and> (\<forall>a. fst (m db) = Inr a \<longrightarrow> store_ok sha (snd (m db)) \<and> Q a (snd (m db))))"

abbreviation keeps :: "sha \<Rightarrow> ('e, 'a) store_step \<Rightarrow> bool" where
  "keeps sha m \<equiv> valid sha (backed {}) m (\<lambda>_. backed {})"

lemma seqs_le_refl [simp]: "seqs_le db db" by (simp add: seqs_le_def)

lemma seqs_le_trans: "seqs_le a b \<Longrightarrow> seqs_le b c \<Longrightarrow> seqs_le a c" by (simp add: seqs_le_def)

lemma valid_return [intro]: "(\<And>db. P db \<Longrightarrow> Q a db) \<Longrightarrow> valid sha P (sreturn a) Q"
  by (simp add: valid_def sreturn_def)

lemma valid_lift: "(\<And>a db. r = Inr a \<Longrightarrow> P db \<Longrightarrow> Q a db) \<Longrightarrow> valid sha P (slift r) Q"
  by (simp add: valid_def slift_def)

lemma valid_fail [intro]: "valid sha P (sfail e) Q" by (simp add: valid_def sfail_def)

lemma valid_bind:
  assumes "valid sha P m R" "\<And>a. valid sha (R a) (f a) Q"
  shows "valid sha P (sbind m f) Q"
  unfolding valid_def
proof (intro allI impI)
  fix db assume ok: "store_ok sha db \<and> P db"
  obtain r db1 where m: "m db = (r, db1)" by (cases "m db")
  have one: "seqs_le db db1" "\<And>a. r = Inr a \<Longrightarrow> store_ok sha db1 \<and> R a db1"
    using assms(1) ok m by (auto simp: valid_def)
  show "seqs_le db (snd (sbind m f db)) \<and> (\<forall>b. fst (sbind m f db) = Inr b \<longrightarrow>
      store_ok sha (snd (sbind m f db)) \<and> Q b (snd (sbind m f db)))"
  proof (cases r)
    case (Inl e)
    then show ?thesis using one(1) m by (simp add: sbind_def)
  next
    case (Inr a)
    have eq: "sbind m f db = f a db1" using m Inr by (simp add: sbind_def)
    have "store_ok sha db1 \<and> R a db1" using one(2) Inr by simp
    then show ?thesis using assms(2) [of a] one(1) seqs_le_trans unfolding valid_def eq by blast
  qed
qed

lemma valid_conseq:
  "valid sha P' m Q' \<Longrightarrow> (\<And>db. P db \<Longrightarrow> P' db) \<Longrightarrow> (\<And>a db. Q' a db \<Longrightarrow> Q a db) \<Longrightarrow> valid sha P m Q"
  by (simp add: valid_def)

lemma valid_smap: "(\<And>x. x \<in> set xs \<Longrightarrow> valid sha P (f x) (\<lambda>_. P)) \<Longrightarrow> valid sha P (smap f xs) (\<lambda>_. P)"
proof (induction xs)
  case (Cons x xs)
  have "valid sha P (smap f xs) (\<lambda>_. P)" using Cons by simp
  then show ?case
    unfolding smap.simps using Cons.prems [of x] by (auto intro!: valid_bind)
qed auto

lemma valid_pure:
  assumes "\<And>db. store_ok sha db \<Longrightarrow> P db \<Longrightarrow> store_ok sha (g db) \<and> seqs_le db (g db) \<and> Q (h db) (g db)"
  shows "valid sha P (\<lambda>db. (Inr (h db), g db)) Q"
  using assms by (simp add: valid_def)

lemma keeps_transaction:
  assumes "keeps sha body" "store_ok sha db" "backed {} db"
  shows "store_ok sha (snd (transaction body db)) \<and> backed {} (snd (transaction body db))"
proof -
  obtain r db' where b: "body db = (r, db')" by (cases "body db")
  have k: "seqs_le db db'" "\<And>a. r = Inr a \<Longrightarrow> store_ok sha db' \<and> backed {} db'" using assms b by (auto simp: valid_def)
  show ?thesis
  proof (cases r)
    case (Inl e)
    then show ?thesis using store_ok_seqs_epoch [OF assms(2)] k(1) b assms(3)
      by (simp add: transaction_def seqs_le_def backed_def)
  qed (use k(2) b in \<open>simp add: transaction_def\<close>)
qed

lemma keeps_clear [simp]:
  "store_ok sha (snd (clear_on_drop m db)) = store_ok sha (snd (m db))"
  "backed H (snd (clear_on_drop m db)) = backed H (snd (m db))"
  by (simp_all add: clear_on_drop_def backed_def split: prod.split)

lemma valid_in_upload [intro]: "valid sha P m Q \<Longrightarrow> valid sha P (in_upload m) Q"
  unfolding valid_def in_upload_def by (auto split: prod.splits)

lemma filter_eq_mem: "filter P xs = filter P ys \<Longrightarrow> P x \<Longrightarrow> x \<in> set xs \<longleftrightarrow> x \<in> set ys"
proof -
  assume eq: "filter P xs = filter P ys" and x: "P x"
  have "set (filter P xs) = set (filter P ys)" by (simp only: eq)
  then show ?thesis using x by auto
qed

lemma store_ok_start: "store_ok sha empty_store"
  unfolding store_ok_defs by (simp add: empty_store_def)

lemma root_layer_row:
  "store_ok sha db \<Longrightarrow> p \<in> set (sd_projects db) \<Longrightarrow> \<exists>l\<in>set (sd_layers db). lr_id l = pj_root_layer p \<and> lr_kind l = Root \<and> 0 < lr_id l"
  by (fastforce simp: store_ok_def projects_ok_def layers_ok_def)

lemma owns_layer:
  assumes "store_ok sha db" "owns db pid layer"
  shows "layer \<in> layer_ids db" "0 < layer" "pid \<in> project_ids db" "0 < pid"
proof -
  obtain p where p: "p \<in> set (sd_projects db)" "pj_id p = pid" "pj_root_layer p = layer"
    using assms(2) by (auto simp: owns_def)
  obtain l where "l \<in> set (sd_layers db)" "lr_id l = layer" "0 < lr_id l"
    using root_layer_row [OF assms(1) p(1)] p(3) by blast
  then show "layer \<in> layer_ids db" "0 < layer" by auto
  show "pid \<in> project_ids db" "0 < pid" using p assms(1) by (auto simp: store_ok_def projects_ok_def)
qed

lemma owns_unique:
  assumes "store_ok sha db" "owns db pid a" "owns db pid b"
  shows "a = b"
  using assms by (auto simp: owns_def store_ok_def projects_ok_def distinct_map dest: inj_onD)

lemma positive_symbol:
  assumes "store_ok sha db" "s \<in> set (sd_symbols db)" "0 < sy_id s"
  shows "0 < sy_layer s"
  using assms by (auto simp: store_ok_def symbols_ok_def split: if_splits)

lemma eph_change_ok:
  assumes ok: "store_ok sha db" and ch: "eph_change db db'"
  shows "store_ok sha db'"
proof -
  have same: "sd_projects db' = sd_projects db" "sd_objects db' = sd_objects db" "sd_contents db' = sd_contents db"
    "sd_object_contents db' = sd_object_contents db" "sd_symbol_chunks db' = sd_symbol_chunks db"
    "sd_object_chunks db' = sd_object_chunks db" "sd_seqs db' = sd_seqs db"
    using ch by (simp_all add: eph_change_def)
  have layers: "l \<in> set (sd_layers db') \<longleftrightarrow> l \<in> set (sd_layers db)" if "0 < lr_id l" for l
    by (rule filter_eq_mem [where P = "\<lambda>l. 0 < lr_id l"]) (use ch that in \<open>simp_all add: eph_change_def\<close>)
  have symbols: "s \<in> set (sd_symbols db') \<longleftrightarrow> s \<in> set (sd_symbols db)" if "0 < sy_layer s" for s
    by (rule filter_eq_mem [where P = "\<lambda>s. 0 < sy_layer s"]) (use ch that in \<open>simp_all add: eph_change_def\<close>)
  have instances: "i \<in> set (sd_instances db') \<longleftrightarrow> i \<in> set (sd_instances db)" if "0 < in_layer i" for i
    by (rule filter_eq_mem [where P = "\<lambda>i. 0 < in_layer i"]) (use ch that in \<open>simp_all add: eph_change_def\<close>)
  have refs: "r \<in> set (sd_refs db') \<longleftrightarrow> r \<in> set (sd_refs db)" if "0 < rf_layer r" for r
    by (rule filter_eq_mem [where P = "\<lambda>r. 0 < rf_layer r"]) (use ch that in \<open>simp_all add: eph_change_def\<close>)
  have root_layer: "l \<in> layer_ids db'" if "l \<in> layer_ids db" "0 < l" for l
    using that layers by auto
  have pos_symbol: "i \<in> symbol_ids db'" if "i \<in> symbol_ids db" "0 < i" for i
    using that symbols positive_symbol [OF ok] by auto
  have linked: "linked db' a b l" if "linked db a b l" "0 < l" for a b l
    using that pos_symbol root_layer unfolding linked_def same by blast
  have "projects_ok db'"
  proof -
    have "\<exists>l\<in>set (sd_layers db'). lr_id l = pj_root_layer p \<and> lr_kind l = Root" if p: "p \<in> set (sd_projects db)" for p
    proof -
      obtain l where l: "l \<in> set (sd_layers db)" "lr_id l = pj_root_layer p" "lr_kind l = Root"
        and "0 < lr_id l" using root_layer_row [OF ok p] by blast
      then show ?thesis using layers by blast
    qed
    then show ?thesis using ok by (auto simp: store_ok_def projects_ok_def same)
  qed
  moreover have "layers_ok db'"
  proof -
    have "lr_id l < sq_root (sd_seqs db) \<and> (lr_kind l = Root \<longrightarrow> 0 < lr_id l \<and> lr_parent_id l = None \<and> lr_base_id l = None)"
      if "l \<in> set (sd_layers db')" for l
    proof (cases "0 < lr_id l")
      case True
      then show ?thesis using that layers ok by (auto simp: store_ok_def layers_ok_def)
    next
      case False
      then have "lr_kind l \<noteq> Root" using that ch by (auto simp: eph_change_def)
      then show ?thesis using False ok by (auto simp: store_ok_def layers_ok_def)
    qed
    then show ?thesis using ok ch by (simp add: store_ok_def layers_ok_def same eph_change_def)
  qed
  moreover have "symbols_ok db'"
    unfolding symbols_ok_def
  proof (intro conjI ballI)
    show "distinct (map sy_id (sd_symbols db'))" using ch by (simp add: eph_change_def)
    fix s assume s: "s \<in> set (sd_symbols db')"
    have "sy_project_id s \<in> project_ids db' \<and> sy_layer s \<in> layer_ids db'
      \<and> (if 0 < sy_layer s then owns db' (sy_project_id s) (sy_layer s) \<and> id_project (sy_id s) = sy_project_id s \<and> symbol_typed s
         else sy_id s < 0)"
    proof (cases "0 < sy_layer s")
      case True
      then have "s \<in> set (sd_symbols db)" using s symbols by blast
      then show ?thesis using True ok root_layer [of "sy_layer s"] by (auto simp: store_ok_def symbols_ok_def owns_def same)
    next
      case False
      have "\<forall>s\<in>set (sd_symbols db'). sy_layer s \<le> 0 \<longrightarrow>
          sy_id s < 0 \<and> sy_project_id s \<in> project_ids db' \<and> sy_layer s \<in> layer_ids db'"
        using ch unfolding eph_change_def by blast
      then show ?thesis using s False by simp
    qed
    then show "sy_project_id s \<in> project_ids db'" "sy_layer s \<in> layer_ids db'"
      "if 0 < sy_layer s then owns db' (sy_project_id s) (sy_layer s) \<and> id_project (sy_id s) = sy_project_id s \<and> symbol_typed s
         else sy_id s < 0" by blast+
  qed
  moreover have "rows_ok db'"
  proof -
    have "linked db' (in_symbol i) (in_object_id i) (in_layer i) \<and> (0 < in_layer i \<longrightarrow> in_type i \<in> {1..10} \<and> range_ok (in_range i))"
      if "i \<in> set (sd_instances db')" for i
    proof (cases "0 < in_layer i")
      case True
      then have "i \<in> set (sd_instances db)" using that instances by blast
      then show ?thesis using True ok linked by (simp add: store_ok_def rows_ok_def)
    next
      case False
      then show ?thesis using that ch by (auto simp: eph_change_def linked_def)
    qed
    moreover have "linked db' (rf_to_symbol r) (rf_from_object r) (rf_layer r)" if "r \<in> set (sd_refs db')" for r
    proof (cases "0 < rf_layer r")
      case True
      then have "r \<in> set (sd_refs db)" using that refs by blast
      then show ?thesis using True ok linked by (simp add: store_ok_def rows_ok_def)
    next
      case False
      then show ?thesis using that ch by (auto simp: eph_change_def linked_def)
    qed
    ultimately show ?thesis using ch by (simp add: rows_ok_def eph_change_def)
  qed
  moreover have "objects_ok db'" "chunks_ok db'" "contents_ok sha db'"
    using ok unfolding store_ok_defs same by (simp_all add: owns_def same)
  ultimately show ?thesis by (simp add: store_ok_def)
qed

subsection \<open>Deletes\<close>

text \<open>Rows were taken away, and what is left of the projects still has its root layers.\<close>

definition shrinks :: "store_db \<Rightarrow> store_db \<Rightarrow> bool" where
  "shrinks db db' \<longleftrightarrow>
     (\<exists>P. sd_projects db' = filter P (sd_projects db)) \<and> (\<exists>P. sd_layers db' = filter P (sd_layers db))
     \<and> (\<exists>P. sd_symbols db' = filter P (sd_symbols db)) \<and> (\<exists>P. sd_objects db' = filter P (sd_objects db))
     \<and> (\<exists>P. sd_instances db' = filter P (sd_instances db)) \<and> (\<exists>P. sd_refs db' = filter P (sd_refs db))
     \<and> (\<exists>P. sd_object_contents db' = filter P (sd_object_contents db))
     \<and> (\<exists>P. sd_symbol_chunks db' = filter P (sd_symbol_chunks db))
     \<and> (\<exists>P. sd_object_chunks db' = filter P (sd_object_chunks db))
     \<and> sd_contents db' = sd_contents db \<and> sd_seqs db' = sd_seqs db
     \<and> (\<forall>p\<in>set (sd_projects db'). \<forall>l\<in>set (sd_layers db). lr_id l = pj_root_layer p \<longrightarrow> l \<in> set (sd_layers db'))"

lemma shrinks_refl [simp]: "shrinks db db"
  unfolding shrinks_def by (intro conjI exI [of _ "\<lambda>_. True"]) simp_all

lemma filter_of_filter: "\<exists>P. xs = filter P ys \<Longrightarrow> \<exists>P. filter Q xs = filter P ys"
  by (metis filter_filter)

lemma sweep_shrinks:
  assumes "shrinks db db'"
  shows "shrinks db (sweep db')"
  using assms unfolding shrinks_def sweep_def Let_def
  by (simp, intro conjI filter_of_filter; simp)

lemma shrinks_distinct:
  assumes "shrinks db db'"
  shows "distinct (map f (sd_projects db)) \<Longrightarrow> distinct (map f (sd_projects db'))"
    and "distinct (map g (sd_layers db)) \<Longrightarrow> distinct (map g (sd_layers db'))"
    and "distinct (map h (sd_symbols db)) \<Longrightarrow> distinct (map h (sd_symbols db'))"
    and "distinct (map i (sd_objects db)) \<Longrightarrow> distinct (map i (sd_objects db'))"
    and "distinct (map j (sd_instances db)) \<Longrightarrow> distinct (map j (sd_instances db'))"
    and "distinct (map k (sd_refs db)) \<Longrightarrow> distinct (map k (sd_refs db'))"
    and "distinct (sd_symbol_chunks db) \<Longrightarrow> distinct (sd_symbol_chunks db')"
    and "distinct (sd_object_chunks db) \<Longrightarrow> distinct (sd_object_chunks db')"
  using assms by (auto simp: shrinks_def distinct_map_filter)

text \<open>After the cascades, a store from which rows were taken is well formed again.\<close>

lemma sweep_ok:
  assumes ok: "store_ok sha db" and sh: "shrinks db db'"
  shows "store_ok sha (sweep db')"
proof -
  let ?db = "sweep db'"
  have sub: "set (sd_projects db') \<subseteq> set (sd_projects db)" "set (sd_layers db') \<subseteq> set (sd_layers db)"
    "set (sd_symbols db') \<subseteq> set (sd_symbols db)" "set (sd_objects db') \<subseteq> set (sd_objects db)"
    "set (sd_instances db') \<subseteq> set (sd_instances db)" "set (sd_refs db') \<subseteq> set (sd_refs db)"
    "set (sd_symbol_chunks db') \<subseteq> set (sd_symbol_chunks db)" "set (sd_object_chunks db') \<subseteq> set (sd_object_chunks db)"
    using sh by (auto simp: shrinks_def)
  note dist = shrinks_distinct [OF sweep_shrinks [OF sh]]
  have same: "sd_contents db' = sd_contents db" "sd_seqs db' = sd_seqs db" using sh by (simp_all add: shrinks_def)
  have pids: "project_ids ?db = project_ids db'" "layer_ids ?db = layer_ids db'"
    by (simp_all add: sweep_def Let_def)
  have owns: "owns ?db pid layer" if o: "owns db pid layer" "pid \<in> project_ids db'" for pid layer
  proof -
    obtain q where q: "q \<in> set (sd_projects db')" "pj_id q = pid" using o(2) by auto
    moreover obtain p where p: "p \<in> set (sd_projects db)" "pj_id p = pid" "pj_root_layer p = layer"
      using o(1) by (auto simp: owns_def)
    ultimately have "q = p" using sub(1) ok by (auto simp: store_ok_def projects_ok_def distinct_map dest: inj_onD)
    then show ?thesis using q p by (auto simp: owns_def sweep_def Let_def)
  qed
  have "projects_ok ?db"
  proof -
    have "\<exists>l\<in>set (sd_layers db'). lr_id l = pj_root_layer p \<and> lr_kind l = Root" if p: "p \<in> set (sd_projects db')" for p
    proof -
      obtain l where l: "l \<in> set (sd_layers db)" "lr_id l = pj_root_layer p" "lr_kind l = Root"
        using root_layer_row [OF ok] p sub(1) by blast
      then have "l \<in> set (sd_layers db')" using sh p by (auto simp: shrinks_def)
      then show ?thesis using l by blast
    qed
    then show ?thesis
      unfolding projects_ok_def
    proof (intro conjI)
      show "distinct (map pj_id (sd_projects ?db))" "distinct (map pj_name (sd_projects ?db))"
        "distinct (map pj_root_layer (sd_projects ?db))"
        using ok by (auto simp: store_ok_def projects_ok_def intro!: dist(1))
    qed (use ok sub(1) in \<open>auto simp: store_ok_def projects_ok_def sweep_def Let_def same\<close>)
  qed
  moreover have "layers_ok ?db"
    unfolding layers_ok_def
  proof (intro conjI)
    show "distinct (map lr_id (sd_layers ?db))" by (rule dist(2)) (use ok in \<open>simp add: store_ok_def layers_ok_def\<close>)
  qed (use ok sub(2) in \<open>auto simp: store_ok_def layers_ok_def sweep_def Let_def same\<close>)
  moreover have "symbols_ok ?db"
    unfolding symbols_ok_def
  proof (intro conjI ballI)
    show "distinct (map sy_id (sd_symbols ?db))"
      by (rule dist(3)) (use ok in \<open>simp add: store_ok_def symbols_ok_def\<close>)
    fix s assume s: "s \<in> set (sd_symbols ?db)"
    then have kept: "sy_project_id s \<in> project_ids db'" "sy_layer s \<in> layer_ids db'" "s \<in> set (sd_symbols db)"
      using sub(3) by (auto simp: sweep_def Let_def)
    then show "sy_project_id s \<in> project_ids ?db" "sy_layer s \<in> layer_ids ?db" by (simp_all only: pids)
    show "if 0 < sy_layer s then owns ?db (sy_project_id s) (sy_layer s) \<and> id_project (sy_id s) = sy_project_id s \<and> symbol_typed s
         else sy_id s < 0"
      using kept owns ok by (auto simp: store_ok_def symbols_ok_def split: if_splits)
  qed
  moreover have "objects_ok ?db"
    unfolding objects_ok_def
  proof (intro conjI ballI)
    show "distinct (map ob_id (sd_objects ?db))" "distinct (map object_place (sd_objects ?db))"
      using ok by (auto simp: store_ok_def objects_ok_def intro!: dist(4))
    fix ob assume "ob \<in> set (sd_objects ?db)"
    then have kept: "ob_project_id ob \<in> project_ids db'" "ob \<in> set (sd_objects db)"
      using sub(4) by (auto simp: sweep_def Let_def)
    then have "owns db (ob_project_id ob) (ob_layer ob)" using ok by (simp add: store_ok_def objects_ok_def)
    then show "owns ?db (ob_project_id ob) (ob_layer ob)" using kept(1) owns by blast
    show "ob_id ob < sq_object (sd_seqs ?db)" "object_typed ob"
      using kept(2) ok by (simp_all add: store_ok_def objects_ok_def sweep_def Let_def same)
  qed
  moreover have "rows_ok ?db"
  proof -
    have linked: "linked ?db a b l" if "linked db a b l" "a \<in> symbol_ids ?db" "b \<in> object_ids ?db" "l \<in> layer_ids ?db" for a b l
    proof -
      have "ob \<in> set (sd_objects ?db)" if b: "ob \<in> set (sd_objects db)" "ob_id ob \<in> object_ids ?db" for ob
      proof -
        obtain ob' where o: "ob' \<in> set (sd_objects ?db)" "ob_id ob' = ob_id ob"
          using b(2) by fastforce
        moreover have "ob' \<in> set (sd_objects db)" using o(1) sub(4) by (auto simp: sweep_def Let_def)
        ultimately show ?thesis using b(1) ok by (auto simp: store_ok_def objects_ok_def distinct_map dest: inj_onD)
      qed
      then show ?thesis using that unfolding linked_def by fast
    qed
    have "linked ?db (in_symbol i) (in_object_id i) (in_layer i) \<and> (0 < in_layer i \<longrightarrow> in_type i \<in> {1..10} \<and> range_ok (in_range i))"
      if i: "i \<in> set (sd_instances ?db)" for i
    proof -
      have "i \<in> set (sd_instances db)" using i sub(5) by (auto simp: sweep_def Let_def)
      then have "linked db (in_symbol i) (in_object_id i) (in_layer i)"
        "0 < in_layer i \<longrightarrow> in_type i \<in> {1..10} \<and> range_ok (in_range i)"
        using ok by (simp_all add: store_ok_def rows_ok_def)
      moreover have "in_symbol i \<in> symbol_ids ?db" "in_object_id i \<in> object_ids ?db" "in_layer i \<in> layer_ids ?db"
        using i by (simp_all add: sweep_def Let_def)
      ultimately show ?thesis using linked by blast
    qed
    moreover have "linked ?db (rf_to_symbol r) (rf_from_object r) (rf_layer r)" if r: "r \<in> set (sd_refs ?db)" for r
    proof -
      have "r \<in> set (sd_refs db)" using r sub(6) by (auto simp: sweep_def Let_def)
      then have "linked db (rf_to_symbol r) (rf_from_object r) (rf_layer r)"
        using ok by (simp add: store_ok_def rows_ok_def)
      moreover have "rf_to_symbol r \<in> symbol_ids ?db" "rf_from_object r \<in> object_ids ?db" "rf_layer r \<in> layer_ids ?db"
        using r by (simp_all add: sweep_def Let_def)
      ultimately show ?thesis using linked by blast
    qed
    moreover have "distinct (map instance_key (sd_instances ?db))" "distinct (map ref_key (sd_refs ?db))"
      using ok by (auto simp: store_ok_def rows_ok_def intro!: dist(5,6))
    ultimately show ?thesis by (simp add: rows_ok_def)
  qed
  moreover have "chunks_ok ?db"
    unfolding chunks_ok_def
  proof (intro conjI)
    show "distinct (sd_symbol_chunks ?db)" "distinct (sd_object_chunks ?db)"
      using ok by (auto simp: store_ok_def chunks_ok_def intro!: dist(7,8))
  qed (auto simp: sweep_def Let_def)
  moreover have "contents_ok sha ?db" using ok by (simp add: store_ok_def contents_ok_def sweep_def Let_def same)
  ultimately show ?thesis by (simp add: store_ok_def)
qed


lemma shrinks_backed: "shrinks db db' \<Longrightarrow> backed H db \<Longrightarrow> backed H db'"
  by (auto simp: shrinks_def backed_def)

lemma shrinks_seqs: "shrinks db db' \<Longrightarrow> seqs_le db db'"
  by (simp add: shrinks_def seqs_le_def)

lemma sweep_valid:
  "store_ok sha db \<Longrightarrow> backed {} db \<Longrightarrow> shrinks db db' \<Longrightarrow>
   store_ok sha (sweep db') \<and> seqs_le db (sweep db') \<and> backed {} (sweep db')"
  using sweep_ok sweep_shrinks shrinks_backed shrinks_seqs by blast

lemma filter_self: "\<exists>P. xs = filter P xs" by (rule exI [of _ "\<lambda>_. True"]) simp

lemma shrink_parts:
  "shrinks db (db\<lparr>sd_refs := filter R (sd_refs db), sd_instances := filter Q (sd_instances db), sd_symbols := filter P (sd_symbols db)\<rparr>)"
  "shrinks db (db\<lparr>sd_objects := filter S (sd_objects db)\<rparr>)"
  "shrinks db (db\<lparr>sd_projects := filter T (sd_projects db)\<rparr>)"
  unfolding shrinks_def by (auto intro: filter_self)

lemma delete_layers_keeps [intro]: "keeps sha (delete_layers ids)"
  unfolding valid_def
proof (intro allI impI, elim conjE)
  fix db assume ok: "store_ok sha db" "backed {} db"
  define gone where "gone = layer_closure (length (sd_layers db)) (sd_layers db) ids"
  show "seqs_le db (snd (delete_layers ids db)) \<and> (\<forall>a. fst (delete_layers ids db) = Inr a \<longrightarrow>
      store_ok sha (snd (delete_layers ids db)) \<and> backed {} (snd (delete_layers ids db)))"
  proof (cases "list_ex (\<lambda>p. pj_root_layer p \<in> set gone) (sd_projects db)")
    case False
    then have "shrinks db (db\<lparr>sd_layers := filter (\<lambda>r. lr_id r \<notin> set gone) (sd_layers db)\<rparr>)"
      unfolding shrinks_def by (auto intro: filter_self simp: list_ex_iff)
    then show ?thesis
      using sweep_valid [OF ok] False by (simp add: delete_layers_def Let_def flip: gone_def)
  qed (simp add: delete_layers_def Let_def flip: gone_def)
qed

lemma purge_keeps [intro]: "keeps sha purge_eph_layers"
  using delete_layers_keeps unfolding valid_def purge_eph_layers_def by blast

lemma delete_row_valid:
  "store_ok sha db \<Longrightarrow> backed {} db \<Longrightarrow>
   store_ok sha (delete_project_row pid db) \<and> seqs_le db (delete_project_row pid db) \<and> backed {} (delete_project_row pid db)"
  unfolding delete_project_row_def by (rule sweep_valid) (simp_all add: shrink_parts(3))

lemma delete_data_valid:
  assumes ok: "store_ok sha db" "backed {} db"
  shows "store_ok sha (delete_project_data pid db) \<and> seqs_le db (delete_project_data pid db) \<and> backed {} (delete_project_data pid db)"
proof -
  define lo hi where "lo = project_symbol_id_base pid" and "hi = project_symbol_id_base (as_i32 (pid + 1))"
  define db1 where "db1 = delete_symbol_rows lo hi db"
  define db2 where "db2 = sweep (db1\<lparr>sd_symbols := filter (\<lambda>s. sy_project_id s \<noteq> pid) (sd_symbols db1)\<rparr>)"
  have "shrinks db (db1\<lparr>sd_symbols := filter (\<lambda>s. sy_project_id s \<noteq> pid) (sd_symbols db1)\<rparr>)"
    using shrink_parts(1) [where db = db and P = "\<lambda>s. sy_project_id s \<noteq> pid"
        and Q = "\<lambda>i. \<not> in_id_range lo hi (in_symbol i)" and R = "\<lambda>r. \<not> in_id_range lo hi (rf_to_symbol r)"]
    by (simp add: db1_def delete_symbol_rows_def)
  note two = sweep_valid [OF ok this, folded db2_def]
  have "store_ok sha db2" "backed {} db2" using two by simp_all
  note three = sweep_valid [OF this shrink_parts(2) [of db2 "\<lambda>ob. ob_project_id ob \<noteq> pid"]]
  have "delete_project_data pid db = sweep (db2\<lparr>sd_objects := filter (\<lambda>ob. ob_project_id ob \<noteq> pid) (sd_objects db2)\<rparr>)"
    by (simp add: delete_project_data_def Let_def db2_def db1_def lo_def hi_def)
  then show ?thesis using two three seqs_le_trans by metis
qed

lemma owns_map: "owns db q l \<longleftrightarrow> (q, l) \<in> set (map (\<lambda>p. (pj_id p, pj_root_layer p)) (sd_projects db))"
  by (auto simp: owns_def)

lemma set_status_ok [simp]: "store_ok sha (set_status pid st db) = store_ok sha db" "backed H (set_status pid st db) = backed H db"
proof -
  have maps: "map pj_id (sd_projects (set_status pid st db)) = map pj_id (sd_projects db)"
    "map pj_name (sd_projects (set_status pid st db)) = map pj_name (sd_projects db)"
    "map pj_root_layer (sd_projects (set_status pid st db)) = map pj_root_layer (sd_projects db)"
    by (simp_all add: set_status_def)
  have owns: "owns (set_status pid st db) q l = owns db q l" for q l
  proof -
    have "map (\<lambda>p. (pj_id p, pj_root_layer p)) (sd_projects (set_status pid st db)) = map (\<lambda>p. (pj_id p, pj_root_layer p)) (sd_projects db)"
      by (simp add: set_status_def)
    then show ?thesis unfolding owns_map by (simp only:)
  qed
  have rest: "sd_layers (set_status pid st db) = sd_layers db" "sd_symbols (set_status pid st db) = sd_symbols db"
    "sd_objects (set_status pid st db) = sd_objects db" "sd_instances (set_status pid st db) = sd_instances db"
    "sd_refs (set_status pid st db) = sd_refs db" "sd_contents (set_status pid st db) = sd_contents db"
    "sd_object_contents (set_status pid st db) = sd_object_contents db"
    "sd_symbol_chunks (set_status pid st db) = sd_symbol_chunks db"
    "sd_object_chunks (set_status pid st db) = sd_object_chunks db" "sd_seqs (set_status pid st db) = sd_seqs db"
    by (simp_all add: set_status_def)
  have ball: "(\<forall>p\<in>set (sd_projects (set_status pid st db)). 0 < pj_id p \<and> pj_id p < n \<and> K (pj_root_layer p))
     = (\<forall>p\<in>set (sd_projects db). 0 < pj_id p \<and> pj_id p < n \<and> K (pj_root_layer p))" for n K
  proof -
    have pairs: "map (\<lambda>p. (pj_id p, pj_root_layer p)) (sd_projects (set_status pid st db)) = map (\<lambda>p. (pj_id p, pj_root_layer p)) (sd_projects db)"
      by (simp add: set_status_def)
    have all: "(\<forall>p\<in>set ps. 0 < pj_id p \<and> pj_id p < n \<and> K (pj_root_layer p)) \<longleftrightarrow>
        (\<forall>(i, r)\<in>set (map (\<lambda>p. (pj_id p, pj_root_layer p)) ps). 0 < i \<and> i < n \<and> K r)" for ps :: "store_project list"
      by auto
    show ?thesis unfolding all pairs ..
  qed
  have ids: "project_ids (set_status pid st db) = project_ids db" by (simp only: maps)
  have "projects_ok (set_status pid st db) = projects_ok db"
    unfolding projects_ok_def maps rest using ball [of _ "\<lambda>r. \<exists>l\<in>set (sd_layers db). lr_id l = r \<and> lr_kind l = Root"] by simp
  moreover have "layers_ok (set_status pid st db) = layers_ok db" by (simp add: layers_ok_def rest)
  moreover have "symbols_ok (set_status pid st db) = symbols_ok db" unfolding symbols_ok_def ids owns rest ..
  moreover have "objects_ok (set_status pid st db) = objects_ok db" unfolding objects_ok_def owns rest ..
  moreover have "rows_ok (set_status pid st db) = rows_ok db" unfolding rows_ok_def linked_def rest ..
  moreover have "chunks_ok (set_status pid st db) = chunks_ok db" unfolding chunks_ok_def ids rest ..
  moreover have "contents_ok sha (set_status pid st db) = contents_ok sha db" unfolding contents_ok_def rest ..
  ultimately show "store_ok sha (set_status pid st db) = store_ok sha db" by (simp add: store_ok_def)
  show "backed H (set_status pid st db) = backed H db" by (simp add: backed_def rest)
qed

lemma set_status_seqs [simp]: "seqs_le db (set_status pid st db)" by (simp add: seqs_le_def set_status_def)

end
