(* ===== verification/Upload_Rows.thy ===== *)
theory Upload_Rows
  imports Upload_Protocol
begin

text \<open>
  Inserts keep the store well formed: what the row builders return, the upsert of objects, the
  contents that back them, instances, references and new projects.
\<close>

subsection \<open>Symbol ids\<close>

lemma symbol_id_sum:
  assumes "0 \<le> l" "l < 2 ^ 32"
  shows "Bit_Operations.or (push_bit 32 p) l = p * 2 ^ 32 + (l :: int)"
proof -
  have "take_bit 32 l = l" using assms by (simp add: take_bit_int_eq_self)
  then have "Bit_Operations.or (push_bit 32 p) l = concat_bit 32 l p"
    by (simp add: concat_bit_def or.commute)
  also have "\<dots> = l + push_bit 32 p" using \<open>take_bit 32 l = l\<close> by (simp add: concat_bit_eq)
  finally show ?thesis by (simp add: push_bit_eq_mult)
qed

lemma compute_symbol_id_Inr:
  assumes "compute_symbol_id pid l = Inr i"
  shows "i = pid * 2 ^ 32 + l" "0 < pid" "0 \<le> l" "l < 2 ^ 32" "id_project i = pid" "0 < i"
proof -
  show c: "0 < pid" "0 \<le> l" "l < 2 ^ 32" using assms by (auto simp: compute_symbol_id_def split: if_splits)
  show i: "i = pid * 2 ^ 32 + l" using assms c symbol_id_sum [of l pid] by (auto simp: compute_symbol_id_def)
  show "id_project i = pid" unfolding i id_project_def using c by simp
  show "0 < i" unfolding i using c by (simp add: add_pos_nonneg)
qed

subsection \<open>Built symbols\<close>

definition built_symbol :: "int \<Rightarrow> int \<Rightarrow> symbol_row \<Rightarrow> bool" where
  "built_symbol pid root s \<longleftrightarrow> sy_project_id s = pid \<and> sy_layer s = root \<and> id_project (sy_id s) = pid \<and> 0 < sy_id s
     \<and> symbol_typed s"

lemma validate_symbol_type_Inr: "validate_symbol_type v = Inr t \<Longrightarrow> t \<in> {1..8}"
  unfolding validate_symbol_type_def validate_type_def symbol_type_defs by (auto split: if_splits)

lemma built_symbols:
  "build_symbols_from seen pid root ss = Inr rows \<Longrightarrow> \<forall>r\<in>set rows. built_symbol pid root r"
proof (induction seen pid root ss arbitrary: rows rule: build_symbols_from.induct)
  case (2 seen pid root s ss)
  obtain i ty where i: "compute_symbol_id pid (us_local_id s) = Inr i" and ty: "validate_symbol_type (us_type s) = Inr ty"
    using "2.prems" by (auto simp: rbind_Inr split: if_splits)
  obtain path leaf where pl: "symbol_path_and_leaf (us_name s) ty = (path, leaf)" by fastforce
  obtain more where more: "build_symbols_from (us_local_id s # seen) pid root ss = Inr more"
    and rows: "rows = \<lparr>sy_id = i, sy_name = us_name s, sy_path = path, sy_project_id = pid, sy_type = ty,
       sy_scope = (if us_scope s \<noteq> 0 then Some (us_scope s) else None), sy_leaf_name = leaf, sy_layer = root\<rparr> # more"
    using "2.prems" i ty pl by (auto simp: rbind_Inr split: if_splits)
  have "\<forall>r\<in>set more. built_symbol pid root r"
    using "2.IH" [OF _ refl pl [symmetric] more] "2.prems" by (auto split: if_splits)
  moreover have "ty \<in> {1..8}" using ty by (rule validate_symbol_type_Inr)
  ultimately show ?case
    using compute_symbol_id_Inr [OF i] pl rows by (simp add: built_symbol_def symbol_typed_def)
qed simp

subsection \<open>What the inserts rely on\<close>

text \<open>The project still has its root layer.\<close>

abbreviation held :: "int \<Rightarrow> int \<Rightarrow> store_db \<Rightarrow> bool" where
  "held pid root db \<equiv> owns db pid root \<and> backed {} db"

lemma chunks_parts: "n > 0 \<Longrightarrow> set (concat (chunks n xs)) = set xs" "c \<in> set (chunks n xs) \<Longrightarrow> set c \<subseteq> set xs"
  "0 < n \<Longrightarrow> concat (chunks n xs) = xs"
proof -
  show concat: "concat (chunks n xs) = xs" if "0 < n" for n :: nat and xs :: "'a list"
    using that by (induction n xs rule: chunks.induct) (subst chunks.simps, auto)
  show "n > 0 \<Longrightarrow> set (concat (chunks n xs)) = set xs" using concat by simp
  show "c \<in> set (chunks n xs) \<Longrightarrow> set c \<subseteq> set xs"
  proof (induction n xs rule: chunks.induct)
    case (1 n xs)
    then show ?case
      by (subst (asm) (2) chunks.simps) (auto split: if_splits dest: in_set_takeD in_set_dropD)
  qed
qed

lemma insert_symbols_valid:
  assumes "\<forall>r\<in>set rows. built_symbol pid root r"
  shows "valid sha (held pid root) (insert_symbols rows) (\<lambda>_. held pid root)"
  unfolding valid_def
proof (intro allI impI, elim conjE)
  fix db assume ok: "store_ok sha db" "owns db pid root" "backed {} db"
  let ?db = "db\<lparr>sd_symbols := sd_symbols db @ rows\<rparr>"
  note own = owns_layer [OF ok(1,2)]
  have "store_ok sha ?db" if d: "distinct (map sy_id (sd_symbols db @ rows))"
  proof -
    have same_rows: "linked ?db a b l" if "linked db a b l" for a b l using that by (auto simp: linked_def)
    have owns: "owns ?db = owns db" by (intro ext) (simp add: owns_def)
    have new: "sy_project_id s \<in> project_ids db \<and> sy_layer s \<in> layer_ids db
        \<and> (if 0 < sy_layer s then owns db (sy_project_id s) (sy_layer s) \<and> id_project (sy_id s) = sy_project_id s \<and> symbol_typed s
           else sy_id s < 0)" if "s \<in> set rows" for s
      using assms that own ok(2) by (simp add: built_symbol_def)
    have "symbols_ok ?db"
      using ok(1) d new unfolding store_ok_def symbols_ok_def owns by (simp add: ball_Un)
    moreover have "rows_ok ?db" using ok(1) same_rows by (auto simp: store_ok_def rows_ok_def)
    moreover have "projects_ok ?db" "layers_ok ?db" "objects_ok ?db" "chunks_ok ?db" "contents_ok sha ?db"
      using ok(1) unfolding store_ok_defs owns by simp_all
    ultimately show ?thesis by (simp add: store_ok_def)
  qed
  then show "seqs_le db (snd (insert_symbols rows db)) \<and> (\<forall>a. fst (insert_symbols rows db) = Inr a \<longrightarrow>
      store_ok sha (snd (insert_symbols rows db)) \<and> held pid root (snd (insert_symbols rows db)))"
    using ok(2,3) by (auto simp: insert_symbols_def seqs_le_def owns_def backed_def)
qed


subsection \<open>Objects\<close>

definition stored_object :: "int \<Rightarrow> int \<Rightarrow> int \<Rightarrow> store_db \<Rightarrow> bool" where
  "stored_object pid root i db \<longleftrightarrow> (\<exists>ob\<in>set (sd_objects db). ob_id ob = i \<and> ob_project_id ob = pid \<and> ob_layer ob = root)"

definition built_row :: "int \<Rightarrow> int \<Rightarrow> object_row \<Rightarrow> bool" where
  "built_row pid root r \<longleftrightarrow> ob_project_id r = pid \<and> ob_layer r = root \<and> object_typed r"

definition built_object :: "sha \<Rightarrow> int \<Rightarrow> int \<Rightarrow> object_insert \<Rightarrow> bool" where
  "built_object sha pid root oi \<longleftrightarrow> built_row pid root (oi_row oi)
     \<and> (case oi_content oi of None \<Rightarrow> ob_content_hash (oi_row oi) \<noteq> []
        | Some c \<Rightarrow> ob_content_hash (oi_row oi) = hash_bytes sha c)"

lemma built_objects:
  "build_objects_from sha seen pid root obs = Inr rows \<Longrightarrow> \<forall>oi\<in>set rows. built_object sha pid root oi"
proof (induction obs arbitrary: seen rows)
  case (Cons ob obs)
  obtain path content hash more where path: "object_path ob = Inr path"
    and c: "object_content_hash sha ob = Inr (content, hash)"
    and more: "build_objects_from sha (uo_local_id ob # seen) pid root obs = Inr more"
    and rows: "rows = \<lparr>oi_local_id = uo_local_id ob, oi_content = content,
       oi_row = \<lparr>ob_id = 0, ob_project_id = pid, ob_module_path = uo_module_path ob, ob_filesystem_path = path,
         ob_filetype = uo_filetype ob, ob_content_hash = hash, ob_layer = root\<rparr>\<rparr> # more"
    using Cons.prems by (auto simp: rbind_Inr split: if_splits)
  obtain raw where "path = normalize_full_path raw" "starts_with_slash raw"
    using path by (auto simp: object_path_def Let_def split: if_splits)
  then have "starts_with_slash path" "normalize_full_path path = path"
    using normalize_absolute normalize_idem by simp_all
  moreover have "case content of None \<Rightarrow> hash \<noteq> [] | Some c \<Rightarrow> hash = hash_bytes sha c"
    using c by (auto simp: object_content_hash_def Let_def split: if_splits)
  ultimately show ?case
    using Cons.IH [OF more] rows by (cases content) (simp_all add: built_object_def built_row_def object_typed_def)
qed simp

text \<open>
  The state of an object chunk: the root layer is there, the objects \<open>A\<close> are stored, the
  contents \<open>K\<close> are stored, and only objects with a hash in \<open>H\<close> may lack their content.
\<close>

definition chunk_state :: "int \<Rightarrow> int \<Rightarrow> string set \<Rightarrow> string set \<Rightarrow> int set \<Rightarrow> store_db \<Rightarrow> bool" where
  "chunk_state pid root K H A db \<longleftrightarrow> owns db pid root \<and> K \<subseteq> fst ` set (sd_contents db) \<and> backed H db
     \<and> (\<forall>i\<in>A. stored_object pid root i db)"

lemma valid_smap_collect:
  assumes "\<And>x A. x \<in> set xs \<Longrightarrow> valid sha (I A) (f x) (\<lambda>a. I (insert a A))"
  shows "valid sha (I A) (smap f xs) (\<lambda>ys. I (A \<union> set ys))"
  using assms
proof (induction xs arbitrary: A)
  case Nil
  then show ?case by auto
next
  case (Cons x xs)
  have tail: "valid sha (I B) (smap f xs) (\<lambda>ys. I (B \<union> set ys))" for B using Cons by simp
  have head: "valid sha (I A) (f x) (\<lambda>a. I (insert a A))" using Cons.prems by simp
  show ?case
    unfolding smap.simps
    by (rule valid_bind [OF head], rule valid_bind [OF tail]) (auto simp: Un_commute)
qed

lemma upsert_new_ok:
  assumes ok: "store_ok sha db" and own: "owns db pid root" and row: "built_row pid root row"
    and new: "List.find (same_place row) (sd_objects db) = None"
  shows "store_ok sha (db\<lparr>sd_seqs := (sd_seqs db)\<lparr>sq_object := sq_object (sd_seqs db) + 1\<rparr>,
    sd_objects := sd_objects db @ [row\<lparr>ob_id := sq_object (sd_seqs db)\<rparr>]\<rparr>)"
proof -
  let ?db = "db\<lparr>sd_seqs := (sd_seqs db)\<lparr>sq_object := sq_object (sd_seqs db) + 1\<rparr>,
    sd_objects := sd_objects db @ [row\<lparr>ob_id := sq_object (sd_seqs db)\<rparr>]\<rparr>"
  have owns: "owns ?db = owns db" by (intro ext) (simp add: owns_def)
  have fresh: "\<forall>ob\<in>set (sd_objects db). ob_id ob < sq_object (sd_seqs db)"
    using ok by (simp add: store_ok_def objects_ok_def)
  have place: "object_place row \<notin> object_place ` set (sd_objects db)"
    using new by (auto simp: find_None_iff same_place_def object_place_def)
  have "objects_ok ?db"
    using ok own row fresh place unfolding store_ok_def objects_ok_def owns
    by (auto simp: object_place_def built_row_def object_typed_def)
  moreover have "rows_ok ?db"
  proof -
    have "linked ?db a b l" if "linked db a b l" for a b l using that by (auto simp: linked_def)
    then show ?thesis using ok by (auto simp: store_ok_def rows_ok_def)
  qed
  moreover have "projects_ok ?db" "layers_ok ?db" "symbols_ok ?db" "contents_ok sha ?db"
    using ok unfolding store_ok_defs owns by simp_all
  moreover have "chunks_ok ?db" using ok by (auto simp: store_ok_def chunks_ok_def)
  ultimately show ?thesis by (simp add: store_ok_def)
qed


text \<open>On a conflict the row keeps its id, project and path, and its layer is the project's.\<close>

definition overwrite :: "object_row \<Rightarrow> object_row \<Rightarrow> object_row \<Rightarrow> object_row" where
  "overwrite old row ob =
     (if ob_id ob = ob_id old
      then ob\<lparr>ob_content_hash := ob_content_hash row, ob_filetype := ob_filetype row,
              ob_module_path := ob_module_path row, ob_layer := ob_layer row\<rparr> else ob)"

lemma overwrite_keeps:
  assumes ok: "store_ok sha db" and own: "owns db pid root" and row: "built_row pid root row"
    and old: "old \<in> set (sd_objects db)" "same_place row old" and ob: "ob \<in> set (sd_objects db)"
  shows "ob_id (overwrite old row ob) = ob_id ob \<and> ob_project_id (overwrite old row ob) = ob_project_id ob
    \<and> ob_layer (overwrite old row ob) = ob_layer ob \<and> ob_filesystem_path (overwrite old row ob) = ob_filesystem_path ob"
proof (cases "ob_id ob = ob_id old")
  case True
  have "ob = old" using True ob old(1) ok by (auto simp: store_ok_def objects_ok_def distinct_map dest: inj_onD)
  moreover have "owns db (ob_project_id old) (ob_layer old)" using ok old(1) by (simp add: store_ok_def objects_ok_def)
  moreover have "ob_project_id old = pid" using old(2) row by (simp add: same_place_def built_row_def)
  ultimately have "ob_layer ob = root" using owns_unique [OF ok _ own] by simp
  then show ?thesis using True row by (simp add: overwrite_def built_row_def)
qed (simp add: overwrite_def)

lemma upsert_old_ok:
  assumes ok: "store_ok sha db" and own: "owns db pid root" and row: "built_row pid root row"
    and old: "old \<in> set (sd_objects db)" "same_place row old" and more: "seqs_le db (db\<lparr>sd_seqs := sq\<rparr>)"
  shows "store_ok sha (db\<lparr>sd_seqs := sq, sd_objects := map (overwrite old row) (sd_objects db)\<rparr>)"
proof -
  let ?db = "db\<lparr>sd_seqs := sq, sd_objects := map (overwrite old row) (sd_objects db)\<rparr>"
  note keep = overwrite_keeps [OF ok own row old]
  have ids: "map ob_id (sd_objects ?db) = map ob_id (sd_objects db)"
    and places: "map object_place (sd_objects ?db) = map object_place (sd_objects db)"
    using keep by (simp_all add: object_place_def)
  have oids: "object_ids ?db = object_ids db" by (simp only: ids)
  have owns: "owns ?db = owns db" by (intro ext) (simp add: owns_def)
  have "objects_ok ?db"
    unfolding objects_ok_def
  proof (intro conjI ballI)
    show "distinct (map ob_id (sd_objects ?db))" "distinct (map object_place (sd_objects ?db))"
      unfolding ids places using ok by (simp_all add: store_ok_def objects_ok_def)
    fix ob assume "ob \<in> set (sd_objects ?db)"
    then obtain b where b: "b \<in> set (sd_objects db)" "ob = overwrite old row b" by auto
    then show "ob_id ob < sq_object (sd_seqs ?db)" "owns ?db (ob_project_id ob) (ob_layer ob)" "object_typed ob"
      using ok keep [OF b(1)] more unfolding owns store_ok_def objects_ok_def
      by (auto simp: object_typed_def seqs_le_def)
  qed
  moreover have "rows_ok ?db"
  proof -
    have "linked ?db a b l" if "linked db a b l" for a b l
    proof -
      have "\<exists>ob\<in>set (sd_objects ?db). ob_id ob = b \<and> ob_layer ob = l \<and> ob_project_id ob = id_project a"
        if "\<exists>ob\<in>set (sd_objects db). ob_id ob = b \<and> ob_layer ob = l \<and> ob_project_id ob = id_project a"
        using that keep by fastforce
      then show ?thesis using that oids unfolding linked_def by auto
    qed
    then show ?thesis using ok by (auto simp: store_ok_def rows_ok_def)
  qed
  moreover have "chunks_ok ?db" unfolding chunks_ok_def oids using ok by (simp add: store_ok_def chunks_ok_def)
  moreover have "projects_ok ?db" "layers_ok ?db" "symbols_ok ?db" "contents_ok sha ?db"
    using ok more unfolding store_ok_defs owns by (fastforce simp: seqs_le_def)+
  ultimately show ?thesis by (simp add: store_ok_def)
qed

lemma chunk_state_stored:
  assumes "chunk_state pid root K H A db" "sd_projects db' = sd_projects db" "sd_contents db' = sd_contents db"
    and "\<forall>ob\<in>set (sd_objects db'). ob_content_hash ob \<in> fst ` set (sd_contents db) \<union> H"
    and "\<forall>i\<in>A. stored_object pid root i db \<longrightarrow> stored_object pid root i db'" "\<forall>i\<in>B. stored_object pid root i db'"
  shows "chunk_state pid root K H (A \<union> B) db'"
  using assms by (auto simp: chunk_state_def owns_def backed_def)

lemma upsert_object_valid:
  assumes row: "built_row pid root row" "ob_content_hash row \<in> H"
  shows "valid sha (chunk_state pid root K H A) (upsert_object row) (\<lambda>i. chunk_state pid root K H (insert i A))"
  unfolding valid_def
proof (intro allI impI, elim conjE)
  fix db assume ok: "store_ok sha db" and st: "chunk_state pid root K H A db"
  have own: "owns db pid root" and bk: "backed H db" using st by (simp_all add: chunk_state_def)
  define sq where "sq = (sd_seqs db)\<lparr>sq_object := sq_object (sd_seqs db) + 1\<rparr>"
  have more: "seqs_le db (db\<lparr>sd_seqs := sq\<rparr>)" by (simp add: seqs_le_def sq_def)
  show "seqs_le db (snd (upsert_object row db)) \<and> (\<forall>i. fst (upsert_object row db) = Inr i \<longrightarrow>
      store_ok sha (snd (upsert_object row db)) \<and> chunk_state pid root K H (insert i A) (snd (upsert_object row db)))"
  proof (cases "List.find (same_place row) (sd_objects db)")
    case None
    let ?db = "db\<lparr>sd_seqs := sq, sd_objects := sd_objects db @ [row\<lparr>ob_id := sq_object (sd_seqs db)\<rparr>]\<rparr>"
    have run: "upsert_object row db = (Inr (sq_object (sd_seqs db)), ?db)"
      using None by (simp add: upsert_object_def Let_def sq_def)
    have "store_ok sha ?db" using upsert_new_ok [OF ok own row(1) None] by (simp add: sq_def)
    moreover have "chunk_state pid root K H (A \<union> {sq_object (sd_seqs db)}) ?db"
      using bk row by (intro chunk_state_stored [OF st]) (auto simp: backed_def stored_object_def built_row_def)
    ultimately show ?thesis using run more by (simp add: seqs_le_def)
  next
    case (Some old)
    then have old: "old \<in> set (sd_objects db)" "same_place row old" by (auto simp: find_Some_iff)
    let ?db = "db\<lparr>sd_seqs := sq, sd_objects := map (overwrite old row) (sd_objects db)\<rparr>"
    have run: "upsert_object row db = (Inr (ob_id old), ?db)"
      using Some by (simp add: upsert_object_def Let_def sq_def overwrite_def [abs_def])
    note keep = overwrite_keeps [OF ok own row(1) old]
    have stay: "stored_object pid root i ?db" if "stored_object pid root i db" for i
      using that keep by (fastforce simp: stored_object_def)
    have "owns db (ob_project_id old) (ob_layer old)" using ok old(1) by (simp add: store_ok_def objects_ok_def)
    moreover have "ob_project_id old = pid" using old(2) row(1) by (simp add: same_place_def built_row_def)
    ultimately have "stored_object pid root (ob_id old) db"
      using old(1) owns_unique [OF ok _ own] by (auto simp: stored_object_def)
    then have "chunk_state pid root K H (A \<union> {ob_id old}) ?db"
      using bk row(2) stay by (intro chunk_state_stored [OF st]) (auto simp: backed_def overwrite_def)
    then show ?thesis using run more upsert_old_ok [OF ok own row(1) old more] by (simp add: seqs_le_def)
  qed
qed


lemma upsert_objects_valid:
  assumes "\<forall>r\<in>set rows. built_row pid root r \<and> ob_content_hash r \<in> H"
  shows "valid sha (chunk_state pid root K H A) (upsert_objects rows) (\<lambda>is. chunk_state pid root K H (A \<union> set is))"
proof -
  have "valid sha (chunk_state pid root K H A) (smap upsert_object rows) (\<lambda>is. chunk_state pid root K H (A \<union> set is))"
    by (rule valid_smap_collect) (use assms upsert_object_valid in blast)
  then show ?thesis unfolding valid_def upsert_objects_def by auto
qed

subsection \<open>Contents\<close>

lemma add_contents_props:
  "add_contents rows store = (n, store') \<Longrightarrow>
   fst ` set store' = fst ` set store \<union> fst ` set rows \<and> set store' \<subseteq> set store \<union> set rows
   \<and> (distinct (map fst store) \<longrightarrow> distinct (map fst store')) \<and> set store \<subseteq> set store'"
proof (induction rows store arbitrary: n store' rule: add_contents.induct)
  case (2 h c rows store)
  show ?case
  proof (cases "h \<in> fst ` set store")
    case True
    then have "add_contents rows store = (n, store')" using "2.prems" by simp
    from "2.IH"(1) [OF True this] show ?thesis using True by auto
  next
    case False
    obtain m st where m: "add_contents rows (store @ [(h, c)]) = (m, st)" by fastforce
    then have "store' = st" using "2.prems" False by simp
    then show ?thesis using "2.IH"(2) [OF False m] False by (auto simp: image_iff)
  qed
qed simp

definition honest :: "sha \<Rightarrow> (string \<times> byte list) list \<Rightarrow> bool" where
  "honest sha rows \<longleftrightarrow> (\<forall>(h, c)\<in>set rows. hash_bytes sha c = trim h)"

definition with_contents :: "(string \<times> byte list) list \<Rightarrow> store_db \<Rightarrow> store_db" where
  "with_contents rows db = db\<lparr>sd_contents := snd (add_contents rows (sd_contents db))\<rparr>"

lemma insert_contents_eq: "insert_contents rows db = (Inr (fst (add_contents rows (sd_contents db))), with_contents rows db)"
  by (simp add: insert_contents_def with_contents_def split: prod.split)

lemma with_contents_ok:
  assumes ok: "store_ok sha db" and rows: "honest sha rows"
  shows "store_ok sha (with_contents rows db)"
    and "fst ` set (sd_contents (with_contents rows db)) = fst ` set (sd_contents db) \<union> fst ` set rows"
    and "seqs_le db (with_contents rows db)"
proof -
  define store where "store = snd (add_contents rows (sd_contents db))"
  note p = add_contents_props [of rows "sd_contents db" "fst (add_contents rows (sd_contents db))" store]
  have keys: "fst ` set store = fst ` set (sd_contents db) \<union> fst ` set rows"
    and sub: "set store \<subseteq> set (sd_contents db) \<union> set rows"
    and dist: "distinct (map fst (sd_contents db)) \<longrightarrow> distinct (map fst store)"
    using p by (simp_all add: store_def)
  have "hash_bytes sha (snd x) = trim (fst x)" if "x \<in> set (sd_contents db) \<union> set rows" for x
    using that ok rows by (auto simp: store_ok_def contents_ok_def honest_def)
  then have "contents_ok sha (db\<lparr>sd_contents := store\<rparr>)"
    using sub dist ok unfolding contents_ok_def by (auto simp: store_ok_def contents_ok_def)
  moreover have "owns (db\<lparr>sd_contents := store\<rparr>) = owns db" by (intro ext) (simp add: owns_def)
  ultimately show "store_ok sha (with_contents rows db)"
    using ok unfolding with_contents_def store_def [symmetric] store_ok_def projects_ok_def layers_ok_def symbols_ok_def
      objects_ok_def rows_ok_def chunks_ok_def
    by (simp add: linked_def)
  show "fst ` set (sd_contents (with_contents rows db)) = fst ` set (sd_contents db) \<union> fst ` set rows"
    using keys by (simp add: with_contents_def store_def)
  show "seqs_le db (with_contents rows db)" by (simp add: with_contents_def seqs_le_def)
qed

lemma insert_contents_keeps:
  assumes "honest sha rows"
  shows "keeps sha (insert_contents rows)"
  unfolding valid_def insert_contents_eq
proof (intro allI impI, elim conjE)
  fix db assume ok: "store_ok sha db" "backed {} db"
  note w = with_contents_ok [OF ok(1) assms]
  have "sd_objects (with_contents rows db) = sd_objects db" by (simp add: with_contents_def)
  then have "backed {} (with_contents rows db)" using ok(2) w(2) by (auto simp: backed_def)
  then show "seqs_le db (snd (Inr (fst (add_contents rows (sd_contents db))), with_contents rows db))
     \<and> (\<forall>a. fst (Inr (fst (add_contents rows (sd_contents db))), with_contents rows db) = Inr a \<longrightarrow>
        store_ok sha (snd (Inr (fst (add_contents rows (sd_contents db))), with_contents rows db))
        \<and> backed {} (snd (Inr (fst (add_contents rows (sd_contents db))), with_contents rows db)))"
    using w by simp
qed

lemma upload_contents_honest:
  assumes "collect_results (map (content_row sha) cs) = Inr rows"
  shows "honest sha rows"
proof -
  have "map Inr rows = map (content_row sha) cs" using assms by (simp add: collect_results_Inr_iff)
  then have from_row: "x \<in> set rows \<Longrightarrow> \<exists>e. content_row sha e = Inr x" for x
    by (metis image_iff list.set_map)
  show ?thesis
    unfolding honest_def using from_row by (fastforce simp: content_row_def Let_def split: if_splits)
qed

text \<open>One chunk of objects: upsert, then store what came along.\<close>

lemma set_content_rows:
  "set (content_rows inserts) = {(ob_content_hash (oi_row oi), c) | oi c. oi \<in> set inserts \<and> oi_content oi = Some c}"
proof -
  have "set (somes (map f xs)) = {y. \<exists>x\<in>set xs. f x = Some y}" for f :: "object_insert \<Rightarrow> (string \<times> byte list) option" and xs
    by (force simp: set_somes image_iff)
  then show ?thesis unfolding content_rows_def by auto
qed

lemma insert_object_chunk_valid:
  assumes built: "\<forall>oi\<in>set inserts. built_object sha pid root oi"
    and known: "\<forall>oi\<in>set inserts. oi_content oi = None \<longrightarrow> ob_content_hash (oi_row oi) \<in> K"
  shows "valid sha (chunk_state pid root K {} A) (insert_object_chunk inserts)
    (\<lambda>m. chunk_state pid root K {} (A \<union> snd ` set m))"
proof -
  define H where "H = (\<lambda>oi. ob_content_hash (oi_row oi)) ` set inserts"
  let ?contents = "\<lambda>_ :: int list. (if content_rows inserts = [] then sreturn 0 else insert_contents (content_rows inserts)) :: (upload_error, nat) store_step"
  have rows: "honest sha (content_rows inserts)"
    using built by (fastforce simp: honest_def set_content_rows built_object_def)
  have covered: "H \<subseteq> fst ` set (content_rows inserts) \<union> K"
  proof
    fix h assume "h \<in> H"
    then obtain oi where oi: "oi \<in> set inserts" "h = ob_content_hash (oi_row oi)" by (auto simp: H_def)
    show "h \<in> fst ` set (content_rows inserts) \<union> K"
    proof (cases "oi_content oi")
      case None
      then show ?thesis using known oi by simp
    next
      case (Some c)
      then have "(h, c) \<in> set (content_rows inserts)" using oi by (auto simp: set_content_rows)
      then show ?thesis by force
    qed
  qed
  have first: "valid sha (chunk_state pid root K {} A) (upsert_objects (map oi_row inserts))
      (\<lambda>is. chunk_state pid root K H (A \<union> set is))"
    by (rule valid_conseq [OF upsert_objects_valid [where H = H]])
      (use built in \<open>auto simp: built_object_def H_def chunk_state_def backed_def\<close>)
  have second: "valid sha (chunk_state pid root K H B) (?contents is) (\<lambda>_. chunk_state pid root K {} B)" for B and "is" :: "int list"
    unfolding valid_def
  proof (intro allI impI, elim conjE)
    fix db assume ok: "store_ok sha db" and st: "chunk_state pid root K H B db"
    note w = with_contents_ok [OF ok rows]
    have K: "K \<subseteq> fst ` set (sd_contents db)" and bk: "backed H db" using st by (simp_all add: chunk_state_def)
    have stay: "sd_objects (with_contents (content_rows inserts) db) = sd_objects db"
      "owns (with_contents (content_rows inserts) db) = owns db"
      by (auto simp: with_contents_def owns_def fun_eq_iff)
    have "backed {} (with_contents (content_rows inserts) db)"
      using bk covered K unfolding backed_def stay w(2) by blast
    then have all: "chunk_state pid root K {} B (with_contents (content_rows inserts) db)"
      using st K unfolding chunk_state_def stored_object_def stay w(2) by blast
    have none: "chunk_state pid root K {} B db" if "content_rows inserts = []"
    proof -
      have "H \<subseteq> K" using covered that by simp
      then have "backed {} db" using bk K unfolding backed_def by blast
      then show ?thesis using st unfolding chunk_state_def by blast
    qed
    show "seqs_le db (snd (?contents is db)) \<and> (\<forall>a. fst (?contents is db) = Inr a \<longrightarrow>
        store_ok sha (snd (?contents is db)) \<and> chunk_state pid root K {} B (snd (?contents is db)))"
    proof (cases "content_rows inserts = []")
      case True
      then show ?thesis using ok none by (simp add: sreturn_def)
    next
      case False
      then show ?thesis using w all by (simp add: insert_contents_eq)
    qed
  qed
  show ?thesis
    unfolding insert_object_chunk_def
    by (rule valid_bind [OF first], rule valid_bind [OF second], rule valid_return)
      (auto simp: chunk_state_def dest: set_zip_rightD)
qed


lemma chunk_state_Un: "(\<forall>i\<in>A. chunk_state pid root K H {i} db) \<Longrightarrow> chunk_state pid root K H {} db \<Longrightarrow> chunk_state pid root K H A db"
  by (auto simp: chunk_state_def)

lemma valid_smap_maps:
  assumes "\<And>x A. x \<in> set xs \<Longrightarrow> valid sha (I A) (f x) (\<lambda>m. I (A \<union> snd ` set m))"
  shows "valid sha (I A) (smap f xs) (\<lambda>ms. I (A \<union> snd ` set (concat ms)))"
  using assms
proof (induction xs arbitrary: A)
  case Nil
  then show ?case by auto
next
  case (Cons x xs)
  have tail: "valid sha (I B) (smap f xs) (\<lambda>ms. I (B \<union> snd ` set (concat ms)))" for B using Cons by simp
  have head: "valid sha (I A) (f x) (\<lambda>m. I (A \<union> snd ` set m))" using Cons.prems by simp
  show ?case
    unfolding smap.simps
    by (rule valid_bind [OF head], rule valid_bind [OF tail], rule valid_return) (simp add: image_Un Un_assoc)
qed

lemma ran_map_of: "ran (map_of xs) \<subseteq> snd ` set xs"
  by (auto simp: ran_def dest: map_of_SomeD intro: rev_image_eqI)

lemma insert_objects_valid:
  assumes built: "\<forall>oi\<in>set inserts. built_object sha pid root oi"
    and known: "\<forall>oi\<in>set inserts. oi_content oi = None \<longrightarrow> ob_content_hash (oi_row oi) \<in> K"
  shows "valid sha (chunk_state pid root K {} {}) (insert_objects inserts) (\<lambda>m. chunk_state pid root K {} (ran m))"
proof -
  have part: "valid sha (chunk_state pid root K {} A) (insert_object_chunk c) (\<lambda>m. chunk_state pid root K {} (A \<union> snd ` set m))"
    if "c \<in> set (chunks MAX_INSERT_ROWS inserts)" for c A
    by (rule insert_object_chunk_valid) (use chunks_parts(2) [OF that] assms in blast)+
  have all: "valid sha (chunk_state pid root K {} {}) (smap insert_object_chunk (chunks MAX_INSERT_ROWS inserts))
      (\<lambda>ms. chunk_state pid root K {} ({} \<union> snd ` set (concat ms)))"
    by (rule valid_smap_maps) (rule part)
  show ?thesis
    unfolding insert_objects_def
    by (rule valid_bind [OF all], rule valid_return)
      (use ran_map_of in \<open>fastforce simp: chunk_state_def\<close>)
qed

subsection \<open>Instances and references\<close>

definition built_instance :: "int \<Rightarrow> int \<Rightarrow> int set \<Rightarrow> instance_row \<Rightarrow> bool" where
  "built_instance pid root A i \<longleftrightarrow> in_object_id i \<in> A \<and> in_layer i = root \<and> id_project (in_symbol i) = pid \<and> 0 < in_symbol i
     \<and> in_type i \<in> {1..10}"

definition built_ref :: "int \<Rightarrow> int \<Rightarrow> int set \<Rightarrow> ref_row \<Rightarrow> bool" where
  "built_ref pid root A r \<longleftrightarrow> rf_from_object r \<in> A \<and> rf_layer r = root \<and> id_project (rf_to_symbol r) = pid \<and> 0 < rf_to_symbol r"

lemma build_rows_all:
  assumes "build_rows m rows_of obs = Inr rows"
    and "\<And>oid ob r. oid \<in> ran m \<Longrightarrow> Inr r \<in> set (rows_of oid ob) \<Longrightarrow> P r"
  shows "\<forall>r\<in>set rows. P r"
  using assms(1)
proof (induction obs arbitrary: rows)
  case (Cons ob obs)
  obtain oid here more where oid: "resolve_object_id m (uo_local_id ob) = Inr oid"
    and here: "collect_results (rows_of oid ob) = Inr here" and more: "build_rows m rows_of obs = Inr more"
    and rows: "rows = here @ more"
    using Cons.prems by (auto simp: rbind_Inr)
  have "oid \<in> ran m" using oid by (auto simp: resolve_object_id_def ran_def split: option.splits)
  moreover have "rows_of oid ob = map Inr here" using here by (simp add: collect_results_Inr_iff)
  ultimately have "\<forall>r\<in>set here. P r" using assms(2) [of oid _ ob] by auto
  then show ?case using Cons.IH [OF more] rows by auto
qed simp

lemma built_instances:
  assumes "build_symbol_instances pid root obs m = Inr rows"
  shows "\<forall>r\<in>set rows. built_instance pid root (ran m) r"
  using assms unfolding build_symbol_instances_def
proof (rule build_rows_all)
  fix oid ob r assume oid: "oid \<in> ran m" and "Inr r \<in> set (map (build_instance pid root oid) (uo_instances ob))"
  then obtain i where i: "build_instance pid root oid i = Inr r" by force
  obtain sid ty where sid: "compute_symbol_id pid (ui_symbol i) = Inr sid"
    and ty: "(if ui_type i \<noteq> 0 then validate_instance_type (ui_type i) else Inr INSTANCE_TYPE_DEFINITION) = Inr ty"
    and r: "r = \<lparr>in_id = 0, in_symbol = sid, in_object_id = oid, in_range = (Included (ui_start i), Excluded (ui_end i)),
          in_type = ty, in_layer = root\<rparr>"
    using i by (auto simp: build_instance_def rbind_Inr)
  have "ty \<in> {1..10}" using ty
    by (auto simp: validate_instance_type_def validate_type_def INSTANCE_TYPE_DEFINITION_def split: if_splits)
  then show "built_instance pid root (ran m) r" using oid compute_symbol_id_Inr [OF sid] r by (simp add: built_instance_def)
qed

lemma built_refs:
  assumes "build_symbol_refs pid root obs m = Inr rows"
  shows "\<forall>r\<in>set rows. built_ref pid root (ran m) r"
  using assms unfolding build_symbol_refs_def
proof (rule build_rows_all)
  fix oid ob r assume oid: "oid \<in> ran m" and "Inr r \<in> set (map (build_ref pid root oid) (uo_refs ob))"
  then obtain x where x: "build_ref pid root oid x = Inr r" by force
  obtain sid where sid: "compute_symbol_id pid (ur_symbol x) = Inr sid"
    and r: "r = \<lparr>rf_id = 0, rf_to_symbol = sid, rf_from_object = oid,
          rf_from_range = (Included (ur_start x), Excluded (ur_end x)), rf_layer = root\<rparr>"
    using x by (auto simp: build_ref_def rbind_Inr)
  then show "built_ref pid root (ran m) r" using oid compute_symbol_id_Inr [OF sid] by (simp add: built_ref_def)
qed

lemma chunk_state_linked:
  assumes ok: "store_ok sha db" and st: "chunk_state pid root K {} A db" and "oid \<in> A" "id_project sid = pid" "0 < sid"
    "sid \<in> symbol_ids db"
  shows "linked db sid oid root"
proof -
  have own: "owns db pid root" and "stored_object pid root oid db" using st assms(3) by (auto simp: chunk_state_def)
  then show ?thesis using assms owns_layer [OF ok own] by (force simp: linked_def stored_object_def)
qed

lemma insert_instance_valid:
  assumes "built_instance pid root A row"
  shows "valid sha (chunk_state pid root K {} A) (insert_instance row) (\<lambda>_. chunk_state pid root K {} A)"
  unfolding valid_def
proof (intro allI impI, elim conjE)
  fix db assume ok: "store_ok sha db" and st: "chunk_state pid root K {} A db"
  define db1 where "db1 = db\<lparr>sd_seqs := (sd_seqs db)\<lparr>sq_instance := sq_instance (sd_seqs db) + 1\<rparr>\<rparr>"
  have le: "seqs_le db db1" by (simp add: seqs_le_def db1_def)
  have ok1: "store_ok sha db1" unfolding db1_def by (rule store_ok_seqs_epoch [OF ok]) simp_all
  have st1: "chunk_state pid root K {} A db1"
    using st by (simp add: chunk_state_def db1_def owns_def backed_def stored_object_def)
  define new where "new = row\<lparr>in_id := sq_instance (sd_seqs db)\<rparr>"
  let ?db = "db1\<lparr>sd_instances := sd_instances db1 @ [new]\<rparr>"
  have added: "store_ok sha ?db"
    if "instance_key row \<notin> instance_key ` set (sd_instances db1)" "in_symbol row \<in> symbol_ids db1" "range_ok (in_range row)"
  proof -
    have "linked db1 (in_symbol row) (in_object_id row) root"
      by (rule chunk_state_linked [OF ok1 st1]) (use assms that in \<open>simp_all add: built_instance_def\<close>)
    moreover have "linked ?db = linked db1" by (auto simp: linked_def fun_eq_iff)
    moreover have "instance_key new = instance_key row" by (simp add: instance_key_def new_def)
    ultimately have "rows_ok ?db"
      using ok1 assms that unfolding store_ok_def rows_ok_def
      by (auto simp: built_instance_def new_def)
    moreover have "owns ?db = owns db1" by (auto simp: owns_def fun_eq_iff)
    ultimately show ?thesis
      using ok1 unfolding store_ok_def projects_ok_def layers_ok_def symbols_ok_def objects_ok_def chunks_ok_def contents_ok_def
      by simp
  qed
  have st2: "chunk_state pid root K {} A ?db"
    using st1 by (simp add: chunk_state_def owns_def backed_def stored_object_def)
  have key: "list_ex (\<lambda>i. in_symbol i = in_symbol row \<and> in_object_id i = in_object_id row
             \<and> range_norm (in_range i) = range_norm (in_range row) \<and> in_layer i = in_layer row) (sd_instances db)
       \<longleftrightarrow> instance_key row \<in> instance_key ` set (sd_instances db1)"
    by (auto simp: list_ex_iff instance_key_def image_iff db1_def eq_commute)
  have run: "insert_instance row db =
      (if \<not> range_ok (in_range row) then (Inl (Storage ''range lower bound must be less than or equal to range upper bound''), db1)
       else if instance_key row \<in> instance_key ` set (sd_instances db1) then (Inr (), db1)
       else if in_symbol row \<notin> symbol_ids db1 \<or> in_object_id row \<notin> object_ids db1 \<or> in_layer row \<notin> layer_ids db1
       then (Inl (Storage ''insert or update on table \"symbol_instances\" violates foreign key constraint''), db1)
       else (Inr (), ?db))"
    unfolding insert_instance_def Let_def key by (simp add: db1_def new_def)
  show "seqs_le db (snd (insert_instance row db)) \<and> (\<forall>a. fst (insert_instance row db) = Inr a \<longrightarrow>
      store_ok sha (snd (insert_instance row db)) \<and> chunk_state pid root K {} A (snd (insert_instance row db)))"
    unfolding run using le ok1 st1 st2 added by (simp add: seqs_le_def)
qed

lemma insert_ref_valid:
  assumes "built_ref pid root A row"
  shows "valid sha (chunk_state pid root K {} A) (insert_ref row) (\<lambda>_. chunk_state pid root K {} A)"
  unfolding valid_def
proof (intro allI impI, elim conjE)
  fix db assume ok: "store_ok sha db" and st: "chunk_state pid root K {} A db"
  define db1 where "db1 = db\<lparr>sd_seqs := (sd_seqs db)\<lparr>sq_ref := sq_ref (sd_seqs db) + 1\<rparr>\<rparr>"
  have le: "seqs_le db db1" by (simp add: seqs_le_def db1_def)
  have ok1: "store_ok sha db1" unfolding db1_def by (rule store_ok_seqs_epoch [OF ok]) simp_all
  have st1: "chunk_state pid root K {} A db1"
    using st by (simp add: chunk_state_def db1_def owns_def backed_def stored_object_def)
  define new where "new = row\<lparr>rf_id := sq_ref (sd_seqs db)\<rparr>"
  let ?db = "db1\<lparr>sd_refs := sd_refs db1 @ [new]\<rparr>"
  have added: "store_ok sha ?db"
    if "ref_key row \<notin> ref_key ` set (sd_refs db1)" "rf_to_symbol row \<in> symbol_ids db1" "range_ok (rf_from_range row)"
  proof -
    have "linked db1 (rf_to_symbol row) (rf_from_object row) root"
      by (rule chunk_state_linked [OF ok1 st1]) (use assms that in \<open>simp_all add: built_ref_def\<close>)
    moreover have "linked ?db = linked db1" by (auto simp: linked_def fun_eq_iff)
    moreover have "ref_key new = ref_key row" by (simp add: ref_key_def new_def)
    ultimately have "rows_ok ?db"
      using ok1 assms that unfolding store_ok_def rows_ok_def
      by (auto simp: built_ref_def new_def)
    moreover have "owns ?db = owns db1" by (auto simp: owns_def fun_eq_iff)
    ultimately show ?thesis
      using ok1 unfolding store_ok_def projects_ok_def layers_ok_def symbols_ok_def objects_ok_def chunks_ok_def contents_ok_def
      by simp
  qed
  have st2: "chunk_state pid root K {} A ?db"
    using st1 by (simp add: chunk_state_def owns_def backed_def stored_object_def)
  have key: "list_ex (\<lambda>r. rf_to_symbol r = rf_to_symbol row \<and> rf_from_object r = rf_from_object row
             \<and> range_norm (rf_from_range r) = range_norm (rf_from_range row) \<and> rf_layer r = rf_layer row) (sd_refs db)
       \<longleftrightarrow> ref_key row \<in> ref_key ` set (sd_refs db1)"
    by (auto simp: list_ex_iff ref_key_def image_iff db1_def eq_commute)
  have run: "insert_ref row db =
      (if \<not> range_ok (rf_from_range row) then (Inl (Storage ''range lower bound must be less than or equal to range upper bound''), db1)
       else if ref_key row \<in> ref_key ` set (sd_refs db1) then (Inr (), db1)
       else if rf_to_symbol row \<notin> symbol_ids db1 \<or> rf_from_object row \<notin> object_ids db1 \<or> rf_layer row \<notin> layer_ids db1
       then (Inl (Storage ''insert or update on table \"symbol_refs\" violates foreign key constraint''), db1)
       else (Inr (), ?db))"
    unfolding insert_ref_def Let_def key by (simp add: db1_def new_def)
  show "seqs_le db (snd (insert_ref row db)) \<and> (\<forall>a. fst (insert_ref row db) = Inr a \<longrightarrow>
      store_ok sha (snd (insert_ref row db)) \<and> chunk_state pid root K {} A (snd (insert_ref row db)))"
    unfolding run using le ok1 st1 st2 added by (simp add: seqs_le_def)
qed

subsection \<open>Chunks\<close>

lemma insert_rows_valid:
  assumes "\<And>r. r \<in> set rows \<Longrightarrow> valid sha P (f r) (\<lambda>_. P)"
  shows "valid sha P (sbind (smap (smap f) (chunks n rows)) (\<lambda>_. sreturn ())) (\<lambda>_. P)"
proof -
  have "valid sha P (smap (smap f) (chunks n rows)) (\<lambda>_. P)"
  proof (rule valid_smap, rule valid_smap)
    fix c r assume "c \<in> set (chunks n rows)" "r \<in> set c"
    then have "r \<in> set rows" using chunks_parts(2) by blast
    then show "valid sha P (f r) (\<lambda>_. P)" by (rule assms)
  qed
  then show ?thesis by (rule valid_bind) auto
qed

lemma root_layer_valid: "valid sha (backed {}) (root_layer_of pid) (\<lambda>root. held pid root)"
proof -
  have "find_project pid db = Some p \<Longrightarrow> owns db pid (pj_root_layer p)" for db p
    by (auto simp: find_project_def find_Some_iff owns_def)
  then show ?thesis by (auto simp: valid_def root_layer_of_def split: option.splits)
qed

lemma owns_chunks [simp]:
  "owns (db\<lparr>sd_symbol_chunks := c\<rparr>) = owns db" "owns (db\<lparr>sd_object_chunks := c\<rparr>) = owns db"
  "linked (db\<lparr>sd_symbol_chunks := c\<rparr>) = linked db" "linked (db\<lparr>sd_object_chunks := c\<rparr>) = linked db"
  by (auto simp: owns_def linked_def fun_eq_iff)

lemma claim_keeps:
  "keeps sha (claim_symbol_chunk pid seq)" "keeps sha (claim_object_chunk pid seq)"
proof -
  have ok: "store_ok sha (db\<lparr>sd_symbol_chunks := sd_symbol_chunks db @ [(pid, seq)]\<rparr>)"
    if "store_ok sha db" "(pid, seq) \<notin> set (sd_symbol_chunks db)" "find_project pid db \<noteq> None" for db
  proof -
    have "pid \<in> project_ids db" using that(3) by (auto simp: find_project_def find_None_iff)
    then show ?thesis using that(1,2) unfolding store_ok_defs by simp
  qed
  have ok2: "store_ok sha (db\<lparr>sd_object_chunks := sd_object_chunks db @ [(pid, seq)]\<rparr>)"
    if "store_ok sha db" "(pid, seq) \<notin> set (sd_object_chunks db)" "find_project pid db \<noteq> None" for db
  proof -
    have "pid \<in> project_ids db" using that(3) by (auto simp: find_project_def find_None_iff)
    then show ?thesis using that(1,2) unfolding store_ok_defs by simp
  qed
  show "keeps sha (claim_symbol_chunk pid seq)"
    using ok by (auto simp: valid_def claim_symbol_chunk_def seqs_le_def backed_def)
  show "keeps sha (claim_object_chunk pid seq)"
    using ok2 by (auto simp: valid_def claim_object_chunk_def seqs_le_def backed_def)
qed

lemma symbol_chunk_keeps:
  "keeps sha (sbind (root_layer_of pid) (\<lambda>root. sbind (slift (build_symbols pid root symbols)) (\<lambda>rows.
     sbind (smap insert_symbols (chunks MAX_SYMBOL_INSERT_ROWS rows)) (\<lambda>_. sreturn ()))))"
proof (rule valid_bind [OF root_layer_valid])
  fix root
  show "valid sha (held pid root) (sbind (slift (build_symbols pid root symbols)) (\<lambda>rows.
     sbind (smap insert_symbols (chunks MAX_SYMBOL_INSERT_ROWS rows)) (\<lambda>_. sreturn ()))) (\<lambda>_. backed {})"
  proof (cases "build_symbols pid root symbols")
    case (Inl e)
    then show ?thesis by (simp add: sbind_def slift_def valid_def)
  next
    case (Inr rows)
    have built: "\<forall>r\<in>set rows. built_symbol pid root r" using built_symbols Inr by (simp add: build_symbols_def)
    have "valid sha (held pid root) (smap insert_symbols (chunks MAX_SYMBOL_INSERT_ROWS rows)) (\<lambda>_. held pid root)"
      by (rule valid_smap, rule insert_symbols_valid) (use built chunks_parts(2) in blast)
    then have "valid sha (held pid root) (sbind (smap insert_symbols (chunks MAX_SYMBOL_INSERT_ROWS rows)) (\<lambda>_. sreturn ())) (\<lambda>_. backed {})"
      by (rule valid_bind) auto
    then show ?thesis using Inr by (simp add: sbind_def slift_def)
  qed
qed

end
