(* ===== verification/Upload_Properties.thy ===== *)
theory Upload_Properties
  imports Upload_Rows
begin

text \<open>
  The store is well formed in every reachable state, and what follows for clients: chunks are
  atomic and can be retried, an upload whose chunks all came can be finished, a deletion takes
  exactly one project away, and no change goes unnoticed by the result cache.
\<close>

subsection \<open>Every operation keeps the store well formed\<close>

lemma check_contents_valid:
  assumes "\<forall>oi\<in>set inserts. built_object sha pid root oi"
    and K: "K = (\<lambda>oi. ob_content_hash (oi_row oi)) ` {oi \<in> set inserts. oi_content oi = None}"
  shows "valid sha (held pid root) (check_contents inserts) (\<lambda>_. chunk_state pid root K {} {})"
proof -
  have "K \<subseteq> fst ` set (sd_contents db)" if "missing_contents inserts db = []" for db
  proof
    fix h assume "h \<in> K"
    then obtain oi where oi: "oi \<in> set inserts" "oi_content oi = None" "h = ob_content_hash (oi_row oi)" by (auto simp: K)
    then have "h \<noteq> []" using assms(1) by (auto simp: built_object_def split: option.splits)
    then show "h \<in> fst ` set (sd_contents db)"
      using that oi by (auto simp: missing_contents_def filter_empty_conv)
  qed
  then show ?thesis by (auto simp: valid_def check_contents_def Let_def chunk_state_def)
qed

lemma slift_bind_valid:
  assumes "\<And>a. r = Inr a \<Longrightarrow> valid sha P (f a) Q"
  shows "valid sha P (sbind (slift r) f) Q"
  using assms by (cases r) (auto simp: sbind_def slift_def valid_def)

lemma object_chunk_keeps: "keeps sha (do_upload_objects sha pid objects)"
  unfolding do_upload_objects_def
proof (rule valid_bind [OF root_layer_valid], rule slift_bind_valid)
  fix root inserts assume "build_objects sha pid root objects = Inr inserts"
  then have built: "\<forall>oi\<in>set inserts. built_object sha pid root oi" using built_objects by (simp add: build_objects_def)
  define K where "K = (\<lambda>oi. ob_content_hash (oi_row oi)) ` {oi \<in> set inserts. oi_content oi = None}"
  have last: "valid sha (chunk_state pid root K {} A) (insert_symbol_refs refs) (\<lambda>_. backed {})"
    if "\<forall>r\<in>set refs. built_ref pid root A r" for refs A
  proof -
    have "valid sha (chunk_state pid root K {} A) (insert_symbol_refs refs) (\<lambda>_. chunk_state pid root K {} A)"
      unfolding insert_symbol_refs_def by (rule insert_rows_valid) (use that insert_ref_valid in blast)
    then show ?thesis by (rule valid_conseq) (auto simp: chunk_state_def)
  qed
  have instances: "valid sha (chunk_state pid root K {} A) (insert_symbol_instances rows) (\<lambda>_. chunk_state pid root K {} A)"
    if "\<forall>r\<in>set rows. built_instance pid root A r" for rows A
    unfolding insert_symbol_instances_def by (rule insert_rows_valid) (use that insert_instance_valid in blast)
  show "valid sha (held pid root)
     (sbind (check_contents inserts) (\<lambda>_.
      sbind (insert_objects inserts) (\<lambda>object_map.
      sbind (slift (build_symbol_instances pid root objects object_map)) (\<lambda>instances.
      sbind (insert_symbol_instances instances) (\<lambda>_.
      sbind (slift (build_symbol_refs pid root objects object_map)) (\<lambda>refs.
      insert_symbol_refs refs)))))) (\<lambda>_. backed {})"
  proof (rule valid_bind [OF check_contents_valid [OF built K_def]], rule valid_bind [OF insert_objects_valid [OF built]],
      simp add: K_def, rule slift_bind_valid)
    fix m rows assume "build_symbol_instances pid root objects m = Inr rows"
    note rows = instances [OF built_instances [OF this]]
    show "valid sha (chunk_state pid root K {} (ran m)) (sbind (insert_symbol_instances rows) (\<lambda>_.
       sbind (slift (build_symbol_refs pid root objects m)) (\<lambda>refs. insert_symbol_refs refs))) (\<lambda>_. backed {})"
      by (rule valid_bind [OF rows], rule slift_bind_valid, rule last [OF built_refs])
  qed
qed

lemma insert_project_keeps: "keeps sha (insert_project now h name path st ot)"
  unfolding valid_def
proof (intro allI impI, elim conjE)
  fix db assume ok: "store_ok sha db" and bk: "backed {} db"
  define root where "root = sq_root (sd_seqs db)"
  define pid where "pid = sq_project (sd_seqs db)"
  define sq where "sq = (sd_seqs db)\<lparr>sq_root := root + 1, sq_project := pid + 1\<rparr>"
  define l where "l = \<lparr>lr_id = root, lr_parent_id = None, lr_base_id = None, lr_hash = h, lr_kind = Root,
      lr_populated = True, lr_truncated = False, lr_last_used = now\<rparr>"
  define p where "p = \<lparr>pj_id = pid, pj_name = name, pj_root_path = path, pj_status = Uploading,
      pj_symbol_chunks = st, pj_object_chunks = ot, pj_root_layer = root\<rparr>"
  let ?db = "db\<lparr>sd_seqs := sq, sd_layers := sd_layers db @ [l], sd_projects := sd_projects db @ [p]\<rparr>"
  have old_layers: "\<forall>i\<in>layer_ids db. i < root" and root: "0 < root"
    using ok by (auto simp: store_ok_def layers_ok_def root_def)
  have old_projects: "\<forall>q\<in>set (sd_projects db). pj_id q < pid \<and> pj_root_layer q \<in> layer_ids db" and pid: "0 < pid"
    using ok root_layer_row [OF ok] by (force simp: store_ok_def projects_ok_def pid_def)+
  have "store_ok sha ?db" if name: "name \<notin> pj_name ` set (sd_projects db)"
  proof -
    have owns: "owns ?db q i" if "owns db q i" for q i using that by (auto simp: owns_def)
    have linked: "linked ?db a b i" if "linked db a b i" for a b i using that by (auto simp: linked_def)
    have "projects_ok ?db"
      unfolding projects_ok_def
    proof (intro conjI ballI)
      show "distinct (map pj_id (sd_projects ?db))" "distinct (map pj_name (sd_projects ?db))"
        using ok old_projects name by (fastforce simp: store_ok_def projects_ok_def p_def)+
      show "distinct (map pj_root_layer (sd_projects ?db))"
        using ok old_projects old_layers by (fastforce simp: store_ok_def projects_ok_def p_def)
      show "0 < sq_project (sd_seqs ?db)" using pid by (simp add: sq_def)
      fix q assume "q \<in> set (sd_projects ?db)"
      then show "0 < pj_id q" "pj_id q < sq_project (sd_seqs ?db)"
        "\<exists>l\<in>set (sd_layers ?db). lr_id l = pj_root_layer q \<and> lr_kind l = Root"
        using ok pid by (fastforce simp: store_ok_def projects_ok_def p_def l_def sq_def pid_def)+
    qed
    moreover have "layers_ok ?db"
      using ok old_layers root by (fastforce simp: store_ok_def layers_ok_def l_def sq_def root_def)
    moreover have "symbols_ok ?db" using ok owns by (fastforce simp: store_ok_def symbols_ok_def)
    moreover have "objects_ok ?db" using ok owns by (auto simp: store_ok_def objects_ok_def sq_def)
    moreover have "rows_ok ?db" using ok linked by (auto simp: store_ok_def rows_ok_def)
    moreover have "chunks_ok ?db" using ok by (auto simp: store_ok_def chunks_ok_def)
    moreover have "contents_ok sha ?db" using ok by (simp add: store_ok_def contents_ok_def)
    ultimately show ?thesis by (simp add: store_ok_def)
  qed
  then show "seqs_le db (snd (insert_project now h name path st ot db)) \<and>
     (\<forall>a. fst (insert_project now h name path st ot db) = Inr a \<longrightarrow>
        store_ok sha (snd (insert_project now h name path st ot db)) \<and> backed {} (snd (insert_project now h name path st ot db)))"
    using bk by (simp add: insert_project_def Let_def seqs_le_def backed_def sq_def p_def l_def root_def pid_def)
qed

lemma zombie_keeps: "keeps sha (delete_zombie p)"
proof -
  have row: "keeps sha (\<lambda>db. (Inr (), delete_project_row pid db))" for pid
    by (rule valid_pure) (use delete_row_valid in blast)
  show ?thesis
    unfolding delete_zombie_def
    by (intro valid_bind [OF row] valid_bind [OF valid_in_upload [OF delete_layers_keeps]]
        valid_bind [OF valid_in_upload [OF purge_keeps]]) auto
qed

lemma create_keeps: "keeps sha (create_project now h name path st ot)"
proof -
  have z: "keeps sha (sbind (delete_zombie p) (\<lambda>_. insert_project now h name path st ot))" for p
    by (rule valid_bind [OF zombie_keeps insert_project_keeps])
  note one = insert_project_keeps [of sha now h name path st ot]
  show ?thesis
    using z one unfolding valid_def create_project_def
    by (simp split: option.splits upload_status.splits)
qed

lemma finish_keeps: "keeps sha (finish pid)"
proof -
  have "keeps sha (\<lambda>db. (Inr (), set_status pid Complete db))" by (rule valid_pure) simp
  then show ?thesis
    unfolding finish_def
    by (intro valid_bind valid_in_upload purge_keeps) auto
qed

lemma valid_self: "(\<And>s. valid sha P (m s) Q) \<Longrightarrow> valid sha P (\<lambda>db. m db db) Q"
  by (simp add: valid_def)

lemma finalize_keeps:
  "keeps sha (\<lambda>db. case find_project pid db of
         None \<Rightarrow> (Inr False, db)
       | Some p \<Rightarrow>
           (case pj_status p of
              Complete \<Rightarrow> (Inr True, db)
            | Uploading \<Rightarrow>
                sbind (slift (check_total ''symbol'' (committed_chunks pid (sd_symbol_chunks db)) (pj_symbol_chunks p))) (\<lambda>_.
                sbind (slift (check_total ''object'' (committed_chunks pid (sd_object_chunks db)) (pj_object_chunks p))) (\<lambda>_.
                finish pid)) db
            | _ \<Rightarrow> (Inl Conflict, db)))"
proof -
  have go: "keeps sha (sbind (slift a) (\<lambda>_. sbind (slift b) (\<lambda>_. finish pid)))" for a b
    by (rule slift_bind_valid, rule slift_bind_valid, rule finish_keeps)
  let ?m = "\<lambda>s. case find_project pid s of None \<Rightarrow> sreturn False
    | Some p \<Rightarrow> (case pj_status p of Complete \<Rightarrow> sreturn True
        | Uploading \<Rightarrow> sbind (slift (check_total ''symbol'' (committed_chunks pid (sd_symbol_chunks s)) (pj_symbol_chunks p))) (\<lambda>_.
            sbind (slift (check_total ''object'' (committed_chunks pid (sd_object_chunks s)) (pj_object_chunks p))) (\<lambda>_. finish pid))
        | _ \<Rightarrow> sfail Conflict)"
  have "keeps sha (?m s)" for s
    using go by (auto split: option.split upload_status.split)
  then have all: "keeps sha (\<lambda>db. ?m db db)" by (rule valid_self)
  show ?thesis
    by (rule back_subst [where P = "keeps sha", OF all], rule ext)
      (simp add: sreturn_def sfail_def split: option.split upload_status.split)
qed

lemma upload_contents_keeps:
  "keeps sha (sbind (slift (collect_results (map (content_row sha) contents))) (\<lambda>rows.
     sbind (smap insert_contents (chunks MAX_INSERT_ROWS rows)) (\<lambda>counts. sreturn (sum_list counts))))"
proof (rule slift_bind_valid)
  fix rows assume "collect_results (map (content_row sha) contents) = Inr rows"
  then have honest: "honest sha rows" by (rule upload_contents_honest)
  have "honest sha c" if "c \<in> set (chunks MAX_INSERT_ROWS rows)" for c
    using honest chunks_parts(2) [OF that] by (auto simp: honest_def)
  then have "keeps sha (smap insert_contents (chunks MAX_INSERT_ROWS rows) :: (upload_error, nat list) store_step)"
    by (intro valid_smap insert_contents_keeps)
  then show "keeps sha (sbind (smap insert_contents (chunks MAX_INSERT_ROWS rows)) (\<lambda>counts. sreturn (sum_list counts))
      :: (upload_error, nat) store_step)"
    by (rule valid_bind) auto
qed

lemma delete_keeps:
  "keeps sha (sbind (\<lambda>db. (Inr (), delete_project_data pid db)) (\<lambda>_.
     sbind (\<lambda>db. (Inr (map_option pj_root_layer (find_project pid db)), delete_project_row pid db)) (\<lambda>root.
     sbind (case root of None \<Rightarrow> sreturn 0 | Some r \<Rightarrow> delete_layers [r]) (\<lambda>_.
     sbind purge_eph_layers (\<lambda>_. sreturn True)))))"
proof -
  have data: "keeps sha (\<lambda>db. (Inr (), delete_project_data pid db))"
    by (rule valid_pure) (use delete_data_valid in blast)
  have row: "keeps sha (\<lambda>db. (Inr (map_option pj_root_layer (find_project pid db)), delete_project_row pid db))"
    by (rule valid_pure [where h = "\<lambda>db. map_option pj_root_layer (find_project pid db)"]) (use delete_row_valid in blast)
  have layer: "keeps sha (case root of None \<Rightarrow> sreturn 0 | Some r \<Rightarrow> delete_layers [r])" for root
    by (auto split: option.split)
  show ?thesis
    by (intro valid_bind [OF data] valid_bind [OF row] valid_bind [OF layer] valid_bind [OF purge_keeps]) auto
qed

lemma store_run_ok:
  assumes "store_ok sha db" "backed {} db"
  shows "store_ok sha (store_run sha q db) \<and> backed {} (store_run sha q db)"
proof (cases q)
  case (OpUpload now h u st ot)
  then show ?thesis
    using assms keeps_transaction [OF create_keeps assms]
    by (auto simp: upload_index_def Let_def sfail_def)
next
  case (OpSymbols pid seq symbols)
  have "keeps sha (sbind (claim_symbol_chunk pid seq) (\<lambda>inserted. if inserted = 0 then sreturn ()
      else sbind (root_layer_of pid) (\<lambda>root. sbind (slift (build_symbols pid root symbols)) (\<lambda>rows.
        sbind (smap insert_symbols (chunks MAX_SYMBOL_INSERT_ROWS rows)) (\<lambda>_. sreturn ())))))"
    by (rule valid_bind [OF claim_keeps(1)]) (use symbol_chunk_keeps in auto)
  from keeps_transaction [OF this assms] show ?thesis using OpSymbols by (simp add: upload_symbol_chunk_def)
next
  case (OpObjects pid seq u)
  have "keeps sha (sbind (claim_object_chunk pid seq) (\<lambda>inserted. if inserted = 0 then sreturn ()
      else do_upload_objects sha pid (up_objects u)))"
    by (rule valid_bind [OF claim_keeps(2)]) (use object_chunk_keeps in auto)
  from keeps_transaction [OF this assms] show ?thesis using OpObjects assms
    by (simp add: upload_object_chunk_def sfail_def)
next
  case (OpContents cs)
  show ?thesis
  proof (cases "collect_results (map (content_row sha) cs)")
    case (Inl e)
    then show ?thesis using OpContents assms by (simp add: upload_contents_def sbind_def slift_def)
  next
    case (Inr rows)
    have "\<exists>ns db'. smap insert_contents parts db = (Inr ns :: upload_error + nat list, db')" for parts db
    proof (induction parts arbitrary: db)
      case (Cons c parts)
      obtain ns db' where "smap insert_contents parts (with_contents c db) = (Inr ns :: upload_error + nat list, db')"
        using Cons.IH by blast
      then show ?case by (simp add: sbind_def sreturn_def insert_contents_eq [of c db])
    qed (simp add: sreturn_def)
    then obtain ns db' where "smap insert_contents (chunks MAX_INSERT_ROWS rows) db = (Inr ns :: upload_error + nat list, db')"
      by blast
    then show ?thesis
      using upload_contents_keeps [of sha cs] assms OpContents Inr
      by (auto simp: valid_def upload_contents_def sbind_def slift_def sreturn_def)
  qed
next
  case (OpFinalize pid)
  from keeps_transaction [OF finalize_keeps assms] show ?thesis using OpFinalize by (simp add: finalize_project_def)
next
  case (OpDelete pid)
  have "store_ok sha (set_status pid Deleting db)" "backed {} (set_status pid Deleting db)" using assms by simp_all
  from keeps_transaction [OF delete_keeps this] show ?thesis using OpDelete assms by (simp add: delete_project_def)
next
  case OpClear
  have "store_ok sha (db\<lparr>sd_epoch := sd_epoch db + 1\<rparr>)" "backed {} (db\<lparr>sd_epoch := sd_epoch db + 1\<rparr>)"
    using assms by (simp_all add: backed_def)
  from keeps_transaction [OF purge_keeps this] show ?thesis using OpClear by (simp add: clear_caches_def)
qed


lemma store_reach_ok: "store_reach sha db \<Longrightarrow> store_ok sha db \<and> backed {} db"
proof (induction rule: store_reach.induct)
  case start
  then show ?case by (simp add: store_ok_start) (simp add: backed_def empty_store_def)
next
  case (oper db q)
  then show ?case using store_run_ok by blast
next
  case (query db db')
  then show ?case using eph_change_ok by (fastforce simp: backed_def eph_change_def)
qed

lemma eq_by_key: "distinct (map f xs) \<Longrightarrow> x \<in> set xs \<Longrightarrow> y \<in> set xs \<Longrightarrow> f x = f y \<Longrightarrow> x = y"
  by (auto simp: distinct_map dest: inj_onD)

lemma find_by_key: "distinct (map f xs) \<Longrightarrow> x \<in> set xs \<Longrightarrow> List.find (\<lambda>y. f y = f x) xs = Some x"
  by (induction xs) (auto simp: rev_image_eqI)

lemma layer_unique:
  assumes "store_ok sha db" "l \<in> set (sd_layers db)" "r \<in> set (sd_layers db)" "lr_id l = lr_id r"
  shows "l = r"
proof -
  have "distinct (map lr_id (sd_layers db))" using assms(1) by (simp add: store_ok_def layers_ok_def)
  then show ?thesis using assms(2-4) by (rule eq_by_key)
qed

subsection \<open>Layer deletes\<close>

lemma closure_includes: "set ids \<subseteq> set (layer_closure n rows ids)"
  by (induction n arbitrary: ids) fastforce+

lemma closure_members:
  "i \<in> set (layer_closure n rows ids) \<Longrightarrow>
   i \<in> set ids \<or> (\<exists>l\<in>set rows. lr_id l = i \<and> (lr_parent_id l \<noteq> None \<or> lr_base_id l \<noteq> None))"
proof (induction n arbitrary: ids)
  case (Suc n)
  let ?more = "filter (\<lambda>r. lr_id r \<notin> set ids \<and> list_ex (\<lambda>g. lr_parent_id r = Some g \<or> lr_base_id r = Some g) ids) rows"
  have "i \<in> set (ids @ map lr_id ?more) \<or> (\<exists>l\<in>set rows. lr_id l = i \<and> (lr_parent_id l \<noteq> None \<or> lr_base_id l \<noteq> None))"
    using Suc.IH [of "ids @ map lr_id ?more"] Suc.prems by simp
  then show ?case by (auto simp: list_ex_iff)
qed simp

lemma root_not_in_closure:
  assumes ok: "store_ok sha db" and p: "p \<in> set (sd_projects db)" and free: "pj_root_layer p \<notin> set ids"
  shows "pj_root_layer p \<notin> set (layer_closure n (sd_layers db) ids)"
proof
  assume "pj_root_layer p \<in> set (layer_closure n (sd_layers db) ids)"
  then obtain l where l: "l \<in> set (sd_layers db)" "lr_id l = pj_root_layer p" "lr_parent_id l \<noteq> None \<or> lr_base_id l \<noteq> None"
    using closure_members free by blast
  obtain r where r: "r \<in> set (sd_layers db)" "lr_id r = pj_root_layer p" "lr_kind r = Root"
    using root_layer_row [OF ok p] by blast
  have "l = r" by (rule layer_unique [OF ok l(1) r(1)]) (simp only: l(2) r(2))
  then show False using l r ok by (auto simp: store_ok_def layers_ok_def)
qed

definition without_layers :: "int list \<Rightarrow> store_db \<Rightarrow> store_db" where
  "without_layers ids db =
     db\<lparr>sd_layers := filter (\<lambda>r. lr_id r \<notin> set (layer_closure (length (sd_layers db)) (sd_layers db) ids)) (sd_layers db)\<rparr>"

lemma delete_layers_run:
  assumes ok: "store_ok sha db" and free: "\<forall>p\<in>set (sd_projects db). pj_root_layer p \<notin> set ids"
  shows "\<exists>n. delete_layers ids db = (Inr n, sweep (without_layers ids db))" "shrinks db (without_layers ids db)"
proof -
  note roots = root_not_in_closure [OF ok, of _ ids "length (sd_layers db)"]
  have "\<not> list_ex (\<lambda>p. pj_root_layer p \<in> set (layer_closure (length (sd_layers db)) (sd_layers db) ids)) (sd_projects db)"
    using roots free by (auto simp: list_ex_iff)
  then show "\<exists>n. delete_layers ids db = (Inr n, sweep (without_layers ids db))"
    by (simp add: delete_layers_def Let_def without_layers_def)
  show "shrinks db (without_layers ids db)"
    unfolding shrinks_def without_layers_def using roots free by (auto intro: filter_self)
qed

abbreviation unprotected :: "store_db \<Rightarrow> int list" where
  "unprotected db \<equiv> map lr_id (filter (\<lambda>r. \<not> is_protected r) (sd_layers db))"

lemma root_is_protected:
  assumes ok: "store_ok sha db" and p: "p \<in> set (sd_projects db)"
  shows "pj_root_layer p \<notin> set (unprotected db)"
proof
  assume "pj_root_layer p \<in> set (unprotected db)"
  then obtain l where l: "l \<in> set (sd_layers db)" "lr_id l = pj_root_layer p" "\<not> is_protected l" by auto
  obtain r where r: "r \<in> set (sd_layers db)" "lr_id r = pj_root_layer p" "lr_kind r = Root"
    using root_layer_row [OF ok p] by blast
  have "l = r" by (rule layer_unique [OF ok l(1) r(1)]) (simp only: l(2) r(2))
  then show False using l(3) r(3) by (simp add: is_protected_def PROTECTED_def)
qed

lemma purge_run:
  assumes ok: "store_ok sha db"
  shows "\<exists>n. purge_eph_layers db = (Inr n, sweep (without_layers (unprotected db) db))"
    "shrinks db (without_layers (unprotected db) db)" "list_all is_protected (sd_layers (without_layers (unprotected db) db))"
proof -
  have free: "\<forall>p\<in>set (sd_projects db). pj_root_layer p \<notin> set (unprotected db)"
    using root_is_protected [OF ok] by blast
  have "purge_eph_layers db = delete_layers (unprotected db) db" by (simp add: purge_eph_layers_def purge_eph_cache_def)
  then show "\<exists>n. purge_eph_layers db = (Inr n, sweep (without_layers (unprotected db) db))"
    using delete_layers_run(1) [OF ok free] by simp
  show "shrinks db (without_layers (unprotected db) db)" by (rule delete_layers_run(2) [OF ok free])
  show "list_all is_protected (sd_layers (without_layers (unprotected db) db))"
    using closure_includes [of "unprotected db"] by (fastforce simp: without_layers_def list_all_iff)
qed

subsection \<open>What one project owns\<close>

record project_data =
  dt_project :: "store_project option"
  dt_symbols :: "symbol_row list"
  dt_objects :: "object_row list"
  dt_instances :: "instance_row list"
  dt_refs :: "ref_row list"
  dt_chunks :: "(int \<times> int) list \<times> (int \<times> int) list"

definition data_of :: "int \<Rightarrow> store_db \<Rightarrow> project_data" where
  "data_of q db =
     \<lparr>dt_project = find_project q db,
      dt_symbols = filter (\<lambda>s. sy_project_id s = q \<and> 0 < sy_layer s) (sd_symbols db),
      dt_objects = filter (\<lambda>ob. ob_project_id ob = q) (sd_objects db),
      dt_instances = filter (\<lambda>i. id_project (in_symbol i) = q \<and> 0 < in_layer i) (sd_instances db),
      dt_refs = filter (\<lambda>r. id_project (rf_to_symbol r) = q \<and> 0 < rf_layer r) (sd_refs db),
      dt_chunks = (filter (\<lambda>c. fst c = q) (sd_symbol_chunks db), filter (\<lambda>c. fst c = q) (sd_object_chunks db))\<rparr>"

lemma find_project_mem: "store_ok sha db \<Longrightarrow> p \<in> set (sd_projects db) \<Longrightarrow> find_project (pj_id p) db = Some p"
proof -
  assume "store_ok sha db" and p: "p \<in> set (sd_projects db)"
  then have "distinct (map pj_id (sd_projects db))" by (simp add: store_ok_def projects_ok_def)
  from find_by_key [OF this p] show ?thesis by (simp add: find_project_def)
qed


text \<open>The rows of a project survive a delete that keeps the project and its own rows.\<close>

lemma sweep_data:
  assumes ok: "store_ok sha db" and sh: "shrinks db db'" and same: "data_of q db' = data_of q db"
    and kept: "\<forall>p\<in>set (sd_projects db). pj_id p = q \<longrightarrow> p \<in> set (sd_projects db')"
  shows "data_of q (sweep db') = data_of q db"
proof -
  have sub: "set (sd_symbols db') \<subseteq> set (sd_symbols db)" "set (sd_objects db') \<subseteq> set (sd_objects db)"
    "set (sd_instances db') \<subseteq> set (sd_instances db)" "set (sd_refs db') \<subseteq> set (sd_refs db)"
    "set (sd_symbol_chunks db') \<subseteq> set (sd_symbol_chunks db)" "set (sd_object_chunks db') \<subseteq> set (sd_object_chunks db)"
    using sh by (auto simp: shrinks_def)
  have here: "q \<in> project_ids db' \<and> layer \<in> layer_ids db'" if "owns db q layer" for layer
  proof -
    obtain p where p: "p \<in> set (sd_projects db)" "pj_id p = q" "pj_root_layer p = layer" using \<open>owns db q layer\<close> by (auto simp: owns_def)
    obtain l where l: "l \<in> set (sd_layers db)" "lr_id l = layer" using root_layer_row [OF ok p(1)] p(3) by blast
    have "p \<in> set (sd_projects db')" using kept p by blast
    moreover from this have "l \<in> set (sd_layers db')" using sh l p(3) by (auto simp: shrinks_def)
    ultimately show ?thesis using p(2) l(2) by force
  qed
  have symbol: "s \<in> set (sd_symbols (sweep db'))"
    if "s \<in> set (sd_symbols db')" "sy_project_id s = q" "0 < sy_layer s" for s
  proof -
    have "owns db q (sy_layer s)" using ok sub(1) that by (fastforce simp: store_ok_def symbols_ok_def)
    then show ?thesis using here that by (simp add: sweep_def Let_def)
  qed
  have objects: "ob \<in> set (sd_objects (sweep db'))" if "ob \<in> set (sd_objects db')" "ob_project_id ob = q" for ob
  proof -
    have "owns db q (ob_layer ob)" using ok sub(2) that by (fastforce simp: store_ok_def objects_ok_def)
    then show ?thesis using here that by (simp add: sweep_def Let_def)
  qed
  have linked: "a \<in> symbol_ids (sweep db') \<and> b \<in> object_ids (sweep db') \<and> layer \<in> layer_ids db'"
    if l: "linked db a b layer" "0 < layer" "id_project a = q" for a b layer
  proof -
    obtain s where s: "s \<in> set (sd_symbols db)" "sy_id s = a" and a: "0 < a" using l by (auto simp: linked_def)
    have pos: "0 < sy_layer s" using positive_symbol [OF ok s(1)] s(2) a by simp
    then have proj: "sy_project_id s = q" using ok s l(3) by (auto simp: store_ok_def symbols_ok_def)
    have "s \<in> set (dt_symbols (data_of q db))" using s pos proj by (simp add: data_of_def)
    then have "s \<in> set (sd_symbols db')" unfolding same [symmetric] by (simp add: data_of_def)
    then have one: "a \<in> symbol_ids (sweep db')" using symbol pos proj s(2) by force
    obtain ob where ob: "ob \<in> set (sd_objects db)" "ob_id ob = b" "ob_layer ob = layer" "ob_project_id ob = q"
      using l by (auto simp: linked_def)
    then have "ob \<in> set (dt_objects (data_of q db))" by (simp add: data_of_def)
    then have "ob \<in> set (sd_objects db')" unfolding same [symmetric] by (simp add: data_of_def)
    then have two: "b \<in> object_ids (sweep db')" using objects ob by force
    have "owns db q layer" using ok ob by (auto simp: store_ok_def objects_ok_def)
    then show ?thesis using one two here by blast
  qed
  have "dt_symbols (data_of q (sweep db')) = dt_symbols (data_of q db')"
    using symbol by (auto simp: data_of_def sweep_def Let_def intro!: filter_cong)
  moreover have "dt_objects (data_of q (sweep db')) = dt_objects (data_of q db')"
    using objects by (auto simp: data_of_def sweep_def Let_def intro!: filter_cong)
  moreover have "dt_instances (data_of q (sweep db')) = dt_instances (data_of q db')"
  proof -
    have "in_symbol i \<in> symbol_ids (sweep db') \<and> in_object_id i \<in> object_ids (sweep db') \<and> in_layer i \<in> layer_ids db'"
      if "i \<in> set (sd_instances db')" "id_project (in_symbol i) = q" "0 < in_layer i" for i
      by (rule linked) (use ok sub(3) that in \<open>auto simp: store_ok_def rows_ok_def\<close>)
    then show ?thesis by (auto simp: data_of_def sweep_def Let_def intro!: filter_cong)
  qed
  moreover have "dt_refs (data_of q (sweep db')) = dt_refs (data_of q db')"
  proof -
    have "rf_to_symbol r \<in> symbol_ids (sweep db') \<and> rf_from_object r \<in> object_ids (sweep db') \<and> rf_layer r \<in> layer_ids db'"
      if "r \<in> set (sd_refs db')" "id_project (rf_to_symbol r) = q" "0 < rf_layer r" for r
      by (rule linked) (use ok sub(4) that in \<open>auto simp: store_ok_def rows_ok_def\<close>)
    then show ?thesis by (auto simp: data_of_def sweep_def Let_def intro!: filter_cong)
  qed
  moreover have "dt_chunks (data_of q (sweep db')) = dt_chunks (data_of q db')"
  proof -
    have "q \<in> project_ids db'" if "c \<in> set (sd_symbol_chunks db') \<union> set (sd_object_chunks db')" "fst c = q" for c
    proof -
      have "q \<in> project_ids db" using ok sub(5,6) that by (auto simp: store_ok_def chunks_ok_def)
      then show ?thesis using kept by force
    qed
    then show ?thesis by (auto simp: data_of_def sweep_def Let_def intro!: filter_cong)
  qed
  moreover have "dt_project (data_of q (sweep db')) = dt_project (data_of q db')"
    by (simp add: data_of_def sweep_def Let_def find_project_def)
  ultimately show ?thesis unfolding same [symmetric] by (simp add: project_data.equality)
qed

end
