(* ===== verification/Upload_Exact.thy ===== *)
theory Upload_Exact
  imports Upload_Properties
begin

text \<open>
  The theorems about uploads: what holds of every stored row, what a deletion removes and keeps,
  what a chunk of symbols does, when an upload can be finished, and that the cache of query
  results never outlives a change.
\<close>

subsection \<open>Every reachable store\<close>

lemma fold_reach: "store_reach sha db \<Longrightarrow> store_reach sha (fold (store_run sha) ops db)"
  by (induction ops arbitrary: db) (auto intro: store_reach.oper)

definition sample_hash :: sha where "sample_hash = (\<lambda>b. b)"

definition sample_symbols :: "upload_symbol list" where
  "sample_symbols = [\<lparr>us_local_id = 0, us_name = ''f'', us_scope = 0, us_type = 1\<rparr>,
     \<lparr>us_local_id = 5, us_name = ''m.g'', us_scope = 1, us_type = 1\<rparr>]"

definition sample_file :: upload_object where
  "sample_file = \<lparr>uo_local_id = 9, uo_module_path = ''m'', uo_filesystem_path = ''/r/./a.c'', uo_filetype = ''c'',
     uo_content = ''ab'', uo_instances = [\<lparr>ui_symbol = 5, ui_type = 0, ui_start = 0, ui_end = 2\<rparr>],
     uo_refs = [\<lparr>ur_symbol = 0, ur_start = 1, ur_end = 2\<rparr>], uo_content_hash = ''''\<rparr>"

definition sample_upload :: "string \<Rightarrow> upload_object list \<Rightarrow> upload_project" where
  "sample_upload name obs = \<lparr>up_name = name, up_root_path = ''/r'', up_objects = obs, up_symbols = []\<rparr>"

text \<open>Two projects with a chunk of symbols and one of objects each.\<close>

definition sample_ops :: "store_op list" where
  "sample_ops = [OpUpload 0 ''one'' (sample_upload ''p'' []) (Some 1) (Some 1),
     OpSymbols 1 0 sample_symbols, OpObjects 1 0 (sample_upload ''p'' [sample_file]),
     OpUpload 1 ''two'' (sample_upload ''q'' []) (Some 1) (Some 1),
     OpSymbols 2 0 sample_symbols, OpObjects 2 0 (sample_upload ''q'' [sample_file])]"

definition sample_store :: store_db where
  "sample_store = fold (store_run sample_hash) sample_ops empty_store"

lemma sample_reach: "store_reach sample_hash sample_store"
  unfolding sample_store_def by (intro fold_reach store_reach.start)

lemma sample_facts:
  "map sy_id (sd_symbols sample_store) = [4294967296, 4294967301, 8589934592, 8589934597]"
  "map ob_filesystem_path (sd_objects sample_store) = [''/r/a.c'', ''/r/a.c'']"
  "length (sd_instances sample_store) = 2 \<and> length (sd_refs sample_store) = 2"
  "find_project 1 sample_store = Some \<lparr>pj_id = 1, pj_name = ''p'', pj_root_path = ''/r'', pj_status = Uploading,
     pj_symbol_chunks = Some 1, pj_object_chunks = Some 1, pj_root_layer = 1\<rparr>"
  by code_simp+

lemma sample_projects: "length (sd_projects sample_store) = 2"
  by code_simp

lemma sample_chunk: "sd_symbol_chunks sample_store = [(1, 0), (2, 0)]" "sd_object_chunks sample_store = [(1, 0), (2, 0)]"
  "find_project 3 sample_store = None"
  by code_simp+



text \<open>
  C15. Ownership: ids, names and root layers of projects are unique and each project has its root
  layer; a stored symbol of a project carries the project in the high half of its id and lies in
  the project's root layer; objects lie in their project's root layer with at most one object per
  path; instances and references join symbols and objects that exist, of one project and in its
  layer; chunks belong to projects; each row, chunk and content is stored once.
\<close>

theorem stored_rows_owned:
  assumes "store_reach sha db"
  shows "projects_ok db \<and> layers_ok db \<and> symbols_ok db \<and> objects_ok db \<and> rows_ok db \<and> chunks_ok db
    \<and> distinct (map fst (sd_contents db))"
  using store_reach_ok [OF assms] by (simp add: store_ok_def contents_ok_def)

theorem stored_rows_owned_witness:
  "store_reach sample_hash sample_store \<and> length (sd_instances sample_store) = 2 \<and> rows_ok sample_store
   \<and> symbols_ok sample_store"
  using stored_rows_owned [OF sample_reach] sample_reach sample_facts(3) by simp

subsection \<open>Deletion\<close>

lemma id_in_range:
  assumes "in_id_range (project_symbol_id_base pid) (project_symbol_id_base (as_i32 (pid + 1))) i" "is_i32 pid" "0 < pid"
  shows "id_project i = pid"
proof (cases "pid = i32_max")
  case True
  then show ?thesis using assms by (simp add: in_id_range_def project_symbol_id_base_def push_bit_eq_mult as_i32_def i32_max_def)
next
  case False
  then have "as_i32 (pid + 1) = pid + 1" using assms by (intro as_i32_id) (auto simp: is_i32_def i32_min_def)
  then have "pid * 2 ^ 32 \<le> i" "i < (pid + 1) * 2 ^ 32"
    using assms(1) by (simp_all add: in_id_range_def project_symbol_id_base_def push_bit_eq_mult)
  then show ?thesis by (simp add: id_project_def)
qed

definition no_data :: project_data where
  "no_data = \<lparr>dt_project = None, dt_symbols = [], dt_objects = [], dt_instances = [], dt_refs = [], dt_chunks = ([], [])\<rparr>"

lemma gone_data:
  assumes ok: "store_ok sha db" and gone: "pid \<notin> project_ids db"
  shows "data_of pid db = no_data"
proof -
  have none: "\<not> owns db pid l" for l using gone by (auto simp: owns_def)
  have "filter (\<lambda>s. sy_project_id s = pid \<and> 0 < sy_layer s) (sd_symbols db) = []"
    using ok gone by (auto simp: filter_empty_conv store_ok_def symbols_ok_def)
  moreover have "filter (\<lambda>ob. ob_project_id ob = pid) (sd_objects db) = []"
    using ok none by (auto simp: filter_empty_conv store_ok_def objects_ok_def)
  moreover have rows: "id_project a \<noteq> pid" if l: "linked db a b l" "0 < l" for a b l
  proof -
    obtain ob where "ob \<in> set (sd_objects db)" "ob_project_id ob = id_project a" using l by (auto simp: linked_def)
    then show ?thesis using ok none by (auto simp: store_ok_def objects_ok_def)
  qed
  moreover have "filter (\<lambda>i. id_project (in_symbol i) = pid \<and> 0 < in_layer i) (sd_instances db) = []"
    using ok rows unfolding filter_empty_conv store_ok_def rows_ok_def by blast
  moreover have "filter (\<lambda>r. id_project (rf_to_symbol r) = pid \<and> 0 < rf_layer r) (sd_refs db) = []"
    using ok rows unfolding filter_empty_conv store_ok_def rows_ok_def by blast
  moreover have "filter (\<lambda>c. fst c = pid) (sd_symbol_chunks db) = []" "filter (\<lambda>c. fst c = pid) (sd_object_chunks db) = []"
    using ok gone by (auto simp: filter_empty_conv store_ok_def chunks_ok_def)
  moreover have "find_project pid db = None" using gone by (auto simp: find_project_def find_None_iff)
  ultimately show ?thesis by (simp add: data_of_def no_data_def)
qed

lemma find_filter: "(\<And>x. P x \<Longrightarrow> Q x) \<Longrightarrow> List.find P (filter Q xs) = List.find P xs"
  by (induction xs) auto

lemma find_map_same: "(\<And>x. P (f x) = P x) \<Longrightarrow> (\<And>x. P x \<Longrightarrow> f x = x) \<Longrightarrow> List.find P (map f xs) = List.find P xs"
  by (induction xs) auto

lemma status_data: "q \<noteq> pid \<Longrightarrow> data_of q (set_status pid st db) = data_of q db"
  unfolding data_of_def set_status_def find_project_def by (simp add: find_map_same)

lemma without_layers_data [simp]: "data_of q (without_layers ids db) = data_of q db" "sd_projects (without_layers ids db) = sd_projects db"
  by (simp_all add: without_layers_def data_of_def find_project_def)

lemma sweep_fixed [simp]:
  "sd_projects (sweep db) = sd_projects db" "sd_layers (sweep db) = sd_layers db" "sd_contents (sweep db) = sd_contents db"
  "sd_epoch (sweep db) = sd_epoch db"
  by (simp_all add: sweep_def Let_def)

lemma without_layers_step:
  assumes "store_ok sha db" "shrinks db (without_layers ids db)"
  shows "store_ok sha (sweep (without_layers ids db))" "data_of q (sweep (without_layers ids db)) = data_of q db"
  using sweep_ok [OF assms] sweep_data [OF assms] by simp_all

lemma delete_data_others:
  assumes ok: "store_ok sha db" and pid: "is_i32 pid" "0 < pid" and q: "q \<noteq> pid"
  shows "data_of q (delete_project_data pid db) = data_of q db"
proof -
  define lo hi where "lo = project_symbol_id_base pid" and "hi = project_symbol_id_base (as_i32 (pid + 1))"
  have range: "id_project i \<noteq> q" if "in_id_range lo hi i" for i
    using id_in_range [of pid i] that pid q by (simp add: lo_def hi_def)
  define db1 where "db1 = delete_symbol_rows lo hi db"
  define db1' where "db1' = db1\<lparr>sd_symbols := filter (\<lambda>s. sy_project_id s \<noteq> pid) (sd_symbols db1)\<rparr>"
  define db2 where "db2 = sweep db1'"
  define db2' where "db2' = db2\<lparr>sd_objects := filter (\<lambda>ob. ob_project_id ob \<noteq> pid) (sd_objects db2)\<rparr>"
  have sh: "shrinks db db1'"
    using shrink_parts(1) [where db = db and P = "\<lambda>s. sy_project_id s \<noteq> pid"
        and Q = "\<lambda>i. \<not> in_id_range lo hi (in_symbol i)" and R = "\<lambda>r. \<not> in_id_range lo hi (rf_to_symbol r)"]
    by (simp add: db1_def db1'_def delete_symbol_rows_def)
  have "data_of q db1' = data_of q db"
    using q range by (auto simp: data_of_def db1'_def db1_def delete_symbol_rows_def find_project_def intro!: filter_cong)
  moreover have "sd_projects db1' = sd_projects db" by (simp add: db1'_def db1_def delete_symbol_rows_def)
  ultimately have one: "data_of q db2 = data_of q db" unfolding db2_def by (intro sweep_data [OF ok sh]) simp_all
  have ok2: "store_ok sha db2" unfolding db2_def by (rule sweep_ok [OF ok sh])
  have sh2: "shrinks db2 db2'" unfolding db2'_def by (rule shrink_parts(2))
  have "data_of q db2' = data_of q db2"
    using q by (auto simp: data_of_def db2'_def find_project_def intro!: filter_cong)
  then have "data_of q (sweep db2') = data_of q db2" by (intro sweep_data [OF ok2 sh2]) (simp_all add: db2'_def)
  moreover have "delete_project_data pid db = sweep db2'"
    by (simp add: delete_project_data_def Let_def db2'_def db2_def db1'_def db1_def lo_def hi_def)
  ultimately show ?thesis using one by simp
qed

lemma delete_row_others:
  assumes ok: "store_ok sha db" and q: "q \<noteq> pid"
  shows "data_of q (delete_project_row pid db) = data_of q db"
  unfolding delete_project_row_def
proof (rule sweep_data [OF ok shrink_parts(3)])
  show "data_of q (db\<lparr>sd_projects := filter (\<lambda>p. pj_id p \<noteq> pid) (sd_projects db)\<rparr>) = data_of q db"
    using find_filter [of "\<lambda>p. pj_id p = q" "\<lambda>p. pj_id p \<noteq> pid" "sd_projects db"] q
    by (simp add: data_of_def find_project_def)
qed (use q in auto)

lemma delete_data_projects [simp]: "sd_projects (delete_project_data pid db) = sd_projects db"
  "sd_contents (delete_project_data pid db) = sd_contents db"
  by (simp_all add: delete_project_data_def Let_def delete_symbol_rows_def)

lemma set_status_ids [simp]: "project_ids (set_status pid st db) = project_ids db"
  by (force simp: set_status_def)

lemma find_status: "find_project pid db = Some p \<Longrightarrow> find_project pid (set_status pid st db) = Some (p\<lparr>pj_status := st\<rparr>)"
proof -
  have "List.find (\<lambda>p. pj_id p = pid) ps = Some p \<Longrightarrow>
      List.find (\<lambda>p. pj_id p = pid) (map (\<lambda>p. if pj_id p = pid then p\<lparr>pj_status := st\<rparr> else p) ps) = Some (p\<lparr>pj_status := st\<rparr>)" for ps
    by (induction ps) (auto split: if_splits)
  then show "find_project pid db = Some p \<Longrightarrow> ?thesis" by (simp add: find_project_def set_status_def)
qed

lemma find_project_in: "find_project pid db = Some p \<Longrightarrow> p \<in> set (sd_projects db) \<and> pj_id p = pid"
  by (auto simp: find_project_def find_Some_iff)

text \<open>The transaction of a deletion, on a store where the project is marked.\<close>

lemma delete_run:
  assumes ok: "store_ok sha db" "backed {} db" and found: "find_project pid db = Some p" and pid: "is_i32 pid"
  shows "\<exists>db'. sbind (\<lambda>db. (Inr (), delete_project_data pid db)) (\<lambda>_.
       sbind (\<lambda>db. (Inr (map_option pj_root_layer (find_project pid db)), delete_project_row pid db)) (\<lambda>root.
       sbind (case root of None \<Rightarrow> sreturn 0 | Some r \<Rightarrow> delete_layers [r]) (\<lambda>_.
       sbind purge_eph_layers (\<lambda>_. sreturn True)))) db = (Inr True, db')
     \<and> store_ok sha db' \<and> pid \<notin> project_ids db' \<and> (\<forall>q. q \<noteq> pid \<longrightarrow> data_of q db' = data_of q db)
     \<and> list_all is_protected (sd_layers db') \<and> pj_root_layer p \<notin> layer_ids db' \<and> sd_contents db' = sd_contents db
     \<and> sd_epoch db' = sd_epoch db"
proof -
  have p: "p \<in> set (sd_projects db)" "pj_id p = pid" using find_project_in [OF found] by simp_all
  have pos: "0 < pid" using ok(1) p by (auto simp: store_ok_def projects_ok_def)
  define r where "r = pj_root_layer p"
  define db2 where "db2 = delete_project_data pid db"
  have ok2: "store_ok sha db2" "backed {} db2" unfolding db2_def using delete_data_valid [OF ok] by simp_all
  have same2: "data_of q db2 = data_of q db" if "q \<noteq> pid" for q
    unfolding db2_def by (rule delete_data_others [OF ok(1) pid pos that])
  have root: "find_project pid db2 = Some p" using found by (simp add: db2_def find_project_def)
  define db3 where "db3 = delete_project_row pid db2"
  have ok3: "store_ok sha db3" unfolding db3_def using delete_row_valid [OF ok2] by simp
  have same3: "data_of q db3 = data_of q db2" if "q \<noteq> pid" for q
    unfolding db3_def by (rule delete_row_others [OF ok2(1) that])
  have projects3: "sd_projects db3 = filter (\<lambda>p. pj_id p \<noteq> pid) (sd_projects db)"
    by (simp add: db3_def delete_project_row_def db2_def)
  have "pj_root_layer q \<noteq> r" if "q \<in> set (sd_projects db3)" for q
  proof
    assume "pj_root_layer q = r"
    moreover have "q \<in> set (sd_projects db)" "pj_id q \<noteq> pid" using that projects3 by auto
    moreover have "distinct (map pj_root_layer (sd_projects db))" using ok(1) by (simp add: store_ok_def projects_ok_def)
    ultimately show False using eq_by_key [of pj_root_layer "sd_projects db" q p] p by (simp add: r_def)
  qed
  then have free: "\<forall>q\<in>set (sd_projects db3). pj_root_layer q \<notin> set [r]" by simp
  define db4 where "db4 = sweep (without_layers [r] db3)"
  obtain n where n: "delete_layers [r] db3 = (Inr n, db4)"
    using delete_layers_run(1) [OF ok3 free] by (auto simp: db4_def)
  note four = without_layers_step [OF ok3 delete_layers_run(2) [OF ok3 free], folded db4_def]
  have gone4: "r \<notin> layer_ids db4"
    using closure_includes [of "[r]" "length (sd_layers db3)" "sd_layers db3"] by (auto simp: db4_def without_layers_def)
  define db5 where "db5 = sweep (without_layers (unprotected db4) db4)"
  obtain m where m: "purge_eph_layers db4 = (Inr m, db5)"
    using purge_run(1) [OF four(1)] by (auto simp: db5_def)
  note five = without_layers_step [OF four(1) purge_run(2) [OF four(1)], folded db5_def]
  have "list_all is_protected (sd_layers db5)" unfolding db5_def using purge_run(3) [OF four(1)] by simp
  moreover have "r \<notin> layer_ids db5" using gone4 by (auto simp: db5_def without_layers_def)
  moreover have "sd_projects db5 = sd_projects db3" by (simp add: db5_def db4_def)
  then have "pid \<notin> project_ids db5" by (auto simp: projects3)
  moreover have "data_of q db5 = data_of q db" if "q \<noteq> pid" for q using five(2) four(2) same3 same2 that by simp
  moreover have "sd_contents db5 = sd_contents db" "sd_epoch db5 = sd_epoch db"
    by (simp_all add: db5_def db4_def db3_def db2_def without_layers_def delete_project_row_def
        delete_project_data_def Let_def delete_symbol_rows_def)
  ultimately show ?thesis
    using five(1) n m root by (intro exI [of _ db5]) (simp add: sbind_def sreturn_def flip: db2_def db3_def r_def)
qed

text \<open>
  C8. Deleting a project that exists succeeds and removes exactly that project: its row, symbols,
  objects, instances, references, chunks and root layer are gone, no ephemeral layer is left,
  what other projects own and the stored contents are unchanged, and the cache of results is
  invalidated.  The range scan over symbol ids takes no row of another project, also for the last
  project id, where the upper bound of the range wraps.
\<close>

theorem delete_project_exact:
  assumes "store_reach sha db" "is_i32 pid" "find_project pid db = Some p"
  shows "\<exists>db'. delete_project pid db = (Inr True, db')
    \<and> data_of pid db' = no_data \<and> (\<forall>q. q \<noteq> pid \<longrightarrow> data_of q db' = data_of q db)
    \<and> list_all is_protected (sd_layers db') \<and> pj_root_layer p \<notin> set (map lr_id (sd_layers db'))
    \<and> sd_contents db' = sd_contents db \<and> sd_epoch db < sd_epoch db'"
proof -
  let ?db = "set_status pid Deleting db"
  have ok: "store_ok sha db" "backed {} db" using store_reach_ok [OF assms(1)] by simp_all
  have p: "p \<in> set (sd_projects db)" "pj_id p = pid" using find_project_in [OF assms(3)] by simp_all
  have pos: "0 < pid" using ok(1) p by (auto simp: store_ok_def projects_ok_def)
  obtain db' where run: "sbind (\<lambda>db. (Inr (), delete_project_data pid db)) (\<lambda>_.
       sbind (\<lambda>db. (Inr (map_option pj_root_layer (find_project pid db)), delete_project_row pid db)) (\<lambda>root.
       sbind (case root of None \<Rightarrow> sreturn 0 | Some r \<Rightarrow> delete_layers [r]) (\<lambda>_.
       sbind purge_eph_layers (\<lambda>_. sreturn True)))) ?db = (Inr True, db')"
    and after: "store_ok sha db'" "pid \<notin> project_ids db'" "\<forall>q. q \<noteq> pid \<longrightarrow> data_of q db' = data_of q ?db"
      "list_all is_protected (sd_layers db')" "pj_root_layer p \<notin> layer_ids db'" "sd_contents db' = sd_contents ?db"
      "sd_epoch db' = sd_epoch ?db"
    using delete_run [of sha ?db pid] ok find_status [OF assms(3), of Deleting] assms(2) by fastforce
  have "delete_project pid db = (Inr True, db'\<lparr>sd_epoch := sd_epoch db' + 1\<rparr>)"
    using run pos assms(3) by (simp add: delete_project_def clear_on_drop_def transaction_def)
  moreover have "data_of q (db'\<lparr>sd_epoch := n\<rparr>) = data_of q db'" for q n by (simp add: data_of_def find_project_def)
  ultimately show ?thesis
    using after gone_data [OF after(1,2)] status_data [of _ pid Deleting db] by (simp add: set_status_def)
qed

theorem delete_project_exact_witness:
  "store_reach sample_hash sample_store \<and> length (sd_projects sample_store) = 2
   \<and> (\<exists>db'. delete_project 1 sample_store = (Inr True, db') \<and> data_of 1 db' = no_data
        \<and> data_of 2 db' = data_of 2 sample_store)"
  using delete_project_exact [OF sample_reach _ sample_facts(4)] sample_reach sample_projects
  by (auto simp: is_i32_def i32_min_def i32_max_def)

subsection \<open>Chunks of symbols\<close>

abbreviation bump :: "store_db \<Rightarrow> store_db" where "bump db \<equiv> db\<lparr>sd_epoch := sd_epoch db + 1\<rparr>"

lemma concat_chunks: "0 < n \<Longrightarrow> concat (chunks n xs) = xs"
proof (induction n xs rule: chunks.induct)
  case (1 n xs)
  then show ?case by (cases "xs = []") (simp_all add: chunks.simps [of n xs] chunks.simps [of n "[]"])
qed

lemma build_symbols_ids:
  "build_symbols_from seen pid root ss = Inr rows \<Longrightarrow>
   \<exists>ls. map sy_id rows = map (\<lambda>l. pid * 2 ^ 32 + l) ls \<and> distinct ls \<and> set ls \<inter> set seen = {}"
proof (induction seen pid root ss arbitrary: rows rule: build_symbols_from.induct)
  case (2 seen pid root s ss)
  have new: "us_local_id s \<notin> set seen" using "2.prems" by (auto split: if_splits)
  obtain i ty where i: "compute_symbol_id pid (us_local_id s) = Inr i" "validate_symbol_type (us_type s) = Inr ty"
    using "2.prems" new by (auto simp: rbind_Inr)
  obtain path leaf where pl: "symbol_path_and_leaf (us_name s) ty = (path, leaf)" by fastforce
  obtain more r where more: "build_symbols_from (us_local_id s # seen) pid root ss = Inr more"
    "rows = r # more" "sy_id r = i"
    using "2.prems" new i pl by (auto simp: rbind_Inr)
  obtain ls where "map sy_id more = map (\<lambda>l. pid * 2 ^ 32 + l) ls" "distinct ls" "set ls \<inter> set (us_local_id s # seen) = {}"
    using "2.IH" [OF new refl pl [symmetric] more(1)] by blast
  then show ?case
    using more compute_symbol_id_Inr(1) [OF i(1)] new by (intro exI [of _ "us_local_id s # ls"]) auto
qed simp

lemma build_symbols_distinct:
  assumes "build_symbols pid root ss = Inr rows"
  shows "distinct (map sy_id rows)"
proof -
  obtain ls where ls: "map sy_id rows = map (\<lambda>l. pid * 2 ^ 32 + l) ls" "distinct ls"
    using build_symbols_ids [of "[]" pid root ss rows] assms by (auto simp: build_symbols_def)
  show ?thesis unfolding ls(1) using ls(2) by (simp add: distinct_map inj_on_def)
qed

lemma insert_parts:
  fixes err :: upload_error
  assumes "\<forall>c\<in>set parts. \<forall>r\<in>set c. sy_project_id r \<in> project_ids db \<and> sy_layer r \<in> layer_ids db"
    "err = Storage ''duplicate key value violates unique constraint \"symbols_pkey\"''"
    "distinct (map sy_id (sd_symbols db))"
  shows "if distinct (map sy_id (sd_symbols db @ concat parts))
     then \<exists>us. smap insert_symbols parts db = (Inr us, db\<lparr>sd_symbols := sd_symbols db @ concat parts\<rparr>)
     else \<exists>db'. smap insert_symbols parts db = (Inl err, db') \<and> sd_seqs db' = sd_seqs db"
  using assms(1,3)
proof (induction parts arbitrary: db)
  case (Cons c parts)
  show ?case
  proof (cases "distinct (map sy_id (sd_symbols db @ c))")
    case False
    then have "insert_symbols c db = (Inl err, db)" unfolding insert_symbols_def assms(2) by simp
    moreover have "\<not> distinct (map sy_id (sd_symbols db @ concat (c # parts)))" using False by auto
    ultimately show ?thesis by (simp add: sbind_def)
  next
    case True
    let ?db = "db\<lparr>sd_symbols := sd_symbols db @ c\<rparr>"
    have "\<not> list_ex (\<lambda>s. sy_project_id s \<notin> project_ids db \<or> sy_layer s \<notin> layer_ids db) c"
      using Cons.prems(1) by (auto simp: list_ex_iff)
    then have one: "insert_symbols c db = (Inr (), ?db)" using True by (simp add: insert_symbols_def)
    have ih: "if distinct (map sy_id (sd_symbols ?db @ concat parts))
     then \<exists>us. smap insert_symbols parts ?db = (Inr us, ?db\<lparr>sd_symbols := sd_symbols ?db @ concat parts\<rparr>)
     else \<exists>db'. smap insert_symbols parts ?db = (Inl err, db') \<and> sd_seqs db' = sd_seqs ?db"
      by (rule Cons.IH) (use Cons.prems True in auto)
    have same: "sd_symbols db @ concat (c # parts) = sd_symbols ?db @ concat parts" by simp
    show ?thesis
    proof (cases "distinct (map sy_id (sd_symbols ?db @ concat parts))")
      case True
      obtain us where "smap insert_symbols parts ?db = (Inr us, ?db\<lparr>sd_symbols := sd_symbols ?db @ concat parts\<rparr>)"
        using ih unfolding if_P [OF True] by blast
      then show ?thesis unfolding same if_P [OF True] using one by (simp add: sbind_def sreturn_def)
    next
      case False
      obtain db' where "smap insert_symbols parts ?db = (Inl err, db')" "sd_seqs db' = sd_seqs db"
        using ih unfolding if_not_P [OF False] by auto
      then show ?thesis unfolding same if_not_P [OF False] using one by (simp add: sbind_def)
    qed
  qed
qed (simp add: sreturn_def)

lemma symbol_chunk_run:
  assumes "store_reach sha db"
  shows "upload_symbol_chunk pid seq symbols db =
    (case find_project pid db of
       None \<Rightarrow> (Inl (Storage ''insert or update on table \"project_symbol_chunks\" violates foreign key constraint''), bump db)
     | Some p \<Rightarrow>
         if (pid, seq) \<in> set (sd_symbol_chunks db) then (Inr (), bump db)
         else (case build_symbols pid (pj_root_layer p) symbols of
             Inl e \<Rightarrow> (Inl e, bump db)
           | Inr rows \<Rightarrow>
               if list_ex (\<lambda>r. sy_id r \<in> set (map sy_id (sd_symbols db))) rows
               then (Inl (Storage ''duplicate key value violates unique constraint \"symbols_pkey\"''), bump db)
               else (Inr (), bump (db\<lparr>sd_symbols := sd_symbols db @ rows,
                       sd_symbol_chunks := sd_symbol_chunks db @ [(pid, seq)]\<rparr>))))"
proof -
  have ok: "store_ok sha db" using store_reach_ok [OF assms] by simp
  note defs = upload_symbol_chunk_def clear_on_drop_def transaction_def sbind_def claim_symbol_chunk_def sreturn_def
  show ?thesis
  proof (cases "find_project pid db")
    case None
    then have "(pid, seq) \<notin> set (sd_symbol_chunks db)"
      using ok by (force simp: store_ok_def chunks_ok_def find_project_def find_None_iff)
    then show ?thesis using None by (simp add: defs)
  next
    case (Some p)
    show ?thesis
    proof (cases "(pid, seq) \<in> set (sd_symbol_chunks db)")
      case True
      then show ?thesis using Some by (simp add: defs)
    next
      case False
      let ?db = "db\<lparr>sd_symbol_chunks := sd_symbol_chunks db @ [(pid, seq)]\<rparr>"
      have claim: "claim_symbol_chunk pid seq db = (Inr 1, ?db)" using False Some by (simp add: claim_symbol_chunk_def)
      have root: "root_layer_of pid ?db = (Inr (pj_root_layer p), ?db)"
        using Some by (simp add: root_layer_of_def find_project_def)
      show ?thesis
      proof (cases "build_symbols pid (pj_root_layer p) symbols")
        case (Inl e)
        then show ?thesis
          using False Some claim root by (simp add: upload_symbol_chunk_def clear_on_drop_def transaction_def sbind_def slift_def)
      next
        case (Inr rows)
        let ?parts = "chunks MAX_SYMBOL_INSERT_ROWS rows"
        have cat: "concat ?parts = rows" by (rule concat_chunks) (simp add: MAX_SYMBOL_INSERT_ROWS_def)
        have p: "p \<in> set (sd_projects db)" "pj_id p = pid" using find_project_in [OF Some] by simp_all
        obtain l where "l \<in> set (sd_layers db)" "lr_id l = pj_root_layer p" using root_layer_row [OF ok p(1)] by blast
        moreover have "\<forall>r\<in>set rows. sy_project_id r = pid \<and> sy_layer r = pj_root_layer p"
          using built_symbols Inr by (fastforce simp: build_symbols_def built_symbol_def)
        ultimately have "\<forall>r\<in>set (concat ?parts). sy_project_id r \<in> project_ids ?db \<and> sy_layer r \<in> layer_ids ?db"
          using p by (force simp: cat)
        then have fk: "\<forall>c\<in>set ?parts. \<forall>r\<in>set c. sy_project_id r \<in> project_ids ?db \<and> sy_layer r \<in> layer_ids ?db" by auto
        have "distinct (map sy_id (sd_symbols ?db))" using ok by (simp add: store_ok_def symbols_ok_def)
        note parts = insert_parts [OF fk refl this, unfolded cat]
        have dup: "distinct (map sy_id (sd_symbols ?db @ rows)) \<longleftrightarrow> \<not> list_ex (\<lambda>r. sy_id r \<in> set (map sy_id (sd_symbols db))) rows"
          using ok build_symbols_distinct [OF Inr]
          by (auto simp: store_ok_def symbols_ok_def list_ex_iff) (metis imageI)
        show ?thesis
        proof (cases "list_ex (\<lambda>r. sy_id r \<in> set (map sy_id (sd_symbols db))) rows")
          case True
          then have nd: "\<not> distinct (map sy_id (sd_symbols ?db @ rows))" using dup by blast
          obtain db' where "smap insert_symbols ?parts ?db =
              (Inl (Storage ''duplicate key value violates unique constraint \"symbols_pkey\"'') :: upload_error + unit list, db')"
            "sd_seqs db' = sd_seqs db"
            using parts unfolding if_not_P [OF nd] by auto
          then show ?thesis
            using True False Some claim root Inr
            by (simp add: upload_symbol_chunk_def clear_on_drop_def transaction_def sbind_def slift_def)
        next
          case fresh: False
          then have d: "distinct (map sy_id (sd_symbols ?db @ rows))" using dup by blast
          obtain us where "smap insert_symbols ?parts ?db = (Inr us, ?db\<lparr>sd_symbols := sd_symbols db @ rows\<rparr>)"
            using parts unfolding if_P [OF d] by auto
          then show ?thesis
            using fresh False Some claim root Inr
            by (simp add: upload_symbol_chunk_def clear_on_drop_def transaction_def sbind_def slift_def sreturn_def)
        qed
      qed
    qed
  qed
qed

text \<open>
  C20. A chunk of symbols, on any reachable store: for an unknown project it fails; a chunk that is
  stored is accepted again without any effect; an invalid symbol or a symbol that is stored
  already rejects the chunk and leaves the store as it was; otherwise all rows of the chunk are
  stored, as one insert would, although the code inserts them in parts of a thousand.
\<close>

theorem symbol_chunk_exact:
  assumes "store_reach sha db"
  shows "upload_symbol_chunk pid seq symbols db =
    (case find_project pid db of
       None \<Rightarrow> (Inl (Storage ''insert or update on table \"project_symbol_chunks\" violates foreign key constraint''), bump db)
     | Some p \<Rightarrow>
         if (pid, seq) \<in> set (sd_symbol_chunks db) then (Inr (), bump db)
         else (case build_symbols pid (pj_root_layer p) symbols of
             Inl e \<Rightarrow> (Inl e, bump db)
           | Inr rows \<Rightarrow>
               if list_ex (\<lambda>r. sy_id r \<in> set (map sy_id (sd_symbols db))) rows
               then (Inl (Storage ''duplicate key value violates unique constraint \"symbols_pkey\"''), bump db)
               else (Inr (), bump (db\<lparr>sd_symbols := sd_symbols db @ rows,
                       sd_symbol_chunks := sd_symbol_chunks db @ [(pid, seq)]\<rparr>))))"
  by (rule symbol_chunk_run [OF assms])

theorem symbol_chunk_exact_witness:
  "store_reach sample_hash sample_store \<and> sample_symbols \<noteq> []
   \<and> fst (upload_symbol_chunk 1 0 sample_symbols sample_store) = Inr ()
   \<and> fst (upload_symbol_chunk 3 0 sample_symbols sample_store) \<noteq> Inr ()"
  using symbol_chunk_exact [OF sample_reach, of 1 0 sample_symbols] symbol_chunk_exact [OF sample_reach, of 3 0 sample_symbols]
    sample_reach sample_facts(4) sample_chunk
  by (simp add: sample_symbols_def)

subsection \<open>Finishing an upload\<close>

lemma data_epoch [simp]: "data_of q (db\<lparr>sd_epoch := n\<rparr>) = data_of q db" "find_project q (db\<lparr>sd_epoch := n\<rparr>) = find_project q db"
  by (simp_all add: data_of_def find_project_def)

lemma committed_card:
  assumes "distinct cs"
  shows "committed_chunks pid cs = card {seq. (pid, seq) \<in> set cs}"
proof -
  have "committed_chunks pid cs = card (set (filter (\<lambda>c. fst c = pid) cs))"
    using distinct_card [of "filter (\<lambda>c. fst c = pid) cs"] assms by (simp add: committed_chunks_def)
  also have "set (filter (\<lambda>c. fst c = pid) cs) = Pair pid ` {seq. (pid, seq) \<in> set cs}" by auto
  finally show ?thesis by (simp add: card_image inj_on_def)
qed

definition total_met :: "int \<Rightarrow> (int \<times> int) list \<Rightarrow> int option \<Rightarrow> bool" where
  "total_met pid cs announced = (case announced of None \<Rightarrow> True | Some t \<Rightarrow> int (card {seq. (pid, seq) \<in> set cs}) = t)"

lemma check_total_met: "distinct cs \<Longrightarrow> (\<exists>u. check_total what (committed_chunks pid cs) announced = Inr u) \<longleftrightarrow> total_met pid cs announced"
  by (simp add: check_total_def total_met_def committed_card split: option.split)

lemma finish_run:
  assumes ok: "store_ok sha db"
  shows "\<exists>db'. finish pid db = (Inr True, db') \<and> store_ok sha db' \<and> sd_projects db' = sd_projects (set_status pid Complete db)
    \<and> (\<forall>q. q \<noteq> pid \<longrightarrow> data_of q db' = data_of q db) \<and> list_all is_protected (sd_layers db') \<and> sd_epoch db' = sd_epoch db
    \<and> data_of pid db' = data_of pid (set_status pid Complete db)"
proof -
  let ?db = "set_status pid Complete db"
  define db' where "db' = sweep (without_layers (unprotected ?db) ?db)"
  have ok': "store_ok sha ?db" using ok by simp
  obtain n where "purge_eph_layers ?db = (Inr n, db')" using purge_run(1) [OF ok'] by (auto simp: db'_def)
  then have "finish pid db = (Inr True, db')" by (simp add: finish_def sbind_def in_upload_def sreturn_def)
  moreover note without_layers_step [OF ok' purge_run(2) [OF ok'], folded db'_def]
  moreover have "list_all is_protected (sd_layers db')" unfolding db'_def using purge_run(3) [OF ok'] by simp
  moreover have "sd_projects db' = sd_projects ?db" "sd_epoch db' = sd_epoch db"
    by (simp_all add: db'_def without_layers_def) (simp add: set_status_def)
  ultimately show ?thesis by (simp add: status_data)
qed

text \<open>A project whose chunks are all there is completed.\<close>

lemma finalize_run:
  assumes ok: "store_ok sha db" and found: "find_project pid db = Some p" "pj_status p = Uploading"
    and met: "total_met pid (sd_symbol_chunks db) (pj_symbol_chunks p)" "total_met pid (sd_object_chunks db) (pj_object_chunks p)"
  shows "\<exists>db'. finalize_project pid db = (Inr True, db') \<and> find_project pid db' = Some (p\<lparr>pj_status := Complete\<rparr>)
    \<and> (\<forall>q. q \<noteq> pid \<longrightarrow> data_of q db' = data_of q db)
    \<and> data_of pid db' = (data_of pid db)\<lparr>dt_project := Some (p\<lparr>pj_status := Complete\<rparr>)\<rparr>
    \<and> list_all is_protected (sd_layers db') \<and> sd_epoch db < sd_epoch db'"
proof -
  have dist: "distinct (sd_symbol_chunks db)" "distinct (sd_object_chunks db)" using ok by (simp_all add: store_ok_def chunks_ok_def)
  obtain u v where uv: "check_total ''symbol'' (committed_chunks pid (sd_symbol_chunks db)) (pj_symbol_chunks p) = Inr u"
    "check_total ''object'' (committed_chunks pid (sd_object_chunks db)) (pj_object_chunks p) = Inr v"
    using met check_total_met dist by metis
  obtain db' where fin: "finish pid db = (Inr True, db')" "sd_projects db' = sd_projects (set_status pid Complete db)"
    "\<forall>q. q \<noteq> pid \<longrightarrow> data_of q db' = data_of q db" "list_all is_protected (sd_layers db')" "sd_epoch db' = sd_epoch db"
    "data_of pid db' = data_of pid (set_status pid Complete db)"
    using finish_run [OF ok] by blast
  have "finalize_project pid db = (Inr True, bump db')"
    using found uv fin(1) by (simp add: finalize_project_def clear_on_drop_def transaction_def sbind_def slift_def)
  moreover have new: "find_project pid (set_status pid Complete db) = Some (p\<lparr>pj_status := Complete\<rparr>)"
    by (rule find_status [OF found(1)])
  moreover have "find_project pid db' = find_project pid (set_status pid Complete db)" using fin(2) by (simp add: find_project_def)
  moreover have "data_of pid (set_status pid Complete db) = (data_of pid db)\<lparr>dt_project := Some (p\<lparr>pj_status := Complete\<rparr>)\<rparr>"
    using new by (simp add: data_of_def) (simp add: set_status_def)
  ultimately show ?thesis using fin by simp
qed





subsection \<open>A whole upload\<close>

text \<open>Steps of a chunk that leave projects, layers and the stored chunks alone.\<close>

definition preserves :: "(store_db \<Rightarrow> 'b) \<Rightarrow> ('e, 'a) store_step \<Rightarrow> bool" where
  "preserves f m \<longleftrightarrow> (\<forall>db. f (snd (m db)) = f db)"

lemma preserves_return [intro]: "preserves f (sreturn a)" "preserves f (slift r)" "preserves f (sfail e)"
  by (simp_all add: preserves_def sreturn_def slift_def sfail_def)

lemma preserves_bind [intro]:
  assumes "preserves f m" "\<And>a. preserves f (g a)"
  shows "preserves f (sbind m g)"
  unfolding preserves_def
proof
  fix db
  obtain r db1 where m: "m db = (r, db1)" by (cases "m db")
  have "f db1 = f db" using assms(1) m unfolding preserves_def by (metis snd_conv)
  then show "f (snd (sbind m g db)) = f db"
    using m assms(2) by (cases r) (simp_all add: sbind_def preserves_def)
qed

lemma preserves_smap [intro]: "(\<And>x. preserves f (g x)) \<Longrightarrow> preserves f (smap g xs)"
  by (induction xs) auto

lemma preserves_if [intro]: "preserves f a \<Longrightarrow> preserves f b \<Longrightarrow> preserves f (if c then a else b)"
  by simp

abbreviation kept_fields :: "store_db \<Rightarrow> store_project list \<times> (int \<times> int) list \<times> (int \<times> int) list \<times> nat" where
  "kept_fields db \<equiv> (sd_projects db, sd_symbol_chunks db, sd_object_chunks db, sd_epoch db)"

lemma preserves_rows [intro]:
  "preserves kept_fields (upsert_object row)" "preserves kept_fields (insert_instance i)"
  "preserves kept_fields (insert_ref r)" "preserves kept_fields (insert_contents cs)"
  "preserves kept_fields (root_layer_of pid)" "preserves kept_fields (check_contents inserts)"
  "preserves kept_fields (insert_symbols rows)"
  by (simp_all add: preserves_def upsert_object_def insert_instance_def insert_ref_def insert_contents_def
      root_layer_of_def check_contents_def insert_symbols_def Let_def split: option.split prod.split)

lemma preserves_upsert [intro]: "preserves kept_fields (upsert_objects rows)"
proof -
  have "preserves kept_fields (smap upsert_object rows)" by blast
  then show ?thesis by (simp add: preserves_def upsert_objects_def)
qed

lemma preserves_objects: "preserves kept_fields (do_upload_objects sha pid objects)"
  unfolding do_upload_objects_def insert_objects_def insert_object_chunk_def insert_symbol_instances_def insert_symbol_refs_def
  by (intro preserves_bind preserves_return preserves_rows preserves_upsert preserves_smap preserves_if)

lemma preserves_symbols: "preserves kept_fields (sbind (root_layer_of pid) (\<lambda>root. sbind (slift (build_symbols pid root symbols)) (\<lambda>rows.
    sbind (smap insert_symbols (chunks MAX_SYMBOL_INSERT_ROWS rows)) (\<lambda>_. sreturn ()))))"
  by (intro preserves_bind preserves_return preserves_rows preserves_smap)

lemma claim_cases:
  "claim_object_chunk pid seq db = (Inr n, db') \<Longrightarrow> n = 0 \<and> db' = db \<and> (pid, seq) \<in> set (sd_object_chunks db)
     \<or> n = 1 \<and> db' = db\<lparr>sd_object_chunks := sd_object_chunks db @ [(pid, seq)]\<rparr>"
  by (auto simp: claim_object_chunk_def split: if_splits)

lemma object_chunk_done:
  assumes "upload_object_chunk sha pid seq u db = (Inr (), db')"
  shows "sd_projects db' = sd_projects db \<and> sd_symbol_chunks db' = sd_symbol_chunks db
    \<and> set (sd_object_chunks db') = insert (pid, seq) (set (sd_object_chunks db))"
proof -
  obtain n db1 where claim: "claim_object_chunk pid seq db = (Inr n, db1)"
    using assms by (auto simp: upload_object_chunk_def sfail_def clear_on_drop_def transaction_def sbind_def
        split: if_splits prod.splits sum.splits)
  show ?thesis
  proof (cases "n = 0")
    case True
    then show ?thesis using assms claim claim_cases [OF claim]
      by (auto simp: upload_object_chunk_def sfail_def clear_on_drop_def transaction_def sbind_def sreturn_def split: if_splits)
  next
    case False
    obtain r db2 where run: "do_upload_objects sha pid (up_objects u) db1 = (r, db2)" by fastforce
    have "sd_projects db2 = sd_projects db1 \<and> sd_symbol_chunks db2 = sd_symbol_chunks db1 \<and> sd_object_chunks db2 = sd_object_chunks db1"
      using preserves_objects [of sha pid "up_objects u"] run unfolding preserves_def by (metis snd_conv prod.inject)
    then show ?thesis using assms claim claim_cases [OF claim] False run
      by (auto simp: upload_object_chunk_def sfail_def clear_on_drop_def transaction_def sbind_def split: if_splits sum.splits)
  qed
qed

datatype upload_chunk = SymbolChunk int "upload_symbol list" | ObjectChunk int upload_project

fun send_chunk :: "sha \<Rightarrow> int \<Rightarrow> upload_chunk \<Rightarrow> (upload_error, unit) store_step" where
  "send_chunk sha pid (SymbolChunk seq symbols) = upload_symbol_chunk pid seq symbols"
| "send_chunk sha pid (ObjectChunk seq u) = upload_object_chunk sha pid seq u"

definition symbol_seqs :: "upload_chunk list \<Rightarrow> int set" where
  "symbol_seqs cs = set (concat (map (\<lambda>c. case c of SymbolChunk seq _ \<Rightarrow> [seq] | _ \<Rightarrow> []) cs))"

definition object_seqs :: "upload_chunk list \<Rightarrow> int set" where
  "object_seqs cs = set (concat (map (\<lambda>c. case c of ObjectChunk seq _ \<Rightarrow> [seq] | _ \<Rightarrow> []) cs))"

lemma chunk_reach:
  assumes "store_reach sha db"
  shows "store_reach sha (snd (send_chunk sha pid c db))"
proof (cases c)
  case (SymbolChunk seq symbols)
  then show ?thesis using store_reach.oper [OF assms, of "OpSymbols pid seq symbols"] by simp
next
  case (ObjectChunk seq u)
  then show ?thesis using store_reach.oper [OF assms, of "OpObjects pid seq u"] by simp
qed

lemma symbol_chunk_done:
  assumes "upload_symbol_chunk pid seq symbols db = (Inr (), db')"
  shows "sd_projects db' = sd_projects db \<and> sd_object_chunks db' = sd_object_chunks db
    \<and> set (sd_symbol_chunks db') = insert (pid, seq) (set (sd_symbol_chunks db))"
proof -
  define body where "body = (\<lambda>root. sbind (slift (build_symbols pid root symbols)) (\<lambda>rows.
    sbind (smap insert_symbols (chunks MAX_SYMBOL_INSERT_ROWS rows)) (\<lambda>_. sreturn ())))"
  have frame: "preserves kept_fields (sbind (root_layer_of pid) body)" unfolding body_def by (rule preserves_symbols)
  obtain n db1 where claim: "claim_symbol_chunk pid seq db = (Inr n, db1)"
    using assms by (auto simp: upload_symbol_chunk_def clear_on_drop_def transaction_def sbind_def
        split: if_splits prod.splits sum.splits)
  then have cases: "n = 0 \<and> db1 = db \<and> (pid, seq) \<in> set (sd_symbol_chunks db)
     \<or> n = 1 \<and> db1 = db\<lparr>sd_symbol_chunks := sd_symbol_chunks db @ [(pid, seq)]\<rparr>"
    by (auto simp: claim_symbol_chunk_def split: if_splits)
  obtain r db2 where run: "sbind (root_layer_of pid) body db1 = (r, db2)" by fastforce
  have same: "sd_projects db2 = sd_projects db1 \<and> sd_symbol_chunks db2 = sd_symbol_chunks db1 \<and> sd_object_chunks db2 = sd_object_chunks db1"
    using frame run unfolding preserves_def by (metis snd_conv prod.inject)
  have up: "upload_symbol_chunk pid seq symbols = clear_on_drop (transaction (sbind (claim_symbol_chunk pid seq) (\<lambda>inserted.
       if inserted = 0 then sreturn () else sbind (root_layer_of pid) body)))"
    unfolding upload_symbol_chunk_def body_def ..
  have step: "sbind (claim_symbol_chunk pid seq) g db = g n db1" for g :: "nat \<Rightarrow> (upload_error, unit) store_step"
    using claim by (simp add: sbind_def)
  show ?thesis
    using assms cases run same unfolding up clear_on_drop_def transaction_def step
    by (auto simp: sreturn_def split: if_splits sum.splits)
qed

lemma chunks_sent:
  assumes "smap (send_chunk sha pid) cs db = (Inr us, db')" "store_reach sha db"
  shows "store_reach sha db' \<and> sd_projects db' = sd_projects db
    \<and> set (sd_symbol_chunks db') = set (sd_symbol_chunks db) \<union> Pair pid ` symbol_seqs cs
    \<and> set (sd_object_chunks db') = set (sd_object_chunks db) \<union> Pair pid ` object_seqs cs"
  using assms
proof (induction cs arbitrary: db us)
  case (Cons c cs)
  obtain db1 where one: "send_chunk sha pid c db = (Inr (), db1)" and "\<exists>vs. smap (send_chunk sha pid) cs db1 = (Inr vs, db')"
    using Cons.prems(1) by (auto simp: sbind_Inr sreturn_def)
  then obtain vs where rest: "smap (send_chunk sha pid) cs db1 = (Inr vs, db')" by blast
  have "store_reach sha db1" using chunk_reach [OF Cons.prems(2), of pid c] one by simp
  note ih = Cons.IH [OF rest this]
  show ?case
  proof (cases c)
    case (SymbolChunk seq symbols)
    then show ?thesis using ih symbol_chunk_done one by (fastforce simp: symbol_seqs_def object_seqs_def)
  next
    case (ObjectChunk seq u)
    then show ?thesis using ih object_chunk_done one by (fastforce simp: symbol_seqs_def object_seqs_def)
  qed
qed (simp add: sreturn_def symbol_seqs_def object_seqs_def)

lemma insert_project_new:
  assumes ok: "store_ok sha db" and run: "insert_project now h name path st ot db = (Inr (pid, resumed), db1)"
  shows "find_project pid db1 = Some \<lparr>pj_id = pid, pj_name = name, pj_root_path = path, pj_status = Uploading,
      pj_symbol_chunks = st, pj_object_chunks = ot, pj_root_layer = sq_root (sd_seqs db)\<rparr>
    \<and> (\<forall>seq. (pid, seq) \<notin> set (sd_symbol_chunks db1) \<union> set (sd_object_chunks db1))"
proof -
  have pid: "pid = sq_project (sd_seqs db)" using run by (auto simp: insert_project_def Let_def split: if_splits)
  have new: "pid \<notin> project_ids db" using ok by (auto simp: pid store_ok_def projects_ok_def)
  then have "List.find (\<lambda>p. pj_id p = pid) (sd_projects db) = None" by (auto simp: find_None_iff)
  then have append: "List.find (\<lambda>p. pj_id p = pid) (sd_projects db @ [p]) = Some p" if "pj_id p = pid" for p
  proof -
    have "List.find P xs = None \<Longrightarrow> P x \<Longrightarrow> List.find P (xs @ [x]) = Some x" for P :: "store_project \<Rightarrow> bool" and xs x
      by (induction xs) (auto split: if_splits)
    then show ?thesis using \<open>List.find (\<lambda>p. pj_id p = pid) (sd_projects db) = None\<close> that by blast
  qed
  have "\<forall>c\<in>set (sd_symbol_chunks db) \<union> set (sd_object_chunks db). fst c \<in> project_ids db"
    using ok by (simp add: store_ok_def chunks_ok_def)
  then have "(pid, seq) \<notin> set (sd_symbol_chunks db) \<union> set (sd_object_chunks db)" for seq
    using new by (metis fst_conv)
  then show ?thesis using run append by (auto simp: insert_project_def Let_def find_project_def split: if_splits)
qed

lemma create_project_new:
  assumes ok: "store_ok sha db" "backed {} db" and run: "create_project now h name path st ot db = (Inr (pid, False), db1)"
  shows "\<exists>db0. store_ok sha db0 \<and> insert_project now h name path st ot db0 = (Inr (pid, False), db1)"
proof (cases "List.find (\<lambda>p. pj_name p = name) (sd_projects db)")
  case None
  then show ?thesis using run ok by (auto simp: create_project_def)
next
  case (Some p)
  obtain r db0 where z: "delete_zombie p db = (r, db0)" by (cases "delete_zombie p db")
  then obtain u where u: "r = Inr u" "insert_project now h name path st ot db0 = (Inr (pid, False), db1)"
    using run Some by (cases "pj_status p"; cases r) (auto simp: create_project_def sbind_def split: if_splits)
  moreover have "store_ok sha db0" using zombie_keeps [of sha p] ok z u(1) by (auto simp: valid_def)
  ultimately show ?thesis by blast
qed

text \<open>
  C7. An upload completes: once a project was created with announced totals and chunks were sent,
  in any order and possibly more than once, each accepted, finishing succeeds as soon as the
  distinct chunks make up the totals; the project is then complete.
\<close>

theorem upload_completes:
  assumes reach: "store_reach sha db"
    and create: "upload_index now h u (Some m) (Some n) db = (Inr (pid, False), db1)"
    and sent: "smap (send_chunk sha pid) cs db1 = (Inr us, db2)"
    and all: "int (card (symbol_seqs cs)) = m" "int (card (object_seqs cs)) = n"
  shows "\<exists>db3. finalize_project pid db2 = (Inr True, db3) \<and> map_option pj_status (find_project pid db3) = Some Complete
    \<and> data_of pid db3 = (data_of pid db2)\<lparr>dt_project := find_project pid db3\<rparr>"
proof -
  have ok: "store_ok sha db" "backed {} db" using store_reach_ok [OF reach] by simp_all
  have reach1: "store_reach sha db1" using store_reach.oper [OF reach, of "OpUpload now h u (Some m) (Some n)"] create by simp
  obtain dbc where "create_project now h (trim (up_name u)) (trim (up_root_path u)) (Some m) (Some n) db = (Inr (pid, False), dbc)"
    and db1: "db1 = bump dbc"
    using create by (auto simp: upload_index_def Let_def sfail_def clear_on_drop_def transaction_def split: if_splits prod.splits sum.splits)
  from create_project_new [OF ok this(1)] obtain dbi where "store_ok sha dbi"
    "insert_project now h (trim (up_name u)) (trim (up_root_path u)) (Some m) (Some n) dbi = (Inr (pid, False), dbc)" by blast
  from insert_project_new [OF this] obtain p where p: "find_project pid dbc = Some p" "pj_status p = Uploading"
    "pj_symbol_chunks p = Some m" "pj_object_chunks p = Some n"
    and none: "\<forall>seq. (pid, seq) \<notin> set (sd_symbol_chunks dbc) \<union> set (sd_object_chunks dbc)" by force
  note sent_all = chunks_sent [OF sent reach1]
  have "find_project pid db2 = Some p" using sent_all p(1) by (simp add: find_project_def db1)
  moreover have "{seq. (pid, seq) \<in> set (sd_symbol_chunks db2)} = symbol_seqs cs"
    "{seq. (pid, seq) \<in> set (sd_object_chunks db2)} = object_seqs cs"
    using sent_all none by (auto simp: db1)
  then have "total_met pid (sd_symbol_chunks db2) (pj_symbol_chunks p)" "total_met pid (sd_object_chunks db2) (pj_object_chunks p)"
    using all p by (simp_all add: total_met_def)
  moreover have "store_ok sha db2" using store_reach_ok sent_all by blast
  ultimately show ?thesis using finalize_run [of sha db2 pid p] p(2) by fastforce
qed

definition sample_chunks :: "upload_chunk list" where
  "sample_chunks = [SymbolChunk 0 sample_symbols, ObjectChunk 0 (sample_upload ''p'' [sample_file]), SymbolChunk 0 []]"

definition sample_created :: store_db where
  "sample_created = snd (upload_index 0 ''one'' (sample_upload ''p'' []) (Some 1) (Some 1) empty_store)"

definition sample_sent :: store_db where
  "sample_sent = snd (smap (send_chunk sample_hash 1) sample_chunks sample_created)"

theorem upload_completes_witness:
  "store_reach sample_hash empty_store
   \<and> upload_index 0 ''one'' (sample_upload ''p'' []) (Some 1) (Some 1) empty_store = (Inr (1, False), sample_created)
   \<and> smap (send_chunk sample_hash 1) sample_chunks sample_created = (Inr [(), (), ()], sample_sent)
   \<and> fst (finalize_project 1 sample_sent) = Inr True"
proof -
  have one: "upload_index 0 ''one'' (sample_upload ''p'' []) (Some 1) (Some 1) empty_store = (Inr (1, False), sample_created)"
    by code_simp
  have two: "smap (send_chunk sample_hash 1) sample_chunks sample_created = (Inr [(), (), ()], sample_sent)"
    by code_simp
  have "int (card (symbol_seqs sample_chunks)) = 1" "int (card (object_seqs sample_chunks)) = 1" by code_simp+
  from upload_completes [OF store_reach.start one two this] show ?thesis using one two store_reach.start by auto
qed

subsection \<open>The cache of query results\<close>

text \<open>What queries can read of the store.\<close>

definition readable :: "store_db \<Rightarrow> store_db" where
  "readable db = db\<lparr>sd_epoch := 0, sd_seqs := \<lparr>sq_project = 0, sq_object = 0, sq_instance = 0, sq_ref = 0, sq_root = 0\<rparr>\<rparr>"

abbreviation same_epoch :: "('e, 'a) store_step \<Rightarrow> bool" where "same_epoch \<equiv> preserves sd_epoch"

lemma kept_epoch: "preserves kept_fields m \<Longrightarrow> same_epoch m"
  by (simp add: preserves_def)

lemma epoch_layers [intro]: "same_epoch (delete_layers ids)" "same_epoch purge_eph_layers"
proof -
  show "same_epoch (delete_layers ids)" for ids by (simp add: preserves_def delete_layers_def Let_def)
  then show "same_epoch purge_eph_layers" by (simp add: preserves_def purge_eph_layers_def)
qed

lemma epoch_upload [intro]: "same_epoch m \<Longrightarrow> same_epoch (in_upload m)"
  by (simp add: preserves_def in_upload_def split: prod.split) (metis snd_conv)

lemma epoch_projects [intro]:
  "same_epoch (\<lambda>db. (Inr (h db), delete_project_row pid db))" "same_epoch (\<lambda>db. (Inr (), delete_project_data pid db))"
  "same_epoch (\<lambda>db. (Inr (), set_status pid st db))" "same_epoch (insert_project now h' name path st' ot)"
  "same_epoch (claim_symbol_chunk pid seq)" "same_epoch (claim_object_chunk pid seq)"
  by (simp_all add: preserves_def delete_project_row_def delete_project_data_def delete_symbol_rows_def Let_def set_status_def
      insert_project_def claim_symbol_chunk_def claim_object_chunk_def)

lemma epoch_create [intro]: "same_epoch (create_project now h name path st ot)"
proof -
  have "same_epoch (delete_zombie p)" for p
    unfolding delete_zombie_def by (intro preserves_bind preserves_return epoch_layers epoch_upload epoch_projects)
  then have "same_epoch (sbind (delete_zombie p) (\<lambda>_. insert_project now h name path st ot))" for p by blast
  moreover have "same_epoch (insert_project now h name path st ot)" by blast
  ultimately show ?thesis
    by (simp add: preserves_def create_project_def split: option.split upload_status.split)
qed

lemma epoch_clear: "same_epoch m \<Longrightarrow> sd_epoch (snd (clear_on_drop m db)) = Suc (sd_epoch db)"
proof -
  assume "same_epoch m"
  moreover obtain r db' where "m db = (r, db')" by (cases "m db")
  ultimately have "m db = (r, db')" "sd_epoch db' = sd_epoch db" unfolding preserves_def by (metis snd_conv)+
  then show ?thesis by (simp add: clear_on_drop_def)
qed

lemma epoch_transaction: "same_epoch m \<Longrightarrow> sd_epoch (snd (clear_on_drop (transaction m) db)) = Suc (sd_epoch db)"
proof (rule epoch_clear)
  assume same: "same_epoch m"
  have "sd_epoch (snd (transaction m s)) = sd_epoch s" for s
  proof -
    obtain r s' where m: "m s = (r, s')" by (cases "m s")
    have "sd_epoch s' = sd_epoch s" using same m unfolding preserves_def by (metis snd_conv)
    then show ?thesis using m by (cases r) (simp_all add: transaction_def)
  qed
  then show "same_epoch (transaction m)" by (simp add: preserves_def)
qed

text \<open>
  C22. No operation changes what a query can read without advancing the epoch of the cache of query
  results, on success and on failure; the epoch never goes back.
\<close>

theorem changes_advance_epoch:
  "(if readable (store_run sha q db) = readable db then sd_epoch db \<le> sd_epoch (store_run sha q db)
    else sd_epoch db < sd_epoch (store_run sha q db))"
proof (cases q)
  case (OpUpload now h u st ot)
  then show ?thesis using epoch_transaction [OF epoch_create, of now h "trim (up_name u)" "trim (up_root_path u)" st ot db]
    by (auto simp: upload_index_def Let_def sfail_def)
next
  case (OpSymbols pid seq symbols)
  have "same_epoch (sbind (claim_symbol_chunk pid seq) (\<lambda>inserted. if inserted = 0 then sreturn ()
      else sbind (root_layer_of pid) (\<lambda>root. sbind (slift (build_symbols pid root symbols)) (\<lambda>rows.
        sbind (smap insert_symbols (chunks MAX_SYMBOL_INSERT_ROWS rows)) (\<lambda>_. sreturn ())))))"
    by (intro preserves_bind preserves_if preserves_return epoch_projects kept_epoch [OF preserves_symbols])
  from epoch_transaction [OF this] show ?thesis using OpSymbols by (simp add: upload_symbol_chunk_def)
next
  case (OpObjects pid seq u)
  have "same_epoch (sbind (claim_object_chunk pid seq) (\<lambda>inserted. if inserted = 0 then sreturn ()
      else do_upload_objects sha pid (up_objects u)))"
    by (intro preserves_bind preserves_if preserves_return epoch_projects kept_epoch [OF preserves_objects])
  from epoch_transaction [OF this] show ?thesis using OpObjects by (simp add: upload_object_chunk_def sfail_def)
next
  case (OpContents cs)
  have "same_epoch (sbind (slift (collect_results (map (content_row sha) cs))) (\<lambda>rows.
      sbind (smap insert_contents (chunks MAX_INSERT_ROWS rows)) (\<lambda>counts. sreturn (sum_list counts))))"
    by (rule kept_epoch) blast
  from epoch_clear [OF this] show ?thesis using OpContents by (simp add: upload_contents_def)
next
  case (OpFinalize pid)
  have go: "same_epoch (sbind (slift a) (\<lambda>_. sbind (slift b) (\<lambda>_. finish pid)))" for a b :: "upload_error + unit"
    unfolding finish_def by blast
  have "same_epoch (\<lambda>db. case find_project pid db of
         None \<Rightarrow> (Inr False, db)
       | Some p \<Rightarrow>
           (case pj_status p of
              Complete \<Rightarrow> (Inr True, db)
            | Uploading \<Rightarrow>
                sbind (slift (check_total ''symbol'' (committed_chunks pid (sd_symbol_chunks db)) (pj_symbol_chunks p))) (\<lambda>_.
                sbind (slift (check_total ''object'' (committed_chunks pid (sd_object_chunks db)) (pj_object_chunks p))) (\<lambda>_.
                finish pid)) db
            | _ \<Rightarrow> (Inl Conflict, db)))"
    using go by (simp add: preserves_def split: option.split upload_status.split)
  from epoch_transaction [OF this] show ?thesis using OpFinalize by (simp add: finalize_project_def)
next
  case (OpDelete pid)
  have "same_epoch (sbind (\<lambda>db. (Inr (), delete_project_data pid db)) (\<lambda>_.
        sbind (\<lambda>db. (Inr (map_option pj_root_layer (find_project pid db)), delete_project_row pid db)) (\<lambda>root.
        sbind (case root of None \<Rightarrow> sreturn 0 | Some r \<Rightarrow> delete_layers [r]) (\<lambda>_.
        sbind purge_eph_layers (\<lambda>_. sreturn True)))))"
    by (intro preserves_bind epoch_projects) (auto split: option.split)
  from epoch_transaction [OF this] show ?thesis using OpDelete
    by (simp add: delete_project_def) (simp add: set_status_def)
next
  case OpClear
  obtain r db' where p: "purge_eph_layers (bump db) = (r, db')" by (cases "purge_eph_layers (bump db)")
  then have "sd_epoch db' = sd_epoch (bump db)" using epoch_layers(2) unfolding preserves_def by (metis snd_conv)
  then show ?thesis using OpClear p by (cases r) (simp_all add: clear_caches_def transaction_def)
qed

text \<open>
  C21. A chunk of objects takes effect as a whole and once: when it is refused nothing a query can
  read has changed; when it is accepted it is recorded, and whatever is sent again under its
  number is accepted without any effect (unless it carries symbols).
\<close>

theorem object_chunk_once:
  "case upload_object_chunk sha pid seq u db of
     (Inl e, db') \<Rightarrow> readable db' = readable db
   | (Inr _, db') \<Rightarrow> (pid, seq) \<in> set (sd_object_chunks db')
       \<and> readable (snd (upload_object_chunk sha pid seq v db')) = readable db'
       \<and> fst (upload_object_chunk sha pid seq v db') =
           (if up_symbols v \<noteq> [] then Inl (Invalid ''symbols must be uploaded in phase 1 (header) only'') else Inr ())"
proof -
  have failed: "readable db' = readable db" if "upload_object_chunk sha pid seq u db = (Inl e, db')" for e db'
    using that by (auto simp: upload_object_chunk_def sfail_def clear_on_drop_def transaction_def readable_def
        split: if_splits prod.splits sum.splits)
  have recorded: "(pid, seq) \<in> set (sd_object_chunks db')" if "upload_object_chunk sha pid seq u db = (Inr r, db')" for r db'
    using object_chunk_done [of sha pid seq u db db'] that by simp
  have again: "upload_object_chunk sha pid seq v db' =
      (if up_symbols v \<noteq> [] then (Inl (Invalid ''symbols must be uploaded in phase 1 (header) only''), db') else (Inr (), bump db'))"
    if "(pid, seq) \<in> set (sd_object_chunks db')" for db'
    using that by (simp add: upload_object_chunk_def sfail_def clear_on_drop_def transaction_def sbind_def
        claim_object_chunk_def sreturn_def)
  show ?thesis
  proof (cases "upload_object_chunk sha pid seq u db")
    case (Pair r db')
    then show ?thesis
      using failed recorded again by (cases r) (auto simp: readable_def)
  qed
qed

end
