(* ===== verification/Project_Tree.thy ===== *)
theory Project_Tree
  imports Upload "HOL-Library.Char_ord" "HOL-Library.List_Lexorder" "HOL-Library.Product_Lexorder"
begin

section \<open>The file tree of a project\<close>

text \<open>
  \<open>list_project_tree_multi\<close> of \<open>askld/src/index_store/query.rs\<close> with its two batch queries and the
  folding of chains of directories: the children of several directories of a complete project.
  The queries work on the names of directory and file symbols and on the number of labels of
  their stored path.  The order in which a query returns rows is overridden by the sort of every
  node list, except for rows that agree on kind and path, which come in the order of the tables.
\<close>

subsection \<open>Names\<close>

definition slash_count :: "string \<Rightarrow> nat" where
  "slash_count s = length (filter (\<lambda>c. c = slash) s)"

text \<open>\<open>nlevel\<close> of an ltree.\<close>

definition nlevel :: "string \<Rightarrow> nat" where
  "nlevel path = (if path = [] then 0 else length (split_on (\<lambda>c. c = CHR ''.'') path))"

definition has_prefix :: "string \<Rightarrow> string \<Rightarrow> bool" where
  "has_prefix p s \<longleftrightarrow> take (length p) s = p"

text \<open>\<open>left(name, length(name) - position('/' IN reverse(name)))\<close>.\<close>

definition parent_dir :: "string \<Rightarrow> string" where
  "parent_dir s = (if slash \<in> set s then rev (tl (dropWhile (\<lambda>c. c \<noteq> slash) (rev s))) else s)"

definition compact_parent :: "string \<Rightarrow> string" where
  "compact_parent s = (if slash \<notin> set (dropWhile (\<lambda>c. c = slash) s) then [slash] else parent_dir s)"

definition tree_prefix :: "string \<Rightarrow> string" where
  "tree_prefix p = (if p = [slash] then [slash] else p @ [slash])"

subsection \<open>Rows and nodes\<close>

datatype node_type = DirNode | FileNode

record dir_row =
  dr_path :: string
  dr_parent_prefix :: string
  dr_has_children :: bool
  dr_compact_path :: "string option"

record file_row =
  fr_id :: int
  fr_path :: string
  fr_filetype :: string
  fr_parent_prefix :: string

record tree_node =
  tn_name :: string
  tn_path :: string
  tn_type :: node_type
  tn_has_children :: bool
  tn_file_id :: "int option"
  tn_filetype :: "string option"
  tn_compact_path :: "string option"

datatype multi_tree_result =
    ProjectNotFound
  | NotReady
  | NotDirectory string
  | Nodes "string \<rightharpoonup> tree_node list"

definition project_symbols :: "int \<Rightarrow> int \<Rightarrow> int \<Rightarrow> store_db \<Rightarrow> symbol_row list" where
  "project_symbols pid root ty db =
     filter (\<lambda>s. sy_project_id s = pid \<and> sy_layer s = root \<and> sy_type s = ty) (sd_symbols db)"

subsection \<open>Chains of directories\<close>

definition query_compactable_dirs :: "int \<Rightarrow> int \<Rightarrow> store_db \<Rightarrow> (string \<times> string) list" where
  "query_compactable_dirs pid root db =
     (let children = filter (\<lambda>s. sy_project_id s = pid \<and> sy_layer s = root
            \<and> (sy_type s = SYMBOL_TYPE_DIRECTORY \<or> sy_type s = SYMBOL_TYPE_FILE) \<and> sy_name s \<noteq> [slash]) (sd_symbols db);
          parents = remdups (map (\<lambda>s. compact_parent (sy_name s)) children)
      in concat (map (\<lambda>p. case filter (\<lambda>s. compact_parent (sy_name s) = p) children of
             [s] \<Rightarrow> (if sy_type s = SYMBOL_TYPE_DIRECTORY then [(p, sy_name s)] else [])
           | _ \<Rightarrow> []) parents))"

text \<open>The loop; not returning is \<open>None\<close>.\<close>

partial_function (option) walk_chain :: "(string \<rightharpoonup> string) \<Rightarrow> string \<Rightarrow> string option" where
  "walk_chain m current =
     (if length current \<le> 4096
      then (case m current of None \<Rightarrow> Some current | Some next \<Rightarrow> walk_chain m next)
      else Some current)"

definition walk_compact_chain :: "string \<Rightarrow> (string \<rightharpoonup> string) \<Rightarrow> string option option" where
  "walk_compact_chain start m = map_option (\<lambda>c. if c \<noteq> start then Some c else None) (walk_chain m start)"

subsection \<open>The batch queries\<close>

definition unique_prefixes :: "string list \<Rightarrow> string list" where
  "unique_prefixes paths = rev (remdups (rev (map tree_prefix paths)))"

text \<open>The names above the grandchildren of the prefixes.\<close>

definition child_parents :: "int \<Rightarrow> int \<Rightarrow> int \<Rightarrow> string list \<Rightarrow> store_db \<Rightarrow> string list" where
  "child_parents pid root ty pfxs db =
     concat (map (\<lambda>p. map (\<lambda>c. parent_dir (sy_name c))
       (filter (\<lambda>c. nlevel (sy_path c) = slash_count p + 1 \<and> has_prefix p (sy_name c)) (project_symbols pid root ty db))) pfxs)"

definition dir_rows_of :: "int \<Rightarrow> int \<Rightarrow> string list \<Rightarrow> store_db \<Rightarrow> dir_row list" where
  "dir_rows_of pid root pfxs db =
     (let dir_parents = child_parents pid root SYMBOL_TYPE_DIRECTORY pfxs db;
          file_parents = child_parents pid root SYMBOL_TYPE_FILE pfxs db
      in concat (map (\<lambda>p. map (\<lambda>s. \<lparr>dr_path = sy_name s, dr_parent_prefix = p,
             dr_has_children = (sy_name s \<in> set dir_parents \<or> sy_name s \<in> set file_parents), dr_compact_path = None\<rparr>)
           (filter (\<lambda>s. nlevel (sy_path s) = slash_count p \<and> has_prefix p (sy_name s) \<and> sy_name s \<noteq> p)
             (project_symbols pid root SYMBOL_TYPE_DIRECTORY db))) pfxs))"

definition file_rows_of :: "int \<Rightarrow> int \<Rightarrow> string list \<Rightarrow> store_db \<Rightarrow> file_row list" where
  "file_rows_of pid root pfxs db =
     remdups (concat (map (\<lambda>p. concat (map (\<lambda>fs. concat (map (\<lambda>i.
         map (\<lambda>ob. \<lparr>fr_id = ob_id ob, fr_path = sy_name fs, fr_filetype = ob_filetype ob, fr_parent_prefix = p\<rparr>)
           (filter (\<lambda>ob. ob_id ob = in_object_id i) (sd_objects db)))
       (filter (\<lambda>i. in_symbol i = sy_id fs \<and> in_layer i = root) (sd_instances db))))
       (filter (\<lambda>fs. nlevel (sy_path fs) = slash_count p \<and> has_prefix p (sy_name fs))
         (project_symbols pid root SYMBOL_TYPE_FILE db)))) pfxs))"

definition add_compact_path :: "(string \<rightharpoonup> string) \<Rightarrow> dir_row \<Rightarrow> dir_row option" where
  "add_compact_path m row = map_option (\<lambda>c. row\<lparr>dr_compact_path := c\<rparr>) (walk_compact_chain (dr_path row) m)"

definition load_tree_children_multi ::
  "int \<Rightarrow> int \<Rightarrow> string list \<Rightarrow> bool \<Rightarrow> store_db \<Rightarrow> (dir_row list \<times> file_row list) option" where
  "load_tree_children_multi pid root paths compact db =
     (let pfxs = unique_prefixes paths; dirs = dir_rows_of pid root pfxs db;
          files = file_rows_of pid root pfxs db
      in if compact
         then map_option (\<lambda>ds. (ds, files))
           (those (map (add_compact_path (map_of (query_compactable_dirs pid root db))) dirs))
         else Some (dirs, files))"

subsection \<open>The listing\<close>

definition dir_node :: "dir_row \<Rightarrow> tree_node" where
  "dir_node r = \<lparr>tn_name = path_basename (dr_path r), tn_path = dr_path r, tn_type = DirNode,
     tn_has_children = dr_has_children r, tn_file_id = None, tn_filetype = None, tn_compact_path = dr_compact_path r\<rparr>"

definition file_node :: "file_row \<Rightarrow> tree_node" where
  "file_node r = \<lparr>tn_name = path_basename (fr_path r), tn_path = fr_path r, tn_type = FileNode,
     tn_has_children = False, tn_file_id = Some (fr_id r), tn_filetype = Some (fr_filetype r), tn_compact_path = None\<rparr>"

text \<open>Directories come first, then the order of the bytes of the paths.\<close>

definition node_key :: "tree_node \<Rightarrow> bool \<times> string" where
  "node_key n = (tn_type n = FileNode, tn_path n)"

definition group_nodes :: "string list \<Rightarrow> dir_row list \<Rightarrow> file_row list \<Rightarrow> string \<rightharpoonup> tree_node list" where
  "group_nodes normalized dirs files q =
     (let path_of = map_of (map (\<lambda>p. (tree_prefix p, p)) normalized) in
      if q \<in> set normalized
      then Some (sort_key node_key
        (map dir_node (filter (\<lambda>r. path_of (dr_parent_prefix r) = Some q) dirs)
         @ map file_node (filter (\<lambda>r. path_of (fr_parent_prefix r) = Some q) files)))
      else None)"

definition list_project_tree_multi :: "int \<Rightarrow> string list \<Rightarrow> bool \<Rightarrow> store_db \<Rightarrow> multi_tree_result option" where
  "list_project_tree_multi pid paths compact db =
     (if paths = [] then Some (Nodes Map.empty)
      else (case find_project pid db of
              None \<Rightarrow> Some ProjectNotFound
            | Some p \<Rightarrow>
                if pj_status p \<noteq> Complete then Some NotReady
                else
                  (let root = pj_root_layer p; normalized = map normalize_full_path paths;
                       non_root = filter (\<lambda>q. q \<noteq> [slash]) normalized;
                       found = map sy_name (project_symbols pid root SYMBOL_TYPE_DIRECTORY db)
                   in case List.find (\<lambda>q. q \<notin> set found) non_root of
                        Some invalid \<Rightarrow> Some (NotDirectory invalid)
                      | None \<Rightarrow>
                          map_option (\<lambda>(dirs, files). Nodes (group_nodes normalized dirs files))
                            (load_tree_children_multi pid root normalized compact db))))"

subsection \<open>The chains end\<close>

lemma parent_dir_shorter: "slash \<in> set s \<Longrightarrow> length (parent_dir s) < length s"
proof -
  assume s: "slash \<in> set s"
  then have "dropWhile (\<lambda>c. c \<noteq> slash) (rev s) \<noteq> []" by (auto simp: dropWhile_eq_Nil_conv)
  then obtain d ds where d: "dropWhile (\<lambda>c. c \<noteq> slash) (rev s) = d # ds" by (cases "dropWhile (\<lambda>c. c \<noteq> slash) (rev s)") auto
  have "length (d # ds) \<le> length s" using length_dropWhile_le [of "\<lambda>c. c \<noteq> slash" "rev s"] by (simp only: d length_rev)
  then show ?thesis using s d by (simp add: parent_dir_def)
qed

lemma single_row:
  "(p, c) \<in> set (case ys of [s] \<Rightarrow> (if P s then [(q, f s)] else []) | _ \<Rightarrow> []) \<Longrightarrow> \<exists>s. ys = [s] \<and> f s = c \<and> q = p"
  by (auto split: list.splits if_splits)

lemma compactable_props:
  assumes "(p, c) \<in> set (query_compactable_dirs pid root db)"
  shows "c \<noteq> [slash]" "p \<noteq> [slash] \<Longrightarrow> length p < length c" "c \<in> set (map sy_name (sd_symbols db))"
proof -
  obtain s where s: "s \<in> set (sd_symbols db)" "sy_name s = c" "c \<noteq> [slash]" "compact_parent c = p"
  proof -
    obtain xs s where "filter (\<lambda>s. compact_parent (sy_name s) = p) xs = [s]" "sy_name s = c"
      "set xs \<subseteq> set (sd_symbols db)" "\<forall>s\<in>set xs. sy_name s \<noteq> [slash]"
    proof -
      define xs where "xs = filter (\<lambda>s. sy_project_id s = pid \<and> sy_layer s = root
            \<and> (sy_type s = SYMBOL_TYPE_DIRECTORY \<or> sy_type s = SYMBOL_TYPE_FILE) \<and> sy_name s \<noteq> [slash]) (sd_symbols db)"
      obtain q where mem: "(p, c) \<in> set (case filter (\<lambda>s. compact_parent (sy_name s) = q) xs of
             [s] \<Rightarrow> (if sy_type s = SYMBOL_TYPE_DIRECTORY then [(q, sy_name s)] else []) | _ \<Rightarrow> [])"
        using assms by (auto simp: query_compactable_dirs_def Let_def simp flip: xs_def)
      from single_row [OF mem] obtain s where s: "filter (\<lambda>s. compact_parent (sy_name s) = q) xs = [s]" "sy_name s = c" "q = p"
        by (elim exE conjE)
      show thesis by (rule that [of xs s]) (use s in \<open>auto simp: xs_def\<close>)
    qed
    then have "s \<in> set xs" "compact_parent (sy_name s) = p"
      using filter_eq_ConsD [of "\<lambda>s. compact_parent (sy_name s) = p" xs s "[]"] by auto
    then show thesis using that [of s] \<open>sy_name s = c\<close> \<open>set xs \<subseteq> _\<close> \<open>\<forall>s\<in>set xs. _\<close> by auto
  qed
  show "c \<noteq> [slash]" by fact
  show "c \<in> set (map sy_name (sd_symbols db))" using s by auto
  assume "p \<noteq> [slash]"
  then have "slash \<in> set (dropWhile (\<lambda>c. c = slash) c)" "p = parent_dir c" using s(4) by (auto simp: compact_parent_def split: if_splits)
  then show "length p < length c" using parent_dir_shorter set_dropWhileD by metis
qed

lemma walk_chain_returns:
  assumes grows: "\<And>p c. m p = Some c \<Longrightarrow> c \<noteq> [slash] \<and> (p \<noteq> [slash] \<longrightarrow> length p < length c) \<and> length c \<le> n"
  shows "\<exists>r. walk_chain m current = Some r"
proof -
  have deep: "\<exists>r. walk_chain m cur = Some r" if "cur \<noteq> [slash]" for cur
    using that
  proof (induction "Suc n - length cur" arbitrary: cur rule: less_induct)
    case less
    show ?case
    proof (cases "length cur \<le> 4096 \<and> m cur \<noteq> None")
      case True
      then obtain nxt where nxt: "m cur = Some nxt" by blast
      note g = grows [OF nxt]
      then have "length cur < length nxt" "length nxt \<le> n" using less.prems by auto
      then have "Suc n - length nxt < Suc n - length cur" by arith
      then show ?thesis using less.hyps [of nxt] g nxt True by (simp add: walk_chain.simps [of m cur])
    qed (auto simp: walk_chain.simps [of m cur])
  qed
  show ?thesis
  proof (cases "current = [slash]")
    case True
    show ?thesis
    proof (cases "m current")
      case (Some nxt)
      then show ?thesis using deep [of nxt] grows [OF Some] True by (simp add: walk_chain.simps [of m "[slash]"])
    qed (simp add: walk_chain.simps [of m current])
  qed (rule deep)
qed

lemma compact_chain_returns:
  "\<exists>c. walk_compact_chain start (map_of (query_compactable_dirs pid root db)) = Some c"
proof -
  let ?m = "map_of (query_compactable_dirs pid root db)" and ?n = "Max (insert 0 (set (map (\<lambda>s. length (sy_name s)) (sd_symbols db))))"
  have "\<exists>r. walk_chain ?m start = Some r"
  proof (rule walk_chain_returns [where n = ?n])
    fix p c assume "?m p = Some c"
    then have mem: "(p, c) \<in> set (query_compactable_dirs pid root db)" by (rule map_of_SomeD)
    note props = compactable_props [OF mem]
    have "length c \<in> set (map (\<lambda>s. length (sy_name s)) (sd_symbols db))" using props(3) by auto
    then have "length c \<le> ?n" by (intro Max_ge) auto
    then show "c \<noteq> [slash] \<and> (p \<noteq> [slash] \<longrightarrow> length p < length c) \<and> length c \<le> ?n" using props by blast
  qed
  then show ?thesis by (auto simp: walk_compact_chain_def)
qed

lemma add_compact_paths:
  "\<exists>ds. those (map (add_compact_path (map_of (query_compactable_dirs pid root db))) rows) = Some ds
     \<and> map (\<lambda>r. r\<lparr>dr_compact_path := None\<rparr>) ds = map (\<lambda>r. r\<lparr>dr_compact_path := None\<rparr>) rows"
proof (induction rows)
  case (Cons r rows)
  obtain c where "walk_compact_chain (dr_path r) (map_of (query_compactable_dirs pid root db)) = Some c"
    using compact_chain_returns by blast
  then show ?case using Cons by (auto simp: add_compact_path_def)
qed simp

lemma tree_rows_load:
  "\<exists>ds. load_tree_children_multi pid root paths compact db = Some (ds, file_rows_of pid root (unique_prefixes paths) db)
     \<and> map (\<lambda>r. r\<lparr>dr_compact_path := None\<rparr>) ds = map (\<lambda>r. r\<lparr>dr_compact_path := None\<rparr>) (dir_rows_of pid root (unique_prefixes paths) db)"
  using add_compact_paths [of pid root db "dir_rows_of pid root (unique_prefixes paths) db"]
  by (cases compact) (auto simp: load_tree_children_multi_def Let_def)

text \<open>
  C23. The listing of a tree returns for every store, project and list of paths: the loop that
  follows chains of single directories ends, although its bound on the length of a path would not
  stop a cycle of short names; names of children grow, except below the root, which is no child.
\<close>

theorem tree_listing_returns: "\<exists>r. list_project_tree_multi pid paths compact db = Some r"
  using tree_rows_load [of pid _ _ compact db]
  by (auto simp: list_project_tree_multi_def Let_def split: option.split)
   (metis option.simps(9))+

end
