(* ===== verification/Project_Tree_Exact.thy ===== *)
theory Project_Tree_Exact
  imports Project_Tree Upload_Exact
begin

text \<open>
  What the tree listing returns: for names every component of which leaves exactly one label in
  the stored path, the children of a directory are the symbols one component below it.
\<close>

subsection \<open>Absolute names\<close>

abbreviation abs_path :: "string list \<Rightarrow> string" where "abs_path ws \<equiv> slash # join_with [slash] ws"

text \<open>A component that leaves one label: it has a letter, digit, underscore or dot, and no colon.\<close>

definition plain_component :: "string \<Rightarrow> bool" where
  "plain_component w \<longleftrightarrow> clean_component w \<and> CHR '':'' \<notin> set w \<and> list_ex (\<lambda>c. is_leaf_char c \<or> c = CHR ''.'') w"

definition tree_name :: "string \<Rightarrow> bool" where
  "tree_name s \<longleftrightarrow> s = abs_path (resolve_components s) \<and> list_all plain_component (resolve_components s)"

definition child_of :: "string \<Rightarrow> string \<Rightarrow> bool" where
  "child_of q s \<longleftrightarrow> resolve_components s \<noteq> [] \<and> butlast (resolve_components s) = resolve_components q"

lemma tree_nameE:
  assumes "tree_name s"
  obtains ws where "s = abs_path ws" "resolve_components s = ws" "\<forall>w\<in>set ws. plain_component w" "\<forall>w\<in>set ws. clean_component w"
  using assms that [of "resolve_components s"] by (auto simp: tree_name_def list_all_iff plain_component_def)

abbreviation trail :: "string list \<Rightarrow> string" where "trail ws \<equiv> concat (map (\<lambda>w. w @ [slash]) ws)"

lemma join_snoc: "join_with [slash] (ws @ [w]) = trail ws @ w"
proof (induction ws)
  case (Cons v ws)
  then show ?case by (cases ws) simp_all
qed simp

lemma abs_path_snoc: "abs_path (ws @ [w]) = slash # trail ws @ w" by (simp add: join_snoc)

lemma prefix_form:
  assumes "\<forall>w\<in>set ws. clean_component w"
  shows "tree_prefix (abs_path ws) = slash # trail ws"
proof (cases ws rule: rev_cases)
  case (snoc vs v)
  then have "v \<noteq> []" using assms by (simp add: clean_component_def)
  then show ?thesis using snoc by (simp add: tree_prefix_def join_snoc)
qed (simp add: tree_prefix_def)

lemma split_trail:
  "\<forall>w\<in>set ws. slash \<notin> set w \<Longrightarrow> split_on (\<lambda>c. c = slash) (trail ws @ rest) = ws @ split_on (\<lambda>c. c = slash) rest"
proof (induction ws)
  case (Cons w ws)
  have "\<forall>c\<in>set w. c \<noteq> slash" using Cons.prems by auto
  then have "split_on (\<lambda>c. c = slash) (w @ slash # (trail ws @ rest)) = w # split_on (\<lambda>c. c = slash) (trail ws @ rest)"
    by (rule split_on_append_sep) simp
  then show ?case using Cons by simp
qed simp

lemma count_prefix:
  assumes "\<forall>w\<in>set ws. clean_component w"
  shows "slash_count (tree_prefix (abs_path ws)) = Suc (length ws)"
proof -
  have "\<forall>w\<in>set ws. slash \<notin> set w \<Longrightarrow> length (filter (\<lambda>c. c = slash) (trail ws)) = length ws"
    by (induction ws) (auto simp: filter_empty_conv)
  then show ?thesis using assms by (simp add: prefix_form slash_count_def clean_component_def)
qed

lemma split_abs:
  assumes "\<forall>w\<in>set ws. clean_component w" "ws \<noteq> []"
  shows "split_on (\<lambda>c. c = slash) (abs_path ws) = [] # ws"
  using assms split_on_join [of ws "\<lambda>c. c = slash" slash] by (auto simp: clean_component_def)

lemma abs_path_inj:
  assumes "\<forall>w\<in>set ws. clean_component w" "\<forall>w\<in>set vs. clean_component w" "abs_path ws = abs_path vs"
  shows "ws = vs"
  using resolve_join(2) [OF assms(1)] resolve_join(2) [OF assms(2)] assms(3) by metis

lemma has_prefix_append: "has_prefix p (p @ s)" by (simp add: has_prefix_def)

lemma below_prefix:
  assumes "\<forall>w\<in>set ws. clean_component w" "us \<noteq> []"
  shows "has_prefix (tree_prefix (abs_path ws)) (abs_path (ws @ us))"
proof -
  obtain u x where us: "us = u @ [x]" using assms(2) by (cases us rule: rev_cases) auto
  have "abs_path (ws @ us) = (slash # trail ws) @ (trail u @ x)"
    using abs_path_snoc [of "ws @ u" x] by (simp add: us)
  then show ?thesis unfolding prefix_form [OF assms(1)] by (simp only: has_prefix_append)
qed

lemma child_prefix:
  assumes ws: "\<forall>w\<in>set ws. clean_component w" and vs: "\<forall>w\<in>set vs. clean_component w" and len: "length vs = Suc (length ws)"
  shows "has_prefix (tree_prefix (abs_path ws)) (abs_path vs) \<longleftrightarrow> butlast vs = ws"
proof
  assume "has_prefix (tree_prefix (abs_path ws)) (abs_path vs)"
  then obtain rest where rest: "abs_path vs = slash # trail ws @ rest"
    unfolding has_prefix_def prefix_form [OF ws] by (metis append_Cons append_take_drop_id)
  have "split_on (\<lambda>c. c = slash) (slash # trail ws @ rest) = [] # ws @ split_on (\<lambda>c. c = slash) rest"
    using split_trail [of ws rest] ws by (simp add: clean_component_def)
  moreover have "split_on (\<lambda>c. c = slash) (abs_path vs) = [] # vs" by (rule split_abs [OF vs]) (use len in auto)
  ultimately have "[] # vs = [] # ws @ split_on (\<lambda>c. c = slash) rest" using rest by simp
  then have vs_eq: "vs = ws @ split_on (\<lambda>c. c = slash) rest" by simp
  then have "length (split_on (\<lambda>c. c = slash) rest) = 1" using len by simp
  then obtain x where "split_on (\<lambda>c. c = slash) rest = [x]" by (auto simp: length_Suc_conv)
  then show "butlast vs = ws" using vs_eq by simp
next
  assume eq: "butlast vs = ws"
  have "vs \<noteq> []" using len by auto
  then have vs_eq: "ws @ [last vs] = vs" using eq append_butlast_last_id [of vs] by simp
  show "has_prefix (tree_prefix (abs_path ws)) (abs_path vs)"
    using below_prefix [OF ws, of "[last vs]"] unfolding vs_eq by simp
qed

lemma parent_abs:
  assumes "clean_component c" "ds \<noteq> []"
  shows "parent_dir (abs_path (ds @ [c])) = abs_path ds"
proof -
  obtain es e where ds: "ds = es @ [e]" using assms(2) by (cases ds rule: rev_cases) auto
  have eq: "abs_path (ds @ [c]) = (slash # trail es @ e) @ slash # c" unfolding abs_path_snoc by (simp add: ds)
  have "slash \<notin> set c" using assms(1) by (simp add: clean_component_def)
  then have "dropWhile (\<lambda>c. c \<noteq> slash) (rev c @ slash # rev (slash # trail es @ e)) = slash # rev (slash # trail es @ e)"
    by (intro dropWhile_append3 [THEN trans]) (auto simp: dropWhile_append)
  then show ?thesis unfolding eq by (simp add: parent_dir_def ds join_snoc)
qed

subsection \<open>Levels\<close>

lemma level_tokens:
  assumes "\<forall>w\<in>set ws. plain_component w" "ws \<noteq> []"
  shows "length (normalize_symbol_tokens (replace_char CHR ''.'' CHR ''_'' (abs_path ws))) = length ws"
proof -
  define g where "g = (\<lambda>w :: string. filter (\<lambda>c. c \<notin> set chars_to_remove) (replace_char CHR ''.'' CHR ''_'' w))"
  have rep: "replace_char a b (xs @ ys) = replace_char a b xs @ replace_char a b ys"
    "replace_char a b (c # xs) = (if c = a then b else c) # replace_char a b xs" for a b c xs ys
    by (simp_all add: replace_char_def)
  have kept: "slash \<notin> set chars_to_remove" by (simp add: chars_to_remove_def)
  have join: "filter (\<lambda>c. c \<notin> set chars_to_remove) (replace_char CHR ''.'' CHR ''_'' (join_with [slash] vs)) = join_with [slash] (map g vs)" for vs
  proof (induction vs)
    case (Cons v vs)
    then show ?case using kept by (cases vs) (simp_all add: g_def rep)
  qed (simp add: replace_char_def)
  have whole: "filter (\<lambda>c. c \<notin> set chars_to_remove) (replace_char CHR ''.'' CHR ''_'' (abs_path ws)) = slash # join_with [slash] (map g ws)"
    using join [of ws] kept by (simp add: rep)
  have no_sep: "\<not> is_name_sep c" if "w \<in> set ws" "c \<in> set (g w)" for w c
    using assms that by (auto simp: plain_component_def clean_component_def g_def replace_char_def is_name_sep_def split: if_splits)
  have "split_on is_name_sep (join_with [slash] (map g ws)) = map g ws"
    by (rule split_on_join) (use assms(2) no_sep in \<open>auto simp: is_name_sep_def\<close>)
  then have split: "clean_and_split_string (replace_char CHR ''.'' CHR ''_'' (abs_path ws)) = filter (\<lambda>s. s \<noteq> []) (map g ws)"
    unfolding clean_and_split_string_def whole by (simp add: is_name_sep_def)
  have leaf: "filter is_leaf_char (g w) \<noteq> []" if w: "w \<in> set ws" for w
  proof -
    obtain c where c: "c \<in> set w" "is_leaf_char c \<or> c = CHR ''.''" using assms w by (auto simp: plain_component_def list_ex_iff)
    let ?d = "if c = CHR ''.'' then CHR ''_'' else c"
    have "is_leaf_char ?d" using c(2) by (auto simp: is_leaf_char_def)
    moreover from this have "?d \<notin> set chars_to_remove" using leaf_char_not_special by blast
    moreover have "?d \<in> set (replace_char CHR ''.'' CHR ''_'' w)" using c(1) by (force simp: replace_char_def)
    ultimately have "?d \<in> set (filter is_leaf_char (g w))" by (simp add: g_def)
    then show ?thesis by (metis empty_iff list.set(1))
  qed
  then have "\<forall>w\<in>set (map g ws). w \<noteq> []" by fastforce
  then have "filter (\<lambda>s. s \<noteq> []) (map g ws) = map g ws" by (simp add: filter_id_conv)
  moreover have "filter (\<lambda>t. t \<noteq> []) (map (filter is_leaf_char) (map g ws)) = map (filter is_leaf_char) (map g ws)"
    using leaf by (simp add: filter_id_conv)
  ultimately show ?thesis by (simp only: normalize_symbol_tokens_def split length_map)
qed

lemma level_of:
  assumes "\<forall>w\<in>set ws. plain_component w" "\<not> dot_is_separator ty"
  shows "nlevel (fst (symbol_path_and_leaf (abs_path ws) ty)) = (if ws = [] then 1 else length ws)"
proof -
  let ?s = "replace_char CHR ''.'' CHR ''_'' (abs_path ws)"
  have path: "fst (symbol_path_and_leaf (abs_path ws) ty) = symbol_name_to_path ?s"
    using assms(2) by (simp add: symbol_path_and_leaf_def Let_def)
  have "symbol_name_to_path ?s \<noteq> []"
  proof
    assume "symbol_name_to_path ?s = []"
    then have "[] \<in> set (path_labels (normalize_symbol_tokens ?s))" using split_dot_path [of ?s] by (metis list.set_intros(1) split_on.simps(1))
    then show False using path_labels_wf normalize_tokens_wf by blast
  qed
  then have "nlevel (symbol_name_to_path ?s) = length (path_labels (normalize_symbol_tokens ?s))"
    by (simp add: nlevel_def split_dot_path)
  also have "\<dots> = (if ws = [] then 1 else length ws)"
  proof (cases "ws = []")
    case True
    have "normalize_symbol_tokens (replace_char CHR ''.'' CHR ''_'' ''/'') = []" by code_simp
    then show ?thesis using True by (simp add: path_labels_def)
  next
    case False
    then show ?thesis using level_tokens [OF assms(1)] by (auto simp: path_labels_def)
  qed
  finally show ?thesis unfolding path .
qed

text \<open>Names outside that form are misplaced: a colon adds a level, a component without label hides.\<close>

lemma colon_adds_level:
  "nlevel (fst (symbol_path_and_leaf ''/a/b:c'' SYMBOL_TYPE_FILE)) = 3" "slash_count (tree_prefix ''/a'') = 2"
  "nlevel (fst (symbol_path_and_leaf ''/a/-'' SYMBOL_TYPE_DIRECTORY)) = 1"
  by code_simp+

subsection \<open>The rows of the queries\<close>

definition tree_symbols :: "int \<Rightarrow> int \<Rightarrow> store_db \<Rightarrow> symbol_row list" where
  "tree_symbols pid root db = project_symbols pid root SYMBOL_TYPE_DIRECTORY db @ project_symbols pid root SYMBOL_TYPE_FILE db"

definition names_ok :: "int \<Rightarrow> int \<Rightarrow> store_db \<Rightarrow> bool" where
  "names_ok pid root db \<longleftrightarrow> (\<forall>s\<in>set (tree_symbols pid root db). tree_name (sy_name s)
     \<and> nlevel (sy_path s) = (if resolve_components (sy_name s) = [] then 1 else length (resolve_components (sy_name s))))"

lemma set_unique_prefixes [simp]: "set (unique_prefixes paths) = tree_prefix ` set paths"
  by (simp add: unique_prefixes_def)

lemma mem_concat_map: "x \<in> set (concat (map f xs)) \<longleftrightarrow> (\<exists>a\<in>set xs. x \<in> set (f a))" by simp

lemma mem_map_filter: "x \<in> set (map f (filter P xs)) \<longleftrightarrow> (\<exists>a\<in>set xs. P a \<and> x = f a)" by auto

lemma clean_plain: "\<forall>w\<in>set ws. plain_component w \<Longrightarrow> \<forall>w\<in>set ws. clean_component w"
  by (simp add: plain_component_def)

lemma tree_name_level:
  assumes names: "names_ok pid root db" and s: "s \<in> set (tree_symbols pid root db)" and q: "tree_name q"
  shows "nlevel (sy_path s) = slash_count (tree_prefix q) \<and> has_prefix (tree_prefix q) (sy_name s) \<and> sy_name s \<noteq> [slash]
      \<longleftrightarrow> child_of q (sy_name s)" (is ?one)
    and "nlevel (sy_path s) = slash_count (tree_prefix q) + 1 \<and> has_prefix (tree_prefix q) (sy_name s) \<Longrightarrow>
      \<exists>c ds. resolve_components (sy_name s) = ds @ [c] \<and> ds \<noteq> [] \<and> parent_dir (sy_name s) = abs_path ds"
proof -
  obtain ws where ws: "q = abs_path ws" "resolve_components q = ws" "\<forall>w\<in>set ws. clean_component w" by (rule tree_nameE [OF q])
  have "tree_name (sy_name s)" using names s by (simp add: names_ok_def)
  then obtain vs where vs: "sy_name s = abs_path vs" "resolve_components (sy_name s) = vs" "\<forall>w\<in>set vs. clean_component w"
    by (rule tree_nameE)
  have level: "nlevel (sy_path s) = (if vs = [] then 1 else length vs)" using names s vs(2) by (simp add: names_ok_def)
  have count: "slash_count (tree_prefix q) = Suc (length ws)" unfolding ws(1) by (rule count_prefix [OF ws(3)])
  have root: "sy_name s = [slash] \<longleftrightarrow> vs = []" using vs abs_path_inj [OF vs(3), of "[]"] by auto
  show ?one
  proof (cases "vs = []")
    case False
    then have "child_of q (sy_name s) \<longleftrightarrow> butlast vs = ws" by (simp add: child_of_def vs(2) ws(2))
    moreover have "butlast vs = ws \<Longrightarrow> length vs = Suc (length ws)" using False by auto
    ultimately show ?thesis using child_prefix [OF ws(3) vs(3)] level count root False vs(1) ws(1) by auto
  next
    case True
    then have "\<not> child_of q (sy_name s)" using vs(2) by (simp add: child_of_def)
    then show ?thesis using True root by blast
  qed
  assume two: "nlevel (sy_path s) = slash_count (tree_prefix q) + 1 \<and> has_prefix (tree_prefix q) (sy_name s)"
  then have "length vs \<ge> 2" using level count by (auto split: if_splits)
  then have "vs \<noteq> []" "butlast vs \<noteq> []" by (auto simp flip: length_greater_0_conv)
  then obtain ds c where dc: "vs = ds @ [c]" "ds \<noteq> []" using append_butlast_last_id by metis
  then have "parent_dir (sy_name s) = abs_path ds" using parent_abs [of c ds] vs(1,3) by simp
  then show "\<exists>c ds. resolve_components (sy_name s) = ds @ [c] \<and> ds \<noteq> [] \<and> parent_dir (sy_name s) = abs_path ds"
    using dc vs(2) by blast
qed

text \<open>A directory has children exactly when a symbol lies one component below it.\<close>

lemma child_parents_exact:
  assumes names: "names_ok pid root db" and pfxs: "set pfxs = tree_prefix ` set qs" and qs: "\<forall>q\<in>set qs. tree_name q"
    and q: "q \<in> set qs" and s: "s \<in> set (tree_symbols pid root db)" "child_of q (sy_name s)"
  shows "sy_name s \<in> set (child_parents pid root SYMBOL_TYPE_DIRECTORY pfxs db)
      \<or> sy_name s \<in> set (child_parents pid root SYMBOL_TYPE_FILE pfxs db)
    \<longleftrightarrow> (\<exists>c\<in>set (tree_symbols pid root db). child_of (sy_name s) (sy_name c))"
proof -
  have member: "(x \<in> set (child_parents pid root SYMBOL_TYPE_DIRECTORY pfxs db) \<or> x \<in> set (child_parents pid root SYMBOL_TYPE_FILE pfxs db))
    \<longleftrightarrow> (\<exists>c\<in>set (tree_symbols pid root db). \<exists>r\<in>set qs. x = parent_dir (sy_name c)
          \<and> nlevel (sy_path c) = slash_count (tree_prefix r) + 1 \<and> has_prefix (tree_prefix r) (sy_name c))" for x
    unfolding child_parents_def tree_symbols_def by (auto simp: pfxs)
  have "tree_name (sy_name s)" using names s(1) by (simp add: names_ok_def)
  then obtain vs where vs: "sy_name s = abs_path vs" "resolve_components (sy_name s) = vs" "\<forall>w\<in>set vs. clean_component w"
    by (rule tree_nameE)
  show ?thesis unfolding member
  proof (intro iffI; elim bexE conjE)
    fix c r assume c: "c \<in> set (tree_symbols pid root db)" "r \<in> set qs" "sy_name s = parent_dir (sy_name c)"
      "nlevel (sy_path c) = slash_count (tree_prefix r) + 1" "has_prefix (tree_prefix r) (sy_name c)"
    obtain d ds where d: "resolve_components (sy_name c) = ds @ [d]" "parent_dir (sy_name c) = abs_path ds"
      using tree_name_level(2) [OF names c(1), of r] c qs by blast
    have "tree_name (sy_name c)" using names c(1) by (simp add: names_ok_def)
    then have "\<forall>w\<in>set ds. clean_component w" using d(1) by (auto simp: tree_name_def list_all_iff plain_component_def)
    from abs_path_inj [OF vs(3) this] have "vs = ds" using c(3) d(2) vs(1) by simp
    then have "child_of (sy_name s) (sy_name c)" using d vs(2) by (simp add: child_of_def)
    then show "\<exists>c\<in>set (tree_symbols pid root db). child_of (sy_name s) (sy_name c)" using c(1) by blast
  next
    fix c assume c: "c \<in> set (tree_symbols pid root db)" "child_of (sy_name s) (sy_name c)"
    have "tree_name (sy_name c)" using names c(1) by (simp add: names_ok_def)
    then obtain cs where cs: "sy_name c = abs_path cs" "resolve_components (sy_name c) = cs" "\<forall>w\<in>set cs. clean_component w"
      by (rule tree_nameE)
    have "tree_name q" using qs q by blast
    then obtain ws where ws: "q = abs_path ws" "resolve_components q = ws" "\<forall>w\<in>set ws. clean_component w" by (rule tree_nameE)
    have vs_ws: "vs \<noteq> []" "butlast vs = ws" using s(2) by (simp_all add: child_of_def vs(2) ws(2))
    have cs_vs: "cs \<noteq> []" "butlast cs = vs" using c(2) by (simp_all add: child_of_def cs(2) vs(2))
    have shape: "cs = vs @ [last cs]" "vs = ws @ [last vs]"
      using vs_ws cs_vs append_butlast_last_id [of vs] append_butlast_last_id [of cs] by simp_all
    have "clean_component (last cs)" using cs(3) cs_vs(1) by simp
    from parent_abs [OF this vs_ws(1)] have "parent_dir (sy_name c) = sy_name s" using shape(1) cs(1) vs(1) by metis
    moreover have "nlevel (sy_path c) = slash_count (tree_prefix q) + 1"
    proof -
      have "0 < length cs" "0 < length vs" using cs_vs(1) vs_ws(1) by simp_all
      moreover have "length vs = length cs - 1" "length ws = length vs - 1" using cs_vs(2) vs_ws(2) by (metis length_butlast)+
      ultimately have "length cs = Suc (Suc (length ws))" by arith
      moreover have "slash_count (tree_prefix q) = Suc (length ws)" unfolding ws(1) by (rule count_prefix [OF ws(3)])
      moreover have "nlevel (sy_path c) = length cs" using names c(1) cs(2) cs_vs(1) by (simp add: names_ok_def)
      ultimately show ?thesis by simp
    qed
    moreover have "has_prefix (tree_prefix q) (sy_name c)"
    proof -
      have "cs = ws @ [last vs, last cs]" using shape by (metis append.assoc append_Cons append_Nil)
      then show ?thesis using below_prefix [OF ws(3), of "[last vs, last cs]"] unfolding ws(1) cs(1) by simp
    qed
    ultimately show "\<exists>c\<in>set (tree_symbols pid root db). \<exists>r\<in>set qs. sy_name s = parent_dir (sy_name c)
          \<and> nlevel (sy_path c) = slash_count (tree_prefix r) + 1 \<and> has_prefix (tree_prefix r) (sy_name c)"
      using c(1) q by metis
  qed
qed

lemma reachable_names:
  assumes "store_reach sha db" "find_project pid db = Some p"
    and "list_all (\<lambda>s. tree_name (sy_name s)) (tree_symbols pid (pj_root_layer p) db)"
  shows "names_ok pid (pj_root_layer p) db"
  unfolding names_ok_def
proof
  fix s assume s: "s \<in> set (tree_symbols pid (pj_root_layer p) db)"
  have ok: "store_ok sha db" using store_reach_ok [OF assms(1)] by simp
  have "p \<in> set (sd_projects db)" using find_project_in [OF assms(2)] by simp
  then have "0 < pj_root_layer p" using root_layer_row [OF ok] by fastforce
  then have "symbol_typed s" "\<not> dot_is_separator (sy_type s)"
    using s ok by (auto simp: tree_symbols_def project_symbols_def store_ok_def symbols_ok_def dot_is_separator_def)
  then have path: "sy_path s = fst (symbol_path_and_leaf (sy_name s) (sy_type s))" and ty: "\<not> dot_is_separator (sy_type s)"
    by (simp_all add: symbol_typed_def flip: prod.sel(1)) (metis fst_conv)
  have name: "tree_name (sy_name s)" using assms(3) s by (simp add: list_all_iff)
  then obtain ws where ws: "sy_name s = abs_path ws" "resolve_components (sy_name s) = ws" "\<forall>w\<in>set ws. plain_component w"
    by (rule tree_nameE)
  show "tree_name (sy_name s) \<and> nlevel (sy_path s) =
      (if resolve_components (sy_name s) = [] then 1 else length (resolve_components (sy_name s)))"
    using name level_of [OF ws(3) ty] by (simp add: path ws(2) ws(1) [symmetric])
qed

lemma dir_rows_exact:
  assumes names: "names_ok pid root db" and qs: "\<forall>q\<in>set qs. tree_name q"
  shows "r \<in> set (dir_rows_of pid root (unique_prefixes qs) db) \<longleftrightarrow>
    (\<exists>s\<in>set (project_symbols pid root SYMBOL_TYPE_DIRECTORY db). \<exists>q\<in>set qs. child_of q (sy_name s)
       \<and> r = \<lparr>dr_path = sy_name s, dr_parent_prefix = tree_prefix q,
           dr_has_children = (\<exists>c\<in>set (tree_symbols pid root db). child_of (sy_name s) (sy_name c)), dr_compact_path = None\<rparr>)"
proof -
  let ?pf = "unique_prefixes qs"
  have prefix_root: "tree_prefix q \<noteq> sy_name s" if "q \<in> set qs" "s \<in> set (tree_symbols pid root db)" "sy_name s \<noteq> [slash]" for q s
  proof -
    note not_root = that(3)
    have "tree_name q" using qs \<open>q \<in> set qs\<close> by blast
    then obtain ws where ws: "q = abs_path ws" "\<forall>w\<in>set ws. clean_component w" by (rule tree_nameE)
    have "tree_name (sy_name s)" using names that(2) by (simp add: names_ok_def)
    then obtain vs where vs: "sy_name s = abs_path vs" "\<forall>w\<in>set vs. clean_component w" by (rule tree_nameE)
    then obtain v us where snoc: "vs = us @ [v]" using not_root by (cases vs rule: rev_cases) auto
    then have v: "v \<noteq> []" "slash \<notin> set v" using vs(2) by (simp_all add: clean_component_def)
    have "last (sy_name s) = last v" using v(1) by (simp add: vs(1) snoc join_snoc)
    then have "last (sy_name s) \<noteq> slash" using v last_in_set by metis
    moreover have "last (tree_prefix q) = slash"
      unfolding ws(1) prefix_form [OF ws(2)] by (cases ws rule: rev_cases) simp_all
    ultimately show ?thesis by metis
  qed
  have level: "nlevel (sy_path s) = slash_count (tree_prefix q) \<and> has_prefix (tree_prefix q) (sy_name s) \<and> sy_name s \<noteq> tree_prefix q
      \<longleftrightarrow> child_of q (sy_name s)"
    if s: "s \<in> set (project_symbols pid root SYMBOL_TYPE_DIRECTORY db)" and q: "q \<in> set qs" for s q
  proof -
    have mem: "s \<in> set (tree_symbols pid root db)" using s by (simp add: tree_symbols_def)
    have tn: "tree_name q" using qs q by blast
    note one = tree_name_level(1) [OF names mem tn]
    show ?thesis
    proof (cases "sy_name s = [slash]")
      case True
      obtain ws where ws: "q = abs_path ws" "\<forall>w\<in>set ws. clean_component w" using tn by (rule tree_nameE)
      have "resolve_components [slash] = []" by code_simp
      then have "nlevel (sy_path s) = 1" using names mem True by (simp add: names_ok_def)
      then have "nlevel (sy_path s) = slash_count (tree_prefix q) \<longrightarrow> tree_prefix q = [slash]"
        using count_prefix [OF ws(2)] ws(1) by (simp add: tree_prefix_def)
      then show ?thesis using one True by auto
    qed (use one prefix_root [OF q mem] in auto)
  qed
  have children: "(sy_name s \<in> set (child_parents pid root SYMBOL_TYPE_DIRECTORY ?pf db)
        \<or> sy_name s \<in> set (child_parents pid root SYMBOL_TYPE_FILE ?pf db))
      = (\<exists>c\<in>set (tree_symbols pid root db). child_of (sy_name s) (sy_name c))"
    if "s \<in> set (project_symbols pid root SYMBOL_TYPE_DIRECTORY db)" "q \<in> set qs" "child_of q (sy_name s)" for s q
    by (rule child_parents_exact [OF names _ qs that(2) _ that(3)]) (use that(1) in \<open>simp_all add: tree_symbols_def\<close>)
  have "r \<in> set (dir_rows_of pid root ?pf db) \<longleftrightarrow>
    (\<exists>s\<in>set (project_symbols pid root SYMBOL_TYPE_DIRECTORY db). \<exists>q\<in>set qs.
       (nlevel (sy_path s) = slash_count (tree_prefix q) \<and> has_prefix (tree_prefix q) (sy_name s) \<and> sy_name s \<noteq> tree_prefix q)
       \<and> r = \<lparr>dr_path = sy_name s, dr_parent_prefix = tree_prefix q,
           dr_has_children = (sy_name s \<in> set (child_parents pid root SYMBOL_TYPE_DIRECTORY ?pf db)
             \<or> sy_name s \<in> set (child_parents pid root SYMBOL_TYPE_FILE ?pf db)), dr_compact_path = None\<rparr>)"
    by (auto simp: dir_rows_of_def Let_def)
  also have "\<dots> \<longleftrightarrow> (\<exists>s\<in>set (project_symbols pid root SYMBOL_TYPE_DIRECTORY db). \<exists>q\<in>set qs. child_of q (sy_name s)
       \<and> r = \<lparr>dr_path = sy_name s, dr_parent_prefix = tree_prefix q,
           dr_has_children = (\<exists>c\<in>set (tree_symbols pid root db). child_of (sy_name s) (sy_name c)), dr_compact_path = None\<rparr>)"
  proof (intro bex_cong refl)
    fix s q assume sq: "s \<in> set (project_symbols pid root SYMBOL_TYPE_DIRECTORY db)" "q \<in> set qs"
    show "(nlevel (sy_path s) = slash_count (tree_prefix q) \<and> has_prefix (tree_prefix q) (sy_name s) \<and> sy_name s \<noteq> tree_prefix q)
       \<and> r = \<lparr>dr_path = sy_name s, dr_parent_prefix = tree_prefix q,
           dr_has_children = (sy_name s \<in> set (child_parents pid root SYMBOL_TYPE_DIRECTORY ?pf db)
             \<or> sy_name s \<in> set (child_parents pid root SYMBOL_TYPE_FILE ?pf db)), dr_compact_path = None\<rparr>
      \<longleftrightarrow> child_of q (sy_name s) \<and> r = \<lparr>dr_path = sy_name s, dr_parent_prefix = tree_prefix q,
           dr_has_children = (\<exists>c\<in>set (tree_symbols pid root db). child_of (sy_name s) (sy_name c)), dr_compact_path = None\<rparr>"
      unfolding level [OF sq] by (rule conj_cong [OF refl]) (simp only: children [OF sq])
  qed
  finally show ?thesis .
qed

lemma file_rows_exact:
  assumes names: "names_ok pid root db" and qs: "\<forall>q\<in>set qs. tree_name q"
    and files: "list_all (\<lambda>s. sy_name s \<noteq> [slash]) (project_symbols pid root SYMBOL_TYPE_FILE db)"
  shows "r \<in> set (file_rows_of pid root (unique_prefixes qs) db) \<longleftrightarrow>
    (\<exists>s\<in>set (project_symbols pid root SYMBOL_TYPE_FILE db). \<exists>q\<in>set qs. \<exists>i\<in>set (sd_instances db). \<exists>ob\<in>set (sd_objects db).
       child_of q (sy_name s) \<and> in_symbol i = sy_id s \<and> in_layer i = root \<and> ob_id ob = in_object_id i
       \<and> r = \<lparr>fr_id = ob_id ob, fr_path = sy_name s, fr_filetype = ob_filetype ob, fr_parent_prefix = tree_prefix q\<rparr>)"
proof -
  have level: "nlevel (sy_path s) = slash_count (tree_prefix q) \<and> has_prefix (tree_prefix q) (sy_name s) \<longleftrightarrow> child_of q (sy_name s)"
    if s: "s \<in> set (project_symbols pid root SYMBOL_TYPE_FILE db)" and q: "q \<in> set qs" for s q
    using tree_name_level(1) [OF names, of s q] s q qs files by (auto simp: tree_symbols_def list_all_iff)
  have "r \<in> set (file_rows_of pid root (unique_prefixes qs) db) \<longleftrightarrow>
    (\<exists>s\<in>set (project_symbols pid root SYMBOL_TYPE_FILE db). \<exists>q\<in>set qs. \<exists>i\<in>set (sd_instances db). \<exists>ob\<in>set (sd_objects db).
       (nlevel (sy_path s) = slash_count (tree_prefix q) \<and> has_prefix (tree_prefix q) (sy_name s))
       \<and> in_symbol i = sy_id s \<and> in_layer i = root \<and> ob_id ob = in_object_id i
       \<and> r = \<lparr>fr_id = ob_id ob, fr_path = sy_name s, fr_filetype = ob_filetype ob, fr_parent_prefix = tree_prefix q\<rparr>)"
    unfolding file_rows_of_def set_remdups mem_concat_map mem_map_filter set_unique_prefixes bex_simps set_filter mem_Collect_eq by blast
  then show ?thesis using level by (auto intro!: bex_cong)
qed

subsection \<open>The listing of a project\<close>

definition child_dirs :: "int \<Rightarrow> int \<Rightarrow> string \<Rightarrow> store_db \<Rightarrow> (string \<times> bool) set" where
  "child_dirs pid root q db = {(sy_name s, \<exists>c\<in>set (tree_symbols pid root db). child_of (sy_name s) (sy_name c)) |s.
     s \<in> set (project_symbols pid root SYMBOL_TYPE_DIRECTORY db) \<and> child_of q (sy_name s)}"

definition child_files :: "int \<Rightarrow> int \<Rightarrow> string \<Rightarrow> store_db \<Rightarrow> (string \<times> int) set" where
  "child_files pid root q db = {(sy_name s, in_object_id i) |s i.
     s \<in> set (project_symbols pid root SYMBOL_TYPE_FILE db) \<and> child_of q (sy_name s)
     \<and> i \<in> set (sd_instances db) \<and> in_symbol i = sy_id s \<and> in_layer i = root}"

definition dir_entries :: "tree_node list \<Rightarrow> (string \<times> bool) set" where
  "dir_entries ns = (\<lambda>n. (tn_path n, tn_has_children n)) ` {n \<in> set ns. tn_type n = DirNode}"

definition file_entries :: "tree_node list \<Rightarrow> (string \<times> int option) set" where
  "file_entries ns = (\<lambda>n. (tn_path n, tn_file_id n)) ` {n \<in> set ns. tn_type n = FileNode}"

lemma map_of_inj: "inj_on f (set xs) \<Longrightarrow> x \<in> set xs \<Longrightarrow> map_of (map (\<lambda>p. (f p, p)) xs) (f x) = Some x"
  by (induction xs) (auto simp: inj_on_def)

lemma tree_prefix_inj: "inj_on tree_prefix {s. tree_name s}"
  unfolding inj_on_def tree_prefix_def tree_name_def by (auto split: if_splits)

lemma root_tree_name: "tree_name [slash]"
  unfolding tree_name_def by code_simp

lemma group_entries:
  assumes names: "\<forall>q\<in>set normalized. tree_name q" and q: "q \<in> set normalized"
    and dirs: "\<forall>r\<in>set dirs. dr_parent_prefix r \<in> tree_prefix ` set normalized"
    and files: "\<forall>r\<in>set files. fr_parent_prefix r \<in> tree_prefix ` set normalized"
  obtains ns where "group_nodes normalized dirs files q = Some ns" "sorted (map node_key ns)"
    "dir_entries ns = (\<lambda>r. (dr_path r, dr_has_children r)) ` {r \<in> set dirs. dr_parent_prefix r = tree_prefix q}"
    "file_entries ns = (\<lambda>r. (fr_path r, Some (fr_id r))) ` {r \<in> set files. fr_parent_prefix r = tree_prefix q}"
proof -
  let ?m = "map_of (map (\<lambda>p. (tree_prefix p, p)) normalized)"
  have inj: "inj_on tree_prefix (set normalized)" by (rule inj_on_subset [OF tree_prefix_inj]) (use names in blast)
  have path_of: "?m x = Some q \<longleftrightarrow> x = tree_prefix q" if x: "x \<in> tree_prefix ` set normalized" for x
  proof -
    obtain y where y: "x = tree_prefix y" "y \<in> set normalized" using x by blast
    then have "?m x = Some y" using map_of_inj [OF inj] by simp
    moreover have "x = tree_prefix q \<longleftrightarrow> y = q" using inj_onD [OF inj] y q by blast
    ultimately show ?thesis by simp
  qed
  have filters: "filter (\<lambda>r. ?m (dr_parent_prefix r) = Some q) dirs = filter (\<lambda>r. dr_parent_prefix r = tree_prefix q) dirs"
    "filter (\<lambda>r. ?m (fr_parent_prefix r) = Some q) files = filter (\<lambda>r. fr_parent_prefix r = tree_prefix q) files"
    using path_of dirs files by (simp_all cong: filter_cong)
  define ns where "ns = sort_key node_key (map dir_node (filter (\<lambda>r. dr_parent_prefix r = tree_prefix q) dirs)
     @ map file_node (filter (\<lambda>r. fr_parent_prefix r = tree_prefix q) files))"
  show thesis
  proof (rule that)
    show "group_nodes normalized dirs files q = Some ns" using q by (simp add: group_nodes_def Let_def filters ns_def)
    show "sorted (map node_key ns)" by (simp add: ns_def)
    show "dir_entries ns = (\<lambda>r. (dr_path r, dr_has_children r)) ` {r \<in> set dirs. dr_parent_prefix r = tree_prefix q}"
      by (force simp: dir_entries_def ns_def dir_node_def file_node_def)
    show "file_entries ns = (\<lambda>r. (fr_path r, Some (fr_id r))) ` {r \<in> set files. fr_parent_prefix r = tree_prefix q}"
      by (force simp: file_entries_def ns_def dir_node_def file_node_def)
  qed
qed

lemma rows_under:
  assumes "\<forall>q\<in>set qs. tree_name q" "q \<in> set qs"
  shows "q' \<in> set qs \<Longrightarrow> tree_prefix q' = tree_prefix q \<longleftrightarrow> q' = q"
  using inj_onD [OF tree_prefix_inj, of q' q] assms by auto

lemma dirs_below:
  assumes names: "names_ok pid root db" and qs: "\<forall>q\<in>set qs. tree_name q" and q: "q \<in> set qs"
  shows "(\<exists>r. r \<in> set (dir_rows_of pid root (unique_prefixes qs) db) \<and> dr_path r = x \<and> dr_has_children r = b
      \<and> dr_parent_prefix r = tree_prefix q) \<longleftrightarrow> (x, b) \<in> child_dirs pid root q db"
proof -
  let ?dirs = "dir_rows_of pid root (unique_prefixes qs) db"
  note dir_row = dir_rows_exact [OF names qs] and under = rows_under [OF qs q]
  show ?thesis
  proof
    assume "\<exists>r. r \<in> set ?dirs \<and> dr_path r = x \<and> dr_has_children r = b \<and> dr_parent_prefix r = tree_prefix q"
    then obtain r where r: "r \<in> set ?dirs" "dr_path r = x" "dr_has_children r = b" "dr_parent_prefix r = tree_prefix q"
      by blast
    from iffD1 [OF dir_row r(1)] obtain s q' where s: "s \<in> set (project_symbols pid root SYMBOL_TYPE_DIRECTORY db)"
      "q' \<in> set qs" "child_of q' (sy_name s)"
      "r = \<lparr>dr_path = sy_name s, dr_parent_prefix = tree_prefix q',
         dr_has_children = (\<exists>c\<in>set (tree_symbols pid root db). child_of (sy_name s) (sy_name c)), dr_compact_path = None\<rparr>"
      by (elim bexE conjE) (rule that; assumption)
    have "tree_prefix q' = tree_prefix q" using r(4) by (simp only: s(4) dir_row.simps)
    then have "q' = q" using under [OF s(2)] by simp
    then show "(x, b) \<in> child_dirs pid root q db" unfolding child_dirs_def using s(1,3) r(2,3)
      by (simp only: s(4) dir_row.simps) blast
  next
    assume "(x, b) \<in> child_dirs pid root q db"
    then obtain s where s: "s \<in> set (project_symbols pid root SYMBOL_TYPE_DIRECTORY db)" "child_of q (sy_name s)" "x = sy_name s"
      "b = (\<exists>c\<in>set (tree_symbols pid root db). child_of (sy_name s) (sy_name c))"
      unfolding child_dirs_def by blast
    let ?r = "\<lparr>dr_path = sy_name s, dr_parent_prefix = tree_prefix q,
         dr_has_children = (\<exists>c\<in>set (tree_symbols pid root db). child_of (sy_name s) (sy_name c)), dr_compact_path = None\<rparr>"
    have "?r \<in> set ?dirs" by (rule iffD2 [OF dir_row], intro bexI [OF _ s(1)] bexI [OF _ q] conjI s(2) refl)
    then show "\<exists>r. r \<in> set ?dirs \<and> dr_path r = x \<and> dr_has_children r = b \<and> dr_parent_prefix r = tree_prefix q"
      by (intro exI [of _ ?r]) (simp only: s(3,4) dir_row.simps simp_thms)
  qed
qed

lemma files_below:
  assumes names: "names_ok pid root db" and qs: "\<forall>q\<in>set qs. tree_name q" and q: "q \<in> set qs"
    and no_root: "list_all (\<lambda>s. sy_name s \<noteq> [slash]) (project_symbols pid root SYMBOL_TYPE_FILE db)" and ok: "rows_ok db"
  shows "(\<exists>r. r \<in> set (file_rows_of pid root (unique_prefixes qs) db) \<and> fr_path r = x \<and> Some (fr_id r) = y
      \<and> fr_parent_prefix r = tree_prefix q) \<longleftrightarrow> (x, y) \<in> apsnd Some ` child_files pid root q db"
proof -
  let ?files = "file_rows_of pid root (unique_prefixes qs) db"
  note file_row = file_rows_exact [OF names qs no_root] and under = rows_under [OF qs q]
  have obj: "\<exists>ob\<in>set (sd_objects db). ob_id ob = in_object_id i" if "i \<in> set (sd_instances db)" for i
  proof -
    have "in_object_id i \<in> object_ids db" using ok that by (simp add: rows_ok_def linked_def)
    then show ?thesis by force
  qed
  have "(\<exists>r. r \<in> set ?files \<and> fr_path r = x \<and> Some (fr_id r) = y \<and> fr_parent_prefix r = tree_prefix q)
      \<longleftrightarrow> (\<exists>i. y = Some i \<and> (x, i) \<in> child_files pid root q db)"
  proof
    assume "\<exists>r. r \<in> set ?files \<and> fr_path r = x \<and> Some (fr_id r) = y \<and> fr_parent_prefix r = tree_prefix q"
    then obtain r where r: "r \<in> set ?files" "fr_path r = x" "Some (fr_id r) = y" "fr_parent_prefix r = tree_prefix q"
      by blast
    from iffD1 [OF file_row r(1)] obtain s q' i ob where s: "s \<in> set (project_symbols pid root SYMBOL_TYPE_FILE db)"
      "q' \<in> set qs" "i \<in> set (sd_instances db)" "child_of q' (sy_name s)" "in_symbol i = sy_id s" "in_layer i = root"
      "ob_id ob = in_object_id i" "ob \<in> set (sd_objects db)"
      "r = \<lparr>fr_id = ob_id ob, fr_path = sy_name s, fr_filetype = ob_filetype ob, fr_parent_prefix = tree_prefix q'\<rparr>"
      by (elim bexE conjE) (rule that; assumption)
    have "tree_prefix q' = tree_prefix q" using r(4) by (simp only: s(9) file_row.simps)
    then have "q' = q" using under [OF s(2)] by simp
    moreover have "x = sy_name s" "y = Some (in_object_id i)" using r(2,3) by (simp_all only: s(7,9) file_row.simps)
    ultimately show "\<exists>i. y = Some i \<and> (x, i) \<in> child_files pid root q db" unfolding child_files_def using s(1-6) by blast
  next
    assume "\<exists>i. y = Some i \<and> (x, i) \<in> child_files pid root q db"
    then obtain s i where s: "s \<in> set (project_symbols pid root SYMBOL_TYPE_FILE db)" "child_of q (sy_name s)"
      "i \<in> set (sd_instances db)" "in_symbol i = sy_id s" "in_layer i = root" "x = sy_name s" "y = Some (in_object_id i)"
      unfolding child_files_def by blast
    obtain ob where ob: "ob \<in> set (sd_objects db)" "ob_id ob = in_object_id i" using obj [OF s(3)] by blast
    let ?r = "\<lparr>fr_id = ob_id ob, fr_path = sy_name s, fr_filetype = ob_filetype ob, fr_parent_prefix = tree_prefix q\<rparr>"
    have "?r \<in> set ?files"
      by (rule iffD2 [OF file_row], intro bexI [OF _ s(1)] bexI [OF _ q] bexI [OF _ s(3)] bexI [OF _ ob(1)] conjI s(2,4,5) ob(2) refl)
    then show "\<exists>r. r \<in> set ?files \<and> fr_path r = x \<and> Some (fr_id r) = y \<and> fr_parent_prefix r = tree_prefix q"
      by (intro exI [of _ ?r]) (simp only: s(6,7) ob(2) file_row.simps simp_thms)
  qed
  also have "\<dots> \<longleftrightarrow> (x, y) \<in> apsnd Some ` child_files pid root q db" by force
  finally show ?thesis .
qed

lemma loaded_rows:
  assumes names: "names_ok pid root db" and qs: "\<forall>q\<in>set qs. tree_name q"
    and no_root: "list_all (\<lambda>s. sy_name s \<noteq> [slash]) (project_symbols pid root SYMBOL_TYPE_FILE db)"
  obtains ds where "load_tree_children_multi pid root qs compact db = Some (ds, file_rows_of pid root (unique_prefixes qs) db)"
    "(\<lambda>r. (dr_path r, dr_has_children r, dr_parent_prefix r)) ` set ds
     = (\<lambda>r. (dr_path r, dr_has_children r, dr_parent_prefix r)) ` set (dir_rows_of pid root (unique_prefixes qs) db)"
    "\<forall>r\<in>set ds. dr_parent_prefix r \<in> tree_prefix ` set qs"
    "\<forall>r\<in>set (file_rows_of pid root (unique_prefixes qs) db). fr_parent_prefix r \<in> tree_prefix ` set qs"
proof -
  let ?dirs = "dir_rows_of pid root (unique_prefixes qs) db" and ?files = "file_rows_of pid root (unique_prefixes qs) db"
  let ?g = "\<lambda>r. (dr_path r, dr_has_children r, dr_parent_prefix r)"
  obtain ds where ds: "load_tree_children_multi pid root qs compact db = Some (ds, ?files)"
    and same: "map (\<lambda>r. r\<lparr>dr_compact_path := None\<rparr>) ds = map (\<lambda>r. r\<lparr>dr_compact_path := None\<rparr>) ?dirs"
    using tree_rows_load by blast
  have same_rows: "g ` set ds = g ` set ?dirs" if "\<And>r c. g (r\<lparr>dr_compact_path := c\<rparr>) = g r" for g :: "dir_row \<Rightarrow> string \<times> bool \<times> string"
  proof -
    have "map g ds = map g (map (\<lambda>r. r\<lparr>dr_compact_path := None\<rparr>) ds)" using that by simp
    also have "\<dots> = map g ?dirs" unfolding same using that by simp
    finally show ?thesis by (metis list.set_map)
  qed
  have gs: "?g ` set ds = ?g ` set ?dirs" by (rule same_rows) simp
  note dir_row = dir_rows_exact [OF names qs] and file_row = file_rows_exact [OF names qs no_root]
  have pref: "\<forall>r\<in>set ?dirs. dr_parent_prefix r \<in> tree_prefix ` set qs" "\<forall>r\<in>set ?files. fr_parent_prefix r \<in> tree_prefix ` set qs"
  proof -
    show "\<forall>r\<in>set ?dirs. dr_parent_prefix r \<in> tree_prefix ` set qs"
    proof
      fix r assume "r \<in> set ?dirs"
      then obtain r' where "r' \<in> set qs" "dr_parent_prefix r = tree_prefix r'" unfolding dir_row by fastforce
      then show "dr_parent_prefix r \<in> tree_prefix ` set qs" by blast
    qed
    show "\<forall>r\<in>set ?files. fr_parent_prefix r \<in> tree_prefix ` set qs"
    proof
      fix r assume "r \<in> set ?files"
      then obtain r' where "r' \<in> set qs" "fr_parent_prefix r = tree_prefix r'" unfolding file_row by fastforce
      then show "fr_parent_prefix r \<in> tree_prefix ` set qs" by blast
    qed
  qed
  have "\<forall>r\<in>set ds. dr_parent_prefix r \<in> tree_prefix ` set qs"
  proof
    fix r assume "r \<in> set ds"
    then have "?g r \<in> ?g ` set ?dirs" using gs by blast
    then show "dr_parent_prefix r \<in> tree_prefix ` set qs" using pref(1) by auto
  qed
  from that [OF ds gs this pref(2)] show thesis .
qed

text \<open>
  C9. The listing of a directory of a complete project, on every reachable store whose directory
  and file symbols have absolute names of components that leave a label each: it is sorted with
  directories first, its directories are the directory symbols one component below, each marked
  as having children exactly when some symbol lies one component below it, and its files are the
  objects of the file symbols one component below, whether chains are folded or not and whatever
  else is listed in the same call.
\<close>

theorem tree_children_exact:
  assumes "store_reach sha db" "find_project pid db = Some p" "pj_status p = Complete"
    and "list_all (\<lambda>s. tree_name (sy_name s)) (tree_symbols pid (pj_root_layer p) db)"
    and "list_all (\<lambda>s. sy_name s \<noteq> [slash]) (project_symbols pid (pj_root_layer p) SYMBOL_TYPE_FILE db)"
    and "set (map normalize_full_path paths) \<subseteq>
       insert [slash] (sy_name ` set (project_symbols pid (pj_root_layer p) SYMBOL_TYPE_DIRECTORY db))"
    and "q \<in> set (map normalize_full_path paths)"
  shows "\<exists>m ns. list_project_tree_multi pid paths compact db = Some (Nodes m) \<and> m q = Some ns \<and> sorted (map node_key ns)
     \<and> dir_entries ns = child_dirs pid (pj_root_layer p) q db
     \<and> file_entries ns = apsnd Some ` child_files pid (pj_root_layer p) q db"
proof -
  let ?root = "pj_root_layer p" and ?qs = "map normalize_full_path paths"
  let ?files = "file_rows_of pid ?root (unique_prefixes ?qs) db"
  have names: "names_ok pid ?root db" by (rule reachable_names [OF assms(1,2,4)])
  have qs: "\<forall>q\<in>set ?qs. tree_name q"
  proof
    fix r assume "r \<in> set ?qs"
    then have "r = [slash] \<or> r \<in> sy_name ` set (project_symbols pid ?root SYMBOL_TYPE_DIRECTORY db)" using assms(6) by auto
    then show "tree_name r" using root_tree_name names by (auto simp: names_ok_def tree_symbols_def)
  qed
  obtain ds where ds: "load_tree_children_multi pid ?root ?qs compact db = Some (ds, ?files)"
    "(\<lambda>r. (dr_path r, dr_has_children r, dr_parent_prefix r)) ` set ds
     = (\<lambda>r. (dr_path r, dr_has_children r, dr_parent_prefix r)) ` set (dir_rows_of pid ?root (unique_prefixes ?qs) db)"
    "\<forall>r\<in>set ds. dr_parent_prefix r \<in> tree_prefix ` set ?qs" "\<forall>r\<in>set ?files. fr_parent_prefix r \<in> tree_prefix ` set ?qs"
    by (rule loaded_rows [OF names qs assms(5)])
  obtain ns where ns: "group_nodes ?qs ds ?files q = Some ns" "sorted (map node_key ns)"
    "dir_entries ns = (\<lambda>r. (dr_path r, dr_has_children r)) ` {r \<in> set ds. dr_parent_prefix r = tree_prefix q}"
    "file_entries ns = (\<lambda>r. (fr_path r, Some (fr_id r))) ` {r \<in> set ?files. fr_parent_prefix r = tree_prefix q}"
    by (rule group_entries [OF qs assms(7) ds(3,4)])
  have ok: "rows_ok db" using store_reach_ok [OF assms(1)] by (simp add: store_ok_def)
  have "(x, b) \<in> dir_entries ns \<longleftrightarrow> (x, b) \<in> child_dirs pid ?root q db" for x b
  proof -
    have "(x, b) \<in> dir_entries ns
        \<longleftrightarrow> (x, b, tree_prefix q) \<in> (\<lambda>r. (dr_path r, dr_has_children r, dr_parent_prefix r)) ` set ds"
      unfolding ns(3) by force
    then show ?thesis unfolding ds(2) dirs_below [OF names qs assms(7), symmetric] by force
  qed
  then have dirs_eq: "dir_entries ns = child_dirs pid ?root q db" by auto
  have "(x, y) \<in> file_entries ns \<longleftrightarrow> (x, y) \<in> apsnd Some ` child_files pid ?root q db" for x y
    unfolding ns(4) files_below [OF names qs assms(7,5) ok, symmetric] by force
  then have files_eq: "file_entries ns = apsnd Some ` child_files pid ?root q db" by auto
  have "List.find (\<lambda>r. r \<notin> set (map sy_name (project_symbols pid ?root SYMBOL_TYPE_DIRECTORY db))) (filter (\<lambda>q. q \<noteq> [slash]) ?qs) = None"
    using assms(6) by (auto simp: find_None_iff)
  moreover have "paths \<noteq> []" using assms(7) by auto
  ultimately have "list_project_tree_multi pid paths compact db = Some (Nodes (group_nodes ?qs ds ?files))"
    using assms(2,3) ds(1) by (simp add: list_project_tree_multi_def Let_def)
  then show ?thesis using ns(1,2) dirs_eq files_eq by blast
qed

text \<open>A complete project with a directory below the root that holds one file.\<close>

definition tree_ops :: "store_op list" where
  "tree_ops = [OpUpload 0 ''one'' (sample_upload ''p'' []) (Some 1) (Some 1),
     OpSymbols 1 0 [\<lparr>us_local_id = 0, us_name = ''/r'', us_scope = 0, us_type = 4\<rparr>,
       \<lparr>us_local_id = 5, us_name = ''/r/a.c'', us_scope = 0, us_type = 2\<rparr>],
     OpObjects 1 0 (sample_upload ''p'' [sample_file]), OpFinalize 1]"

definition tree_store :: store_db where
  "tree_store = fold (store_run sample_hash) tree_ops empty_store"

lemma tree_reach: "store_reach sample_hash tree_store"
  unfolding tree_store_def by (intro fold_reach store_reach.start)

lemma tree_facts:
  "find_project 1 tree_store = Some \<lparr>pj_id = 1, pj_name = ''p'', pj_root_path = ''/r'', pj_status = Complete,
     pj_symbol_chunks = Some 1, pj_object_chunks = Some 1, pj_root_layer = 1\<rparr>"
  "map sy_name (project_symbols 1 1 SYMBOL_TYPE_DIRECTORY tree_store) = [''/r'']"
  "map sy_name (project_symbols 1 1 SYMBOL_TYPE_FILE tree_store) = [''/r/a.c'']"
  "list_all (\<lambda>s. tree_name (sy_name s)) (tree_symbols 1 1 tree_store)"
  "list_all (\<lambda>s. sy_name s \<noteq> [slash]) (project_symbols 1 1 SYMBOL_TYPE_FILE tree_store)"
  "map normalize_full_path [''/'', ''/r/''] = [''/'', ''/r'']"
  by code_simp+

lemma tree_children_exact_witness:
  "\<exists>m ns. list_project_tree_multi 1 [''/'', ''/r/''] True tree_store = Some (Nodes m) \<and> m ''/r'' = Some ns
     \<and> sorted (map node_key ns) \<and> dir_entries ns = child_dirs 1 1 ''/r'' tree_store
     \<and> file_entries ns = apsnd Some ` child_files 1 1 ''/r'' tree_store"
proof -
  have found: "set (map normalize_full_path [''/'', ''/r/'']) \<subseteq>
      insert [slash] (sy_name ` set (project_symbols 1 1 SYMBOL_TYPE_DIRECTORY tree_store))"
    unfolding tree_facts(6) set_map [symmetric] tree_facts(2) by simp
  show ?thesis
    using tree_children_exact [OF tree_reach tree_facts(1), of "[''/'', ''/r/'']" "''/r''" True] tree_facts(4,5) found
    by (simp only: store_project.simps tree_facts(6) list.set insert_iff simp_thms)
qed

end
