(* ===== verification/Authentication.thy ===== *)
theory Authentication
  imports Prelude
begin

section \<open>API keys and the authentication of requests\<close>

text \<open>
  \<open>askld/src/auth.rs\<close> and \<open>askld/src/bin/askld/api/auth.rs\<close>: keys with a hashed secret, tokens
  \<open>askl_<key id>.<secret>\<close>, their creation, verification, revocation and listing, the token of a
  request and the transport it may come over.  Argon2, base64, the texts of UUIDs and time
  stamps are parameters (\<open>auth_env\<close>), as are random numbers and the current time, one instant per call.  A UUID is an
  integer; a header is what \<open>HeaderMap::get\<close> yields as text.
\<close>

subsection \<open>State\<close>

record auth_env =
  ae_hash :: "byte list \<Rightarrow> string \<Rightarrow> string + string"
  ae_verify :: "string \<Rightarrow> string \<Rightarrow> bool"
  ae_encode :: "byte list \<Rightarrow> string"
  ae_uuid_text :: "int \<Rightarrow> string"
  ae_parse_uuid :: "string \<Rightarrow> int option"
  ae_parse_time :: "string \<Rightarrow> int option"
  ae_time_text :: "int \<Rightarrow> string"

record user_row =
  usr_id :: int
  usr_email :: string
  usr_created_at :: int

record api_key_row =
  ak_id :: int
  ak_user_id :: int
  ak_hashed_secret :: string
  ak_name :: "string option"
  ak_created_at :: int
  ak_last_used_at :: "int option"
  ak_revoked_at :: "int option"
  ak_expires_at :: "int option"

record auth_db =
  ad_users :: "user_row list"
  ad_keys :: "api_key_row list"

record auth_identity =
  ai_user_id :: int
  ai_email :: string
  ai_key_id :: int

datatype auth_error = InvalidToken | RevokedToken | ExpiredToken | AuthStorage string

fun auth_error_text :: "auth_error \<Rightarrow> string" where
  "auth_error_text InvalidToken = ''Invalid API token''"
| "auth_error_text RevokedToken = ''Revoked API token''"
| "auth_error_text ExpiredToken = ''Expired API token''"
| "auth_error_text (AuthStorage message) = ''Auth storage error: '' @ message"

type_synonym 'a auth_step = "(auth_db, auth_error, 'a) step"

subsection \<open>Tokens\<close>

text \<open>\<open>splitn(2, '.')\<close> has a second part exactly when there is a dot.\<close>

definition parse_token :: "auth_env \<Rightarrow> string \<Rightarrow> auth_error + int \<times> string" where
  "parse_token env token =
     (case strip_prefix ''askl_'' (trim token) of
        None \<Rightarrow> Inl InvalidToken
      | Some rest \<Rightarrow>
          (let id_part = takeWhile (\<lambda>c. c \<noteq> CHR ''.'') rest; more = dropWhile (\<lambda>c. c \<noteq> CHR ''.'') rest in
           if more = [] then Inl InvalidToken
           else if tl more = [] then Inl InvalidToken
           else (case ae_parse_uuid env id_part of
                   None \<Rightarrow> Inl InvalidToken
                 | Some key_id \<Rightarrow> Inr (key_id, tl more))))"

definition token_text :: "auth_env \<Rightarrow> int \<Rightarrow> string \<Rightarrow> string" where
  "token_text env key_id secret = ''askl_'' @ ae_uuid_text env key_id @ ''.'' @ secret"

definition generate_secret :: "auth_env \<Rightarrow> byte list \<Rightarrow> string" where
  "generate_secret env random = ae_encode env random"

definition hash_secret :: "auth_env \<Rightarrow> byte list \<Rightarrow> string \<Rightarrow> auth_error + string" where
  "hash_secret env salt secret = map_err AuthStorage (ae_hash env salt secret)"

definition verify_secret :: "auth_env \<Rightarrow> string \<Rightarrow> string \<Rightarrow> auth_error + unit" where
  "verify_secret env hash secret = (if ae_verify env hash secret then Inr () else Inl InvalidToken)"

subsection \<open>Keys\<close>

text \<open>What one creation draws: the secret's bytes, the salt, the ids and the time.\<close>

record key_draw =
  kd_random :: "byte list"
  kd_salt :: "byte list"
  kd_key_id :: int
  kd_user_id :: int
  kd_now :: int

definition user_of_email :: "string \<Rightarrow> auth_db \<Rightarrow> user_row option" where
  "user_of_email email db = List.find (\<lambda>u. usr_email u = email) (ad_users db)"

definition find_key :: "int \<Rightarrow> auth_db \<Rightarrow> api_key_row option" where
  "find_key key_id db = List.find (\<lambda>k. ak_id k = key_id) (ad_keys db)"

definition ensure_user :: "key_draw \<Rightarrow> string \<Rightarrow> int auth_step" where
  "ensure_user draw email db =
     (case user_of_email email db of
        Some u \<Rightarrow> (Inr (usr_id u), db)
      | None \<Rightarrow>
          if kd_user_id draw \<in> set (map usr_id (ad_users db))
          then (Inl (AuthStorage ''duplicate key value violates unique constraint \"users_pkey\"''), db)
          else (Inr (kd_user_id draw),
                db\<lparr>ad_users := ad_users db @ [\<lparr>usr_id = kd_user_id draw, usr_email = email, usr_created_at = kd_now draw\<rparr>]\<rparr>))"

definition insert_key :: "api_key_row \<Rightarrow> unit auth_step" where
  "insert_key key db =
     (if ak_id key \<in> set (map ak_id (ad_keys db))
      then (Inl (AuthStorage ''duplicate key value violates unique constraint \"api_keys_pkey\"''), db)
      else (Inr (), db\<lparr>ad_keys := ad_keys db @ [key]\<rparr>))"

definition atomically :: "'a auth_step \<Rightarrow> 'a auth_step" where
  "atomically body db = (case body db of (Inl e, _) \<Rightarrow> (Inl e, db) | (Inr a, db') \<Rightarrow> (Inr a, db'))"

definition create_api_key ::
  "auth_env \<Rightarrow> key_draw \<Rightarrow> string \<Rightarrow> string option \<Rightarrow> int option \<Rightarrow> string auth_step" where
  "create_api_key env draw email name expires_at db =
     (let secret = generate_secret env (kd_random draw) in
      case hash_secret env (kd_salt draw) secret of
        Inl e \<Rightarrow> (Inl e, db)
      | Inr hashed \<Rightarrow>
          atomically (
            sbind (ensure_user draw (trim email)) (\<lambda>user_id.
            sbind (insert_key \<lparr>ak_id = kd_key_id draw, ak_user_id = user_id, ak_hashed_secret = hashed, ak_name = name,
                     ak_created_at = kd_now draw, ak_last_used_at = None, ak_revoked_at = None,
                     ak_expires_at = expires_at\<rparr>) (\<lambda>_.
            sreturn (token_text env (kd_key_id draw) secret)))) db)"

text \<open>The join of a key with its user.\<close>

definition user_of_key :: "api_key_row \<Rightarrow> auth_db \<Rightarrow> user_row option" where
  "user_of_key key db = List.find (\<lambda>u. usr_id u = ak_user_id key) (ad_users db)"

definition key_record :: "int \<Rightarrow> auth_db \<Rightarrow> (api_key_row \<times> user_row) option" where
  "key_record key_id db =
     (case find_key key_id db of
        None \<Rightarrow> None
      | Some key \<Rightarrow> map_option (Pair key) (user_of_key key db))"

definition set_last_used :: "int \<Rightarrow> int \<Rightarrow> auth_db \<Rightarrow> auth_db" where
  "set_last_used key_id now db =
     db\<lparr>ad_keys := map (\<lambda>k. if ak_id k = key_id then k\<lparr>ak_last_used_at := Some now\<rparr> else k) (ad_keys db)\<rparr>"

text \<open>The revocation is checked before the secret, the expiry after it.\<close>

definition authenticate_token :: "auth_env \<Rightarrow> int \<Rightarrow> string \<Rightarrow> auth_identity auth_step" where
  "authenticate_token env now token db =
     (case parse_token env token of
        Inl e \<Rightarrow> (Inl e, db)
      | Inr (key_id, secret) \<Rightarrow>
          (case key_record key_id db of
             None \<Rightarrow> (Inl InvalidToken, db)
           | Some (key, user) \<Rightarrow>
               if ak_revoked_at key \<noteq> None then (Inl RevokedToken, db)
               else (case verify_secret env (ak_hashed_secret key) secret of
                       Inl e \<Rightarrow> (Inl e, db)
                     | Inr _ \<Rightarrow>
                         if (case ak_expires_at key of Some t \<Rightarrow> t \<le> now | None \<Rightarrow> False) then (Inl ExpiredToken, db)
                         else (Inr \<lparr>ai_user_id = usr_id user, ai_email = usr_email user, ai_key_id = key_id\<rparr>,
                               set_last_used key_id now db))))"

definition revoke_api_key :: "int \<Rightarrow> int \<Rightarrow> bool auth_step" where
  "revoke_api_key now token_id db =
     (let hit = (\<lambda>k. ak_id k = token_id \<and> ak_revoked_at k = None) in
      (Inr (list_ex hit (ad_keys db)),
       db\<lparr>ad_keys := map (\<lambda>k. if hit k then k\<lparr>ak_revoked_at := Some now\<rparr> else k) (ad_keys db)\<rparr>))"

record api_key_info =
  ki_id :: string
  ki_name :: "string option"
  ki_created_at :: string
  ki_last_used_at :: "string option"
  ki_revoked_at :: "string option"
  ki_expires_at :: "string option"

text \<open>Newest first; keys of one instant keep the order of the table.\<close>

definition list_api_keys :: "auth_env \<Rightarrow> string \<Rightarrow> auth_db \<Rightarrow> api_key_info list" where
  "list_api_keys env email db =
     map (\<lambda>k. \<lparr>ki_id = ae_uuid_text env (ak_id k), ki_name = ak_name k, ki_created_at = ae_time_text env (ak_created_at k),
            ki_last_used_at = map_option (ae_time_text env) (ak_last_used_at k),
            ki_revoked_at = map_option (ae_time_text env) (ak_revoked_at k),
            ki_expires_at = map_option (ae_time_text env) (ak_expires_at k)\<rparr>)
       (sort_key (\<lambda>k. - ak_created_at k)
         (filter (\<lambda>k. map_option usr_email (user_of_key k db) = Some (trim email)) (ad_keys db)))"

subsection \<open>Requests\<close>

record http_request =
  rq_peer_loopback :: "bool option"
  rq_scheme :: string
  rq_headers :: "string \<Rightarrow> string option"
  rq_redacted :: "string option"

definition is_loopback :: "http_request \<Rightarrow> bool" where
  "is_loopback req = (case rq_peer_loopback req of Some b \<Rightarrow> b | None \<Rightarrow> False)"

definition env_flag :: "string option \<Rightarrow> bool" where
  "env_flag value = (case value of None \<Rightarrow> False | Some v \<Rightarrow> map to_lower v \<in> {''true'', ''1'', ''yes'', ''on''})"

definition bootstrap_allowed :: "string option \<Rightarrow> bool" where
  "bootstrap_allowed value = env_flag value"

definition insecure_tokens_allowed :: "string option \<Rightarrow> bool" where
  "insecure_tokens_allowed value = env_flag value"

fun has_infix :: "string \<Rightarrow> string \<Rightarrow> bool" where
  "has_infix p [] = (p = [])"
| "has_infix p (c # cs) = (take (length p) (c # cs) = p \<or> has_infix p cs)"

definition is_secure_request :: "http_request \<Rightarrow> bool" where
  "is_secure_request req =
     (if eq_ignore_case (rq_scheme req) ''https'' then True
      else if (case rq_headers req ''x-forwarded-proto'' of
                 Some v \<Rightarrow> eq_ignore_case (trim (takeWhile (\<lambda>c. c \<noteq> CHR '','') v)) ''https'' | None \<Rightarrow> False) then True
      else if (case rq_headers req ''x-forwarded-ssl'' of Some v \<Rightarrow> eq_ignore_case v ''on'' | None \<Rightarrow> False) then True
      else (case rq_headers req ''forwarded'' of Some v \<Rightarrow> has_infix ''proto=https'' (map to_lower v) | None \<Rightarrow> False))"

definition bearer_token :: "string option \<Rightarrow> string option" where
  "bearer_token value =
     (case value of
        None \<Rightarrow> None
      | Some v \<Rightarrow>
          (case strip_prefix ''Bearer '' v of
             None \<Rightarrow> None
           | Some bearer \<Rightarrow> if trim bearer = [] then None else Some (trim bearer)))"

definition extract_token_from_headers :: "(string \<Rightarrow> string option) \<Rightarrow> string option" where
  "extract_token_from_headers headers =
     (case bearer_token (headers ''authorization'') of
        Some t \<Rightarrow> Some t
      | None \<Rightarrow>
          (case headers ''x-api-key'' of
             None \<Rightarrow> None
           | Some v \<Rightarrow> if trim v = [] then None else Some (trim v)))"

definition extract_token :: "http_request \<Rightarrow> string option" where
  "extract_token req =
     (case rq_redacted req of Some t \<Rightarrow> Some t | None \<Rightarrow> extract_token_from_headers (rq_headers req))"

definition redact_auth_headers :: "http_request \<Rightarrow> http_request" where
  "redact_auth_headers req =
     (let req = (case extract_token_from_headers (rq_headers req) of
                   Some t \<Rightarrow> req\<lparr>rq_redacted := Some t\<rparr> | None \<Rightarrow> req)
      in req\<lparr>rq_headers := (rq_headers req)(''authorization'' := None, ''x-api-key'' := None)\<rparr>)"

datatype http_error = Unauthorized | Forbidden string | InternalError string

text \<open>The extractor of a request; \<open>store\<close> says whether the server was given an auth store.\<close>

definition identity_of_request ::
  "auth_env \<Rightarrow> int \<Rightarrow> bool \<Rightarrow> string option \<Rightarrow> http_request \<Rightarrow> (auth_db, http_error, auth_identity) step" where
  "identity_of_request env now store insecure req db =
     (if \<not> store then (Inl (InternalError ''Auth store missing''), db)
      else (case extract_token req of
              None \<Rightarrow> (Inl Unauthorized, db)
            | Some token \<Rightarrow>
                if \<not> is_secure_request req \<and> \<not> insecure_tokens_allowed insecure
                then (Inl (Forbidden ''API tokens require HTTPS''), db)
                else (case authenticate_token env now token db of
                        (Inr identity, db') \<Rightarrow> (Inr identity, db')
                      | (Inl (AuthStorage _), db') \<Rightarrow> (Inl (InternalError ''Internal error''), db')
                      | (Inl _, db') \<Rightarrow> (Inl Unauthorized, db'))))"

subsection \<open>The administration of keys\<close>

datatype admin_response =
    AdminForbidden string
  | BadRequest string
  | ServerFailure string
  | KeyNotFound string
  | CreatedKey string "string option"
  | KeyRevoked
  | KeyList "api_key_info list"

definition parse_expiry :: "auth_env \<Rightarrow> int \<Rightarrow> string option \<Rightarrow> string + int option" where
  "parse_expiry env now raw =
     (case raw of
        None \<Rightarrow> Inr None
      | Some r \<Rightarrow>
          (case ae_parse_time env r of
             None \<Rightarrow> Inl ''Invalid expires_at; use RFC3339 like 2026-01-01T00:00:00Z''
           | Some t \<Rightarrow> if t \<le> now then Inl ''expires_at must be in the future'' else Inr (Some t)))"

definition create_key_handler ::
  "auth_env \<Rightarrow> string option \<Rightarrow> key_draw \<Rightarrow> string \<Rightarrow> string option \<Rightarrow> string option \<Rightarrow> auth_db \<Rightarrow> admin_response \<times> auth_db" where
  "create_key_handler env bootstrap draw email name expires db =
     (if \<not> bootstrap_allowed bootstrap then (AdminForbidden ''Bootstrap mode disabled'', db)
      else if trim email = [] then (BadRequest ''Email is required'', db)
      else (case parse_expiry env (kd_now draw) expires of
              Inl msg \<Rightarrow> (BadRequest msg, db)
            | Inr expires_at \<Rightarrow>
                (case create_api_key env draw (trim email) name expires_at db of
                   (Inr token, db') \<Rightarrow> (CreatedKey token (map_option (ae_time_text env) expires_at), db')
                 | (Inl _, db') \<Rightarrow> (ServerFailure ''Failed to create API key'', db'))))"

definition revoke_key_handler ::
  "auth_env \<Rightarrow> string option \<Rightarrow> int \<Rightarrow> string \<Rightarrow> auth_db \<Rightarrow> admin_response \<times> auth_db" where
  "revoke_key_handler env bootstrap now token_id db =
     (if \<not> bootstrap_allowed bootstrap then (AdminForbidden ''Bootstrap mode disabled'', db)
      else (case ae_parse_uuid env (trim token_id) of
              None \<Rightarrow> (BadRequest ''Invalid token_id; expected UUID'', db)
            | Some key_id \<Rightarrow>
                (case revoke_api_key now key_id db of
                   (Inr revoked, db') \<Rightarrow>
                     (if revoked then KeyRevoked else KeyNotFound ''API key not found or already revoked'', db')
                 | (Inl _, db') \<Rightarrow> (ServerFailure ''Failed to revoke API key'', db'))))"

definition list_keys_handler ::
  "auth_env \<Rightarrow> string option \<Rightarrow> string \<Rightarrow> auth_db \<Rightarrow> admin_response" where
  "list_keys_handler env bootstrap email db =
     (if \<not> bootstrap_allowed bootstrap then AdminForbidden ''Bootstrap mode disabled''
      else if trim email = [] then BadRequest ''Email is required''
      else KeyList (list_api_keys env (trim email) db))"

subsection \<open>What holds of keys over time\<close>

datatype auth_op =
    OpCreate key_draw string "string option" "int option"
  | OpAuthenticate int string
  | OpRevoke int int

fun auth_run :: "auth_env \<Rightarrow> auth_op \<Rightarrow> auth_db \<Rightarrow> auth_db" where
  "auth_run env (OpCreate draw email name expires) db = snd (create_api_key env draw email name expires db)"
| "auth_run env (OpAuthenticate now token) db = snd (authenticate_token env now token db)"
| "auth_run env (OpRevoke now key_id) db = snd (revoke_api_key now key_id db)"

text \<open>Later states of a key: what identifies and limits it stays, a revocation is never undone.\<close>

definition key_follows :: "api_key_row \<Rightarrow> api_key_row \<Rightarrow> bool" where
  "key_follows k k' \<longleftrightarrow> ak_id k' = ak_id k \<and> ak_user_id k' = ak_user_id k \<and> ak_hashed_secret k' = ak_hashed_secret k
     \<and> ak_expires_at k' = ak_expires_at k \<and> (ak_revoked_at k \<noteq> None \<longrightarrow> ak_revoked_at k' = ak_revoked_at k)"

lemma key_follows_refl [simp]: "key_follows k k" by (simp add: key_follows_def)















definition no_keys :: auth_db where "no_keys = \<lparr>ad_users = [], ad_keys = []\<rparr>"



definition sample_auth_env :: auth_env where
  "sample_auth_env = \<lparr>ae_hash = (\<lambda>salt s. Inr s), ae_verify = (\<lambda>h s. h = s), ae_encode = (\<lambda>b. b @ ''x''),
     ae_uuid_text = (\<lambda>i. if i < 0 then ''b'' @ replicate (nat (- i)) CHR ''a'' else replicate (nat i) CHR ''a''),
     ae_parse_uuid = (\<lambda>s. Some (if take 1 s = ''b'' then - int (length s - 1) else int (length s))),
     ae_parse_time = (\<lambda>s. Some (int (length s))), ae_time_text = (\<lambda>t. replicate (nat t) CHR ''t'')\<rparr>"


definition sample_draw :: "int \<Rightarrow> key_draw" where
  "sample_draw i = \<lparr>kd_random = ''r'', kd_salt = ''s'', kd_key_id = i, kd_user_id = i + 10, kd_now = 100\<rparr>"

definition sample_before :: "auth_op list" where
  "sample_before = [OpCreate (sample_draw 1) ''a@b'' None None]"

definition sample_keys :: auth_db where
  "sample_keys = snd (create_api_key sample_auth_env (sample_draw 2) '' a@b '' None (Some 200)
     (fold (auth_run sample_auth_env) sample_before no_keys))"


text \<open>
  C18. A request whose headers were redacted is served as an identity exactly when its headers held
  a token, it came over a secure transport (or tokens over insecure ones are allowed), the token
  names a key that is neither revoked nor expired and whose hash the secret verifies; the identity
  is the owner of the key.  The headers that carried the token are gone.
\<close>

theorem request_identity_exact:
  assumes "rq_redacted req = None"
  shows "((\<exists>db'. identity_of_request env now True insecure (redact_auth_headers req) db = (Inr identity, db')) \<longleftrightarrow>
      (\<exists>token key_id secret key user.
         extract_token_from_headers (rq_headers req) = Some token
         \<and> (is_secure_request req \<or> insecure_tokens_allowed insecure)
         \<and> parse_token env token = Inr (key_id, secret)
         \<and> find_key key_id db = Some key \<and> user_of_key key db = Some user
         \<and> ak_revoked_at key = None \<and> ae_verify env (ak_hashed_secret key) secret
         \<and> (case ak_expires_at key of None \<Rightarrow> True | Some t \<Rightarrow> now < t)
         \<and> identity = \<lparr>ai_user_id = usr_id user, ai_email = usr_email user, ai_key_id = key_id\<rparr>))
    \<and> rq_headers (redact_auth_headers req) ''authorization'' = None
    \<and> rq_headers (redact_auth_headers req) ''x-api-key'' = None"
proof -
  let ?req = "redact_auth_headers req"
  have token: "extract_token ?req = extract_token_from_headers (rq_headers req)"
    using assms by (auto simp: redact_auth_headers_def extract_token_def extract_token_from_headers_def bearer_token_def Let_def
        split: option.split)
  have headers: "rq_headers ?req = (rq_headers req)(''authorization'' := None, ''x-api-key'' := None)" "rq_scheme ?req = rq_scheme req"
    by (simp_all add: redact_auth_headers_def Let_def split: option.split)
  have secure: "is_secure_request ?req = is_secure_request req" by (simp add: is_secure_request_def headers)
  have auth: "(\<exists>db'. authenticate_token env now token db = (Inr identity, db')) \<longleftrightarrow>
      (\<exists>key_id secret key user. parse_token env token = Inr (key_id, secret)
         \<and> find_key key_id db = Some key \<and> user_of_key key db = Some user
         \<and> ak_revoked_at key = None \<and> ae_verify env (ak_hashed_secret key) secret
         \<and> (case ak_expires_at key of None \<Rightarrow> True | Some t \<Rightarrow> now < t)
         \<and> identity = \<lparr>ai_user_id = usr_id user, ai_email = usr_email user, ai_key_id = key_id\<rparr>)" for token
    by (cases "parse_token env token")
      (auto simp: authenticate_token_def key_record_def verify_secret_def split: prod.splits option.splits)
  have "(\<exists>db'. identity_of_request env now True insecure ?req db = (Inr identity, db')) \<longleftrightarrow>
      (\<exists>token. extract_token_from_headers (rq_headers req) = Some token
         \<and> (is_secure_request req \<or> insecure_tokens_allowed insecure)
         \<and> (\<exists>db'. authenticate_token env now token db = (Inr identity, db')))"
    by (auto simp: identity_of_request_def token secure split: option.splits prod.splits sum.splits auth_error.splits)
  then show ?thesis unfolding auth headers by auto
qed

definition sample_request :: http_request where
  "sample_request = \<lparr>rq_peer_loopback = None, rq_scheme = ''http'',
     rq_headers = [''authorization'' \<mapsto> ''Bearer askl_aa.rx'', ''forwarded'' \<mapsto> ''for=1; Proto=https''], rq_redacted = None\<rparr>"

theorem request_identity_exact_witness:
  "rq_redacted sample_request = None \<and> extract_token_from_headers (rq_headers sample_request) = Some ''askl_aa.rx''
   \<and> (\<exists>db'. identity_of_request sample_auth_env 150 True None (redact_auth_headers sample_request) sample_keys =
        (Inr \<lparr>ai_user_id = 11, ai_email = ''a@b'', ai_key_id = 2\<rparr>, db'))"
proof -
  have facts: "rq_redacted sample_request = None" "extract_token_from_headers (rq_headers sample_request) = Some ''askl_aa.rx''"
    "is_secure_request sample_request" "parse_token sample_auth_env ''askl_aa.rx'' = Inr (2, ''rx'')"
    by code_simp+
  obtain key user where rows: "find_key 2 sample_keys = Some key" "user_of_key key sample_keys = Some user" "ak_revoked_at key = None"
    "ae_verify sample_auth_env (ak_hashed_secret key) ''rx''" "ak_expires_at key = Some 200" "usr_id user = 11" "usr_email user = ''a@b''"
  proof
    show "find_key 2 sample_keys = Some (last (ad_keys sample_keys))"
      "user_of_key (last (ad_keys sample_keys)) sample_keys = Some (hd (ad_users sample_keys))"
      "ak_revoked_at (last (ad_keys sample_keys)) = None"
      "ae_verify sample_auth_env (ak_hashed_secret (last (ad_keys sample_keys))) ''rx''"
      "ak_expires_at (last (ad_keys sample_keys)) = Some 200"
      "usr_id (hd (ad_users sample_keys)) = 11" "usr_email (hd (ad_users sample_keys)) = ''a@b''"
      by code_simp+
  qed
  show ?thesis
    using request_identity_exact [OF facts(1), of sample_auth_env 150 None sample_keys
        "\<lparr>ai_user_id = 11, ai_email = ''a@b'', ai_key_id = 2\<rparr>"] facts rows by force
qed

end
