(* ===== verification/Index_Reads.thy ===== *)
theory Index_Reads
  imports Upload_Exact Ephemeral "HOL-Library.Char_ord" "HOL-Library.List_Lexorder" "HOL-Library.Product_Lexorder" "HOL-Library.Multiset"
begin

section \<open>Plain reads of the index\<close>

text \<open>
  The reads of \<open>index/src/db_diesel/index_impl.rs\<close> beside the query families: root layers, owners of
  objects, contents of files, suggestions for names, ephemeral layers and the resolution of a
  source path, over the same stored tables as the uploads.  Connections succeed.  The trigram
  similarity of PostgreSQL is a parameter.  Rows that a statement leaves unordered come in the
  order of their table; texts are compared by bytes.
\<close>

subsection \<open>Root layers and owners\<close>

definition load_root_layers :: "store_db \<Rightarrow> root_layer list" where
  "load_root_layers db =
     sort_key rt_id [\<lparr>rt_id = pj_root_layer p, rt_project_id = pj_id p, rt_hash = lr_hash l\<rparr>.
       p \<leftarrow> sd_projects db, l \<leftarrow> sd_layers db, lr_id l = pj_root_layer p \<and> 0 < pj_id p]"

definition load_object_projects :: "int list \<Rightarrow> store_db \<Rightarrow> int \<rightharpoonup> int" where
  "load_object_projects ids db =
     map_of (map (\<lambda>ob. (ob_id ob, ob_project_id ob)) (filter (\<lambda>ob. ob_id ob \<in> set ids) (sd_objects db)))"

subsection \<open>Contents of files\<close>

definition get_file_contents_bytes_on :: "int \<Rightarrow> store_db \<Rightarrow> string + byte list" where
  "get_file_contents_bytes_on oid db =
     (case List.find (\<lambda>ob. ob_id ob = oid \<and> 0 < ob_id ob) (sd_objects db) of
        None \<Rightarrow> Inl (''File contents not found for object_id '' @ show_int oid)
      | Some ob \<Rightarrow> map_err (\<lambda>e. ''Failed to query file contents: '' @ e) (object_bytes db ob))"


text \<open>
  \<open>String::from_utf8_lossy\<close>: the first sequence of the bytes, whether it is well formed and its
  length; an ill-formed one is the longest start of a sequence.
\<close>

definition byte_in :: "nat \<Rightarrow> nat \<Rightarrow> byte list \<Rightarrow> nat \<Rightarrow> bool" where
  "byte_in lo hi bs i \<longleftrightarrow> i < length bs \<and> lo \<le> of_char (bs ! i) \<and> of_char (bs ! i) \<le> hi"

definition utf8_sequence :: "byte list \<Rightarrow> bool \<times> nat" where
  "utf8_sequence bs =
     (let b = of_char (hd bs) :: nat; cont = byte_in 128 191 bs;
          second = (if b = 224 then byte_in 160 191 bs 1 else if b = 237 then byte_in 128 159 bs 1
            else if b = 240 then byte_in 144 191 bs 1 else if b = 244 then byte_in 128 143 bs 1 else cont 1)
      in if b < 128 then (True, 1)
         else if 194 \<le> b \<and> b \<le> 223 then (if second then (True, 2) else (False, 1))
         else if 224 \<le> b \<and> b \<le> 239
         then (if \<not> second then (False, 1) else if \<not> cont 2 then (False, 2) else (True, 3))
         else if 240 \<le> b \<and> b \<le> 244
         then (if \<not> second then (False, 1) else if \<not> cont 2 then (False, 2) else if \<not> cont 3 then (False, 3) else (True, 4))
         else (False, 1))"

definition replacement_character :: string where
  "replacement_character = map char_of [239, 191, 189 :: nat]"

function from_utf8_lossy :: "byte list \<Rightarrow> string" where
  "from_utf8_lossy bs =
     (if bs = [] then []
      else case utf8_sequence bs of (ok, n) \<Rightarrow>
        (if ok then take n bs else replacement_character) @ from_utf8_lossy (drop n bs))"
  by pat_completeness auto

lemma utf8_sequence_positive: "0 < snd (utf8_sequence bs)"
  unfolding utf8_sequence_def Let_def by (simp split: if_split)

lemma sequence_shorter: "(ok, n) = utf8_sequence bs \<Longrightarrow> 0 < n"
  using utf8_sequence_positive [of bs] by (metis snd_conv)

termination from_utf8_lossy
  by (relation "measure length") (auto simp: neq_Nil_conv dest: sequence_shorter)

declare from_utf8_lossy.simps [simp del]

definition get_file_contents_on :: "int \<Rightarrow> store_db \<Rightarrow> string + string" where
  "get_file_contents_on oid db = rbind (get_file_contents_bytes_on oid db) (\<lambda>c. Inr (from_utf8_lossy c))"

definition get_file_contents :: "int \<Rightarrow> store_db \<Rightarrow> string + string" where
  "get_file_contents = get_file_contents_on"

subsection \<open>Suggestions\<close>

text \<open>\<open>word_similarity\<close> and the operator \<open><%\<close> of the trigram extension.\<close>

record 'n trgm =
  word_similarity :: "string \<Rightarrow> string \<Rightarrow> 'n"
  word_similar :: "string \<Rightarrow> string \<Rightarrow> bool"

definition suggestion_score :: "('n::linorder) trgm \<Rightarrow> string \<Rightarrow> symbol_row list \<Rightarrow> string \<Rightarrow> 'n" where
  "suggestion_score t query rows name =
     Max (set (map (\<lambda>s. max (word_similarity t query (sy_name s)) (word_similarity t query (sy_leaf_name s)))
       (filter (\<lambda>s. sy_name s = name) rows)))"

definition suggest_symbol_names ::
  "('n::linorder) trgm \<Rightarrow> string \<Rightarrow> int list \<Rightarrow> int list \<Rightarrow> int \<Rightarrow> store_db \<Rightarrow> string + string list" where
  "suggest_symbol_names t query pids visible limit db =
     (if trim query = [] \<or> pids = [] then Inr []
      else
        (let rows = filter (\<lambda>s. sy_project_id s \<in> set pids \<and> sy_layer s \<in> set visible
               \<and> (word_similar t query (sy_name s) \<or> word_similar t query (sy_leaf_name s))) (sd_symbols db);
             by_name = sort_key (\<lambda>n. (chars_count n, n)) (remdups (map sy_name rows));
             ranked = rev (sort_key (suggestion_score t query rows) (rev by_name))
         in if as_i32 limit < 0 then Inl ''LIMIT must not be negative''
            else Inr (take (nat (as_i32 limit)) ranked)))"

subsection \<open>Ephemeral layers\<close>

definition get_eph_instance_ids_for_layers :: "int list \<Rightarrow> store_db \<Rightarrow> int list" where
  "get_eph_instance_ids_for_layers lids db = map in_id (filter (\<lambda>i. in_layer i \<in> set lids) (sd_instances db))"

definition get_eph_instance_ids_for_layer :: "int \<Rightarrow> store_db \<Rightarrow> int list" where
  "get_eph_instance_ids_for_layer layer_id = get_eph_instance_ids_for_layers [layer_id]"

definition get_eph_layer_for_instance :: "int \<Rightarrow> store_db \<Rightarrow> int list" where
  "get_eph_layer_for_instance instance_id db =
     map in_layer (filter (\<lambda>i. in_id i = instance_id \<and> in_layer i < 0) (sd_instances db))"

definition eph_layer_count :: "store_db \<Rightarrow> nat" where
  "eph_layer_count db = length (filter (\<lambda>l. lr_kind l \<notin> set PROTECTED) (sd_layers db))"

record eph_layer_meta_row =
  em_id :: int
  em_parent_id :: "int option"
  em_kind :: string
  em_populated :: bool
  em_truncated :: bool

definition eph_layer_meta :: "int \<Rightarrow> store_db \<Rightarrow> string + eph_layer_meta_row" where
  "eph_layer_meta layer_id db =
     (case List.find (\<lambda>l. lr_id l = layer_id) (sd_layers db) of
        None \<Rightarrow> Inl ''Failed to read eph layer meta: Record not found''
      | Some l \<Rightarrow> Inr \<lparr>em_id = lr_id l, em_parent_id = lr_parent_id l, em_kind = kind_as_str (lr_kind l),
          em_populated = lr_populated l, em_truncated = lr_truncated l\<rparr>)"

definition count_eph_rows_for_layer :: "int \<Rightarrow> store_db \<Rightarrow> nat \<times> nat" where
  "count_eph_rows_for_layer layer_id db =
     (length (filter (\<lambda>s. sy_layer s = layer_id) (sd_symbols db)),
      length (filter (\<lambda>i. in_layer i = layer_id) (sd_instances db)))"

text \<open>Times are seconds.\<close>

definition touch_eph_layers :: "nat \<Rightarrow> int list \<Rightarrow> store_db \<Rightarrow> store_db" where
  "touch_eph_layers now lids db =
     (if lids = [] then db
      else db\<lparr>sd_layers := map (\<lambda>l. if lr_id l \<in> set lids \<and> lr_last_used l + 3600 < now
        then l\<lparr>lr_last_used := now\<rparr> else l) (sd_layers db)\<rparr>)"

definition symbol_exists :: "int \<Rightarrow> eph_context \<Rightarrow> store_db \<Rightarrow> bool" where
  "symbol_exists symbol_id eph db =
     (List.find (\<lambda>s. sy_id s = symbol_id \<and> sy_layer s \<in> set (visible_ids eph)) (sd_symbols db) \<noteq> None)"

subsection \<open>Source files\<close>

definition RESOLVE_SOURCE_FILE_LIMIT :: nat where "RESOLVE_SOURCE_FILE_LIMIT = 50"

record resolved_source_file =
  rs_object_id :: int
  rs_project_name :: string
  rs_filesystem_path :: string

definition source_file_hits :: "string \<Rightarrow> string option \<Rightarrow> store_db \<Rightarrow> resolved_source_file list" where
  "source_file_hits path project db =
     [\<lparr>rs_object_id = ob_id ob, rs_project_name = pj_name p, rs_filesystem_path = ob_filesystem_path ob\<rparr>.
        ob \<leftarrow> sd_objects db, p \<leftarrow> sd_projects db,
        pj_id p = ob_project_id ob \<and> 0 < pj_id p
        \<and> (ob_filesystem_path ob = path \<or> like_reference (''%/'' @ escape_like path) (ob_filesystem_path ob))
        \<and> (case project of None \<Rightarrow> True | Some n \<Rightarrow> pj_name p = n)]"

definition source_key :: "string \<Rightarrow> resolved_source_file \<Rightarrow> bool \<times> nat \<times> string" where
  "source_key path r = (rs_filesystem_path r \<noteq> path, length (rs_filesystem_path r), rs_filesystem_path r)"

definition resolve_source_file :: "string \<Rightarrow> string option \<Rightarrow> store_db \<Rightarrow> resolved_source_file list" where
  "resolve_source_file path project db =
     sort_key (source_key path)
       (take RESOLVE_SOURCE_FILE_LIMIT
         (sort_key (\<lambda>r. rs_filesystem_path r \<noteq> path) (source_file_hits path project db)))"

subsection \<open>Root layers make a well-formed context\<close>

lemma root_rows:
  assumes ok: "store_ok sha db"
  shows "set (map rt_id (load_root_layers db)) = set (map pj_root_layer (sd_projects db))"
proof -
  have "\<exists>l\<in>set (sd_layers db). lr_id l = pj_root_layer p \<and> 0 < pj_id p" if "p \<in> set (sd_projects db)" for p
    using ok that by (fastforce simp: store_ok_def projects_ok_def)
  then show ?thesis by (force simp: load_root_layers_def)
qed

lemma fresh_visible:
  assumes ok: "store_ok sha db"
  shows "visible_ids (rooted (load_root_layers db)) = sort (map pj_root_layer (sd_projects db))"
proof -
  have "visible_ids (rooted rs) = root_ids (rooted rs)" for rs
  proof -
    have "foldl (@) xs (replicate n []) = xs" for xs :: "int list" and n by (induction n) simp_all
    then show ?thesis by (simp add: visible_ids_def rooted_def Let_def)
  qed
  moreover have "distinct (map pj_root_layer (sd_projects db))" using ok by (simp add: store_ok_def projects_ok_def)
  ultimately show ?thesis
    using root_rows [OF ok] by (intro sorted_distinct_set_unique) (simp_all add: root_ids_rooted)
qed

lemma root_positive: "store_ok sha db \<Longrightarrow> p \<in> set (sd_projects db) \<Longrightarrow> 0 < pj_root_layer p"
  using root_layer_row by fastforce

text \<open>
  C26. A fresh query sees the whole stored index and nothing else: on a reachable store the context
  made of the loaded root layers is well formed, its layers are the root layers of the projects,
  each once and ascending, every persistent symbol, object, instance and reference lies in a
  visible layer, and no ephemeral row does.
\<close>

theorem fresh_context_exact:
  assumes "store_reach sha db"
  shows "eph_wf (rooted (load_root_layers db))
    \<and> visible_ids (rooted (load_root_layers db)) = sort (map pj_root_layer (sd_projects db))
    \<and> (\<forall>s\<in>set (sd_symbols db). sy_layer s \<in> set (visible_ids (rooted (load_root_layers db))) \<longleftrightarrow> 0 < sy_layer s)
    \<and> (\<forall>ob\<in>set (sd_objects db). ob_layer ob \<in> set (visible_ids (rooted (load_root_layers db))))
    \<and> (\<forall>i\<in>set (sd_instances db). in_layer i \<in> set (visible_ids (rooted (load_root_layers db))) \<longleftrightarrow> 0 < in_layer i)
    \<and> (\<forall>r\<in>set (sd_refs db). rf_layer r \<in> set (visible_ids (rooted (load_root_layers db))) \<longleftrightarrow> 0 < rf_layer r)"
proof -
  have ok: "store_ok sha db" using store_reach_ok [OF assms] by simp
  note vis = fresh_visible [OF ok]
  have root: "x \<in> set (visible_ids (rooted (load_root_layers db))) \<longleftrightarrow> (\<exists>p\<in>set (sd_projects db). pj_root_layer p = x)" for x
    unfolding vis by auto
  have pos: "x \<in> set (visible_ids (rooted (load_root_layers db))) \<Longrightarrow> 0 < x" for x
    unfolding root using root_positive [OF ok] by auto
  have owned: "owns db pid x \<Longrightarrow> x \<in> set (visible_ids (rooted (load_root_layers db)))" for pid x
    unfolding root owns_def by auto
  have objects: "ob_layer ob \<in> set (visible_ids (rooted (load_root_layers db)))" if "ob \<in> set (sd_objects db)" for ob
    using ok that owned by (auto simp: store_ok_def objects_ok_def)
  have linked: "linked db a b x \<Longrightarrow> 0 < x \<Longrightarrow> x \<in> set (visible_ids (rooted (load_root_layers db)))" for a b x
    unfolding linked_def using objects by blast
  have symbols: "0 < sy_layer s \<Longrightarrow> sy_layer s \<in> set (visible_ids (rooted (load_root_layers db)))" if "s \<in> set (sd_symbols db)" for s
  proof -
    assume "0 < sy_layer s"
    then have "owns db (sy_project_id s) (sy_layer s)" using ok that by (simp add: store_ok_def symbols_ok_def)
    then show ?thesis by (rule owned)
  qed
  have links: "\<forall>i\<in>set (sd_instances db). linked db (in_symbol i) (in_object_id i) (in_layer i)"
    "\<forall>r\<in>set (sd_refs db). linked db (rf_to_symbol r) (rf_from_object r) (rf_layer r)"
    using ok by (simp_all add: store_ok_def rows_ok_def)
  show ?thesis
  proof (intro conjI ballI)
    show "eph_wf (rooted (load_root_layers db))" by (rule rooted_wf)
    show "visible_ids (rooted (load_root_layers db)) = sort (map pj_root_layer (sd_projects db))" by (rule vis)
  next
    fix s assume "s \<in> set (sd_symbols db)"
    then show "sy_layer s \<in> set (visible_ids (rooted (load_root_layers db))) \<longleftrightarrow> 0 < sy_layer s"
      using symbols pos by blast
  next
    fix i assume "i \<in> set (sd_instances db)"
    then show "in_layer i \<in> set (visible_ids (rooted (load_root_layers db))) \<longleftrightarrow> 0 < in_layer i"
      using links(1) linked pos by blast
  next
    fix r assume "r \<in> set (sd_refs db)"
    then show "rf_layer r \<in> set (visible_ids (rooted (load_root_layers db))) \<longleftrightarrow> 0 < rf_layer r"
      using links(2) linked pos by blast
  qed (rule objects)
qed

theorem fresh_context_exact_witness:
  "store_reach sample_hash sample_store \<and> visible_ids (rooted (load_root_layers sample_store)) = [1, 2]
   \<and> eph_wf (rooted (load_root_layers sample_store))"
proof -
  have "map pj_root_layer (sd_projects sample_store) = [1, 2]" by code_simp
  then show ?thesis using fresh_context_exact [OF sample_reach] sample_reach by simp
qed

subsection \<open>The contents of a stored file\<close>

text \<open>The table of contents by object is read but no operation writes it.\<close>

abbreviation lean :: "store_db \<Rightarrow> bool" where "lean db \<equiv> sd_object_contents db = []"

definition stays_lean :: "('e, 'a) store_step \<Rightarrow> bool" where
  "stays_lean m \<longleftrightarrow> (\<forall>db. lean db \<longrightarrow> lean (snd (m db)))"

lemma stays_return [intro]: "stays_lean (sreturn a)" "stays_lean (slift r)" "stays_lean (sfail e)"
  by (simp_all add: stays_lean_def sreturn_def slift_def sfail_def)

lemma stays_bind [intro]:
  assumes "stays_lean m" "\<And>a. stays_lean (g a)"
  shows "stays_lean (sbind m g)"
  unfolding stays_lean_def
proof (intro allI impI)
  fix db assume lean: "lean db"
  obtain r db1 where m: "m db = (r, db1)" by (cases "m db")
  then have "lean db1" using assms(1) lean unfolding stays_lean_def by (metis snd_conv)
  then show "lean (snd (sbind m g db))" using m assms(2) by (cases r) (simp_all add: sbind_def stays_lean_def)
qed

lemma stays_smap [intro]: "(\<And>x. stays_lean (g x)) \<Longrightarrow> stays_lean (smap g xs)"
  by (induction xs) auto

lemma stays_if [intro]: "stays_lean a \<Longrightarrow> stays_lean b \<Longrightarrow> stays_lean (if c then a else b)"
  by simp


lemma stays_upload [intro]:
  assumes "stays_lean m"
  shows "stays_lean (in_upload m)"
  unfolding stays_lean_def
proof (intro allI impI)
  fix db assume lean: "lean db"
  obtain r db1 where m: "m db = (r, db1)" by (cases "m db")
  then have "lean db1" using assms lean unfolding stays_lean_def by (metis snd_conv)
  then show "lean (snd (in_upload m db))" using m by (simp add: in_upload_def)
qed

lemma lean_sweep: "lean db \<Longrightarrow> lean (sweep db)"
  by (simp add: sweep_def Let_def)

lemma stays_layers [intro]: "stays_lean (delete_layers ids)" "stays_lean purge_eph_layers"
proof -
  show "stays_lean (delete_layers ids)" for ids by (simp add: stays_lean_def delete_layers_def Let_def lean_sweep)
  then show "stays_lean purge_eph_layers" by (simp add: stays_lean_def purge_eph_layers_def)
qed

lemma stays_rows [intro]:
  "stays_lean (upsert_object row)" "stays_lean (insert_instance i)" "stays_lean (insert_ref r)"
  "stays_lean (insert_contents cs)" "stays_lean (root_layer_of pid)" "stays_lean (check_contents inserts)"
  "stays_lean (insert_symbols rows)" "stays_lean (claim_symbol_chunk pid seq)" "stays_lean (claim_object_chunk pid seq)"
  "stays_lean (insert_project now h name path st ot)" "stays_lean (\<lambda>db. (Inr (), set_status pid status db))"
  "stays_lean (\<lambda>db. (Inr (k db), delete_project_row pid db))" "stays_lean (\<lambda>db. (Inr (), delete_project_data pid db))"
  by (simp_all add: stays_lean_def upsert_object_def insert_instance_def insert_ref_def insert_contents_def root_layer_of_def
      check_contents_def insert_symbols_def claim_symbol_chunk_def claim_object_chunk_def insert_project_def set_status_def
      delete_project_row_def delete_project_data_def delete_symbol_rows_def lean_sweep Let_def split: option.split prod.split)

lemma stays_upsert [intro]: "stays_lean (upsert_objects rows)"
proof -
  have "stays_lean (smap upsert_object rows)" by blast
  then show ?thesis by (simp add: stays_lean_def upsert_objects_def)
qed

lemma stays_objects [intro]: "stays_lean (do_upload_objects sha pid objects)"
  unfolding do_upload_objects_def insert_objects_def insert_object_chunk_def insert_symbol_instances_def insert_symbol_refs_def
  by (intro stays_bind stays_return stays_rows stays_upsert stays_smap stays_if)

lemma stays_create [intro]: "stays_lean (create_project now h name path st ot)"
proof -
  have "stays_lean (sbind (delete_zombie p) (\<lambda>_. insert_project now h name path st ot))" for p
    unfolding delete_zombie_def by (intro stays_bind stays_return stays_layers stays_upload stays_rows)
  moreover have "stays_lean (insert_project now h name path st ot)" by blast
  ultimately show ?thesis by (simp add: stays_lean_def create_project_def split: option.split upload_status.split)
qed

lemma stays_finish [intro]: "stays_lean (finish pid)"
  unfolding finish_def by blast







subsection \<open>The resolution of a path\<close>

lemma sort_key_not: "sort_key (\<lambda>x. \<not> P x) xs = filter P xs @ filter (\<lambda>x. \<not> P x) xs"
proof (rule properties_for_sort_key)
  show "sorted (map (\<lambda>x. \<not> P x) (filter P xs @ filter (\<lambda>x. \<not> P x) xs))"
  proof -
    have "map (\<lambda>x. \<not> P x) (filter P xs) = replicate (length (filter P xs)) False" by (induction xs) simp_all
    moreover have "map (\<lambda>x. \<not> P x) (filter (\<lambda>x. \<not> P x) xs) = replicate (length (filter (\<lambda>x. \<not> P x) xs)) True"
      by (induction xs) simp_all
    ultimately show ?thesis by (simp add: sorted_append)
  qed
  fix k assume "k \<in> set (filter P xs @ filter (\<lambda>x. \<not> P x) xs)"
  show "filter (\<lambda>x. (\<not> P k) = (\<not> P x)) (filter P xs @ filter (\<lambda>x. \<not> P x) xs) = filter (\<lambda>x. (\<not> P k) = (\<not> P x)) xs"
    by (cases "P k") (simp_all add: conj_commute)
qed simp

lemma filter_take_first: "filter P (take n (filter P xs @ filter (\<lambda>x. \<not> P x) ys)) = take n (filter P xs)"
proof -
  have "filter P (take n (filter P xs)) = take n (filter P xs)"
    by (auto simp: filter_id_conv dest: in_set_takeD)
  moreover have "filter P (take m (filter (\<lambda>x. \<not> P x) ys)) = []" for m
    by (auto simp: filter_empty_conv dest: in_set_takeD)
  ultimately show ?thesis by simp
qed

lemma mem_pairs:
  "r \<in> set (concat (map (\<lambda>x. concat (map (\<lambda>y. if c x y then [f x y] else []) ys)) xs))
   \<longleftrightarrow> (\<exists>x\<in>set xs. \<exists>y\<in>set ys. c x y \<and> r = f x y)"
  by (auto split: if_splits)

lemma path_suffix:
  "like_reference (''%/'' @ escape_like path) s \<longleftrightarrow> (\<exists>dir. s = dir @ slash # path)"
proof -
  have tail: "like_reference (escape_like path) t \<longleftrightarrow> t = path" for t
  proof -
    have "like_reference (escape_like path) t \<longleftrightarrow> strip_prefix path t = Some []"
      using like_ref.like_escaped_text [of path "[]" t] by (simp add: escape_like_concat split: option.splits)
    then show ?thesis by (auto simp: strip_prefix_iff)
  qed
  have "like_reference (''%/'' @ escape_like path) s \<longleftrightarrow> (\<exists>k\<le>length s. drop k s \<noteq> [] \<and> hd (drop k s) = slash \<and> tl (drop k s) = path)"
    by (simp add: tail)
  also have "\<dots> \<longleftrightarrow> (\<exists>k\<le>length s. drop k s = slash # path)" by (metis list.collapse list.sel(1,3) list.distinct(1))
  also have "\<dots> \<longleftrightarrow> (\<exists>dir. s = dir @ slash # path)"
    by (metis append_take_drop_id append_eq_conv_conj length_append le_add1)
  finally show ?thesis .
qed

text \<open>
  C28. Resolving a source path: the candidates are the files of the (named) projects whose path is
  the given one or ends with it after a slash, with wildcards in the path taken literally; the
  answer holds as many of them as the cap allows, each at most once, never drops an exact one for
  another, and is ordered by exactness, length and path.
\<close>

theorem resolve_source_file_exact:
  "set (source_file_hits path project db) =
     {\<lparr>rs_object_id = ob_id ob, rs_project_name = pj_name p, rs_filesystem_path = ob_filesystem_path ob\<rparr> |ob p.
        ob \<in> set (sd_objects db) \<and> p \<in> set (sd_projects db) \<and> pj_id p = ob_project_id ob \<and> 0 < pj_id p
        \<and> (ob_filesystem_path ob = path \<or> (\<exists>dir. ob_filesystem_path ob = dir @ slash # path))
        \<and> project \<in> {None, Some (pj_name p)}}
   \<and> mset (resolve_source_file path project db) \<subseteq># mset (source_file_hits path project db)
   \<and> length (resolve_source_file path project db) = min 50 (length (source_file_hits path project db))
   \<and> length (filter (\<lambda>r. rs_filesystem_path r = path) (resolve_source_file path project db))
     = min 50 (length (filter (\<lambda>r. rs_filesystem_path r = path) (source_file_hits path project db)))
   \<and> sorted (map (source_key path) (resolve_source_file path project db))"
proof -
  let ?hits = "source_file_hits path project db" and ?e = "\<lambda>r. rs_filesystem_path r = path"
  let ?rows = "filter ?e ?hits @ filter (\<lambda>r. \<not> ?e r) ?hits"
  have def: "resolve_source_file path project db = sort_key (source_key path) (take 50 ?rows)"
    by (simp add: resolve_source_file_def RESOLVE_SOURCE_FILE_LIMIT_def sort_key_not)
  have hits: "set ?hits = {\<lparr>rs_object_id = ob_id ob, rs_project_name = pj_name p, rs_filesystem_path = ob_filesystem_path ob\<rparr> |ob p.
        ob \<in> set (sd_objects db) \<and> p \<in> set (sd_projects db) \<and> pj_id p = ob_project_id ob \<and> 0 < pj_id p
        \<and> (ob_filesystem_path ob = path \<or> (\<exists>dir. ob_filesystem_path ob = dir @ slash # path))
        \<and> project \<in> {None, Some (pj_name p)}}"
  proof -
    have named: "(case project of None \<Rightarrow> True | Some n \<Rightarrow> pj_name p = n) \<longleftrightarrow> project \<in> {None, Some (pj_name p)}" for p
      by (cases project) auto
    show ?thesis unfolding set_eq_iff source_file_hits_def mem_pairs path_suffix named mem_Collect_eq by blast
  qed
  have all: "mset ?rows = mset ?hits" by simp
  have "mset (take 50 ?rows) \<subseteq># mset ?rows" by (metis append_take_drop_id mset_append mset_subset_eq_add_left)
  then have sub: "mset (resolve_source_file path project db) \<subseteq># mset ?hits" unfolding def all [symmetric] by simp
  have len: "length (resolve_source_file path project db) = min 50 (length ?hits)"
  proof -
    have "length ?rows = length ?hits" using arg_cong [OF all, of size] by (simp only: size_mset)
    then show ?thesis unfolding def by (simp only: length_sort length_take min.commute)
  qed
  have "length (filter ?e (resolve_source_file path project db)) = length (filter ?e (take 50 ?rows))"
  proof -
    have "mset (filter ?e (sort_key (source_key path) (take 50 ?rows))) = mset (filter ?e (take 50 ?rows))"
      by (simp only: mset_filter mset_sort)
    from arg_cong [OF this, of size] show ?thesis unfolding def by (simp only: size_mset)
  qed
  also have "\<dots> = min 50 (length (filter ?e ?hits))" by (simp add: filter_take_first min.commute del: take_append)
  finally show ?thesis using hits sub len unfolding def by simp
qed

end
