(* ===== verification/Index_Api.thy ===== *)
theory Index_Api
  imports Upload_Exact Project_Tree
begin

section \<open>The HTTP interface of the store\<close>

text \<open>
  The handlers of \<open>askld/src/bin/askld/api/index.rs\<close>: each maps a request and the store to a response
  and the new store.  Protocol buffers are a parameter: \<open>pb_project\<close> and \<open>pb_contents\<close> decode a body.
  The identity extractor that guards the changing handlers is \<open>Authentication.identity_of_request\<close>;
  here its requests are those it let through.  The texts of a response are kept, headers are not.
\<close>

subsection \<open>Requests and responses\<close>

record protobuf =
  pb_project :: "byte list \<Rightarrow> string + upload_project"
  pb_contents :: "byte list \<Rightarrow> string + object_content list"

datatype reply =
    Empty
  | Message string
  | UploadReply int bool
  | SeqReply int
  | NewEntries nat
  | Present "string list"
  | ProjectList "project_info list"
  | Details project_details
  | DeleteReply int
  | TreeReply string "tree_node list" "string \<rightharpoonup> tree_node list"
  | Source "byte list"

record response =
  hr_status :: nat
  hr_reply :: reply

abbreviation respond :: "nat \<Rightarrow> reply \<Rightarrow> response" where
  "respond status body \<equiv> \<lparr>hr_status = status, hr_reply = body\<rparr>"

definition is_success :: "nat \<Rightarrow> bool" where "is_success status \<longleftrightarrow> 200 \<le> status \<and> status \<le> 299"

definition is_server_error :: "nat \<Rightarrow> bool" where "is_server_error status \<longleftrightarrow> 500 \<le> status \<and> status \<le> 599"

definition MAX_UPLOAD_BYTES :: nat where "MAX_UPLOAD_BYTES = 256 * 1024 * 1024"

text \<open>The argument is the environment variable; \<open>u64\<close> and \<open>usize\<close> have the same width.\<close>

definition max_upload_bytes :: "string option \<Rightarrow> nat" where
  "max_upload_bytes var =
     (case var of
        None \<Rightarrow> MAX_UPLOAD_BYTES
      | Some raw \<Rightarrow> (case parse_usize raw of
            Some v \<Rightarrow> if 0 < v then v else MAX_UPLOAD_BYTES
          | None \<Rightarrow> MAX_UPLOAD_BYTES))"

definition require_protobuf :: "string option \<Rightarrow> response + unit" where
  "require_protobuf content_type =
     (if strip_prefix ''application/x-protobuf'' (case content_type of Some v \<Rightarrow> v | None \<Rightarrow> []) \<noteq> None then Inr ()
      else Inl (respond 415 (Message ''Expected application/x-protobuf'')))"

definition decode_body :: "(byte list \<Rightarrow> string + 'm) \<Rightarrow> string option \<Rightarrow> byte list \<Rightarrow> response + 'm" where
  "decode_body decode content_type body =
     rbind (require_protobuf content_type) (\<lambda>_.
     map_err (\<lambda>err. respond 400 (Message (''Failed to decode protobuf payload: '' @ err))) (decode body))"

subsection \<open>Changing the store\<close>

definition post_project ::
  "protobuf \<Rightarrow> nat \<Rightarrow> byte list \<Rightarrow> int option \<Rightarrow> int option \<Rightarrow> string option \<Rightarrow> byte list \<Rightarrow> store_db \<Rightarrow> response \<times> store_db" where
  "post_project pb now root_hash symbol_chunks object_chunks content_type body db =
     (case decode_body (pb_project pb) content_type body of
        Inl resp \<Rightarrow> (resp, db)
      | Inr upload \<Rightarrow>
          (case upload_index now root_hash upload symbol_chunks object_chunks db of
             (Inr (pid, resumed), db') \<Rightarrow> (respond (if resumed then 200 else 201) (UploadReply pid resumed), db')
           | (Inl Conflict, db') \<Rightarrow> (respond 409 (Message ''Project already exists''), db')
           | (Inl (Invalid message), db') \<Rightarrow> (respond 400 (Message message), db')
           | (Inl (Storage message), db') \<Rightarrow> (respond 500 (Message ''Failed to upload index''), db')))"

definition chunk_response :: "int \<Rightarrow> string \<Rightarrow> (upload_error + unit) \<times> store_db \<Rightarrow> response \<times> store_db" where
  "chunk_response seq failed outcome =
     (case outcome of
        (Inr _, db') \<Rightarrow> (respond 200 (SeqReply seq), db')
      | (Inl (Invalid msg), db') \<Rightarrow> (respond 400 (Message msg), db')
      | (Inl (Storage msg), db') \<Rightarrow> (respond 500 (Message failed), db')
      | (Inl Conflict, db') \<Rightarrow> (respond 409 Empty, db'))"

definition post_symbols ::
  "protobuf \<Rightarrow> int \<Rightarrow> int \<Rightarrow> string option \<Rightarrow> byte list \<Rightarrow> store_db \<Rightarrow> response \<times> store_db" where
  "post_symbols pb pid seq content_type body db =
     (case decode_body (pb_project pb) content_type body of
        Inl resp \<Rightarrow> (resp, db)
      | Inr upload \<Rightarrow>
          if up_objects upload \<noteq> []
          then (respond 400 (Message ''objects must be uploaded via POST /v1/index/projects/{id}/objects''), db)
          else chunk_response seq ''Failed to upload symbol chunk'' (upload_symbol_chunk pid seq (up_symbols upload) db))"

definition post_objects ::
  "protobuf \<Rightarrow> sha \<Rightarrow> int \<Rightarrow> int \<Rightarrow> string option \<Rightarrow> byte list \<Rightarrow> store_db \<Rightarrow> response \<times> store_db" where
  "post_objects pb sha pid seq content_type body db =
     (case decode_body (pb_project pb) content_type body of
        Inl resp \<Rightarrow> (resp, db)
      | Inr upload \<Rightarrow> chunk_response seq ''Failed to upload objects'' (upload_object_chunk sha pid seq upload db))"

definition post_finalize :: "int \<Rightarrow> store_db \<Rightarrow> response \<times> store_db" where
  "post_finalize pid db =
     (case finalize_project pid db of
        (Inr True, db') \<Rightarrow> (respond 200 Empty, db')
      | (Inr False, db') \<Rightarrow> (respond 404 (Message ''Project not found''), db')
      | (Inl Conflict, db') \<Rightarrow> (respond 409 (Message ''Project is not in uploading state''), db')
      | (Inl (Storage msg), db') \<Rightarrow> (respond 500 (Message ''Failed to finalize project''), db')
      | (Inl (Invalid msg), db') \<Rightarrow> (respond 500 (Message ''Unexpected error''), db'))"

definition post_contents ::
  "protobuf \<Rightarrow> sha \<Rightarrow> string option \<Rightarrow> byte list \<Rightarrow> store_db \<Rightarrow> response \<times> store_db" where
  "post_contents pb sha content_type body db =
     (case decode_body (pb_contents pb) content_type body of
        Inl resp \<Rightarrow> (resp, db)
      | Inr batch \<Rightarrow>
          (case upload_contents sha batch db of
             (Inr n, db') \<Rightarrow> (respond 200 (NewEntries n), db')
           | (Inl (Invalid message), db') \<Rightarrow> (respond 400 (Message message), db')
           | (Inl (Storage message), db') \<Rightarrow> (respond 500 (Message ''Failed to upload contents''), db')
           | (Inl Conflict, db') \<Rightarrow> (respond 500 (Message ''Unexpected conflict''), db')))"

definition delete_index_project :: "int \<Rightarrow> store_db \<Rightarrow> response \<times> store_db" where
  "delete_index_project pid db =
     (case delete_project pid db of
        (Inr True, db') \<Rightarrow> (respond 200 (DeleteReply pid), db')
      | (Inr False, db') \<Rightarrow> (respond 404 (Message ''Project not found''), db')
      | (Inl message, db') \<Rightarrow> (respond 500 (Message ''Failed to delete project''), db'))"

subsection \<open>Reading the store\<close>

definition post_check :: "string list \<Rightarrow> store_db \<Rightarrow> response" where
  "post_check hashes db = respond 200 (Present (check_content_hashes hashes db))"

definition list_index_projects :: "store_db \<Rightarrow> response" where
  "list_index_projects db = respond 200 (ProjectList (list_projects db))"

definition get_index_project :: "int \<Rightarrow> store_db \<Rightarrow> response" where
  "get_index_project pid db =
     (case get_project_details pid db of
        Some details \<Rightarrow> respond 200 (Details details)
      | None \<Rightarrow> respond 404 (Message ''Project not found''))"

record tree_query =
  tq_path :: "string option"
  tq_expand :: "string list"
  tq_compact :: "nat option"

text \<open>
  The query string is decoded by a library; \<open>Inl\<close> is its error.  The map of nodes loses an entry
  when it is taken, so a path is listed once, the base path first.  A listing that does not
  return is \<open>None\<close>.
\<close>

fun take_expanded :: "string list \<Rightarrow> (string \<rightharpoonup> tree_node list) \<Rightarrow> (string \<rightharpoonup> tree_node list) \<Rightarrow> string \<rightharpoonup> tree_node list" where
  "take_expanded [] nodes acc = acc"
| "take_expanded (p # ps) nodes acc =
     (case nodes p of None \<Rightarrow> take_expanded ps nodes acc
      | Some ns \<Rightarrow> take_expanded ps (nodes(p := None)) (acc(p \<mapsto> ns)))"

definition tree_paths :: "tree_query \<Rightarrow> response + string \<times> string list \<times> bool" where
  "tree_paths query =
     (let raw_path = (case tq_path query of Some p \<Rightarrow> p | None \<Rightarrow> ''/'') in
      if \<not> starts_with_slash raw_path then Inl (respond 400 (Message ''path must be an absolute path''))
      else if \<exists>n. tq_compact query = Some n \<and> n \<noteq> 0 \<and> n \<noteq> 1
      then Inl (respond 400 (Message ''compact must be 0 or 1''))
      else if list_ex (\<lambda>p. \<not> starts_with_slash p) (tq_expand query)
      then Inl (respond 400 (Message ''expand must be absolute paths''))
      else Inr (normalize_full_path raw_path, map normalize_full_path (tq_expand query), tq_compact query \<noteq> Some 0))"

definition get_project_tree :: "int \<Rightarrow> (string + tree_query) option \<Rightarrow> store_db \<Rightarrow> response option" where
  "get_project_tree pid query_string db =
     (case query_string of
        Some (Inl err) \<Rightarrow> Some (respond 400 (Message (''Query deserialize error: '' @ err)))
      | q \<Rightarrow>
          (let query = (case q of Some (Inr query) \<Rightarrow> query | _ \<Rightarrow> \<lparr>tq_path = None, tq_expand = [], tq_compact = None\<rparr>) in
           case tree_paths query of
             Inl resp \<Rightarrow> Some resp
           | Inr (path, expand, compact) \<Rightarrow>
               map_option (\<lambda>result. case result of
                   Nodes all_nodes \<Rightarrow>
                     respond 200 (TreeReply path (case all_nodes path of Some ns \<Rightarrow> ns | None \<Rightarrow> [])
                       (take_expanded expand (all_nodes(path := None)) Map.empty))
                 | ProjectNotFound \<Rightarrow> respond 404 (Message ''Project not found'')
                 | NotReady \<Rightarrow> respond 409 (Message ''Project upload is not complete'')
                 | NotDirectory p \<Rightarrow>
                     respond 400 (Message (if p = path then ''path is not a directory''
                       else ''expand path is not a directory: '' @ p)))
                 (list_project_tree_multi pid (path # expand) compact db)))"

definition slice_content :: "byte list \<Rightarrow> int option \<Rightarrow> int option \<Rightarrow> response + byte list" where
  "slice_content content start_offset end_offset =
     (let start = (case start_offset of Some i \<Rightarrow> i | None \<Rightarrow> 0);
          stop = (case end_offset of Some i \<Rightarrow> i | None \<Rightarrow> int (length content)) in
      if start < 0 \<or> stop < 0 then Inl (respond 400 (Message ''Offsets must be non-negative''))
      else if stop < start \<or> int (length content) < stop then Inl (respond 400 (Message ''Invalid offset range''))
      else Inr (take (nat (stop - start)) (drop (nat start) content)))"

definition get_project_source :: "int \<Rightarrow> string \<Rightarrow> int option \<Rightarrow> int option \<Rightarrow> store_db \<Rightarrow> response" where
  "get_project_source pid raw_path start_offset end_offset db =
     (let path = trim raw_path in
      if path = [] then respond 400 (Message ''path is required'')
      else if \<not> starts_with_slash path then respond 400 (Message ''path must be an absolute path'')
      else (case get_project_file_contents_by_path pid path db of
              Inr (Some content) \<Rightarrow>
                (case slice_content content start_offset end_offset of
                   Inr part \<Rightarrow> respond 200 (Source part) | Inl resp \<Rightarrow> resp)
            | Inr None \<Rightarrow> respond 404 (Message ''File not found'')
            | Inl message \<Rightarrow> respond 500 (Message ''Failed to load project source'')))"

subsection \<open>What a response says\<close>

text \<open>A step that never ends in a conflict, and keeps so when it is composed.\<close>

definition no_conflict :: "(upload_error, 'a) store_step \<Rightarrow> bool" where
  "no_conflict m \<longleftrightarrow> (\<forall>db. fst (m db) \<noteq> Inl Conflict)"

lemma no_conflict_basic [intro]: "no_conflict (sreturn a)" "r \<noteq> Inl Conflict \<Longrightarrow> no_conflict (slift r)"
  by (simp_all add: no_conflict_def sreturn_def slift_def)

lemma no_conflict_bind [intro]:
  assumes "no_conflict m" "\<And>a. no_conflict (g a)"
  shows "no_conflict (sbind m g)"
  unfolding no_conflict_def
proof
  fix db
  obtain r db1 where m: "m db = (r, db1)" by (cases "m db")
  then have "r \<noteq> Inl Conflict" using assms(1) unfolding no_conflict_def by (metis fst_conv)
  then show "fst (sbind m g db) \<noteq> Inl Conflict" using m assms(2) by (cases r) (simp_all add: sbind_def no_conflict_def)
qed

lemma no_conflict_smap [intro]: "(\<And>x. no_conflict (g x)) \<Longrightarrow> no_conflict (smap g xs)"
  by (induction xs) auto

lemma no_conflict_if [intro]: "no_conflict a \<Longrightarrow> no_conflict b \<Longrightarrow> no_conflict (if c then a else b)"
  by simp

lemma no_conflict_around [intro]:
  assumes "no_conflict m"
  shows "no_conflict (clear_on_drop (transaction m))"
  unfolding no_conflict_def
proof
  fix db
  obtain r db1 where m: "m db = (r, db1)" by (cases "m db")
  then have "r \<noteq> Inl Conflict" using assms unfolding no_conflict_def by (metis fst_conv)
  then show "fst (clear_on_drop (transaction m) db) \<noteq> Inl Conflict"
    using m by (cases r) (simp_all add: clear_on_drop_def transaction_def)
qed

lemma no_conflict_rows [intro]:
  "no_conflict (upsert_object row)" "no_conflict (insert_instance i)" "no_conflict (insert_ref r)"
  "no_conflict (insert_contents cs)" "no_conflict (root_layer_of pid)" "no_conflict (check_contents inserts)"
  "no_conflict (insert_symbols rows)" "no_conflict (claim_symbol_chunk pid seq)" "no_conflict (claim_object_chunk pid seq)"
  by (simp_all add: no_conflict_def upsert_object_def insert_instance_def insert_ref_def insert_contents_def root_layer_of_def
      check_contents_def insert_symbols_def claim_symbol_chunk_def claim_object_chunk_def Let_def split: option.split prod.split)

lemma no_conflict_upsert [intro]: "no_conflict (upsert_objects rows)"
proof -
  have "no_conflict (smap upsert_object rows)" by blast
  then show ?thesis by (simp add: no_conflict_def upsert_objects_def)
qed

definition calm :: "upload_error + 'a \<Rightarrow> bool" where "calm r \<longleftrightarrow> r \<noteq> Inl Conflict"

lemma calm_basic [simp]: "calm (Inr a)" "calm (Inl (Invalid m))" "calm (Inl (Storage m))"
  by (simp_all add: calm_def)

lemma calm_rbind: "calm r \<Longrightarrow> (\<And>a. calm (f a)) \<Longrightarrow> calm (rbind r f)"
  by (cases r) (simp_all add: calm_def)

lemma calm_pair: "(\<And>a b. calm (f a b)) \<Longrightarrow> calm (case p of (a, b) \<Rightarrow> f a b)"
  by (cases p) simp

lemma calm_if: "calm a \<Longrightarrow> calm b \<Longrightarrow> calm (if c then a else b)"
  by simp

lemma calm_collect: "(\<And>r. r \<in> set rs \<Longrightarrow> calm r) \<Longrightarrow> calm (collect_results rs)"
proof (induction rs)
  case (Cons r rs)
  then have "calm r" "calm (collect_results rs)" by simp_all
  then show ?case by (cases r; cases "collect_results rs") (auto simp: calm_def)
qed simp

lemma calm_ids: "calm (compute_symbol_id pid i)" "calm (validate_type v vs label)"
  by (simp_all add: compute_symbol_id_def validate_type_def)

lemma calm_symbols: "calm (build_symbols pid root ss)"
proof -
  have "calm (build_symbols_from seen pid root ss)" for seen
  proof (induction ss arbitrary: seen)
    case (Cons s ss)
    show ?case unfolding build_symbols_from.simps validate_symbol_type_def Let_def
      by (intro calm_if calm_basic calm_rbind calm_ids calm_pair Cons.IH)
  qed simp
  then show ?thesis by (simp add: build_symbols_def)
qed

lemma calm_objects: "calm (build_objects sha pid root obs)"
proof -
  have "calm (build_objects_from sha seen pid root obs)" for seen
  proof (induction obs arbitrary: seen)
    case (Cons ob obs)
    have "calm (object_path ob)" "calm (object_content_hash sha ob)"
      by (simp_all add: object_path_def object_content_hash_def Let_def)
    then show ?case unfolding build_objects_from.simps
      by (intro calm_if calm_basic calm_rbind calm_pair Cons.IH)
  qed simp
  then show ?thesis by (simp add: build_objects_def)
qed

lemma calm_rows:
  assumes "\<And>i ob r. r \<in> set (rows_of i ob) \<Longrightarrow> calm r"
  shows "calm (build_rows m rows_of obs)"
proof (induction obs)
  case (Cons ob obs)
  have "calm (resolve_object_id m (uo_local_id ob))" by (simp add: resolve_object_id_def split: option.split)
  then show ?case unfolding build_rows.simps by (intro calm_rbind calm_collect assms Cons.IH calm_basic)
qed simp

lemma calm_links:
  "calm (build_symbol_instances pid root obs m)" "calm (build_symbol_refs pid root obs m)"
proof -
  have "calm (build_instance pid root i x)" for i x
    unfolding build_instance_def validate_instance_type_def by (simp add: calm_rbind calm_ids)
  moreover have "calm (build_ref pid root i y)" for i y
    unfolding build_ref_def by (simp add: calm_rbind calm_ids)
  ultimately show "calm (build_symbol_instances pid root obs m)" "calm (build_symbol_refs pid root obs m)"
    unfolding build_symbol_instances_def build_symbol_refs_def by (auto intro!: calm_rows)
qed

lemma no_conflict_lift [intro]: "calm r \<Longrightarrow> no_conflict (slift r)"
  by (auto simp: calm_def)

text \<open>Sending a chunk never ends in a conflict.\<close>

lemma chunk_no_conflict:
  "no_conflict (upload_symbol_chunk pid seq symbols)" "no_conflict (upload_object_chunk sha pid seq u)"
proof -
  show "no_conflict (upload_symbol_chunk pid seq symbols)"
    unfolding upload_symbol_chunk_def
    by (intro no_conflict_around no_conflict_bind no_conflict_if no_conflict_lift calm_symbols no_conflict_basic(1) no_conflict_rows no_conflict_smap)
  have body: "no_conflict (do_upload_objects sha pid (up_objects u))"
    unfolding do_upload_objects_def insert_objects_def insert_object_chunk_def insert_symbol_instances_def insert_symbol_refs_def
    by (intro no_conflict_bind no_conflict_lift calm_objects calm_links no_conflict_basic(1) no_conflict_rows no_conflict_upsert
        no_conflict_smap no_conflict_if)
  have "no_conflict (clear_on_drop (transaction (
        sbind (claim_object_chunk pid seq) (\<lambda>inserted.
        if inserted = 0 then sreturn () else do_upload_objects sha pid (up_objects u)))))"
    by (intro no_conflict_around no_conflict_bind no_conflict_if no_conflict_basic(1) no_conflict_rows body)
  then show "no_conflict (upload_object_chunk sha pid seq u)"
    by (simp add: upload_object_chunk_def no_conflict_def sfail_def)
qed

lemma chunk_response_success:
  assumes "chunk_response seq failed (m db) = (resp, db')" "no_conflict m" "is_success (hr_status resp) \<or> hr_status resp = 409"
  shows "\<exists>a. m db = (Inr a, db')"
proof -
  obtain r db1 where m: "m db = (r, db1)" by (cases "m db")
  have "r \<noteq> Inl Conflict" using assms(2) m unfolding no_conflict_def by (metis fst_conv)
  then show ?thesis
    using assms(1,3) m by (auto simp: chunk_response_def is_success_def split: sum.splits upload_error.splits)
qed

end
