(* ===== verification/Upload_Client.thy ===== *)
theory Upload_Client
  imports Index_Api Index_Reads
begin

section \<open>The upload client\<close>

text \<open>
  \<open>askld/src/bin/askld/cli/index.rs\<close>: the client that uploads an index over HTTP, against the handlers of
  \<open>Index_Api\<close>.  The network may lose a request, lose the reply after the server acted, or break
  the body of a reply; the fates of the requests are part of the world, and once they are used up
  every request is delivered.  Chunks are sent by concurrent tasks: their interleaving is an explicit
  schedule.  Protocol buffers, the display of a status code and the text of a reply are parameters.
  Authentication and the limit on the size of a payload, which stand before the handlers, are left out.
\<close>

subsection \<open>The network\<close>

datatype request =
    PostProject "int option" "int option" "byte list"
  | PostSymbols int int "byte list"
  | PostObjects int int "byte list"
  | PostFinalize int
  | PostContents "byte list"
  | PostCheck "string list"
  | GetProjects
  | GetProject int
  | DeleteProject int

record client_env = protobuf +
  pe_project :: "upload_project \<Rightarrow> byte list"
  pe_contents :: "object_content list \<Rightarrow> byte list"
  ce_sha :: sha
  ce_now :: nat
  ce_root_hash :: "int \<Rightarrow> byte list"
  ce_status :: "nat \<Rightarrow> string"
  ce_text :: "reply \<Rightarrow> string"

definition codec_ok :: "client_env \<Rightarrow> bool" where
  "codec_ok env \<longleftrightarrow> (\<forall>u. pb_project env (pe_project env u) = Inr u) \<and> (\<forall>cs. pb_contents env (pe_contents env cs) = Inr cs)"

abbreviation proto_type :: "string option" where "proto_type \<equiv> Some ''application/x-protobuf''"

text \<open>The routes of the server; the hash of a new root layer is random, here named by its id.\<close>

fun serve :: "client_env \<Rightarrow> request \<Rightarrow> store_db \<Rightarrow> response \<times> store_db" where
  "serve env (PostProject st ot body) db =
     post_project (protobuf.truncate env) (ce_now env) (ce_root_hash env (sq_root (sd_seqs db))) st ot proto_type body db"
| "serve env (PostSymbols pid seq body) db = post_symbols (protobuf.truncate env) pid seq proto_type body db"
| "serve env (PostObjects pid seq body) db = post_objects (protobuf.truncate env) (ce_sha env) pid seq proto_type body db"
| "serve env (PostFinalize pid) db = post_finalize pid db"
| "serve env (PostContents body) db = post_contents (protobuf.truncate env) (ce_sha env) proto_type body db"
| "serve env (PostCheck hashes) db = (post_check hashes db, db)"
| "serve env GetProjects db = (list_index_projects db, db)"
| "serve env (GetProject pid) db = (get_index_project pid db, db)"
| "serve env (DeleteProject pid) db = delete_index_project pid db"

datatype fate = Delivered | RequestLost | ReplyLost | BodyLost

record world =
  wd_db :: store_db
  wd_fates :: "fate list"

type_synonym 'a client = "(world, string, 'a) step"

definition next_fate :: "world \<Rightarrow> fate \<times> fate list" where
  "next_fate w = (case wd_fates w of [] \<Rightarrow> (Delivered, []) | f # fs \<Rightarrow> (f, fs))"

text \<open>A request: the error of \<open>send\<close>, or the status with the body, which may fail to arrive.\<close>

definition exchange :: "client_env \<Rightarrow> request \<Rightarrow> (nat \<times> (string + reply)) client" where
  "exchange env req w =
     (case next_fate w of (fate, fates) \<Rightarrow>
      case serve env req (wd_db w) of (resp, db) \<Rightarrow>
        (case fate of
           RequestLost \<Rightarrow> (Inl ''error sending request'', w\<lparr>wd_fates := fates\<rparr>)
         | ReplyLost \<Rightarrow> (Inl ''error sending request'', w\<lparr>wd_db := db, wd_fates := fates\<rparr>)
         | BodyLost \<Rightarrow> (Inr (hr_status resp, Inl ''error decoding response body''), w\<lparr>wd_db := db, wd_fates := fates\<rparr>)
         | Delivered \<Rightarrow> (Inr (hr_status resp, Inr (hr_reply resp)), w\<lparr>wd_db := db, wd_fates := fates\<rparr>)))"

definition describe :: "client_env \<Rightarrow> string \<Rightarrow> nat \<Rightarrow> reply \<Rightarrow> string" where
  "describe env what status body = what @ '' ('' @ ce_status env status @ ''): '' @ ce_text env body"

text \<open>
  A request whose reply must be a success; \<open>lost\<close> words the error of sending and \<open>unread\<close> that of
  a successful reply whose body is broken.
\<close>

definition demand :: "client_env \<Rightarrow> request \<Rightarrow> string \<Rightarrow> string \<Rightarrow> string \<Rightarrow> reply client" where
  "demand env req lost unread failed =
     (\<lambda>w. case exchange env req w of
        (Inl e, w') \<Rightarrow> (Inl (lost @ e), w')
      | (Inr (status, Inl e), w') \<Rightarrow> (Inl (if is_success status then unread @ e else e), w')
      | (Inr (status, Inr body), w') \<Rightarrow>
          if is_success status then (Inr body, w') else (Inl (describe env failed status body), w'))"

subsection \<open>Settings\<close>

definition CONTENTS_UPLOAD_MAX_BYTES :: nat where "CONTENTS_UPLOAD_MAX_BYTES = 128 * 1024 * 1024"
definition CONTENTS_HASH_BATCH_SIZE :: nat where "CONTENTS_HASH_BATCH_SIZE = 10000"
definition SYMBOLS_PER_CHUNK :: nat where "SYMBOLS_PER_CHUNK = 1000"
definition OBJECTS_PER_CHUNK :: nat where "OBJECTS_PER_CHUNK = 100"
definition CHUNK_MAX_RETRIES :: nat where "CHUNK_MAX_RETRIES = 3"

definition normalize_base_url :: "string \<Rightarrow> string" where
  "normalize_base_url url =
     (let base = trim url;
          base = (if strip_prefix ''http://'' base = None \<and> strip_prefix ''https://'' base = None then ''http://'' @ base else base)
      in rev (dropWhile (\<lambda>c. c = slash) (rev base)))"

definition resolve_token :: "string option \<Rightarrow> string option \<Rightarrow> string + string" where
  "resolve_token token var =
     (case (case token of Some t \<Rightarrow> Some t | None \<Rightarrow> var) of
        Some t \<Rightarrow> if trim t \<noteq> [] then Inr t else Inl ''Missing token; pass --token or set ASKL_TOKEN''
      | None \<Rightarrow> Inl ''Missing token; pass --token or set ASKL_TOKEN'')"

datatype project_selector = SelectId int | SelectName string

fun resolve_project_selector :: "int option \<Rightarrow> string option \<Rightarrow> string + project_selector" where
  "resolve_project_selector (Some i) (Some n) = Inl ''Use either --id or --name''"
| "resolve_project_selector (Some i) None = Inr (SelectId i)"
| "resolve_project_selector None (Some n) = Inr (SelectName n)"
| "resolve_project_selector None None = Inl ''Missing project selector; use --id or --name''"

definition human_size :: "nat \<Rightarrow> string" where
  "human_size bytes =
     (if 1024 * 1024 * 1024 \<le> bytes then show_nat (bytes div (1024 * 1024 * 1024)) @ '' GB''
      else if 1024 * 1024 \<le> bytes then show_nat (bytes div (1024 * 1024)) @ '' MB''
      else if 1024 \<le> bytes then show_nat (bytes div 1024) @ '' KB''
      else show_nat bytes @ '' B'')"

text \<open>\<open>Endpoints\<close> and the queries appended to them.\<close>

fun request_url :: "string \<Rightarrow> request \<Rightarrow> string" where
  "request_url base (PostProject st ot body) = base @ ''/v1/index/projects?symbol_chunks='' @ (case st of Some n \<Rightarrow> show_int n | None \<Rightarrow> [])
     @ ''&object_chunks='' @ (case ot of Some n \<Rightarrow> show_int n | None \<Rightarrow> [])"
| "request_url base (PostSymbols pid seq body) = base @ ''/v1/index/projects/'' @ show_int pid @ ''/symbols?seq='' @ show_int seq"
| "request_url base (PostObjects pid seq body) = base @ ''/v1/index/projects/'' @ show_int pid @ ''/objects?seq='' @ show_int seq"
| "request_url base (PostFinalize pid) = base @ ''/v1/index/projects/'' @ show_int pid @ ''/finalize''"
| "request_url base (PostContents body) = base @ ''/v1/index/contents''"
| "request_url base (PostCheck hashes) = base @ ''/v1/index/contents/check''"
| "request_url base GetProjects = base @ ''/v1/index/projects''"
| "request_url base (GetProject pid) = base @ ''/v1/index/projects/'' @ show_int pid"
| "request_url base (DeleteProject pid) = base @ ''/v1/index/projects/'' @ show_int pid"

subsection \<open>Projects\<close>

definition fetch_projects :: "client_env \<Rightarrow> project_info list client" where
  "fetch_projects env =
     sbind (demand env GetProjects ''Request failed: '' ''Failed to parse response: '' ''Request failed'') (\<lambda>body.
     case body of ProjectList ps \<Rightarrow> sreturn ps | _ \<Rightarrow> (\<lambda>w. (Inl ''Failed to parse response'', w)))"

definition resolve_project_id :: "client_env \<Rightarrow> project_selector \<Rightarrow> (int \<times> string option) client" where
  "resolve_project_id env selector =
     (case selector of
        SelectId i \<Rightarrow> sreturn (i, None)
      | SelectName name \<Rightarrow>
          sbind (fetch_projects env) (\<lambda>projects w.
          case filter (\<lambda>p. pi_name p = name) projects of
            [] \<Rightarrow> (Inl (''Project not found: '' @ name), w)
          | [p] \<Rightarrow> (Inr (pi_id p, Some (pi_name p)), w)
          | ps \<Rightarrow> (Inl (show_nat (length ps) @ '' projects named '' @ debug_str name @ '' ''
              @ [CHR 0xE2, CHR 0x80, CHR 0x94] @ '' use --id to disambiguate''), w)))"

record project_state =
  ps_project_id :: int
  ps_symbol_seqs :: "int set"
  ps_object_seqs :: "int set"

definition delete_existing :: "client_env \<Rightarrow> string \<Rightarrow> unit client" where
  "delete_existing env name =
     sbind (fetch_projects env) (\<lambda>projects.
     case List.find (\<lambda>p. pi_name p = name) projects of
       None \<Rightarrow> sreturn ()
     | Some existing \<Rightarrow>
         (\<lambda>w. case exchange env (DeleteProject (pi_id existing)) w of
            (Inl e, w') \<Rightarrow> (Inl (''Delete request failed: '' @ e), w')
          | (Inr (status, body), w') \<Rightarrow>
              if is_success status \<or> status = 404 then (Inr (), w')
              else (case body of
                      Inl e \<Rightarrow> (Inl e, w')
                    | Inr b \<Rightarrow> (Inl (describe env ''Failed to delete existing project'' status b), w'))))"

text \<open>A resumed project whose details cannot be had, other than by a failed request, counts as empty.\<close>

definition committed_seqs :: "client_env \<Rightarrow> int \<Rightarrow> (int set \<times> int set) client" where
  "committed_seqs env pid =
     (\<lambda>w. case exchange env (GetProject pid) w of
        (Inl e, w') \<Rightarrow> (Inl (''Request failed: '' @ e), w')
      | (Inr (status, body), w') \<Rightarrow>
          if \<not> is_success status then (Inr ({}, {}), w')
          else (case body of
                  Inr (Details d) \<Rightarrow> (Inr (set (pd_committed_symbols d), set (pd_committed_objects d)), w')
                | _ \<Rightarrow> (Inl ''Failed to parse project details'', w')))"

definition ensure_project ::
  "client_env \<Rightarrow> string \<Rightarrow> string \<Rightarrow> int \<Rightarrow> int \<Rightarrow> bool \<Rightarrow> project_state client" where
  "ensure_project env name root_path symbol_chunks object_chunks force =
     sbind (if force then delete_existing env name else sreturn ()) (\<lambda>_.
     sbind (demand env (PostProject (Some symbol_chunks) (Some object_chunks)
         (pe_project env \<lparr>up_name = name, up_root_path = root_path, up_objects = [], up_symbols = []\<rparr>))
       ''Request failed: '' [] ''Create project failed'') (\<lambda>body.
     case body of
       UploadReply pid resumed \<Rightarrow>
         sbind (if resumed then committed_seqs env pid else sreturn ({}, {})) (\<lambda>(symbols, objects).
         sreturn \<lparr>ps_project_id = pid, ps_symbol_seqs = symbols, ps_object_seqs = objects\<rparr>)
     | _ \<Rightarrow> (\<lambda>w. (Inl ''Failed to parse create response'', w))))"

subsection \<open>Contents\<close>

definition check_hashes_present :: "client_env \<Rightarrow> string list \<Rightarrow> string set client" where
  "check_hashes_present env hashes =
     sbind (smap (\<lambda>batch. sbind (demand env (PostCheck batch) ''Hash check request failed: '' [] ''Hash check failed'') (\<lambda>body.
       case body of Present present \<Rightarrow> sreturn present | _ \<Rightarrow> (\<lambda>w. (Inl ''error decoding response body'', w))))
       (chunks CONTENTS_HASH_BATCH_SIZE hashes)) (\<lambda>answers.
     sreturn (set (concat answers)))"

text \<open>The batches of new contents, none longer than the limit unless it is a single content.\<close>

fun sub_batches :: "string set \<Rightarrow> object_content list \<Rightarrow> object_content list \<Rightarrow> nat \<Rightarrow> object_content list list" where
  "sub_batches present [] current used = (if current = [] then [] else [current])"
| "sub_batches present (e # es) current used =
     (if ct_hash e \<in> present then sub_batches present es current used
      else let n = length (ct_content e) in
        if CONTENTS_UPLOAD_MAX_BYTES < used + n \<and> current \<noteq> []
        then current # sub_batches present es [e] n
        else sub_batches present es (current @ [e]) (used + n))"

text \<open>\<open>files\<close> reads a file.\<close>

definition load_batch :: "client_env \<Rightarrow> (string \<Rightarrow> string + byte list) \<Rightarrow> string \<Rightarrow> string + object_content list" where
  "load_batch env files path =
     rbind (map_err (\<lambda>e. ''Failed to read '' @ path @ '': '' @ e) (files path)) (\<lambda>data.
     map_err (\<lambda>e. ''Failed to decode '' @ path @ '': '' @ e) (pb_contents env data))"

definition upload_content_file_filtered ::
  "client_env \<Rightarrow> (string \<Rightarrow> string + byte list) \<Rightarrow> string set \<Rightarrow> string \<Rightarrow> unit client" where
  "upload_content_file_filtered env files present path =
     sbind (slift (load_batch env files path)) (\<lambda>batch.
     sbind (smap (\<lambda>sub. demand env (PostContents (pe_contents env sub)) ''Request failed: '' [] ''Content upload failed'')
       (sub_batches present batch [] 0)) (\<lambda>_.
     sreturn ()))"

definition upload_all_contents :: "client_env \<Rightarrow> (string \<Rightarrow> string + byte list) \<Rightarrow> string list \<Rightarrow> unit client" where
  "upload_all_contents env files paths =
     (if paths = [] then sreturn ()
      else sbind (slift (collect_results (map (load_batch env files) paths))) (\<lambda>batches.
           sbind (check_hashes_present env (filter (\<lambda>h. h \<noteq> []) (map ct_hash (concat batches)))) (\<lambda>present.
           sbind (smap (upload_content_file_filtered env files present) paths) (\<lambda>_. sreturn ()))))"

subsection \<open>One chunk\<close>

datatype attempt = Finished "string + unit" | Retry string

definition attempt_chunk :: "client_env \<Rightarrow> request \<Rightarrow> int \<Rightarrow> world \<Rightarrow> attempt \<times> world" where
  "attempt_chunk env req seq w =
     (case exchange env req w of
        (Inl e, w') \<Rightarrow> (Retry (''Network error: '' @ e), w')
      | (Inr (status, Inl e), w') \<Rightarrow> (Finished (Inl e), w')
      | (Inr (status, Inr body), w') \<Rightarrow>
          (if is_success status \<or> status = 409 then Finished (Inr ())
           else if is_server_error status then Retry (describe env ''Server error'' status body)
           else Finished (Inl (describe env (''Chunk seq='' @ show_int seq @ '' failed'') status body)), w'))"

text \<open>A task of \<open>upload_chunk_with_retry\<close> between two attempts.\<close>

record chunk_task =
  tk_seq :: int
  tk_request :: request
  tk_attempts :: nat

definition task_attempt :: "client_env \<Rightarrow> chunk_task \<Rightarrow> world \<Rightarrow> ((string + unit) + chunk_task) \<times> world" where
  "task_attempt env t w =
     (case attempt_chunk env (tk_request t) (tk_seq t) w of
        (Finished r, w') \<Rightarrow> (Inl r, w')
      | (Retry e, w') \<Rightarrow>
          (if tk_attempts t < CHUNK_MAX_RETRIES then Inr (t\<lparr>tk_attempts := tk_attempts t + 1\<rparr>)
           else Inl (Inl (''Chunk seq='' @ show_int (tk_seq t) @ '' failed after '' @ show_nat CHUNK_MAX_RETRIES
                  @ '' retries: '' @ e)), w'))"

subsection \<open>Chunks in flight\<close>

text \<open>
  The loop takes chunks from the queue and spawns tasks while the semaphore has permits; a
  schedule says whose turn it is.  A turn of a party that cannot move changes nothing.
\<close>

record window_state =
  ws_queue :: "(int \<times> byte list) list"
  ws_tasks :: "chunk_task list"
  ws_results :: "(string + unit) list"
  ws_world :: world

datatype turn = Spawn | Attempt nat

definition window_step ::
  "client_env \<Rightarrow> (int \<Rightarrow> byte list \<Rightarrow> request) \<Rightarrow> int set \<Rightarrow> nat \<Rightarrow> turn \<Rightarrow> window_state \<Rightarrow> window_state" where
  "window_step env post committed window turn st =
     (case turn of
        Spawn \<Rightarrow>
          (case ws_queue st of
             [] \<Rightarrow> st
           | (seq, buf) # rest \<Rightarrow>
               if seq \<in> committed then st\<lparr>ws_queue := rest\<rparr>
               else if length (ws_tasks st) < window
               then st\<lparr>ws_queue := rest,
                      ws_tasks := ws_tasks st @ [\<lparr>tk_seq = seq, tk_request = post seq buf, tk_attempts = 0\<rparr>]\<rparr>
               else st)
      | Attempt i \<Rightarrow>
          if i < length (ws_tasks st)
          then (case task_attempt env (ws_tasks st ! i) (ws_world st) of
                  (Inr t, w) \<Rightarrow> st\<lparr>ws_tasks := (ws_tasks st)[i := t], ws_world := w\<rparr>
                | (Inl r, w) \<Rightarrow> st\<lparr>ws_tasks := take i (ws_tasks st) @ drop (Suc i) (ws_tasks st),
                    ws_results := ws_results st @ [r], ws_world := w\<rparr>)
          else st)"

text \<open>The first failure that completed is returned at once; the other tasks go on without an owner.\<close>

definition window_outcome :: "window_state \<Rightarrow> (string + unit) option" where
  "window_outcome st =
     (if ws_queue st \<noteq> [] then None
      else case List.find (\<lambda>r. r \<noteq> Inr ()) (ws_results st) of
        Some r \<Rightarrow> Some r
      | None \<Rightarrow> if ws_tasks st = [] then Some (Inr ()) else None)"

text \<open>A computation that may still be under way when its schedule ends is \<open>None\<close>.\<close>

type_synonym 'a run = "world \<Rightarrow> (string + 'a) option \<times> world"

definition upload_chunks_windowed ::
  "client_env \<Rightarrow> (int \<Rightarrow> byte list \<Rightarrow> request) \<Rightarrow> int set \<Rightarrow> nat \<Rightarrow> (int \<times> byte list) list \<Rightarrow> turn list \<Rightarrow> unit run" where
  "upload_chunks_windowed env post committed window queue schedule w =
     (let st = fold (window_step env post committed window) schedule
            \<lparr>ws_queue = queue, ws_tasks = [], ws_results = [], ws_world = w\<rparr>
      in (window_outcome st, ws_world st))"

subsection \<open>The whole upload\<close>

definition run_step :: "'a client \<Rightarrow> 'a run" where
  "run_step m w = (case m w of (r, w') \<Rightarrow> (Some r, w'))"

definition run_bind :: "'a run \<Rightarrow> ('a \<Rightarrow> 'b run) \<Rightarrow> 'b run" where
  "run_bind m f w =
     (case m w of
        (None, w') \<Rightarrow> (None, w')
      | (Some (Inl e), w') \<Rightarrow> (Some (Inl e), w')
      | (Some (Inr a), w') \<Rightarrow> f a w')"

definition finish_upload :: "client_env \<Rightarrow> int \<Rightarrow> unit client" where
  "finish_upload env pid =
     (\<lambda>w. case exchange env (PostFinalize pid) w of
        (Inl e, w') \<Rightarrow> (Inl (''Failed to finalize project '' @ show_int pid @ '': '' @ e), w')
      | (Inr (status, body), w') \<Rightarrow>
          if is_success status then (Inr (), w')
          else (case body of Inl e \<Rightarrow> (Inl e, w') | Inr b \<Rightarrow> (Inl (describe env ''Finalize failed'' status b), w')))"

definition do_upload ::
  "client_env \<Rightarrow> (string \<Rightarrow> string + byte list) \<Rightarrow> project_state \<Rightarrow> (int \<times> byte list) list \<Rightarrow> (int \<times> byte list) list
    \<Rightarrow> string list \<Rightarrow> nat \<Rightarrow> turn list \<Rightarrow> turn list \<Rightarrow> unit run" where
  "do_upload env files state symbol_chunks object_chunks paths window symbol_turns object_turns =
     (let pid = ps_project_id state in
      run_bind (run_step (upload_all_contents env files paths)) (\<lambda>_.
      run_bind (if symbol_chunks = [] then run_step (sreturn ())
        else upload_chunks_windowed env (PostSymbols pid) (ps_symbol_seqs state) window symbol_chunks symbol_turns) (\<lambda>_.
      run_bind (if object_chunks = [] then run_step (sreturn ())
        else upload_chunks_windowed env (PostObjects pid) (ps_object_seqs state) window object_chunks object_turns) (\<lambda>_.
      run_step (finish_upload env pid)))))"

definition number_chunks :: "'a list \<Rightarrow> (int \<times> 'a) list" where
  "number_chunks xs = map (\<lambda>k. (as_i32 (int k), xs ! k)) [0..<length xs]"

definition symbol_message :: "upload_symbol list \<Rightarrow> upload_project" where
  "symbol_message ss = \<lparr>up_name = [], up_root_path = [], up_objects = [], up_symbols = ss\<rparr>"

definition object_message :: "upload_object list \<Rightarrow> upload_project" where
  "object_message obs = \<lparr>up_name = [], up_root_path = [], up_objects = obs, up_symbols = []\<rparr>"

definition upload_project_core ::
  "client_env \<Rightarrow> (string \<Rightarrow> string + byte list) \<Rightarrow> upload_project \<Rightarrow> string list \<Rightarrow> nat \<Rightarrow> bool
    \<Rightarrow> turn list \<Rightarrow> turn list \<Rightarrow> int run" where
  "upload_project_core env files upload paths window force symbol_turns object_turns =
     (let symbol_chunks = number_chunks (map (\<lambda>ss. pe_project env (symbol_message ss)) (chunks SYMBOLS_PER_CHUNK (up_symbols upload)));
          object_chunks = number_chunks (map (\<lambda>obs. pe_project env (object_message obs)) (chunks OBJECTS_PER_CHUNK (up_objects upload)))
      in run_bind (run_step (ensure_project env (up_name upload) (up_root_path upload)
           (as_i32 (int (length symbol_chunks))) (as_i32 (int (length object_chunks))) force)) (\<lambda>state.
         run_bind (do_upload env files state symbol_chunks object_chunks paths window symbol_turns object_turns) (\<lambda>_.
         run_step (sreturn (ps_project_id state)))))"

text \<open>The content files of a directory, in the order of their names.\<close>

definition content_files :: "string \<Rightarrow> string list \<Rightarrow> string list" where
  "content_files dir names =
     map (\<lambda>n. dir @ [slash] @ n)
       (sort (filter (\<lambda>n. strip_prefix ''contents-'' n \<noteq> None \<and> strip_prefix (rev ''.pb'') (rev n) \<noteq> None) names))"

definition load_project :: "client_env \<Rightarrow> (string \<Rightarrow> string + byte list) \<Rightarrow> string option \<Rightarrow> string \<Rightarrow> string + upload_project" where
  "load_project env files name path =
     rbind (map_err (\<lambda>e. ''Failed to read '' @ path @ '': '' @ e) (files path)) (\<lambda>data.
     rbind (map_err (\<lambda>e. ''Failed to decode protobuf: '' @ e) (pb_project env data)) (\<lambda>upload.
     Inr (case name of None \<Rightarrow> upload | Some n \<Rightarrow> upload\<lparr>up_name := n\<rparr>)))"

definition upload_single_file ::
  "client_env \<Rightarrow> (string \<Rightarrow> string + byte list) \<Rightarrow> string \<Rightarrow> string option \<Rightarrow> nat \<Rightarrow> bool \<Rightarrow> turn list \<Rightarrow> turn list \<Rightarrow> int run" where
  "upload_single_file env files path name window force symbol_turns object_turns =
     run_bind (run_step (slift (load_project env files name path))) (\<lambda>upload.
     upload_project_core env files upload [] window force symbol_turns object_turns)"

definition upload_directory ::
  "client_env \<Rightarrow> (string \<Rightarrow> string + byte list) \<Rightarrow> (string \<Rightarrow> bool) \<Rightarrow> (string \<Rightarrow> string + string list) \<Rightarrow> string \<Rightarrow> string option \<Rightarrow> nat \<Rightarrow> bool
    \<Rightarrow> turn list \<Rightarrow> turn list \<Rightarrow> int run" where
  "upload_directory env files exists entries dir name window force symbol_turns object_turns =
     (let project_pb = dir @ ''/project.pb'' in
      if \<not> exists project_pb then (\<lambda>w. (Some (Inl (''project.pb not found in directory: '' @ dir)), w))
      else run_bind (run_step (slift (map_err (\<lambda>e. ''Failed to read directory '' @ dir @ '': '' @ e) (entries dir)))) (\<lambda>names.
           run_bind (run_step (slift (load_project env files name project_pb))) (\<lambda>upload.
           upload_project_core env files upload (content_files dir names) window force symbol_turns object_turns)))"

subsection \<open>Invariants of the store under requests\<close>

definition kept_by :: "client_env \<Rightarrow> request \<Rightarrow> (store_db \<Rightarrow> bool) \<Rightarrow> bool" where
  "kept_by env req I \<longleftrightarrow> (\<forall>db. I db \<longrightarrow> I (snd (serve env req db)))"

definition client_keeps :: "(store_db \<Rightarrow> bool) \<Rightarrow> 'a client \<Rightarrow> bool" where
  "client_keeps I m \<longleftrightarrow> (\<forall>w. I (wd_db w) \<longrightarrow> I (wd_db (snd (m w))))"

lemma exchange_cases:
  obtains (lost) e fates where "exchange env req w = (Inl e, w\<lparr>wd_fates := fates\<rparr>)"
    | (served) r fates where "exchange env req w = (r, w\<lparr>wd_db := snd (serve env req (wd_db w)), wd_fates := fates\<rparr>)"
        "\<forall>status body. r = Inr (status, body) \<longrightarrow> status = hr_status (fst (serve env req (wd_db w)))
           \<and> (\<forall>b. body = Inr b \<longrightarrow> b = hr_reply (fst (serve env req (wd_db w))))"
proof -
  obtain fate fates where f: "next_fate w = (fate, fates)" by fastforce
  obtain resp db where s: "serve env req (wd_db w) = (resp, db)" by fastforce
  show thesis
  proof (cases fate)
    case RequestLost
    then show thesis using f s by (intro lost) (simp add: exchange_def)
  next
    case ReplyLost
    have "exchange env req w = (Inl ''error sending request'', w\<lparr>wd_db := snd (serve env req (wd_db w)), wd_fates := fates\<rparr>)"
      using ReplyLost f s by (simp add: exchange_def)
    then show thesis by (rule served) simp
  next
    case BodyLost
    have "exchange env req w = (Inr (hr_status resp, Inl ''error decoding response body''),
        w\<lparr>wd_db := snd (serve env req (wd_db w)), wd_fates := fates\<rparr>)"
      using BodyLost f s by (simp add: exchange_def)
    then show thesis by (rule served) (simp add: s)
  next
    case Delivered
    have "exchange env req w = (Inr (hr_status resp, Inr (hr_reply resp)),
        w\<lparr>wd_db := snd (serve env req (wd_db w)), wd_fates := fates\<rparr>)"
      using Delivered f s by (simp add: exchange_def)
    then show thesis by (rule served) (simp add: s)
  qed
qed

lemma exchange_keeps: "kept_by env req I \<Longrightarrow> client_keeps I (exchange env req)"
  unfolding client_keeps_def
proof (intro allI impI)
  fix w :: world assume keep: "kept_by env req I" and I: "I (wd_db w)"
  show "I (wd_db (snd (exchange env req w)))"
    by (cases rule: exchange_cases [of env req w]) (use keep I in \<open>auto simp: kept_by_def\<close>)
qed

lemma client_keeps_return [intro]: "client_keeps I (sreturn a)" "client_keeps I (slift r)"
  by (simp_all add: client_keeps_def sreturn_def slift_def)

lemma client_keeps_bind [intro]:
  assumes "client_keeps I m" "\<And>a. client_keeps I (f a)"
  shows "client_keeps I (sbind m f)"
  unfolding client_keeps_def
proof (intro allI impI)
  fix w :: world assume I: "I (wd_db w)"
  obtain r w1 where m: "m w = (r, w1)" by (cases "m w")
  then have "I (wd_db w1)" using assms(1) I unfolding client_keeps_def by (metis snd_conv)
  then show "I (wd_db (snd (sbind m f w)))" using m assms(2) by (cases r) (simp_all add: sbind_def client_keeps_def)
qed

lemma client_keeps_smap [intro]: "(\<And>x. x \<in> set xs \<Longrightarrow> client_keeps I (g x)) \<Longrightarrow> client_keeps I (smap g xs)"
proof (induction xs)
  case (Cons x xs)
  have "client_keeps I (smap g xs)" by (rule Cons.IH) (use Cons.prems in simp)
  then show ?case using Cons.prems by (auto intro!: client_keeps_bind client_keeps_return)
qed (simp add: client_keeps_return)

lemma demand_keeps: "kept_by env req I \<Longrightarrow> client_keeps I (demand env req lost unread failed)"
proof -
  assume "kept_by env req I"
  note ex = exchange_keeps [OF this]
  show ?thesis unfolding client_keeps_def
  proof (intro allI impI)
    fix w :: world assume I: "I (wd_db w)"
    obtain r w1 where m: "exchange env req w = (r, w1)" by fastforce
    then have "I (wd_db w1)" using ex I unfolding client_keeps_def by (metis snd_conv)
    then show "I (wd_db (snd (demand env req lost unread failed w)))"
      using m by (simp add: demand_def split: sum.split prod.split)
  qed
qed

subsection \<open>The window\<close>

definition window_work :: "window_state \<Rightarrow> nat" where
  "window_work st = 5 * length (ws_queue st) + sum_list (map (\<lambda>t. 4 - tk_attempts t) (ws_tasks st))"

definition window_ok :: "nat \<Rightarrow> window_state \<Rightarrow> bool" where
  "window_ok window st \<longleftrightarrow> length (ws_tasks st) \<le> window \<and> list_all (\<lambda>t. tk_attempts t \<le> 3) (ws_tasks st)"

lemma sum_update: "i < length xs \<Longrightarrow> f y < f (xs ! i) \<Longrightarrow> sum_list (map f (xs[i := y])) < (sum_list (map f xs) :: nat)"
proof (induction xs arbitrary: i)
  case (Cons x xs)
  then show ?case by (cases i) (auto simp: add_strict_left_mono)
qed simp

lemma sum_remove: "i < length xs \<Longrightarrow> 0 < f (xs ! i) \<Longrightarrow> sum_list (map f (take i xs @ drop (Suc i) xs)) < (sum_list (map f xs) :: nat)"
proof (induction xs arbitrary: i)
  case (Cons x xs)
  then show ?case by (cases i) auto
qed simp

lemma task_attempt_shape:
  assumes "task_attempt env t w = (r, w')"
  shows "(\<exists>a. r = Inl a) \<or> r = Inr (t\<lparr>tk_attempts := tk_attempts t + 1\<rparr>) \<and> tk_attempts t < 3"
  using assms by (auto simp: task_attempt_def CHUNK_MAX_RETRIES_def split: prod.splits attempt.splits if_splits)

lemma window_step_ok:
  assumes ok: "window_ok window st"
  shows "window_ok window (window_step env post committed window turn st)
    \<and> (window_step env post committed window turn st = st
       \<or> window_work (window_step env post committed window turn st) < window_work st)"
proof -
  define st' where st'_def: "st' = window_step env post committed window turn st"
  have "window_ok window st' \<and> (st' = st \<or> window_work st' < window_work st)"
  proof (cases turn)
    case Spawn
    show ?thesis
    proof (cases "ws_queue st")
      case Nil
      then show ?thesis using ok Spawn by (simp add: st'_def window_step_def)
    next
      case (Cons p rest)
      obtain seq buf where "p = (seq, buf)" by (cases p)
      then show ?thesis using ok Spawn Cons by (auto simp: st'_def window_step_def window_ok_def window_work_def)
    qed
  next
    case (Attempt i)
    show ?thesis
    proof (cases "i < length (ws_tasks st)")
      case True
      let ?t = "ws_tasks st ! i"
      have le: "tk_attempts ?t \<le> 3" using ok True by (simp add: window_ok_def list_all_length)
      obtain r w where run: "task_attempt env ?t (ws_world st) = (r, w)" by fastforce
      show ?thesis
      proof (cases r)
        case (Inl a)
        have "st' = st\<lparr>ws_tasks := take i (ws_tasks st) @ drop (Suc i) (ws_tasks st), ws_results := ws_results st @ [a], ws_world := w\<rparr>"
          using Attempt True run Inl by (simp add: st'_def window_step_def)
        moreover have "sum_list (map (\<lambda>t. 4 - tk_attempts t) (take i (ws_tasks st) @ drop (Suc i) (ws_tasks st)))
            < sum_list (map (\<lambda>t. 4 - tk_attempts t) (ws_tasks st))"
          by (rule sum_remove [OF True]) (use le in simp)
        moreover have "list_all (\<lambda>t. tk_attempts t \<le> 3) (take i (ws_tasks st) @ drop (Suc i) (ws_tasks st))"
          using ok by (auto simp: window_ok_def list_all_iff dest: in_set_takeD in_set_dropD)
        ultimately show ?thesis using ok True by (auto simp: window_ok_def window_work_def)
      next
        case (Inr t)
        then have t: "t = ?t\<lparr>tk_attempts := tk_attempts ?t + 1\<rparr>" "tk_attempts ?t < 3"
          using task_attempt_shape [OF run] by auto
        have "st' = st\<lparr>ws_tasks := (ws_tasks st)[i := t], ws_world := w\<rparr>"
          using Attempt True run Inr by (simp add: st'_def window_step_def)
        moreover have "sum_list (map (\<lambda>t. 4 - tk_attempts t) ((ws_tasks st)[i := t]))
            < sum_list (map (\<lambda>t. 4 - tk_attempts t) (ws_tasks st))"
          by (rule sum_update [OF True]) (use t in simp)
        moreover have "list_all (\<lambda>t. tk_attempts t \<le> 3) ((ws_tasks st)[i := t])"
          using ok t by (auto simp: window_ok_def list_all_iff dest!: subsetD [OF set_update_subset_insert])
        ultimately show ?thesis using ok by (simp add: window_ok_def window_work_def)
      qed
    next
      case False
      then show ?thesis using ok Attempt by (simp add: st'_def window_step_def)
    qed
  qed
  then show ?thesis unfolding st'_def .
qed

lemma window_runs_ok: "window_ok window st \<Longrightarrow> window_ok window (fold (window_step env post committed window) turns st)"
  by (induction turns arbitrary: st) (simp_all add: window_step_ok)

lemma window_can_move:
  assumes "window_ok window st" "0 < window" "window_outcome st = None"
  shows "\<exists>turn. window_work (window_step env post committed window turn st) < window_work st"
proof (cases "ws_tasks st")
  case Nil
  then obtain p rest where q: "ws_queue st = p # rest"
    using assms(3) by (auto simp: window_outcome_def neq_Nil_conv split: if_splits option.splits)
  obtain seq buf where "p = (seq, buf)" by (cases p)
  then have "window_step env post committed window Spawn st \<noteq> st"
    using q Nil assms(2) by (auto simp: window_step_def dest: arg_cong [where f = ws_queue])
  then show ?thesis using window_step_ok [OF assms(1)] by blast
next
  case (Cons t ts)
  have "window_step env post committed window (Attempt 0) st \<noteq> st"
  proof
    assume same: "window_step env post committed window (Attempt 0) st = st"
    obtain r w where run: "task_attempt env t (ws_world st) = (r, w)" by fastforce
    show False
    proof (cases r)
      case (Inl a)
      then show False using same Cons run by (auto simp: window_step_def dest: arg_cong [where f = ws_tasks])
    next
      case (Inr t')
      then have "t' \<noteq> t" using task_attempt_shape [OF run] by (auto dest: arg_cong [where f = tk_attempts])
      then show False using same Cons run Inr by (auto simp: window_step_def dest: arg_cong [where f = ws_tasks])
    qed
  qed
  then show ?thesis using window_step_ok [OF assms(1)] by blast
qed

text \<open>The turns of a schedule that change the state.\<close>

fun effective_turns ::
  "client_env \<Rightarrow> (int \<Rightarrow> byte list \<Rightarrow> request) \<Rightarrow> int set \<Rightarrow> nat \<Rightarrow> turn list \<Rightarrow> window_state \<Rightarrow> turn list" where
  "effective_turns env post committed window [] st = []"
| "effective_turns env post committed window (t # ts) st =
     (let st' = window_step env post committed window t st
      in (if st' = st then [] else [t]) @ effective_turns env post committed window ts st')"

lemma effective_work:
  "window_ok window st \<Longrightarrow>
   length (effective_turns env post committed window turns st) + window_work (fold (window_step env post committed window) turns st)
     \<le> window_work st"
proof (induction turns arbitrary: st)
  case (Cons t ts)
  let ?st = "window_step env post committed window t st"
  have "window_ok window ?st" "?st = st \<or> window_work ?st < window_work st" using window_step_ok [OF Cons.prems] by blast+
  then show ?case using Cons.IH [of ?st] by (auto simp: Let_def)
qed simp

lemma window_finishes:
  assumes "window_ok window st" "0 < window"
  shows "\<exists>turns. length turns \<le> window_work st \<and> window_outcome (fold (window_step env post committed window) turns st) \<noteq> None"
  using assms(1)
proof (induction "window_work st" arbitrary: st rule: less_induct)
  case less
  show ?case
  proof (cases "window_outcome st = None")
    case True
    obtain turn where t: "window_work (window_step env post committed window turn st) < window_work st"
      using window_can_move [OF less.prems assms(2) True] by blast
    then obtain turns where "length turns \<le> window_work (window_step env post committed window turn st)"
      "window_outcome (fold (window_step env post committed window) turns (window_step env post committed window turn st)) \<noteq> None"
      using less.hyps window_step_ok [OF less.prems] by blast
    then show ?thesis using t by (intro exI [of _ "turn # turns"]) auto
  qed (auto intro!: exI [of _ "[]"])
qed

text \<open>With a window of zero nothing is sent and nothing ends.\<close>

lemma zero_window_hangs:
  "seq \<notin> committed \<Longrightarrow> fst (upload_chunks_windowed env post committed 0 ((seq, buf) # queue) schedule w) = None"
proof -
  assume new: "seq \<notin> committed"
  let ?start = "\<lparr>ws_queue = (seq, buf) # queue, ws_tasks = [], ws_results = [], ws_world = w\<rparr>"
  have "window_step env post committed 0 turn ?start = ?start" for turn
    using new by (cases turn) (simp_all add: window_step_def)
  then have "fold (window_step env post committed 0) schedule ?start = ?start" by (induction schedule) simp_all
  then show ?thesis by (simp add: upload_chunks_windowed_def Let_def window_outcome_def)
qed

subsection \<open>What a finished window has done\<close>

lemma attempt_keeps: "kept_by env req I \<Longrightarrow> I (wd_db w) \<Longrightarrow> I (wd_db (snd (attempt_chunk env req seq w)))"
proof -
  assume "kept_by env req I" "I (wd_db w)"
  then have "I (wd_db (snd (exchange env req w)))" using exchange_keeps [of env req I] by (simp add: client_keeps_def)
  then show ?thesis
    by (cases "exchange env req w") (auto simp: attempt_chunk_def split: prod.split sum.split)
qed

lemma attempt_done:
  assumes "attempt_chunk env req seq w = (Finished (Inr ()), w')"
  shows "\<exists>resp. serve env req (wd_db w) = (resp, wd_db w') \<and> (is_success (hr_status resp) \<or> hr_status resp = 409)"
proof (cases rule: exchange_cases [of env req w])
  case (lost e fates)
  then show ?thesis using assms by (simp add: attempt_chunk_def)
next
  case (served r fates)
  then obtain status body where r: "r = Inr (status, Inr body)" "is_success status \<or> status = 409"
    using assms by (auto simp: attempt_chunk_def split: sum.splits prod.splits if_splits)
  moreover have "w' = w\<lparr>wd_db := snd (serve env req (wd_db w)), wd_fates := fates\<rparr>"
    using assms served(1) r(1) by (simp add: attempt_chunk_def)
  moreover have "status = hr_status (fst (serve env req (wd_db w)))" using served(2) r(1) by blast
  ultimately show ?thesis by (intro exI [of _ "fst (serve env req (wd_db w))"]) simp
qed

lemma task_attempt_keeps:
  "kept_by env (tk_request t) I \<Longrightarrow> I (wd_db w) \<Longrightarrow> task_attempt env t w = (r, w') \<Longrightarrow> I (wd_db w')"
  using attempt_keeps [of env "tk_request t" I w "tk_seq t"]
  by (auto simp: task_attempt_def split: prod.splits attempt.splits)

lemma task_attempt_done:
  "task_attempt env t w = (Inl (Inr ()), w') \<Longrightarrow>
   \<exists>resp. serve env (tk_request t) (wd_db w) = (resp, wd_db w') \<and> (is_success (hr_status resp) \<or> hr_status resp = 409)"
  using attempt_done [of env "tk_request t" "tk_seq t" w w']
  by (auto simp: task_attempt_def split: prod.splits attempt.splits if_splits)

definition window_inv ::
  "(int \<Rightarrow> byte list \<Rightarrow> request) \<Rightarrow> int set \<Rightarrow> (int \<times> byte list) list \<Rightarrow> (store_db \<Rightarrow> bool) \<Rightarrow> (int \<Rightarrow> store_db \<Rightarrow> bool)
    \<Rightarrow> window_state \<Rightarrow> bool" where
  "window_inv post committed queue I D st \<longleftrightarrow> I (wd_db (ws_world st)) \<and> set (ws_queue st) \<subseteq> set queue
     \<and> (\<forall>t\<in>set (ws_tasks st). \<exists>buf. (tk_seq t, buf) \<in> set queue \<and> tk_request t = post (tk_seq t) buf)
     \<and> (\<forall>c\<in>set queue. fst c \<in> committed \<or> c \<in> set (ws_queue st) \<or> fst c \<in> tk_seq ` set (ws_tasks st)
          \<or> D (fst c) (wd_db (ws_world st)) \<or> (\<exists>r\<in>set (ws_results st). r \<noteq> Inr ()))"

lemma set_without: "i < length xs \<Longrightarrow> set xs = insert (xs ! i) (set (take i xs @ drop (Suc i) xs))"
  by (metis id_take_nth_drop list.simps(15) set_append Un_insert_right)

lemma window_inv_step:
  assumes keep: "\<And>c. c \<in> set queue \<Longrightarrow> kept_by env (post (fst c) (snd c)) I"
    and mono: "\<And>c s. c \<in> set queue \<Longrightarrow> kept_by env (post (fst c) (snd c)) (\<lambda>db. I db \<and> D s db)"
    and did: "\<And>c db resp db'. c \<in> set queue \<Longrightarrow> I db \<Longrightarrow> serve env (post (fst c) (snd c)) db = (resp, db')
      \<Longrightarrow> is_success (hr_status resp) \<or> hr_status resp = 409 \<Longrightarrow> D (fst c) db'"
    and inv: "window_inv post committed queue I D st"
  shows "window_inv post committed queue I D (window_step env post committed window turn st)"
proof (cases turn)
  case Spawn
  show ?thesis
  proof (cases "ws_queue st")
    case Nil
    then show ?thesis using inv Spawn by (simp add: window_step_def)
  next
    case (Cons p rest)
    obtain seq buf where p: "p = (seq, buf)" by (cases p)
    have mem: "(seq, buf) \<in> set queue" "set rest \<subseteq> set queue" using inv Cons p by (auto simp: window_inv_def)
    show ?thesis using inv Spawn Cons p mem unfolding window_inv_def window_step_def by (auto simp: p)
  qed
next
  case (Attempt i)
  show ?thesis
  proof (cases "i < length (ws_tasks st)")
    case True
    let ?t = "ws_tasks st ! i"
    have "?t \<in> set (ws_tasks st)" using True by simp
    then obtain buf where t: "(tk_seq ?t, buf) \<in> set queue" "tk_request ?t = post (tk_seq ?t) buf"
      using inv unfolding window_inv_def by blast
    obtain r w where run: "task_attempt env ?t (ws_world st) = (r, w)" by fastforce
    have I: "I (wd_db (ws_world st))" using inv by (simp add: window_inv_def)
    have I': "I (wd_db w)" using task_attempt_keeps [of env ?t I "ws_world st" r w] keep [OF t(1)] t(2) I run by simp
    have D': "D s (wd_db w)" if "D s (wd_db (ws_world st))" for s
      using task_attempt_keeps [of env ?t "\<lambda>db. I db \<and> D s db" "ws_world st" r w] mono [OF t(1)] t(2) run I that by simp
    show ?thesis
    proof (cases r)
      case (Inl a)
      have st': "window_step env post committed window turn st =
          st\<lparr>ws_tasks := take i (ws_tasks st) @ drop (Suc i) (ws_tasks st), ws_results := ws_results st @ [a], ws_world := w\<rparr>"
        using Attempt True run Inl by (simp add: window_step_def)
      have tasks: "set (ws_tasks st) = insert ?t (set (take i (ws_tasks st) @ drop (Suc i) (ws_tasks st)))"
        by (rule set_without [OF True])
      have "D (tk_seq ?t) (wd_db w) \<or> a \<noteq> Inr ()"
      proof (cases "a = Inr ()")
        case True
        then obtain resp where "serve env (post (tk_seq ?t) buf) (wd_db (ws_world st)) = (resp, wd_db w)"
          "is_success (hr_status resp) \<or> hr_status resp = 409"
          using task_attempt_done run Inl t(2) by metis
        then show ?thesis using did [OF t(1) I] by simp
      qed simp
      then show ?thesis unfolding st' window_inv_def using inv I' D' tasks unfolding window_inv_def by auto
    next
      case (Inr t')
      then have "t' = ?t\<lparr>tk_attempts := tk_attempts ?t + 1\<rparr>" using task_attempt_shape [OF run] by auto
      then have same: "tk_seq t' = tk_seq ?t" "tk_request t' = tk_request ?t" by simp_all
      have st': "window_step env post committed window turn st = st\<lparr>ws_tasks := (ws_tasks st)[i := t'], ws_world := w\<rparr>"
        using Attempt True run Inr by (simp add: window_step_def)
      have seqs: "tk_seq ` set ((ws_tasks st)[i := t']) = tk_seq ` set (ws_tasks st)"
      proof -
        have "map tk_seq ((ws_tasks st)[i := t']) = map tk_seq (ws_tasks st)"
          using True same(1) by (simp add: map_update list_update_same_conv)
        then show ?thesis by (metis list.set_map)
      qed
      have reqs: "\<exists>buf. (tk_seq x, buf) \<in> set queue \<and> tk_request x = post (tk_seq x) buf"
        if "x \<in> set ((ws_tasks st)[i := t'])" for x
      proof -
        have "x = t' \<or> x \<in> set (ws_tasks st)" using that set_update_subset_insert [of "ws_tasks st" i t'] by blast
        then show ?thesis using t same inv unfolding window_inv_def by fastforce
      qed
      show ?thesis unfolding st' window_inv_def using inv I' D' reqs unfolding window_inv_def by (simp add: seqs) blast
    qed
  next
    case False
    then show ?thesis using inv Attempt by (simp add: window_step_def)
  qed
qed

lemma window_done:
  assumes keep: "\<And>c. c \<in> set queue \<Longrightarrow> kept_by env (post (fst c) (snd c)) I"
    and mono: "\<And>c s. c \<in> set queue \<Longrightarrow> kept_by env (post (fst c) (snd c)) (\<lambda>db. I db \<and> D s db)"
    and did: "\<And>c db resp db'. c \<in> set queue \<Longrightarrow> I db \<Longrightarrow> serve env (post (fst c) (snd c)) db = (resp, db')
      \<Longrightarrow> is_success (hr_status resp) \<or> hr_status resp = 409 \<Longrightarrow> D (fst c) db'"
    and start: "I (wd_db w)"
    and run: "upload_chunks_windowed env post committed window queue schedule w = (Some (Inr ()), w')"
  shows "I (wd_db w') \<and> (\<forall>c\<in>set queue. fst c \<in> committed \<or> D (fst c) (wd_db w'))"
proof -
  let ?start = "\<lparr>ws_queue = queue, ws_tasks = [], ws_results = [], ws_world = w\<rparr>"
  have "window_inv post committed queue I D (fold (window_step env post committed window) schedule st)"
    if "window_inv post committed queue I D st" for st
    using that
  proof (induction schedule arbitrary: st)
    case (Cons turn turns)
    have "window_inv post committed queue I D (window_step env post committed window turn st)"
      by (rule window_inv_step) (use keep mono did Cons.prems in \<open>assumption | blast\<close>)+
    then show ?case using Cons.IH by simp
  qed simp
  moreover have "window_inv post committed queue I D ?start" using start by (simp add: window_inv_def)
  ultimately have inv: "window_inv post committed queue I D (fold (window_step env post committed window) schedule ?start)"
    by blast
  let ?st = "fold (window_step env post committed window) schedule ?start"
  have fin: "window_outcome ?st = Some (Inr ())" "ws_world ?st = w'"
    using run by (simp_all add: upload_chunks_windowed_def Let_def)
  then have "ws_queue ?st = []" "ws_tasks ?st = []" "\<forall>r\<in>set (ws_results ?st). r = Inr ()"
    by (auto simp: window_outcome_def find_None_iff find_Some_iff split: if_splits option.splits)
  then show ?thesis using inv fin(2) by (auto simp: window_inv_def)
qed

end
