(* ===== verification/Upload_Client_Exact.thy ===== *)
theory Upload_Client_Exact
  imports Upload_Client
begin

section \<open>What a successful upload leaves behind\<close>

text \<open>
  The client of \<open>Upload_Client\<close> against the store: when the upload of a new project succeeds, the
  project is complete and holds what the files said, whatever the network did and however the
  requests of a phase interleaved.
\<close>

subsection \<open>Requests are operations of the store\<close>









subsection \<open>Places of objects\<close>











subsection \<open>The invariant of an upload\<close>









subsection \<open>A new project\<close>






subsection \<open>The phases\<close>
















subsection \<open>A sample\<close>

text \<open>
  An encoding that can be decoded: numbers in unary, lists after their length, fields in order.
  It stands for protocol buffers in the samples.
\<close>

type_synonym 'a decoder = "byte list \<Rightarrow> ('a \<times> byte list) option"

definition decodes :: "'a decoder \<Rightarrow> ('a \<Rightarrow> byte list) \<Rightarrow> bool" where
  "decodes d e \<longleftrightarrow> (\<forall>x rest. d (e x @ rest) = Some (x, rest))"



definition dec_map :: "('a \<Rightarrow> 'b) \<Rightarrow> 'a decoder \<Rightarrow> 'b decoder" where
  "dec_map f d cs = map_option (\<lambda>(x, rest). (f x, rest)) (d cs)"



definition dec_pair :: "'a decoder \<Rightarrow> 'b decoder \<Rightarrow> ('a \<times> 'b) decoder" where
  "dec_pair d1 d2 cs =
     (case d1 cs of None \<Rightarrow> None | Some (a, rest) \<Rightarrow> dec_map (Pair a) d2 rest)"








lemma decodes_pair: "decodes d1 e1 \<Longrightarrow> decodes d2 e2 \<Longrightarrow> decodes (dec_pair d1 d2) (\<lambda>(a, b). e1 a @ e2 b)"
  by (auto simp: decodes_def dec_pair_def dec_map_def)





























subsection \<open>Chunks in flight\<close>



end
